(* ===== verification/Prelude.thy ===== *)
theory Prelude
  imports Main "HOL-Library.Word" "HOL-Library.Signed_Division"
begin

text \<open>
  What every component shares.  The kernel is compiled by Open Watcom for the 8086
  (small model, \<open>-j\<close>): \<open>char\<close> is a signed 8-bit value, \<open>int\<close> and pointers have 16 bits,
  \<open>long\<close> has 32.  A C integer is a word of its width; whether an operation reads it as
  signed (\<open>sint\<close>) or unsigned (\<open>uint\<close>, \<open>unat\<close>) is written where the source's
  types decide it.  The theory also collects the generic lemmas on lists and words that
  the components use, and the named collections their proofs draw on.
\<close>

unbundle bit_operations_syntax

type_synonym u8 = "8 word"
type_synonym u16 = "16 word"
type_synonym u32 = "32 word"

named_theorems word_nat \<open>moving word goals to natural numbers\<close>
named_theorems frame \<open>fields an operation leaves alone\<close>

section \<open>C conversions\<close>

text \<open>Promotion of a \<open>char\<close> to \<open>int\<close> (sign extension), truncation of an \<open>int\<close> to a \<open>char\<close>.\<close>

abbreviation c2i :: "u8 \<Rightarrow> u16" where
  "c2i c \<equiv> scast c"

abbreviation i2c :: "u16 \<Rightarrow> u8" where
  "i2c i \<equiv> ucast i"

lemma i2c_c2i: "i2c (c2i c) = c"
  by (rule bit_word_eqI) (simp add: bit_simps)

text \<open>Signed comparison of two \<open>int\<close>s.\<close>

definition slt16 :: "u16 \<Rightarrow> u16 \<Rightarrow> bool" where
  "slt16 a b \<longleftrightarrow> sint a < sint b"

definition sle16 :: "u16 \<Rightarrow> u16 \<Rightarrow> bool" where
  "sle16 a b \<longleftrightarrow> sint a \<le> sint b"

text \<open>A flag test \<open>(x & m) != 0\<close>, and clearing \<open>x & ~m\<close>.\<close>

definition has :: "'a::len word \<Rightarrow> 'a word \<Rightarrow> bool" where
  "has x m \<longleftrightarrow> x AND m \<noteq> 0"

definition clr :: "'a::len word \<Rightarrow> 'a word \<Rightarrow> 'a word" where
  "clr x m = x AND NOT m"

lemma bit_clr [simp]: "bit (clr x m) n \<longleftrightarrow> bit x n \<and> \<not> bit m n"
  by (auto simp: clr_def bit_simps dest: bit_imp_le_length)

lemma has_or [simp]: "has (x OR y) m \<longleftrightarrow> has x m \<or> has y m"
  by (auto simp: has_def bit_eq_iff bit_simps)

lemma has_clr_self [simp]: "\<not> has (clr x m) m"
  by (auto simp: has_def bit_eq_iff bit_and_iff)

lemma clr_clr [simp]: "clr (clr x m) m = clr x m"
  by (auto simp: bit_eq_iff)

lemma clr_zero [simp]: "clr 0 m = 0"
  by (auto simp: bit_eq_iff)

lemma has_zero [simp]: "\<not> has 0 m"
  by (simp add: has_def)

lemma clr_or_self [simp]: "clr (x OR m) m = clr x m"
  by (auto simp: bit_eq_iff bit_or_iff)

lemma clr_noop: "\<not> has x m \<Longrightarrow> clr x m = x"
  by (auto simp: has_def bit_eq_iff bit_simps)

lemma has_clr_iff: "m AND m' = 0 \<Longrightarrow> has (clr x m) m' = has x m'"
  by (auto simp: has_def bit_eq_iff bit_simps clr_def)

lemma has_clr [simp]: "m AND m' = 0 \<Longrightarrow> has (clr x m) m' = has x m'"
  by (rule has_clr_iff)

text \<open>Tests of constants evaluate.\<close>

lemma has_constant [simp]:
  "has (numeral a :: 'a::len word) (numeral b) \<longleftrightarrow> (numeral a AND numeral b :: 'a word) \<noteq> 0"
  "has (1 :: 'a::len word) (numeral b) \<longleftrightarrow> (1 AND numeral b :: 'a word) \<noteq> 0"
  "has (numeral a :: 'a::len word) 1 \<longleftrightarrow> (numeral a AND 1 :: 'a word) \<noteq> 0"
  "has (1 :: 'a::len word) 1"
  by (simp_all add: has_def)

lemma clr_constant [simp]:
  "clr (numeral a :: 'a::len word) (numeral b) = numeral a AND NOT (numeral b)"
  "clr (1 :: 'a::len word) (numeral b) = 1 AND NOT (numeral b)"
  "clr (numeral a :: 'a::len word) 1 = numeral a AND NOT 1"
  "clr (1 :: 'a::len word) 1 = 0"
  by (simp_all add: clr_def)

text \<open>The bytes of a string.\<close>

definition bytes :: "string \<Rightarrow> u8 list" where
  "bytes cs = map of_char cs"

section \<open>Lists\<close>

text \<open>
  Table searches of the form \<open>for (p = &t[0]; p < &t[N]; p++) if (P(p)) ...\<close> return the
  index of the first entry that satisfies the test.
\<close>

fun find_index :: "('a \<Rightarrow> bool) \<Rightarrow> 'a list \<Rightarrow> nat option" where
  "find_index P [] = None"
| "find_index P (x # xs) = (if P x then Some 0 else map_option Suc (find_index P xs))"

lemma find_index_None: "find_index P xs = None \<longleftrightarrow> (\<forall>x \<in> set xs. \<not> P x)"
  by (induction xs) auto

lemma find_index_Some:
  "find_index P xs = Some i \<longleftrightarrow> i < length xs \<and> P (xs ! i) \<and> (\<forall>j < i. \<not> P (xs ! j))"
proof (induction xs arbitrary: i)
  case Nil
  then show ?case by simp
next
  case (Cons x xs)
  show ?case
  proof (cases i)
    case 0
    then show ?thesis by auto
  next
    case (Suc k)
    have "(\<forall>j < Suc k. \<not> P ((x # xs) ! j)) \<longleftrightarrow> \<not> P x \<and> (\<forall>j < k. \<not> P (xs ! j))"
      by (auto simp: less_Suc_eq_0_disj)
    with Suc Cons.IH [of k] show ?thesis by auto
  qed
qed

lemma find_index_lt: "find_index P xs = Some i \<Longrightarrow> i < length xs"
  by (simp add: find_index_Some)

lemma find_index_sat: "find_index P xs = Some i \<Longrightarrow> P (xs ! i)"
  by (simp add: find_index_Some)

lemma butlast_last_Cons [simp]: "xs \<noteq> [] \<Longrightarrow> butlast xs @ last xs # ys = xs @ ys"
  by (induction xs) auto

text \<open>Updating one entry of a table through a function.\<close>

definition upd :: "nat \<Rightarrow> ('a \<Rightarrow> 'a) \<Rightarrow> 'a list \<Rightarrow> 'a list" where
  "upd i f xs = xs[i := f (xs ! i)]"

lemma length_upd [simp]: "length (upd i f xs) = length xs"
  by (simp add: upd_def)

lemma nth_upd: "j < length xs \<Longrightarrow> upd i f xs ! j = (if i = j then f (xs ! i) else xs ! j)"
  by (auto simp: upd_def)

lemma nth_upd_eq [simp]: "i < length xs \<Longrightarrow> upd i f xs ! i = f (xs ! i)"
  by (simp add: upd_def)

lemma nth_upd_neq [simp]: "i \<noteq> j \<Longrightarrow> upd i f xs ! j = xs ! j"
  by (simp add: upd_def)

section \<open>Words\<close>

lemma unat_add_no_wrap:
  "unat (a::u16) + unat b < 65536 \<Longrightarrow> unat (a + b) = unat a + unat b"
  by (simp add: unat_word_ariths)

lemma unat_sub_le: "b \<le> a \<Longrightarrow> unat (a - b) = unat a - unat (b::'a::len word)"
  by (simp add: unat_sub)

lemma unat16_lt [simp]: "unat (x::u16) < 65536"
  using unsigned_less [of x, where ?'a = nat] by simp

lemma word_zero_iff [word_nat]: "x = 0 \<longleftrightarrow> unat (x::'a::len word) = 0"
  by (simp add: unat_eq_0)

lemma unat_ucast: "unat (ucast (x::'a::len word) :: 'b::len word) = unat x mod 2 ^ LENGTH('b)"
  by (simp add: unsigned_ucast_eq take_bit_eq_mod)

lemma unat_widen [simp]: "unat (ucast (x::u16) :: u32) = unat x"
proof -
  have "unat x < 4294967296" using unat16_lt [of x] by linarith
  then show ?thesis by (simp add: unat_ucast)
qed

lemma unat_low_half: "unat (ucast (x::u32) :: u16) = unat x mod 65536"
  by (simp add: unat_ucast)

lemma unat_drop_bit: "unat (drop_bit n (x::'a::len word)) = unat x div 2 ^ n"
  by (subst unat_drop_bit_eq) (rule drop_bit_eq_div)

lemma sint16_eq_unat: "sint (x::u16) = int (unat x)" if "unat x < 32768"
proof -
  have "int (unat x) < 32768" using that by linarith
  then have "uint x < 32768" by simp
  moreover have "- 32768 \<le> uint x" by (rule order_trans [of _ 0]) simp_all
  ultimately have "sint x = uint x" by (simp add: sint_uint signed_take_bit_int_eq_self_iff)
  then show ?thesis by simp
qed

lemma sint32_eq_unat: "sint (x::u32) = int (unat x)" if "unat x < 2147483648"
proof -
  have "int (unat x) < 2147483648" using that by linarith
  then have "uint x < 2147483648" by simp
  moreover have "- 2147483648 \<le> uint x" by (rule order_trans [of _ 0]) simp_all
  ultimately have "sint x = uint x" by (simp add: sint_uint signed_take_bit_int_eq_self_iff)
  then show ?thesis by simp
qed

lemmas word_le_unat = word_le_nat_alt word_less_nat_alt

declare word_le_nat_alt [word_nat] word_less_nat_alt [word_nat]

end
