(* ===== verification/Arith.thy ===== *)
theory Arith
  imports Prelude
begin

text \<open>
  The double-precision arithmetic of \<open>dmr/pc.c\<close> (\<open>dpadd\<close>, \<open>dpcmp\<close>, \<open>ldiv\<close>,
  \<open>lrem\<close>, \<open>lshift\<close>) and the unsigned \<open>max\<close>/\<open>min\<close> of \<open>ken/rdwri.c\<close>.  An
  \<open>int x[2]\<close> is the pair of its words \<open>(x[0], x[1])\<close>, high word first, as file offsets and
  times are kept everywhere in the kernel.  The lemmas read such a pair as one 32-bit number.
\<close>

type_synonym dword = "u16 \<times> u16"

section \<open>The union of a long and two ints\<close>

definition i32_of :: "dword \<Rightarrow> u32" where
  "i32_of x = push_bit 16 (ucast (fst x)) OR ucast (snd x)"

definition i16_of :: "u32 \<Rightarrow> dword" where
  "i16_of a = (ucast (drop_bit 16 a), ucast a)"

section \<open>The routines\<close>

definition dpadd :: "dword \<Rightarrow> u16 \<Rightarrow> dword" where
  "dpadd x y = i16_of (i32_of x + ucast y)"

definition dpcmp :: "u16 \<Rightarrow> u16 \<Rightarrow> u16 \<Rightarrow> u16 \<Rightarrow> u16" where
  "dpcmp xh xl yh yl =
     (let diff = i32_of (xh, xl) - i32_of (yh, yl)
      in if sint diff > 512 then 512
         else if sint diff < -512 then -512
         else ucast diff)"

text \<open>
  C division truncates towards zero.  A zero divisor traps on the 8086; every caller passes a
  non-zero constant.
\<close>

definition ldiv :: "u16 \<Rightarrow> u16 \<Rightarrow> u16" where
  "ldiv x y = word_of_int (sint x sdiv sint y)"

definition lrem :: "u16 \<Rightarrow> u16 \<Rightarrow> u16" where
  "lrem x y = word_of_int (sint x smod sint y)"

text \<open>A \<open>long\<close> shift: left for a count \<open>bits \<ge> 0\<close>, arithmetic right otherwise.\<close>

definition lshift :: "dword \<Rightarrow> int \<Rightarrow> u16" where
  "lshift num bits =
     (let a = i32_of num
      in if bits \<ge> 0 then ucast (push_bit (nat bits) a)
         else ucast (signed_drop_bit (nat (- bits)) a))"

definition max_u :: "u16 \<Rightarrow> u16 \<Rightarrow> u16" where
  "max_u a b = (if a > b then a else b)"

definition min_u :: "u16 \<Rightarrow> u16 \<Rightarrow> u16" where
  "min_u a b = (if a < b then a else b)"

section \<open>Reading a pair as a number\<close>

definition dval :: "dword \<Rightarrow> nat" where
  "dval x = 65536 * unat (fst x) + unat (snd x)"

lemma dval_lt: "dval x < 2 ^ 32"
proof -
  have "unat (fst x) \<le> 65535" "unat (snd x) \<le> 65535"
    using unat16_lt [of "fst x"] unat16_lt [of "snd x"] by linarith+
  then show ?thesis by (simp add: dval_def)
qed

lemma i32_of_add: "i32_of x = push_bit 16 (ucast (fst x)) + ucast (snd x)"
proof -
  have "push_bit 16 (ucast (fst x) :: u32) AND ucast (snd x) = 0"
    by (auto simp: bit_eq_iff bit_simps dest: bit_imp_le_length)
  then show ?thesis by (simp add: i32_of_def disjunctive_add_eq_or)
qed

lemma unat_i32_of: "unat (i32_of x) = dval x"
proof -
  have "unat (push_bit 16 (ucast (fst x)) :: u32) = 65536 * unat (fst x)"
    using unat16_lt [of "fst x"]
    by (simp add: push_bit_eq_mult unat_word_ariths)
  then show ?thesis
    using dval_lt [of x] by (simp add: i32_of_add unat_word_ariths dval_def)
qed

lemma dval_i16_of: "dval (i16_of a) = unat a"
proof -
  have lt: "unat a < 2 ^ 32" using unsigned_less [of a, where ?'a = nat] by simp
  then have "unat (ucast (drop_bit 16 a) :: u16) = unat a div 65536"
    by (simp only: unat_low_half unat_drop_bit) simp
  then show ?thesis by (simp add: dval_def i16_of_def unat_low_half)
qed

lemma dval_inject: "dval x = dval y \<longleftrightarrow> x = y"
proof
  assume eq: "dval x = dval y"
  have *: "dval z div 65536 = unat (fst z)" "dval z mod 65536 = unat (snd z)" for z
    using unat16_lt [of "snd z"] by (simp_all add: dval_def)
  from eq * [of x] * [of y] show "x = y" by (simp add: prod_eq_iff word_unat_eq_iff)
qed simp

lemma i16_of_i32_of [simp]: "i16_of (i32_of x) = x"
  by (metis dval_i16_of dval_inject unat_i32_of)

lemma dval_dpadd: "dval (dpadd x y) = (dval x + unat y) mod 2 ^ 32"
  by (simp add: dpadd_def dval_i16_of unat_word_ariths unat_i32_of)

lemma dval_dpadd_no_wrap: "dval x + unat y < 2 ^ 32 \<Longrightarrow> dval (dpadd x y) = dval x + unat y"
  by (simp add: dval_dpadd)

lemma lshift_right_eq: "k < 16 \<Longrightarrow> lshift x (- int k) = ucast (drop_bit k (i32_of x))"
  by (cases "k = 0") (auto simp: lshift_def Let_def intro!: bit_word_eqI simp: bit_simps split: if_splits)

lemma unat_lshift_right: "k < 16 \<Longrightarrow> unat (lshift x (- int k)) = dval x div 2 ^ k mod 65536"
  by (simp only: lshift_right_eq unat_low_half unat_drop_bit unat_i32_of)

text \<open>The logical block number of a file offset: \<open>lshift(u.u_offset, -9)\<close>.\<close>

lemma unat_lshift9: "unat (lshift x (- 9)) = dval x div 512 mod 65536"
  using unat_lshift_right [of 9 x] by simp

section \<open>Signed comparison and division\<close>

lemma sint_i32_of: "dval x < 2 ^ 31 \<Longrightarrow> sint (i32_of x) = int (dval x)"
  by (simp add: sint32_eq_unat unat_i32_of)

lemma dpcmp_clamp:
  assumes "dval (xh, xl) < 2 ^ 31" and "dval (yh, yl) < 2 ^ 31"
  shows "sint (dpcmp xh xl yh yl)
    = max (- 512) (min 512 (int (dval (xh, xl)) - int (dval (yh, yl))))"
proof -
  let ?d = "i32_of (xh, xl) - i32_of (yh, yl)"
  let ?n = "int (dval (xh, xl)) - int (dval (yh, yl))"
  have d: "sint ?d = ?n"
    using assms by (simp add: sint_word_ariths sint_i32_of signed_take_bit_int_eq_self_iff)
  have "sint (ucast ?d :: u16) = ?n" if "?n \<le> 512" "- 512 \<le> ?n"
  proof -
    have "sint (ucast ?d :: u16) = signed_take_bit 15 (sint ?d)"
      by (simp add: sint_uint unsigned_ucast_eq signed_take_bit_take_bit)
    with that show ?thesis by (simp only: d) (simp add: signed_take_bit_int_eq_self_iff)
  qed
  then show ?thesis by (auto simp: dpcmp_def Let_def d)
qed

text \<open>A non-positive result means the first number is not above the second.\<close>

lemma ldiv_pos:
  assumes "unat x < 32768" and "unat y < 32768"
  shows "unat (ldiv x y) = unat x div unat y" and "unat (lrem x y) = unat x mod unat y"
proof -
  have "ldiv x y = word_of_int (int (unat x div unat y))"
    using assms by (simp add: ldiv_def sint16_eq_unat signed_divide_int_def zdiv_int)
  moreover have "unat x div unat y < 65536"
    using assms(1) div_le_dividend [of "unat x" "unat y"] by linarith
  ultimately show "unat (ldiv x y) = unat x div unat y"
    by (simp add: unat_of_nat)
  have "lrem x y = word_of_int (int (unat x mod unat y))"
    using assms by (simp add: lrem_def sint16_eq_unat signed_modulo_int_def signed_divide_int_def zmod_int
        minus_div_mult_eq_mod zdiv_int)
  moreover have "unat x mod unat y < 65536"
    using assms(1) mod_less_eq_dividend [of "unat x" "unat y"] by linarith
  ultimately show "unat (lrem x y) = unat x mod unat y"
    by (simp add: unat_of_nat)
qed

lemma unat_min_u: "unat (min_u a b) = min (unat a) (unat b)"
  by (auto simp: min_u_def word_less_nat_alt)

lemma unat_max_u: "unat (max_u a b) = max (unat a) (unat b)"
  by (auto simp: max_u_def word_less_nat_alt)

end
