(* ===== verification/CoreMap.thy ===== *)
theory CoreMap
  imports Prelude
begin

text \<open>
  The resource maps of \<open>ken/malloc.c\<close>: \<open>coremap\<close> and \<open>swapmap\<close> are arrays of
  (size, address) entries that list the free segments by increasing address and end with the
  first zero size.  \<open>malloc\<close> is first fit, \<open>mfree\<close> inserts a segment and joins it with its
  neighbours.  The C loops walk a pointer along the array; here they recurse on the rest of the
  array from that pointer on, so every entry, stale ones after the end included, is kept.
  The locale \<open>space_map\<close> states what the users of a map (process creation, swapping) rely on.
\<close>

record mapent =
  m_size :: u16
  m_addr :: u16

section \<open>The routines\<close>

text \<open>\<open>while (bp->m_size) { bp++; bp[-1] = bp[0]; }\<close>: close the gap at the first entry.\<close>

fun shift_down :: "mapent list \<Rightarrow> mapent list" where
  "shift_down (e # e' # es) =
     (if m_size e = 0 then e # e' # es else e' # shift_down (e' # es))"
| "shift_down es = es"

text \<open>The \<open>do ... while\<close> form of the same loop in \<open>malloc\<close> copies before it tests.\<close>

fun close_gap :: "mapent list \<Rightarrow> mapent list" where
  "close_gap (e # e' # es) = e' # shift_down (e' # es)"
| "close_gap es = es"

fun malloc :: "mapent list \<Rightarrow> u16 \<Rightarrow> u16 \<times> mapent list" where
  "malloc [] sz = (0, [])"
| "malloc (bp # es) sz =
     (if m_size bp = 0 then (0, bp # es)
      else if m_size bp \<ge> sz then
        (let bp' = bp\<lparr>m_addr := m_addr bp + sz, m_size := m_size bp - sz\<rparr>
         in (m_addr bp, if m_size bp' = 0 then close_gap (bp' # es) else bp' # es))
      else (let (a, es') = malloc es sz in (a, bp # es')))"

text \<open>The insertion loop of \<open>mfree\<close>: exchange the segment in hand with each entry in turn.\<close>

fun ripple :: "mapent list \<Rightarrow> u16 \<Rightarrow> u16 \<Rightarrow> mapent list" where
  "ripple [] sz a = []"
| "ripple (bp # es) sz a =
     bp\<lparr>m_addr := a, m_size := sz\<rparr>
       # (if m_size bp \<noteq> 0 then ripple es (m_size bp) (m_addr bp) else es)"

text \<open>
  \<open>pre\<close> are the entries the scan of \<open>mfree\<close> passed, so \<open>last pre\<close> is \<open>bp[-1]\<close> and
  \<open>bp > mp\<close> says that \<open>pre\<close> is not empty.
\<close>

definition mfree :: "mapent list \<Rightarrow> u16 \<Rightarrow> u16 \<Rightarrow> mapent list" where
  "mfree mp sz a =
     (let P = (\<lambda>e. m_addr e \<le> a \<and> m_size e \<noteq> 0);
          pre = takeWhile P mp; post = dropWhile P mp
      in if pre \<noteq> [] \<and> m_addr (last pre) + m_size (last pre) = a then
           (let p = (last pre)\<lparr>m_size := m_size (last pre) + sz\<rparr>
            in case post of
                 [] \<Rightarrow> butlast pre @ [p]
               | bp # es \<Rightarrow>
                   if a + sz = m_addr bp
                   then butlast pre @ p\<lparr>m_size := m_size p + m_size bp\<rparr> # shift_down post
                   else butlast pre @ p # post)
         else
           (case post of
              [] \<Rightarrow> pre
            | bp # es \<Rightarrow>
                if a + sz = m_addr bp \<and> m_size bp \<noteq> 0
                then pre @ bp\<lparr>m_addr := m_addr bp - sz, m_size := m_size bp + sz\<rparr> # es
                else if sz \<noteq> 0 then pre @ ripple post sz a
                else mp))"

section \<open>Well-formed maps and the units they hold\<close>

abbreviation seg_end :: "mapent \<Rightarrow> nat" where
  "seg_end e \<equiv> unat (m_addr e) + unat (m_size e)"

definition seg_units :: "mapent \<Rightarrow> nat set" where
  "seg_units e = {unat (m_addr e) ..< seg_end e}"

definition range_of :: "u16 \<Rightarrow> u16 \<Rightarrow> nat set" where
  "range_of a sz = {unat a ..< unat a + unat sz}"

text \<open>
  Segments from \<open>lo\<close> on: none empty, none wrapping round, addresses increasing, and at least
  one used unit between two neighbours (else they would have been joined).
\<close>

fun wf_segs :: "nat \<Rightarrow> mapent list \<Rightarrow> bool" where
  "wf_segs lo [] = True"
| "wf_segs lo (e # es) =
     (m_size e \<noteq> 0 \<and> lo \<le> unat (m_addr e) \<and> seg_end e < 65536 \<and> wf_segs (Suc (seg_end e)) es)"

text \<open>An array: segments, then at least one entry of size zero, and only such entries.\<close>

definition segs :: "mapent list \<Rightarrow> mapent list" where
  "segs mp = takeWhile (\<lambda>e. m_size e \<noteq> 0) mp"

definition spare :: "mapent list \<Rightarrow> mapent list" where
  "spare mp = dropWhile (\<lambda>e. m_size e \<noteq> 0) mp"

definition wf_map :: "nat \<Rightarrow> mapent list \<Rightarrow> bool" where
  "wf_map lo mp \<longleftrightarrow>
     wf_segs lo (segs mp) \<and> spare mp \<noteq> [] \<and> (\<forall>e \<in> set (spare mp). m_size e = 0)"

definition map_units :: "mapent list \<Rightarrow> nat set" where
  "map_units mp = (\<Union>e \<in> set (segs mp). seg_units e)"

lemma segs_spare: "segs mp @ spare mp = mp"
  by (simp add: segs_def spare_def)

lemma segs_Cons [simp]: "segs (e # es) = (if m_size e = 0 then [] else e # segs es)"
  and spare_Cons [simp]: "spare (e # es) = (if m_size e = 0 then e # es else spare es)"
  and segs_Nil [simp]: "segs [] = []"
  and spare_Nil [simp]: "spare [] = []"
  by (simp_all add: segs_def spare_def)

lemma segs_append_nz: "\<forall>e \<in> set xs. m_size e \<noteq> 0 \<Longrightarrow> segs (xs @ ys) = xs @ segs ys"
  and spare_append_nz: "\<forall>e \<in> set xs. m_size e \<noteq> 0 \<Longrightarrow> spare (xs @ ys) = spare ys"
  by (simp_all add: segs_def spare_def)

lemma segs_zero: "\<forall>e \<in> set xs. m_size e = 0 \<Longrightarrow> segs xs = [] \<and> spare xs = xs"
  by (cases xs) auto

lemma wf_map_Cons_zero [simp]:
  "m_size e = 0 \<Longrightarrow> wf_map lo (e # es) \<longleftrightarrow> (\<forall>x \<in> set es. m_size x = 0)"
  by (auto simp: wf_map_def)

lemma wf_map_Cons_nz [simp]:
  "m_size e \<noteq> 0 \<Longrightarrow> wf_map lo (e # es) \<longleftrightarrow>
     lo \<le> unat (m_addr e) \<and> seg_end e < 65536 \<and> wf_map (Suc (seg_end e)) es"
  by (auto simp: wf_map_def)

lemma wf_map_Nil [simp]: "\<not> wf_map lo []"
  by (simp add: wf_map_def)

lemma map_units_Nil [simp]: "map_units [] = {}"
  and map_units_Cons [simp]:
    "map_units (e # es) = (if m_size e = 0 then {} else seg_units e \<union> map_units es)"
  by (simp_all add: map_units_def)

lemma wf_segs_mono: "wf_segs hi es \<Longrightarrow> lo \<le> hi \<Longrightarrow> wf_segs lo es"
  by (cases es) auto

lemma wf_map_mono: "wf_map hi mp \<Longrightarrow> lo \<le> hi \<Longrightarrow> wf_map lo mp"
  by (auto simp: wf_map_def intro: wf_segs_mono)

lemma wf_map_units_ge: "wf_map lo mp \<Longrightarrow> u \<in> map_units mp \<Longrightarrow> lo \<le> u"
proof (induction mp arbitrary: lo)
  case (Cons e es)
  show ?case
  proof (cases "m_size e = 0 \<or> u \<in> seg_units e")
    case True
    with Cons.prems show ?thesis by (auto simp: seg_units_def split: if_splits)
  next
    case False
    with Cons.prems Cons.IH [of "Suc (seg_end e)"] show ?thesis by auto
  qed
qed simp

section \<open>Allocation\<close>

lemma shift_down_wf:
  "m_size e \<noteq> 0 \<Longrightarrow> wf_map lo es \<Longrightarrow>
    wf_map lo (shift_down (e # es)) \<and> map_units (shift_down (e # es)) = map_units es"
proof (induction es arbitrary: e lo)
  case (Cons e' es)
  show ?case
  proof (cases "m_size e' = 0")
    case True
    with Cons.prems show ?thesis by (cases es) auto
  next
    case False
    with Cons.prems Cons.IH [of e' "Suc (seg_end e')"] show ?thesis by auto
  qed
qed simp

lemma close_gap_wf:
  assumes "wf_map lo es"
  shows "wf_map lo (close_gap (e # es)) \<and> map_units (close_gap (e # es)) = map_units es"
proof (cases es)
  case Nil
  with assms show ?thesis by simp
next
  case (Cons e' fs)
  show ?thesis
  proof (cases "m_size e' = 0")
    case True
    with Cons assms show ?thesis by (cases fs) auto
  next
    case False
    with Cons assms shift_down_wf [of e' "Suc (seg_end e')" fs] show ?thesis by auto
  qed
qed

text \<open>The index of the segment first fit picks.\<close>

abbreviation fits :: "u16 \<Rightarrow> mapent \<Rightarrow> bool" where
  "fits sz e \<equiv> sz \<le> m_size e"

lemma malloc_none: "find_index (fits sz) (segs mp) = None \<Longrightarrow> malloc mp sz = (0, mp)"
  by (induction mp) (auto split: if_splits)

lemma malloc_some:
  assumes "wf_map lo mp" and "find_index (fits sz) (segs mp) = Some i"
  shows "fst (malloc mp sz) = m_addr (segs mp ! i)
    \<and> wf_map lo (snd (malloc mp sz))
    \<and> map_units (snd (malloc mp sz)) = map_units mp - range_of (m_addr (segs mp ! i)) sz
    \<and> range_of (m_addr (segs mp ! i)) sz \<subseteq> map_units mp"
  using assms
proof (induction mp arbitrary: lo i)
  case Nil
  then show ?case by simp
next
  case (Cons bp es)
  from Cons.prems(2) have nz: "m_size bp \<noteq> 0" by (auto split: if_splits)
  with Cons.prems(1) have wf: "lo \<le> unat (m_addr bp)" "seg_end bp < 65536"
    "wf_map (Suc (seg_end bp)) es" by auto
  have later: "u \<in> map_units es \<Longrightarrow> Suc (seg_end bp) \<le> u" for u
    using wf_map_units_ge wf(3) by blast
  show ?case
  proof (cases "fits sz bp")
    case True
    let ?bp = "bp\<lparr>m_addr := m_addr bp + sz, m_size := m_size bp - sz\<rparr>"
    from True have sub: "unat sz \<le> unat (m_size bp)" "unat (m_size bp - sz) = unat (m_size bp) - unat sz"
      by (simp_all add: word_le_nat_alt unat_sub_le)
    with wf(2) have ad: "unat (m_addr bp + sz) = unat (m_addr bp) + unat sz"
      by (intro unat_add_no_wrap) linarith
    have r: "range_of (m_addr bp) sz \<subseteq> seg_units bp"
      using sub(1) by (auto simp: range_of_def seg_units_def)
    from True Cons.prems(2) nz have i: "i = 0" by simp
    have disj: "map_units es - range_of (m_addr bp) sz = map_units es"
      using later r by (fastforce simp: seg_units_def)
    show ?thesis
    proof (cases "m_size bp - sz = 0")
      case True
      then have "unat (m_size bp) = unat sz" using sub by (metis diff_diff_cancel diff_zero unat_0)
      then have "range_of (m_addr bp) sz = seg_units bp" by (simp add: range_of_def seg_units_def)
      moreover have "wf_map lo es" using wf by (auto intro: wf_map_mono)
      ultimately show ?thesis
        using True \<open>fits sz bp\<close> nz i close_gap_wf [of lo es ?bp] disj by auto
    next
      case False
      have "seg_units ?bp = seg_units bp - range_of (m_addr bp) sz"
        using sub ad by (auto simp: seg_units_def range_of_def)
      then show ?thesis
        using False \<open>fits sz bp\<close> nz i wf sub ad r disj by (auto simp: Let_def)
    qed
  next
    case False
    with Cons.prems(2) nz obtain j where j: "i = Suc j" "find_index (fits sz) (segs es) = Some j"
      by auto
    note IH = Cons.IH [OF wf(3) j(2)]
    have "seg_units bp \<inter> range_of (m_addr (segs es ! j)) sz = {}"
      using IH later by (fastforce simp: seg_units_def)
    then show ?thesis
      using IH False nz j wf by (auto simp: split_beta)
  qed
qed

section \<open>Freeing\<close>

lemma wf_segs_append:
  "wf_segs lo (xs @ ys) \<longleftrightarrow>
     wf_segs lo xs \<and> wf_segs (if xs = [] then lo else Suc (seg_end (last xs))) ys"
  by (induction xs arbitrary: lo) auto

lemma wf_map_append:
  assumes "\<forall>e \<in> set xs. m_size e \<noteq> 0"
  shows "wf_map lo (xs @ ys) \<longleftrightarrow>
    wf_segs lo xs \<and> wf_map (if xs = [] then lo else Suc (seg_end (last xs))) ys"
  using assms by (auto simp: wf_map_def segs_append_nz spare_append_nz wf_segs_append)

lemma map_units_append:
  "\<forall>e \<in> set xs. m_size e \<noteq> 0 \<Longrightarrow> map_units (xs @ ys) = (\<Union>e \<in> set xs. seg_units e) \<union> map_units ys"
  by (simp add: map_units_def segs_append_nz)

lemma ripple_wf:
  "wf_map hi mp \<Longrightarrow> sz \<noteq> 0 \<Longrightarrow> lo \<le> unat a \<Longrightarrow> unat a + unat sz < hi \<Longrightarrow> hi \<le> 65536 \<Longrightarrow>
   length (segs mp) + 1 < length mp \<Longrightarrow>
     wf_map lo (ripple mp sz a) \<and> map_units (ripple mp sz a) = map_units mp \<union> range_of a sz"
proof (induction mp arbitrary: hi sz lo a)
  case (Cons bp es)
  show ?case
  proof (cases "m_size bp = 0")
    case True
    with Cons.prems have "es \<noteq> []" "\<forall>e \<in> set es. m_size e = 0" by auto
    with True Cons.prems segs_zero [of es] show ?thesis
      by (auto simp: range_of_def seg_units_def wf_map_def map_units_def)
  next
    case False
    with Cons.prems have "wf_map (Suc (seg_end bp)) es" "seg_end bp < 65536" by auto
    moreover from this have "wf_map (Suc (unat a + unat sz)) (ripple es (m_size bp) (m_addr bp))
      \<and> map_units (ripple es (m_size bp) (m_addr bp)) = map_units es \<union> range_of (m_addr bp) (m_size bp)"
      using False Cons.prems by (intro Cons.IH [of "Suc (seg_end bp)"]) auto
    ultimately show ?thesis
      using False Cons.prems by (auto simp: range_of_def seg_units_def)
  qed
qed simp

text \<open>Splitting a well-formed map at the point where the scan of \<open>mfree\<close> stops.\<close>

definition passed :: "u16 \<Rightarrow> mapent \<Rightarrow> bool" where
  "passed a e \<longleftrightarrow> m_addr e \<le> a \<and> m_size e \<noteq> 0"

lemma scan_split:
  assumes "wf_map lo mp" and "pre = takeWhile (passed a) mp"
  obtains bp es where "mp = pre @ bp # es" and "dropWhile (passed a) mp = bp # es"
    and "\<not> passed a bp" and "\<forall>e \<in> set pre. m_size e \<noteq> 0 \<and> unat (m_addr e) \<le> unat a"
    and "wf_segs lo pre" and "wf_map (if pre = [] then lo else Suc (seg_end (last pre))) (bp # es)"
proof -
  let ?post = "dropWhile (passed a) mp"
  have mp: "mp = pre @ ?post" using assms by simp
  have nz: "\<forall>e \<in> set pre. m_size e \<noteq> 0 \<and> unat (m_addr e) \<le> unat a"
    using assms(2) by (auto dest!: set_takeWhileD simp: passed_def word_le_nat_alt)
  then have wf: "wf_segs lo pre \<and> wf_map (if pre = [] then lo else Suc (seg_end (last pre))) ?post"
    using assms(1) wf_map_append [of pre lo ?post] by (simp add: assms(2))
  then obtain bp es where post: "?post = bp # es" by (cases ?post) auto
  then have "\<not> passed a bp" using hd_dropWhile [of "passed a" mp] by simp
  with mp post nz wf show ?thesis by (intro that [of bp es]) simp_all
qed

lemma mfree_split:
  assumes "pre = takeWhile (passed a) mp" and "dropWhile (passed a) mp = bp # es"
  shows "mfree mp sz a =
    (if pre \<noteq> [] \<and> m_addr (last pre) + m_size (last pre) = a then
       butlast pre @ (if a + sz = m_addr bp
         then (last pre)\<lparr>m_size := m_size (last pre) + sz + m_size bp\<rparr> # shift_down (bp # es)
         else (last pre)\<lparr>m_size := m_size (last pre) + sz\<rparr> # bp # es)
     else pre @ (if a + sz = m_addr bp \<and> m_size bp \<noteq> 0
       then bp\<lparr>m_addr := m_addr bp - sz, m_size := m_size bp + sz\<rparr> # es
       else if sz \<noteq> 0 then ripple (bp # es) sz a else bp # es))"
proof -
  have "mp = pre @ bp # es" using assms takeWhile_dropWhile_id [of "passed a" mp] by metis
  with assms show ?thesis by (simp add: mfree_def passed_def [abs_def])
qed

lemma mfree_zero:
  assumes "wf_map lo mp"
  shows "mfree mp 0 a = mp"
proof -
  define pre where "pre = takeWhile (passed a) mp"
  obtain bp es where *: "mp = pre @ bp # es" "dropWhile (passed a) mp = bp # es" "\<not> passed a bp"
    using assms pre_def by (rule scan_split)
  have "shift_down (bp # es) = bp # es" if "m_size bp = 0"
    using that by (cases es) auto
  then have "mfree mp 0 a = pre @ bp # es"
    using *(3) by (auto simp: mfree_split [OF pre_def *(2)] passed_def)
  then show ?thesis by (simp add: *(1))
qed

lemma snoc_segs:
  assumes "wf_segs lo pre" "pre \<noteq> []"
  shows "lo \<le> unat (m_addr (last pre))" "m_size (last pre) \<noteq> 0" "seg_end (last pre) < 65536"
    "\<And>p ys. m_addr p = m_addr (last pre) \<Longrightarrow>
      wf_segs lo (butlast pre @ p # ys) \<longleftrightarrow> m_size p \<noteq> 0 \<and> seg_end p < 65536 \<and> wf_segs (Suc (seg_end p)) ys"
proof -
  let ?lo = "if butlast pre = [] then lo else Suc (seg_end (last (butlast pre)))"
  have w: "wf_segs lo (butlast pre)" "wf_segs ?lo [last pre]"
    using assms wf_segs_append [of lo "butlast pre" "[last pre]"] by auto
  then show "m_size (last pre) \<noteq> 0" "seg_end (last pre) < 65536" by auto
  show "lo \<le> unat (m_addr (last pre))"
    using assms by (induction pre arbitrary: lo) force+
  fix p :: mapent and ys assume "m_addr p = m_addr (last pre)"
  with w show "wf_segs lo (butlast pre @ p # ys) \<longleftrightarrow>
      m_size p \<noteq> 0 \<and> seg_end p < 65536 \<and> wf_segs (Suc (seg_end p)) ys"
    by (auto simp: wf_segs_append)
qed

lemma snoc_map:
  assumes "wf_segs lo pre" "pre \<noteq> []" "\<forall>e \<in> set pre. m_size e \<noteq> 0"
    and "m_addr p = m_addr (last pre)" "m_size p \<noteq> 0" "seg_end p < 65536"
    and "wf_map (Suc (seg_end p)) ys"
  shows "wf_map lo (butlast pre @ p # ys)"
    and "map_units (butlast pre @ p # ys)
      = (\<Union>e \<in> set (butlast pre). seg_units e) \<union> seg_units p \<union> map_units ys"
proof -
  have nz: "\<forall>e \<in> set (butlast pre @ [p]). m_size e \<noteq> 0"
    using assms(3,5) by (auto dest: in_set_butlastD)
  have "wf_segs lo (butlast pre @ [p])"
    using assms by (simp add: snoc_segs(4))
  with nz assms(7) show "wf_map lo (butlast pre @ p # ys)"
    using wf_map_append [of "butlast pre @ [p]" lo ys] by simp
  show "map_units (butlast pre @ p # ys)
      = (\<Union>e \<in> set (butlast pre). seg_units e) \<union> seg_units p \<union> map_units ys"
    using map_units_append [OF nz, of ys] by auto
qed

lemma Union_butlast:
  "pre \<noteq> [] \<Longrightarrow> (\<Union>e \<in> set pre. f e) = (\<Union>e \<in> set (butlast pre). f e) \<union> f (last pre)"
  by (induction pre) auto

text \<open>
  The functional specification: freeing a segment none of whose units is free adds exactly its
  units, and keeps the map sorted, joined and terminated.  The array needs one spare entry beside
  the terminator when the segment touches no neighbour; asking for it always covers both cases.
\<close>

lemma mfree_ok:
  assumes wf: "wf_map lo mp" and lo: "lo \<le> unat a" and nw: "unat a + unat sz < 65536"
    and disj: "range_of a sz \<inter> map_units mp = {}" and room: "length (segs mp) + 1 < length mp"
  shows "wf_map lo (mfree mp sz a) \<and> map_units (mfree mp sz a) = map_units mp \<union> range_of a sz"
proof (cases "sz = 0")
  case True
  with wf show ?thesis by (simp add: mfree_zero range_of_def)
next
  case False
  then have pos: "0 < unat sz" by (simp add: unat_gt_0)
  define pre where "pre = takeWhile (passed a) mp"
  obtain bp es where mp: "mp = pre @ bp # es" and post: "dropWhile (passed a) mp = bp # es"
    and bp: "\<not> passed a bp" and nz: "\<forall>e \<in> set pre. m_size e \<noteq> 0 \<and> unat (m_addr e) \<le> unat a"
    and wfp: "wf_segs lo pre" and wfq: "wf_map (if pre = [] then lo else Suc (seg_end (last pre))) (bp # es)"
    using wf pre_def by (rule scan_split)
  note split = mfree_split [OF pre_def post, of sz]
  have asz: "unat (a + sz) = unat a + unat sz" using nw by (rule unat_add_no_wrap)
  have nz': "\<forall>e \<in> set pre. m_size e \<noteq> 0" "\<forall>e \<in> set (butlast pre). m_size e \<noteq> 0"
    using nz by (auto dest: in_set_butlastD)
  have units: "map_units mp = (\<Union>e \<in> set pre. seg_units e) \<union> map_units (bp # es)"
    using mp nz' by (simp only: map_units_append)
  have right: "unat a + unat sz \<le> unat (m_addr bp)" if "m_size bp \<noteq> 0"
  proof (rule ccontr)
    assume "\<not> ?thesis"
    moreover have "unat a < unat (m_addr bp)" using bp that by (simp add: passed_def word_le_nat_alt)
    ultimately have "unat (m_addr bp) \<in> range_of a sz" by (simp add: range_of_def)
    moreover have "unat (m_addr bp) \<in> seg_units bp" using that by (simp add: seg_units_def unat_gt_0)
    ultimately show False using disj units that by auto
  qed
  have left: "seg_end (last pre) \<le> unat a" if "pre \<noteq> []"
  proof (rule ccontr)
    assume "\<not> ?thesis"
    with nz that have "unat a \<in> seg_units (last pre)" by (simp add: seg_units_def)
    moreover have "unat a \<in> range_of a sz" using pos by (simp add: range_of_def)
    ultimately show False using disj units last_in_set [OF that] by blast
  qed
  show ?thesis
  proof (cases "pre \<noteq> [] \<and> m_addr (last pre) + m_size (last pre) = a")
    case True
    let ?l = "last pre"
    from True have ne: "pre \<noteq> []" and la: "m_addr ?l + m_size ?l = a" by auto
    note l = snoc_segs(1-3) [OF wfp ne]
    have lend: "seg_end ?l = unat a" using l(3) la unat_add_no_wrap by metis
    have lsz: "unat (m_size ?l + sz) = unat (m_size ?l) + unat sz"
      using nw lend by (intro unat_add_no_wrap) linarith
    let ?p = "?l\<lparr>m_size := m_size ?l + sz\<rparr>"
    have pu: "seg_units ?p = seg_units ?l \<union> range_of a sz" "seg_end ?p = unat a + unat sz"
      using lsz lend by (auto simp: seg_units_def range_of_def)
    have pnz: "m_size ?p \<noteq> 0" using lsz pos by (auto simp: word_zero_iff)
    show ?thesis
    proof (cases "a + sz = m_addr bp \<and> m_size bp \<noteq> 0")
      case True
      let ?q = "?l\<lparr>m_size := m_size ?l + sz + m_size bp\<rparr>"
      have bpe: "seg_end bp < 65536" "wf_map (Suc (seg_end bp)) es"
        using wfq True by auto
      have bpa: "unat (m_addr bp) = unat a + unat sz" using True asz by simp
      have "unat (m_size ?l + sz + m_size bp) = unat (m_size ?l) + unat sz + unat (m_size bp)"
        using bpe(1) bpa lend lsz by (subst unat_add_no_wrap) linarith+
      then have qu: "seg_units ?q = seg_units ?l \<union> range_of a sz \<union> seg_units bp"
        "seg_end ?q = seg_end bp" "m_size ?q \<noteq> 0"
        using bpa lend pos by (auto simp: seg_units_def range_of_def word_zero_iff)
      note sh = shift_down_wf [OF conjunct2 [OF True] bpe(2)]
      have "wf_map (Suc (seg_end ?q)) (shift_down (bp # es))" using sh qu(2) by simp
      note m = snoc_map [OF wfp ne nz'(1) _ qu(3) _ this]
      show ?thesis
        using m sh qu bpe units True la ne by (auto simp: split Union_butlast)
    next
      case False
      have same: "a + sz = m_addr bp \<Longrightarrow> shift_down (bp # es) = bp # es"
        "a + sz = m_addr bp \<Longrightarrow> m_size bp = 0"
        using False by (cases es; simp)+
      have "unat a + unat sz < unat (m_addr bp)" if "m_size bp \<noteq> 0"
        using right [OF that] False that asz by (metis le_neq_implies_less word_unat_eq_iff)
      then have "wf_map (Suc (seg_end ?p)) (bp # es)"
        using wfq ne pu(2) by (cases "m_size bp = 0") auto
      note m = snoc_map [OF wfp ne nz'(1) _ pnz _ this]
      show ?thesis
        using m pu nw units same la ne by (auto simp: split Union_butlast)
    qed
  next
    case False
    have gap: "pre \<noteq> [] \<Longrightarrow> seg_end (last pre) < unat a"
      using False left snoc_segs(3) [OF wfp] unat_add_no_wrap
      by (metis le_neq_implies_less word_unat_eq_iff)
    let ?hi = "if pre = [] then lo else Suc (seg_end (last pre))"
    have hi: "?hi \<le> unat a" using gap lo by auto
    have lift: "wf_map lo (pre @ ys) \<and> map_units (pre @ ys) = map_units mp \<union> range_of a sz"
      if "wf_map ?hi ys" "map_units ys = map_units (bp # es) \<union> range_of a sz" for ys
      using that wfp wf_map_append [OF nz'(1), of lo ys] map_units_append [OF nz'(1), of ys] units by auto
    show ?thesis
    proof (cases "a + sz = m_addr bp \<and> m_size bp \<noteq> 0")
      case True
      let ?q = "bp\<lparr>m_addr := m_addr bp - sz, m_size := m_size bp + sz\<rparr>"
      have bpe: "seg_end bp < 65536" "wf_map (Suc (seg_end bp)) es" using wfq True by auto
      have bpa: "m_addr bp - sz = a" "unat (m_addr bp) = unat a + unat sz"
        using True asz by (auto simp: algebra_simps)
      have "unat (m_size bp + sz) = unat (m_size bp) + unat sz"
        using bpe(1) bpa(2) by (intro unat_add_no_wrap) linarith
      with bpa have q: "seg_units ?q = seg_units bp \<union> range_of a sz" "seg_end ?q = seg_end bp"
        "m_size ?q \<noteq> 0" "unat (m_addr ?q) = unat a"
        using pos by (auto simp: seg_units_def range_of_def word_zero_iff)
      have "wf_map ?hi (?q # es)" "map_units (?q # es) = map_units (bp # es) \<union> range_of a sz"
        using q bpe hi True by auto
      from lift [OF this] True False show ?thesis by (auto simp: split)
    next
      case nojoin: False
      have *: "unat a + unat sz < unat (m_addr bp)" if "m_size bp \<noteq> 0"
        using right [OF that] nojoin that asz by (metis le_neq_implies_less word_unat_eq_iff)
      have room': "length (segs (bp # es)) + 1 < length (bp # es)"
        using room mp segs_append_nz [OF nz'(1), of "bp # es"] by auto
      have "wf_map ?hi (ripple (bp # es) sz a)
        \<and> map_units (ripple (bp # es) sz a) = map_units (bp # es) \<union> range_of a sz"
      proof (cases "m_size bp = 0")
        case True
        with wfq room' \<open>sz \<noteq> 0\<close> hi nw show ?thesis
          by (intro ripple_wf [of 65536]) auto
      next
        case False
        with wfq room' \<open>sz \<noteq> 0\<close> hi nw * show ?thesis
          by (intro ripple_wf [of "unat (m_addr bp)"]) auto
      qed
      with lift have "wf_map lo (pre @ ripple (bp # es) sz a)
        \<and> map_units (pre @ ripple (bp # es) sz a) = map_units mp \<union> range_of a sz" by blast
      with nojoin False \<open>sz \<noteq> 0\<close> show ?thesis by (auto simp: split)
    qed
  qed
qed

section \<open>The map is determined by the free units\<close>

lemma map_units_hole: "wf_map lo (e # es) \<Longrightarrow> m_size e \<noteq> 0 \<Longrightarrow> seg_end e \<notin> map_units (e # es)"
  using wf_map_units_ge [of "Suc (seg_end e)" es "seg_end e"] by (auto simp: seg_units_def)

lemma map_units_first:
  assumes "wf_map lo (e # es)" "m_size e \<noteq> 0"
  shows "unat (m_addr e) \<in> map_units (e # es)" "u \<in> map_units (e # es) \<Longrightarrow> unat (m_addr e) \<le> u"
    "seg_units e \<subseteq> map_units (e # es)" "map_units es = map_units (e # es) - seg_units e"
  using assms wf_map_units_ge [of "Suc (seg_end e)" es] by (auto simp: seg_units_def unat_gt_0) fastforce+

lemma map_units_empty: "wf_map lo mp \<Longrightarrow> map_units mp = {} \<longleftrightarrow> segs mp = []"
  by (cases mp) (auto simp: seg_units_def unat_gt_0)

theorem segs_canonical:
  "wf_map lo mp \<Longrightarrow> wf_map lo' mp' \<Longrightarrow> map_units mp = map_units mp' \<Longrightarrow> segs mp = segs mp'"
proof (induction mp arbitrary: lo lo' mp')
  case (Cons e es)
  show ?case
  proof (cases "m_size e = 0")
    case True
    with Cons.prems map_units_empty [OF Cons.prems(2)] show ?thesis by simp
  next
    case False
    note f = map_units_first [OF Cons.prems(1) False]
    then have "segs mp' \<noteq> []" using Cons.prems map_units_empty by blast
    then obtain e' es' where mp': "mp' = e' # es'" "m_size e' \<noteq> 0"
      by (cases mp') (auto split: if_splits)
    with Cons.prems have w': "wf_map lo' (e' # es')" by simp
    note f' = map_units_first [OF w' mp'(2)]
    have u: "map_units (e # es) = map_units (e' # es')" using Cons.prems mp' by simp
    have a: "unat (m_addr e) = unat (m_addr e')" using f(1,2) f'(1,2) u by (metis order_antisym)
    have "seg_end e \<notin> seg_units e'" "seg_end e' \<notin> seg_units e"
      using map_units_hole [OF Cons.prems(1) False] map_units_hole [OF w' mp'(2)] f(3) f'(3) u by blast+
    then have "seg_end e = seg_end e'" using a by (auto simp: seg_units_def)
    with a have e: "e = e'" by (simp add: word_unat_eq_iff)
    with f(4) f'(4) u have "map_units es = map_units es'" by simp
    with Cons.IH [of "Suc (seg_end e)" "Suc (seg_end e')" es'] Cons.prems(1) w' False mp'(2) e
    have "segs es = segs es'" by auto
    with e mp' False show ?thesis by simp
  qed
qed simp

section \<open>The contract the users of a map rely on\<close>

locale space_map =
  fixes alloc :: "'m \<Rightarrow> u16 \<Rightarrow> u16 \<times> 'm"
    and release :: "'m \<Rightarrow> u16 \<Rightarrow> u16 \<Rightarrow> 'm"
    and free_units :: "'m \<Rightarrow> nat set"
    and ok :: "'m \<Rightarrow> bool"
    and room :: "'m \<Rightarrow> bool"
  assumes alloc_ok: "ok m \<Longrightarrow> alloc m n = (a, m') \<Longrightarrow> a \<noteq> 0 \<Longrightarrow>
      ok m' \<and> range_of a n \<subseteq> free_units m \<and> free_units m' = free_units m - range_of a n
        \<and> unat a + unat n < 65536"
    and alloc_room: "ok m \<Longrightarrow> room m \<Longrightarrow> alloc m n = (a, m') \<Longrightarrow> room m'"
    and alloc_fail: "ok m \<Longrightarrow> alloc m n = (0, m') \<Longrightarrow> m' = m"
    and release_ok: "ok m \<Longrightarrow> room m \<Longrightarrow> a \<noteq> 0 \<Longrightarrow> unat a + unat n < 65536 \<Longrightarrow> range_of a n \<inter> free_units m = {} \<Longrightarrow>
      ok (release m n a) \<and> free_units (release m n a) = free_units m \<union> range_of a n"
begin

lemma alloc_twice_disjoint:
  assumes "ok m" "alloc m n = (a, m1)" "a \<noteq> 0" "alloc m1 k = (b, m2)" "b \<noteq> 0"
  shows "range_of a n \<inter> range_of b k = {}"
proof -
  from alloc_ok [OF assms(1-3)] have "ok m1" "free_units m1 = free_units m - range_of a n" by auto
  moreover from alloc_ok [OF this(1) assms(4,5)] have "range_of b k \<subseteq> free_units m1" by simp
  ultimately show ?thesis by blast
qed

lemma alloc_release_units:
  assumes "ok m" "alloc m n = (a, m1)" "a \<noteq> 0" "room m"
  shows "ok (release m1 n a) \<and> free_units (release m1 n a) = free_units m"
proof -
  note al = alloc_ok [OF assms(1-3)]
  then have "range_of a n \<inter> free_units m1 = {}" by blast
  with al alloc_room [OF assms(1,4,2)] release_ok [of m1 a n] assms(3) show ?thesis by auto
qed

lemma release_alloc_conserve:
  assumes "ok m" "alloc m n = (a, m1)" "a \<noteq> 0"
  shows "free_units m1 \<union> range_of a n = free_units m" "free_units m1 \<inter> range_of a n = {}"
  using alloc_ok [OF assms] by auto

end

text \<open>
  A map in use holds units from 1 on (0 is the failure value); there is room to free a segment
  when the array has an entry beside the terminator.
\<close>

definition map_room :: "mapent list \<Rightarrow> bool" where
  "map_room mp \<longleftrightarrow> length (segs mp) + 1 < length mp"

lemma length_shift_down: "length (shift_down es) = length es"
  by (induction es rule: shift_down.induct) auto

lemma length_close_gap: "length (close_gap es) = length es"
  by (induction es rule: close_gap.induct) (auto simp: length_shift_down)

lemma length_malloc: "length (snd (malloc mp sz)) = length mp"
  by (induction mp) (auto simp: length_close_gap Let_def split_beta)

lemma segs_shift_down: "wf_map lo es \<Longrightarrow> m_size e \<noteq> 0 \<Longrightarrow> segs (shift_down (e # es)) = segs es"
proof (induction es arbitrary: e lo)
  case (Cons e' es)
  then show ?case by (cases "m_size e' = 0"; cases es) auto
qed simp

lemma segs_malloc: "wf_map lo mp \<Longrightarrow> length (segs (snd (malloc mp sz))) \<le> length (segs mp)"
proof (induction mp arbitrary: lo)
  case (Cons bp es)
  have "length (segs (close_gap (e # es))) \<le> Suc (length (segs es))" if "wf_map l es" for e l
    using that segs_shift_down [of _ "tl es" "hd es"] by (cases es; cases "m_size (hd es) = 0") auto
  with Cons show ?case by (auto simp: Let_def split_beta)
qed simp

lemma length_ripple: "wf_map lo mp \<Longrightarrow> length (ripple mp sz a) = length mp"
  by (induction mp arbitrary: lo sz a) auto

lemma malloc_cases:
  assumes "wf_map 1 mp" and "malloc mp sz = (a, mp')"
  shows "a = 0 \<Longrightarrow> mp' = mp"
    and "a \<noteq> 0 \<Longrightarrow> wf_map 1 mp' \<and> range_of a sz \<subseteq> map_units mp
      \<and> map_units mp' = map_units mp - range_of a sz \<and> unat a + unat sz < 65536"
proof -
  have bound: "wf_map lo m \<Longrightarrow> e \<in> set (segs m) \<Longrightarrow> lo \<le> unat (m_addr e) \<and> seg_end e < 65536" for lo m e
    by (induction m arbitrary: lo) (fastforce split: if_splits)+
  have fit: "a = m_addr (segs mp ! i) \<and> wf_map 1 mp' \<and> range_of a sz \<subseteq> map_units mp
      \<and> map_units mp' = map_units mp - range_of a sz \<and> a \<noteq> 0 \<and> unat a + unat sz < 65536"
    if i: "find_index (fits sz) (segs mp) = Some i" for i
  proof -
    have "segs mp ! i \<in> set (segs mp)" "fits sz (segs mp ! i)"
      using find_index_lt [OF i] find_index_sat [OF i] by auto
    then have "1 \<le> unat (m_addr (segs mp ! i))" "unat (m_addr (segs mp ! i)) + unat sz < 65536"
      using bound [OF assms(1)] by (fastforce simp: word_le_nat_alt)+
    then show ?thesis using malloc_some [OF assms(1) i] assms(2) by auto
  qed
  show "mp' = mp" if "a = 0"
    using fit that malloc_none [of sz mp] assms(2)
    by (cases "find_index (fits sz) (segs mp)") auto
  show "wf_map 1 mp' \<and> range_of a sz \<subseteq> map_units mp
      \<and> map_units mp' = map_units mp - range_of a sz \<and> unat a + unat sz < 65536" if "a \<noteq> 0"
    using fit that malloc_none [of sz mp] assms(2)
    by (cases "find_index (fits sz) (segs mp)") auto
qed

interpretation cm: space_map malloc mfree map_units "wf_map 1" map_room
proof
  fix m n a m' assume m: "wf_map 1 m" "malloc m n = (a, m')"
  show "a \<noteq> 0 \<Longrightarrow> wf_map 1 m' \<and> range_of a n \<subseteq> map_units m \<and> map_units m' = map_units m - range_of a n
      \<and> unat a + unat n < 65536"
    using malloc_cases [OF m] by blast
  show "map_room m'" if "map_room m"
    using that segs_malloc [OF m(1), of n] length_malloc [of m n] m(2) by (simp add: map_room_def)
next
  fix m n m' assume "wf_map 1 m" "malloc m n = (0, m')"
  then show "m' = m" by (rule malloc_cases) simp
next
  fix m a n assume "wf_map 1 m" "map_room m" "(a::u16) \<noteq> 0" "unat a + unat n < 65536"
    "range_of a n \<inter> map_units m = {}"
  then show "wf_map 1 (mfree m n a) \<and> map_units (mfree m n a) = map_units m \<union> range_of a n"
    by (intro mfree_ok) (auto simp: map_room_def Suc_le_eq unat_gt_0)
qed

section \<open>Properties\<close>

text \<open>
  C6: \<open>malloc\<close> is first fit: when some segment of a well-formed map is large enough, it returns
  the base of the first such segment, takes exactly the requested units out of the free ones and
  keeps the map well formed; when none is, it returns 0 and leaves the whole array as it was.
\<close>

theorem malloc_first_fit:
  assumes "wf_map lo mp"
  shows "case find_index (\<lambda>e. sz \<le> m_size e) (segs mp) of
      None \<Rightarrow> malloc mp sz = (0, mp)
    | Some i \<Rightarrow> fst (malloc mp sz) = m_addr (segs mp ! i)
        \<and> wf_map lo (snd (malloc mp sz))
        \<and> range_of (fst (malloc mp sz)) sz \<subseteq> map_units mp
        \<and> map_units (snd (malloc mp sz)) = map_units mp - range_of (fst (malloc mp sz)) sz"
  using malloc_some [OF assms] malloc_none [of sz mp]
  by (cases "find_index (fits sz) (segs mp)") auto

text \<open>
  C7: \<open>mfree\<close> of a segment none of whose units is free adds exactly those units and keeps the
  map sorted, joined with no two adjacent segments, and terminated, provided the array has an
  entry to spare.
\<close>

theorem mfree_adds_units:
  assumes "wf_map 1 mp" and "map_room mp" and "a \<noteq> 0" and "unat a + unat sz < 65536"
    and "range_of a sz \<inter> map_units mp = {}"
  shows "wf_map 1 (mfree mp sz a) \<and> map_units (mfree mp sz a) = map_units mp \<union> range_of a sz"
  using assms by (rule cm.release_ok)

text \<open>
  C8: freeing what \<open>malloc\<close> has just returned gives back the same list of free segments,
  entry for entry.
\<close>

theorem mfree_malloc_roundtrip:
  assumes "wf_map 1 mp" and "map_room mp" and "malloc mp sz = (a, mp')" and "a \<noteq> 0"
  shows "segs (mfree mp' sz a) = segs mp"
  using cm.alloc_release_units [OF assms(1,3,4,2)] assms(1) by (blast intro: segs_canonical)

abbreviation sample_map :: "mapent list" where
  "sample_map \<equiv> [\<lparr>m_size = 4, m_addr = 32\<rparr>, \<lparr>m_size = 20, m_addr = 40\<rparr>,
     \<lparr>m_size = 0, m_addr = 0\<rparr>, \<lparr>m_size = 0, m_addr = 0\<rparr>]"

lemma malloc_first_fit_witness:
  "malloc sample_map 16 = (40, [\<lparr>m_size = 4, m_addr = 32\<rparr>, \<lparr>m_size = 4, m_addr = 56\<rparr>,
     \<lparr>m_size = 0, m_addr = 0\<rparr>, \<lparr>m_size = 0, m_addr = 0\<rparr>])
   \<and> range_of 40 16 \<subseteq> map_units sample_map"
proof -
  have "wf_map 0 sample_map" by simp
  from malloc_first_fit [OF this, of 16] show ?thesis by (simp add: Let_def)
qed

lemma mfree_adds_units_witness:
  "map_units (mfree sample_map 4 36) = map_units sample_map \<union> range_of 36 4"
proof -
  have "wf_map 1 sample_map" "map_room sample_map" "range_of 36 4 \<inter> map_units sample_map = {}"
    by (auto simp: map_room_def range_of_def seg_units_def)
  from mfree_adds_units [OF this(1,2) _ _ this(3)] show ?thesis by simp
qed

lemma mfree_malloc_roundtrip_witness:
  "segs (mfree (snd (malloc sample_map 20)) 20 40) = segs sample_map"
proof -
  have "wf_map 1 sample_map" "map_room sample_map"
    by (simp_all add: map_room_def)
  from mfree_malloc_roundtrip [OF this, of 20 40] show ?thesis by (simp add: Let_def)
qed

end
