(* ===== verification/Callout.thy ===== *)
theory Callout
  imports Prelude
begin

text \<open>
  The callout table of \<open>ken/clock.c\<close>: functions to be called from the clock interrupt.  Entries
  hold the ticks to wait after the entry before them; a null \<open>c_func\<close> ends the table.
  \<open>timeout\<close> inserts an entry, and the first part of \<open>clock\<close> counts one tick down and runs what
  has become due.  Functions are values of a type \<open>'f\<close>; what calling one does to the rest of the
  kernel, the table included, is the parameter \<open>call\<close>.  The lemmas read the table as the list
  of pending calls with their absolute deadlines.
\<close>

record 'f callo =
  c_time :: u16
  c_arg :: u16
  c_func :: "'f option"

abbreviation NCALL :: nat where "NCALL \<equiv> 20"

section \<open>Inserting a call\<close>

text \<open>The two loops that move the entries from \<open>p1\<close> to the null entry up by one.\<close>

fun shift_up :: "'f callo list \<Rightarrow> 'f callo list" where
  "shift_up [] = []"
| "shift_up (p # ps) = (if c_func p = None then p # drop 1 ps else p # shift_up ps)"

fun timeout :: "'f callo list \<Rightarrow> 'f \<Rightarrow> u16 \<Rightarrow> u16 \<Rightarrow> 'f callo list" where
  "timeout [] f arg t = []"
| "timeout (p # ps) f arg t =
     (if c_func p \<noteq> None \<and> sle16 (c_time p) t then p # timeout ps f arg (t - c_time p)
      else \<lparr>c_time = t, c_arg = arg, c_func = Some f\<rparr> # shift_up (p\<lparr>c_time := c_time p - t\<rparr> # ps))"

section \<open>The callout part of the clock interrupt\<close>

fun dec_first :: "'f callo list \<Rightarrow> 'f callo list" where
  "dec_first [] = []"
| "dec_first (p # ps) =
     (if sle16 (c_time p) 0 \<and> c_func p \<noteq> None then p # dec_first ps
      else p\<lparr>c_time := c_time p - 1\<rparr> # ps)"

text \<open>
  The loop over the due entries: \<open>p1\<close> is the index \<open>i\<close>.  A called function may itself call
  \<open>timeout\<close>, so the table is read afresh each time round.
\<close>

function fire :: "('f \<Rightarrow> u16 \<Rightarrow> 'f callo list \<times> 's \<Rightarrow> 'f callo list \<times> 's)
    \<Rightarrow> nat \<Rightarrow> 'f callo list \<times> 's \<Rightarrow> nat \<times> 'f callo list \<times> 's" where
  "fire call i st =
     (let p = fst st ! i
      in if i < NCALL \<and> i < length (fst st) \<and> c_func p \<noteq> None \<and> sle16 (c_time p) 0
         then fire call (Suc i) (call (the (c_func p)) (c_arg p) st)
         else (i, st))"
  by pat_completeness auto
termination
  by (relation "measure (\<lambda>(call, i, st). NCALL - i)") auto

declare fire.simps [simp del]

text \<open>\<open>while ((p2->c_func = p1->c_func) != 0) ...\<close>: copy the rest of the table down.\<close>

fun compact :: "'f callo list \<Rightarrow> 'f callo list \<Rightarrow> 'f callo list" where
  "compact (d # ds) (p # ps) =
     (if c_func p = None then d\<lparr>c_func := None\<rparr> # ds
      else d\<lparr>c_func := c_func p, c_time := c_time p, c_arg := c_arg p\<rparr> # compact ds ps)"
| "compact ds _ = ds"

definition clock_callouts :: "('f \<Rightarrow> u16 \<Rightarrow> 'f callo list \<times> 's \<Rightarrow> 'f callo list \<times> 's)
    \<Rightarrow> 'f callo list \<times> 's \<Rightarrow> 'f callo list \<times> 's" where
  "clock_callouts call st =
     (if c_func (fst st ! 0) = None then st
      else
        (let st = (dec_first (fst st), snd st)
         in if sle16 (c_time (fst st ! 0)) 0 then
              (case fire call 0 st of (i, tab, s) \<Rightarrow> (compact tab (drop i tab), s))
            else st))"

text \<open>One tick that records the calls and lets them leave the table alone.\<close>

definition log_call :: "'f \<Rightarrow> u16 \<Rightarrow> 'f callo list \<times> ('f \<times> u16) list \<Rightarrow> 'f callo list \<times> ('f \<times> u16) list" where
  "log_call f a st = (fst st, snd st @ [(f, a)])"

definition tick :: "'f callo list \<Rightarrow> ('f \<times> u16) list \<times> 'f callo list" where
  "tick tab = prod.swap (clock_callouts log_call (tab, []))"

section \<open>Pending calls with deadlines\<close>

abbreviation ticks :: "'f callo \<Rightarrow> int" where
  "ticks p \<equiv> sint (c_time p)"

fun pending :: "int \<Rightarrow> 'f callo list \<Rightarrow> (int \<times> 'f \<times> u16) list" where
  "pending b [] = []"
| "pending b (p # ps) =
     (case c_func p of None \<Rightarrow> []
      | Some f \<Rightarrow> (b + ticks p, f, c_arg p) # pending (b + ticks p) ps)"

text \<open>A table: waiting times not negative, and a null entry within the array.\<close>

fun wf_tab :: "'f callo list \<Rightarrow> bool" where
  "wf_tab [] = False"
| "wf_tab (p # ps) = (case c_func p of None \<Rightarrow> True | Some f \<Rightarrow> 0 \<le> ticks p \<and> wf_tab ps)"

fun spare_slot :: "'f callo list \<Rightarrow> bool" where
  "spare_slot [] = False"
| "spare_slot (p # ps) = (if c_func p = None then ps \<noteq> [] else spare_slot ps)"

lemma sint_sub16:
  assumes "sint (b::u16) \<le> sint a" "0 \<le> sint b"
  shows "sint (a - b) = sint a - sint b"
proof -
  have "sint a < 32768" using sint_lt [of a] by simp
  with assms show ?thesis
    by (simp add: sint_word_ariths signed_take_bit_int_eq_self_iff)
qed

lemma pending_shift: "pending (b + c) ps = map (\<lambda>(d, x). (d + c, x)) (pending b ps)"
proof (induction b ps rule: pending.induct)
  case (2 b p ps)
  then show ?case by (auto split: option.splits simp: algebra_simps)
qed simp

lemma pending_ge: "wf_tab ps \<Longrightarrow> x \<in> set (pending b ps) \<Longrightarrow> b \<le> fst x"
proof (induction ps arbitrary: b)
  case (Cons p ps)
  then show ?case by (force split: option.splits)
qed simp

lemma pending_sorted: "wf_tab ps \<Longrightarrow> sorted (map fst (pending b ps))"
  by (induction ps arbitrary: b) (auto split: option.splits dest: pending_ge)

lemma pending_shift_up: "pending b (shift_up ps) = pending b ps"
  by (induction ps arbitrary: b) (auto split: option.splits)

lemma wf_shift_up: "wf_tab ps \<Longrightarrow> wf_tab (shift_up ps)"
  by (induction ps) (auto split: option.splits)

lemma length_shift_up: "spare_slot ps \<Longrightarrow> Suc (length (shift_up ps)) = length ps"
  by (induction ps) (auto split: if_splits)

text \<open>Inserting at deadline \<open>d\<close>, after the entries due no later.\<close>

fun insort_after :: "int \<Rightarrow> 'b \<Rightarrow> (int \<times> 'b) list \<Rightarrow> (int \<times> 'b) list" where
  "insort_after d x [] = [(d, x)]"
| "insort_after d x ((e, y) # es) = (if e \<le> d then (e, y) # insort_after d x es else (d, x) # (e, y) # es)"

lemma timeout_pending:
  assumes "wf_tab tab" "0 \<le> sint t"
  shows "pending b (timeout tab f arg t) = insort_after (b + sint t) (f, arg) (pending b tab)
    \<and> wf_tab (timeout tab f arg t)"
  using assms
proof (induction tab arbitrary: b t)
  case Nil
  then show ?case by simp
next
  case (Cons p ps)
  show ?case
  proof (cases "c_func p")
    case None
    then show ?thesis by (simp add: Cons.prems)
  next
    case (Some g)
    with Cons.prems have p: "0 \<le> ticks p" "wf_tab ps" by auto
    show ?thesis
    proof (cases "ticks p \<le> sint t")
      case True
      then have "sint (t - c_time p) = sint t - ticks p" using p by (intro sint_sub16)
      with Some True p Cons.IH [OF p(2), of "t - c_time p" "b + ticks p"] show ?thesis
        by (simp add: sle16_def)
    next
      case False
      then have "sint (c_time p - t) = ticks p - sint t" using Cons.prems by (intro sint_sub16) auto
      with Some False p Cons.prems show ?thesis
        by (simp add: sle16_def pending_shift_up wf_shift_up)
    qed
  qed
qed

lemma timeout_length: "spare_slot tab \<Longrightarrow> length (timeout tab f arg t) = length tab"
proof (induction tab arbitrary: t)
  case (Cons p ps)
  then show ?case
    using length_shift_up [of "p\<lparr>c_time := c_time p - t\<rparr> # ps"] by (auto split: if_splits)
qed simp

section \<open>A tick\<close>

lemma fire_log:
  "i \<le> NCALL \<Longrightarrow> length tab \<le> NCALL \<Longrightarrow>
    fire log_call i (tab, l) =
      (let due = takeWhile (\<lambda>p. c_func p \<noteq> None \<and> sle16 (c_time p) 0) (drop i tab)
       in (i + length due, tab, l @ map (\<lambda>p. (the (c_func p), c_arg p)) due))"
proof (induction "NCALL - i" arbitrary: i l)
  case 0
  then show ?case by (simp add: fire.simps)
next
  case (Suc n)
  show ?case
  proof (cases "i < length tab \<and> c_func (tab ! i) \<noteq> None \<and> sle16 (c_time (tab ! i)) 0")
    case True
    then have "drop i tab = tab ! i # drop (Suc i) tab" by (simp add: Cons_nth_drop_Suc)
    with True Suc Suc.hyps(1) [of "Suc i"] show ?thesis
      by (simp add: fire.simps [of _ i] Let_def log_call_def)
  next
    case False
    then have "takeWhile (\<lambda>p. c_func p \<noteq> None \<and> sle16 (c_time p) 0) (drop i tab) = []"
      by (cases "i < length tab") (auto simp flip: Cons_nth_drop_Suc)
    with False show ?thesis by (auto simp: fire.simps [of _ i] Let_def)
  qed
qed

lemma pending_compact:
  "length ps \<le> length ds \<Longrightarrow> wf_tab ps \<Longrightarrow> pending b (compact ds ps) = pending b ps \<and> wf_tab (compact ds ps)"
proof (induction ds ps arbitrary: b rule: compact.induct)
  case (1 d ds p ps)
  then show ?case by (auto split: option.splits)
qed auto

lemma wf_drop_due:
  "wf_tab tab \<Longrightarrow> wf_tab (drop (length (takeWhile (\<lambda>p. c_func p \<noteq> None \<and> Q p) tab)) tab)"
  by (induction tab) (auto split: option.splits)

abbreviation due :: "'f callo \<Rightarrow> bool" where
  "due p \<equiv> c_func p \<noteq> None \<and> sle16 (c_time p) 0"

lemma pending_due:
  assumes "wf_tab tab"
  shows "map (\<lambda>p. (the (c_func p), c_arg p)) (takeWhile due tab) = map snd (takeWhile (\<lambda>x. fst x \<le> b) (pending b tab))
    \<and> pending b (drop (length (takeWhile due tab)) tab) = dropWhile (\<lambda>x. fst x \<le> b) (pending b tab)"
  using assms
proof (induction tab)
  case (Cons p ps)
  show ?case
  proof (cases "c_func p")
    case (Some f)
    with Cons.prems have p: "0 \<le> ticks p" "wf_tab ps" by auto
    show ?thesis
    proof (cases "ticks p = 0")
      case True
      with Some p Cons.IH show ?thesis by (simp add: sle16_def)
    next
      case False
      with Some p show ?thesis by (simp add: sle16_def)
    qed
  qed simp
qed simp

definition future :: "'f callo list \<Rightarrow> bool" where
  "future tab \<longleftrightarrow> (\<forall>x \<in> set (pending 0 tab). 0 < fst x)"

abbreviation earlier :: "int \<Rightarrow> int \<times> 'b \<Rightarrow> int \<times> 'b" where
  "earlier n x \<equiv> (fst x - n, snd x)"

lemma sint_dec: "0 < sint (a::u16) \<Longrightarrow> sint (a - 1) = sint a - 1"
  using sint_sub16 [of 1 a] by simp

lemma dec_first_pending:
  assumes "wf_tab tab" "future tab"
  shows "pending 0 (dec_first tab) = map (earlier 1) (pending 0 tab) \<and> wf_tab (dec_first tab)"
proof (cases tab)
  case Nil
  with assms show ?thesis by simp
next
  case (Cons p ps)
  show ?thesis
  proof (cases "c_func p")
    case None
    with Cons assms show ?thesis by simp
  next
    case (Some f)
    with Cons assms have p: "0 < ticks p" "wf_tab ps" by (auto simp: future_def)
    have "pending (ticks p - 1) ps = map (earlier 1) (pending (ticks p) ps)"
      using pending_shift [of "ticks p" "- 1" ps] by (simp add: case_prod_unfold)
    with Cons Some p show ?thesis by (simp add: sle16_def sint_dec)
  qed
qed

lemma length_dec_first [simp]: "length (dec_first tab) = length tab"
  by (induction tab) auto

lemma length_compact [simp]: "length (compact ds ps) = length ds"
  by (induction ds ps rule: compact.induct) auto

lemma sorted_split:
  "sorted (map fst xs) \<Longrightarrow> takeWhile (\<lambda>x. fst x \<le> (b::int)) xs = filter (\<lambda>x. fst x \<le> b) xs
    \<and> dropWhile (\<lambda>x. fst x \<le> b) xs = filter (\<lambda>x. b < fst x) xs"
proof (induction xs)
  case (Cons x xs)
  show ?case
  proof (cases "fst x \<le> b")
    case False
    with Cons.prems have all: "\<forall>y \<in> set xs. b < fst y" by fastforce
    then have "filter (\<lambda>x. b < fst x) xs = xs" "filter (\<lambda>x. fst x \<le> b) xs = []"
      by (auto simp: filter_id_conv filter_empty_conv)
    with False show ?thesis by simp
  qed (use Cons in simp)
qed simp

lemma tick_pending:
  assumes wf: "wf_tab tab" and fut: "future tab" and len: "length tab \<le> NCALL"
  shows "fst (tick tab) = map snd (filter (\<lambda>x. fst x \<le> 1) (pending 0 tab))"
    and "pending 0 (snd (tick tab)) = map (earlier 1) (filter (\<lambda>x. 1 < fst x) (pending 0 tab))"
    and "wf_tab (snd (tick tab)) \<and> length (snd (tick tab)) = length tab"
proof -
  let ?d = "dec_first tab" and ?xs = "map (earlier 1) (pending 0 tab)"
  note d = dec_first_pending [OF wf fut]
  have ne: "tab \<noteq> []" "?d \<noteq> []" using wf d by auto
  have fn: "c_func (?d ! 0) = c_func (tab ! 0)" using ne by (cases tab) auto
  note pd = pending_due [OF conjunct2 [OF d], of 0]
  have sp: "takeWhile (\<lambda>x. fst x \<le> 0) ?xs = map (earlier 1) (filter (\<lambda>x. fst x \<le> 1) (pending 0 tab))"
    "dropWhile (\<lambda>x. fst x \<le> 0) ?xs = map (earlier 1) (filter (\<lambda>x. 1 < fst x) (pending 0 tab))"
    using sorted_split [of ?xs 0] pending_sorted [OF conjunct2 [OF d], of 0] d
    by (simp_all add: filter_map o_def)
  let ?k = "length (takeWhile due ?d)"
  have wfk: "wf_tab (drop ?k ?d)"
    using wf_drop_due [of ?d "\<lambda>p. sle16 (c_time p) 0"] d by blast
  have pc: "pending 0 (compact ?d (drop ?k ?d)) = pending 0 (drop ?k ?d) \<and> wf_tab (compact ?d (drop ?k ?d))"
    by (rule pending_compact [OF _ wfk]) simp
  have "fst (tick tab) = map snd (filter (\<lambda>x. fst x \<le> 1) (pending 0 tab))
    \<and> pending 0 (snd (tick tab)) = map (earlier 1) (filter (\<lambda>x. 1 < fst x) (pending 0 tab))
    \<and> wf_tab (snd (tick tab)) \<and> length (snd (tick tab)) = length tab"
  proof (cases "c_func (tab ! 0)")
    case None
    with ne have "pending 0 tab = []" by (cases tab) auto
    with None wf show ?thesis by (simp add: tick_def clock_callouts_def)
  next
    case (Some f)
    show ?thesis
    proof (cases "sle16 (c_time (?d ! 0)) 0")
      case True
      with Some have "tick tab = (map (\<lambda>p. (the (c_func p), c_arg p)) (takeWhile due ?d), compact ?d (drop ?k ?d))"
        using len by (simp add: tick_def clock_callouts_def Let_def fire_log)
      with pd pc d sp show ?thesis by (simp add: comp_def)
    next
      case False
      with Some have t: "tick tab = ([], ?d)" by (simp add: tick_def clock_callouts_def Let_def)
      from False ne have "takeWhile due ?d = []" by (cases ?d) auto
      with t pd d sp show ?thesis by simp
    qed
  qed
  then show "fst (tick tab) = map snd (filter (\<lambda>x. fst x \<le> 1) (pending 0 tab))"
    "pending 0 (snd (tick tab)) = map (earlier 1) (filter (\<lambda>x. 1 < fst x) (pending 0 tab))"
    "wf_tab (snd (tick tab)) \<and> length (snd (tick tab)) = length tab" by blast+
qed

section \<open>The contract of a timer queue\<close>

fun run_ticks :: "('q \<Rightarrow> 'x list \<times> 'q) \<Rightarrow> nat \<Rightarrow> 'q \<Rightarrow> 'x list \<times> 'q" where
  "run_ticks tk 0 q = ([], q)"
| "run_ticks tk (Suc n) q = (case tk q of (xs, q') \<Rightarrow> (case run_ticks tk n q' of (ys, q'') \<Rightarrow> (xs @ ys, q'')))"

locale timer_queue =
  fixes sched :: "'q \<Rightarrow> 'x \<Rightarrow> int \<Rightarrow> 'q"
    and tick1 :: "'q \<Rightarrow> 'x list \<times> 'q"
    and pend :: "'q \<Rightarrow> (int \<times> 'x) list"
    and ok :: "'q \<Rightarrow> bool"
    and free_slot :: "'q \<Rightarrow> bool"
  assumes sched_pend: "ok q \<Longrightarrow> free_slot q \<Longrightarrow> 0 < n \<Longrightarrow> n < 32768 \<Longrightarrow>
      pend (sched q x n) = insort_after n x (pend q) \<and> ok (sched q x n)"
    and tick_pend: "ok q \<Longrightarrow> fst (tick1 q) = map snd (filter (\<lambda>e. fst e \<le> 1) (pend q))
      \<and> pend (snd (tick1 q)) = map (earlier 1) (filter (\<lambda>e. 1 < fst e) (pend q)) \<and> ok (snd (tick1 q))"
    and pend_pos: "ok q \<Longrightarrow> e \<in> set (pend q) \<Longrightarrow> 0 < fst e"
    and pend_sorted: "ok q \<Longrightarrow> sorted (map fst (pend q))"
begin

lemma filter_split_le:
  "sorted (map fst xs) \<Longrightarrow> a \<le> (b::int) \<Longrightarrow>
    filter (\<lambda>e. fst e \<le> b) xs = filter (\<lambda>e. fst e \<le> a) xs @ filter (\<lambda>e. a < fst e \<and> fst e \<le> b) xs"
proof (induction xs)
  case (Cons x xs)
  show ?case
  proof (cases "fst x \<le> a")
    case True
    with Cons show ?thesis by auto
  next
    case False
    with Cons.prems have "filter (\<lambda>e. fst e \<le> a) xs = []" by (auto simp: filter_empty_conv)
    with False Cons show ?thesis by auto
  qed
qed simp

lemma run_ticks_pend:
  "ok q \<Longrightarrow> fst (run_ticks tick1 n q) = map snd (filter (\<lambda>e. fst e \<le> int n) (pend q))
    \<and> pend (snd (run_ticks tick1 n q)) = map (earlier (int n)) (filter (\<lambda>e. int n < fst e) (pend q))
    \<and> ok (snd (run_ticks tick1 n q))"
proof (induction n arbitrary: q)
  case 0
  have "filter (\<lambda>e. fst e \<le> 0) (pend q) = []" "filter (\<lambda>e. 0 < fst e) (pend q) = pend q"
    using pend_pos [OF 0] by (force simp: filter_empty_conv filter_id_conv)+
  with 0 show ?case by simp
next
  case (Suc n)
  obtain xs q' where t: "tick1 q = (xs, q')" by fastforce
  note tp = tick_pend [OF Suc.prems, unfolded t fst_conv snd_conv]
  obtain ys q'' where r: "run_ticks tick1 n q' = (ys, q'')" by fastforce
  note IH = Suc.IH [of q', unfolded r fst_conv snd_conv]
  have "filter (\<lambda>e. fst e \<le> 1 + int n) (pend q)
      = filter (\<lambda>e. fst e \<le> 1) (pend q) @ filter (\<lambda>e. 1 < fst e \<and> fst e \<le> 1 + int n) (pend q)"
    using Suc.prems by (intro filter_split_le pend_sorted) auto
  moreover have "fst e - 1 \<le> int n \<longleftrightarrow> fst e \<le> 1 + int n" "int n < fst e - 1 \<longleftrightarrow> 1 + int n < fst e"
    "1 < fst e \<and> 1 + int n < fst e \<longleftrightarrow> 1 + int n < fst e" for e :: "int \<times> 'x"
    by auto
  ultimately show ?case
    using tp IH by (simp add: t r filter_map o_def algebra_simps)
qed

lemma sched_fires_on_time:
  assumes "ok q" "free_slot q" "0 < n" "n < 32768"
  shows "fst (run_ticks tick1 k (sched q x n))
    = map snd (filter (\<lambda>e. fst e \<le> int k) (insort_after n x (pend q)))"
  using sched_pend [OF assms] run_ticks_pend [of "sched q x n" k] by simp

end

definition tab_ok :: "'f callo list \<Rightarrow> bool" where
  "tab_ok tab \<longleftrightarrow> wf_tab tab \<and> future tab \<and> length tab \<le> NCALL"

lemma set_insort_after: "set (insort_after d x es) = insert (d, x) (set es)"
  by (induction d x es rule: insort_after.induct) auto

definition sched_call :: "'f callo list \<Rightarrow> 'f \<times> u16 \<Rightarrow> int \<Rightarrow> 'f callo list" where
  "sched_call tab fa n = timeout tab (fst fa) (snd fa) (word_of_int n)"

interpretation ct: timer_queue sched_call tick "pending 0" tab_ok spare_slot
proof
  fix q :: "'f callo list" and x :: "'f \<times> u16" and n :: int
  assume q: "tab_ok q" "spare_slot q" and n: "0 < n" "n < 32768"
  then have "sint (word_of_int n :: u16) = n"
    by (simp add: signed_of_int signed_take_bit_int_eq_self_iff)
  with q n timeout_pending [of q "word_of_int n" 0 "fst x" "snd x"] timeout_length [OF q(2)]
  show "pending 0 (sched_call q x n) = insort_after n x (pending 0 q) \<and> tab_ok (sched_call q x n)"
    by (auto simp: tab_ok_def sched_call_def future_def set_insort_after)
next
  fix q :: "'f callo list" assume q: "tab_ok q"
  note t = tick_pending [of q]
  from q t show "fst (tick q) = map snd (filter (\<lambda>e. fst e \<le> 1) (pending 0 q))
      \<and> pending 0 (snd (tick q)) = map (earlier 1) (filter (\<lambda>e. 1 < fst e) (pending 0 q))
      \<and> tab_ok (snd (tick q))"
    by (auto simp: tab_ok_def future_def)
  show "\<And>e. e \<in> set (pending 0 q) \<Longrightarrow> 0 < fst e" using q by (simp add: tab_ok_def future_def)
  show "sorted (map fst (pending 0 q))" using q pending_sorted by (auto simp: tab_ok_def)
qed

section \<open>Properties\<close>

text \<open>
  \<open>timeout\<close> puts the call at its absolute deadline, behind every entry due no later, leaves
  the deadlines of all other entries as they were, and keeps the table well formed.
\<close>

lemma timeout_inserts_deadline:
  assumes "wf_tab tab" and "0 \<le> sint t"
  shows "pending b (timeout tab f arg t) = insort_after (b + sint t) (f, arg) (pending b tab)
    \<and> wf_tab (timeout tab f arg t)"
  using assms by (rule timeout_pending)

text \<open>
  C12: after \<open>timeout(f, a, n)\<close> the first \<open>k\<close> clock ticks run, in order of deadline, exactly
  the calls due within \<open>k\<close> ticks: \<open>f(a)\<close> is among them from tick \<open>n\<close> on and not before.
\<close>

theorem timeout_fires_on_time:
  assumes "tab_ok tab" and "spare_slot tab" and "0 < n" and "n < 32768"
  shows "fst (run_ticks tick k (timeout tab f a (word_of_int n)))
    = map snd (filter (\<lambda>e. fst e \<le> int k) (insort_after n (f, a) (pending 0 tab)))"
  using ct.sched_fires_on_time [OF assms, of k "(f, a)"] by (simp add: sched_call_def)

abbreviation sample_tab :: "nat callo list" where
  "sample_tab \<equiv> [\<lparr>c_time = 3, c_arg = 7, c_func = Some 1\<rparr>, \<lparr>c_time = 2, c_arg = 8, c_func = Some 1\<rparr>,
     \<lparr>c_time = 0, c_arg = 0, c_func = None\<rparr>, \<lparr>c_time = 0, c_arg = 0, c_func = None\<rparr>]"

lemma timeout_inserts_deadline_witness:
  "pending 0 (timeout sample_tab 2 9 4) = [(3, 1, 7), (4, 2, 9), (5, 1, 8)]"
proof -
  have "wf_tab sample_tab" by simp
  from timeout_inserts_deadline [OF this, of 4 0 2 9] show ?thesis by simp
qed

lemma timeout_fires_on_time_witness:
  "fst (run_ticks tick 4 (timeout sample_tab 2 9 (word_of_int 4))) = [(1, 7), (2, 9)]"
proof -
  have "tab_ok sample_tab" "spare_slot sample_tab" by (auto simp: tab_ok_def future_def)
  from timeout_fires_on_time [OF this, of 4 4 2 9] show ?thesis by simp
qed

end
