(* ===== verification/Clist.thy ===== *)
theory Clist
  imports Prelude
begin

text \<open>
  The character lists of \<open>dmr/tty.c\<close>: \<open>cinit\<close>, \<open>getc\<close>, \<open>putc\<close>.  Characters live in
  8-byte blocks of the pool \<open>cfree\<close>, each a link word followed by six characters; a list head
  keeps a count and the addresses of its first character and of the place after its last one.
  Blocks are aligned to 8 bytes, so the block of a character is found by masking its address.
  The model is the store itself: the links and the bytes by address (a natural number, the pool
  lies inside one segment), and the head of the free list.  The lemmas show that this is a FIFO
  queue and that no block is lost or shared.
\<close>

record cpool =
  cb_next :: "nat \<Rightarrow> nat"
  cb_byte :: "nat \<Rightarrow> u8"
  cfreelist :: nat

record clist =
  c_cc :: u16
  c_cf :: nat
  c_cl :: nat

abbreviation NCLIST :: nat where "NCLIST \<equiv> 100"

text \<open>Address of the characters of the block at \<open>b\<close>, and the block a character lies in.\<close>

definition info :: "nat \<Rightarrow> nat" where
  "info b = b + 2"

definition block_of :: "nat \<Rightarrow> nat" where
  "block_of p = p div 8 * 8"

section \<open>The routines\<close>

text \<open>The loop of \<open>cinit\<close> from the block address \<open>cp\<close> up to \<open>last\<close> (\<open>&cfree[NCLIST-1]\<close>).\<close>

function cinit_from :: "nat \<Rightarrow> nat \<Rightarrow> cpool \<Rightarrow> cpool" where
  "cinit_from cp lst m =
     (if cp \<le> lst
      then cinit_from (cp + 8) lst (m\<lparr>cb_next := (cb_next m)(cp := cfreelist m), cfreelist := cp\<rparr>)
      else m)"
  by pat_completeness auto
termination
  by (relation "measure (\<lambda>(cp, lst, m). lst + 8 - cp)") auto

declare cinit_from.simps [simp del]

definition cinit :: "nat \<Rightarrow> cpool \<Rightarrow> cpool" where
  "cinit cfree m = cinit_from ((cfree + 7) div 8 * 8) (cfree + 8 * (NCLIST - 1)) m"

text \<open>\<open>getc\<close> returns \<open>-1\<close> on an empty list, here \<open>None\<close>.\<close>

definition getc :: "cpool \<times> clist \<Rightarrow> u8 option \<times> cpool \<times> clist" where
  "getc s =
     (let m = fst s; l = snd s
      in if c_cf l = 0 then (None, m, l\<lparr>c_cl := 0\<rparr>)
         else
           (let ret = cb_byte m (c_cf l);
                cf = c_cf l + 1;
                cc = c_cc l - 1;
                pblock = (if cc = 0 \<or> cf mod 8 = 0 then block_of (cf - 1) else 0);
                l' = (if cc = 0 then \<lparr>c_cc = cc, c_cf = 0, c_cl = 0\<rparr>
                      else if cf mod 8 = 0
                      then l\<lparr>c_cc := cc, c_cf := info (cb_next m pblock)\<rparr>
                      else l\<lparr>c_cc := cc, c_cf := cf\<rparr>);
                m' = (if pblock \<noteq> 0
                      then m\<lparr>cb_next := (cb_next m)(pblock := cfreelist m), cfreelist := pblock\<rparr>
                      else m)
            in (Some ret, m', l')))"

text \<open>Storing the character and stepping on, the common end of \<open>putc\<close>.\<close>

definition put_char :: "u8 \<Rightarrow> cpool \<times> clist \<Rightarrow> cpool \<times> clist" where
  "put_char c s =
     ((fst s)\<lparr>cb_byte := (cb_byte (fst s))(c_cl (snd s) := c)\<rparr>,
      (snd s)\<lparr>c_cl := c_cl (snd s) + 1, c_cc := c_cc (snd s) + 1\<rparr>)"

text \<open>\<open>putc\<close> returns 0 or, when no block is free, \<open>-1\<close>: here whether it stored the character.\<close>

definition putc :: "u8 \<Rightarrow> cpool \<times> clist \<Rightarrow> bool \<times> cpool \<times> clist" where
  "putc c s =
     (let m = fst s; l = snd s; pblock = cfreelist m
      in if c_cl l = 0 then
           (if pblock = 0 then (False, m, l)
            else (True, put_char c
              (m\<lparr>cfreelist := cb_next m pblock, cb_next := (cb_next m)(pblock := 0)\<rparr>,
               l\<lparr>c_cl := info pblock, c_cf := info pblock\<rparr>)))
         else if c_cl l mod 8 = 0 then
           (if pblock = 0 then (False, m, l)
            else (True, put_char c
              (m\<lparr>cfreelist := cb_next m pblock,
                  cb_next := (cb_next m)(c_cl l - 8 := pblock, pblock := 0)\<rparr>,
               l\<lparr>c_cl := info pblock\<rparr>)))
         else (True, put_char c (m, l)))"

section \<open>What the store represents\<close>

text \<open>A chain of aligned blocks from \<open>p\<close> to a null link.\<close>

fun chain :: "(nat \<Rightarrow> nat) \<Rightarrow> nat \<Rightarrow> nat list \<Rightarrow> bool" where
  "chain nx p [] = (p = 0)"
| "chain nx p (b # bs) = (p = b \<and> 0 < b \<and> 8 dvd b \<and> chain nx (nx b) bs)"

definition block_chars :: "(nat \<Rightarrow> u8) \<Rightarrow> nat \<Rightarrow> u8 list" where
  "block_chars f b = map f [info b ..< info b + 6]"

definition chars :: "(nat \<Rightarrow> u8) \<Rightarrow> nat list \<Rightarrow> u8 list" where
  "chars f bs = concat (map (block_chars f) bs)"

text \<open>The head \<open>l\<close> holds the characters \<open>q\<close> in the blocks \<open>bs\<close>.\<close>

definition list_rep :: "cpool \<Rightarrow> clist \<Rightarrow> nat list \<Rightarrow> u8 list \<Rightarrow> bool" where
  "list_rep m l bs q \<longleftrightarrow>
     (if q = [] then bs = [] \<and> c_cf l = 0 \<and> c_cl l = 0 \<and> c_cc l = 0
      else bs \<noteq> [] \<and> distinct bs \<and> chain (cb_next m) (hd bs) bs \<and> unat (c_cc l) = length q \<and>
        (\<exists>i j. c_cf l = info (hd bs) + i \<and> i < 6 \<and> c_cl l = info (last bs) + j \<and> 0 < j \<and> j \<le> 6 \<and>
          i + length q = 6 * (length bs - 1) + j \<and> q = take (length q) (drop i (chars (cb_byte m) bs))))"

definition pool_rep :: "cpool \<Rightarrow> nat list \<Rightarrow> bool" where
  "pool_rep m fs \<longleftrightarrow> distinct fs \<and> chain (cb_next m) (cfreelist m) fs"

text \<open>A list and the pool: the blocks of the two are apart.\<close>

definition holds :: "cpool \<times> clist \<Rightarrow> nat list \<Rightarrow> nat list \<Rightarrow> u8 list \<Rightarrow> bool" where
  "holds s bs fs q \<longleftrightarrow>
     list_rep (fst s) (snd s) bs q \<and> pool_rep (fst s) fs \<and> set bs \<inter> set fs = {}"

lemma chain_cong: "(\<And>b. b \<in> set bs \<Longrightarrow> nx b = nx' b) \<Longrightarrow> chain nx p bs = chain nx' p bs"
  by (induction bs arbitrary: p) auto

lemma chain_upd_other [simp]: "b \<notin> set bs \<Longrightarrow> chain (nx(b := v)) p bs = chain nx p bs"
  by (intro chain_cong) auto

lemma chain_props: "chain nx p bs \<Longrightarrow> b \<in> set bs \<Longrightarrow> 0 < b \<and> 8 dvd b"
  by (induction bs arbitrary: p) auto

lemma chain_snoc:
  assumes "chain nx p bs" "bs \<noteq> []" "distinct bs" "b \<notin> set bs" "0 < b" "8 dvd b"
  shows "chain (nx(last bs := b, b := 0)) p (bs @ [b])"
  using assms
proof (induction bs arbitrary: p)
  case (Cons c bs)
  show ?case
  proof (cases "bs = []")
    case True
    with Cons.prems show ?thesis by simp
  next
    case False
    with Cons.prems have "last bs \<noteq> c" by (metis distinct.simps(2) last_in_set)
    with False Cons show ?thesis by auto
  qed
qed simp

lemma length_block_chars [simp]: "length (block_chars f b) = 6"
  by (simp add: block_chars_def)

lemma length_chars [simp]: "length (chars f bs) = 6 * length bs"
  by (induction bs) (auto simp: chars_def)

lemma chars_Cons: "chars f (b # bs) = block_chars f b @ chars f bs"
  and chars_Nil [simp]: "chars f [] = []"
  and chars_append: "chars f (bs @ cs) = chars f bs @ chars f cs"
  by (simp_all add: chars_def)

lemma nth_block_chars: "i < 6 \<Longrightarrow> block_chars f b ! i = f (info b + i)"
  by (simp add: block_chars_def)

lemma block_chars_upd_same:
  "j < 6 \<Longrightarrow> block_chars (f(info b + j := c)) b = (block_chars f b)[j := c]"
  by (auto simp: list_eq_iff_nth_eq nth_block_chars nth_list_update)

text \<open>An address in a block splits into the block and the offset.\<close>

lemma info_split:
  assumes "8 dvd b" "i \<le> 6"
  shows "(info b + i) div 8 = (if i = 6 then b div 8 + 1 else b div 8)"
    "(info b + i) mod 8 = (if i = 6 then 0 else 2 + i)"
proof -
  obtain k where b: "b = 8 * k" using assms(1) by (elim dvdE)
  have s: "info b + i = 2 + i + 8 * k" unfolding info_def b by simp
  have "(info b + i) div 8 = k + (2 + i) div 8" unfolding s by (rule div_mult_self2) simp
  moreover have "(info b + i) mod 8 = (2 + i) mod 8" unfolding s by (rule mod_mult_self2)
  moreover have "(2 + i) div 8 = (if i = 6 then 1 else 0)" "(2 + i) mod 8 = (if i = 6 then 0 else 2 + i)"
    using assms(2) by (cases "i = 6"; simp)+
  moreover have "b div 8 = k" unfolding b by simp
  ultimately show "(info b + i) div 8 = (if i = 6 then b div 8 + 1 else b div 8)"
    "(info b + i) mod 8 = (if i = 6 then 0 else 2 + i)" by simp_all
qed

lemma info_inj:
  assumes "8 dvd b" "8 dvd b'" "i < 6" "j < 6"
  shows "info b + i = info b' + j \<longleftrightarrow> b = b' \<and> i = j"
proof
  assume e: "info b + i = info b' + j"
  have "b div 8 = b' div 8"
    using info_split(1) [of b i] info_split(1) [of b' j] assms e by simp
  then have "b = b'" using assms(1,2) by (metis dvd_div_eq_iff)
  then show "b = b' \<and> i = j" using e by simp
qed simp

lemma block_chars_upd_other:
  "8 dvd b \<Longrightarrow> 8 dvd b' \<Longrightarrow> b \<noteq> b' \<Longrightarrow> j < 6 \<Longrightarrow> block_chars (f(info b' + j := c)) b = block_chars f b"
  by (auto simp: list_eq_iff_nth_eq nth_block_chars info_inj)

lemma chars_upd_other:
  "\<forall>b \<in> set bs. 8 dvd b \<Longrightarrow> 8 dvd b' \<Longrightarrow> b' \<notin> set bs \<Longrightarrow> j < 6 \<Longrightarrow>
    chars (f(info b' + j := c)) bs = chars f bs"
  by (induction bs) (auto simp: chars_Cons block_chars_upd_other)

lemma block_of_info: "8 dvd b \<Longrightarrow> i < 6 \<Longrightarrow> block_of (info b + i) = b"
  using info_split(1) [of b i] by (simp add: block_of_def)

lemma info_mod: "8 dvd b \<Longrightarrow> i \<le> 6 \<Longrightarrow> (info b + i) mod 8 = 0 \<longleftrightarrow> i = 6"
  using info_split(2) [of b i] by simp

lemma info_nz [simp]: "info b \<noteq> 0"
  by (simp add: info_def)

section \<open>Taking a character\<close>

lemma list_rep_NilI: "list_rep m \<lparr>c_cc = 0, c_cf = 0, c_cl = 0\<rparr> [] []"
  by (simp add: list_rep_def)

text \<open>The arithmetic of a non-empty list, once for all proofs.\<close>

lemma list_repE:
  assumes "list_rep m l bs q" "q \<noteq> []"
  obtains b bs' i j where "bs = b # bs'" "distinct bs" "chain (cb_next m) b bs" "unat (c_cc l) = length q"
    "c_cf l = info b + i" "i < 6" "c_cl l = info (last bs) + j" "0 < j" "j \<le> 6"
    "i + length q = 6 * length bs' + j" "q = take (length q) (drop i (chars (cb_byte m) bs))"
    "\<forall>b \<in> set bs. 0 < b \<and> 8 dvd b"
  using assms chain_props by (cases bs) (auto simp: list_rep_def)

lemma getc_empty:
  assumes "list_rep m l bs []"
  shows "getc (m, l) = (None, m, l)"
  using assms by (simp add: getc_def list_rep_def)

lemma getc_last:
  assumes "holds (m, l) bs fs [x]"
  shows "fst (getc (m, l)) = Some x \<and> (\<exists>b. bs = [b] \<and> holds (snd (getc (m, l))) [] (b # fs) [])"
proof -
  from assms have rep: "list_rep m l bs [x]" and pool: "pool_rep m fs" and dis: "set bs \<inter> set fs = {}"
    by (simp_all add: holds_def)
  from rep obtain b bs' i j where *: "bs = b # bs'" "unat (c_cc l) = 1" "c_cf l = info b + i" "i < 6"
    "i + 1 = 6 * length bs' + j" "0 < j" "[x] = take 1 (drop i (chars (cb_byte m) bs))"
    "0 < b" "8 dvd b"
    by (rule list_repE) auto
  then have "bs' = []" by (cases bs') auto
  with * have x: "x = cb_byte m (info b + i)"
    by (simp add: chars_Cons take_Suc_conv_app_nth nth_block_chars hd_drop_conv_nth take_Suc)
  have "c_cc l - 1 = 0" using *(2) by (metis diff_self unat_1 word_unat_eq_iff)
  then have "getc (m, l) = (Some x, m\<lparr>cb_next := (cb_next m)(b := cfreelist m), cfreelist := b\<rparr>,
      \<lparr>c_cc = 0, c_cf = 0, c_cl = 0\<rparr>)"
    using * x by (simp add: getc_def Let_def block_of_info)
  with pool dis * \<open>bs' = []\<close> show ?thesis
    by (auto simp: holds_def pool_rep_def list_rep_def)
qed

lemma nth_chars_hd: "i < 6 \<Longrightarrow> chars f (b # bs) ! i = f (info b + i)"
  by (simp add: chars_Cons nth_append nth_block_chars)

lemma take_drop_Cons:
  assumes "x # q = take (Suc n) (drop i xs)"
  shows "x = xs ! i" "q = take n (drop (Suc i) xs)"
proof -
  have "i < length xs" using assms by (cases "i < length xs") auto
  then have "drop i xs = xs ! i # drop (Suc i) xs" by (simp add: Cons_nth_drop_Suc)
  with assms show "x = xs ! i" "q = take n (drop (Suc i) xs)" by auto
qed

lemma unat_dec: "unat (a::u16) = Suc n \<Longrightarrow> unat (a - 1) = n"
  by (simp add: unat_sub_le word_le_nat_alt)

lemma getc_more:
  assumes "holds (m, l) bs fs (x # q)" "q \<noteq> []"
  shows "fst (getc (m, l)) = Some x \<and>
    (holds (snd (getc (m, l))) bs fs q
     \<or> (\<exists>b bs'. bs = b # bs' \<and> holds (snd (getc (m, l))) bs' (b # fs) q))"
proof -
  from assms have rep: "list_rep m l bs (x # q)" and pool: "pool_rep m fs" and dis: "set bs \<inter> set fs = {}"
    by (simp_all add: holds_def)
  from rep obtain b bs' i j where *: "bs = b # bs'" "distinct bs" "chain (cb_next m) b bs"
    "unat (c_cc l) = length (x # q)" "c_cf l = info b + i" "i < 6" "c_cl l = info (last bs) + j" "0 < j" "j \<le> 6"
    "i + length (x # q) = 6 * length bs' + j" "x # q = take (length (x # q)) (drop i (chars (cb_byte m) bs))"
    "\<forall>b \<in> set bs. 0 < b \<and> 8 dvd b"
    by (rule list_repE) auto
  from take_drop_Cons [of x q "length q" i] *(11)
  have x: "x = cb_byte m (info b + i)" and q: "q = take (length q) (drop (Suc i) (chars (cb_byte m) bs))"
    using nth_chars_hd [OF \<open>i < 6\<close>] *(1) by auto
  have cc: "unat (c_cc l - 1) = length q" using *(4) by (simp add: unat_dec)
  then have ne: "c_cc l - 1 \<noteq> 0" using assms(2) by (metis length_0_conv unat_0)
  have b: "8 dvd b" "0 < b" using * by auto
  have md: "(c_cf l + 1) mod 8 = 0 \<longleftrightarrow> i = 5"
    using info_mod [OF b(1), of "Suc i"] *(5,6) by simp
  show ?thesis
  proof (cases "i = 5")
    case False
    then have g: "getc (m, l) = (Some x, m, l\<lparr>c_cc := c_cc l - 1, c_cf := info b + Suc i\<rparr>)"
      using ne md * x by (simp add: getc_def Let_def)
    have "list_rep m (l\<lparr>c_cc := c_cc l - 1, c_cf := info b + Suc i\<rparr>) bs q"
      unfolding list_rep_def using assms(2) * cc q False
      by (auto intro!: exI [of _ "Suc i"] exI [of _ j])
    with g pool dis show ?thesis by (simp add: holds_def)
  next
    case True
    then have "bs' \<noteq> []" using *(9,10) assms(2) by (cases bs'; cases q) auto
    then obtain c cs where bs': "bs' = c # cs" by (cases bs') auto
    with *(1,3) have c: "cb_next m b = c" "chain (cb_next m) c bs'" by auto
    let ?m = "m\<lparr>cb_next := (cb_next m)(b := cfreelist m), cfreelist := b\<rparr>"
    let ?l = "l\<lparr>c_cc := c_cc l - 1, c_cf := info c\<rparr>"
    have "block_of (5 + info b) = b" using block_of_info [OF b(1), of 5] by (simp add: add.commute)
    then have g: "getc (m, l) = (Some x, ?m, ?l)"
      using ne md x True c b *(5) by (simp add: getc_def Let_def)
    have "q = take (length q) (chars (cb_byte m) bs')"
      using q True *(1) by (simp add: chars_Cons)
    then have "list_rep ?m ?l bs' q"
      unfolding list_rep_def using assms(2) * cc bs' c True
      by (auto intro!: exI [of _ 0] exI [of _ j])
    moreover have "pool_rep ?m (b # fs)"
      using pool dis *(1) b by (auto simp: pool_rep_def)
    ultimately show ?thesis using g dis * by (auto simp: holds_def)
  qed
qed

section \<open>Storing a character\<close>

lemma take_snoc_update:
  assumes "i + n < length xs" "q = take n (drop i xs)" "length q = n"
  shows "q @ [c] = take (Suc n) (drop i (xs[i + n := c]))"
  using assms by (simp add: take_Suc_conv_app_nth drop_update_swap take_update_cancel)

lemma chars_last_update:
  assumes "bs \<noteq> []" "distinct bs" "\<forall>b \<in> set bs. 8 dvd b" "j < 6"
  shows "chars (f(info (last bs) + j := c)) bs = (chars f bs)[6 * (length bs - 1) + j := c]"
proof -
  obtain cs b where bs: "bs = cs @ [b]" using assms(1) by (cases bs rule: rev_cases) auto
  with assms show ?thesis
    by (simp add: chars_append chars_upd_other chars_Cons block_chars_upd_same list_update_append)
qed

text \<open>Storing at a free place \<open>j\<close> of the last block.\<close>

lemma put_char_rep:
  assumes "bs \<noteq> []" "distinct bs" "chain (cb_next m) (hd bs) bs" "unat (c_cc l) = length q"
    "c_cf l = info (hd bs) + i" "i < 6" "c_cl l = info (last bs) + j" "j < 6"
    "i + length q = 6 * (length bs - 1) + j" "q = take (length q) (drop i (chars (cb_byte m) bs))"
    "length q < 65535"
  shows "list_rep (fst (put_char c (m, l))) (snd (put_char c (m, l))) bs (q @ [c])"
proof -
  have dv: "\<forall>b \<in> set bs. 8 dvd b" using assms(3) chain_props by blast
  have len: "i + length q < length (chars (cb_byte m) bs)"
    using assms(1,8,9) by (cases bs) auto
  have "q @ [c] = take (Suc (length q)) (drop i (chars ((cb_byte m)(info (last bs) + j := c)) bs))"
    using take_snoc_update [OF len assms(10) refl, of c] assms(1,2,8,9) dv
    by (simp add: chars_last_update)
  moreover have "unat (c_cc l + 1) = Suc (length q)"
    using assms(4,11) unat_add_no_wrap [of "c_cc l" 1] by simp
  ultimately show ?thesis
    unfolding list_rep_def put_char_def using assms
    by (auto intro!: exI [of _ i] exI [of _ "Suc j"])
qed

lemma pool_rep_put_char [simp]: "pool_rep (fst (put_char c (m, l))) fs = pool_rep m fs"
  by (simp add: pool_rep_def put_char_def)

lemma putc_full:
  assumes "holds (m, l) bs [] q" "q = [] \<or> c_cl l mod 8 = 0"
  shows "putc c (m, l) = (False, m, l)"
proof -
  have "cfreelist m = 0" using assms(1) by (simp add: holds_def pool_rep_def)
  moreover have "q = [] \<Longrightarrow> c_cl l = 0" using assms(1) by (simp add: holds_def list_rep_def)
  ultimately show ?thesis using assms(2) by (auto simp: putc_def Let_def)
qed

lemma putc_stores:
  assumes h: "holds (m, l) bs fs q" and len: "length q < 65535"
  shows "if (q = [] \<or> c_cl l mod 8 = 0) \<and> fs = [] then putc c (m, l) = (False, m, l)
    else fst (putc c (m, l)) \<and>
      (if q = [] \<or> c_cl l mod 8 = 0 then holds (snd (putc c (m, l))) (bs @ [hd fs]) (tl fs) (q @ [c])
       else holds (snd (putc c (m, l))) bs fs (q @ [c]))"
proof -
  from h have rep: "list_rep m l bs q" and pool: "pool_rep m fs" and dis: "set bs \<inter> set fs = {}"
    by (simp_all add: holds_def)
  show ?thesis
  proof (cases "(q = [] \<or> c_cl l mod 8 = 0) \<and> fs = []")
    case True
    with putc_full h show ?thesis by auto
  next
    case nfull: False
    show ?thesis
    proof (cases "q = []")
      case True
      with nfull obtain b fs' where fs: "fs = b # fs'" by (cases fs) auto
      with pool have b: "cfreelist m = b" "0 < b" "8 dvd b" "chain (cb_next m) (cb_next m b) fs'"
        "b \<notin> set fs'" "distinct fs'" by (auto simp: pool_rep_def)
      let ?m = "m\<lparr>cfreelist := cb_next m b, cb_next := (cb_next m)(b := 0)\<rparr>"
      let ?l = "l\<lparr>c_cl := info b, c_cf := info b\<rparr>"
      have "list_rep (fst (put_char c (?m, ?l))) (snd (put_char c (?m, ?l))) [b] ([] @ [c])"
        by (rule put_char_rep [where i = 0 and j = 0])
          (use rep True b in \<open>auto simp: list_rep_def\<close>)
      moreover have "pool_rep ?m fs'" using b by (simp add: pool_rep_def)
      ultimately show ?thesis
        using True rep fs b by (auto simp: putc_def Let_def list_rep_def holds_def)
    next
      case ne: False
      with rep obtain b0 bs' i j where *: "bs = b0 # bs'" "distinct bs" "chain (cb_next m) b0 bs"
        "unat (c_cc l) = length q" "c_cf l = info b0 + i" "i < 6" "c_cl l = info (last bs) + j" "0 < j" "j \<le> 6"
        "i + length q = 6 * length bs' + j" "q = take (length q) (drop i (chars (cb_byte m) bs))"
        "\<forall>b \<in> set bs. 0 < b \<and> 8 dvd b"
        by (rule list_repE)
      have lb: "last bs \<in> set bs" using *(1) by (metis last_in_set list.distinct(1))
      have md: "c_cl l mod 8 = 0 \<longleftrightarrow> j = 6"
        using info_mod [of "last bs" j] *(7,9,12) lb by simp
      show ?thesis
      proof (cases "j = 6")
        case False
        then have p: "putc c (m, l) = (True, put_char c (m, l))"
          using md *(7) by (simp add: putc_def)
        have "list_rep (fst (put_char c (m, l))) (snd (put_char c (m, l))) bs (q @ [c])"
          by (rule put_char_rep [where i = i and j = j]) (use * False len in auto)
        with p md False ne pool dis show ?thesis by (simp add: holds_def)
      next
        case True
        with md nfull obtain b fs' where fs: "fs = b # fs'" by (cases fs) auto
        with pool dis have b: "cfreelist m = b" "0 < b" "8 dvd b" "chain (cb_next m) (cb_next m b) fs'"
          "b \<notin> set fs'" "distinct fs'" "b \<notin> set bs" "set bs \<inter> set fs' = {}" by (auto simp: pool_rep_def)
        have c8: "c_cl l - 8 = last bs" using True *(7) by (simp add: info_def)
        let ?m = "m\<lparr>cfreelist := cb_next m b, cb_next := (cb_next m)(last bs := b, b := 0)\<rparr>"
        let ?l = "l\<lparr>c_cl := info b\<rparr>"
        have p: "putc c (m, l) = (True, put_char c (?m, ?l))"
          using md True b c8 *(7) by (simp add: putc_def Let_def)
        have "list_rep (fst (put_char c (?m, ?l))) (snd (put_char c (?m, ?l))) (bs @ [b]) (q @ [c])"
        proof (rule put_char_rep [where i = i and j = 0])
          have "i + length q = length (chars (cb_byte m) bs)" using *(1,10) True by simp
          then have "take (length q) (drop i (chars (cb_byte m) (bs @ [b])))
              = take (length q) (drop i (chars (cb_byte m) bs))"
            by (simp add: chars_append)
          with *(11) show "q = take (length q) (drop i (chars (cb_byte ?m) (bs @ [b])))" by simp
          show "chain (cb_next ?m) (hd (bs @ [b])) (bs @ [b])"
            using chain_snoc [of "cb_next m" b0 bs b] *(1-3) b by simp
        qed (use *(1,2,4-6,10) True b(7) len in auto)
        moreover have "last bs \<notin> set fs'" using lb b(8) by blast
        then have "pool_rep ?m fs'" using b by (simp add: pool_rep_def)
        ultimately show ?thesis
          using p md True fs b by (auto simp: holds_def)
      qed
    qed
  qed
qed

end
