(* ===== verification/KState.thy ===== *)
theory KState
  imports Arith CoreMap Callout Clist
begin

text \<open>
  The kernel's data: the structures of \<open>h/*.h\<close> and the variables of \<open>ken/main.c\<close> as records,
  with the source's field names, and the constants of \<open>h/param.h\<close>.  Tables are functions of the
  index (\<open>proc[i]\<close> is \<open>procs s i\<close>), a pointer into a table is its index, and a pointer that
  may be null an option.  Buffer headers are linked lists of pointers in the source and are kept
  so: they are numbered from 1, 0 is the null pointer, and the list heads have numbers too.
  A block's contents is the function from word index to word.  Chars are 8-bit, ints 16-bit words.
\<close>

section \<open>Constants\<close>

abbreviation (input) NBUF :: nat where "NBUF \<equiv> 15"
abbreviation (input) NINODE :: nat where "NINODE \<equiv> 100"
abbreviation (input) NFILE :: nat where "NFILE \<equiv> 100"
abbreviation (input) NMOUNT :: nat where "NMOUNT \<equiv> 5"
abbreviation (input) NEXEC :: u16 where "NEXEC \<equiv> 3"
abbreviation (input) NOFILE :: nat where "NOFILE \<equiv> 15"
abbreviation (input) NPROC :: nat where "NPROC \<equiv> 50"
abbreviation (input) HZ :: u16 where "HZ \<equiv> 60"
abbreviation (input) NSIG :: nat where "NSIG \<equiv> 20"
abbreviation (input) DIRSIZ :: nat where "DIRSIZ \<equiv> 14"
abbreviation (input) USIZE :: u16 where "USIZE \<equiv> 16"
abbreviation (input) NODEV :: u16 where "NODEV \<equiv> -1"
abbreviation (input) ROOTINO :: u16 where "ROOTINO \<equiv> 1"

text \<open>Priorities are ints; the negative ones cannot be disturbed by signals.\<close>

abbreviation (input) PSWP :: int where "PSWP \<equiv> -100"
abbreviation (input) PINOD :: int where "PINOD \<equiv> -90"
abbreviation (input) PRIBIO :: int where "PRIBIO \<equiv> -50"
abbreviation (input) PPIPE :: int where "PPIPE \<equiv> 1"
abbreviation (input) PWAIT :: int where "PWAIT \<equiv> 40"
abbreviation (input) PSLEP :: int where "PSLEP \<equiv> 90"
abbreviation (input) PUSER :: int where "PUSER \<equiv> 100"

abbreviation (input) SIGINT :: u16 where "SIGINT \<equiv> 2"
abbreviation (input) SIGQIT :: u16 where "SIGQIT \<equiv> 3"
abbreviation (input) SIGKIL :: u16 where "SIGKIL \<equiv> 9"
abbreviation (input) SIGPIPE :: u16 where "SIGPIPE \<equiv> 13"

abbreviation (input) EPERM :: u8 where "EPERM \<equiv> 1"
abbreviation (input) ENOENT :: u8 where "ENOENT \<equiv> 2"
abbreviation (input) ESRCH :: u8 where "ESRCH \<equiv> 3"
abbreviation (input) EINTR :: u8 where "EINTR \<equiv> 4"
abbreviation (input) EIO :: u8 where "EIO \<equiv> 5"
abbreviation (input) ENXIO :: u8 where "ENXIO \<equiv> 6"
abbreviation (input) E2BIG :: u8 where "E2BIG \<equiv> 7"
abbreviation (input) ENOEXEC :: u8 where "ENOEXEC \<equiv> 8"
abbreviation (input) EBADF :: u8 where "EBADF \<equiv> 9"
abbreviation (input) ECHILD :: u8 where "ECHILD \<equiv> 10"
abbreviation (input) EAGAIN :: u8 where "EAGAIN \<equiv> 11"
abbreviation (input) EACCES :: u8 where "EACCES \<equiv> 13"
abbreviation (input) ENOTBLK :: u8 where "ENOTBLK \<equiv> 15"
abbreviation (input) EBUSY :: u8 where "EBUSY \<equiv> 16"
abbreviation (input) EEXIST :: u8 where "EEXIST \<equiv> 17"
abbreviation (input) EXDEV :: u8 where "EXDEV \<equiv> 18"
abbreviation (input) ENODEV :: u8 where "ENODEV \<equiv> 19"
abbreviation (input) ENOTDIR :: u8 where "ENOTDIR \<equiv> 20"
abbreviation (input) EISDIR :: u8 where "EISDIR \<equiv> 21"
abbreviation (input) EINVAL :: u8 where "EINVAL \<equiv> 22"
abbreviation (input) ENFILE :: u8 where "ENFILE \<equiv> 23"
abbreviation (input) EMFILE :: u8 where "EMFILE \<equiv> 24"
abbreviation (input) ENOTTY :: u8 where "ENOTTY \<equiv> 25"
abbreviation (input) ETXTBSY :: u8 where "ETXTBSY \<equiv> 26"
abbreviation (input) EFBIG :: u8 where "EFBIG \<equiv> 27"
abbreviation (input) ENOSPC :: u8 where "ENOSPC \<equiv> 28"
abbreviation (input) ESPIPE :: u8 where "ESPIPE \<equiv> 29"
abbreviation (input) EROFS :: u8 where "EROFS \<equiv> 30"
abbreviation (input) EMLINK :: u8 where "EMLINK \<equiv> 31"
abbreviation (input) EPIPE :: u8 where "EPIPE \<equiv> 32"
abbreviation (input) EFAULT :: u8 where "EFAULT \<equiv> 106"

section \<open>Processes\<close>

text \<open>
  What a process can sleep on.  The source uses addresses; distinct objects have distinct
  addresses, and the addresses \<open>ip+1\<close>, \<open>ip+2\<close> of the pipe code are the next two inodes.
\<close>

datatype chan =
    NoChan
  | ChRunin | ChRunout | ChSwapmap | ChExecnt | ChTout | ChLbolt
  | ChProc nat
  | ChBuf nat
  | ChInode nat
  | ChFlock nat | ChIlock nat
  | ChRawq | ChOutq

text \<open>\<open>p_stat\<close> and \<open>p_flag\<close> codes.\<close>

abbreviation (input) SSLEEP :: u8 where "SSLEEP \<equiv> 1"
abbreviation (input) SWAIT :: u8 where "SWAIT \<equiv> 2"
abbreviation (input) SRUN :: u8 where "SRUN \<equiv> 3"
abbreviation (input) SIDL :: u8 where "SIDL \<equiv> 4"
abbreviation (input) SZOMB :: u8 where "SZOMB \<equiv> 5"
abbreviation (input) SSTOP :: u8 where "SSTOP \<equiv> 6"

abbreviation (input) SLOAD :: u8 where "SLOAD \<equiv> 1"
abbreviation (input) SSYS :: u8 where "SSYS \<equiv> 2"
abbreviation (input) SLOCK :: u8 where "SLOCK \<equiv> 4"
abbreviation (input) SSWAP :: u8 where "SSWAP \<equiv> 8"
abbreviation (input) STRC :: u8 where "STRC \<equiv> 16"
abbreviation (input) SWTED :: u8 where "SWTED \<equiv> 32"

record proc =
  p_stat :: u8
  p_flag :: u8
  p_pri :: u8
  p_sig :: u8
  p_uid :: u8
  p_time :: u8
  p_cpu :: u8
  p_nice :: u8
  p_ttyp :: "nat option"
  p_pid :: u16
  p_ppid :: u16
  p_addr :: u16
  p_size :: u16
  p_wchan :: chan
  p_textp :: "nat option"

text \<open>
  The user structure.  \<open>u_base\<close> points into the process' own memory when \<open>u_segflg\<close> is 0; with
  \<open>u_segflg\<close> set the callers point it at \<open>u.u_dent\<close> or \<open>u.u_arg\<close>, here with the byte
  offset.  \<open>u_ss\<close>, \<open>u_sp\<close> are the saved user stack pointer, \<open>u_stack[KSSIZE-1]\<close> and
  \<open>u_stack[KSSIZE-2]\<close>; the rest of the saved stacks (\<open>u_rsav\<close>, \<open>u_qsav\<close>, \<open>u_ssav\<close>,
  \<open>u_stack\<close>) is not kept.
\<close>

datatype base = Umem u16 | Kdent u16 | Karg u16

record user =
  u_segflg :: u8
  u_error :: u8
  u_uid :: u8
  u_gid :: u8
  u_ruid :: u8
  u_rgid :: u8
  u_procp :: nat
  u_base :: base
  u_count :: u16
  u_offset :: dword
  u_cdir :: nat
  u_dbuf :: "u8 list"
  u_dirp :: u16
  u_ino :: u16
  u_name :: "u8 list"
  u_pdir :: nat
  u_ofile :: "nat \<Rightarrow> nat option"
  u_arg :: "nat \<Rightarrow> u16"
  u_signal :: "nat \<Rightarrow> u16"
  u_utime :: u16
  u_stime :: u16
  u_cutime :: dword
  u_cstime :: dword
  u_ar0 :: "nat \<Rightarrow> u16"
  u_intflg :: u8
  u_ss :: u16
  u_sp :: u16

text \<open>Shared text segments (\<open>h/text.h\<close>).\<close>

record xtext =
  x_daddr :: u16
  x_caddr :: u16
  x_size :: u16
  x_iptr :: "nat option"
  x_count :: u8
  x_ccount :: u8

section \<open>Buffers and the disk\<close>

abbreviation (input) B_WRITE :: u16 where "B_WRITE \<equiv> 0"
abbreviation (input) B_READ :: u16 where "B_READ \<equiv> 1"
abbreviation (input) B_DONE :: u16 where "B_DONE \<equiv> 2"
abbreviation (input) B_ERROR :: u16 where "B_ERROR \<equiv> 4"
abbreviation (input) B_BUSY :: u16 where "B_BUSY \<equiv> 8"
abbreviation (input) B_PHYS :: u16 where "B_PHYS \<equiv> 16"
abbreviation (input) B_MAP :: u16 where "B_MAP \<equiv> 32"
abbreviation (input) B_WANTED :: u16 where "B_WANTED \<equiv> 64"
abbreviation (input) B_RELOC :: u16 where "B_RELOC \<equiv> 128"
abbreviation (input) B_ASYNC :: u16 where "B_ASYNC \<equiv> 256"
abbreviation (input) B_DELWRI :: u16 where "B_DELWRI \<equiv> 512"

text \<open>
  A buffer header.  \<open>b_data\<close> is the memory at \<open>b_addr\<close> of a cache buffer, 257 words
  (\<open>char buffers[NBUF][514]\<close>); for raw and swap transfers \<open>b_xmem\<close>, \<open>b_addr\<close> are the
  segment (or page) and offset.
\<close>

type_synonym block = "nat \<Rightarrow> u16"

record buf =
  b_flags :: u16
  b_forw :: nat
  b_back :: nat
  av_forw :: nat
  av_back :: nat
  b_dev :: u16
  b_wcount :: u16
  b_addr :: u16
  b_data :: block
  b_xmem :: u16
  b_blkno :: u16
  b_error :: u8

text \<open>\<open>buf[i]\<close> is number \<open>i + 1\<close>; the other headers follow.\<close>

abbreviation (input) BNULL :: nat where "BNULL \<equiv> 0"
abbreviation (input) bfreelist :: nat where "bfreelist \<equiv> 16"
abbreviation (input) rktab :: nat where "rktab \<equiv> 17"
abbreviation (input) rrkbuf :: nat where "rrkbuf \<equiv> 18"
abbreviation (input) swbuf :: nat where "swbuf \<equiv> 19"

text \<open>The target of a transfer: nothing, a cache buffer, or a far pointer.\<close>

datatype iobuf = IoNull | IoCache nat nat | IoFar u16 u16

text \<open>Device numbers (\<open>h/conf.h\<close>); \<open>>>\<close> on an int is arithmetic.\<close>

definition minor :: "u16 \<Rightarrow> u16" where
  "minor x = x AND 0xff"

definition major :: "u16 \<Rightarrow> u16" where
  "major x = signed_drop_bit 8 x"

definition makedev :: "u16 \<Rightarrow> u16 \<Rightarrow> u16" where
  "makedev ma mi = push_bit 8 ma + (mi AND 0xff)"

section \<open>Files\<close>

abbreviation (input) ILOCK :: u8 where "ILOCK \<equiv> 1"
abbreviation (input) IUPD :: u8 where "IUPD \<equiv> 2"
abbreviation (input) IACC :: u8 where "IACC \<equiv> 4"
abbreviation (input) IMOUNT :: u8 where "IMOUNT \<equiv> 8"
abbreviation (input) IWANT :: u8 where "IWANT \<equiv> 16"
abbreviation (input) ITEXT :: u8 where "ITEXT \<equiv> 32"

abbreviation (input) IALLOC :: u16 where "IALLOC \<equiv> 0x8000"
abbreviation (input) IFMT :: u16 where "IFMT \<equiv> 0x6000"
abbreviation (input) IFDIR :: u16 where "IFDIR \<equiv> 0x4000"
abbreviation (input) IFCHR :: u16 where "IFCHR \<equiv> 0x2000"
abbreviation (input) IFBLK :: u16 where "IFBLK \<equiv> 0x6000"
abbreviation (input) ILARG :: u16 where "ILARG \<equiv> 0x1000"
abbreviation (input) ISUID :: u16 where "ISUID \<equiv> 0x800"
abbreviation (input) ISGID :: u16 where "ISGID \<equiv> 0x400"
abbreviation (input) ISVTX :: u16 where "ISVTX \<equiv> 0x200"
abbreviation (input) IREAD :: u16 where "IREAD \<equiv> 0x100"
abbreviation (input) IWRITE :: u16 where "IWRITE \<equiv> 0x80"
abbreviation (input) IEXEC :: u16 where "IEXEC \<equiv> 0x40"

record inode =
  i_flag :: u8
  i_count :: u8
  i_dev :: u16
  i_number :: u16
  i_mode :: u16
  i_nlink :: u8
  i_uid :: u8
  i_gid :: u8
  i_size0 :: u8
  i_size1 :: u16
  i_addr :: "nat \<Rightarrow> u16"
  i_lastr :: u16

abbreviation (input) FREAD :: u8 where "FREAD \<equiv> 1"
abbreviation (input) FWRITE :: u8 where "FWRITE \<equiv> 2"
abbreviation (input) FPIPE :: u8 where "FPIPE \<equiv> 4"

record filerec =
  f_flag :: u8
  f_count :: u8
  f_inode :: nat
  f_offset :: dword

record mount =
  m_dev :: u16
  m_bufp :: nat
  m_inodp :: "nat option"

text \<open>The high and the low byte of an int.\<close>

definition hi8 :: "u16 \<Rightarrow> u8" where
  "hi8 w = ucast (drop_bit 8 w)"

definition lo8 :: "u16 \<Rightarrow> u8" where
  "lo8 w = ucast w"

definition mk16 :: "u8 \<Rightarrow> u8 \<Rightarrow> u16" where
  "mk16 h l = push_bit 8 (ucast h) OR ucast l"

text \<open>
  The super block as it lies in a buffer (\<open>struct filsys\<close>): the fields by word index, the
  chars as bytes of words 204 and 205.
\<close>

definition s_isize :: "block \<Rightarrow> u16" where "s_isize b = b 0"
definition s_fsize :: "block \<Rightarrow> u16" where "s_fsize b = b 1"
definition s_nfree :: "block \<Rightarrow> u16" where "s_nfree b = b 2"
definition s_free :: "block \<Rightarrow> nat \<Rightarrow> u16" where "s_free b i = b (3 + i)"
definition s_ninode :: "block \<Rightarrow> u16" where "s_ninode b = b 103"
definition s_inode :: "block \<Rightarrow> nat \<Rightarrow> u16" where "s_inode b i = b (104 + i)"
definition s_flock :: "block \<Rightarrow> u8" where "s_flock b = lo8 (b 204)"
definition s_ilock :: "block \<Rightarrow> u8" where "s_ilock b = hi8 (b 204)"
definition s_fmod :: "block \<Rightarrow> u8" where "s_fmod b = lo8 (b 205)"
definition s_ronly :: "block \<Rightarrow> u8" where "s_ronly b = hi8 (b 205)"
definition s_time :: "block \<Rightarrow> dword" where "s_time b = (b 206, b 207)"

definition set_nfree :: "u16 \<Rightarrow> block \<Rightarrow> block" where "set_nfree n b = b(2 := n)"
definition set_free :: "nat \<Rightarrow> u16 \<Rightarrow> block \<Rightarrow> block" where "set_free i v b = b(3 + i := v)"
definition set_ninode :: "u16 \<Rightarrow> block \<Rightarrow> block" where "set_ninode n b = b(103 := n)"
definition set_inode :: "nat \<Rightarrow> u16 \<Rightarrow> block \<Rightarrow> block" where "set_inode i v b = b(104 + i := v)"
definition set_flock :: "u8 \<Rightarrow> block \<Rightarrow> block" where "set_flock v b = b(204 := mk16 (hi8 (b 204)) v)"
definition set_ilock :: "u8 \<Rightarrow> block \<Rightarrow> block" where "set_ilock v b = b(204 := mk16 v (lo8 (b 204)))"
definition set_fmod :: "u8 \<Rightarrow> block \<Rightarrow> block" where "set_fmod v b = b(205 := mk16 (hi8 (b 205)) v)"
definition set_ronly :: "u8 \<Rightarrow> block \<Rightarrow> block" where "set_ronly v b = b(205 := mk16 v (lo8 (b 205)))"
definition set_stime :: "dword \<Rightarrow> block \<Rightarrow> block" where "set_stime t b = b(206 := fst t, 207 := snd t)"

section \<open>The terminal\<close>

record tty =
  t_rawq :: clist
  t_canq :: clist
  t_outq :: clist
  t_flags :: u16
  t_delct :: u8
  t_col :: u8
  t_erase :: u8
  t_kill :: u8
  t_state :: u8
  t_speeds :: u16
  t_dev :: u16

text \<open>The functions a callout can name: only \<open>ttrstrt\<close> is ever passed to \<open>timeout\<close>.\<close>

datatype callfn = Ttrstrt

section \<open>The kernel\<close>

text \<open>
  The variables of \<open>ken/main.c\<close>, \<open>dmr/bio.c\<close>, \<open>dmr/rk.c\<close>, \<open>dmr/ide.c\<close> and \<open>dmr/kl.c\<close>
  (\<open>usr\<close> is \<open>u\<close>, \<open>ktime\<close> is \<open>time\<close>), and the machine behind them: the physical memory by
  byte address, the disk by sector, the characters written to the console.
\<close>

record kst =
  usr :: user
  procs :: "nat \<Rightarrow> proc"
  mpid :: u16
  runin :: u8
  runout :: u8
  runrun :: u8
  curpri :: u8
  coremap :: "mapent list"
  swapmap :: "mapent list"
  texts :: "nat \<Rightarrow> xtext"
  ktime :: dword
  tout :: dword
  lbolt :: u16
  callout :: "callfn callo list"
  bufs :: "nat \<Rightarrow> buf"
  d_active :: u8
  d_errcnt :: u8
  d_actf :: nat
  d_actl :: nat
  io_sector :: u16
  io_count :: u16
  io_cmd :: u16
  io_buf :: iobuf
  disk :: "nat \<Rightarrow> block"
  rablock :: u16
  inodes :: "nat \<Rightarrow> inode"
  files :: "nat \<Rightarrow> filerec"
  mounts :: "nat \<Rightarrow> mount"
  rootdir :: nat
  updlock :: u16
  execnt :: u16
  pool :: cpool
  kl11 :: tty
  kbd_shift :: u16
  core_cs :: u16
  memory :: "nat \<Rightarrow> u8"
  console :: "u8 list"

text \<open>\<open>rootdev\<close>, \<open>swapdev\<close>, \<open>swplo\<close>, \<open>nswap\<close> (\<open>ken/main.c\<close>), \<open>nblkdev\<close> and \<open>nchrdev\<close> as
  \<open>binit\<close> and \<open>cinit\<close> count them from the device switches.\<close>

abbreviation (input) rootdev :: u16 where "rootdev \<equiv> 0"
abbreviation (input) swapdev :: u16 where "swapdev \<equiv> 0"
abbreviation (input) swplo :: u16 where "swplo \<equiv> 4000"
abbreviation (input) nswap :: u16 where "nswap \<equiv> 872"
abbreviation (input) nblkdev :: u16 where "nblkdev \<equiv> 1"
abbreviation (input) nchrdev :: u16 where "nchrdev \<equiv> 3"

text \<open>Updating one entry of a table, and the user structure.\<close>

abbreviation (input) set_proc :: "nat \<Rightarrow> (proc \<Rightarrow> proc) \<Rightarrow> kst \<Rightarrow> kst" where
  "set_proc p f \<equiv> procs_update (\<lambda>t. t(p := f (t p)))"

abbreviation (input) set_buf :: "nat \<Rightarrow> (buf \<Rightarrow> buf) \<Rightarrow> kst \<Rightarrow> kst" where
  "set_buf b f \<equiv> bufs_update (\<lambda>t. t(b := f (t b)))"

abbreviation (input) set_ino :: "nat \<Rightarrow> (inode \<Rightarrow> inode) \<Rightarrow> kst \<Rightarrow> kst" where
  "set_ino p f \<equiv> inodes_update (\<lambda>t. t(p := f (t p)))"

abbreviation (input) set_file :: "nat \<Rightarrow> (filerec \<Rightarrow> filerec) \<Rightarrow> kst \<Rightarrow> kst" where
  "set_file p f \<equiv> files_update (\<lambda>t. t(p := f (t p)))"

abbreviation (input) set_u :: "(user \<Rightarrow> user) \<Rightarrow> kst \<Rightarrow> kst" where
  "set_u f \<equiv> usr_update f"

abbreviation (input) set_error :: "u8 \<Rightarrow> kst \<Rightarrow> kst" where
  "set_error e \<equiv> usr_update (u_error_update (\<lambda>_. e))"

abbreviation (input) set_ar0 :: "nat \<Rightarrow> u16 \<Rightarrow> kst \<Rightarrow> kst" where
  "set_ar0 r v \<equiv> usr_update (u_ar0_update (\<lambda>t. t(r := v)))"

abbreviation (input) set_arg :: "nat \<Rightarrow> u16 \<Rightarrow> kst \<Rightarrow> kst" where
  "set_arg k v \<equiv> usr_update (u_arg_update (\<lambda>t. t(k := v)))"

abbreviation (input) curproc :: "kst \<Rightarrow> nat" where
  "curproc s \<equiv> u_procp (usr s)"

text \<open>Console output of \<open>printf\<close> and of the terminal driver.\<close>

definition put_console :: "u8 list \<Rightarrow> kst \<Rightarrow> kst" where
  "put_console cs s = s\<lparr>console := console s @ cs\<rparr>"

section \<open>The kernel at load time\<close>

definition zero_clist :: clist where
  "zero_clist = \<lparr>c_cc = 0, c_cf = 0, c_cl = 0\<rparr>"

definition zero_proc :: proc where
  "zero_proc = \<lparr>p_stat = 0, p_flag = 0, p_pri = 0, p_sig = 0, p_uid = 0, p_time = 0, p_cpu = 0,
     p_nice = 0, p_ttyp = None, p_pid = 0, p_ppid = 0, p_addr = 0, p_size = 0, p_wchan = NoChan,
     p_textp = None\<rparr>"

definition zero_buf :: buf where
  "zero_buf = \<lparr>b_flags = 0, b_forw = 0, b_back = 0, av_forw = 0, av_back = 0, b_dev = 0,
     b_wcount = 0, b_addr = 0, b_data = (\<lambda>_. 0), b_xmem = 0, b_blkno = 0, b_error = 0\<rparr>"

definition zero_inode :: inode where
  "zero_inode = \<lparr>i_flag = 0, i_count = 0, i_dev = 0, i_number = 0, i_mode = 0, i_nlink = 0,
     i_uid = 0, i_gid = 0, i_size0 = 0, i_size1 = 0, i_addr = (\<lambda>_. 0), i_lastr = 0\<rparr>"

definition zero_user :: user where
  "zero_user = \<lparr>u_segflg = 0, u_error = 0, u_uid = 0, u_gid = 0, u_ruid = 0, u_rgid = 0,
     u_procp = 0, u_base = Umem 0, u_count = 0, u_offset = (0, 0), u_cdir = 0,
     u_dbuf = replicate 14 0, u_dirp = 0, u_ino = 0, u_name = replicate 14 0, u_pdir = 0,
     u_ofile = (\<lambda>_. None), u_arg = (\<lambda>_. 0), u_signal = (\<lambda>_. 0), u_utime = 0, u_stime = 0,
     u_cutime = (0, 0), u_cstime = (0, 0), u_ar0 = (\<lambda>_. 0), u_intflg = 0, u_ss = 0, u_sp = 0\<rparr>"

text \<open>The data segment at load time, all 0: \<open>cs\<close> is the segment the kernel is loaded at, in the
  memory \<open>m\<close> and with the disk \<open>d\<close>.\<close>

definition kernel0 :: "u16 \<Rightarrow> (nat \<Rightarrow> u8) \<Rightarrow> (nat \<Rightarrow> block) \<Rightarrow> kst" where
  "kernel0 cs m d =
     \<lparr>usr = zero_user, procs = (\<lambda>_. zero_proc), mpid = 0, runin = 0, runout = 0, runrun = 0,
      curpri = 0, coremap = replicate 50 \<lparr>m_size = 0, m_addr = 0\<rparr>,
      swapmap = replicate 50 \<lparr>m_size = 0, m_addr = 0\<rparr>,
      texts = (\<lambda>_. \<lparr>x_daddr = 0, x_caddr = 0, x_size = 0, x_iptr = None, x_count = 0, x_ccount = 0\<rparr>),
      ktime = (0, 0), tout = (0, 0), lbolt = 0,
      callout = replicate 20 \<lparr>c_time = 0, c_arg = 0, c_func = None\<rparr>,
      bufs = (\<lambda>_. zero_buf), d_active = 0, d_errcnt = 0, d_actf = 0, d_actl = 0,
      io_sector = 0, io_count = 0, io_cmd = 0, io_buf = IoNull, disk = d, rablock = 0,
      inodes = (\<lambda>_. zero_inode),
      files = (\<lambda>_. \<lparr>f_flag = 0, f_count = 0, f_inode = 0, f_offset = (0, 0)\<rparr>),
      mounts = (\<lambda>_. \<lparr>m_dev = 0, m_bufp = 0, m_inodp = None\<rparr>),
      rootdir = 0, updlock = 0, execnt = 0,
      pool = \<lparr>cb_next = (\<lambda>_. 0), cb_byte = (\<lambda>_. 0), cfreelist = 0\<rparr>,
      kl11 = \<lparr>t_rawq = zero_clist, t_canq = zero_clist, t_outq = zero_clist, t_flags = 0,
        t_delct = 0, t_col = 0, t_erase = 0, t_kill = 0, t_state = 0, t_speeds = 0, t_dev = 0\<rparr>,
      kbd_shift = 0, core_cs = cs, memory = m, console = []\<rparr>"

section \<open>Outcomes\<close>

text \<open>
  A kernel routine returns a value and a state, or stops: the process sleeps on a channel and
  nothing that is under way in the machine will wake it, a signal makes \<open>sleep\<close> jump to
  \<open>u_qsav\<close>, the kernel panics, the process is gone for good (\<open>exit\<close>), or the bound on a retry
  loop is used up.
\<close>

datatype stop =
    Asleep chan kst
  | Longjmp kst
  | Panic string kst
  | Gone kst
  | Spinning kst

datatype 'a kres = Ret 'a kst | Stop stop

fun andthen :: "'a kres \<Rightarrow> ('a \<Rightarrow> kst \<Rightarrow> 'b kres) \<Rightarrow> 'b kres" where
  "andthen (Ret x s) f = f x s"
| "andthen (Stop z) f = Stop z"

lemma andthen_Ret_iff: "andthen r f = Ret y s' \<longleftrightarrow> (\<exists>x s. r = Ret x s \<and> f x s = Ret y s')"
  by (cases r) auto

lemma andthen_assoc: "andthen (andthen r f) g = andthen r (\<lambda>x s. andthen (f x s) g)"
  by (cases r) auto

end
