(* ===== verification/Sched.thy ===== *)
theory Sched
  imports KState
begin

text \<open>
  Processor scheduling: \<open>wakeup\<close>, \<open>setrun\<close>, \<open>setpri\<close>, the marking part of \<open>sleep\<close> and the
  searches of \<open>swtch\<close> and \<open>sched\<close> from \<open>ken/slp.c\<close>, the signal routines of \<open>ken/sig.c\<close> and
  the process accounting of \<open>clock\<close> in \<open>ken/clock.c\<close>.  A loop over the process table is a fold
  over the indices.  \<open>setrun\<close> and \<open>wakeup\<close> call each other in the source: \<open>setrun\<close> wakes the
  scheduler after clearing \<open>runout\<close>, and no \<open>setrun\<close> reached from there calls \<open>wakeup\<close> again.
  The inner call is \<open>wake_all\<close> here, and \<open>wakeup_when_in\<close> in \<open>SchedFacts\<close> shows it is \<open>wakeup\<close>.
\<close>

section \<open>Making processes runnable\<close>

text \<open>The first half of \<open>setrun\<close>.\<close>

definition mark_run :: "nat \<Rightarrow> kst \<Rightarrow> kst" where
  "mark_run p s =
     (let s = set_proc p (\<lambda>rp. rp\<lparr>p_wchan := NoChan, p_stat := SRUN\<rparr>) s
      in if sint (p_pri (procs s p)) < sint (curpri s) then s\<lparr>runrun := runrun s + 1\<rparr> else s)"

definition wake_all :: "chan \<Rightarrow> kst \<Rightarrow> kst" where
  "wake_all c s = fold (\<lambda>p s. if p_wchan (procs s p) = c then mark_run p s else s) [0..<NPROC] s"

definition setrun :: "nat \<Rightarrow> kst \<Rightarrow> kst" where
  "setrun p s =
     (let s = mark_run p s
      in if runout s \<noteq> 0 \<and> \<not> has (p_flag (procs s p)) SLOAD
         then wake_all ChRunout (s\<lparr>runout := 0\<rparr>) else s)"

definition wakeup :: "chan \<Rightarrow> kst \<Rightarrow> kst" where
  "wakeup c s = fold (\<lambda>p s. if p_wchan (procs s p) = c then setrun p s else s) [0..<NPROC] s"

definition setpri :: "nat \<Rightarrow> kst \<Rightarrow> kst" where
  "setpri up s =
     (let pp = procs s up;
          p = int (unat (p_cpu pp) div 16) + (PUSER + sint (p_nice pp));
          p = (if p > 127 then 127 else p);
          s = (if p < sint (curpri s) then s\<lparr>runrun := runrun s + 1\<rparr> else s)
      in set_proc up (p_pri_update (\<lambda>_. word_of_int p)) s)"

text \<open>The assignments of \<open>sleep\<close> before it gives up the processor.\<close>

definition sleep_mark :: "chan \<Rightarrow> int \<Rightarrow> kst \<Rightarrow> kst" where
  "sleep_mark c pri s =
     (let s = set_proc (curproc s)
                (\<lambda>rp. rp\<lparr>p_wchan := c, p_stat := (if pri \<ge> 0 then SWAIT else SSLEEP),
                         p_pri := word_of_int pri\<rparr>) s
      in if pri \<ge> 0 \<and> runin s \<noteq> 0 then wakeup ChRunin (s\<lparr>runin := 0\<rparr>) else s)"

section \<open>Choosing a process\<close>

text \<open>
  The search of \<open>swtch\<close>: from the entry after \<open>rp\<close>, \<open>NPROC\<close> steps round the table, keeping
  the first process of the best priority.  The state of the loop is \<open>(rp, p, n)\<close>.
\<close>

definition swtch_step :: "kst \<Rightarrow> nat \<times> nat option \<times> int \<Rightarrow> nat \<times> nat option \<times> int" where
  "swtch_step s = (\<lambda>(rp, p, n).
     let rp = (if rp + 1 \<ge> NPROC then 0 else rp + 1)
     in if p_stat (procs s rp) = SRUN \<and> has (p_flag (procs s rp)) SLOAD
           \<and> sint (p_pri (procs s rp)) < n
        then (rp, Some rp, sint (p_pri (procs s rp))) else (rp, p, n))"

definition swtch_search :: "kst \<Rightarrow> nat \<Rightarrow> nat \<times> nat option \<times> int" where
  "swtch_search s rp = (swtch_step s ^^ NPROC) (rp, None, 128)"

text \<open>
  One turn of the loop of \<open>swtch\<close> with the static \<open>p\<close> at \<open>rp\<close>: the process to resume and
  whether at its swap label, or none (the processor idles and the loop is run again).
\<close>

definition swtch_loop :: "nat \<Rightarrow> kst \<Rightarrow> nat \<times> (nat \<times> bool) option \<times> kst" where
  "swtch_loop rp s =
     (let s = s\<lparr>runrun := 0\<rparr>
      in case swtch_search s rp of
           (rp, None, n) \<Rightarrow> (rp, None, s)
         | (rp, Some p, n) \<Rightarrow>
             (p, Some (p, has (p_flag (procs s p)) SSWAP),
              set_proc p (\<lambda>q. q\<lparr>p_flag := clr (p_flag q) SSWAP\<rparr>) (s\<lparr>curpri := word_of_int n\<rparr>)))"

text \<open>The search loops of \<open>sched\<close>: the last index with the largest \<open>p_time\<close> above \<open>n\<close>.\<close>

definition oldest :: "(proc \<Rightarrow> bool) \<Rightarrow> kst \<Rightarrow> nat option \<times> int" where
  "oldest P s =
     fold (\<lambda>rp (p1, n). if P (procs s rp) \<and> sint (p_time (procs s rp)) > n
                        then (Some rp, sint (p_time (procs s rp))) else (p1, n))
       [0..<NPROC] (None, -1)"

definition swapped_ready :: "proc \<Rightarrow> bool" where
  "swapped_ready rp \<longleftrightarrow> p_stat rp = SRUN \<and> \<not> has (p_flag rp) SLOAD"

definition easy_core :: "proc \<Rightarrow> bool" where
  "easy_core rp \<longleftrightarrow> p_flag rp AND (SSYS OR SLOCK OR SLOAD) = SLOAD
     \<and> (p_stat rp = SWAIT \<or> p_stat rp = SSTOP)"

definition busy_core :: "proc \<Rightarrow> bool" where
  "busy_core rp \<longleftrightarrow> p_flag rp AND (SSYS OR SLOCK OR SLOAD) = SLOAD
     \<and> (p_stat rp = SRUN \<or> p_stat rp = SSLEEP)"

section \<open>Signals\<close>

definition psignal :: "nat \<Rightarrow> u16 \<Rightarrow> kst \<Rightarrow> kst" where
  "psignal p sig s =
     (if sint sig \<ge> int NSIG then s
      else
        (let s = (if c2i (p_sig (procs s p)) \<noteq> SIGKIL
                  then set_proc p (p_sig_update (\<lambda>_. i2c sig)) s else s);
             s = (if sint (p_pri (procs s p)) > PUSER
                  then set_proc p (p_pri_update (\<lambda>_. word_of_int PUSER)) s else s)
         in if p_stat (procs s p) = SWAIT then setrun p s else s))"

definition signal :: "nat \<Rightarrow> u16 \<Rightarrow> kst \<Rightarrow> kst" where
  "signal tp sig s =
     fold (\<lambda>p s. if p_ttyp (procs s p) = Some tp then psignal p sig s else s) [0..<NPROC] s"

text \<open>\<open>u_signal\<close> is indexed by the signal; an index outside \<open>0..<NSIG\<close> reads past the array.\<close>

definition issig :: "kst \<Rightarrow> u16" where
  "issig s =
     (let n = c2i (p_sig (procs s (curproc s)))
      in if n \<noteq> 0 \<and> u_signal (usr s) (unat n) \<noteq> 1 then n else 0)"

section \<open>The second part of the clock interrupt\<close>

text \<open>User and system time, the running process' \<open>p_cpu\<close> (saturating at 255).\<close>

definition clock_account :: "u16 \<Rightarrow> kst \<Rightarrow> kst" where
  "clock_account mode s =
     (let s = (if mode \<noteq> 0 then set_u (\<lambda>w. w\<lparr>u_utime := u_utime w + 1\<rparr>) s
               else set_u (\<lambda>w. w\<lparr>u_stime := u_stime w + 1\<rparr>) s);
          s = set_proc (curproc s) (\<lambda>pp. pp\<lparr>p_cpu := p_cpu pp + 1\<rparr>) s
      in if p_cpu (procs s (curproc s)) = 0
         then set_proc (curproc s) (\<lambda>pp. pp\<lparr>p_cpu := p_cpu pp - 1\<rparr>) s else s)"

abbreviation (input) SCHMAG :: nat where "SCHMAG \<equiv> 10"

definition age_proc :: "nat \<Rightarrow> kst \<Rightarrow> kst" where
  "age_proc pp s =
     (if p_stat (procs s pp) = 0 then s
      else
        (let s = set_proc pp (\<lambda>q. q\<lparr>p_time := (if p_time q \<noteq> 127 then p_time q + 1 else p_time q),
                   p_cpu := (if unat (p_cpu q) > SCHMAG then p_cpu q - of_nat SCHMAG else 0)\<rparr>) s
         in if sint (p_pri (procs s pp)) > PUSER then setpri pp s else s))"

text \<open>
  What \<open>clock\<close> does after the callouts, up to the delivery of a signal: on every sixtieth tick
  the time of day goes up, sleepers whose time has come are woken, every process is aged, and
  the swapper is started.  The result says whether the second was completed.
\<close>

definition clock_time :: "u16 \<Rightarrow> kst \<Rightarrow> bool \<times> kst" where
  "clock_time mode s =
     (let s = clock_account mode s;
          s = s\<lparr>lbolt := lbolt s + 1\<rparr>
      in if slt16 (lbolt s) HZ then (False, s)
         else
           (let s = s\<lparr>lbolt := lbolt s - HZ\<rparr>;
                s = s\<lparr>ktime := (fst (ktime s), snd (ktime s) + 1)\<rparr>;
                s = (if snd (ktime s) = 0 then s\<lparr>ktime := (fst (ktime s) + 1, snd (ktime s))\<rparr> else s);
                s = (if ktime s = tout s then wakeup ChTout s else s);
                s = (if snd (ktime s) AND 3 = 0 then wakeup ChLbolt (s\<lparr>runrun := runrun s + 1\<rparr>) else s);
                s = fold age_proc [0..<NPROC] s;
                s = (if runin s \<noteq> 0 then wakeup ChRunin (s\<lparr>runin := 0\<rparr>) else s)
            in (True, s)))"

section \<open>What waking changes\<close>

lemma fold_frame: "(\<And>x s. f (g x s) = f s) \<Longrightarrow> f (fold g xs s) = f s"
  by (induction xs arbitrary: s) auto

lemma mark_run_frame [simp]:
  "usr (mark_run p s) = usr s" "mpid (mark_run p s) = mpid s" "runin (mark_run p s) = runin s"
  "runout (mark_run p s) = runout s" "curpri (mark_run p s) = curpri s"
  "coremap (mark_run p s) = coremap s" "swapmap (mark_run p s) = swapmap s"
  "texts (mark_run p s) = texts s" "ktime (mark_run p s) = ktime s" "tout (mark_run p s) = tout s"
  "lbolt (mark_run p s) = lbolt s" "callout (mark_run p s) = callout s"
  "bufs (mark_run p s) = bufs s" "d_active (mark_run p s) = d_active s"
  "d_errcnt (mark_run p s) = d_errcnt s" "d_actf (mark_run p s) = d_actf s"
  "d_actl (mark_run p s) = d_actl s" "io_sector (mark_run p s) = io_sector s"
  "io_count (mark_run p s) = io_count s" "io_cmd (mark_run p s) = io_cmd s"
  "io_buf (mark_run p s) = io_buf s" "disk (mark_run p s) = disk s"
  "rablock (mark_run p s) = rablock s" "inodes (mark_run p s) = inodes s"
  "files (mark_run p s) = files s" "mounts (mark_run p s) = mounts s"
  "rootdir (mark_run p s) = rootdir s" "updlock (mark_run p s) = updlock s"
  "execnt (mark_run p s) = execnt s" "pool (mark_run p s) = pool s" "kl11 (mark_run p s) = kl11 s"
  "kbd_shift (mark_run p s) = kbd_shift s" "core_cs (mark_run p s) = core_cs s"
  "memory (mark_run p s) = memory s" "console (mark_run p s) = console s"
  by (simp_all add: mark_run_def Let_def)

lemma wake_all_frame [simp]:
  "usr (wake_all c s) = usr s" "mpid (wake_all c s) = mpid s" "runin (wake_all c s) = runin s"
  "runout (wake_all c s) = runout s" "curpri (wake_all c s) = curpri s"
  "coremap (wake_all c s) = coremap s" "swapmap (wake_all c s) = swapmap s"
  "texts (wake_all c s) = texts s" "ktime (wake_all c s) = ktime s" "tout (wake_all c s) = tout s"
  "lbolt (wake_all c s) = lbolt s" "callout (wake_all c s) = callout s"
  "bufs (wake_all c s) = bufs s" "d_active (wake_all c s) = d_active s"
  "d_errcnt (wake_all c s) = d_errcnt s" "d_actf (wake_all c s) = d_actf s"
  "d_actl (wake_all c s) = d_actl s" "io_sector (wake_all c s) = io_sector s"
  "io_count (wake_all c s) = io_count s" "io_cmd (wake_all c s) = io_cmd s"
  "io_buf (wake_all c s) = io_buf s" "disk (wake_all c s) = disk s"
  "rablock (wake_all c s) = rablock s" "inodes (wake_all c s) = inodes s"
  "files (wake_all c s) = files s" "mounts (wake_all c s) = mounts s"
  "rootdir (wake_all c s) = rootdir s" "updlock (wake_all c s) = updlock s"
  "execnt (wake_all c s) = execnt s" "pool (wake_all c s) = pool s" "kl11 (wake_all c s) = kl11 s"
  "kbd_shift (wake_all c s) = kbd_shift s" "core_cs (wake_all c s) = core_cs s"
  "memory (wake_all c s) = memory s" "console (wake_all c s) = console s"
  unfolding wake_all_def by (rule fold_frame, simp)+

lemma setrun_frame [simp]:
  "usr (setrun p s) = usr s" "mpid (setrun p s) = mpid s" "runin (setrun p s) = runin s"
  "curpri (setrun p s) = curpri s" "coremap (setrun p s) = coremap s"
  "swapmap (setrun p s) = swapmap s" "texts (setrun p s) = texts s" "ktime (setrun p s) = ktime s"
  "tout (setrun p s) = tout s" "lbolt (setrun p s) = lbolt s" "callout (setrun p s) = callout s"
  "bufs (setrun p s) = bufs s" "d_active (setrun p s) = d_active s"
  "d_errcnt (setrun p s) = d_errcnt s" "d_actf (setrun p s) = d_actf s"
  "d_actl (setrun p s) = d_actl s" "io_sector (setrun p s) = io_sector s"
  "io_count (setrun p s) = io_count s" "io_cmd (setrun p s) = io_cmd s"
  "io_buf (setrun p s) = io_buf s" "disk (setrun p s) = disk s" "rablock (setrun p s) = rablock s"
  "inodes (setrun p s) = inodes s" "files (setrun p s) = files s" "mounts (setrun p s) = mounts s"
  "rootdir (setrun p s) = rootdir s" "updlock (setrun p s) = updlock s"
  "execnt (setrun p s) = execnt s" "pool (setrun p s) = pool s" "kl11 (setrun p s) = kl11 s"
  "kbd_shift (setrun p s) = kbd_shift s" "core_cs (setrun p s) = core_cs s"
  "memory (setrun p s) = memory s" "console (setrun p s) = console s"
  by (simp_all add: setrun_def Let_def)

lemma wakeup_frame [simp]:
  "usr (wakeup c s) = usr s" "mpid (wakeup c s) = mpid s" "runin (wakeup c s) = runin s"
  "curpri (wakeup c s) = curpri s" "coremap (wakeup c s) = coremap s"
  "swapmap (wakeup c s) = swapmap s" "texts (wakeup c s) = texts s" "ktime (wakeup c s) = ktime s"
  "tout (wakeup c s) = tout s" "lbolt (wakeup c s) = lbolt s" "callout (wakeup c s) = callout s"
  "bufs (wakeup c s) = bufs s" "d_active (wakeup c s) = d_active s"
  "d_errcnt (wakeup c s) = d_errcnt s" "d_actf (wakeup c s) = d_actf s"
  "d_actl (wakeup c s) = d_actl s" "io_sector (wakeup c s) = io_sector s"
  "io_count (wakeup c s) = io_count s" "io_cmd (wakeup c s) = io_cmd s"
  "io_buf (wakeup c s) = io_buf s" "disk (wakeup c s) = disk s" "rablock (wakeup c s) = rablock s"
  "inodes (wakeup c s) = inodes s" "files (wakeup c s) = files s" "mounts (wakeup c s) = mounts s"
  "rootdir (wakeup c s) = rootdir s" "updlock (wakeup c s) = updlock s"
  "execnt (wakeup c s) = execnt s" "pool (wakeup c s) = pool s" "kl11 (wakeup c s) = kl11 s"
  "kbd_shift (wakeup c s) = kbd_shift s" "core_cs (wakeup c s) = core_cs s"
  "memory (wakeup c s) = memory s" "console (wakeup c s) = console s"
  unfolding wakeup_def by (rule fold_frame, simp)+

lemma setpri_frame [simp]:
  "usr (setpri p s) = usr s" "mpid (setpri p s) = mpid s" "runin (setpri p s) = runin s"
  "runout (setpri p s) = runout s" "curpri (setpri p s) = curpri s"
  "coremap (setpri p s) = coremap s" "swapmap (setpri p s) = swapmap s"
  "texts (setpri p s) = texts s" "ktime (setpri p s) = ktime s" "tout (setpri p s) = tout s"
  "lbolt (setpri p s) = lbolt s" "callout (setpri p s) = callout s" "bufs (setpri p s) = bufs s"
  "d_active (setpri p s) = d_active s" "d_errcnt (setpri p s) = d_errcnt s"
  "d_actf (setpri p s) = d_actf s" "d_actl (setpri p s) = d_actl s"
  "io_sector (setpri p s) = io_sector s" "io_count (setpri p s) = io_count s"
  "io_cmd (setpri p s) = io_cmd s" "io_buf (setpri p s) = io_buf s" "disk (setpri p s) = disk s"
  "rablock (setpri p s) = rablock s" "inodes (setpri p s) = inodes s"
  "files (setpri p s) = files s" "mounts (setpri p s) = mounts s"
  "rootdir (setpri p s) = rootdir s" "updlock (setpri p s) = updlock s"
  "execnt (setpri p s) = execnt s" "pool (setpri p s) = pool s" "kl11 (setpri p s) = kl11 s"
  "kbd_shift (setpri p s) = kbd_shift s" "core_cs (setpri p s) = core_cs s"
  "memory (setpri p s) = memory s" "console (setpri p s) = console s"
  by (simp_all add: setpri_def Let_def)

lemma psignal_frame [simp]:
  "usr (psignal p sig s) = usr s" "mpid (psignal p sig s) = mpid s"
  "runin (psignal p sig s) = runin s" "curpri (psignal p sig s) = curpri s"
  "coremap (psignal p sig s) = coremap s" "swapmap (psignal p sig s) = swapmap s"
  "texts (psignal p sig s) = texts s" "ktime (psignal p sig s) = ktime s"
  "tout (psignal p sig s) = tout s" "lbolt (psignal p sig s) = lbolt s"
  "callout (psignal p sig s) = callout s" "bufs (psignal p sig s) = bufs s"
  "d_active (psignal p sig s) = d_active s" "d_errcnt (psignal p sig s) = d_errcnt s"
  "d_actf (psignal p sig s) = d_actf s" "d_actl (psignal p sig s) = d_actl s"
  "io_sector (psignal p sig s) = io_sector s" "io_count (psignal p sig s) = io_count s"
  "io_cmd (psignal p sig s) = io_cmd s" "io_buf (psignal p sig s) = io_buf s"
  "disk (psignal p sig s) = disk s" "rablock (psignal p sig s) = rablock s"
  "inodes (psignal p sig s) = inodes s" "files (psignal p sig s) = files s"
  "mounts (psignal p sig s) = mounts s" "rootdir (psignal p sig s) = rootdir s"
  "updlock (psignal p sig s) = updlock s" "execnt (psignal p sig s) = execnt s"
  "pool (psignal p sig s) = pool s" "kl11 (psignal p sig s) = kl11 s"
  "kbd_shift (psignal p sig s) = kbd_shift s" "core_cs (psignal p sig s) = core_cs s"
  "memory (psignal p sig s) = memory s" "console (psignal p sig s) = console s"
  by (simp_all add: psignal_def Let_def)

lemma signal_frame [simp]:
  "usr (signal tp sig s) = usr s" "mpid (signal tp sig s) = mpid s"
  "runin (signal tp sig s) = runin s" "curpri (signal tp sig s) = curpri s"
  "coremap (signal tp sig s) = coremap s" "swapmap (signal tp sig s) = swapmap s"
  "texts (signal tp sig s) = texts s" "ktime (signal tp sig s) = ktime s"
  "tout (signal tp sig s) = tout s" "lbolt (signal tp sig s) = lbolt s"
  "callout (signal tp sig s) = callout s" "bufs (signal tp sig s) = bufs s"
  "d_active (signal tp sig s) = d_active s" "d_errcnt (signal tp sig s) = d_errcnt s"
  "d_actf (signal tp sig s) = d_actf s" "d_actl (signal tp sig s) = d_actl s"
  "io_sector (signal tp sig s) = io_sector s" "io_count (signal tp sig s) = io_count s"
  "io_cmd (signal tp sig s) = io_cmd s" "io_buf (signal tp sig s) = io_buf s"
  "disk (signal tp sig s) = disk s" "rablock (signal tp sig s) = rablock s"
  "inodes (signal tp sig s) = inodes s" "files (signal tp sig s) = files s"
  "mounts (signal tp sig s) = mounts s" "rootdir (signal tp sig s) = rootdir s"
  "updlock (signal tp sig s) = updlock s" "execnt (signal tp sig s) = execnt s"
  "pool (signal tp sig s) = pool s" "kl11 (signal tp sig s) = kl11 s"
  "kbd_shift (signal tp sig s) = kbd_shift s" "core_cs (signal tp sig s) = core_cs s"
  "memory (signal tp sig s) = memory s" "console (signal tp sig s) = console s"
  unfolding signal_def by (rule fold_frame, simp)+

lemma sleep_mark_frame [simp]:
  "usr (sleep_mark c pri s) = usr s" "mpid (sleep_mark c pri s) = mpid s"
  "curpri (sleep_mark c pri s) = curpri s" "coremap (sleep_mark c pri s) = coremap s"
  "swapmap (sleep_mark c pri s) = swapmap s" "texts (sleep_mark c pri s) = texts s"
  "ktime (sleep_mark c pri s) = ktime s" "tout (sleep_mark c pri s) = tout s"
  "lbolt (sleep_mark c pri s) = lbolt s" "callout (sleep_mark c pri s) = callout s"
  "bufs (sleep_mark c pri s) = bufs s" "d_active (sleep_mark c pri s) = d_active s"
  "d_errcnt (sleep_mark c pri s) = d_errcnt s" "d_actf (sleep_mark c pri s) = d_actf s"
  "d_actl (sleep_mark c pri s) = d_actl s" "io_sector (sleep_mark c pri s) = io_sector s"
  "io_count (sleep_mark c pri s) = io_count s" "io_cmd (sleep_mark c pri s) = io_cmd s"
  "io_buf (sleep_mark c pri s) = io_buf s" "disk (sleep_mark c pri s) = disk s"
  "rablock (sleep_mark c pri s) = rablock s" "inodes (sleep_mark c pri s) = inodes s"
  "files (sleep_mark c pri s) = files s" "mounts (sleep_mark c pri s) = mounts s"
  "rootdir (sleep_mark c pri s) = rootdir s" "updlock (sleep_mark c pri s) = updlock s"
  "execnt (sleep_mark c pri s) = execnt s" "pool (sleep_mark c pri s) = pool s"
  "kl11 (sleep_mark c pri s) = kl11 s" "kbd_shift (sleep_mark c pri s) = kbd_shift s"
  "core_cs (sleep_mark c pri s) = core_cs s" "memory (sleep_mark c pri s) = memory s"
  "console (sleep_mark c pri s) = console s"
  by (simp_all add: sleep_mark_def Let_def)

end
