(* ===== verification/BufList.thy ===== *)
theory BufList
  imports Sched
begin

text \<open>
  The buffer lists of \<open>dmr/bio.c\<close>.  Every header is on two doubly linked rings: the ring of its
  device (\<open>b_forw\<close>, \<open>b_back\<close>, headed by \<open>rktab\<close>, or by \<open>bfreelist\<close> for buffers of no
  device) and, while it is not busy, the ring of available buffers (\<open>av_forw\<close>, \<open>av_back\<close>,
  headed by \<open>bfreelist\<close>, oldest first).  The routines here are pointer assignments, in the order
  of the source; \<open>BufRing\<close> and \<open>BufFacts\<close> abstract them to lists and prove what each routine
  does to the lists.
\<close>

section \<open>The routines\<close>

text \<open>\<open>*backp\<close> in \<open>brelse\<close> is \<open>bfreelist.av_back\<close>.\<close>

definition av_append :: "nat \<Rightarrow> kst \<Rightarrow> kst" where
  "av_append bp s =
     (let s = set_buf (av_back (bufs s bfreelist)) (\<lambda>b. b\<lparr>av_forw := bp\<rparr>) s;
          back = av_back (bufs s bfreelist);
          s = set_buf bp (\<lambda>b. b\<lparr>av_back := back\<rparr>) s;
          s = set_buf bfreelist (\<lambda>b. b\<lparr>av_back := bp\<rparr>) s
      in set_buf bp (\<lambda>b. b\<lparr>av_forw := bfreelist\<rparr>) s)"

definition brelse :: "nat \<Rightarrow> kst \<Rightarrow> kst" where
  "brelse bp s =
     (let s = (if has (b_flags (bufs s bp)) B_WANTED then wakeup (ChBuf bp) s else s);
          s = (if has (b_flags (bufs s bfreelist)) B_WANTED
               then wakeup (ChBuf bfreelist)
                      (set_buf bfreelist (\<lambda>b. b\<lparr>b_flags := clr (b_flags b) B_WANTED\<rparr>) s)
               else s);
          s = (if has (b_flags (bufs s bp)) B_ERROR
               then set_buf bp (\<lambda>b. b\<lparr>b_dev := b_dev b OR 0xff\<rparr>) s else s);
          s = set_buf bp (\<lambda>b. b\<lparr>b_flags := clr (b_flags b) (B_WANTED OR B_BUSY OR B_ASYNC)\<rparr>) s
      in av_append bp s)"

definition notavail :: "nat \<Rightarrow> kst \<Rightarrow> kst" where
  "notavail bp s =
     (let fw = av_forw (bufs s bp);
          s = set_buf (av_back (bufs s bp)) (\<lambda>b. b\<lparr>av_forw := fw\<rparr>) s;
          bk = av_back (bufs s bp);
          s = set_buf (av_forw (bufs s bp)) (\<lambda>b. b\<lparr>av_back := bk\<rparr>) s
      in set_buf bp (\<lambda>b. b\<lparr>b_flags := b_flags b OR B_BUSY\<rparr>) s)"

text \<open>The device switch has one entry, whose \<open>d_tab\<close> is \<open>rktab\<close>; the next one is null.\<close>

definition bdev_tab :: "u16 \<Rightarrow> nat" where
  "bdev_tab maj = (if maj = 0 then rktab else BNULL)"

text \<open>
  The search loop of \<open>incore\<close> and \<open>getblk\<close> along \<open>b_forw\<close> from \<open>bp\<close> back to the head \<open>dp\<close>.
  A ring has at most \<open>NBUF\<close> buffers, so \<open>NBUF + 1\<close> steps are enough (\<open>find_block_ring\<close> in \<open>BufFacts\<close>).
\<close>

fun find_block :: "nat \<Rightarrow> (nat \<Rightarrow> buf) \<Rightarrow> nat \<Rightarrow> u16 \<Rightarrow> u16 \<Rightarrow> nat \<Rightarrow> nat" where
  "find_block 0 t dp dev blkno bp = BNULL"
| "find_block (Suc n) t dp dev blkno bp =
     (if bp = dp then BNULL
      else if b_blkno (t bp) = blkno \<and> b_dev (t bp) = dev then bp
      else find_block n t dp dev blkno (b_forw (t bp)))"

definition incore :: "u16 \<Rightarrow> u16 \<Rightarrow> kst \<Rightarrow> nat" where
  "incore dev blkno s =
     (let dp = bdev_tab (major dev)
      in find_block (NBUF + 1) (bufs s) dp dev blkno (b_forw (bufs s dp)))"

text \<open>
  The part of \<open>getblk\<close> that gives the buffer \<open>bp\<close> a new block on the ring of \<open>dp\<close>: its flags,
  the two assignments that take it off its ring, the four that put it first on the other, its name.
\<close>

definition dev_unlink :: "nat \<Rightarrow> kst \<Rightarrow> kst" where
  "dev_unlink bp s =
     (let fw = b_forw (bufs s bp);
          s = set_buf (b_back (bufs s bp)) (\<lambda>b. b\<lparr>b_forw := fw\<rparr>) s;
          bk = b_back (bufs s bp)
      in set_buf (b_forw (bufs s bp)) (\<lambda>b. b\<lparr>b_back := bk\<rparr>) s)"

definition dev_push :: "nat \<Rightarrow> nat \<Rightarrow> kst \<Rightarrow> kst" where
  "dev_push dp bp s =
     (let df = b_forw (bufs s dp);
          s = set_buf bp (\<lambda>b. b\<lparr>b_forw := df\<rparr>) s;
          s = set_buf bp (\<lambda>b. b\<lparr>b_back := dp\<rparr>) s;
          s = set_buf (b_forw (bufs s dp)) (\<lambda>b. b\<lparr>b_back := bp\<rparr>) s
      in set_buf dp (\<lambda>b. b\<lparr>b_forw := bp\<rparr>) s)"

definition rebind :: "nat \<Rightarrow> nat \<Rightarrow> u16 \<Rightarrow> u16 \<Rightarrow> kst \<Rightarrow> kst" where
  "rebind bp dp dev blkno s =
     (let s = set_buf bp (\<lambda>b. b\<lparr>b_flags := B_BUSY OR B_RELOC\<rparr>) s;
          s = dev_push dp bp (dev_unlink bp s)
      in set_buf bp (\<lambda>b. b\<lparr>b_dev := dev, b_blkno := blkno\<rparr>) s)"

definition iodone :: "nat \<Rightarrow> kst \<Rightarrow> kst" where
  "iodone bp s =
     (let s = set_buf bp (\<lambda>b. b\<lparr>b_flags := b_flags b OR B_DONE\<rparr>) s
      in if has (b_flags (bufs s bp)) B_ASYNC then brelse bp s
         else wakeup (ChBuf bp) (set_buf bp (\<lambda>b. b\<lparr>b_flags := clr (b_flags b) B_WANTED\<rparr>) s))"

definition geterror :: "nat \<Rightarrow> kst \<Rightarrow> kst" where
  "geterror bp s =
     (if has (b_flags (bufs s bp)) B_ERROR
      then (if b_error (bufs s bp) = 0 then set_error EIO s else set_error (b_error (bufs s bp)) s)
      else s)"

definition clrbuf :: "nat \<Rightarrow> kst \<Rightarrow> kst" where
  "clrbuf bp = set_buf bp (\<lambda>b. b\<lparr>b_data := (\<lambda>i. if i < 256 then 0 else b_data b i)\<rparr>)"

text \<open>\<open>bcopy\<close> of words between two blocks (or parts of them).\<close>

definition bcopy :: "block \<Rightarrow> nat \<Rightarrow> block \<Rightarrow> nat \<Rightarrow> nat \<Rightarrow> block" where
  "bcopy from i to j n = (\<lambda>k. if j \<le> k \<and> k < j + n then from (i + (k - j)) else to k)"

text \<open>The body of the loop of \<open>binit\<close> for the buffer \<open>bp\<close>, then the loop and the device lists.\<close>

definition binit_buf :: "nat \<Rightarrow> kst \<Rightarrow> kst" where
  "binit_buf bp s =
     (let s = set_buf bp (\<lambda>b. b\<lparr>b_dev := -1\<rparr>) s;
          s = set_buf bp (\<lambda>b. b\<lparr>b_back := bfreelist\<rparr>) s;
          ff = b_forw (bufs s bfreelist);
          s = set_buf bp (\<lambda>b. b\<lparr>b_forw := ff\<rparr>) s;
          s = set_buf (b_forw (bufs s bfreelist)) (\<lambda>b. b\<lparr>b_back := bp\<rparr>) s;
          s = set_buf bfreelist (\<lambda>b. b\<lparr>b_forw := bp\<rparr>) s;
          s = set_buf bp (\<lambda>b. b\<lparr>b_flags := B_BUSY\<rparr>) s
      in brelse bp s)"

definition binit :: "kst \<Rightarrow> kst" where
  "binit s =
     (let s = set_buf bfreelist (\<lambda>b. b\<lparr>b_forw := bfreelist, b_back := bfreelist,
                av_forw := bfreelist, av_back := bfreelist\<rparr>) s;
          s = fold binit_buf [1..<NBUF + 1] s
      in set_buf rktab (\<lambda>b. b\<lparr>b_forw := rktab, b_back := rktab\<rparr>) s)"

end
