(* ===== verification/Disk.thy ===== *)
theory Disk
  imports BufList
begin

text \<open>
  The disk driver: \<open>dmr/rk.c\<close>, which queues requests (linked through \<open>av_forw\<close>) and runs one at a
  time, on top of \<open>dmr/ide.c\<close>, which moves one sector per interrupt.  The controller is the part
  of the machine behind the ports: a write command takes the 256 words when they are output, a
  read command delivers the sector's words at the interrupt.  Only the low 16 bits of a sector
  number are output.
\<close>

section \<open>Memory behind far pointers\<close>

text \<open>\<open>MK_FP(seg, off)\<close> in real mode; words are stored low byte first.\<close>

definition lin :: "u16 \<Rightarrow> u16 \<Rightarrow> nat" where
  "lin seg off = 16 * unat seg + unat off"

definition peek16 :: "(nat \<Rightarrow> u8) \<Rightarrow> u16 \<Rightarrow> u16 \<Rightarrow> u16" where
  "peek16 m seg off = mk16 (m (lin seg (off + 1))) (m (lin seg off))"

definition poke16 :: "u16 \<Rightarrow> u16 \<Rightarrow> u16 \<Rightarrow> (nat \<Rightarrow> u8) \<Rightarrow> nat \<Rightarrow> u8" where
  "poke16 seg off w m = m(lin seg off := lo8 w, lin seg (off + 1) := hi8 w)"

definition io_get :: "iobuf \<Rightarrow> kst \<Rightarrow> block" where
  "io_get p s = (\<lambda>i. case p of
       IoNull \<Rightarrow> 0
     | IoCache b k \<Rightarrow> b_data (bufs s b) (k + i)
     | IoFar seg off \<Rightarrow> peek16 (memory s) seg (off + 2 * of_nat i))"

definition io_put :: "iobuf \<Rightarrow> block \<Rightarrow> kst \<Rightarrow> kst" where
  "io_put p w s = (case p of
       IoNull \<Rightarrow> s
     | IoCache b k \<Rightarrow> set_buf b (\<lambda>x. x\<lparr>b_data := bcopy w 0 (b_data x) k 256\<rparr>) s
     | IoFar seg off \<Rightarrow>
         s\<lparr>memory := fold (\<lambda>i. poke16 seg (off + 2 * of_nat i) (w i)) [0..<256] (memory s)\<rparr>)"

definition io_advance :: "iobuf \<Rightarrow> iobuf" where
  "io_advance p = (case p of IoNull \<Rightarrow> IoNull | IoCache b k \<Rightarrow> IoCache b (k + 256)
     | IoFar seg off \<Rightarrow> IoFar seg (off + 512))"

section \<open>The IDE interface\<close>

definition idestart :: "u16 \<Rightarrow> iobuf \<Rightarrow> kst \<Rightarrow> kst" where
  "idestart sector data s =
     (if data \<noteq> IoNull
      then s\<lparr>disk := (disk s)(unat sector := (\<lambda>i. if i < 256 then io_get data s i else 0))\<rparr>
      else s)"

definition ideio :: "u16 \<Rightarrow> u16 \<Rightarrow> iobuf \<Rightarrow> u16 \<Rightarrow> kst \<Rightarrow> kst" where
  "ideio sector count buf cmd s =
     (let s = s\<lparr>io_sector := sector, io_count := count, io_buf := buf, io_cmd := cmd\<rparr>
      in idestart (io_sector s) (if cmd = 0 then io_buf s else IoNull) s)"

section \<open>The request queue\<close>

abbreviation (input) NRKBLK :: u16 where "NRKBLK \<equiv> 4872"

definition devstart :: "nat \<Rightarrow> kst \<Rightarrow> kst" where
  "devstart bp s =
     (let b = bufs s bp;
          (n, p) =
            (if has (b_flags b) B_PHYS then
               (if bp = rrkbuf then (b_wcount b, IoFar (b_xmem b) (b_addr b))
                else (8 * b_wcount b, IoFar (b_xmem b * 256) 0))
             else (1, IoCache bp 0))
      in ideio (b_blkno b + NRKBLK * minor (b_dev b)) n p (b_flags b AND B_READ) s)"

definition rkstart :: "kst \<Rightarrow> kst" where
  "rkstart s =
     (if d_actf s = BNULL then s
      else devstart (d_actf s) (s\<lparr>d_active := d_active s + 1\<rparr>))"

definition rkstrategy :: "nat \<Rightarrow> kst \<Rightarrow> kst" where
  "rkstrategy bp s =
     (let d = minor (b_dev (bufs s bp)) - 7;
          d = (if sle16 d 0 then 1 else d)
      in if sle16 (NRKBLK * d) (b_blkno (bufs s bp)) then
           iodone bp (set_buf bp (\<lambda>b. b\<lparr>b_flags := b_flags b OR B_ERROR\<rparr>) s)
         else
           (let s = set_buf bp (\<lambda>b. b\<lparr>av_forw := BNULL\<rparr>) s;
                s = (if d_actf s = BNULL then s\<lparr>d_actf := bp\<rparr>
                     else set_buf (d_actl s) (\<lambda>b. b\<lparr>av_forw := bp\<rparr>) s);
                s = s\<lparr>d_actl := bp\<rparr>
            in if d_active s = 0 then rkstart s else s))"

definition rkintr :: "kst \<Rightarrow> kst" where
  "rkintr s =
     (if d_active s = 0 then s
      else
        (let bp = d_actf s;
             s = s\<lparr>d_active := 0, d_errcnt := 0, d_actf := av_forw (bufs s bp)\<rparr>
         in rkstart (iodone bp s)))"

definition ideintr :: "kst \<Rightarrow> kst" where
  "ideintr s =
     (let sector = io_sector s;
          s = s\<lparr>io_sector := io_sector s + 1, io_count := io_count s - 1\<rparr>;
          s = (if io_cmd s \<noteq> 0 then io_put (io_buf s) (disk s (unat sector)) s else s);
          s = s\<lparr>io_buf := io_advance (io_buf s)\<rparr>
      in if sle16 (io_count s) 0 then rkintr s
         else idestart (io_sector s) (if io_cmd s = 0 then io_buf s else IoNull) s)"

end
