(* ===== verification/Bio.thy ===== *)
theory Bio
  imports Disk
begin

text \<open>
  Block I/O: \<open>sleep\<close> of \<open>ken/slp.c\<close> and the routines of \<open>dmr/bio.c\<close> that wait.  While the
  calling process sleeps the machine goes on: disk interrupts are taken until one of them makes
  the process runnable again; then \<open>sleep\<close> returns.  If the disk is idle and the process still
  sleeps, nothing under way will wake it and the outcome is \<open>Asleep\<close>.  Other processes do not
  run in between: a routine is followed on its own, and where it would wait for
  another process it stops with the channel it waits on.
  A retry loop has a bound, and \<open>Spinning\<close> is the outcome when the bound is used up.
\<close>

section \<open>Sleeping\<close>

text \<open>Disk interrupts until the current process is runnable; the bound covers the 16 requests
  of the cache and raw buffers and a swap of at most 128 sectors.\<close>

fun await :: "nat \<Rightarrow> kst \<Rightarrow> kst" where
  "await 0 s = s"
| "await (Suc n) s =
     (if p_stat (procs s (curproc s)) = SRUN \<or> d_active s = 0 then s else await n (ideintr s))"

abbreviation (input) AWAIT :: nat where "AWAIT \<equiv> 1000"

text \<open>\<open>swtch\<close> has come back to the process.\<close>

definition resumed :: "kst \<Rightarrow> kst" where
  "resumed s =
     set_proc (curproc s) (\<lambda>q. q\<lparr>p_flag := clr (p_flag q) SSWAP\<rparr>)
       (s\<lparr>runrun := 0, curpri := p_pri (procs s (curproc s))\<rparr>)"

definition sleep :: "chan \<Rightarrow> int \<Rightarrow> kst \<Rightarrow> unit kres" where
  "sleep c pri s =
     (if pri \<ge> 0 \<and> issig s \<noteq> 0 then Stop (Longjmp s)
      else
        (let s = await AWAIT (sleep_mark c pri s)
         in if p_stat (procs s (curproc s)) \<noteq> SRUN then Stop (Asleep c s)
            else
              (let s = resumed s
               in if pri \<ge> 0 \<and> issig s \<noteq> 0 then Stop (Longjmp s) else Ret () s)))"

section \<open>Waiting and writing\<close>

fun iowait_loop :: "nat \<Rightarrow> nat \<Rightarrow> kst \<Rightarrow> unit kres" where
  "iowait_loop 0 bp s = Stop (Spinning s)"
| "iowait_loop (Suc n) bp s =
     (if has (b_flags (bufs s bp)) B_DONE then Ret () s
      else andthen (sleep (ChBuf bp) PRIBIO s) (\<lambda>_. iowait_loop n bp))"

abbreviation (input) SPINS :: nat where "SPINS \<equiv> 100"

definition iowait :: "nat \<Rightarrow> kst \<Rightarrow> unit kres" where
  "iowait bp s = andthen (iowait_loop SPINS bp s) (\<lambda>_ s. Ret () (geterror bp s))"

text \<open>\<open>(*bdevsw[major(dev)].d_strategy)(bp)\<close>: the disk is the only block device.\<close>

definition strategy :: "nat \<Rightarrow> kst \<Rightarrow> kst" where
  "strategy bp s = (if bdev_tab (major (b_dev (bufs s bp))) = rktab then rkstrategy bp s else s)"

definition bwrite :: "nat \<Rightarrow> kst \<Rightarrow> unit kres" where
  "bwrite rbp s =
     (let flag = b_flags (bufs s rbp);
          s = set_buf rbp (\<lambda>b. b\<lparr>b_flags := clr (b_flags b) (B_READ OR B_DONE OR B_ERROR OR B_DELWRI),
                                 b_wcount := -256\<rparr>) s;
          s = strategy rbp s
      in if \<not> has flag B_ASYNC then andthen (iowait rbp s) (\<lambda>_ s. Ret () (brelse rbp s))
         else if \<not> has flag B_DELWRI then Ret () (geterror rbp s)
         else Ret () s)"

definition bawrite :: "nat \<Rightarrow> kst \<Rightarrow> unit kres" where
  "bawrite rbp s = bwrite rbp (set_buf rbp (\<lambda>b. b\<lparr>b_flags := b_flags b OR B_ASYNC\<rparr>) s)"

text \<open>\<open>tmtab\<close> and \<open>httab\<close> are the tables of no device, so the tape case of \<open>bdwrite\<close> is void.\<close>

definition bdwrite :: "nat \<Rightarrow> kst \<Rightarrow> kst" where
  "bdwrite rbp s =
     brelse rbp (set_buf rbp (\<lambda>b. b\<lparr>b_flags := b_flags b OR (B_DELWRI OR B_DONE)\<rparr>) s)"

section \<open>Getting a buffer\<close>

fun getblk_loop :: "nat \<Rightarrow> u16 \<Rightarrow> u16 \<Rightarrow> kst \<Rightarrow> nat kres" where
  "getblk_loop 0 dev blkno s = Stop (Spinning s)"
| "getblk_loop (Suc n) dev blkno s =
     (let dp = (if sint dev < 0 then bfreelist else bdev_tab (major dev))
      in if dp = BNULL then Stop (Panic ''devtab'' s)
         else
           (let bp = (if sint dev < 0 then BNULL
                      else find_block (NBUF + 1) (bufs s) dp dev blkno (b_forw (bufs s dp)))
            in if bp \<noteq> BNULL then
                 (if has (b_flags (bufs s bp)) B_BUSY then
                    andthen (sleep (ChBuf bp) PRIBIO
                               (set_buf bp (\<lambda>b. b\<lparr>b_flags := b_flags b OR B_WANTED\<rparr>) s))
                      (\<lambda>_. getblk_loop n dev blkno)
                  else Ret bp (notavail bp s))
               else if av_forw (bufs s bfreelist) = bfreelist then
                 andthen (sleep (ChBuf bfreelist) PRIBIO
                            (set_buf bfreelist (\<lambda>b. b\<lparr>b_flags := b_flags b OR B_WANTED\<rparr>) s))
                   (\<lambda>_. getblk_loop n dev blkno)
               else
                 (let bp = av_forw (bufs s bfreelist);
                      s = notavail bp s
                  in if has (b_flags (bufs s bp)) B_DELWRI then
                       andthen (bwrite bp (set_buf bp (\<lambda>b. b\<lparr>b_flags := b_flags b OR B_ASYNC\<rparr>) s))
                         (\<lambda>_. getblk_loop n dev blkno)
                     else Ret bp (rebind bp dp dev blkno s))))"

definition getblk :: "u16 \<Rightarrow> u16 \<Rightarrow> kst \<Rightarrow> nat kres" where
  "getblk dev blkno s =
     (if sle16 nblkdev (major dev) then Stop (Panic ''blkdev'' s)
      else getblk_loop SPINS dev blkno s)"

text \<open>Starting a read into a buffer.\<close>

definition start_read :: "u16 \<Rightarrow> nat \<Rightarrow> kst \<Rightarrow> kst" where
  "start_read fl bp s =
     strategy bp (set_buf bp (\<lambda>b. b\<lparr>b_flags := b_flags b OR fl, b_wcount := -256\<rparr>) s)"

definition bread :: "u16 \<Rightarrow> u16 \<Rightarrow> kst \<Rightarrow> nat kres" where
  "bread dev blkno s =
     andthen (getblk dev blkno s) (\<lambda>rbp s.
       if has (b_flags (bufs s rbp)) B_DONE then Ret rbp s
       else andthen (iowait rbp (start_read B_READ rbp s)) (\<lambda>_. Ret rbp))"

definition read_ahead :: "u16 \<Rightarrow> u16 \<Rightarrow> kst \<Rightarrow> unit kres" where
  "read_ahead dev rablkno s =
     (if rablkno \<noteq> 0 \<and> incore dev rablkno s = BNULL then
        andthen (getblk dev rablkno s) (\<lambda>rabp s.
          if has (b_flags (bufs s rabp)) B_DONE then Ret () (brelse rabp s)
          else Ret () (start_read (B_READ OR B_ASYNC) rabp s))
      else Ret () s)"

definition breada :: "u16 \<Rightarrow> u16 \<Rightarrow> u16 \<Rightarrow> kst \<Rightarrow> nat kres" where
  "breada dev blkno rablkno s =
     andthen
       (if incore dev blkno s = BNULL then
          andthen (getblk dev blkno s) (\<lambda>rbp s.
            Ret rbp (if has (b_flags (bufs s rbp)) B_DONE then s else start_read B_READ rbp s))
        else Ret BNULL s)
       (\<lambda>rbp s. andthen (read_ahead dev rablkno s) (\<lambda>_ s.
          if rbp = BNULL then bread dev blkno s
          else andthen (iowait rbp s) (\<lambda>_. Ret rbp)))"

section \<open>Flushing\<close>

text \<open>The scan of \<open>bflush\<close> along the list of available buffers.\<close>

fun find_delwri :: "nat \<Rightarrow> (nat \<Rightarrow> buf) \<Rightarrow> u16 \<Rightarrow> nat \<Rightarrow> nat" where
  "find_delwri 0 t dev bp = BNULL"
| "find_delwri (Suc n) t dev bp =
     (if bp = bfreelist then BNULL
      else if has (b_flags (t bp)) B_DELWRI \<and> (dev = NODEV \<or> dev = b_dev (t bp)) then bp
      else find_delwri n t dev (av_forw (t bp)))"

fun bflush_loop :: "nat \<Rightarrow> u16 \<Rightarrow> kst \<Rightarrow> unit kres" where
  "bflush_loop 0 dev s = Stop (Spinning s)"
| "bflush_loop (Suc n) dev s =
     (let bp = find_delwri (NBUF + 1) (bufs s) dev (av_forw (bufs s bfreelist))
      in if bp = BNULL then Ret () s
         else andthen (bwrite bp (notavail bp
                (set_buf bp (\<lambda>b. b\<lparr>b_flags := b_flags b OR B_ASYNC\<rparr>) s)))
                (\<lambda>_. bflush_loop n dev))"

definition bflush :: "u16 \<Rightarrow> kst \<Rightarrow> unit kres" where
  "bflush dev = bflush_loop SPINS dev"

section \<open>Swapping and raw transfers\<close>

text \<open>\<open>while (*fp & mask) { ... sleep(fp, pri); }\<close> on the header \<open>bp\<close>, and the wait for B_DONE.\<close>

fun wait_free :: "nat \<Rightarrow> nat \<Rightarrow> int \<Rightarrow> kst \<Rightarrow> unit kres" where
  "wait_free 0 bp pri s = Stop (Spinning s)"
| "wait_free (Suc n) bp pri s =
     (if has (b_flags (bufs s bp)) B_BUSY then
        andthen (sleep (ChBuf bp) pri (set_buf bp (\<lambda>b. b\<lparr>b_flags := b_flags b OR B_WANTED\<rparr>) s))
          (\<lambda>_. wait_free n bp pri)
      else Ret () s)"

fun wait_done :: "nat \<Rightarrow> nat \<Rightarrow> int \<Rightarrow> kst \<Rightarrow> unit kres" where
  "wait_done 0 bp pri s = Stop (Spinning s)"
| "wait_done (Suc n) bp pri s =
     (if has (b_flags (bufs s bp)) B_DONE then Ret () s
      else andthen (sleep (ChBuf bp) pri s) (\<lambda>_. wait_done n bp pri))"

definition swap :: "u16 \<Rightarrow> u16 \<Rightarrow> u16 \<Rightarrow> u16 \<Rightarrow> kst \<Rightarrow> u16 kres" where
  "swap blkno coreaddr count rdflg s =
     andthen (wait_free SPINS swbuf PSWP s) (\<lambda>_ s.
     andthen (wait_done SPINS swbuf PSWP
       (strategy swbuf
         (set_buf swbuf (\<lambda>b. b\<lparr>b_flags := B_BUSY OR B_PHYS OR rdflg, b_dev := swapdev,
            b_wcount := count, b_blkno := blkno, b_addr := 0, b_xmem := coreaddr\<rparr>) s))) (\<lambda>_ s.
     let s = (if has (b_flags (bufs s swbuf)) B_WANTED then wakeup (ChBuf swbuf) s else s);
         s = set_buf swbuf (\<lambda>b. b\<lparr>b_flags := clr (b_flags b) (B_BUSY OR B_WANTED)\<rparr>) s
     in Ret (b_flags (bufs s swbuf) AND B_ERROR) s))"

text \<open>\<open>(uint)u.u_base\<close> for a raw transfer, which is always the user's address.\<close>

definition base_addr :: "base \<Rightarrow> u16" where
  "base_addr b = (case b of Umem a \<Rightarrow> a | Kdent a \<Rightarrow> a | Karg a \<Rightarrow> a)"

definition base_add :: "base \<Rightarrow> u16 \<Rightarrow> base" where
  "base_add b n = (case b of Umem a \<Rightarrow> Umem (a + n) | Kdent a \<Rightarrow> Kdent (a + n) | Karg a \<Rightarrow> Karg (a + n))"

definition physio :: "nat \<Rightarrow> u16 \<Rightarrow> u16 \<Rightarrow> kst \<Rightarrow> unit kres" where
  "physio bp dev rw s =
     (let base = base_addr (u_base (usr s));
          count = u_count (usr s);
          nsect = drop_bit 9 count
      in if nsect = 0 then Ret () s
         else if has base 1 \<or> has count 1 \<or> base \<ge> base + count then Ret () (set_error EFAULT s)
         else
           (let pp = curproc s;
                page = p_addr (procs s pp) + drop_bit 12 base;
                off = base AND 0xfff;
                seg = page * 256 + drop_bit 4 off;
                off = off AND 15
            in andthen (wait_free SPINS bp PRIBIO s) (\<lambda>_ s.
               let s = set_buf bp (\<lambda>b. b\<lparr>b_flags := B_BUSY OR B_PHYS OR rw, b_dev := dev,
                          b_xmem := seg, b_addr := off,
                          b_blkno := lshift (u_offset (usr s)) (-9), b_wcount := nsect,
                          b_error := 0\<rparr>) s;
                   s = set_proc pp (\<lambda>q. q\<lparr>p_flag := p_flag q OR SLOCK\<rparr>) s
               in andthen (wait_done SPINS bp PRIBIO (strategy bp s)) (\<lambda>_ s.
                  let s = set_proc pp (\<lambda>q. q\<lparr>p_flag := clr (p_flag q) SLOCK\<rparr>) s;
                      s = (if has (b_flags (bufs s bp)) B_WANTED then wakeup (ChBuf bp) s else s);
                      s = set_buf bp (\<lambda>b. b\<lparr>b_flags := clr (b_flags b) (B_BUSY OR B_WANTED)\<rparr>) s;
                      s = (if \<not> has (b_flags (bufs s bp)) B_ERROR
                           then set_u (\<lambda>w. w\<lparr>u_count := u_count w - push_bit 9 nsect\<rparr>) s else s)
                  in Ret () (geterror bp s)))))"

definition rkread :: "u16 \<Rightarrow> kst \<Rightarrow> unit kres" where
  "rkread dev = physio rrkbuf dev B_READ"

definition rkwrite :: "u16 \<Rightarrow> kst \<Rightarrow> unit kres" where
  "rkwrite dev = physio rrkbuf dev B_WRITE"

end
