(* ===== verification/Prf.thy ===== *)
theory Prf
  imports KState
begin

text \<open>
  The kernel's \<open>printf\<close> (\<open>ken/prf.c\<close>) as the list of bytes it hands to \<open>putchar\<close>, which in the
  default build is the BIOS console.  An argument is a word or a string.
\<close>

datatype parg = PInt u16 | PStr "u8 list"

definition digits :: "u8 list" where
  "digits = bytes ''0123456789ABCDEF''"

text \<open>Every call has base 8, 10 or 16; a base below 2 would not return.\<close>

function printn :: "u16 \<Rightarrow> u16 \<Rightarrow> u8 list" where
  "printn n b =
     (let a = n div b
      in (if a \<noteq> 0 \<and> 1 < b then printn a b else []) @ [digits ! unat (n mod b)])"
  by pat_completeness auto
termination
proof (relation "measure (\<lambda>(n, b). unat n)", simp)
  fix n b a :: u16
  assume "a = n div b" and "a \<noteq> 0 \<and> 1 < b"
  then have "n \<noteq> 0" and "1 < unat b" by (auto simp: word_less_nat_alt)
  then have "unat n div unat b < unat n"
    by (intro div_less_dividend) (auto simp: unat_gt_0)
  with \<open>a = n div b\<close> show "((a, b), (n, b)) \<in> measure (\<lambda>(n, b). unat n)"
    by (simp add: unat_div)
qed

declare printn.simps [simp del]

definition arg_int :: "parg list \<Rightarrow> u16" where
  "arg_int as = (case as of PInt n # _ \<Rightarrow> n | _ \<Rightarrow> 0)"

definition arg_str :: "parg list \<Rightarrow> u8 list" where
  "arg_str as = (case as of PStr t # _ \<Rightarrow> t | _ \<Rightarrow> [])"

text \<open>The format up to its null byte; each directive takes one argument, known or not.\<close>

fun printf :: "string \<Rightarrow> parg list \<Rightarrow> u8 list" where
  "printf [] as = []"
| "printf [c] as = (if c \<noteq> CHR ''%'' then [of_char c] else [])"
| "printf (c # d # fmt) as =
     (if c \<noteq> CHR ''%'' then of_char c # printf (d # fmt) as
      else
        (if d = CHR ''d'' \<or> d = CHR ''l'' then printn (arg_int as) 10 else [])
        @ (if d = CHR ''o'' then printn (arg_int as) 8 else [])
        @ (if d = CHR ''x'' \<or> d = CHR ''p'' then printn (arg_int as) 16 else [])
        @ (if d = CHR ''s'' then takeWhile (\<lambda>x. x \<noteq> 0) (arg_str as) else [])
        @ printf fmt (tl as))"

definition prdev :: "string \<Rightarrow> u16 \<Rightarrow> kst \<Rightarrow> kst" where
  "prdev str dev =
     put_console (printf ''%s on dev %l/%l\<newline>''
       [PStr (bytes str), PInt (major dev), PInt (minor dev)])"

definition deverror :: "nat \<Rightarrow> u16 \<Rightarrow> u16 \<Rightarrow> kst \<Rightarrow> kst" where
  "deverror rbp o1 o2 s =
     put_console (printf ''bn%l er%o %o\<newline>'' [PInt (b_blkno (bufs s rbp)), PInt o1, PInt o2])
       (prdev ''err'' (b_dev (bufs s rbp)) s)"

section \<open>What the digits mean\<close>

text \<open>The value of a digit string, most significant digit first.\<close>

definition digit_val :: "u8 \<Rightarrow> nat" where
  "digit_val c = (if c < 58 then unat c - 48 else unat c - 55)"

definition numeral_val :: "nat \<Rightarrow> u8 list \<Rightarrow> nat" where
  "numeral_val b cs = foldl (\<lambda>n c. n * b + digit_val c) 0 cs"

lemma digit_val_digits: "k < 16 \<Longrightarrow> digit_val (digits ! k) = k"
proof -
  assume "k < 16"
  then have "k \<in> set [0..<16]" by simp
  moreover have "\<forall>k \<in> set [0..<16]. digit_val (digits ! k) = k"
    by (simp add: upt_rec digit_val_def digits_def bytes_def)
  ultimately show ?thesis by blast
qed

lemma numeral_val_snoc [simp]: "numeral_val b (cs @ [c]) = numeral_val b cs * b + digit_val c"
  by (simp add: numeral_val_def)

text \<open>
  \<open>printn\<close> prints a number exactly: read back in its base, the characters are the number,
  and there are no leading zeros.
\<close>

lemma printn_exact:
  assumes "1 < b" "b \<le> 16"
  shows "numeral_val (unat b) (printn n b) = unat n
    \<and> (n \<noteq> 0 \<longrightarrow> digit_val (hd (printn n b)) \<noteq> 0)"
  using assms
proof (induction n b rule: printn.induct)
  case (1 n b)
  have b: "1 < unat b" "unat b \<le> 16" using 1(2,3) by (auto simp: word_less_nat_alt word_le_nat_alt)
  have "unat n mod unat b < unat b" using b by simp
  then have "unat n mod unat b < 16" using b by linarith
  then have mod: "digit_val (digits ! unat (n mod b)) = unat n mod unat b"
    by (simp add: digit_val_digits unat_mod)
  show ?case
  proof (cases "n div b = 0")
    case True
    then have "unat n div unat b = 0" by (metis unat_0 unat_div)
    then have "unat n mod unat b = unat n" by (metis div_mult_mod_eq mult_0 add_0)
    with True mod show ?thesis
      by (simp add: printn.simps [of n b] numeral_val_def unat_eq_0)
  next
    case False
    then have eq: "printn n b = printn (n div b) b @ [digits ! unat (n mod b)]"
      using 1(2) by (simp add: printn.simps [of n b])
    have ne: "printn (n div b) b \<noteq> []" by (simp add: printn.simps [of "n div b" b] Let_def)
    have "numeral_val (unat b) (printn (n div b) b) = unat (n div b)
        \<and> digit_val (hd (printn (n div b) b)) \<noteq> 0"
      using 1(1) [OF refl] False 1(2,3) by blast
    with eq ne mod show ?thesis by (simp add: unat_div)
  qed
qed

lemma printn_exact_witness:
  "numeral_val 10 (printn 40962 10) = 40962 \<and> numeral_val 8 (printn 8 8) = 8"
  using printn_exact [of 10 40962] printn_exact [of 8 8] by simp

end
