(* ===== verification/Alloc.thy ===== *)
theory Alloc
  imports Bio Prf
begin

text \<open>
  The free list of a file system (\<open>ken/alloc.c\<close>: \<open>getfs\<close>, \<open>badblock\<close>, \<open>alloc\<close>, \<open>free\<close>,
  \<open>ifree\<close>, \<open>iinit\<close>).  The super block lies in the buffer \<open>m_bufp\<close> of its mount entry; the C
  pointer \<open>fp\<close> to it is the number \<open>fb\<close> of that buffer here.
\<close>

abbreviation sb :: "kst \<Rightarrow> nat \<Rightarrow> block" where
  "sb s fb \<equiv> b_data (bufs s fb)"

abbreviation set_sb :: "nat \<Rightarrow> (block \<Rightarrow> block) \<Rightarrow> kst \<Rightarrow> kst" where
  "set_sb fb f \<equiv> set_buf fb (b_data_update f)"

definition getfs :: "u16 \<Rightarrow> kst \<Rightarrow> nat kres" where
  "getfs dev s =
     (case find (\<lambda>p. m_bufp (mounts s p) \<noteq> BNULL \<and> m_dev (mounts s p) = dev) [0..<NMOUNT] of
        None \<Rightarrow> Stop (Panic ''no fs'' s)
      | Some p \<Rightarrow>
          (let fb = m_bufp (mounts s p);
               n1 = s_nfree (sb s fb); n2 = s_ninode (sb s fb)
           in if n1 > 100 \<or> n2 > 100 then
                Ret fb (set_sb fb (\<lambda>d. set_ninode 0 (set_nfree 0 d)) (prdev ''bad count'' dev s))
              else Ret fb s))"

definition badblock :: "nat \<Rightarrow> u16 \<Rightarrow> u16 \<Rightarrow> kst \<Rightarrow> bool \<times> kst" where
  "badblock fb bn dev s =
     (if bn < s_isize (sb s fb) + 2 \<or> bn \<ge> s_fsize (sb s fb)
      then (True, prdev ''bad block'' dev s) else (False, s))"

text \<open>\<open>while (fp->s_flock) sleep(&fp->s_flock, PINOD)\<close>\<close>

fun wait_flock :: "nat \<Rightarrow> nat \<Rightarrow> kst \<Rightarrow> unit kres" where
  "wait_flock 0 fb s = Stop (Spinning s)"
| "wait_flock (Suc n) fb s =
     (if s_flock (sb s fb) \<noteq> 0
      then andthen (sleep (ChFlock fb) PINOD s) (\<lambda>_. wait_flock n fb)
      else Ret () s)"

text \<open>
  The \<open>do\<close> loop of \<open>alloc\<close>, for \<open>s_nfree\<close> between 0 and 100 (\<open>getfs\<close> has seen to that): take
  entries off the free list until one is a good block; none if the list is empty or ends.
\<close>

fun alloc_pop :: "nat \<Rightarrow> u16 \<Rightarrow> nat \<Rightarrow> kst \<Rightarrow> u16 option \<times> kst" where
  "alloc_pop fb dev 0 s = (None, s)"
| "alloc_pop fb dev (Suc i) s =
     (let bno = s_free (sb s fb) i;
          s = set_sb fb (set_nfree (of_nat i)) s
      in if bno = 0 then (None, s)
         else (case badblock fb bno dev s of
                 (bad, s) \<Rightarrow> if bad then alloc_pop fb dev i s else (Some bno, s)))"

definition alloc :: "u16 \<Rightarrow> kst \<Rightarrow> nat option kres" where
  "alloc dev s =
     andthen (getfs dev s) (\<lambda>fb s.
     andthen (wait_flock SPINS fb s) (\<lambda>_ s.
     case alloc_pop fb dev (unat (s_nfree (sb s fb))) s of
       (None, s) \<Rightarrow> Ret None (set_error ENOSPC (prdev ''no space'' dev (set_sb fb (set_nfree 0) s)))
     | (Some bno, s) \<Rightarrow>
         andthen
           (if sle16 (s_nfree (sb s fb)) 0 then
              andthen (bread dev bno (set_sb fb (\<lambda>d. set_flock (s_flock d + 1) d) s)) (\<lambda>bp s.
              let ip = b_data (bufs s bp);
                  s = set_sb fb (set_nfree (ip 0)) s;
                  s = set_sb fb (\<lambda>d. bcopy ip 1 d 3 100) s;
                  s = set_sb fb (set_flock 0) (brelse bp s)
              in Ret () (wakeup (ChFlock fb) s))
            else Ret () s)
           (\<lambda>_ s. andthen (getblk dev bno s) (\<lambda>bp s.
             Ret (Some bp) (set_sb fb (set_fmod 1) (clrbuf bp s))))))"

definition free :: "u16 \<Rightarrow> u16 \<Rightarrow> kst \<Rightarrow> unit kres" where
  "free dev bno s =
     andthen (getfs dev s) (\<lambda>fb s.
     andthen (wait_flock SPINS fb (set_sb fb (set_fmod 1) s)) (\<lambda>_ s.
     case badblock fb bno dev s of
       (True, s) \<Rightarrow> Ret () s
     | (False, s) \<Rightarrow>
         (let s = (if sle16 (s_nfree (sb s fb)) 0
                   then set_sb fb (set_free 0 0) (set_sb fb (set_nfree 1) s) else s)
          in andthen
               (if sle16 100 (s_nfree (sb s fb)) then
                  andthen (getblk dev bno (set_sb fb (\<lambda>d. set_flock (s_flock d + 1) d) s)) (\<lambda>bp s.
                  let d = sb s fb;
                      s = set_buf bp (\<lambda>b. b\<lparr>b_data := (b_data b)(0 := s_nfree d)\<rparr>) s;
                      s = set_buf bp (\<lambda>b. b\<lparr>b_data := bcopy d 3 (b_data b) 1 100\<rparr>) s;
                      s = set_sb fb (set_nfree 0) s
                  in andthen (bwrite bp s) (\<lambda>_ s.
                       Ret () (wakeup (ChFlock fb) (set_sb fb (set_flock 0) s))))
                else Ret () s)
               (\<lambda>_ s.
                 let k = s_nfree (sb s fb)
                 in Ret () (set_sb fb (\<lambda>d. set_fmod 1 (set_free (unat k) bno (set_nfree (k + 1) d))) s)))))"

definition ifree :: "u16 \<Rightarrow> u16 \<Rightarrow> kst \<Rightarrow> unit kres" where
  "ifree dev ino s =
     andthen (getfs dev s) (\<lambda>fb s.
       if s_ilock (sb s fb) \<noteq> 0 \<or> sle16 100 (s_ninode (sb s fb)) then Ret () s
       else
         (let k = s_ninode (sb s fb)
          in Ret () (set_sb fb (\<lambda>d. set_fmod 1 (set_inode (unat k) ino (set_ninode (k + 1) d))) s)))"

text \<open>\<open>d_open\<close> of the disk is \<open>nulldev\<close>.\<close>

definition iinit :: "kst \<Rightarrow> unit kres" where
  "iinit s =
     andthen (bread rootdev 1 s) (\<lambda>bp s.
     andthen (getblk NODEV 0 s) (\<lambda>cp s.
       if u_error (usr s) \<noteq> 0 then Stop (Panic ''iinit'' s)
       else
         (let ip = b_data (bufs s bp);
              s = set_buf cp (\<lambda>b. b\<lparr>b_data := bcopy ip 0 (b_data b) 0 256\<rparr>) s;
              s = brelse bp s;
              s = s\<lparr>mounts := (mounts s)(0 := (mounts s 0)\<lparr>m_bufp := cp, m_dev := rootdev\<rparr>)\<rparr>;
              s = set_sb cp (\<lambda>d. set_ronly 0 (set_ilock 0 (set_flock 0 d))) s
          in Ret () (s\<lparr>ktime := s_time (sb s cp)\<rparr>))))"

end
