(* ===== verification/Inode.thy ===== *)
theory Inode
  imports Alloc
begin

text \<open>
  The in-core inodes: \<open>iget\<close>, \<open>iput\<close>, \<open>iupdat\<close>, \<open>itrunc\<close> (\<open>ken/iget.c\<close>), \<open>prele\<close> and
  \<open>plock\<close> (\<open>ken/pipe.c\<close>), \<open>ialloc\<close> and \<open>update\<close> (\<open>ken/alloc.c\<close>).  An inode on disk is 16
  words; the first twelve are the fields of \<open>struct inode\<close> from \<open>i_mode\<close> on.
\<close>

section \<open>Inodes as words\<close>

definition inode_words :: "inode \<Rightarrow> block" where
  "inode_words p = (\<lambda>k.
     if k = 0 then i_mode p
     else if k = 1 then mk16 (i_uid p) (i_nlink p)
     else if k = 2 then mk16 (i_size0 p) (i_gid p)
     else if k = 3 then i_size1 p
     else i_addr p (k - 4))"

definition inode_of_words :: "block \<Rightarrow> inode \<Rightarrow> inode" where
  "inode_of_words w p =
     p\<lparr>i_mode := w 0, i_nlink := lo8 (w 1), i_uid := hi8 (w 1), i_gid := lo8 (w 2),
       i_size0 := hi8 (w 2), i_size1 := w 3,
       i_addr := (\<lambda>j. if j < 8 then w (4 + j) else i_addr p j)\<rparr>"

text \<open>The block of an inode and its first word there.\<close>

definition ino_block :: "u16 \<Rightarrow> u16" where
  "ino_block ino = ldiv (ino + 31) 16"

definition ino_word :: "u16 \<Rightarrow> nat" where
  "ino_word ino = 16 * unat (lrem (ino + 31) 16)"

section \<open>Locks\<close>

definition prele :: "nat \<Rightarrow> kst \<Rightarrow> kst" where
  "prele rp s =
     (let s = set_ino rp (\<lambda>q. q\<lparr>i_flag := clr (i_flag q) ILOCK\<rparr>) s
      in if has (i_flag (inodes s rp)) IWANT
         then wakeup (ChInode rp) (set_ino rp (\<lambda>q. q\<lparr>i_flag := clr (i_flag q) IWANT\<rparr>) s)
         else s)"

fun plock_loop :: "nat \<Rightarrow> nat \<Rightarrow> kst \<Rightarrow> unit kres" where
  "plock_loop 0 rp s = Stop (Spinning s)"
| "plock_loop (Suc n) rp s =
     (if has (i_flag (inodes s rp)) ILOCK then
        andthen (sleep (ChInode rp) PPIPE (set_ino rp (\<lambda>q. q\<lparr>i_flag := i_flag q OR IWANT\<rparr>) s))
          (\<lambda>_. plock_loop n rp)
      else Ret () (set_ino rp (\<lambda>q. q\<lparr>i_flag := i_flag q OR ILOCK\<rparr>) s))"

definition plock :: "nat \<Rightarrow> kst \<Rightarrow> unit kres" where
  "plock = plock_loop SPINS"

section \<open>Writing an inode back\<close>

text \<open>Every caller passes \<open>time\<close>, so \<open>tm\<close> is the time of day here too.\<close>

definition iupdat :: "nat \<Rightarrow> kst \<Rightarrow> unit kres" where
  "iupdat rp s =
     (if has (i_flag (inodes s rp)) (IUPD OR IACC) then
        andthen (getfs (i_dev (inodes s rp)) s) (\<lambda>fb s.
          if s_ronly (sb s fb) \<noteq> 0 then Ret () s
          else
            (let i = i_number (inodes s rp)
             in andthen (bread (i_dev (inodes s rp)) (ino_block i) s) (\<lambda>bp s.
                let k = ino_word i;
                    d = bcopy (inode_words (inodes s rp)) 0 (b_data (bufs s bp)) k 12;
                    d = (if has (i_flag (inodes s rp)) IACC
                         then d(k + 12 := fst (ktime s), k + 13 := snd (ktime s)) else d);
                    d = (if has (i_flag (inodes s rp)) IUPD
                         then d(k + 14 := fst (ktime s), k + 15 := snd (ktime s)) else d)
                in bwrite bp (set_buf bp (\<lambda>b. b\<lparr>b_data := d\<rparr>) s))))
      else Ret () s)"

section \<open>Freeing the blocks of a file\<close>

text \<open>A loop whose body may stop.\<close>

fun each :: "('x \<Rightarrow> kst \<Rightarrow> unit kres) \<Rightarrow> 'x list \<Rightarrow> kst \<Rightarrow> unit kres" where
  "each f [] s = Ret () s"
| "each f (x # xs) s = andthen (f x s) (\<lambda>_. each f xs)"

text \<open>
  \<open>for (cp = bp->b_addr + 512; cp >= bp->b_addr; cp--) if (*cp) ...\<close>: words 256 down to 0 of the
  buffer, read one by one, so with whatever the body has done to it.
\<close>

definition down_words :: "nat \<Rightarrow> (u16 \<Rightarrow> kst \<Rightarrow> unit kres) \<Rightarrow> kst \<Rightarrow> unit kres" where
  "down_words bp f =
     each (\<lambda>c s. if b_data (bufs s bp) c \<noteq> 0 then f (b_data (bufs s bp) c) s else Ret () s)
       (rev [0..<257])"

definition itrunc_indirect :: "nat \<Rightarrow> nat \<Rightarrow> kst \<Rightarrow> unit kres" where
  "itrunc_indirect rp i s =
     (let dev = i_dev (inodes s rp)
      in andthen (bread dev (i_addr (inodes s rp) i) s) (\<lambda>bp s.
         andthen
           (down_words bp (\<lambda>b s.
              andthen
                (if i = 7 then
                   andthen (bread dev b s) (\<lambda>dp s.
                   andthen (down_words dp (\<lambda>e. free dev e) s) (\<lambda>_ s. Ret () (brelse dp s)))
                 else Ret () s)
                (\<lambda>_. free dev b)) s)
           (\<lambda>_ s. Ret () (brelse bp s))))"

definition itrunc_slot :: "nat \<Rightarrow> nat \<Rightarrow> kst \<Rightarrow> unit kres" where
  "itrunc_slot rp i s =
     (if i_addr (inodes s rp) i \<noteq> 0 then
        andthen (if has (i_mode (inodes s rp)) ILARG then itrunc_indirect rp i s else Ret () s) (\<lambda>_ s.
        andthen (free (i_dev (inodes s rp)) (i_addr (inodes s rp) i) s) (\<lambda>_ s.
          Ret () (set_ino rp (\<lambda>q. q\<lparr>i_addr := (i_addr q)(i := 0)\<rparr>) s)))
      else Ret () s)"

definition itrunc :: "nat \<Rightarrow> kst \<Rightarrow> unit kres" where
  "itrunc rp s =
     (if has (i_mode (inodes s rp)) (IFCHR AND IFBLK) then Ret () s
      else andthen (each (itrunc_slot rp) (rev [0..<8]) s) (\<lambda>_ s.
        Ret () (set_ino rp (\<lambda>q. q\<lparr>i_mode := clr (i_mode q) ILARG, i_size0 := 0, i_size1 := 0,
                                  i_flag := i_flag q OR IUPD\<rparr>) s)))"

section \<open>Getting and releasing inodes\<close>

definition iput :: "nat \<Rightarrow> kst \<Rightarrow> unit kres" where
  "iput rp s =
     andthen
       (if i_count (inodes s rp) = 1 then
          (let s = set_ino rp (\<lambda>q. q\<lparr>i_flag := i_flag q OR ILOCK\<rparr>) s
           in andthen
                (if sint (i_nlink (inodes s rp)) \<le> 0 then
                   andthen (itrunc rp s) (\<lambda>_ s.
                   let s = set_ino rp (\<lambda>q. q\<lparr>i_mode := 0\<rparr>) s
                   in ifree (i_dev (inodes s rp)) (i_number (inodes s rp)) s)
                 else Ret () s)
                (\<lambda>_ s. andthen (iupdat rp s) (\<lambda>_ s.
                  Ret () (set_ino rp (\<lambda>q. q\<lparr>i_flag := 0, i_number := 0\<rparr>) (prele rp s)))))
        else Ret () s)
       (\<lambda>_ s. Ret () (prele rp (set_ino rp (\<lambda>q. q\<lparr>i_count := i_count q - 1\<rparr>) s)))"

text \<open>Reading an inode that is not in core into the free entry \<open>p\<close>.\<close>

definition iget_read :: "nat \<Rightarrow> u16 \<Rightarrow> u16 \<Rightarrow> kst \<Rightarrow> nat option kres" where
  "iget_read p dev ino s =
     (let s = set_ino p (\<lambda>q. q\<lparr>i_dev := dev, i_number := ino, i_flag := ILOCK,
                               i_count := i_count q + 1, i_lastr := -1\<rparr>) s
      in andthen (bread dev (ino_block ino) s) (\<lambda>bp s.
         if has (b_flags (bufs s bp)) B_ERROR then
           andthen (iput p (brelse bp s)) (\<lambda>_. Ret None)
         else
           (let w = (\<lambda>k. b_data (bufs s bp) (ino_word ino + k))
            in Ret (Some p) (brelse bp (set_ino p (inode_of_words w) s)))))"

fun iget_loop :: "nat \<Rightarrow> u16 \<Rightarrow> u16 \<Rightarrow> kst \<Rightarrow> nat option kres" where
  "iget_loop 0 dev ino s = Stop (Spinning s)"
| "iget_loop (Suc n) dev ino s =
     (case find (\<lambda>p. i_dev (inodes s p) = dev \<and> i_number (inodes s p) = ino) [0..<NINODE] of
        Some p \<Rightarrow>
          if has (i_flag (inodes s p)) ILOCK then
            andthen (sleep (ChInode p) PINOD (set_ino p (\<lambda>q. q\<lparr>i_flag := i_flag q OR IWANT\<rparr>) s))
              (\<lambda>_. iget_loop n dev ino)
          else if has (i_flag (inodes s p)) IMOUNT then
            (case find (\<lambda>m. m_inodp (mounts s m) = Some p) [0..<NMOUNT] of
               Some m \<Rightarrow> iget_loop n (m_dev (mounts s m)) ROOTINO s
             | None \<Rightarrow> Stop (Panic ''no imt'' s))
          else
            Ret (Some p) (set_ino p (\<lambda>q. q\<lparr>i_count := i_count q + 1, i_flag := i_flag q OR ILOCK\<rparr>) s)
      | None \<Rightarrow>
          (case find (\<lambda>p. i_count (inodes s p) = 0) [0..<NINODE] of
             None \<Rightarrow> Ret None (set_error ENFILE
                       (put_console (printf ''Inode table overflow\<newline>'' []) s))
           | Some p \<Rightarrow> iget_read p dev ino s))"

definition iget :: "u16 \<Rightarrow> u16 \<Rightarrow> kst \<Rightarrow> nat option kres" where
  "iget = iget_loop SPINS"

section \<open>Allocating inodes\<close>

fun wait_ilock :: "nat \<Rightarrow> nat \<Rightarrow> kst \<Rightarrow> unit kres" where
  "wait_ilock 0 fb s = Stop (Spinning s)"
| "wait_ilock (Suc n) fb s =
     (if s_ilock (sb s fb) \<noteq> 0
      then andthen (sleep (ChIlock fb) PINOD s) (\<lambda>_. wait_ilock n fb)
      else Ret () s)"

text \<open>
  The search of the I list: inode \<open>j\<close> of block \<open>i\<close> (both from 0) has number \<open>16 i + j + 1\<close>.  The
  loops stop once 100 free inodes are found, which is the test before each step here.
\<close>

definition ialloc_slot :: "nat \<Rightarrow> u16 \<Rightarrow> nat \<Rightarrow> nat \<Rightarrow> nat \<Rightarrow> kst \<Rightarrow> kst" where
  "ialloc_slot fb dev bp i j s =
     (let ino = of_nat (16 * i + j + 1) :: u16
      in if sle16 100 (s_ninode (sb s fb)) then s
         else if b_data (bufs s bp) (16 * j) \<noteq> 0 then s
         else if \<exists>k \<in> set [0..<NINODE]. i_dev (inodes s k) = dev \<and> i_number (inodes s k) = ino then s
         else
           (let n = s_ninode (sb s fb)
            in set_sb fb (\<lambda>d. set_inode (unat n) ino (set_ninode (n + 1) d)) s))"

definition ialloc_block :: "nat \<Rightarrow> u16 \<Rightarrow> nat \<Rightarrow> kst \<Rightarrow> unit kres" where
  "ialloc_block fb dev i s =
     (if sle16 100 (s_ninode (sb s fb)) then Ret () s
      else andthen (bread dev (of_nat (i + 2)) s) (\<lambda>bp s.
        Ret () (brelse bp (fold (ialloc_slot fb dev bp i) [0..<16] s))))"

definition ialloc_scan :: "nat \<Rightarrow> u16 \<Rightarrow> kst \<Rightarrow> unit kres" where
  "ialloc_scan fb dev s =
     andthen (each (ialloc_block fb dev) [0..<nat (sint (s_isize (sb s fb)))]
                (set_sb fb (\<lambda>d. set_ilock (s_ilock d + 1) d) s)) (\<lambda>_ s.
       Ret () (wakeup (ChIlock fb) (set_sb fb (set_ilock 0) s)))"

fun ialloc_loop :: "nat \<Rightarrow> nat \<Rightarrow> u16 \<Rightarrow> kst \<Rightarrow> nat option kres" where
  "ialloc_loop 0 fb dev s = Stop (Spinning s)"
| "ialloc_loop (Suc n) fb dev s =
     (if slt16 0 (s_ninode (sb s fb)) then
        (let k = s_ninode (sb s fb) - 1;
             s = set_sb fb (set_ninode k) s;
             ino = s_inode (sb s fb) (unat k)
         in andthen (iget dev ino s) (\<lambda>r s.
            case r of
              None \<Rightarrow> Ret None s
            | Some ip \<Rightarrow>
                if i_mode (inodes s ip) = 0 then
                  Ret (Some ip) (set_sb fb (set_fmod 1) (set_ino ip (inode_of_words (\<lambda>_. 0)) s))
                else andthen (iput ip s) (\<lambda>_. ialloc_loop n fb dev)))
      else
        andthen (ialloc_scan fb dev s) (\<lambda>_ s.
          if slt16 0 (s_ninode (sb s fb)) then ialloc_loop n fb dev s
          else Ret None (set_error ENOSPC (prdev ''Out of inodes'' dev s))))"

definition ialloc :: "u16 \<Rightarrow> kst \<Rightarrow> nat option kres" where
  "ialloc dev s =
     andthen (getfs dev s) (\<lambda>fb s.
     andthen (wait_ilock SPINS fb s) (\<lambda>_. ialloc_loop SPINS fb dev))"

section \<open>sync\<close>

definition update_mount :: "nat \<Rightarrow> kst \<Rightarrow> unit kres" where
  "update_mount mp s =
     (let fb = m_bufp (mounts s mp)
      in if fb = BNULL then Ret () s
         else if s_fmod (sb s fb) = 0 \<or> s_ilock (sb s fb) \<noteq> 0 \<or> s_flock (sb s fb) \<noteq> 0
              \<or> s_ronly (sb s fb) \<noteq> 0 then Ret () s
         else andthen (getblk (m_dev (mounts s mp)) 1 s) (\<lambda>bp s.
           let s = set_sb fb (set_fmod 0) s;
               s = set_sb fb (set_stime (ktime s)) s;
               d = sb s fb
           in bwrite bp (set_buf bp (\<lambda>b. b\<lparr>b_data := bcopy d 0 (b_data b) 0 256\<rparr>) s)))"

definition update_inode :: "nat \<Rightarrow> kst \<Rightarrow> unit kres" where
  "update_inode ip s =
     (if has (i_flag (inodes s ip)) ILOCK then Ret () s
      else andthen (iupdat ip (set_ino ip (\<lambda>q. q\<lparr>i_flag := i_flag q OR ILOCK\<rparr>) s)) (\<lambda>_ s.
        Ret () (prele ip s)))"

definition update :: "kst \<Rightarrow> unit kres" where
  "update s =
     (if updlock s \<noteq> 0 then Ret () s
      else andthen (each update_mount [0..<NMOUNT] (s\<lparr>updlock := updlock s + 1\<rparr>)) (\<lambda>_ s.
           andthen (each update_inode [0..<NINODE] s) (\<lambda>_ s.
             bflush NODEV (s\<lparr>updlock := 0\<rparr>))))"

end
