(* ===== verification/UserIO.thy ===== *)
theory UserIO
  imports Inode
begin

text \<open>
  Moving data between the kernel and the process: \<open>fubyte\<close> and its kind and the far copies of
  \<open>dmr/pc.c\<close>, \<open>passc\<close>/\<open>cpass\<close> of \<open>ken/subr.c\<close>, \<open>iomove\<close> of \<open>ken/rdwri.c\<close>, and the
  memory devices of \<open>dmr/mem.c\<close>.  A process is one block of memory at page \<open>p_addr\<close>, so a user
  address is an offset in the segment \<open>p_addr*(PAGESIZ/16)\<close>.
\<close>

section \<open>User memory\<close>

definition user_seg :: "kst \<Rightarrow> u16" where
  "user_seg s = p_addr (procs s (curproc s)) * 256"

definition fubyte :: "u16 \<Rightarrow> kst \<Rightarrow> u16" where
  "fubyte addr s = ucast (memory s (lin (user_seg s) addr))"

definition fuword :: "u16 \<Rightarrow> kst \<Rightarrow> u16" where
  "fuword addr s = peek16 (memory s) (user_seg s) addr"

definition subyte :: "u16 \<Rightarrow> u8 \<Rightarrow> kst \<Rightarrow> kst" where
  "subyte addr ch s = s\<lparr>memory := (memory s)(lin (user_seg s) addr := ch)\<rparr>"

definition suword :: "u16 \<Rightarrow> u16 \<Rightarrow> kst \<Rightarrow> kst" where
  "suword addr v s = s\<lparr>memory := poke16 (user_seg s) addr v (memory s)\<rparr>"

text \<open>\<open>memcpy\<close> between two far addresses, offsets wrapping in their segments.\<close>

definition far_copy :: "u16 \<Rightarrow> u16 \<Rightarrow> u16 \<Rightarrow> u16 \<Rightarrow> nat \<Rightarrow> (nat \<Rightarrow> u8) \<Rightarrow> nat \<Rightarrow> u8" where
  "far_copy dseg doff sseg soff n m =
     fold (\<lambda>i m. m(lin dseg (doff + of_nat i) := m (lin sseg (soff + of_nat i)))) [0..<n] m"

definition copyseg :: "u16 \<Rightarrow> u16 \<Rightarrow> kst \<Rightarrow> kst" where
  "copyseg src dst s = s\<lparr>memory := far_copy (dst * 256) 0 (src * 256) 0 4096 (memory s)\<rparr>"

definition clearseg :: "u16 \<Rightarrow> kst \<Rightarrow> kst" where
  "clearseg dst s =
     s\<lparr>memory := fold (\<lambda>i m. m(lin (dst * 256) (of_nat i) := 0)) [0..<4096] (memory s)\<rparr>"

section \<open>Bytes of a block and of the user structure\<close>

definition get_byte :: "block \<Rightarrow> nat \<Rightarrow> u8" where
  "get_byte d k = (if even k then lo8 (d (k div 2)) else hi8 (d (k div 2)))"

definition put_byte :: "nat \<Rightarrow> u8 \<Rightarrow> block \<Rightarrow> block" where
  "put_byte k c d =
     d(k div 2 := (if even k then mk16 (hi8 (d (k div 2))) c else mk16 c (lo8 (d (k div 2)))))"

text \<open>\<open>u_dent\<close> is \<open>u_ino\<close> followed by \<open>u_name\<close>; \<open>u_arg\<close> is an array of words.\<close>

definition kpeek :: "base \<Rightarrow> kst \<Rightarrow> u8" where
  "kpeek p s = (case p of
       Kdent a \<Rightarrow> (if a = 0 then lo8 (u_ino (usr s)) else if a = 1 then hi8 (u_ino (usr s))
                    else u_name (usr s) ! (unat a - 2))
     | Karg a \<Rightarrow> get_byte (u_arg (usr s)) (unat a)
     | Umem a \<Rightarrow> memory s (lin (core_cs s) a))"

definition kpoke :: "base \<Rightarrow> u8 \<Rightarrow> kst \<Rightarrow> kst" where
  "kpoke p c s = (case p of
       Kdent a \<Rightarrow>
         (if a = 0 then set_u (\<lambda>w. w\<lparr>u_ino := mk16 (hi8 (u_ino w)) c\<rparr>) s
          else if a = 1 then set_u (\<lambda>w. w\<lparr>u_ino := mk16 c (lo8 (u_ino w))\<rparr>) s
          else set_u (\<lambda>w. w\<lparr>u_name := (u_name w)[unat a - 2 := c]\<rparr>) s)
     | Karg a \<Rightarrow> set_u (\<lambda>w. w\<lparr>u_arg := put_byte (unat a) c (u_arg w)\<rparr>) s
     | Umem a \<Rightarrow> s\<lparr>memory := (memory s)(lin (core_cs s) a := c)\<rparr>)"

section \<open>One character\<close>

definition off_inc :: "dword \<Rightarrow> dword" where
  "off_inc x = (let l = snd x + 1 in (if l = 0 then fst x + 1 else fst x, l))"

definition step_io :: "kst \<Rightarrow> kst" where
  "step_io = set_u (\<lambda>w. w\<lparr>u_count := u_count w - 1, u_offset := off_inc (u_offset w),
                          u_base := base_add (u_base w) 1\<rparr>)"

text \<open>\<open>subyte\<close> cannot fail here.  The result is true for \<open>-1\<close>, the last character of a read.\<close>

definition passc :: "u8 \<Rightarrow> kst \<Rightarrow> bool \<times> kst" where
  "passc c s =
     (let s = (if u_segflg (usr s) \<noteq> 0 then kpoke (u_base (usr s)) c s
               else subyte (base_addr (u_base (usr s))) c s);
          s = step_io s
      in (u_count (usr s) = 0, s))"

text \<open>The result is none for \<open>-1\<close>.\<close>

definition cpass :: "kst \<Rightarrow> u8 option \<times> kst" where
  "cpass s =
     (if u_count (usr s) = 0 then (None, s)
      else
        (let c = (if u_segflg (usr s) \<noteq> 0 then kpeek (u_base (usr s)) s
                  else memory s (lin (user_seg s) (base_addr (u_base (usr s)))))
         in (Some c, step_io s)))"

section \<open>A run of characters of a buffer\<close>

fun move_out :: "nat \<Rightarrow> nat \<Rightarrow> nat \<Rightarrow> kst \<Rightarrow> kst" where
  "move_out 0 bp o' s = s"
| "move_out (Suc n) bp o' s =
     (case passc (get_byte (b_data (bufs s bp)) o') s of
        (fin, s) \<Rightarrow> if fin then s else move_out n bp (Suc o') s)"

fun move_in :: "nat \<Rightarrow> nat \<Rightarrow> nat \<Rightarrow> kst \<Rightarrow> kst" where
  "move_in 0 bp o' s = s"
| "move_in (Suc n) bp o' s =
     (case cpass s of
        (None, s) \<Rightarrow> s
      | (Some c, s) \<Rightarrow>
          move_in n bp (Suc o') (set_buf bp (\<lambda>b. b\<lparr>b_data := put_byte o' c (b_data b)\<rparr>) s))"

definition copyout_buf :: "nat \<Rightarrow> nat \<Rightarrow> u16 \<Rightarrow> nat \<Rightarrow> kst \<Rightarrow> kst" where
  "copyout_buf bp o' addr n s =
     s\<lparr>memory := fold (\<lambda>i m. m(lin (user_seg s) (addr + of_nat i) := get_byte (b_data (bufs s bp)) (o' + i)))
                  [0..<n] (memory s)\<rparr>"

definition copyin_buf :: "u16 \<Rightarrow> nat \<Rightarrow> nat \<Rightarrow> nat \<Rightarrow> kst \<Rightarrow> kst" where
  "copyin_buf addr bp o' n s =
     set_buf bp (\<lambda>b. b\<lparr>b_data :=
       fold (\<lambda>i. put_byte (o' + i) (memory s (lin (user_seg s) (addr + of_nat i)))) [0..<n] (b_data b)\<rparr>) s"

text \<open>
  The buffers are the array \<open>buffers[NBUF][514]\<close>, so their addresses have the parity of the first;
  the array is word aligned, and \<open>cp\<close> is odd just when the offset in the block is.
\<close>

definition iomove :: "nat \<Rightarrow> nat \<Rightarrow> u16 \<Rightarrow> u16 \<Rightarrow> kst \<Rightarrow> kst" where
  "iomove bp o' n flag s =
     (if u_segflg (usr s) = 0 \<and> \<not> has (n OR of_nat o' OR base_addr (u_base (usr s))) 1 then
        (let s = (if flag = B_WRITE then copyin_buf (base_addr (u_base (usr s))) bp o' (unat n) s
                  else copyout_buf bp o' (base_addr (u_base (usr s))) (unat n) s)
         in set_u (\<lambda>w. w\<lparr>u_base := base_add (u_base w) n, u_offset := dpadd (u_offset w) n,
                        u_count := u_count w - n\<rparr>) s)
      else if flag = B_WRITE then move_in (unat n) bp o' s
      else move_out (unat n) bp o' s)"

section \<open>The memory devices\<close>

text \<open>The address a character of \<open>/dev/kmem\<close> (minor 1) or \<open>/dev/mem\<close> (minor 0) is at.\<close>

definition mm_addr :: "u16 \<Rightarrow> kst \<Rightarrow> nat" where
  "mm_addr dev s =
     (if minor dev = 1 then lin (core_cs s) (snd (u_offset (usr s)))
      else lin (lshift (u_offset (usr s)) (-4)) (snd (u_offset (usr s)) AND 0xf))"

text \<open>Both loops move one character per turn and end with \<open>u_count\<close>, so \<open>u_count\<close> (65536 for
  a count of 0 at the first \<open>passc\<close>, which wraps) bounds them.\<close>

fun mmread_loop :: "nat \<Rightarrow> u16 \<Rightarrow> kst \<Rightarrow> kst" where
  "mmread_loop 0 dev s = s"
| "mmread_loop (Suc n) dev s =
     (case passc (memory s (mm_addr dev s)) s of
        (fin, s) \<Rightarrow> if u_error (usr s) = 0 \<and> \<not> fin then mmread_loop n dev s else s)"

definition mmread :: "u16 \<Rightarrow> kst \<Rightarrow> kst" where
  "mmread dev s = (if minor dev = 2 then s else mmread_loop 65536 dev s)"

text \<open>\<open>cpass\<close> has moved \<open>u_offset\<close> on before the character is stored.\<close>

fun mmwrite_loop :: "nat \<Rightarrow> u16 \<Rightarrow> kst \<Rightarrow> kst" where
  "mmwrite_loop 0 dev s = s"
| "mmwrite_loop (Suc n) dev s =
     (case cpass s of
        (None, s) \<Rightarrow> s
      | (Some c, s) \<Rightarrow>
          if u_error (usr s) \<noteq> 0 then s
          else mmwrite_loop n dev (s\<lparr>memory := (memory s)(mm_addr dev s := c)\<rparr>))"

definition mmwrite :: "u16 \<Rightarrow> kst \<Rightarrow> kst" where
  "mmwrite dev s =
     (if minor dev = 2 then
        (let c = u_count (usr s)
         in set_u (\<lambda>w. w\<lparr>u_count := 0, u_base := base_add (u_base w) c,
                        u_offset := dpadd (u_offset w) c\<rparr>) s)
      else mmwrite_loop 65536 dev s)"

end
