(* ===== verification/Kbd.thy ===== *)
theory Kbd
  imports Prelude
begin

text \<open>
  The keyboard driver \<open>dmr/kbd.c\<close>: scan codes to characters.  The tables are lists of their
  initialised part (the rest of the 256 entries is 0) with the assignments of \<open>kbd_init\<close> on top;
  \<open>shift\<close> is the static word of modifier bits, and the two port reads of \<open>kbd_getc\<close>, status and
  data, are arguments.
\<close>

section \<open>Modifiers and tables\<close>

abbreviation (input) SHIFT :: u16 where "SHIFT \<equiv> 1"
abbreviation (input) CTL :: u16 where "CTL \<equiv> 2"
abbreviation (input) ALT :: u16 where "ALT \<equiv> 4"
abbreviation (input) CAPSLOCK :: u16 where "CAPSLOCK \<equiv> 8"
abbreviation (input) NUMLOCK :: u16 where "NUMLOCK \<equiv> 16"
abbreviation (input) SCROLLLOCK :: u16 where "SCROLLLOCK \<equiv> 32"
abbreviation (input) E0ESC :: u16 where "E0ESC \<equiv> 64"
abbreviation (input) KBS_DIB :: u16 where "KBS_DIB \<equiv> 1"

definition normal_init :: "u8 list" where
  "normal_init =
    [0, 27, 49, 50, 51, 52, 53, 54, 55, 56, 57, 48, 45, 61, 8, 9,
     113, 119, 101, 114, 116, 121, 117, 105, 111, 112, 91, 93, 10, 0, 97, 115,
     100, 102, 103, 104, 106, 107, 108, 59, 39, 96, 0, 92, 122, 120, 99, 118,
     98, 110, 109, 44, 46, 47, 0, 42, 0, 32, 0, 0, 0, 0, 0, 0,
     0, 0, 0, 0, 0, 0, 0, 55, 56, 57, 45, 52, 53, 54, 43, 49,
     50, 51, 48, 46, 0, 0, 0, 0]"

definition shift_init :: "u8 list" where
  "shift_init =
    [0, 27, 33, 64, 35, 36, 37, 94, 38, 42, 40, 41, 95, 43, 8, 9,
     81, 87, 69, 82, 84, 89, 85, 73, 79, 80, 123, 125, 10, 0, 65, 83,
     68, 70, 71, 72, 74, 75, 76, 58, 34, 126, 0, 124, 90, 88, 67, 86,
     66, 78, 77, 60, 62, 63, 0, 42, 0, 32, 0, 0, 0, 0, 0, 0,
     0, 0, 0, 0, 0, 0, 0, 55, 56, 57, 45, 52, 53, 54, 43, 49,
     50, 51, 48, 46, 0, 0, 0, 0]"

definition ctl_init :: "u8 list" where
  "ctl_init =
    [0, 0, 0, 0, 0, 0, 0, 0, 0, 0, 0, 0, 0, 0, 0, 0,
     17, 23, 5, 18, 20, 25, 21, 9, 15, 16, 0, 0, 13, 0, 1, 19,
     4, 6, 7, 8, 10, 11, 12, 0, 0, 0, 0, 28, 26, 24, 3, 22,
     2, 14, 13, 0, 0, -17, 0, 0]"

text \<open>An entry of a table: what \<open>kbd_init\<close> assigned, or else the initialiser.\<close>

definition entry :: "(nat \<times> u8) list \<Rightarrow> u8 list \<Rightarrow> u8 \<Rightarrow> u8" where
  "entry as t d =
     (case map_of as (unat d) of Some v \<Rightarrow> v
      | None \<Rightarrow> if unat d < length t then t ! unat d else 0)"

text \<open>The keypad and cursor keys, the same in the three maps but for the first two.\<close>

definition key_codes :: "(nat \<times> u8) list" where
  "key_codes = [(0xC8, 0xE2), (0xD0, 0xE3), (0xC9, 0xE6), (0xD1, 0xE7), (0xCB, 0xE4),
    (0xCD, 0xE5), (0x97, 0xE0), (0xCF, 0xE1), (0xD2, 0xE8), (0xD3, 0xE9)]"

definition normalmap :: "u8 \<Rightarrow> u8" where
  "normalmap = entry ((0x9C, 10) # (0xB5, 47) # key_codes) normal_init"

definition shiftmap :: "u8 \<Rightarrow> u8" where
  "shiftmap = entry ((0x9C, 10) # (0xB5, 47) # key_codes) shift_init"

definition ctlmap :: "u8 \<Rightarrow> u8" where
  "ctlmap = entry ((0x9C, 13) # (0xB5, 239) # key_codes) ctl_init"

definition shiftcode :: "u8 \<Rightarrow> u16" where
  "shiftcode d =
     (if d = 0x1D \<or> d = 0x9D then CTL else if d = 0x2A \<or> d = 0x36 then SHIFT
      else if d = 0x38 \<or> d = 0xB8 then ALT else 0)"

definition togglecode :: "u8 \<Rightarrow> u16" where
  "togglecode d =
     (if d = 0x3A then CAPSLOCK else if d = 0x45 then NUMLOCK
      else if d = 0x46 then SCROLLLOCK else 0)"

text \<open>\<open>charcode[shift & (CTL | SHIFT)]\<close>\<close>

definition charcode :: "u16 \<Rightarrow> u8 \<Rightarrow> u8" where
  "charcode m = (if m = 0 then normalmap else if m = SHIFT then shiftmap else ctlmap)"

section \<open>The state machine\<close>

text \<open>Capitals lock exchanges the case of a letter.\<close>

definition caps :: "u16 \<Rightarrow> u16" where
  "caps c =
     (if 97 \<le> c \<and> c \<le> 122 then c + (65 - 97)
      else if 65 \<le> c \<and> c \<le> 90 then c + (97 - 65) else c)"

text \<open>
  \<open>kbd_getc\<close> on the status \<open>st\<close> and the scan code \<open>data\<close>: the result (\<open>-1\<close> when there is no data,
  0 for a key that gives no character) and the new modifiers.
\<close>

definition kbd_getc :: "u8 \<Rightarrow> u8 \<Rightarrow> u16 \<Rightarrow> u16 \<times> u16" where
  "kbd_getc st data shift =
     (if ucast st AND KBS_DIB = 0 then (-1, shift)
      else if data = 0xE0 then (0, shift OR E0ESC)
      else if has data 0x80 then
        (let data = (if has shift E0ESC then data else data AND 0x7f)
         in (0, clr shift (shiftcode data OR E0ESC)))
      else
        (let (data, shift) =
               (if has shift E0ESC then (data OR 0x80, clr shift E0ESC) else (data, shift));
             shift = shift OR shiftcode data;
             shift = shift XOR togglecode data;
             c = ucast (charcode (shift AND (CTL OR SHIFT)) data) :: u16;
             c = (if has shift CAPSLOCK then caps c else c)
         in (c, shift)))"

text \<open>A run of scan codes: the characters they give, keys without one left out.\<close>

fun type_keys :: "u8 list \<Rightarrow> u16 \<Rightarrow> u16 list \<times> u16" where
  "type_keys [] sh = ([], sh)"
| "type_keys (d # ds) sh =
     (let (c, sh') = kbd_getc 1 d sh; (cs, sh'') = type_keys ds sh'
      in (if c = 0 then cs else c # cs, sh''))"

end
