(* ===== verification/Tty.thy ===== *)
theory Tty
  imports UserIO Kbd
begin

text \<open>
  The terminal driver: the line discipline of \<open>dmr/tty.c\<close> and the console device of
  \<open>dmr/kl.c\<close>, in the default build, where characters come from the keyboard and go to the
  BIOS console.  The device registers \<open>KLADDR\<close> are initialised to \<open>-1\<close> and the default build only
  sets bits in them, so the \<open>DONE\<close> test of \<open>ttstart\<close> never fails.  There is one terminal,
  \<open>kl11[0]\<close>; its three lists share the pool of blocks.
\<close>

abbreviation (input) TTIPRI :: int where "TTIPRI \<equiv> 10"
abbreviation (input) TTOPRI :: int where "TTOPRI \<equiv> 20"
abbreviation (input) CEOT :: u16 where "CEOT \<equiv> 4"
abbreviation (input) CQUIT :: u16 where "CQUIT \<equiv> 27"
abbreviation (input) CINTR :: u16 where "CINTR \<equiv> 127"
abbreviation (input) TTHIWAT :: u16 where "TTHIWAT \<equiv> 50"
abbreviation (input) TTLOWAT :: u16 where "TTLOWAT \<equiv> 30"
abbreviation (input) TTYHOG :: u16 where "TTYHOG \<equiv> 256"
abbreviation (input) CANBSIZ :: nat where "CANBSIZ \<equiv> 256"

abbreviation (input) XTABS :: u16 where "XTABS \<equiv> 2"
abbreviation (input) LCASE :: u16 where "LCASE \<equiv> 4"
abbreviation (input) ECHO :: u16 where "ECHO \<equiv> 8"
abbreviation (input) CRMOD :: u16 where "CRMOD \<equiv> 16"
abbreviation (input) RAW :: u16 where "RAW \<equiv> 32"
abbreviation (input) VTDELAY :: u16 where "VTDELAY \<equiv> 0x4000"

abbreviation (input) TIMEOUT :: u8 where "TIMEOUT \<equiv> 1"
abbreviation (input) ISOPEN :: u8 where "ISOPEN \<equiv> 4"
abbreviation (input) SSTART :: u8 where "SSTART \<equiv> 8"
abbreviation (input) CARR_ON :: u8 where "CARR_ON \<equiv> 16"
abbreviation (input) ASLEEP :: u8 where "ASLEEP \<equiv> 64"

section \<open>Tables\<close>

text \<open>Escapes: the character a \<open>backslash c\<close> stands for.\<close>

definition maptab :: "u16 list" where
  "maptab =
    [0, 0, 0, 0, 4, 0, 0, 0, 0, 0, 0, 0, 0, 0, 0, 0,
     0, 0, 0, 0, 0, 0, 0, 0, 0, 0, 0, 0, 0, 0, 0, 0,
     0, 124, 0, 35, 0, 0, 0, 96, 123, 125, 0, 0, 0, 0, 0, 0,
     0, 0, 0, 0, 0, 0, 0, 0, 0, 0, 0, 0, 0, 0, 0, 0,
     64, 0, 0, 0, 0, 0, 0, 0, 0, 0, 0, 0, 0, 0, 0, 0,
     0, 0, 0, 0, 0, 0, 0, 0, 0, 0, 0, 0, 0, 0, 126, 0,
     0, 65, 66, 67, 68, 69, 70, 71, 72, 73, 74, 75, 76, 77, 78, 79,
     80, 81, 82, 83, 84, 85, 86, 87, 88, 89, 90, 0, 0, 0, 0, 0]"

text \<open>Parity bit and character class.\<close>

definition partab :: "u8 list" where
  "partab =
    [1, 129, 129, 1, 129, 1, 1, 129, 130, 4, 3, 133, 5, 134, 129, 1,
     129, 1, 1, 129, 1, 129, 129, 1, 1, 129, 129, 1, 129, 1, 1, 129,
     128, 0, 0, 128, 0, 128, 128, 0, 0, 128, 128, 0, 128, 0, 0, 128,
     0, 128, 128, 0, 128, 0, 0, 128, 128, 0, 0, 128, 0, 128, 128, 0,
     128, 0, 0, 128, 0, 128, 128, 0, 0, 128, 128, 0, 128, 0, 0, 128,
     0, 128, 128, 0, 128, 0, 0, 128, 128, 0, 0, 128, 0, 128, 128, 0,
     0, 128, 128, 0, 128, 0, 0, 128, 128, 0, 0, 128, 0, 128, 128, 0,
     128, 0, 0, 128, 0, 128, 128, 0, 0, 128, 128, 0, 128, 0, 0, 129]"

section \<open>The three lists of the terminal\<close>

datatype ttyq = Rawq | Canq | Outq

fun the_q :: "ttyq \<Rightarrow> tty \<Rightarrow> clist" where
  "the_q Rawq t = t_rawq t"
| "the_q Canq t = t_canq t"
| "the_q Outq t = t_outq t"

fun set_q :: "ttyq \<Rightarrow> clist \<Rightarrow> tty \<Rightarrow> tty" where
  "set_q Rawq l t = t\<lparr>t_rawq := l\<rparr>"
| "set_q Canq l t = t\<lparr>t_canq := l\<rparr>"
| "set_q Outq l t = t\<lparr>t_outq := l\<rparr>"

abbreviation q_cc :: "ttyq \<Rightarrow> kst \<Rightarrow> u16" where
  "q_cc q s \<equiv> c_cc (the_q q (kl11 s))"

abbreviation set_tty :: "(tty \<Rightarrow> tty) \<Rightarrow> kst \<Rightarrow> kst" where
  "set_tty f \<equiv> kl11_update f"

definition qget :: "ttyq \<Rightarrow> kst \<Rightarrow> u8 option \<times> kst" where
  "qget q s =
     (case getc (pool s, the_q q (kl11 s)) of
        (r, m, l) \<Rightarrow> (r, s\<lparr>pool := m, kl11 := set_q q l (kl11 s)\<rparr>))"

text \<open>\<open>putc\<close> reports on the console when there is no block.\<close>

definition qput :: "u8 \<Rightarrow> ttyq \<Rightarrow> kst \<Rightarrow> bool \<times> kst" where
  "qput c q s =
     (case putc c (pool s, the_q q (kl11 s)) of
        (ok, m, l) \<Rightarrow>
          (let s = s\<lparr>pool := m, kl11 := set_q q l (kl11 s)\<rparr>
           in (ok, if ok then s else put_console (printf ''ERROR cfreelist is NULL'' []) s)))"

text \<open>\<open>while (getc(q) >= 0);\<close> takes at most as many turns as there are characters.\<close>

fun qdrain :: "nat \<Rightarrow> ttyq \<Rightarrow> kst \<Rightarrow> kst" where
  "qdrain 0 q s = s"
| "qdrain (Suc n) q s =
     (case qget q s of (None, s) \<Rightarrow> s | (Some c, s) \<Rightarrow> qdrain n q s)"

definition qflush :: "ttyq \<Rightarrow> kst \<Rightarrow> kst" where
  "qflush q s = qdrain (Suc (unat (q_cc q s))) q s"

definition flushtty :: "kst \<Rightarrow> kst" where
  "flushtty s =
     (let s = qflush Outq (qflush Canq s);
          s = wakeup ChOutq (wakeup ChRawq s)
      in set_tty (\<lambda>t. t\<lparr>t_delct := 0\<rparr>) (qflush Rawq s))"

section \<open>Output\<close>

text \<open>
  The end of \<open>ttyoutput\<close>: queue the character, count the column, and queue a delay (a character
  above 0177) if the terminal type wants one after this class of character.  The result is the
  new column and the delay.
\<close>

definition out_column :: "u16 \<Rightarrow> u16 \<Rightarrow> u8 \<Rightarrow> u8 \<times> u16" where
  "out_column flags ctype col =
     (if ctype = 0 then (col + 1, 0)
      else if ctype = 2 then (if col \<noteq> 0 then col - 1 else col, 0)
      else if ctype = 3 then
        (let ty = drop_bit 8 flags AND 3
         in (0, if ty = 1 then (if col \<noteq> 0 then max_u (signed_drop_bit 4 (c2i col) + 3) 6 else 0)
                else if ty = 2 then 6 else 0))
      else if ctype = 4 then
        (let ty = drop_bit 10 flags AND 3;
             c = 1 - (c2i col OR NOT 7)
         in ((col OR 7) + 1, if ty = 1 then (if slt16 c 5 then 0 else c) else 0))
      else if ctype = 5 then (col, if has flags VTDELAY then 127 else 0)
      else if ctype = 6 then
        (let ty = drop_bit 12 flags AND 3
         in (0, if ty = 1 then 5 else if ty = 2 then 10 else 0))
      else (col, 0))"

definition out_char :: "u16 \<Rightarrow> kst \<Rightarrow> kst" where
  "out_char c s =
     (case qput (i2c c) Outq s of
        (False, s) \<Rightarrow> s
      | (True, s) \<Rightarrow>
          (case out_column (t_flags (kl11 s)) (ucast (partab ! unat c) AND 63) (t_col (kl11 s)) of
             (col, d) \<Rightarrow>
               (let s = set_tty (\<lambda>t. t\<lparr>t_col := col\<rparr>) s
                in if d \<noteq> 0 then snd (qput (i2c (d OR 128)) Outq s) else s)))"

text \<open>
  The recursive calls of \<open>ttyoutput\<close> are for a space, a backslash and a carriage return, for which
  every test before \<open>putc\<close> fails; they are \<open>out_char\<close> here (\<open>ttyoutput_simple\<close> in \<open>TtyFacts\<close>).  The
  expansion of a tab puts at most eight spaces if they can be queued; when the pool is empty the
  column does not move and the loop does not end, which is \<open>Spinning\<close>.
\<close>

fun out_tab :: "nat \<Rightarrow> kst \<Rightarrow> unit kres" where
  "out_tab 0 s = Stop (Spinning s)"
| "out_tab (Suc n) s =
     (let s = out_char 32 s
      in if has (t_col (kl11 s)) 7 then out_tab n s else Ret () s)"

text \<open>The upper-case escapes \<open>({)}!|^~'`\<close>: the second of each pair is typed as backslash and the first.\<close>

definition lcase_pairs :: "(u16 \<times> u16) list" where
  "lcase_pairs = [(123, 40), (125, 41), (124, 33), (126, 94), (96, 39)]"

definition lcase_out :: "u16 \<Rightarrow> kst \<Rightarrow> u16 \<times> kst" where
  "lcase_out c s =
     (if has (t_flags (kl11 s)) LCASE then
        (let (c, s) = (case map_of lcase_pairs c of Some a \<Rightarrow> (a, out_char 92 s) | None \<Rightarrow> (c, s))
         in (if 97 \<le> c \<and> c \<le> 122 then c + (65 - 97) else c, s))
      else (c, s))"

definition ttyoutput :: "u16 \<Rightarrow> kst \<Rightarrow> unit kres" where
  "ttyoutput ac s =
     (let c = ac AND 127
      in if c = CEOT \<and> \<not> has (t_flags (kl11 s)) RAW then Ret () s
         else if c = 9 \<and> has (t_flags (kl11 s)) XTABS then out_tab 8 s
         else
           (case lcase_out c s of (c, s) \<Rightarrow>
              (let s = (if c = 10 \<and> has (t_flags (kl11 s)) CRMOD then out_char 13 s else s)
               in Ret () (out_char c s))))"

text \<open>Sending the queue: everything, once the first character is not a delay.\<close>

fun send_all :: "nat \<Rightarrow> kst \<Rightarrow> kst" where
  "send_all 0 s = s"
| "send_all (Suc n) s =
     (case qget Outq s of
        (None, s) \<Rightarrow> s
      | (Some c, s) \<Rightarrow> send_all n (put_console [c] s))"

definition ttstart :: "kst \<Rightarrow> kst" where
  "ttstart s =
     (if has (t_state (kl11 s)) SSTART \<or> has (t_state (kl11 s)) TIMEOUT then s
      else
        (case qget Outq s of
           (None, s) \<Rightarrow> s
         | (Some c, s) \<Rightarrow>
             if c \<le> 127 then send_all (Suc (unat (q_cc Outq s))) (put_console [c] s)
             else set_tty (\<lambda>t. t\<lparr>t_state := t_state t OR TIMEOUT\<rparr>)
                    (s\<lparr>callout := timeout (callout s) Ttrstrt 0 (ucast c AND 127)\<rparr>)))"

definition ttrstrt :: "kst \<Rightarrow> kst" where
  "ttrstrt s = ttstart (set_tty (\<lambda>t. t\<lparr>t_state := clr (t_state t) TIMEOUT\<rparr>) s)"

section \<open>Input\<close>

definition ttyinput :: "u16 \<Rightarrow> kst \<Rightarrow> unit kres" where
  "ttyinput ac s =
     (let fl = t_flags (kl11 s);
          c = ac AND 127;
          c = (if c = 13 \<and> has fl CRMOD then 10 else c)
      in if \<not> has fl RAW \<and> (c = CQUIT \<or> c = CINTR) then
           Ret () (flushtty (signal 0 (if c = CINTR then SIGINT else SIGQIT) s))
         else if sle16 TTYHOG (q_cc Rawq s) then Ret () (flushtty s)
         else
           (let c = (if has fl LCASE \<and> 65 \<le> c \<and> c \<le> 90 then c + (97 - 65) else c);
                s = snd (qput (i2c c) Rawq s);
                s = (if has fl RAW \<or> c = 10 \<or> c = 4 then
                       (let s = wakeup ChRawq s
                        in case qput 255 Rawq s of
                             (ok, s) \<Rightarrow> if ok then set_tty (\<lambda>t. t\<lparr>t_delct := t_delct t + 1\<rparr>) s else s)
                     else s)
            in if has fl ECHO then andthen (ttyoutput c s) (\<lambda>_ s. Ret () (ttstart s))
               else Ret () s))"

text \<open>
  The loop of \<open>canon\<close>.  \<open>ln\<close> is the line so far, last character first, so its head is \<open>bp[-1]\<close>;
  \<open>canonb[1]\<close> and \<open>canonb[0]\<close>, before the line, are never written and hold 0.  Raw characters
  other than the delimiter are below 128, the size of \<open>maptab\<close>.
\<close>

definition prev :: "nat \<Rightarrow> u16 list \<Rightarrow> u16" where
  "prev k ln = (if k < length ln then ln ! k else 0)"

definition canon_char :: "tty \<Rightarrow> u16 \<Rightarrow> u16 list \<Rightarrow> u16 list" where
  "canon_char t c ln =
     (if has (t_flags t) RAW then c # ln
      else if prev 0 ln \<noteq> 92 then
        (if c = c2i (t_erase t) then drop 1 ln
         else if c = c2i (t_kill t) then []
         else if c = CEOT then ln
         else c # ln)
      else if maptab ! unat c \<noteq> 0 \<and> (maptab ! unat c = c \<or> has (t_flags t) LCASE) then
        (if prev 1 ln \<noteq> 92 then maptab ! unat c else c) # drop 1 ln
      else c # ln)"

fun canon_loop :: "nat \<Rightarrow> u16 list \<Rightarrow> kst \<Rightarrow> u16 list \<times> kst" where
  "canon_loop 0 ln s = (ln, s)"
| "canon_loop (Suc n) ln s =
     (case qget Rawq s of
        (None, s) \<Rightarrow> (ln, s)
      | (Some c, s) \<Rightarrow>
          if c = 255 then (ln, set_tty (\<lambda>t. t\<lparr>t_delct := t_delct t - 1\<rparr>) s)
          else
            (let ln' = canon_char (kl11 s) (ucast c) ln
             in if length ln < length ln' \<and> length ln' + 2 \<ge> CANBSIZ then (ln', s)
                else canon_loop n ln' s))"

fun wait_delct :: "nat \<Rightarrow> kst \<Rightarrow> bool kres" where
  "wait_delct 0 s = Stop (Spinning s)"
| "wait_delct (Suc n) s =
     (if t_delct (kl11 s) \<noteq> 0 then Ret True s
      else if \<not> has (t_state (kl11 s)) CARR_ON then Ret False s
      else andthen (sleep ChRawq TTIPRI s) (\<lambda>_. wait_delct n))"

definition canon :: "kst \<Rightarrow> bool kres" where
  "canon s =
     andthen (wait_delct SPINS s) (\<lambda>go s.
       if \<not> go then Ret False s
       else
         (case canon_loop (Suc (unat (q_cc Rawq s))) [] s of
            (ln, s) \<Rightarrow> Ret True (fold (\<lambda>c s. snd (qput (i2c c) Canq s)) (rev ln) s)))"

section \<open>Reading and writing\<close>

fun pass_canq :: "nat \<Rightarrow> kst \<Rightarrow> kst" where
  "pass_canq 0 s = s"
| "pass_canq (Suc n) s =
     (if q_cc Canq s = 0 then s
      else
        (case qget Canq s of
           (None, s) \<Rightarrow> s
         | (Some c, s) \<Rightarrow> (case passc c s of (fin, s) \<Rightarrow> if fin then s else pass_canq n s)))"

definition ttread :: "kst \<Rightarrow> unit kres" where
  "ttread s =
     (if \<not> has (t_state (kl11 s)) CARR_ON then Ret () s
      else
        andthen (if q_cc Canq s \<noteq> 0 then Ret True s else canon s) (\<lambda>go s.
          Ret () (if go then pass_canq (unat (q_cc Canq s)) s else s)))"

fun wait_hiwat :: "nat \<Rightarrow> kst \<Rightarrow> unit kres" where
  "wait_hiwat 0 s = Stop (Spinning s)"
| "wait_hiwat (Suc n) s =
     (if slt16 TTHIWAT (q_cc Outq s) then
        andthen (sleep ChOutq TTOPRI
                   (set_tty (\<lambda>t. t\<lparr>t_state := t_state t OR ASLEEP\<rparr>) (ttstart s)))
          (\<lambda>_. wait_hiwat n)
      else Ret () s)"

fun ttwrite_loop :: "nat \<Rightarrow> kst \<Rightarrow> unit kres" where
  "ttwrite_loop 0 s = Ret () s"
| "ttwrite_loop (Suc n) s =
     (case cpass s of
        (None, s) \<Rightarrow> Ret () s
      | (Some c, s) \<Rightarrow>
          andthen (wait_hiwat SPINS s) (\<lambda>_ s.
          andthen (ttyoutput (ucast c) s) (\<lambda>_. ttwrite_loop n)))"

definition ttwrite :: "kst \<Rightarrow> unit kres" where
  "ttwrite s =
     (if \<not> has (t_state (kl11 s)) CARR_ON then Ret () s
      else andthen (ttwrite_loop (Suc (unat (u_count (usr s)))) s) (\<lambda>_ s. Ret () (ttstart s)))"

fun wflush_loop :: "nat \<Rightarrow> kst \<Rightarrow> unit kres" where
  "wflush_loop 0 s = Stop (Spinning s)"
| "wflush_loop (Suc n) s =
     (if q_cc Outq s \<noteq> 0 then
        andthen (sleep ChOutq TTOPRI (set_tty (\<lambda>t. t\<lparr>t_state := t_state t OR ASLEEP\<rparr>) s))
          (\<lambda>_. wflush_loop n)
      else Ret () s)"

definition wflushtty :: "kst \<Rightarrow> unit kres" where
  "wflushtty s = andthen (wflush_loop SPINS s) (\<lambda>_ s. Ret () (flushtty s))"

text \<open>
  \<open>ttystty\<close>: with \<open>gtty\<close> (\<open>v\<close> not null) the three words of the terminal's state, with \<open>stty\<close> the
  state from \<open>u_arg\<close>.  The second word is the erase character below the kill character.
\<close>

definition tty_words :: "tty \<Rightarrow> u16 \<times> u16 \<times> u16" where
  "tty_words t = (t_speeds t, mk16 (t_kill t) (t_erase t), t_flags t)"

definition ttystty :: "bool \<Rightarrow> kst \<Rightarrow> (u16 \<times> u16 \<times> u16) kres" where
  "ttystty gtty s =
     (if gtty then Ret (tty_words (kl11 s)) s
      else andthen (wflushtty s) (\<lambda>_ s.
        let v = u_arg (usr s);
            s = set_tty (\<lambda>t. t\<lparr>t_speeds := v 0, t_erase := lo8 (v 1), t_kill := hi8 (v 1),
                               t_flags := v 2\<rparr>) s
        in Ret (tty_words (kl11 s)) s))"

section \<open>The console device\<close>

definition klopen :: "u16 \<Rightarrow> kst \<Rightarrow> kst" where
  "klopen dev s =
     (if minor dev \<ge> 1 then set_error ENXIO s
      else
        (let s = (if p_ttyp (procs s (curproc s)) = None
                  then set_tty (\<lambda>t. t\<lparr>t_dev := dev\<rparr>)
                         (set_proc (curproc s) (\<lambda>q. q\<lparr>p_ttyp := Some 0\<rparr>) s)
                  else s)
         in if \<not> has (t_state (kl11 s)) ISOPEN
            then set_tty (\<lambda>t. t\<lparr>t_state := ISOPEN OR CARR_ON, t_flags := XTABS OR ECHO OR CRMOD,
                               t_erase := 35, t_kill := 64\<rparr>) s
            else s))"

definition klclose :: "u16 \<Rightarrow> kst \<Rightarrow> unit kres" where
  "klclose dev = wflushtty"

definition klread :: "u16 \<Rightarrow> kst \<Rightarrow> unit kres" where
  "klread dev = ttread"

text \<open>A tab becomes two spaces and a newline is preceded by a carriage return.\<close>

fun klwrite_loop :: "nat \<Rightarrow> kst \<Rightarrow> kst" where
  "klwrite_loop 0 s = s"
| "klwrite_loop (Suc n) s =
     (case cpass s of
        (None, s) \<Rightarrow> s
      | (Some c, s) \<Rightarrow>
          klwrite_loop n (put_console
            (if c = 9 then [32, 32] else if c = 10 then [13, 10] else [c]) s))"

definition klwrite :: "u16 \<Rightarrow> kst \<Rightarrow> kst" where
  "klwrite dev s = klwrite_loop (unat (u_count (usr s))) s"

definition klxint :: "kst \<Rightarrow> kst" where
  "klxint s =
     (let s = ttstart s
      in if q_cc Outq s = 0 \<or> q_cc Outq s = TTLOWAT then wakeup ChOutq s else s)"

text \<open>The keyboard interrupt, with what the two ports read.\<close>

definition klrint :: "u8 \<Rightarrow> u8 \<Rightarrow> kst \<Rightarrow> unit kres" where
  "klrint st data s =
     (case kbd_getc st data (kbd_shift s) of
        (c, sh) \<Rightarrow>
          (let s = s\<lparr>kbd_shift := sh\<rparr>
           in if has (t_state (kl11 s)) ISOPEN \<and> slt16 0 c then ttyinput c s else Ret () s))"

end
