(* ===== verification/Rdwri.thy ===== *)
theory Rdwri
  imports Tty
begin

text \<open>
  Reading and writing files: \<open>bmap\<close> (\<open>ken/subr.c\<close>), which maps a block of a file to a block of
  the device, and \<open>readi\<close>, \<open>writei\<close> (\<open>ken/rdwri.c\<close>).  The character switch has the console, the
  memory devices and the raw disk.  A transfer moves at least one byte per turn of its loop, so
  the byte count bounds the loop.
\<close>

section \<open>The character device switch\<close>

text \<open>Entries outside the table are not functions; calling one is the end of the kernel.\<close>

definition cdev_read :: "u16 \<Rightarrow> kst \<Rightarrow> unit kres" where
  "cdev_read dev s =
     (let maj = major dev
      in if maj = 0 then klread dev s
         else if maj = 1 then Ret () (mmread dev s)
         else if maj = 2 then rkread dev s
         else Stop (Panic ''cdevsw'' s))"

definition cdev_write :: "u16 \<Rightarrow> kst \<Rightarrow> unit kres" where
  "cdev_write dev s =
     (let maj = major dev
      in if maj = 0 then Ret () (klwrite dev s)
         else if maj = 1 then Ret () (mmwrite dev s)
         else if maj = 2 then rkwrite dev s
         else Stop (Panic ''cdevsw'' s))"

section \<open>Block map\<close>

text \<open>A new block for \<open>slot\<close> of the inode; 0 when there is none.\<close>

definition bmap_small :: "nat \<Rightarrow> u16 \<Rightarrow> kst \<Rightarrow> u16 kres" where
  "bmap_small ip bn s =
     (let nb = i_addr (inodes s ip) (unat bn)
      in andthen
           (if nb = 0 then
              andthen (alloc (i_dev (inodes s ip)) s) (\<lambda>r s.
              case r of
                None \<Rightarrow> Ret nb s
              | Some bp \<Rightarrow>
                  (let s = bdwrite bp s; nb = b_blkno (bufs s bp)
                   in Ret nb (set_ino ip (\<lambda>q. q\<lparr>i_addr := (i_addr q)(unat bn := nb),
                                               i_flag := i_flag q OR IUPD\<rparr>) s)))
            else Ret nb s)
           (\<lambda>nb s. Ret nb (s\<lparr>rablock := (if slt16 bn 7 then i_addr (inodes s ip) (unat bn + 1) else 0)\<rparr>)))"

text \<open>Conversion of a small file to a large one: the addresses move to an indirect block.\<close>

definition bmap_convert :: "nat \<Rightarrow> kst \<Rightarrow> bool kres" where
  "bmap_convert ip s =
     andthen (alloc (i_dev (inodes s ip)) s) (\<lambda>r s.
     case r of
       None \<Rightarrow> Ret False s
     | Some bp \<Rightarrow>
         (let a = i_addr (inodes s ip);
              s = set_buf bp (\<lambda>b. b\<lparr>b_data := bcopy a 0 (b_data b) 0 8\<rparr>) s;
              nb = b_blkno (bufs s bp);
              s = set_ino ip (\<lambda>q. q\<lparr>i_addr := (\<lambda>i. if i = 0 then nb else if i < 8 then 0 else i_addr q i)\<rparr>) s;
              s = bdwrite bp s
          in Ret True (set_ino ip (\<lambda>q. q\<lparr>i_mode := i_mode q OR ILARG\<rparr>) s)))"

text \<open>The indirect block of slot \<open>i\<close>, allocated if need be.\<close>

definition bmap_indirect :: "nat \<Rightarrow> nat \<Rightarrow> kst \<Rightarrow> nat option kres" where
  "bmap_indirect ip i s =
     (let nb = i_addr (inodes s ip) i; d = i_dev (inodes s ip)
      in if nb = 0 then
           andthen (alloc d (set_ino ip (\<lambda>q. q\<lparr>i_flag := i_flag q OR IUPD\<rparr>) s)) (\<lambda>r s.
           case r of
             None \<Rightarrow> Ret None s
           | Some bp \<Rightarrow>
               Ret (Some bp)
                 (let nb = b_blkno (bufs s bp)
                  in set_ino ip (\<lambda>q. q\<lparr>i_addr := (i_addr q)(i := nb)\<rparr>) s))
         else andthen (bread d nb s) (\<lambda>bp. Ret (Some bp)))"

text \<open>The double indirect fetch: from the block \<open>bp\<close> to the indirect block in its word \<open>i\<close>.\<close>

definition bmap_huge :: "u16 \<Rightarrow> nat \<Rightarrow> nat \<Rightarrow> kst \<Rightarrow> nat option kres" where
  "bmap_huge d bp i s =
     (let nb = b_data (bufs s bp) i
      in if nb = 0 then
           andthen (alloc d s) (\<lambda>r s.
           case r of
             None \<Rightarrow> Ret None (brelse bp s)
           | Some nbp \<Rightarrow>
               (let nb = b_blkno (bufs s nbp)
                in Ret (Some nbp)
                     (bdwrite bp (set_buf bp (\<lambda>b. b\<lparr>b_data := (b_data b)(i := nb)\<rparr>) s))))
         else andthen (bread d nb (brelse bp s)) (\<lambda>nbp. Ret (Some nbp)))"

text \<open>The last step; \<open>rablock\<close> is read from the indirect block after its release.\<close>

definition bmap_last :: "u16 \<Rightarrow> nat \<Rightarrow> nat \<Rightarrow> kst \<Rightarrow> u16 kres" where
  "bmap_last d bp i s =
     (let nb = b_data (bufs s bp) i
      in andthen
           (if nb = 0 then
              andthen (alloc d s) (\<lambda>r s.
              case r of
                None \<Rightarrow> Ret nb (brelse bp s)
              | Some nbp \<Rightarrow>
                  (let nb = b_blkno (bufs s nbp);
                       s = set_buf bp (\<lambda>b. b\<lparr>b_data := (b_data b)(i := nb)\<rparr>) s
                   in Ret nb (bdwrite bp (bdwrite nbp s))))
            else Ret nb (brelse bp s))
           (\<lambda>nb s. Ret nb (s\<lparr>rablock := (if i < 255 then b_data (bufs s bp) (i + 1) else 0)\<rparr>)))"

text \<open>The slot of the inode and the words of the indirect blocks a block number stands for.\<close>

definition bmap_slot :: "u16 \<Rightarrow> nat" where
  "bmap_slot bn = (if has bn 0xf800 then 7 else unat (drop_bit 8 bn))"

definition bmap_second :: "u16 \<Rightarrow> nat" where
  "bmap_second bn = unat ((drop_bit 8 bn AND 0xff) - 7)"

definition bmap_first :: "u16 \<Rightarrow> nat" where
  "bmap_first bn = unat (bn AND 0xff)"

definition bmap_large :: "nat \<Rightarrow> u16 \<Rightarrow> kst \<Rightarrow> u16 kres" where
  "bmap_large ip bn s =
     (let d = i_dev (inodes s ip);
          i = bmap_slot bn
      in andthen (bmap_indirect ip i s) (\<lambda>r s.
         case r of
           None \<Rightarrow> Ret 0 s
         | Some bp \<Rightarrow>
             andthen
               (if i = 7 then bmap_huge d bp (bmap_second bn) s
                else Ret (Some bp) s)
               (\<lambda>r s. case r of
                  None \<Rightarrow> Ret 0 s
                | Some bp \<Rightarrow> bmap_last d bp (bmap_first bn) s)))"

definition bmap :: "nat \<Rightarrow> u16 \<Rightarrow> kst \<Rightarrow> u16 kres" where
  "bmap ip bn s =
     (if has bn 0x8000 then Ret 0 (set_error EFBIG s)
      else if \<not> has (i_mode (inodes s ip)) ILARG then
        (if has bn 0xfff8 then
           andthen (bmap_convert ip s) (\<lambda>ok s. if ok then bmap_large ip bn s else Ret 0 s)
         else bmap_small ip bn s)
      else bmap_large ip bn s)"

section \<open>Reading\<close>

definition is_blk :: "nat \<Rightarrow> kst \<Rightarrow> bool" where
  "is_blk ip s \<longleftrightarrow> i_mode (inodes s ip) AND IFMT = IFBLK"

definition is_chr :: "nat \<Rightarrow> kst \<Rightarrow> bool" where
  "is_chr ip s \<longleftrightarrow> i_mode (inodes s ip) AND IFMT = IFCHR"

text \<open>
  The first part of a turn of \<open>readi\<close>: the device, the block there and the byte count of the
  transfer, or none at the end of the file or without a block.
\<close>

definition readi_where :: "nat \<Rightarrow> u16 \<Rightarrow> u16 \<Rightarrow> kst \<Rightarrow> (u16 \<times> u16 \<times> u16) option kres" where
  "readi_where ip lbn n s =
     (if \<not> is_blk ip s then
        (let q = inodes s ip;
             dn = dpcmp (c2i (i_size0 q) AND 0xff) (i_size1 q)
                    (fst (u_offset (usr s))) (snd (u_offset (usr s)))
         in if sle16 dn 0 then Ret None s
            else
              (let n = min_u n dn
               in andthen (bmap ip lbn s) (\<lambda>bn s.
                    if bn = 0 then Ret None s else Ret (Some (i_dev (inodes s ip), bn, n)) s)))
      else Ret (Some (i_addr (inodes s ip) 0, lbn, n)) (s\<lparr>rablock := lbn + 1\<rparr>))"

fun readi_loop :: "nat \<Rightarrow> nat \<Rightarrow> kst \<Rightarrow> unit kres" where
  "readi_loop 0 ip s = Ret () s"
| "readi_loop (Suc k) ip s =
     (let lbn = lshift (u_offset (usr s)) (-9);
          on = snd (u_offset (usr s)) AND 0x1ff;
          n = min_u (512 - on) (u_count (usr s))
      in andthen (readi_where ip lbn n s) (\<lambda>r s.
         case r of
           None \<Rightarrow> Ret () s
         | Some (dn, bn, n) \<Rightarrow>
             andthen (if i_lastr (inodes s ip) + 1 = lbn then breada dn bn (rablock s) s
                      else bread dn bn s) (\<lambda>bp s.
             let s = set_ino ip (\<lambda>q. q\<lparr>i_lastr := lbn\<rparr>) s;
                 s = iomove bp (unat on) n B_READ s;
                 s = brelse bp s
             in if u_error (usr s) = 0 \<and> u_count (usr s) \<noteq> 0 then readi_loop k ip s
                else Ret () s)))"

definition readi :: "nat \<Rightarrow> kst \<Rightarrow> unit kres" where
  "readi ip s =
     (if u_count (usr s) = 0 then Ret () s
      else
        (let s = set_ino ip (\<lambda>q. q\<lparr>i_flag := i_flag q OR IACC\<rparr>) s
         in if is_chr ip s then cdev_read (i_addr (inodes s ip) 0) s
            else readi_loop (unat (u_count (usr s))) ip s))"

section \<open>Writing\<close>

definition writei_where :: "nat \<Rightarrow> u16 \<Rightarrow> kst \<Rightarrow> (u16 \<times> u16) option kres" where
  "writei_where ip bn s =
     (if \<not> is_blk ip s then
        andthen (bmap ip bn s) (\<lambda>bn s.
          if bn = 0 then Ret None s else Ret (Some (i_dev (inodes s ip), bn)) s)
      else Ret (Some (i_addr (inodes s ip) 0, bn)) s)"

text \<open>The file grows when the write ended past its size.\<close>

definition writei_size :: "nat \<Rightarrow> kst \<Rightarrow> kst" where
  "writei_size ip s =
     (let q = inodes s ip; off = u_offset (usr s);
          s = (if slt16 (dpcmp (c2i (i_size0 q) AND 0xff) (i_size1 q) (fst off) (snd off)) 0
                  \<and> \<not> has (i_mode q) (IFBLK AND IFCHR)
               then set_ino ip (\<lambda>q. q\<lparr>i_size0 := i2c (fst off), i_size1 := snd off\<rparr>) s else s)
      in set_ino ip (\<lambda>q. q\<lparr>i_flag := i_flag q OR IUPD\<rparr>) s)"

fun writei_loop :: "nat \<Rightarrow> nat \<Rightarrow> kst \<Rightarrow> unit kres" where
  "writei_loop 0 ip s = Ret () s"
| "writei_loop (Suc k) ip s =
     (let bn = lshift (u_offset (usr s)) (-9);
          on = snd (u_offset (usr s)) AND 0x1ff;
          n = min_u (512 - on) (u_count (usr s))
      in andthen (writei_where ip bn s) (\<lambda>r s.
         case r of
           None \<Rightarrow> Ret () s
         | Some (dn, bn) \<Rightarrow>
             andthen (if n = 512 then getblk dn bn s else bread dn bn s) (\<lambda>bp s.
             let s = iomove bp (unat on) n B_WRITE s
             in andthen
                  (if u_error (usr s) \<noteq> 0 then Ret () (brelse bp s)
                   else if snd (u_offset (usr s)) AND 0x1ff = 0 then bawrite bp s
                   else Ret () (bdwrite bp s))
                  (\<lambda>_ s. let s = writei_size ip s
                        in if u_error (usr s) = 0 \<and> u_count (usr s) \<noteq> 0
                           then writei_loop k ip s else Ret () s))))"

definition writei :: "nat \<Rightarrow> kst \<Rightarrow> unit kres" where
  "writei ip s =
     (let s = set_ino ip (\<lambda>q. q\<lparr>i_flag := i_flag q OR (IACC OR IUPD)\<rparr>) s
      in if is_chr ip s then cdev_write (i_addr (inodes s ip) 0) s
         else if u_count (usr s) = 0 then Ret () s
         else writei_loop (unat (u_count (usr s))) ip s)"

section \<open>New directory entries\<close>

text \<open>\<open>wdir\<close> and \<open>maknode\<close> of \<open>ken/iget.c\<close>.\<close>

definition wdir :: "nat \<Rightarrow> kst \<Rightarrow> unit kres" where
  "wdir ip s =
     (let s = set_u (\<lambda>w. w\<lparr>u_ino := i_number (inodes s ip), u_name := u_dbuf w,
                           u_count := of_nat DIRSIZ + 2, u_segflg := 1, u_base := Kdent 0\<rparr>) s
      in andthen (writei (u_pdir (usr s)) s) (\<lambda>_ s. iput (u_pdir (usr s)) s))"

definition maknode :: "u16 \<Rightarrow> kst \<Rightarrow> nat option kres" where
  "maknode mode s =
     andthen (ialloc (i_dev (inodes s (u_pdir (usr s)))) s) (\<lambda>r s.
     case r of
       None \<Rightarrow> Ret None s
     | Some ip \<Rightarrow>
         (let s = set_ino ip (\<lambda>q. q\<lparr>i_flag := i_flag q OR (IACC OR IUPD), i_mode := mode OR IALLOC,
                    i_nlink := 1, i_uid := u_uid (usr s), i_gid := u_gid (usr s)\<rparr>) s
          in andthen (wdir ip s) (\<lambda>_. Ret (Some ip))))"

end
