(* ===== verification/Fio.thy ===== *)
theory Fio
  imports Rdwri
begin

text \<open>
  Descriptors, open files and permissions (\<open>ken/fio.c\<close>, \<open>dup\<close> of \<open>ken/sys3.c\<close>).
  A descriptor \<open>u_ofile[i]\<close> is null or the index of an open file, whose \<open>f_count\<close> counts the
  descriptors of all processes that refer to it.
\<close>

section \<open>Descriptors\<close>

definition getf :: "u16 \<Rightarrow> kst \<Rightarrow> nat option \<times> kst" where
  "getf f s =
     (if sint f < 0 \<or> sint f \<ge> int NOFILE then (None, set_error EBADF s)
      else
        (case u_ofile (usr s) (unat f) of
           Some fp \<Rightarrow> (Some fp, s)
         | None \<Rightarrow> (None, set_error EBADF s)))"

definition ufalloc :: "kst \<Rightarrow> nat option \<times> kst" where
  "ufalloc s =
     (case find (\<lambda>i. u_ofile (usr s) i = None) [0..<NOFILE] of
        Some i \<Rightarrow> (Some i, set_ar0 0 (of_nat i) s)
      | None \<Rightarrow> (None, set_error EMFILE s))"

definition falloc :: "kst \<Rightarrow> nat option \<times> kst" where
  "falloc s =
     (case ufalloc s of
        (None, s) \<Rightarrow> (None, s)
      | (Some i, s) \<Rightarrow>
          (case find (\<lambda>fp. f_count (files s fp) = 0) [0..<NFILE] of
             Some fp \<Rightarrow>
               (Some fp, set_file fp (\<lambda>f. f\<lparr>f_count := f_count f + 1, f_offset := (0, 0)\<rparr>)
                  (set_u (\<lambda>w. w\<lparr>u_ofile := (u_ofile w)(i := Some fp)\<rparr>) s))
           | None \<Rightarrow> (None, set_error ENFILE (put_console (printf ''no file\<newline>'' []) s))))"

definition dup :: "kst \<Rightarrow> kst" where
  "dup s =
     (case getf (u_ar0 (usr s) 0) s of
        (None, s) \<Rightarrow> s
      | (Some fp, s) \<Rightarrow>
          (case ufalloc s of
             (None, s) \<Rightarrow> s
           | (Some i, s) \<Rightarrow>
               set_file fp (\<lambda>f. f\<lparr>f_count := f_count f + 1\<rparr>)
                 (set_u (\<lambda>w. w\<lparr>u_ofile := (u_ofile w)(i := Some fp)\<rparr>) s)))"

section \<open>Opening and closing\<close>

definition closei :: "nat \<Rightarrow> u8 \<Rightarrow> kst \<Rightarrow> unit kres" where
  "closei ip rw s =
     (let dev = i_addr (inodes s ip) 0; maj = major dev
      in andthen
           (if sint (i_count (inodes s ip)) \<le> 1 \<and> is_chr ip s then
              (if maj = 0 then klclose dev s
               else if maj = 1 \<or> maj = 2 then Ret () s
               else Stop (Panic ''cdevsw'' s))
            else Ret () s)
           (\<lambda>_. iput ip))"

definition closef :: "nat \<Rightarrow> kst \<Rightarrow> unit kres" where
  "closef fp s =
     (let s = (if has (f_flag (files s fp)) FPIPE then
                 (let ip = f_inode (files s fp);
                      s = set_ino ip (\<lambda>q. q\<lparr>i_mode := clr (i_mode q) (IREAD OR IWRITE)\<rparr>) s
                  in wakeup (ChInode (ip + 2)) (wakeup (ChInode (ip + 1)) s))
               else s)
      in andthen
           (if sint (f_count (files s fp)) \<le> 1
            then closei (f_inode (files s fp)) (f_flag (files s fp) AND FWRITE) s
            else Ret () s)
           (\<lambda>_ s. Ret () (set_file fp (\<lambda>f. f\<lparr>f_count := f_count f - 1\<rparr>) s)))"

text \<open>\<open>d_open\<close> of the disk and of the memory devices is \<open>nulldev\<close>.\<close>

definition openi :: "nat \<Rightarrow> u8 \<Rightarrow> kst \<Rightarrow> kst" where
  "openi ip rw s =
     (let dev = i_addr (inodes s ip) 0; maj = major dev
      in if is_chr ip s then
           (if sle16 nchrdev maj then set_error ENXIO s
            else if maj = 0 then klopen dev s else s)
         else if is_blk ip s then
           (if sle16 nblkdev maj then set_error ENXIO s else s)
         else s)"

section \<open>Permissions\<close>

definition suser :: "kst \<Rightarrow> bool \<times> kst" where
  "suser s = (if u_uid (usr s) = 0 then (True, s) else (False, set_error EPERM s))"

text \<open>The result is true when access is refused.\<close>

definition access :: "nat \<Rightarrow> u16 \<Rightarrow> kst \<Rightarrow> bool kres" where
  "access ip m s =
     andthen
       (if m = IWRITE then
          andthen (getfs (i_dev (inodes s ip)) s) (\<lambda>fb s.
            if s_ronly (sb s fb) \<noteq> 0 then Ret True (set_error EROFS s)
            else if has (i_flag (inodes s ip)) ITEXT then Ret True (set_error ETXTBSY s)
            else Ret False s)
        else Ret False s)
       (\<lambda>no s.
          if no then Ret True s
          else if u_uid (usr s) = 0 then
            (if m = IEXEC \<and> \<not> has (i_mode (inodes s ip))
                               (IEXEC OR (drop_bit 3 IEXEC OR drop_bit 6 IEXEC))
             then Ret True (set_error EACCES s) else Ret False s)
          else
            (let q = inodes s ip;
                 m = (if u_uid (usr s) \<noteq> i_uid q
                      then (if u_gid (usr s) \<noteq> i_gid q then drop_bit 6 m else drop_bit 3 m)
                      else m)
             in if has (i_mode q) m then Ret False s else Ret True (set_error EACCES s)))"

end
