(* ===== verification/Nami.thy ===== *)
theory Nami
  imports Fio
begin

text \<open>
  Path names (\<open>ken/nami.c\<close>, \<open>owner\<close> of \<open>ken/fio.c\<close>).  \<open>namei\<close> takes the function that fetches
  the next character of the name, as in the source, and the purpose: 0 to look up, 1 to create,
  2 to delete.  The character loops are bounded by the size of an address space: a name that
  goes round it without ending would keep the source's loops running for ever.
\<close>

type_synonym getchr = "kst \<Rightarrow> u16 \<times> kst"

abbreviation (input) SLASH :: u16 where "SLASH \<equiv> 47"
abbreviation (input) NAMEMAX :: nat where "NAMEMAX \<equiv> 65536"

definition uchar :: getchr where
  "uchar s = (fubyte (u_dirp (usr s)) s, set_u (\<lambda>w. w\<lparr>u_dirp := u_dirp w + 1\<rparr>) s)"

text \<open>\<open>schar\<close> reads the kernel's string.\<close>

definition schar :: getchr where
  "schar s = (ucast (memory s (lin (core_cs s) (u_dirp (usr s)))),
              set_u (\<lambda>w. w\<lparr>u_dirp := u_dirp w + 1\<rparr>) s)"

fun skip_slashes :: "nat \<Rightarrow> getchr \<Rightarrow> u16 \<Rightarrow> kst \<Rightarrow> u16 kres" where
  "skip_slashes 0 f c s = Stop (Spinning s)"
| "skip_slashes (Suc n) f c s =
     (if c = SLASH then (case f s of (c, s) \<Rightarrow> skip_slashes n f c s) else Ret c s)"

text \<open>One component into \<open>u_dbuf\<close>: \<open>nm\<close> is what is there so far, at most \<open>DIRSIZ\<close> characters.\<close>

fun gather :: "nat \<Rightarrow> getchr \<Rightarrow> u8 list \<Rightarrow> u16 \<Rightarrow> kst \<Rightarrow> u16 kres" where
  "gather 0 f nm c s = Stop (Spinning s)"
| "gather (Suc n) f nm c s =
     (if c \<noteq> SLASH \<and> c \<noteq> 0 \<and> u_error (usr s) = 0 then
        (let nm = (if length nm < DIRSIZ then nm @ [i2c c] else nm)
         in case f s of (c, s) \<Rightarrow> gather n f nm c s)
      else Ret c (set_u (\<lambda>w. w\<lparr>u_dbuf := nm @ replicate (DIRSIZ - length nm) 0\<rparr>) s))"

section \<open>Searching a directory\<close>

text \<open>The entry at the offset \<open>u_offset[1] & 0777\<close> of a directory block, into \<open>u_dent\<close>.\<close>

definition take_dent :: "nat \<Rightarrow> kst \<Rightarrow> kst" where
  "take_dent bp s =
     (let k = unat (snd (u_offset (usr s)) AND 0x1ff); d = b_data (bufs s bp)
      in set_u (\<lambda>w. w\<lparr>u_ino := mk16 (get_byte d (k + 1)) (get_byte d k),
                       u_name := map (\<lambda>i. get_byte d (k + 2 + i)) [0..<DIRSIZ]\<rparr>) s)"

datatype look = Match nat | Missing nat

text \<open>
  The loop \<open>eloop\<close>: \<open>n\<close> is \<open>u_count\<close>, the entries left, \<open>bp\<close> the current block or null and \<open>eo\<close>
  the offset after the first empty slot, or 0.  A match gives the block, a failed search the last
  block, both still held.
\<close>

fun search_dir :: "nat \<Rightarrow> nat \<Rightarrow> nat \<Rightarrow> u16 \<Rightarrow> kst \<Rightarrow> (look \<times> u16) kres" where
  "search_dir dp 0 bp eo s = Ret (Missing bp, eo) s"
| "search_dir dp (Suc n) bp eo s =
     andthen
       (if snd (u_offset (usr s)) AND 0x1ff = 0 then
          (let s = (if bp \<noteq> BNULL then brelse bp s else s)
           in andthen (bmap dp (ldiv (snd (u_offset (usr s))) 512) s) (\<lambda>bn s.
                bread (i_dev (inodes s dp)) bn s))
        else Ret bp s)
       (\<lambda>bp s.
         let s = take_dent bp s;
             s = set_u (\<lambda>w. w\<lparr>u_offset := (fst (u_offset w), snd (u_offset w) + (of_nat DIRSIZ + 2)),
                              u_count := u_count w - 1\<rparr>) s
         in if u_ino (usr s) = 0 then
              search_dir dp n bp (if eo = 0 then snd (u_offset (usr s)) else eo) s
            else if u_dbuf (usr s) \<noteq> u_name (usr s) then search_dir dp n bp eo s
            else Ret (Match bp, eo) s)"

section \<open>The walk\<close>

definition namei_out :: "nat \<Rightarrow> kst \<Rightarrow> nat option kres" where
  "namei_out dp s = andthen (iput dp s) (\<lambda>_. Ret None)"

text \<open>The end of a search that failed.\<close>

definition namei_missing :: "nat \<Rightarrow> u16 \<Rightarrow> u16 \<Rightarrow> u16 \<Rightarrow> kst \<Rightarrow> nat option kres" where
  "namei_missing dp flag c eo s =
     (if flag = 1 \<and> c = 0 then
        andthen (access dp IWRITE s) (\<lambda>no s.
          if no then namei_out dp s
          else
            (let s = set_u (\<lambda>w. w\<lparr>u_pdir := dp\<rparr>) s
             in Ret None
                  (if eo \<noteq> 0
                   then set_u (\<lambda>w. w\<lparr>u_offset := (fst (u_offset w), eo - of_nat DIRSIZ - 2)\<rparr>) s
                   else set_ino dp (\<lambda>q. q\<lparr>i_flag := i_flag q OR IUPD\<rparr>) s)))
      else namei_out dp (set_error ENOENT s))"

definition setup_search :: "nat \<Rightarrow> kst \<Rightarrow> kst" where
  "setup_search dp s =
     set_u (\<lambda>w. w\<lparr>u_offset := (0, 0), u_segflg := 1,
                  u_count := ldiv (i_size1 (inodes s dp)) (of_nat DIRSIZ + 2)\<rparr>) s"

text \<open>One component of the path, from the loop label \<open>cloop\<close> on: \<open>dp\<close> is the directory.\<close>

fun cloop :: "nat \<Rightarrow> getchr \<Rightarrow> u16 \<Rightarrow> nat \<Rightarrow> u16 \<Rightarrow> kst \<Rightarrow> nat option kres" where
  "cloop 0 f flag dp c s = Stop (Spinning s)"
| "cloop (Suc n) f flag dp c s =
     (if u_error (usr s) \<noteq> 0 then namei_out dp s
      else if c = 0 then Ret (Some dp) s
      else if i_mode (inodes s dp) AND IFMT \<noteq> IFDIR then namei_out dp (set_error ENOTDIR s)
      else
        andthen (access dp IEXEC s) (\<lambda>no s.
        if no then namei_out dp s
        else
          andthen (gather NAMEMAX f [] c s) (\<lambda>c s.
          andthen (skip_slashes NAMEMAX f c s) (\<lambda>c s.
          if u_error (usr s) \<noteq> 0 then namei_out dp s
          else
            (let s = setup_search dp s
             in andthen (search_dir dp (unat (u_count (usr s))) BNULL 0 s) (\<lambda>r s.
                case r of
                  (Missing bp, eo) \<Rightarrow>
                    namei_missing dp flag c eo (if bp \<noteq> BNULL then brelse bp s else s)
                | (Match bp, eo) \<Rightarrow>
                    (let s = (if bp \<noteq> BNULL then brelse bp s else s)
                     in if flag = 2 \<and> c = 0 then
                          andthen (access dp IWRITE s) (\<lambda>no s.
                            if no then namei_out dp s else Ret (Some dp) s)
                        else
                          (let d = i_dev (inodes s dp)
                           in andthen (iput dp s) (\<lambda>_ s.
                              andthen (iget d (u_ino (usr s)) s) (\<lambda>r s.
                              case r of
                                None \<Rightarrow> Ret None s
                              | Some dp \<Rightarrow> cloop n f flag dp c s)))))))))) "

definition namei :: "getchr \<Rightarrow> u16 \<Rightarrow> kst \<Rightarrow> nat option kres" where
  "namei f flag s =
     (case f s of (c, s) \<Rightarrow>
        (let dp = (if c = SLASH then rootdir s else u_cdir (usr s))
         in andthen (iget (i_dev (inodes s dp)) (i_number (inodes s dp)) s) (\<lambda>_ s.
            andthen (skip_slashes NAMEMAX f c s) (\<lambda>c s.
              if c = 0 \<and> flag \<noteq> 0 then namei_out dp (set_error ENOENT s)
              else cloop NAMEMAX f flag dp c s))))"

definition owner :: "kst \<Rightarrow> nat option kres" where
  "owner s =
     andthen (namei uchar 0 s) (\<lambda>r s.
     case r of
       None \<Rightarrow> Ret None s
     | Some ip \<Rightarrow>
         if u_uid (usr s) = i_uid (inodes s ip) then Ret (Some ip) s
         else
           (case suser s of
              (True, s) \<Rightarrow> Ret (Some ip) s
            | (False, s) \<Rightarrow> andthen (iput ip s) (\<lambda>_. Ret None)))"

end
