(* ===== verification/Pipe.thy ===== *)
theory Pipe
  imports Nami
begin

text \<open>
  Pipes (\<open>ken/pipe.c\<close>).  A pipe is an inode with two open files; the reader's offset and
  \<open>i_size1\<close>, where the writer is, both go back to 0 when the reader has caught up.  \<open>IREAD\<close> and
  \<open>IWRITE\<close> in \<open>i_mode\<close> say that a reader or a writer waits.
\<close>

abbreviation (input) PIPSIZ :: u16 where "PIPSIZ \<equiv> 4096"

definition pipe :: "kst \<Rightarrow> unit kres" where
  "pipe s =
     andthen (ialloc rootdev s) (\<lambda>r s.
     case r of
       None \<Rightarrow> Ret () s
     | Some ip \<Rightarrow>
         (case falloc s of
            (None, s) \<Rightarrow> iput ip s
          | (Some rfile, s) \<Rightarrow>
              (let r = u_ar0 (usr s) 0
               in case falloc s of
                    (None, s) \<Rightarrow>
                      iput ip (set_u (\<lambda>w. w\<lparr>u_ofile := (u_ofile w)(unat r := None)\<rparr>)
                        (set_file rfile (\<lambda>f. f\<lparr>f_count := 0\<rparr>) s))
                  | (Some wfile, s) \<Rightarrow>
                      (let s = set_ar0 1 (u_ar0 (usr s) 0) s;
                           s = set_ar0 0 r s;
                           s = set_file wfile (\<lambda>f. f\<lparr>f_flag := FWRITE OR FPIPE, f_inode := ip\<rparr>) s;
                           s = set_file rfile (\<lambda>f. f\<lparr>f_flag := FREAD OR FPIPE, f_inode := ip\<rparr>) s
                       in Ret () (set_ino ip (\<lambda>q. q\<lparr>i_count := 2, i_flag := IACC OR IUPD,
                                                    i_mode := IALLOC\<rparr>) s)))))"

text \<open>The reader has caught up: start again from 0 and wake a waiting writer.\<close>

definition pipe_reset :: "nat \<Rightarrow> nat \<Rightarrow> kst \<Rightarrow> kst" where
  "pipe_reset rp ip s =
     (if snd (f_offset (files s rp)) \<noteq> 0 then
        (let s = set_file rp (\<lambda>f. f\<lparr>f_offset := (fst (f_offset f), 0)\<rparr>) s;
             s = set_ino ip (\<lambda>q. q\<lparr>i_size1 := 0\<rparr>) s
         in if has (i_mode (inodes s ip)) IWRITE then
              wakeup (ChInode (ip + 1)) (set_ino ip (\<lambda>q. q\<lparr>i_mode := clr (i_mode q) IWRITE\<rparr>) s)
            else s)
      else s)"

fun readp_loop :: "nat \<Rightarrow> nat \<Rightarrow> kst \<Rightarrow> unit kres" where
  "readp_loop 0 rp s = Stop (Spinning s)"
| "readp_loop (Suc n) rp s =
     (let ip = f_inode (files s rp)
      in andthen (plock ip s) (\<lambda>_ s.
         if snd (f_offset (files s rp)) = i_size1 (inodes s ip) then
           (let s = prele ip (pipe_reset rp ip s)
            in if sint (i_count (inodes s ip)) < 2 then Ret () s
               else andthen (sleep (ChInode (ip + 2)) PPIPE
                               (set_ino ip (\<lambda>q. q\<lparr>i_mode := i_mode q OR IREAD\<rparr>) s))
                      (\<lambda>_. readp_loop n rp))
         else
           andthen (readi ip (set_u (\<lambda>w. w\<lparr>u_offset := (0, snd (f_offset (files s rp)))\<rparr>) s)) (\<lambda>_ s.
             Ret () (prele ip
               (set_file rp (\<lambda>f. f\<lparr>f_offset := (fst (f_offset f), snd (u_offset (usr s)))\<rparr>) s)))))"

definition readp :: "nat \<Rightarrow> kst \<Rightarrow> unit kres" where
  "readp = readp_loop SPINS"

text \<open>\<open>c\<close> is what is left to write.\<close>

fun writep_loop :: "nat \<Rightarrow> nat \<Rightarrow> u16 \<Rightarrow> kst \<Rightarrow> unit kres" where
  "writep_loop 0 rp c s = Stop (Spinning s)"
| "writep_loop (Suc n) rp c s =
     (let ip = f_inode (files s rp)
      in andthen (plock ip s) (\<lambda>_ s.
         if c = 0 then Ret () (set_u (\<lambda>w. w\<lparr>u_count := 0\<rparr>) (prele ip s))
         else if sint (i_count (inodes s ip)) < 2 then
           Ret () (psignal (curproc s) SIGPIPE (set_error EPIPE (prele ip s)))
         else if i_size1 (inodes s ip) = PIPSIZ then
           andthen (sleep (ChInode (ip + 1)) PPIPE
                      (prele ip (set_ino ip (\<lambda>q. q\<lparr>i_mode := i_mode q OR IWRITE\<rparr>) s)))
             (\<lambda>_. writep_loop n rp c)
         else
           (let sz = i_size1 (inodes s ip); k = min_u c (PIPSIZ - sz);
                s = set_u (\<lambda>w. w\<lparr>u_offset := (0, sz), u_count := k\<rparr>) s
            in andthen (writei ip s) (\<lambda>_ s.
               let s = prele ip s;
                   s = (if has (i_mode (inodes s ip)) IREAD then
                          wakeup (ChInode (ip + 2))
                            (set_ino ip (\<lambda>q. q\<lparr>i_mode := clr (i_mode q) IREAD\<rparr>) s)
                        else s)
               in writep_loop n rp (c - k) s))))"

definition writep :: "nat \<Rightarrow> kst \<Rightarrow> unit kres" where
  "writep rp s = writep_loop SPINS rp (u_count (usr s)) s"

end
