(* ===== verification/Sys1.thy ===== *)
theory Sys1
  imports Pipe
begin

text \<open>
  Process creation and the end of a process: \<open>swap\<close>ping (\<open>ken/text.c\<close>, \<open>sched\<close> of
  \<open>ken/slp.c\<close>), \<open>newproc\<close> (\<open>ken/slp.c\<close>), \<open>exec\<close>, \<open>exit\<close>, \<open>wait\<close>, \<open>fork\<close>
  (\<open>ken/sys1.c\<close>) and the action on a signal, \<open>psig\<close> (\<open>ken/sig.c\<close>).
\<close>

section \<open>Swapping\<close>

definition xccdec :: "nat option \<Rightarrow> kst \<Rightarrow> kst" where
  "xccdec xp s =
     (case xp of None \<Rightarrow> s
      | Some x \<Rightarrow>
          if x_ccount (texts s x) = 0 then s
          else
            (let s = s\<lparr>texts := (texts s)(x := (texts s x)\<lparr>x_ccount := x_ccount (texts s x) - 1\<rparr>)\<rparr>
             in if x_ccount (texts s x) = 0
                then s\<lparr>coremap := mfree (coremap s) (x_size (texts s x)) (x_caddr (texts s x))\<rparr>
                else s))"

definition xfree :: "kst \<Rightarrow> unit kres" where
  "xfree s =
     (case p_textp (procs s (curproc s)) of None \<Rightarrow> Ret () s
      | Some x \<Rightarrow>
          (let s = set_proc (curproc s) (\<lambda>q. q\<lparr>p_textp := None\<rparr>) s;
               s = xccdec (Some x) s;
               s = s\<lparr>texts := (texts s)(x := (texts s x)\<lparr>x_count := x_count (texts s x) - 1\<rparr>)\<rparr>
           in case x_iptr (texts s x) of
                None \<Rightarrow> Ret () s
              | Some ip \<Rightarrow>
                  if x_count (texts s x) = 0 \<and> \<not> has (i_mode (inodes s ip)) ISVTX then
                    (let t = texts s x;
                         s = s\<lparr>texts := (texts s)(x := t\<lparr>x_iptr := None\<rparr>)\<rparr>;
                         s = s\<lparr>swapmap := mfree (swapmap s)
                                 (word_of_int (sint (x_size t + 7) sdiv 8)) (x_daddr t)\<rparr>
                     in iput ip (set_ino ip (\<lambda>q. q\<lparr>i_flag := clr (i_flag q) ITEXT\<rparr>) s))
                  else Ret () s))"

definition xswap :: "nat \<Rightarrow> bool \<Rightarrow> u16 \<Rightarrow> kst \<Rightarrow> unit kres" where
  "xswap p ff a s =
     (let os = p_size (procs s p);
          s = xccdec (p_textp (procs s p)) s;
          s = set_proc p (\<lambda>q. q\<lparr>p_flag := p_flag q OR SLOCK\<rparr>) s
      in andthen (swap a (p_addr (procs s p)) os B_WRITE s) (\<lambda>err s.
         if err \<noteq> 0 then Stop (Panic ''swap error'' s)
         else
           (let s = (if ff then s\<lparr>coremap := mfree (coremap s) os (p_addr (procs s p))\<rparr> else s);
                s = set_proc p (\<lambda>q. q\<lparr>p_addr := a, p_flag := clr (p_flag q) (SLOAD OR SLOCK),
                                      p_time := 0\<rparr>) s
            in Ret () (if runout s \<noteq> 0 then wakeup ChRunout (s\<lparr>runout := 0\<rparr>) else s))))"

text \<open>
  \<open>estabur\<close> stores the segment in the saved stack of the user block of the image and in the
  segment registers of the frame it points to; the byte offsets are those of \<open>struct user\<close>
  (\<open>u_stack[KSSIZE-1]\<close> ends it) and of \<open>struct ctx\<close>.
\<close>

definition U_STACK_TOP :: u16 where
  "U_STACK_TOP = 0xF000 + (294 + 2 * 364)"

definition estabur :: "u16 \<Rightarrow> kst \<Rightarrow> kst" where
  "estabur addr s =
     (let seg = addr * 256;
          m = poke16 seg U_STACK_TOP seg (memory s);
          sp = peek16 m seg (U_STACK_TOP - 2);
          m = poke16 seg (sp + 20) seg m;
          m = poke16 seg sp seg m;
          m = poke16 seg (sp + 2) seg m
      in s\<lparr>memory := m\<rparr>)"

text \<open>
  One turn of the loop of \<open>sched\<close>: what the swapper decides.  It sleeps on \<open>runout\<close> when nobody
  wants in, brings in the process out longest if there is core, and else puts out an idle
  process, or, if the one outside has waited 3 seconds, the oldest one in core that has been
  there for 2; otherwise it sleeps on \<open>runin\<close>.
\<close>

definition swap_out :: "nat \<Rightarrow> kst \<Rightarrow> unit kres" where
  "swap_out p s =
     (case malloc (swapmap s) (p_size (procs s p) * 8) of
        (a, m) \<Rightarrow>
          if a = 0 then sleep ChRunin PSWP (s\<lparr>swapmap := m, runin := runin s + 1\<rparr>)
          else xswap p True a
                 (set_proc p (\<lambda>q. q\<lparr>p_flag := clr (p_flag q) SLOAD\<rparr>) (s\<lparr>swapmap := m\<rparr>)))"

definition swap_in :: "nat \<Rightarrow> u16 \<Rightarrow> kst \<Rightarrow> unit kres" where
  "swap_in p a s =
     andthen (swap (p_addr (procs s p)) a (p_size (procs s p)) B_READ s) (\<lambda>err s.
       if err \<noteq> 0 then Stop (Panic ''swap error'' s)
       else
         (let q = procs s p;
              s = wakeup ChSwapmap (s\<lparr>swapmap := mfree (swapmap s) (p_size q * 8) (p_addr q)\<rparr>);
              s = set_proc p (\<lambda>q. q\<lparr>p_addr := a, p_flag := p_flag q OR SLOAD, p_time := 0\<rparr>) s
          in Ret () (estabur (p_addr (procs s p)) s)))"

definition sched_turn :: "kst \<Rightarrow> unit kres" where
  "sched_turn s =
     (case oldest swapped_ready s of
        (None, n) \<Rightarrow> sleep ChRunout PSWP (s\<lparr>runout := runout s + 1\<rparr>)
      | (Some p1, n) \<Rightarrow>
          (case malloc (coremap s) (p_size (procs s p1)) of
             (a, m) \<Rightarrow>
               (let s = s\<lparr>coremap := m\<rparr>
                in if a \<noteq> 0 then swap_in p1 a s
                   else
                     (case find (\<lambda>p. easy_core (procs s p)) [0..<NPROC] of
                        Some p \<Rightarrow> swap_out p s
                      | None \<Rightarrow>
                          if n < 3 then sleep ChRunin PSWP (s\<lparr>runin := runin s + 1\<rparr>)
                          else
                            (case oldest busy_core s of
                               (Some p, n) \<Rightarrow>
                                 if n < 2 then sleep ChRunin PSWP (s\<lparr>runin := runin s + 1\<rparr>)
                                 else swap_out p s
                             | (None, n) \<Rightarrow> sleep ChRunin PSWP (s\<lparr>runin := runin s + 1\<rparr>))))))"

section \<open>New processes\<close>

text \<open>
  The loop at \<open>retry\<close>: the next process number that no process has.  There are at most \<open>NPROC\<close>
  numbers in use, so \<open>NPROC + 2\<close> turns find one (one more for the step from 32767 to 0).
\<close>

fun next_pid :: "nat \<Rightarrow> kst \<Rightarrow> kst" where
  "next_pid 0 s = s"
| "next_pid (Suc n) s =
     (let s = s\<lparr>mpid := mpid s + 1\<rparr>
      in if sint (mpid s) < 0 then next_pid n (s\<lparr>mpid := 0\<rparr>)
         else if \<exists>p \<in> set [0..<NPROC]. p_pid (procs s p) = mpid s then next_pid n s
         else s)"

definition free_slot :: "kst \<Rightarrow> nat option" where
  "free_slot s = find (\<lambda>p. p_stat (procs s p) = 0) [0..<NPROC]"

definition count_files :: "nat \<Rightarrow> kst \<Rightarrow> kst" where
  "count_files i s =
     (case u_ofile (usr s) i of None \<Rightarrow> s
      | Some fp \<Rightarrow> set_file fp (\<lambda>f. f\<lparr>f_count := f_count f + 1\<rparr>) s)"

definition copy_core :: "u16 \<Rightarrow> u16 \<Rightarrow> nat \<Rightarrow> kst \<Rightarrow> kst" where
  "copy_core a1 a2 n s = fold (\<lambda>i. copyseg (a1 + of_nat i) (a2 + of_nat i)) [0..<n] s"

text \<open>\<open>while(1) { a2 = malloc(swapmap, ...); if(a2 != NULL) break; sleep(&swapmap, PSWP); }\<close>\<close>

fun wait_swap :: "nat \<Rightarrow> u16 \<Rightarrow> kst \<Rightarrow> u16 kres" where
  "wait_swap 0 sz s = Stop (Spinning s)"
| "wait_swap (Suc n) sz s =
     (case malloc (swapmap s) sz of
        (a, m) \<Rightarrow>
          if a \<noteq> 0 then Ret a (s\<lparr>swapmap := m\<rparr>)
          else andthen (sleep ChSwapmap PSWP (s\<lparr>swapmap := m\<rparr>)) (\<lambda>_. wait_swap n sz))"

text \<open>
  \<open>newproc\<close> in the parent, which is where it returns 0: the slot of the child comes back.  The
  \<open>savu\<close> calls copy the user structure to the top of the image, which is not part of the model.
\<close>

definition newproc :: "kst \<Rightarrow> nat kres" where
  "newproc s =
     (let s = next_pid (NPROC + 2) s
      in case free_slot s of
           None \<Rightarrow> Stop (Panic ''no procs'' s)
         | Some p \<Rightarrow>
             (let rip = curproc s; up = procs s rip;
                  s = set_proc p (\<lambda>q. q\<lparr>p_stat := SRUN, p_flag := SLOAD, p_uid := p_uid up,
                        p_ttyp := p_ttyp up, p_nice := p_nice up, p_textp := p_textp up,
                        p_pid := mpid s, p_ppid := p_pid up, p_time := 0\<rparr>) s;
                  s = fold count_files [0..<NOFILE] s;
                  s = set_ino (u_cdir (usr s)) (\<lambda>q. q\<lparr>i_count := i_count q + 1\<rparr>) s;
                  s = set_u (\<lambda>w. w\<lparr>u_procp := p\<rparr>) s;
                  n = p_size up; a1 = p_addr up;
                  s = set_proc p (\<lambda>q. q\<lparr>p_size := n\<rparr>) s
              in case malloc (coremap s) n of
                   (a2, m) \<Rightarrow>
                     (let s = s\<lparr>coremap := m\<rparr>
                      in andthen
                           (if a2 = 0 then
                              (let s = set_proc rip (\<lambda>q. q\<lparr>p_stat := SIDL\<rparr>) s;
                                   s = set_proc p (\<lambda>q. q\<lparr>p_addr := a1\<rparr>) s
                               in andthen (wait_swap SPINS (n * 8) s) (\<lambda>a2 s.
                                  andthen (xswap p False a2 s) (\<lambda>_ s.
                                  Ret () (set_proc rip (\<lambda>q. q\<lparr>p_stat := SRUN\<rparr>)
                                    (set_proc p (\<lambda>q. q\<lparr>p_flag := p_flag q OR SSWAP\<rparr>) s)))))
                            else
                              Ret () (estabur a2 (copy_core a1 a2 (unat n)
                                (set_proc p (\<lambda>q. q\<lparr>p_addr := a2\<rparr>) s))))
                           (\<lambda>_ s. Ret p (set_u (\<lambda>w. w\<lparr>u_procp := rip\<rparr>) s)))))"

text \<open>\<open>fork\<close> in the parent, and what \<open>fork\<close> does in the child.\<close>

definition fork :: "kst \<Rightarrow> unit kres" where
  "fork s =
     (case free_slot s of
        None \<Rightarrow> Ret () (set_error EAGAIN s)
      | Some p2 \<Rightarrow> andthen (newproc s) (\<lambda>_ s. Ret () (set_ar0 0 (p_pid (procs s p2)) s)))"

definition fork_child :: "nat \<Rightarrow> kst \<Rightarrow> kst" where
  "fork_child p1 s =
     set_u (\<lambda>w. w\<lparr>u_ar0 := (u_ar0 w)(0 := 0, 1 := p_pid (procs s p1)), u_cstime := (0, 0),
                  u_stime := 0, u_cutime := (0, 0), u_utime := 0\<rparr>) s"

section \<open>exec\<close>

text \<open>
  Collecting the arguments: a string into the buffer \<open>bp\<close> at \<open>nc\<close>; \<open>fubyte\<close> never fails here.
  The result is the new \<open>nc\<close>, or none when the strings are too long.
\<close>

fun exec_string :: "nat \<Rightarrow> nat \<Rightarrow> u16 \<Rightarrow> nat \<Rightarrow> kst \<Rightarrow> nat option \<times> kst" where
  "exec_string 0 bp ap nc s = (None, s)"
| "exec_string (Suc n) bp ap nc s =
     (let c = fubyte ap s;
          s = set_buf bp (\<lambda>b. b\<lparr>b_data := put_byte nc (i2c c) (b_data b)\<rparr>) s
      in if nc + 1 > 510 then (None, set_error E2BIG s)
         else if c = 0 then (Some (nc + 1), s)
         else exec_string n bp (ap + 1) (nc + 1) s)"

text \<open>Each argument is at least one byte of the 510, so 511 turns are enough.\<close>

fun exec_args :: "nat \<Rightarrow> nat \<Rightarrow> u16 \<Rightarrow> nat \<Rightarrow> kst \<Rightarrow> (u16 \<times> nat) option \<times> kst" where
  "exec_args 0 bp na nc s = (None, s)"
| "exec_args (Suc n) bp na nc s =
     (let ap = fuword (u_arg (usr s) 1) s
      in if ap = 0 then (Some (na, nc), s)
         else if ap = -1 then (None, s)
         else
           (let s = set_arg 1 (u_arg (usr s) 1 + 2) s
            in case exec_string 511 bp ap nc s of
                 (None, s) \<Rightarrow> (None, s)
               | (Some nc, s) \<Rightarrow> exec_args n bp (na + 1) nc s))"

text \<open>Copying a string of the buffer, from byte \<open>k\<close>, to the new stack at \<open>c\<close>.\<close>

fun exec_copy :: "nat \<Rightarrow> nat \<Rightarrow> nat \<Rightarrow> u16 \<Rightarrow> kst \<Rightarrow> nat \<times> u16 \<times> kst" where
  "exec_copy 0 bp k c s = (k, c, s)"
| "exec_copy (Suc n) bp k c s =
     (let x = get_byte (b_data (bufs s bp)) k;
          s = subyte c x s
      in if x = 0 then (k + 1, c + 1, s) else exec_copy n bp (k + 1) (c + 1) s)"

fun exec_vector :: "nat \<Rightarrow> nat \<Rightarrow> nat \<Rightarrow> u16 \<Rightarrow> u16 \<Rightarrow> kst \<Rightarrow> u16 \<times> kst" where
  "exec_vector 0 bp k c ap s = (ap, s)"
| "exec_vector (Suc na) bp k c ap s =
     (case exec_copy 512 bp k c (suword ap c s) of
        (k, c, s) \<Rightarrow> exec_vector na bp k c (ap + 2) s)"

text \<open>The stack of the new program below \<open>USTACK-4\<close>, and the frame that starts it at 0x100.\<close>

definition exec_stack :: "nat \<Rightarrow> u16 \<Rightarrow> nat \<Rightarrow> kst \<Rightarrow> kst" where
  "exec_stack bp na nc s =
     (let top = 0xF000 - 4 :: u16;
          ap = top - of_nat nc - na * 2 - 6;
          s = suword top ap s;
          ts = ap - 24;
          s = suword (ap + 2) (ap + 4) (suword ap na s)
      in case exec_vector (unat na) bp 0 (top - of_nat nc) (ap + 4) s of
           (ap, s) \<Rightarrow>
             (let s = suword ap 0 s;
                  ds = user_seg s;
                  s = suword (ts + 2) ds (suword ts ds s);
                  s = suword (ts + 18) 0x100 s;
                  s = suword (ts + 20) ds s;
                  s = suword (ts + 22) 0x200 s
              in set_u (\<lambda>w. w\<lparr>u_sp := ts\<rparr>) s))"

definition exec_ids :: "nat \<Rightarrow> kst \<Rightarrow> kst" where
  "exec_ids ip s =
     (if has (p_flag (procs s (curproc s))) STRC then s
      else
        (let q = inodes s ip;
             s = (if has (i_mode q) ISUID \<and> u_uid (usr s) \<noteq> 0
                  then set_proc (curproc s) (\<lambda>r. r\<lparr>p_uid := i_uid q\<rparr>)
                         (set_u (\<lambda>w. w\<lparr>u_uid := i_uid q\<rparr>) s)
                  else s)
         in if has (i_mode q) ISGID then set_u (\<lambda>w. w\<lparr>u_gid := i_gid q\<rparr>) s else s))"

text \<open>Caught signals go back to the default, ignored ones stay ignored.\<close>

definition exec_signals :: "kst \<Rightarrow> kst" where
  "exec_signals =
     set_u (\<lambda>w. w\<lparr>u_signal := (\<lambda>i. if i < NSIG \<and> u_signal w i \<noteq> 1 then 0 else u_signal w i)\<rparr>)"

definition exec_load :: "nat \<Rightarrow> nat \<Rightarrow> u16 \<Rightarrow> nat \<Rightarrow> kst \<Rightarrow> unit kres" where
  "exec_load ip bp na nc s =
     (let s = set_u (\<lambda>w. w\<lparr>u_base := Karg 0, u_count := 8, u_offset := (0, 0), u_segflg := 1\<rparr>) s
      in andthen (readi ip s) (\<lambda>_ s.
         let s = set_u (\<lambda>w. w\<lparr>u_segflg := 0\<rparr>) s
         in if u_error (usr s) \<noteq> 0 then Ret () s
            else if u_arg (usr s) 1 \<noteq> 0x6146 \<or> u_arg (usr s) 2 \<noteq> 0x676e then
              Ret () (set_error ENOEXEC s)
            else
              (let s = fold (\<lambda>c. clearseg (p_addr (procs s (curproc s)) + of_nat c))
                         [0..<unat USIZE] s;
                   s = set_u (\<lambda>w. w\<lparr>u_base := Umem 0x100, u_offset := (fst (u_offset w), 0),
                                    u_count := i_size1 (inodes s ip), u_segflg := 0\<rparr>) s
               in andthen (readi ip s) (\<lambda>_ s.
                    Ret () (exec_signals (exec_ids ip (exec_stack bp na nc s)))))))"

fun wait_exec :: "nat \<Rightarrow> kst \<Rightarrow> unit kres" where
  "wait_exec 0 s = Stop (Spinning s)"
| "wait_exec (Suc n) s =
     (if sle16 NEXEC (execnt s) then andthen (sleep ChExecnt (-1) s) (\<lambda>_. wait_exec n)
      else Ret () s)"

definition exec :: "kst \<Rightarrow> unit kres" where
  "exec s =
     andthen (namei uchar 0 s) (\<lambda>r s.
     case r of
       None \<Rightarrow> Ret () s
     | Some ip \<Rightarrow>
         andthen (wait_exec SPINS s) (\<lambda>_ s.
         andthen (getblk NODEV 0 (s\<lparr>execnt := execnt s + 1\<rparr>)) (\<lambda>bp s.
         andthen (access ip IEXEC s) (\<lambda>no s.
         andthen
           (if no \<or> i_mode (inodes s ip) AND IFMT \<noteq> 0 then Ret () s
            else
              (case exec_args 512 bp 0 0 s of
                 (None, s) \<Rightarrow> Ret () s
               | (Some (na, nc), s) \<Rightarrow>
                   if odd nc
                   then exec_load ip bp na (nc + 1)
                          (set_buf bp (\<lambda>b. b\<lparr>b_data := put_byte nc 0 (b_data b)\<rparr>) s)
                   else exec_load ip bp na nc s))
           (\<lambda>_ s. andthen (iput ip s) (\<lambda>_ s.
             let s = brelse bp s;
                 s = (if sle16 NEXEC (execnt s) then wakeup ChExecnt s else s)
             in Ret () (s\<lparr>execnt := execnt s - 1\<rparr>)))))))"

section \<open>exit and wait\<close>

text \<open>
  The words of the user structure that the parent reads from the block \<open>exit\<close> writes: \<open>u_arg[0]\<close>,
  the times.  The words of the rest, mostly addresses, are the argument \<open>rest\<close>.
\<close>

definition u_image :: "block \<Rightarrow> user \<Rightarrow> block" where
  "u_image rest w =
     rest(55 := u_arg w 0, 108 := u_utime w, 109 := u_stime w,
          110 := fst (u_cutime w), 111 := snd (u_cutime w),
          112 := fst (u_cstime w), 113 := snd (u_cstime w))"

definition close_slot :: "nat \<Rightarrow> kst \<Rightarrow> unit kres" where
  "close_slot i s =
     (case u_ofile (usr s) i of None \<Rightarrow> Ret () s
      | Some fp \<Rightarrow> closef fp (set_u (\<lambda>w. w\<lparr>u_ofile := (u_ofile w)(i := None)\<rparr>) s))"

text \<open>The children of the dead process go to process 1.\<close>

definition adopt :: "u16 \<Rightarrow> nat \<Rightarrow> kst \<Rightarrow> kst" where
  "adopt pid p s =
     (if p_ppid (procs s p) = pid then
        (let s = set_proc p (\<lambda>q. q\<lparr>p_ppid := 1\<rparr>) s
         in if p_stat (procs s p) = SSTOP then setrun p s else s)
      else s)"

text \<open>
  The loop at the end of \<open>exit\<close>: find the parent, or make process 1 the parent and look again;
  without a process 1 the source loops for ever.
\<close>

fun exit_loop :: "nat \<Rightarrow> nat \<Rightarrow> kst \<Rightarrow> unit kres" where
  "exit_loop 0 q s = Stop (Spinning s)"
| "exit_loop (Suc n) q s =
     (case find (\<lambda>p. p_pid (procs s p) = p_ppid (procs s q)) [0..<NPROC] of
        Some p \<Rightarrow>
          (let s = wakeup (ChProc p) (wakeup (ChProc 1) s)
           in Stop (Gone (fold (adopt (p_pid (procs s q))) [0..<NPROC] s)))
      | None \<Rightarrow> exit_loop n q (set_proc q (\<lambda>r. r\<lparr>p_ppid := 1\<rparr>) s))"

definition exit :: "block \<Rightarrow> kst \<Rightarrow> unit kres" where
  "exit rest s =
     (let s = set_proc (curproc s) (\<lambda>q. q\<lparr>p_flag := clr (p_flag q) STRC\<rparr>) s;
          s = set_u (\<lambda>w. w\<lparr>u_signal := (\<lambda>i. if i < NSIG then 1 else u_signal w i)\<rparr>) s
      in andthen (each close_slot [0..<NOFILE] s) (\<lambda>_ s.
         andthen (iput (u_cdir (usr s)) s) (\<lambda>_ s.
         andthen (xfree s) (\<lambda>_ s.
         case malloc (swapmap s) 1 of
           (a, m) \<Rightarrow>
             if a = 0 then Stop (Panic ''out of swap'' s)
             else
               andthen (getblk swapdev a (s\<lparr>swapmap := m\<rparr>)) (\<lambda>bp s.
               let d = u_image rest (usr s)
               in andthen (bwrite bp (set_buf bp (\<lambda>b. b\<lparr>b_data := bcopy d 0 (b_data b) 0 256\<rparr>) s)) (\<lambda>_ s.
                  let q = curproc s;
                      s = s\<lparr>coremap := mfree (coremap s) (p_size (procs s q)) (p_addr (procs s q))\<rparr>;
                      s = set_proc q (\<lambda>r. r\<lparr>p_addr := a, p_stat := SZOMB\<rparr>) s
                  in exit_loop 2 q s))))))"

definition rexit :: "block \<Rightarrow> kst \<Rightarrow> unit kres" where
  "rexit rest s = exit rest (set_arg 0 (push_bit 8 (u_ar0 (usr s) 0)) s)"

text \<open>Laying the zombie \<open>p\<close> to rest.\<close>

definition reap :: "nat \<Rightarrow> kst \<Rightarrow> unit kres" where
  "reap p s =
     (let s = set_ar0 0 (p_pid (procs s p)) s;
          f = p_addr (procs s p)
      in andthen (bread swapdev f s) (\<lambda>bp s.
         let s = s\<lparr>swapmap := mfree (swapmap s) 1 f\<rparr>;
             s = set_proc p (\<lambda>q. q\<lparr>p_stat := 0, p_pid := 0, p_ppid := 0, p_sig := 0,
                   p_ttyp := None, p_flag := 0\<rparr>) s;
             d = b_data (bufs s bp);
             addt = (\<lambda>(h, l) ch cl t. dpadd (dpadd (h + ch, l) cl) t);
             s = set_u (\<lambda>w. w\<lparr>u_cstime := addt (u_cstime w) (d 112) (d 113) (d 109),
                              u_cutime := addt (u_cutime w) (d 110) (d 111) (d 108)\<rparr>) s;
             s = set_ar0 1 (d 55) s
         in Ret () (brelse bp s)))"

text \<open>
  One pass over the table: the first child that is dead or newly stopped ends it.  The result
  says whether a child ended it and whether there are children.
\<close>

fun wait_scan :: "nat list \<Rightarrow> bool \<Rightarrow> kst \<Rightarrow> (bool \<times> bool) kres" where
  "wait_scan [] f s = Ret (False, f) s"
| "wait_scan (p # ps) f s =
     (if p_ppid (procs s p) \<noteq> p_pid (procs s (curproc s)) then wait_scan ps f s
      else if p_stat (procs s p) = SZOMB then andthen (reap p s) (\<lambda>_. Ret (True, True))
      else if p_stat (procs s p) = SSTOP then
        (if \<not> has (p_flag (procs s p)) SWTED then
           (let s = set_proc p (\<lambda>q. q\<lparr>p_flag := p_flag q OR SWTED\<rparr>) s;
                s = set_ar0 0 (p_pid (procs s p)) s
            in Ret (True, True) (set_ar0 1 (push_bit 8 (c2i (p_sig (procs s p))) OR 0x7f) s))
         else
           wait_scan ps True
             (setrun p (set_proc p (\<lambda>q. q\<lparr>p_flag := clr (p_flag q) (STRC OR SWTED)\<rparr>) s)))
      else wait_scan ps True s)"

text \<open>\<open>f\<close> is not reset between the turns of the loop.\<close>

fun wait_loop :: "nat \<Rightarrow> bool \<Rightarrow> kst \<Rightarrow> unit kres" where
  "wait_loop 0 f s = Stop (Spinning s)"
| "wait_loop (Suc n) f s =
     andthen (wait_scan [0..<NPROC] f s) (\<lambda>(done, f) s.
       if done then Ret () s
       else if f then andthen (sleep (ChProc (curproc s)) PWAIT s) (\<lambda>_. wait_loop n f)
       else Ret () (set_error ECHILD s))"

definition wait :: "kst \<Rightarrow> unit kres" where
  "wait = wait_loop SPINS False"

section \<open>Acting on a signal\<close>

text \<open>
  Delivery to a handler: the interrupt frame at the user's stack pointer is duplicated 24 bytes
  below; the new one returns to the stub at 0x106 with the handler in SI, and the top words of
  the old one become the AX, the flags and the return address the stub pops.
\<close>

definition signal_frame :: "u16 \<Rightarrow> kst \<Rightarrow> kst" where
  "signal_frame handler s =
     (let s = set_u (\<lambda>w. w\<lparr>u_sp := u_sp w - 24\<rparr>) s;
          ss = u_ss (usr s); sp = u_sp (usr s);
          m = far_copy ss sp ss (sp + 24) 24 (memory s);
          m = poke16 ss (sp + 18) 0x106 m;
          m = poke16 ss (sp + 14) handler m;
          m = poke16 ss (sp + 24 + 20) (peek16 m ss (sp + 24 + 22)) m;
          m = poke16 ss (sp + 24 + 22) (peek16 m ss (sp + 24 + 18)) m;
          m = poke16 ss (sp + 24 + 18) (peek16 m ss (sp + 24 + 10)) m
      in s\<lparr>memory := m\<rparr>)"

definition core_signals :: "u16 list" where
  "core_signals = [3, 4, 5, 6, 7, 8, 10, 11, 12]"

text \<open>
  \<open>core\<close> writes a memory image to the file named core; it is an argument here, and its result
  says whether it did.
\<close>

definition psig :: "(kst \<Rightarrow> bool kres) \<Rightarrow> block \<Rightarrow> kst \<Rightarrow> unit kres" where
  "psig core rest s =
     (let n = c2i (p_sig (procs s (curproc s)));
          s = set_proc (curproc s) (\<lambda>q. q\<lparr>p_sig := 0\<rparr>) s;
          p = u_signal (usr s) (unat n)
      in if p \<noteq> 0 then
           (let s = set_error 0 s;
                s = (if n \<noteq> 4 \<and> n \<noteq> 5
                     then set_u (\<lambda>w. w\<lparr>u_signal := (u_signal w)(unat n := 0)\<rparr>) s else s)
            in Ret () (signal_frame p s))
         else
           andthen
             (if n \<in> set core_signals then
                andthen (core (set_arg 0 n s)) (\<lambda>dumped s. Ret (if dumped then n + 128 else n) s)
              else Ret n s)
             (\<lambda>n s. exit rest (set_arg 0 (push_bit 8 (u_ar0 (usr s) 0) OR n) s)))"

end
