(* ===== verification/Sys2.thy ===== *)
theory Sys2
  imports Sys1
begin

text \<open>
  The system calls on files (\<open>ken/sys2.c\<close>, \<open>ken/sys3.c\<close>, the file part of \<open>ken/sys4.c\<close>,
  \<open>stty\<close> and \<open>gtty\<close> of \<open>dmr/tty.c\<close>).  Arguments come from \<open>u_arg\<close> and the registers
  \<open>u_ar0\<close>; results go to the registers and errors to \<open>u_error\<close>.
\<close>

section \<open>read, write, seek\<close>

definition rdwr :: "u8 \<Rightarrow> kst \<Rightarrow> unit kres" where
  "rdwr m s =
     (case getf (u_ar0 (usr s) 0) s of
        (None, s) \<Rightarrow> Ret () s
      | (Some fp, s) \<Rightarrow>
          if f_flag (files s fp) AND m = 0 then Ret () (set_error EBADF s)
          else
            (let s = set_u (\<lambda>w. w\<lparr>u_base := Umem (u_arg w 0), u_count := u_arg w 1, u_segflg := 0\<rparr>) s
             in andthen
                  (if has (f_flag (files s fp)) FPIPE then
                     (if m = FREAD then readp fp s else writep fp s)
                   else
                     (let s = set_u (\<lambda>w. w\<lparr>u_offset := f_offset (files s fp)\<rparr>) s
                      in andthen (if m = FREAD then readi (f_inode (files s fp)) s
                                  else writei (f_inode (files s fp)) s) (\<lambda>_ s.
                           let n = u_arg (usr s) 1 - u_count (usr s)
                           in Ret () (set_file fp (\<lambda>f. f\<lparr>f_offset := dpadd (f_offset f) n\<rparr>) s))))
                  (\<lambda>_ s. Ret () (set_ar0 0 (u_arg (usr s) 1 - u_count (usr s)) s))))"

definition read :: "kst \<Rightarrow> unit kres" where
  "read = rdwr FREAD"

definition sys_write :: "kst \<Rightarrow> unit kres" where
  "sys_write = rdwr FWRITE"

text \<open>The new offset of \<open>seek\<close>: \<open>t\<close> is the mode, \<open>a\<close> the argument, the file's offset and size follow.\<close>

definition seek_to :: "u16 \<Rightarrow> u16 \<Rightarrow> dword \<Rightarrow> dword \<Rightarrow> dword" where
  "seek_to t a off fsz =
     (let n = (if slt16 2 t then
                 (let hi = signed_drop_bit 7 a
                  in (if t = 3 then hi AND 0x1ff else hi, push_bit 9 a))
               else (if t \<noteq> 0 \<and> slt16 a 0 then -1 else 0, a))
      in if t = 1 \<or> t = 4 then dpadd (fst n + fst off, snd n) (snd off)
         else if t = 0 \<or> t = 3 then n
         else dpadd (fst n + fst fsz, snd n) (snd fsz))"

definition seek :: "kst \<Rightarrow> kst" where
  "seek s =
     (case getf (u_ar0 (usr s) 0) s of
        (None, s) \<Rightarrow> s
      | (Some fp, s) \<Rightarrow>
          if has (f_flag (files s fp)) FPIPE then set_error ESPIPE s
          else
            (let q = inodes s (f_inode (files s fp));
                 fsz = (c2i (i_size0 q) AND 0xff, i_size1 q)
             in set_file fp (\<lambda>f. f\<lparr>f_offset :=
                  seek_to (u_arg (usr s) 1) (u_arg (usr s) 0) (f_offset f) fsz\<rparr>) s))"

section \<open>open, creat, close\<close>

definition open1_check :: "nat \<Rightarrow> u16 \<Rightarrow> kst \<Rightarrow> unit kres" where
  "open1_check ip m s =
     andthen (if has m 1 then andthen (access ip IREAD s) (\<lambda>_. Ret ()) else Ret () s) (\<lambda>_ s.
       if has m 2 then
         andthen (access ip IWRITE s) (\<lambda>_ s.
           Ret () (if i_mode (inodes s ip) AND IFMT = IFDIR then set_error EISDIR s else s))
       else Ret () s)"

definition open1 :: "nat \<Rightarrow> u16 \<Rightarrow> nat \<Rightarrow> kst \<Rightarrow> unit kres" where
  "open1 ip m trf s =
     andthen (if trf \<noteq> 2 then open1_check ip m s else Ret () s) (\<lambda>_ s.
       if u_error (usr s) \<noteq> 0 then iput ip s
       else
         andthen (if trf \<noteq> 0 then itrunc ip s else Ret () s) (\<lambda>_ s.
         case falloc (prele ip s) of
           (None, s) \<Rightarrow> iput ip s
         | (Some fp, s) \<Rightarrow>
             (let s = set_file fp (\<lambda>f. f\<lparr>f_flag := i2c m AND (FREAD OR FWRITE), f_inode := ip\<rparr>) s;
                  i = u_ar0 (usr s) 0;
                  s = openi ip (i2c m AND FWRITE) s
              in if u_error (usr s) = 0 then Ret () s
                 else iput ip (set_file fp (\<lambda>f. f\<lparr>f_count := f_count f - 1\<rparr>)
                        (set_u (\<lambda>w. w\<lparr>u_ofile := (u_ofile w)(unat i := None)\<rparr>) s)))))"

definition sys_open :: "kst \<Rightarrow> unit kres" where
  "sys_open s =
     andthen (namei uchar 0 s) (\<lambda>r s.
     case r of
       None \<Rightarrow> Ret () s
     | Some ip \<Rightarrow>
         (let s = set_arg 1 (u_arg (usr s) 1 + 1) s in open1 ip (u_arg (usr s) 1) 0 s))"

definition creat :: "kst \<Rightarrow> unit kres" where
  "creat s =
     andthen (namei uchar 1 s) (\<lambda>r s.
     case r of
       Some ip \<Rightarrow> open1 ip 2 1 s
     | None \<Rightarrow>
         if u_error (usr s) \<noteq> 0 then Ret () s
         else
           andthen (maknode (clr (u_arg (usr s) 1 AND 0xfff) ISVTX) s) (\<lambda>r s.
           case r of None \<Rightarrow> Ret () s | Some ip \<Rightarrow> open1 ip 2 2 s))"

definition close :: "kst \<Rightarrow> unit kres" where
  "close s =
     (case getf (u_ar0 (usr s) 0) s of
        (None, s) \<Rightarrow> Ret () s
      | (Some fp, s) \<Rightarrow>
          (let i = u_ar0 (usr s) 0
           in closef fp (set_u (\<lambda>w. w\<lparr>u_ofile := (u_ofile w)(unat i := None)\<rparr>) s)))"

section \<open>Directories\<close>

definition link :: "kst \<Rightarrow> unit kres" where
  "link s =
     andthen (namei uchar 0 s) (\<lambda>r s.
     case r of
       None \<Rightarrow> Ret () s
     | Some ip \<Rightarrow>
         if sint (i_nlink (inodes s ip)) \<ge> 127 then iput ip (set_error EMLINK s)
         else
           (let (ok, s) = (if i_mode (inodes s ip) AND IFMT = IFDIR then suser s else (True, s))
            in if \<not> ok then iput ip s
               else
                 (let s = set_ino ip (\<lambda>q. q\<lparr>i_flag := clr (i_flag q) ILOCK\<rparr>) s;
                      s = set_u (\<lambda>w. w\<lparr>u_dirp := u_arg w 1\<rparr>) s
                  in andthen (namei uchar 1 s) (\<lambda>xp s.
                     andthen (case xp of None \<Rightarrow> Ret () s | Some x \<Rightarrow> iput x (set_error EEXIST s)) (\<lambda>_ s.
                     if u_error (usr s) \<noteq> 0 then iput ip s
                     else if i_dev (inodes s (u_pdir (usr s))) \<noteq> i_dev (inodes s ip) then
                       andthen (iput (u_pdir (usr s)) s) (\<lambda>_ s. iput ip (set_error EXDEV s))
                     else
                       andthen (wdir ip s) (\<lambda>_ s.
                         iput ip (set_ino ip (\<lambda>q. q\<lparr>i_nlink := i_nlink q + 1,
                                                    i_flag := i_flag q OR IUPD\<rparr>) s)))))))"

definition mknod :: "kst \<Rightarrow> unit kres" where
  "mknod s =
     (case suser s of
        (False, s) \<Rightarrow> Ret () s
      | (True, s) \<Rightarrow>
          andthen (namei uchar 1 s) (\<lambda>r s.
          case r of
            Some ip \<Rightarrow> iput ip (set_error EEXIST s)
          | None \<Rightarrow>
              if u_error (usr s) \<noteq> 0 then Ret () s
              else
                andthen (maknode (u_arg (usr s) 1) s) (\<lambda>r s.
                case r of
                  None \<Rightarrow> Ret () s
                | Some ip \<Rightarrow>
                    iput ip (set_ino ip (\<lambda>q. q\<lparr>i_addr := (i_addr q)(0 := u_arg (usr s) 2)\<rparr>) s))))"

definition unlink :: "kst \<Rightarrow> unit kres" where
  "unlink s =
     andthen (namei uchar 2 s) (\<lambda>r s.
     case r of
       None \<Rightarrow> Ret () s
     | Some pp \<Rightarrow>
         (let s = prele pp s
          in andthen (iget (i_dev (inodes s pp)) (u_ino (usr s)) s) (\<lambda>r s.
             case r of
               None \<Rightarrow> Stop (Panic ''unlink -- iget'' s)
             | Some ip \<Rightarrow>
                 (let (ok, s) = (if i_mode (inodes s ip) AND IFMT = IFDIR then suser s else (True, s))
                  in andthen
                       (if \<not> ok then Ret () s
                        else
                          (let s = set_u (\<lambda>w. w\<lparr>u_offset := (fst (u_offset w), snd (u_offset w) - (of_nat DIRSIZ + 2)),
                                     u_base := Kdent 0, u_count := of_nat DIRSIZ + 2, u_ino := 0\<rparr>) s
                           in andthen (writei pp s) (\<lambda>_ s.
                                Ret () (set_ino ip (\<lambda>q. q\<lparr>i_nlink := i_nlink q - 1,
                                          i_flag := i_flag q OR IUPD\<rparr>) s))))
                       (\<lambda>_ s. andthen (iput pp s) (\<lambda>_. iput ip)))))) "

definition chdir :: "kst \<Rightarrow> unit kres" where
  "chdir s =
     andthen (namei uchar 0 s) (\<lambda>r s.
     case r of
       None \<Rightarrow> Ret () s
     | Some ip \<Rightarrow>
         if i_mode (inodes s ip) AND IFMT \<noteq> IFDIR then iput ip (set_error ENOTDIR s)
         else
           andthen (access ip IEXEC s) (\<lambda>no s.
             if no then iput ip s
             else andthen (iput (u_cdir (usr s)) s) (\<lambda>_ s.
               Ret () (prele ip (set_u (\<lambda>w. w\<lparr>u_cdir := ip\<rparr>) s)))))"

section \<open>Inode attributes\<close>

definition chmod :: "kst \<Rightarrow> unit kres" where
  "chmod s =
     andthen (owner s) (\<lambda>r s.
     case r of
       None \<Rightarrow> Ret () s
     | Some ip \<Rightarrow>
         (let s = set_ino ip (\<lambda>q. q\<lparr>i_mode := clr (i_mode q) 0xfff\<rparr>) s;
              s = (if u_uid (usr s) \<noteq> 0 then set_arg 1 (clr (u_arg (usr s) 1) ISVTX) s else s)
          in iput ip (set_ino ip (\<lambda>q. q\<lparr>i_mode := i_mode q OR (u_arg (usr s) 1 AND 0xfff),
                                        i_flag := i_flag q OR IUPD\<rparr>) s)))"

definition chown :: "kst \<Rightarrow> unit kres" where
  "chown s =
     (case suser s of
        (False, s) \<Rightarrow> Ret () s
      | (True, s) \<Rightarrow>
          andthen (owner s) (\<lambda>r s.
          case r of
            None \<Rightarrow> Ret () s
          | Some ip \<Rightarrow>
              iput ip (set_ino ip (\<lambda>q. q\<lparr>i_uid := lo8 (u_arg (usr s) 1), i_gid := hi8 (u_arg (usr s) 1),
                                         i_flag := i_flag q OR IUPD\<rparr>) s)))"

text \<open>\<open>suword\<close> of a list of words from address \<open>a\<close> on.\<close>

fun suwords :: "u16 \<Rightarrow> u16 list \<Rightarrow> kst \<Rightarrow> kst" where
  "suwords a [] s = s"
| "suwords a (w # ws) s = suwords (a + 2) ws (suword a w s)"

definition stat1 :: "nat \<Rightarrow> u16 \<Rightarrow> kst \<Rightarrow> unit kres" where
  "stat1 ip ub s =
     andthen (iupdat ip s) (\<lambda>_ s.
     andthen (bread (i_dev (inodes s ip)) (ino_block (i_number (inodes s ip))) s) (\<lambda>bp s.
       let q = inodes s ip; d = b_data (bufs s bp); k = ino_word (i_number q) + 12;
           s = suwords ub ([i_dev q, i_number q] @ map (inode_words q) [0..<12]) s;
           s = suwords (ub + 28) (map (\<lambda>i. d (k + i)) [0..<4]) s
       in Ret () (brelse bp s)))"

definition fstat :: "kst \<Rightarrow> unit kres" where
  "fstat s =
     (case getf (u_ar0 (usr s) 0) s of
        (None, s) \<Rightarrow> Ret () s
      | (Some fp, s) \<Rightarrow> stat1 (f_inode (files s fp)) (u_arg (usr s) 0) s)"

definition stat :: "kst \<Rightarrow> unit kres" where
  "stat s =
     andthen (namei uchar 0 s) (\<lambda>r s.
     case r of
       None \<Rightarrow> Ret () s
     | Some ip \<Rightarrow> andthen (stat1 ip (u_arg (usr s) 1) s) (\<lambda>_. iput ip))"

section \<open>Mounting\<close>

definition getmdev :: "kst \<Rightarrow> u16 kres" where
  "getmdev s =
     andthen (namei uchar 0 s) (\<lambda>r s.
     case r of
       None \<Rightarrow> Ret (-1) s
     | Some ip \<Rightarrow>
         (let s = (if i_mode (inodes s ip) AND IFMT \<noteq> IFBLK then set_error ENOTBLK s else s);
              d = i_addr (inodes s ip) 0;
              s = (if sle16 nblkdev (major d) then set_error ENXIO s else s)
          in andthen (iput ip s) (\<lambda>_. Ret d)))"

text \<open>
  The scan for a mount slot: none if the device is mounted or no entry is free, and else the
  first free entry.
\<close>

definition mount_slot :: "u16 \<Rightarrow> kst \<Rightarrow> nat option" where
  "mount_slot d s =
     (if \<exists>mp \<in> set [0..<NMOUNT]. m_bufp (mounts s mp) \<noteq> BNULL \<and> m_dev (mounts s mp) = d then None
      else find (\<lambda>mp. m_bufp (mounts s mp) = BNULL) [0..<NMOUNT])"

definition smount :: "kst \<Rightarrow> unit kres" where
  "smount s =
     andthen (getmdev s) (\<lambda>d s.
     if u_error (usr s) \<noteq> 0 then Ret () s
     else
       andthen (namei uchar 0 (set_u (\<lambda>w. w\<lparr>u_dirp := u_arg w 1\<rparr>) s)) (\<lambda>r s.
       case r of
         None \<Rightarrow> Ret () s
       | Some ip \<Rightarrow>
           if i_count (inodes s ip) \<noteq> 1 \<or> has (i_mode (inodes s ip)) (IFBLK AND IFCHR) then
             iput ip (set_error EBUSY s)
           else
             (case mount_slot d s of
                None \<Rightarrow> iput ip (set_error EBUSY s)
              | Some smp \<Rightarrow>
                  if u_error (usr s) \<noteq> 0 then iput ip (set_error EBUSY s)
                  else
                    andthen (bread d 1 s) (\<lambda>bp s.
                      if u_error (usr s) \<noteq> 0 then iput ip (brelse bp s)
                      else
                        (let s = s\<lparr>mounts := (mounts s)(smp := (mounts s smp)\<lparr>m_inodp := Some ip, m_dev := d\<rparr>)\<rparr>
                         in andthen (getblk NODEV 0 s) (\<lambda>cp s.
                            let s = s\<lparr>mounts := (mounts s)(smp := (mounts s smp)\<lparr>m_bufp := cp\<rparr>)\<rparr>;
                                ip' = b_data (bufs s bp);
                                s = set_buf cp (\<lambda>b. b\<lparr>b_data := bcopy ip' 0 (b_data b) 0 256\<rparr>) s;
                                s = set_sb cp (\<lambda>x. set_ronly (lo8 (u_arg (usr s) 2 AND 1))
                                                   (set_flock 0 (set_ilock 0 x))) s;
                                s = brelse bp s;
                                s = set_ino ip (\<lambda>q. q\<lparr>i_flag := i_flag q OR IMOUNT\<rparr>) s
                            in Ret () (prele ip s))))) ))"

definition sumount :: "kst \<Rightarrow> unit kres" where
  "sumount s =
     andthen (update s) (\<lambda>_ s.
     andthen (getmdev s) (\<lambda>d s.
     if u_error (usr s) \<noteq> 0 then Ret () s
     else
       (case find (\<lambda>mp. m_bufp (mounts s mp) \<noteq> BNULL \<and> m_dev (mounts s mp) = d) [0..<NMOUNT] of
          None \<Rightarrow> Ret () (set_error EINVAL s)
        | Some mp \<Rightarrow>
            if \<exists>ip \<in> set [0..<NINODE]. i_number (inodes s ip) \<noteq> 0 \<and> i_dev (inodes s ip) = d
            then Ret () (set_error EBUSY s)
            else
              (case m_inodp (mounts s mp) of
                 None \<Rightarrow> Stop (Panic ''null inode'' s)
               | Some ip \<Rightarrow>
                   andthen (iput ip (set_ino ip (\<lambda>q. q\<lparr>i_flag := clr (i_flag q) IMOUNT\<rparr>) s)) (\<lambda>_ s.
                   let bp = m_bufp (mounts s mp);
                       s = s\<lparr>mounts := (mounts s)(mp := (mounts s mp)\<lparr>m_bufp := BNULL\<rparr>)\<rparr>
                   in Ret () (brelse bp s))))))"

section \<open>Terminal state\<close>

text \<open>The common part: the file must be a character device; only the terminal answers.\<close>

definition sgtty :: "bool \<Rightarrow> kst \<Rightarrow> (u16 \<times> u16 \<times> u16) option kres" where
  "sgtty get s =
     (case getf (u_ar0 (usr s) 0) s of
        (None, s) \<Rightarrow> Ret None s
      | (Some fp, s) \<Rightarrow>
          (let ip = f_inode (files s fp)
           in if i_mode (inodes s ip) AND IFMT \<noteq> IFCHR then Ret None (set_error ENOTTY s)
              else
                (let maj = major (i_addr (inodes s ip) 0)
                 in if maj = 0 then andthen (ttystty get s) (\<lambda>v. Ret (Some v))
                    else if maj = 1 \<or> maj = 2 then Ret None s
                    else Stop (Panic ''cdevsw'' s))))"

text \<open>\<open>gtty\<close> on another device passes back the uninitialised words \<open>junk\<close> of its stack frame.\<close>

definition gtty :: "u16 \<times> u16 \<times> u16 \<Rightarrow> kst \<Rightarrow> unit kres" where
  "gtty junk s =
     andthen (sgtty True s) (\<lambda>r s.
       if u_error (usr s) \<noteq> 0 then Ret () s
       else
         (let (v0, v1, v2) = (case r of Some v \<Rightarrow> v | None \<Rightarrow> junk)
          in Ret () (suwords (u_arg (usr s) 0) [v0, v1, v2] s)))"

definition stty :: "kst \<Rightarrow> unit kres" where
  "stty s =
     (let up = u_arg (usr s) 0;
          s = set_arg 0 (fuword up s) s;
          s = set_arg 1 (fuword (up + 2) s) s;
          s = set_arg 2 (fuword (up + 4) s) s
      in andthen (sgtty False s) (\<lambda>_. Ret ()))"

end
