(* ===== verification/Sys4.thy ===== *)
theory Sys4
  imports Sys2
begin

text \<open>
  The system calls on the process and on time (\<open>ken/sys4.c\<close>, \<open>sslep\<close> of \<open>ken/sys2.c\<close>,
  \<open>sbreak\<close> of \<open>ken/sys1.c\<close>), the table of \<open>ken/sysent.c\<close>, and \<open>trap\<close> of \<open>ken/trap.c\<close>, which
  dispatches a call through it.
\<close>

section \<open>Time\<close>

definition gtime :: "kst \<Rightarrow> kst" where
  "gtime s = set_ar0 1 (snd (ktime s)) (set_ar0 0 (fst (ktime s)) s)"

definition stime :: "kst \<Rightarrow> kst" where
  "stime s =
     (case suser s of
        (False, s) \<Rightarrow> s
      | (True, s) \<Rightarrow> wakeup ChTout (s\<lparr>ktime := (u_ar0 (usr s) 0, u_ar0 (usr s) 1)\<rparr>))"

text \<open>The loop of \<open>sslep\<close> until the time \<open>d\<close>; \<open>tout\<close> is the time of the next wakeup.\<close>

fun sslep_loop :: "nat \<Rightarrow> dword \<Rightarrow> kst \<Rightarrow> unit kres" where
  "sslep_loop 0 d s = Stop (Spinning s)"
| "sslep_loop (Suc n) d s =
     (if slt16 0 (dpcmp (fst d) (snd d) (fst (ktime s)) (snd (ktime s))) then
        (let s = (if sle16 (dpcmp (fst (tout s)) (snd (tout s)) (fst (ktime s)) (snd (ktime s))) 0
                     \<or> slt16 0 (dpcmp (fst (tout s)) (snd (tout s)) (fst d) (snd d))
                  then s\<lparr>tout := d\<rparr> else s)
         in andthen (sleep ChTout PSLEP s) (\<lambda>_. sslep_loop n d))
      else Ret () s)"

definition sslep :: "kst \<Rightarrow> unit kres" where
  "sslep s = sslep_loop SPINS (dpadd (ktime s) (u_ar0 (usr s) 0)) s"

section \<open>Identity\<close>

definition setuid :: "kst \<Rightarrow> kst" where
  "setuid s =
     (let uid = lo8 (u_ar0 (usr s) 0);
          (ok, s) = (if u_ruid (usr s) = uid then (True, s) else suser s)
      in if ok then set_u (\<lambda>w. w\<lparr>u_ruid := uid\<rparr>)
                      (set_proc (curproc s) (\<lambda>q. q\<lparr>p_uid := uid\<rparr>) (set_u (\<lambda>w. w\<lparr>u_uid := uid\<rparr>) s))
         else s)"

definition getuid :: "kst \<Rightarrow> kst" where
  "getuid s = set_ar0 0 (push_bit 8 (c2i (u_uid (usr s))) OR c2i (u_ruid (usr s))) s"

definition setgid :: "kst \<Rightarrow> kst" where
  "setgid s =
     (let gid = lo8 (u_ar0 (usr s) 0);
          (ok, s) = (if u_rgid (usr s) = gid then (True, s) else suser s)
      in if ok then set_u (\<lambda>w. w\<lparr>u_gid := gid, u_rgid := gid\<rparr>) s else s)"

definition getgid :: "kst \<Rightarrow> kst" where
  "getgid s = set_ar0 0 (push_bit 8 (c2i (u_gid (usr s))) + c2i (u_rgid (usr s))) s"

definition getpid :: "kst \<Rightarrow> kst" where
  "getpid s = set_ar0 0 (p_pid (procs s (curproc s))) s"

definition nice :: "kst \<Rightarrow> kst" where
  "nice s =
     (let n = u_ar0 (usr s) 0;
          n = (if slt16 20 n then 20 else n);
          (ok, s) = (if slt16 n 0 then suser s else (True, s));
          n = (if ok then n else 0)
      in set_proc (curproc s) (\<lambda>q. q\<lparr>p_nice := i2c n\<rparr>) s)"

section \<open>Signals\<close>

definition ssig :: "kst \<Rightarrow> kst" where
  "ssig s =
     (let a = u_arg (usr s) 0
      in if sint a \<le> 0 \<or> sint a \<ge> int NSIG \<or> a = SIGKIL then set_error EINVAL s
         else
           (let s = set_ar0 0 (u_signal (usr s) (unat a)) s;
                s = set_u (\<lambda>w. w\<lparr>u_signal := (u_signal w)(unat a := u_arg w 1)\<rparr>) s
            in if c2i (p_sig (procs s (curproc s))) = a
               then set_proc (curproc s) (\<lambda>q. q\<lparr>p_sig := 0\<rparr>) s else s))"

text \<open>The tests of \<open>kill\<close>: the four \<open>continue\<close>s, for the process \<open>p\<close> and the argument \<open>a\<close>.\<close>

definition kill_hits :: "u16 \<Rightarrow> kst \<Rightarrow> nat \<Rightarrow> bool" where
  "kill_hits a s p \<longleftrightarrow>
     p \<noteq> curproc s
     \<and> \<not> (a \<noteq> 0 \<and> p_pid (procs s p) \<noteq> a)
     \<and> \<not> (a = 0 \<and> (p_ttyp (procs s p) \<noteq> p_ttyp (procs s (curproc s)) \<or> p \<le> 1))
     \<and> \<not> (u_uid (usr s) \<noteq> 0 \<and> u_uid (usr s) \<noteq> p_uid (procs s p))"

definition kill :: "kst \<Rightarrow> kst" where
  "kill s =
     (let a = u_ar0 (usr s) 0;
          (f, s) = fold (\<lambda>p (f, s). if kill_hits a s p
                       then (f + 1, psignal p (u_arg (usr s) 0) s) else (f, s))
                     [0..<NPROC] (0 :: nat, s)
      in if f = 0 then set_error ESRCH s else s)"

section \<open>Accounting\<close>

definition times :: "kst \<Rightarrow> kst" where
  "times s =
     (let w = usr s;
          s = suwords (u_arg w 0) [u_utime w, u_stime w, fst (u_cutime w), snd (u_cutime w),
                fst (u_cstime w), snd (u_cstime w)] s
      in set_arg 0 (u_arg w 0 + 12) s)"

text \<open>
  \<open>psinfo\<close>: nine words about a process and an image of its argument frame, from core or from the
  swap device.  \<open>wchan\<close> gives the address of a channel, which the linker decides.
\<close>

abbreviation (input) ARGFRAME :: u16 where "ARGFRAME \<equiv> 0xEE00"

fun psinfo_frame :: "nat \<Rightarrow> nat \<Rightarrow> u16 \<Rightarrow> kst \<Rightarrow> u16 kres" where
  "psinfo_frame 0 p sdst s = Stop (Spinning s)"
| "psinfo_frame (Suc n) p sdst s =
     (if p_stat (procs s p) = 0 then Ret 0 s
      else
        (let oaddr = p_addr (procs s p); opid = p_pid (procs s p)
         in if has (p_flag (procs s p)) SLOAD then
              Ret ARGFRAME (s\<lparr>memory :=
                far_copy (user_seg s) sdst (oaddr * 256 + drop_bit 4 ARGFRAME) 0 512 (memory s)\<rparr>)
            else
              andthen (bread swapdev (oaddr + drop_bit 9 ARGFRAME) s) (\<lambda>bp s.
                if p_pid (procs s p) \<noteq> opid \<or> has (p_flag (procs s p)) SLOAD
                   \<or> p_addr (procs s p) \<noteq> oaddr then psinfo_frame n p sdst (brelse bp s)
                else if has (b_flags (bufs s bp)) B_ERROR then Ret 0 (brelse bp s)
                else Ret ARGFRAME (brelse bp (copyout_buf bp 0 sdst 512 s)))))"

definition psinfo :: "(chan \<Rightarrow> u16) \<Rightarrow> kst \<Rightarrow> unit kres" where
  "psinfo wchan s =
     (let idx = u_ar0 (usr s) 0; udst = u_arg (usr s) 0
      in if sint idx < 0 \<or> sint idx \<ge> int NPROC then Ret () (set_error EINVAL s)
         else
           (let p = unat idx
            in andthen (psinfo_frame SPINS p (udst + 18) s) (\<lambda>stkbase s.
               let q = procs s p;
                   s = suwords udst [c2i (p_stat q), c2i (p_flag q) AND 0xff, c2i (p_pri q),
                         c2i (p_uid q) AND 0xff, p_pid q, p_ppid q, p_addr q, wchan (p_wchan q),
                         stkbase] s
               in Ret () (set_ar0 0 0 s))))"

section \<open>System call entry\<close>

definition nosys :: "kst \<Rightarrow> kst" where
  "nosys s = set_error 100 s"

text \<open>\<open>getps\<close> reads the priority level of the processor, which is not part of the model.\<close>

definition getswit :: "u16 \<Rightarrow> kst \<Rightarrow> kst" where
  "getswit ps s = set_ar0 0 ps s"

text \<open>What the machine supplies to the calls: see \<open>exit\<close>, \<open>gtty\<close>, \<open>psinfo\<close>, \<open>getswit\<close>, \<open>psig\<close>.\<close>

record machine =
  mc_rest :: block
  mc_junk :: "u16 \<times> u16 \<times> u16"
  mc_wchan :: "chan \<Rightarrow> u16"
  mc_ps :: u16
  mc_core :: "kst \<Rightarrow> bool kres"

datatype syscall =
    Nullsys | Rexit | Fork | Read | Write | Open | Close | Wait | Creat | Link | Unlink | Exec
  | Chdir | Gtime | Mknod | Chmod | Chown | Sbreak | Stat | Seek | Getpid | Smount | Sumount
  | Setuid | Getuid | Stime | Fstat | Stty | Gtty | Nice | Sslep | Sync | Kill | Getswit
  | Psinfo | Dup | Pipe | Times | Setgid | Getgid | Ssig | Nosys

text \<open>The table: the number of arguments and the routine.\<close>

definition sysent_init :: "(nat \<times> syscall) list" where
  "sysent_init =
    [(0, Nullsys), (0, Rexit), (0, Fork), (2, Read), (2, Write), (2, Open), (0, Close), (0, Wait),
     (2, Creat), (2, Link), (1, Unlink), (2, Exec), (1, Chdir), (0, Gtime), (3, Mknod), (2, Chmod),
     (2, Chown), (1, Sbreak), (2, Stat), (2, Seek), (0, Getpid), (3, Smount), (1, Sumount),
     (0, Setuid), (0, Getuid), (0, Stime), (3, Nosys), (0, Nosys), (1, Fstat), (0, Nosys),
     (1, Nullsys), (1, Stty), (1, Gtty), (0, Nosys), (0, Nice), (0, Sslep), (0, Sync), (1, Kill),
     (0, Getswit), (1, Psinfo), (0, Nosys), (0, Dup), (0, Pipe), (1, Times), (4, Nosys),
     (0, Nosys), (0, Setgid), (0, Getgid), (2, Ssig), (0, Nosys), (0, Nosys), (0, Nosys),
     (0, Nosys), (0, Nosys), (0, Nosys), (0, Nosys), (0, Nosys), (0, Nosys), (0, Nosys),
     (0, Nosys), (0, Nosys), (0, Nosys), (0, Nosys), (0, Nosys)]"

fun syscall_fun :: "machine \<Rightarrow> syscall \<Rightarrow> kst \<Rightarrow> unit kres" where
  "syscall_fun mc Nullsys s = Ret () s"
| "syscall_fun mc Rexit s = rexit (mc_rest mc) s"
| "syscall_fun mc Fork s = fork s"
| "syscall_fun mc Read s = read s"
| "syscall_fun mc Write s = sys_write s"
| "syscall_fun mc Open s = sys_open s"
| "syscall_fun mc Close s = close s"
| "syscall_fun mc Wait s = wait s"
| "syscall_fun mc Creat s = creat s"
| "syscall_fun mc Link s = link s"
| "syscall_fun mc Unlink s = unlink s"
| "syscall_fun mc Exec s = exec s"
| "syscall_fun mc Chdir s = chdir s"
| "syscall_fun mc Gtime s = Ret () (gtime s)"
| "syscall_fun mc Mknod s = mknod s"
| "syscall_fun mc Chmod s = chmod s"
| "syscall_fun mc Chown s = chown s"
| "syscall_fun mc Sbreak s = Ret () s"
| "syscall_fun mc Stat s = stat s"
| "syscall_fun mc Seek s = Ret () (seek s)"
| "syscall_fun mc Getpid s = Ret () (getpid s)"
| "syscall_fun mc Smount s = smount s"
| "syscall_fun mc Sumount s = sumount s"
| "syscall_fun mc Setuid s = Ret () (setuid s)"
| "syscall_fun mc Getuid s = Ret () (getuid s)"
| "syscall_fun mc Stime s = Ret () (stime s)"
| "syscall_fun mc Fstat s = fstat s"
| "syscall_fun mc Stty s = stty s"
| "syscall_fun mc Gtty s = gtty (mc_junk mc) s"
| "syscall_fun mc Nice s = Ret () (nice s)"
| "syscall_fun mc Sslep s = sslep s"
| "syscall_fun mc Sync s = update s"
| "syscall_fun mc Kill s = Ret () (kill s)"
| "syscall_fun mc Getswit s = Ret () (getswit (mc_ps mc) s)"
| "syscall_fun mc Psinfo s = psinfo (mc_wchan mc) s"
| "syscall_fun mc Dup s = Ret () (dup s)"
| "syscall_fun mc Pipe s = pipe s"
| "syscall_fun mc Times s = Ret () (times s)"
| "syscall_fun mc Setgid s = Ret () (setgid s)"
| "syscall_fun mc Getgid s = Ret () (getgid s)"
| "syscall_fun mc Ssig s = Ret () (ssig s)"
| "syscall_fun mc Nosys s = Ret () (nosys s)"

text \<open>\<open>trap0\<close>: the registers and the arguments of the call.\<close>

definition trap0 :: "u16 \<times> u16 \<times> u16 \<times> u16 \<Rightarrow> u16 \<times> u16 \<times> u16 \<Rightarrow> kst \<Rightarrow> kst" where
  "trap0 regs args s =
     (case regs of (ax, bx, cx, dx) \<Rightarrow> case args of (arg0, arg1, arg2) \<Rightarrow>
        set_u (\<lambda>w. w\<lparr>u_ar0 := (u_ar0 w)(0 := ax, 1 := bx, 2 := cx, 3 := dx),
                     u_arg := (u_arg w)(0 := arg0, 1 := arg1, 2 := arg2),
                     u_dirp := arg0, u_error := 0\<rparr>) s)"

text \<open>
  \<open>trap1\<close>: a signal during a slow sleep jumps back here, with \<open>u_intflg\<close> still set, which is how
  \<open>trap\<close> knows that the call was interrupted.
\<close>

definition trap1 :: "(kst \<Rightarrow> unit kres) \<Rightarrow> kst \<Rightarrow> unit kres" where
  "trap1 f s =
     (case f (set_u (\<lambda>w. w\<lparr>u_intflg := 1\<rparr>) s) of
        Ret _ s \<Rightarrow> Ret () (set_u (\<lambda>w. w\<lparr>u_intflg := 0\<rparr>) s)
      | Stop (Longjmp s) \<Rightarrow> Ret () s
      | Stop z \<Rightarrow> Stop z)"

text \<open>\<open>trap_epilogue\<close> stores the registers in the frame the user's registers are restored from.\<close>

definition trap_epilogue :: "kst \<Rightarrow> kst" where
  "trap_epilogue s =
     (let ss = u_ss (usr s); sp = u_sp (usr s); r = u_ar0 (usr s);
          m = poke16 ss (sp + 10) (r 0) (memory s);
          m = poke16 ss (sp + 8) (r 1) m;
          m = poke16 ss (sp + 6) (r 2) m;
          m = poke16 ss (sp + 4) (r 3) m
      in s\<lparr>memory := m\<rparr>)"

definition trap_call :: "machine \<Rightarrow> kst \<Rightarrow> unit kres" where
  "trap_call mc s =
     (let callp = sysent_init ! unat (u_ar0 (usr s) 3 AND 63);
          s = set_u (\<lambda>w. w\<lparr>u_dirp := u_arg w 0\<rparr>) s
      in andthen (trap1 (syscall_fun mc (snd callp)) s) (\<lambda>_ s.
         let s = (if u_intflg (usr s) \<noteq> 0 then set_error EINTR s else s);
             s = (if u_error (usr s) \<noteq> 0 then set_ar0 0 (- c2i (u_error (usr s))) s else s);
             s = set_ar0 3 (c2i (u_error (usr s))) s
         in Ret () (trap_epilogue s)))"

definition trap :: "machine \<Rightarrow> kst \<Rightarrow> unit kres" where
  "trap mc s =
     andthen (trap_call mc s) (\<lambda>_ s.
     andthen (if issig s \<noteq> 0 then psig (mc_core mc) (mc_rest mc) s else Ret () s) (\<lambda>_ s.
       Ret () (setpri (curproc s) s)))"

text \<open>
  The clock interrupt: callouts, accounting and time, and in user mode a signal and the
  priority.  A callout takes the table with it.
\<close>

definition run_callfn :: "callfn \<Rightarrow> u16 \<Rightarrow> callfn callo list \<times> kst \<Rightarrow> callfn callo list \<times> kst" where
  "run_callfn f a st =
     (case f of Ttrstrt \<Rightarrow>
        (let s = ttrstrt ((snd st)\<lparr>callout := fst st\<rparr>) in (callout s, s)))"

definition clock :: "machine \<Rightarrow> u16 \<Rightarrow> kst \<Rightarrow> unit kres" where
  "clock mc mode s =
     (case clock_callouts run_callfn (callout s, s) of
        (tab, s) \<Rightarrow>
          (case clock_time mode (s\<lparr>callout := tab\<rparr>) of
             (second, s) \<Rightarrow>
               if second \<and> mode \<noteq> 0 then
                 andthen (if issig s \<noteq> 0 then psig (mc_core mc) (mc_rest mc) s else Ret () s) (\<lambda>_ s.
                   Ret () (setpri (curproc s) s))
               else Ret () s))"

end
