(* ===== verification/Boot.thy ===== *)
theory Boot
  imports Sys4
begin

text \<open>
  Starting the system: \<open>main\<close> of \<open>ken/main.c\<close>, to be run from \<open>kernel0\<close>.  \<open>pc_init\<close> only programs
  devices and vectors; \<open>cfree\<close> is the address the linker gives the character blocks.
\<close>

text \<open>\<open>main\<close> up to the file system: the two maps, the system process, buffers and characters.\<close>

definition main_init :: "nat \<Rightarrow> kst \<Rightarrow> kst" where
  "main_init cfree s =
     (let s = s\<lparr>coremap := mfree (coremap s) 128 0x20\<rparr>;
          s = s\<lparr>swapmap := mfree (swapmap s) nswap swplo\<rparr>;
          s = set_proc 0 (\<lambda>q. q\<lparr>p_addr := word_of_int (sint (core_cs s) sdiv 256), p_size := USIZE,
                p_stat := SRUN, p_flag := p_flag q OR (SLOAD OR SSYS)\<rparr>) s;
          s = set_u (\<lambda>w. w\<lparr>u_procp := 0\<rparr>) s
      in binit (s\<lparr>pool := cinit cfree (pool s)\<rparr>))"

text \<open>An inode by \<open>iget\<close>, unlocked; \<open>iget\<close> at boot does not return null.\<close>

definition get_root :: "kst \<Rightarrow> nat kres" where
  "get_root s =
     andthen (iget rootdev ROOTINO s) (\<lambda>r s.
     case r of
       None \<Rightarrow> Stop (Panic ''null inode'' s)
     | Some ip \<Rightarrow> Ret ip (set_ino ip (\<lambda>q. q\<lparr>i_flag := clr (i_flag q) ILOCK\<rparr>) s))"

definition main_fs :: "kst \<Rightarrow> unit kres" where
  "main_fs s =
     andthen (iinit s) (\<lambda>_ s.
     andthen (get_root s) (\<lambda>ip s.
     andthen (get_root (s\<lparr>rootdir := ip\<rparr>)) (\<lambda>ip s.
       Ret () (put_console (printf (''Unix Ready.'' @ [CHR 0x0D, CHR ''\<newline>'']) [])
         (set_u (\<lambda>w. w\<lparr>u_cdir := ip\<rparr>) s)))))"

text \<open>\<open>main\<close> in process 0, up to the scheduling loop; the result is the slot of process 1.\<close>

definition main :: "nat \<Rightarrow> kst \<Rightarrow> nat kres" where
  "main cfree s = andthen (main_fs (main_init cfree s)) (\<lambda>_. newproc)"

text \<open>What process 1 does first: the bootstrap program at 0x100 of its image.\<close>

definition icode :: "u8 list" where
  "icode = [0xB8, 0x12, 0x01, 0x50, 0xB8, 0x0D, 0x01, 0x50,
            0xBA, 0x0B, 0x00, 0xCD, 0x81, 0x69, 0x6E, 0x69,
            0x74, 0x00, 0x0D, 0x01, 0x00, 0x00]"

definition copy_icode :: "kst \<Rightarrow> kst" where
  "copy_icode s = fold (\<lambda>i. subyte (0x100 + of_nat i) (icode ! i)) [0..<length icode] s"

end
