(* ===== verification/ClistQueue.thy ===== *)
theory ClistQueue
  imports Clist
begin

text \<open>
  Character lists as queues.  On the store-level facts of the theory \<open>Clist\<close> this theory builds
  the frame of \<open>getc\<close> and \<open>putc\<close> (other lists keep their characters), the contract of a
  character queue as a locale with the loops its users run, its interpretation on the code's
  \<open>putc\<close> and \<open>getc\<close>, and the initialisation of the pool by \<open>cinit\<close>.
\<close>

section \<open>Other lists are left alone\<close>

lemma chars_cong:
  "(\<And>b i. b \<in> set bs \<Longrightarrow> i < 6 \<Longrightarrow> f (info b + i) = g (info b + i)) \<Longrightarrow> chars f bs = chars g bs"
proof (induction bs)
  case (Cons b bs)
  then have "block_chars f b = block_chars g b"
    by (intro nth_equalityI) (simp_all add: nth_block_chars)
  with Cons show ?case by (simp add: chars_Cons)
qed simp

lemma list_rep_cong:
  assumes "\<And>b. b \<in> set bs \<Longrightarrow> cb_next m b = cb_next m' b"
    and "\<And>b i. b \<in> set bs \<Longrightarrow> i < 6 \<Longrightarrow> cb_byte m (info b + i) = cb_byte m' (info b + i)"
  shows "list_rep m l bs q = list_rep m' l bs q"
  using chain_cong [of bs "cb_next m" "cb_next m'"] chars_cong [of bs "cb_byte m" "cb_byte m'"] assms
  by (auto simp: list_rep_def)

lemma getc_next:
  assumes "holds (m, l) bs fs q" "b \<notin> set bs"
  shows "cb_next (fst (snd (getc (m, l)))) b = cb_next m b \<and> cb_byte (fst (snd (getc (m, l)))) = cb_byte m"
proof (cases "q = []")
  case True
  with assms have "getc (m, l) = (None, m, l)" by (auto simp: holds_def getc_empty)
  then show ?thesis by simp
next
  case False
  with assms have "list_rep m l bs q" by (simp add: holds_def)
  then obtain b0 bs' i where *: "bs = b0 # bs'" "c_cf l = info b0 + i" "i < 6" "8 dvd b0"
    by (rule list_repE [OF _ False]) auto
  then have "block_of (c_cf l) = b0" using block_of_info by simp
  with * assms(2) show ?thesis by (auto simp: getc_def Let_def)
qed

lemma getc_other:
  assumes "holds (m, l) bs fs q" "list_rep m l2 bs2 q2" "set bs2 \<inter> (set bs \<union> set fs) = {}"
  shows "list_rep (fst (snd (getc (m, l)))) l2 bs2 q2"
proof -
  have "b \<notin> set bs" if "b \<in> set bs2" for b using assms(3) that by blast
  then have "list_rep (fst (snd (getc (m, l)))) l2 bs2 q2 = list_rep m l2 bs2 q2"
    using getc_next [OF assms(1)] by (intro list_rep_cong) metis+
  with assms(2) show ?thesis by simp
qed

text \<open>\<open>putc\<close> writes one byte, in the last block of the list or the first free one.\<close>

lemma putc_writes:
  assumes "holds (m, l) bs fs q"
  shows "(\<forall>b. b \<notin> set bs \<union> set fs \<longrightarrow> cb_next (fst (snd (putc c (m, l)))) b = cb_next m b)
    \<and> (\<forall>b i. b \<notin> set bs \<union> set fs \<longrightarrow> 8 dvd b \<longrightarrow> i < 6 \<longrightarrow>
        cb_byte (fst (snd (putc c (m, l)))) (info b + i) = cb_byte m (info b + i))"
proof -
  have fr: "cfreelist m \<noteq> 0 \<Longrightarrow> cfreelist m \<in> set fs \<and> 8 dvd cfreelist m"
    using assms by (cases fs) (auto simp: holds_def pool_rep_def)
  show ?thesis
  proof (cases "q = []")
    case True
    with assms have "c_cl l = 0" by (simp add: holds_def list_rep_def)
    with fr info_inj [of _ "cfreelist m" _ 0] show ?thesis
      by (auto simp: putc_def put_char_def Let_def)
  next
    case False
    with assms have "list_rep m l bs q" by (simp add: holds_def)
    then obtain b0 bs' j where *: "bs = b0 # bs'" "c_cl l = info (last bs) + j" "j \<le> 6"
      "\<forall>b \<in> set bs. 8 dvd b"
      by (rule list_repE [OF _ False]) auto
    then have lb: "last bs \<in> set bs" "8 dvd last bs" by (metis last_in_set list.distinct(1))+
    have md: "c_cl l mod 8 = 0 \<longleftrightarrow> j = 6" using info_mod [OF lb(2)] *(2,3) by simp
    show ?thesis
    proof (cases "j = 6")
      case True
      then have "c_cl l - 8 = last bs" using *(2) by (simp add: info_def)
      with True md *(2) fr lb info_inj [of _ "cfreelist m" _ 0] show ?thesis
        by (auto simp: putc_def put_char_def Let_def)
    next
      case False
      with md *(2,3) lb info_inj [of _ "last bs" _ j] show ?thesis
        by (auto simp: putc_def put_char_def Let_def)
    qed
  qed
qed

lemma putc_other:
  assumes "holds (m, l) bs fs q" "list_rep m l2 bs2 q2" "set bs2 \<inter> (set bs \<union> set fs) = {}"
  shows "list_rep (fst (snd (putc c (m, l)))) l2 bs2 q2"
proof -
  have "\<forall>b \<in> set bs2. 8 dvd b"
    using assms(2) chain_props by (auto simp: list_rep_def split: if_splits)
  moreover have "b \<in> set bs2 \<Longrightarrow> b \<notin> set bs \<union> set fs" for b using assms(3) by blast
  ultimately show ?thesis
    using putc_writes [OF assms(1), of c] assms(2)
      list_rep_cong [of bs2 "fst (snd (putc c (m, l)))" m l2 q2] by blast
qed

section \<open>The contract of a character queue\<close>

text \<open>\<open>while (getc(p) >= 0);\<close> with a bound on the number of rounds.\<close>

fun drain :: "('s \<Rightarrow> 'a option \<times> 's) \<Rightarrow> nat \<Rightarrow> 's \<Rightarrow> 'a list \<times> 's" where
  "drain get 0 s = ([], s)"
| "drain get (Suc n) s =
     (case get s of
        (None, s') \<Rightarrow> ([], s')
      | (Some x, s') \<Rightarrow> (case drain get n s' of (xs, s'') \<Rightarrow> (x # xs, s'')))"

text \<open>Storing a list of characters, as long as there is room.\<close>

fun put_all :: "('a \<Rightarrow> 's \<Rightarrow> bool \<times> 's) \<Rightarrow> 'a list \<Rightarrow> 's \<Rightarrow> bool list \<times> 's" where
  "put_all put [] s = ([], s)"
| "put_all put (x # xs) s =
     (case put x s of (b, s') \<Rightarrow> (case put_all put xs s' of (bs, s'') \<Rightarrow> (b # bs, s'')))"

fun stored :: "'a list \<Rightarrow> bool list \<Rightarrow> 'a list" where
  "stored (x # xs) (b # bs) = (if b then x # stored xs bs else stored xs bs)"
| "stored _ _ = []"

locale char_queue =
  fixes put :: "'a \<Rightarrow> 's \<Rightarrow> bool \<times> 's"
    and get :: "'s \<Rightarrow> 'a option \<times> 's"
    and content :: "'s \<Rightarrow> 'a list \<Rightarrow> bool"
  assumes get_Nil: "content s [] \<Longrightarrow> get s = (None, s)"
    and get_Cons: "content s (x # q) \<Longrightarrow> fst (get s) = Some x \<and> content (snd (get s)) q"
    and put_snoc: "content s q \<Longrightarrow> content (snd (put c s)) (if fst (put c s) then q @ [c] else q)"
begin

lemma drain_content:
  "content s q \<Longrightarrow> length q < n \<Longrightarrow> fst (drain get n s) = q \<and> content (snd (drain get n s)) []"
proof (induction n arbitrary: s q)
  case (Suc n)
  show ?case
  proof (cases q)
    case Nil
    with Suc.prems show ?thesis by (simp add: get_Nil)
  next
    case (Cons x xs)
    with Suc.prems get_Cons [of s x xs] Suc.IH [of "snd (get s)" xs] show ?thesis
      by (cases "get s") (auto simp: split_beta)
  qed
qed simp

lemma put_all_content:
  "content s q \<Longrightarrow> content (snd (put_all put xs s)) (q @ stored xs (fst (put_all put xs s)))"
proof (induction xs arbitrary: s q)
  case (Cons x xs)
  with put_snoc [OF Cons.prems, of x] Cons.IH [of "snd (put x s)"] show ?case
    by (cases "put x s") (fastforce simp: split_beta split: if_splits)
qed simp

text \<open>What goes in comes out, in order.\<close>

lemma fifo:
  assumes "content s []" "length xs < n"
  shows "fst (drain get n (snd (put_all put xs s))) = stored xs (fst (put_all put xs s))"
proof -
  have "length (stored ys bs) \<le> length ys" for ys :: "'a list" and bs
    by (induction ys bs rule: stored.induct) auto
  with assms(2) have "length (stored xs (fst (put_all put xs s))) < n"
    using le_less_trans by blast
  with put_all_content [OF assms(1), of xs] drain_content show ?thesis by simp
qed

end

text \<open>A list head and a pool of at most \<open>NCLIST\<close> blocks that together hold \<open>q\<close>.\<close>

definition queue_of :: "cpool \<times> clist \<Rightarrow> u8 list \<Rightarrow> bool" where
  "queue_of s q \<longleftrightarrow> (\<exists>bs fs. holds s bs fs q \<and> length bs + length fs \<le> NCLIST)"

lemma holds_length: "holds s bs fs q \<Longrightarrow> length q \<le> 6 * length bs"
  by (cases "q = []") (auto simp: holds_def list_rep_def neq_Nil_conv)

lemma getc_Cons:
  assumes "holds s bs fs (x # q)"
  shows "fst (getc s) = Some x \<and> (\<exists>bs' fs'. holds (snd (getc s)) bs' fs' q
    \<and> set bs' \<union> set fs' = set bs \<union> set fs \<and> length bs' + length fs' = length bs + length fs)"
  using assms getc_last [of "fst s" "snd s" bs fs x] getc_more [of "fst s" "snd s" bs fs x q]
  by (cases "q = []") fastforce+

lemma putc_keeps:
  assumes "holds s bs fs q" "length bs + length fs \<le> NCLIST"
  shows "\<exists>bs' fs'. holds (snd (putc c s)) bs' fs' (if fst (putc c s) then q @ [c] else q)
    \<and> set bs' \<union> set fs' = set bs \<union> set fs \<and> length bs' + length fs' = length bs + length fs"
proof -
  have "length q < 65535" using holds_length [OF assms(1)] assms(2) by simp
  note p = putc_stores [of "fst s" "snd s" bs fs q c, simplified, OF assms(1) this]
  show ?thesis
  proof (cases "(q = [] \<or> c_cl (snd s) mod 8 = 0) \<and> fs = []")
    case True
    with p have "putc c s = (False, s)" by (metis prod.collapse)
    with assms show ?thesis by auto
  next
    case False
    with p have 1: "fst (putc c s)" by (auto split: if_splits)
    show ?thesis
    proof (cases "q = [] \<or> c_cl (snd s) mod 8 = 0")
      case True
      with False obtain f fs' where "fs = f # fs'" by (cases fs) auto
      with p True 1 show ?thesis by (intro exI [of _ "bs @ [f]"] exI [of _ fs']) auto
    next
      case F: False
      with p 1 show ?thesis by auto
    qed
  qed
qed

interpretation cq: char_queue putc getc queue_of
proof
  show "getc s = (None, s)" if "queue_of s []" for s
    using that getc_empty [of "fst s" "snd s"] by (auto simp: queue_of_def holds_def)
  show "fst (getc s) = Some x \<and> queue_of (snd (getc s)) q" if "queue_of s (x # q)" for s x q
  proof -
    from that obtain bs fs where "holds s bs fs (x # q)" "length bs + length fs \<le> NCLIST"
      by (auto simp: queue_of_def)
    with getc_Cons [of s bs fs x q] show ?thesis unfolding queue_of_def by metis
  qed
  show "queue_of (snd (putc c s)) (if fst (putc c s) then q @ [c] else q)" if "queue_of s q" for s q c
  proof -
    from that obtain bs fs where "holds s bs fs q" "length bs + length fs \<le> NCLIST"
      by (auto simp: queue_of_def)
    with putc_keeps [of s bs fs q c] show ?thesis unfolding queue_of_def by metis
  qed
qed

section \<open>Initialisation\<close>

lemma cinit_chain:
  assumes "pool_rep m fs" "8 dvd cp" "0 < cp" "\<forall>b \<in> set fs. b < cp"
  shows "\<exists>fs'. pool_rep (cinit_from cp lst m) fs' \<and> length fs' = length fs + (lst + 8 - cp) div 8"
  using assms
proof (induction cp lst m arbitrary: fs rule: cinit_from.induct)
  case (1 cp lst m)
  show ?case
  proof (cases "cp \<le> lst")
    case True
    let ?m = "m\<lparr>cb_next := (cb_next m)(cp := cfreelist m), cfreelist := cp\<rparr>"
    have "cp \<notin> set fs" using 1(5) by blast
    then have "pool_rep ?m (cp # fs)" using 1(2-4) by (simp add: pool_rep_def)
    moreover have "\<forall>b \<in> set (cp # fs). b < cp + 8" using 1(5) by auto
    moreover have "8 dvd cp + 8" "0 < cp + 8" using 1(3) by simp_all
    ultimately have "\<exists>fs'. pool_rep (cinit_from (cp + 8) lst ?m) fs'
        \<and> length fs' = length (cp # fs) + (lst + 8 - (cp + 8)) div 8"
      by (intro 1(1) [OF True])
    then obtain fs' where "pool_rep (cinit_from (cp + 8) lst ?m) fs'"
      "length fs' = length (cp # fs) + (lst + 8 - (cp + 8)) div 8"
      by (elim exE conjE)
    moreover have "lst + 8 - cp = (lst - cp) + 8" using True by simp
    then have "(lst + 8 - cp) div 8 = Suc ((lst - cp) div 8)"
      by (simp only: div_add_self2 [of 8 "lst - cp"] zero_neq_numeral not_False_eq_True Suc_eq_plus1)
    ultimately have "length fs' = length fs + (lst + 8 - cp) div 8" by simp
    moreover have "cinit_from cp lst m = cinit_from (cp + 8) lst ?m"
      using True by (subst cinit_from.simps) simp
    ultimately show ?thesis using \<open>pool_rep (cinit_from (cp + 8) lst ?m) fs'\<close> by metis
  next
    case False
    then have "cinit_from cp lst m = m" by (subst cinit_from.simps) simp
    moreover have "(lst + 8 - cp) div 8 = 0" using False by simp
    ultimately show ?thesis using 1(2) by (metis add_0_right)
  qed
qed

section \<open>Properties\<close>


text \<open>
  no block of the pool is lost or shared: \<open>putc\<close> and \<open>getc\<close> keep the blocks of the list
  and the free blocks apart, together they stay the same set, and any other list whose blocks
  are apart from these keeps its characters.
\<close>

lemma clist_blocks_conserved:
  assumes "holds (m, l) bs fs q" and "length bs + length fs \<le> NCLIST"
    and "list_rep m l2 bs2 q2" and "set bs2 \<inter> (set bs \<union> set fs) = {}"
  shows "(\<exists>bs' fs'. holds (snd (putc c (m, l))) bs' fs' (if fst (putc c (m, l)) then q @ [c] else q)
      \<and> set bs' \<union> set fs' = set bs \<union> set fs)
    \<and> (\<exists>bs' fs'. holds (snd (getc (m, l))) bs' fs' (tl q) \<and> set bs' \<union> set fs' = set bs \<union> set fs)
    \<and> list_rep (fst (snd (putc c (m, l)))) l2 bs2 q2 \<and> list_rep (fst (snd (getc (m, l)))) l2 bs2 q2"
proof -
  have "\<exists>bs' fs'. holds (snd (getc (m, l))) bs' fs' (tl q) \<and> set bs' \<union> set fs' = set bs \<union> set fs"
  proof (cases q)
    case Nil
    with assms(1) getc_empty [of m l bs] have "holds (snd (getc (m, l))) bs fs (tl q)"
      by (simp add: holds_def)
    then show ?thesis by blast
  next
    case (Cons x xs)
    with assms(1) getc_Cons [of "(m, l)" bs fs x xs] show ?thesis by auto
  qed
  then show ?thesis
    using putc_keeps [OF assms(1,2), of c] getc_other [OF assms(1,3,4)] putc_other [OF assms(1,3,4), of c]
    by blast
qed

text \<open>
  \<open>cinit\<close> on a cleared pool frees every aligned block that starts in \<open>cfree\<close>: all
  \<open>NCLIST\<close> of them when the array is aligned to 8 bytes, and one less when it is not.
\<close>

theorem cinit_frees_all:
  assumes "cfreelist m = 0" and "0 < cfree"
  shows "\<exists>fs. pool_rep (cinit cfree m) fs \<and> length fs = (if cfree mod 8 = 0 then NCLIST else NCLIST - 1)"
proof -
  let ?cp = "(cfree + 7) div 8 * 8"
  have "0 < ?cp" using assms(2) by simp
  moreover have "pool_rep m []" using assms(1) by (simp add: pool_rep_def)
  ultimately obtain fs where "pool_rep (cinit cfree m) fs"
    "length fs = (cfree + 8 * (NCLIST - 1) + 8 - ?cp) div 8"
    using cinit_chain [of m "[]" ?cp "cfree + 8 * (NCLIST - 1)"] by (auto simp: cinit_def)
  moreover have "(cfree + 8 * (NCLIST - 1) + 8 - ?cp) div 8 = (if cfree mod 8 = 0 then NCLIST else NCLIST - 1)"
  proof -
    define k r where "k = cfree div 8" and "r = cfree mod 8"
    have c: "cfree = r + 8 * k" "r < 8" by (simp_all add: k_def r_def)
    have "(r + 7) div 8 = (if r = 0 then 0 else 1)" using c(2) by (cases "r = 0") simp_all
    then have cp: "?cp = 8 * k + (if r = 0 then 0 else 8)"
    proof -
      have "cfree + 7 = r + 7 + 8 * k" using c(1) by simp
      then have "(cfree + 7) div 8 = k + (r + 7) div 8" using div_mult_self2 [of 8 "r + 7" k] by (simp only:)
      then show ?thesis using \<open>(r + 7) div 8 = _\<close> by simp
    qed
    have "cfree + 8 * (NCLIST - 1) + 8 - x = (if r = 0 then 8 * NCLIST else r + 8 * (NCLIST - 1))"
      if "x = 8 * k + (if r = 0 then 0 else 8)" for x
      using c(1) that by simp
    moreover have "(r + 792) div 8 = 99" using div_mult_self2 [of 8 r 99] c(2) by simp
    ultimately show ?thesis using cp c(2) by (simp flip: r_def)
  qed
  ultimately show ?thesis by metis
qed

abbreviation sample_pool :: cpool where
  "sample_pool \<equiv> \<lparr>cb_next = (\<lambda>_. 0)(24 := 16), cb_byte = \<lambda>_. 0, cfreelist = 24\<rparr>"

abbreviation empty_head :: clist where
  "empty_head \<equiv> \<lparr>c_cc = 0, c_cf = 0, c_cl = 0\<rparr>"

lemma sample_holds: "holds (sample_pool, empty_head) [] [24, 16] []"
  by (simp add: holds_def list_rep_def pool_rep_def)


lemma clist_blocks_conserved_witness:
  "\<exists>bs' fs'. holds (snd (putc 65 (sample_pool, empty_head))) bs' fs' [65] \<and> set bs' \<union> set fs' = {16, 24}"
proof -
  have "list_rep sample_pool empty_head [] []" by (simp add: list_rep_def)
  from clist_blocks_conserved [OF sample_holds _ this, of 65] show ?thesis
    by (simp add: putc_def put_char_def Let_def insert_commute)
qed

lemma cinit_frees_all_witness:
  "\<exists>fs. pool_rep (cinit 1000 \<lparr>cb_next = \<lambda>_. 0, cb_byte = \<lambda>_. 0, cfreelist = 0\<rparr>) fs \<and> length fs = 100"
  using cinit_frees_all [of "\<lparr>cb_next = \<lambda>_. 0, cb_byte = \<lambda>_. 0, cfreelist = 0\<rparr>" 1000] by simp

end
