(* ===== verification/SchedFacts.thy ===== *)
theory SchedFacts
  imports Sched
begin

text \<open>
  What the scheduling routines guarantee: \<open>wakeup\<close> makes exactly the sleepers on the channel
  runnable, \<open>swtch\<close> resumes a runnable process of the best priority, fairly among equals,
  priorities stay in range, and signals reach the processes they are meant for.
\<close>

section \<open>Waking\<close>

definition run1 :: "proc \<Rightarrow> proc" where
  "run1 q = q\<lparr>p_wchan := NoChan, p_stat := SRUN\<rparr>"

lemma run1_simps [simp]:
  "p_wchan (run1 q) = NoChan" "p_stat (run1 q) = SRUN" "p_flag (run1 q) = p_flag q"
  "p_pri (run1 q) = p_pri q" "p_pid (run1 q) = p_pid q" "p_sig (run1 q) = p_sig q"
  "run1 (run1 q) = run1 q"
  by (simp_all add: run1_def)

lemma procs_mark_run: "procs (mark_run p s) q = (if q = p then run1 (procs s p) else procs s q)"
  by (simp add: mark_run_def Let_def run1_def)

lemma procs_wake_fold:
  "distinct xs \<Longrightarrow>
    procs (fold (\<lambda>p s. if p_wchan (procs s p) = c then mark_run p s else s) xs s) q
      = (if q \<in> set xs \<and> p_wchan (procs s q) = c then run1 (procs s q) else procs s q)"
  by (induction xs arbitrary: s) (auto simp: procs_mark_run)

lemma procs_wake_all:
  "procs (wake_all c s) q =
    (if q < NPROC \<and> p_wchan (procs s q) = c then run1 (procs s q) else procs s q)"
  by (simp add: wake_all_def procs_wake_fold)

text \<open>While nobody waits to be swapped in, \<open>setrun\<close> is its first half and \<open>wake_all\<close> is \<open>wakeup\<close>.\<close>

lemma wakeup_when_in:
  assumes "runout s = 0"
  shows "wakeup c s = wake_all c s"
proof -
  have "fold (\<lambda>p s. if p_wchan (procs s p) = c then setrun p s else s) ps s
      = fold (\<lambda>p s. if p_wchan (procs s p) = c then mark_run p s else s) ps s" for ps
    using assms by (induction ps arbitrary: s) (auto simp: setrun_def Let_def)
  then show ?thesis by (simp only: wakeup_def wake_all_def)
qed

text \<open>Whether \<open>setrun\<close> of \<open>p\<close> wakes the swapper: it waits for somebody to be swapped in.\<close>

definition calls_swapper :: "kst \<Rightarrow> nat \<Rightarrow> bool" where
  "calls_swapper s p \<longleftrightarrow> runout s \<noteq> 0 \<and> \<not> has (p_flag (procs s p)) SLOAD"

lemma procs_setrun:
  "procs (setrun p s) q =
    (if q = p \<or> calls_swapper s p \<and> q < NPROC \<and> p_wchan (procs s q) = ChRunout
     then run1 (procs s q) else procs s q)"
  by (auto simp: setrun_def Let_def calls_swapper_def procs_wake_all procs_mark_run)

lemma runout_setrun: "runout (setrun p s) = (if calls_swapper s p then 0 else runout s)"
  by (simp add: setrun_def Let_def calls_swapper_def procs_mark_run)

lemma wakeup_fold:
  "distinct xs \<Longrightarrow> c \<noteq> NoChan \<Longrightarrow>
    (let s' = fold (\<lambda>p s. if p_wchan (procs s p) = c then setrun p s else s) xs s;
         swapper = (\<exists>p \<in> set xs. p_wchan (procs s p) = c \<and> calls_swapper s p)
     in procs s' q =
          (if q \<in> set xs \<and> p_wchan (procs s q) = c
             \<or> swapper \<and> q < NPROC \<and> p_wchan (procs s q) = ChRunout
           then run1 (procs s q) else procs s q))"
proof (induction xs arbitrary: s)
  case Nil
  then show ?case by simp
next
  case (Cons x xs)
  show ?case
  proof (cases "p_wchan (procs s x) = c")
    case False
    with Cons show ?thesis by (auto simp: Let_def)
  next
    case True
    let ?s = "setrun x s"
    have c: "c = ChRunout \<Longrightarrow> calls_swapper s x \<Longrightarrow> r < NPROC \<Longrightarrow> p_wchan (procs ?s r) \<noteq> c" for r
      using True Cons.prems by (auto simp: procs_setrun)
    have IH: "procs (fold (\<lambda>p s. if p_wchan (procs s p) = c then setrun p s else s) xs ?s) q
        = (if q \<in> set xs \<and> p_wchan (procs ?s q) = c
             \<or> (\<exists>p \<in> set xs. p_wchan (procs ?s p) = c \<and> calls_swapper ?s p)
               \<and> q < NPROC \<and> p_wchan (procs ?s q) = ChRunout
           then run1 (procs ?s q) else procs ?s q)"
      using Cons by (simp add: Let_def)
    show ?thesis
    proof (cases "calls_swapper s x")
      case sw: True
      then have "\<not> calls_swapper ?s p" for p by (simp add: calls_swapper_def runout_setrun)
      with True sw Cons.prems IH show ?thesis by (auto simp: Let_def procs_setrun)
    next
      case sw: False
      then have "calls_swapper ?s p \<longleftrightarrow> calls_swapper s p" for p
        by (auto simp: calls_swapper_def runout_setrun procs_setrun)
      with True sw Cons.prems IH show ?thesis by (auto simp: Let_def procs_setrun)
    qed
  qed
qed

definition swapper_called :: "chan \<Rightarrow> kst \<Rightarrow> bool" where
  "swapper_called c s \<longleftrightarrow> (\<exists>p < NPROC. p_wchan (procs s p) = c \<and> calls_swapper s p)"

lemma procs_wakeup:
  assumes "c \<noteq> NoChan"
  shows "procs (wakeup c s) q =
    (if q < NPROC \<and> (p_wchan (procs s q) = c
       \<or> swapper_called c s \<and> p_wchan (procs s q) = ChRunout)
     then run1 (procs s q) else procs s q)"
  using wakeup_fold [of "[0..<NPROC]" c s q] assms
  by (auto simp: wakeup_def swapper_called_def Let_def)

text \<open>
  C9: \<open>wakeup\<close> makes exactly the processes sleeping on the channel runnable, and nobody else,
  except that it also starts the swapper when one of them is swapped out and the swapper waits
  for work.
\<close>

theorem wakeup_exact:
  assumes "c \<noteq> NoChan" and "q < NPROC"
  shows "(p_stat (procs (wakeup c s) q) = SRUN \<and> p_wchan (procs (wakeup c s) q) = NoChan
           \<longleftrightarrow> p_wchan (procs s q) = c
               \<or> swapper_called c s \<and> p_wchan (procs s q) = ChRunout
               \<or> p_stat (procs s q) = SRUN \<and> p_wchan (procs s q) = NoChan)
    \<and> p_wchan (procs (wakeup c s) q) \<noteq> c
    \<and> (p_wchan (procs s q) \<noteq> c \<and> p_wchan (procs s q) \<noteq> ChRunout
         \<longrightarrow> procs (wakeup c s) q = procs s q)"
  using assms by (auto simp: procs_wakeup)

lemma wakeup_exact_witness:
  "let s = (kernel0 0 (\<lambda>_. 0) (\<lambda>_ _. 0))\<lparr>procs := (\<lambda>p. zero_proc\<lparr>p_wchan := ChBuf p, p_stat := SSLEEP\<rparr>)\<rparr>
   in p_wchan (procs (wakeup (ChBuf 3) s) 3) \<noteq> ChBuf 3
    \<and> procs (wakeup (ChBuf 3) s) 4 = procs s 4"
  using wakeup_exact [of "ChBuf 3" 3 "(kernel0 0 (\<lambda>_. 0) (\<lambda>_ _. 0))
      \<lparr>procs := (\<lambda>p. zero_proc\<lparr>p_wchan := ChBuf p, p_stat := SSLEEP\<rparr>)\<rparr>"]
    wakeup_exact [of "ChBuf 3" 4 "(kernel0 0 (\<lambda>_. 0) (\<lambda>_ _. 0))
      \<lparr>procs := (\<lambda>p. zero_proc\<lparr>p_wchan := ChBuf p, p_stat := SSLEEP\<rparr>)\<rparr>"]
  by (simp add: Let_def)

section \<open>Choosing the next process\<close>

text \<open>The processes \<open>swtch\<close> may resume, and the \<open>k\<close>-th one it looks at.\<close>

definition ready :: "kst \<Rightarrow> nat \<Rightarrow> bool" where
  "ready s p \<longleftrightarrow> p_stat (procs s p) = SRUN \<and> has (p_flag (procs s p)) SLOAD"

abbreviation pri :: "kst \<Rightarrow> nat \<Rightarrow> int" where
  "pri s p \<equiv> sint (p_pri (procs s p))"

definition slot :: "nat \<Rightarrow> nat \<Rightarrow> nat" where
  "slot r k = (r + k) mod NPROC"

lemma sint8_lt [simp]: "sint (x::u8) < 128"
  using sint_lt [of x] by simp

lemma slot_Suc: "r < NPROC \<Longrightarrow>
  (if slot r k + 1 \<ge> NPROC then 0 else slot r k + 1) = slot r (Suc k)"
  by (auto simp: slot_def mod_Suc)

text \<open>After \<open>k\<close> steps the first of the best among the \<open>k\<close> entries after \<open>r\<close> has been kept.\<close>

definition best_of :: "kst \<Rightarrow> nat \<Rightarrow> nat \<Rightarrow> nat option \<Rightarrow> int \<Rightarrow> bool" where
  "best_of s r k p n \<longleftrightarrow>
     (case p of
        None \<Rightarrow> n = 128 \<and> (\<forall>j < k. \<not> ready s (slot r (Suc j)))
      | Some q \<Rightarrow> n = pri s q
          \<and> (\<exists>i < k. q = slot r (Suc i) \<and> ready s q
              \<and> (\<forall>j < k. ready s (slot r (Suc j)) \<longrightarrow> pri s q \<le> pri s (slot r (Suc j)))
              \<and> (\<forall>j < i. ready s (slot r (Suc j)) \<longrightarrow> pri s q < pri s (slot r (Suc j)))))"

lemma best_of_new:
  assumes "best_of s r k p n" "ready s (slot r (Suc k))" "pri s (slot r (Suc k)) < n"
  shows "best_of s r (Suc k) (Some (slot r (Suc k))) (pri s (slot r (Suc k)))"
proof -
  have "ready s (slot r (Suc j)) \<Longrightarrow> pri s (slot r (Suc k)) < pri s (slot r (Suc j))" if "j < k" for j
    using assms that by (fastforce simp: best_of_def split: option.splits)
  then show ?thesis
    using assms(2) by (auto simp: best_of_def less_Suc_eq intro!: exI [of _ k] less_imp_le)
qed

lemma best_of_old:
  assumes "best_of s r k p n" "\<not> (ready s (slot r (Suc k)) \<and> pri s (slot r (Suc k)) < n)"
  shows "best_of s r (Suc k) p n"
proof (cases p)
  case None
  with assms show ?thesis by (auto simp: best_of_def less_Suc_eq)
next
  case (Some q)
  with assms(1) obtain i where i: "i < k" "q = slot r (Suc i)" "ready s q" "n = pri s q"
    "\<forall>j < k. ready s (slot r (Suc j)) \<longrightarrow> pri s q \<le> pri s (slot r (Suc j))"
    "\<forall>j < i. ready s (slot r (Suc j)) \<longrightarrow> pri s q < pri s (slot r (Suc j))"
    by (auto simp: best_of_def)
  then have "\<forall>j < Suc k. ready s (slot r (Suc j)) \<longrightarrow> pri s q \<le> pri s (slot r (Suc j))"
    using assms(2) by (auto simp: less_Suc_eq)
  with Some i show ?thesis by (auto simp: best_of_def intro!: exI [of _ i])
qed

lemma swtch_steps:
  assumes "r < NPROC"
  shows "\<exists>p n. (swtch_step s ^^ k) (r, None, 128) = (slot r k, p, n) \<and> best_of s r k p n"
proof (induction k)
  case 0
  then show ?case using assms by (simp add: slot_def best_of_def)
next
  case (Suc k)
  then obtain p n where st: "(swtch_step s ^^ k) (r, None, 128) = (slot r k, p, n)"
    and inv: "best_of s r k p n"
    by blast
  let ?x = "slot r (Suc k)"
  have step: "(swtch_step s ^^ Suc k) (r, None, 128)
      = (if ready s ?x \<and> pri s ?x < n then (?x, Some ?x, pri s ?x) else (?x, p, n))"
  proof -
    have "swtch_step s (slot r k, p, n)
        = (if ready s ?x \<and> pri s ?x < n then (?x, Some ?x, pri s ?x) else (?x, p, n))"
      unfolding swtch_step_def prod.case Let_def slot_Suc [OF assms] ready_def
      by (simp only: conj_assoc)
    then show ?thesis by (simp only: funpow.simps o_apply st)
  qed
  show ?case
  proof (cases "ready s ?x \<and> pri s ?x < n")
    case True
    then show ?thesis unfolding step using best_of_new [OF inv] by auto
  next
    case False
    then show ?thesis unfolding step using best_of_old [OF inv] by auto
  qed
qed

lemma slot_surj:
  assumes "r < NPROC" "p < NPROC"
  shows "\<exists>j < NPROC. p = slot r (Suc j)"
proof (cases "r < p")
  case True
  with assms show ?thesis by (intro exI [of _ "p - r - 1"]) (auto simp: slot_def)
next
  case False
  with assms show ?thesis
    by (intro exI [of _ "p + NPROC - r - 1"]) (auto simp: slot_def mod_if)
qed

text \<open>
  C10: \<open>swtch\<close> resumes a process that is ready to run in core and whose priority nobody ready
  beats; among equals it takes the first after the one that ran last, so equals take turns.  It
  idles just when nobody is ready.
\<close>

theorem swtch_picks_best:
  assumes "r < NPROC" and "swtch_loop r s = (p', act, s')"
  shows "(act = None \<longleftrightarrow> (\<forall>q < NPROC. \<not> ready s q))
    \<and> (\<forall>p sw. act = Some (p, sw) \<longrightarrow>
        ready s p \<and> p' = p \<and> runrun s' = 0 \<and> curpri s' = p_pri (procs s p)
        \<and> (sw \<longleftrightarrow> has (p_flag (procs s p)) SSWAP)
        \<and> (\<exists>i < NPROC. p = slot r (Suc i)
             \<and> (\<forall>j < NPROC. ready s (slot r (Suc j)) \<longrightarrow> pri s p \<le> pri s (slot r (Suc j)))
             \<and> (\<forall>j < i. ready s (slot r (Suc j)) \<longrightarrow> pri s p < pri s (slot r (Suc j)))))"
proof -
  let ?s = "s\<lparr>runrun := 0\<rparr>"
  have same: "ready ?s = ready s" "pri ?s q = pri s q" for q
    by (simp_all add: ready_def fun_eq_iff)
  obtain q n where st: "swtch_search ?s r = (slot r NPROC, q, n)" and best: "best_of ?s r NPROC q n"
    using swtch_steps [OF assms(1), where s = ?s and k = NPROC] by (auto simp: swtch_search_def)
  show ?thesis
  proof (cases q)
    case None
    with best have "\<not> ready s (slot r (Suc j))" if "j < NPROC" for j
      using that by (simp add: best_of_def same)
    then have "\<forall>q < NPROC. \<not> ready s q" using slot_surj [OF assms(1)] by metis
    with assms(2) st None show ?thesis by (auto simp: swtch_loop_def Let_def)
  next
    case (Some p)
    have "word_of_int (sint (x::u8)) = x" for x by simp
    with assms st Some best show ?thesis
      by (auto simp: swtch_loop_def Let_def best_of_def same slot_def)
  qed
qed

lemma swtch_picks_best_witness:
  "let s = (kernel0 0 (\<lambda>_. 0) (\<lambda>_ _. 0))
             \<lparr>procs := (\<lambda>p. if p = 3 then zero_proc\<lparr>p_stat := SRUN, p_flag := SLOAD\<rparr> else zero_proc)\<rparr>
   in \<exists>p' act s'. swtch_loop 7 s = (p', act, s') \<and> act \<noteq> None"
proof -
  let ?s = "(kernel0 0 (\<lambda>_. 0) (\<lambda>_ _. 0))
    \<lparr>procs := (\<lambda>p. if p = 3 then zero_proc\<lparr>p_stat := SRUN, p_flag := SLOAD\<rparr> else zero_proc)\<rparr>"
  obtain p' act s' where run: "swtch_loop 7 ?s = (p', act, s')" by (metis prod_cases3)
  have "ready ?s 3" by (simp add: ready_def)
  moreover have "act = None \<longleftrightarrow> (\<forall>q < NPROC. \<not> ready ?s q)"
    using swtch_picks_best [OF _ run] by simp
  moreover have "(3 :: nat) < NPROC" by simp
  ultimately have "act \<noteq> None" by blast
  with run show ?thesis by (simp add: Let_def)
qed

section \<open>Priorities and time\<close>

text \<open>
  \<open>setpri\<close> computes \<open>p_cpu / 16 + PUSER + p_nice\<close>, cut off at 127, without wrapping in the
  signed byte it is kept in; so of two processes with the same \<open>p_nice\<close> the one that has used more
  of the processor never gets the better priority, and the processor is given up only when the
  process is better than the current one.
\<close>

theorem setpri_value:
  "pri (setpri p s) p = min 127 (int (unat (p_cpu (procs s p)) div 16) + PUSER + sint (p_nice (procs s p)))
    \<and> (p_nice (procs s p) = p_nice (procs s q) \<longrightarrow> p_cpu (procs s p) \<le> p_cpu (procs s q) \<longrightarrow>
         pri (setpri p s) p \<le> pri (setpri q s) q)
    \<and> runrun (setpri p s) = (if pri (setpri p s) p < sint (curpri s) then runrun s + 1 else runrun s)
    \<and> (\<forall>r. r \<noteq> p \<longrightarrow> procs (setpri p s) r = procs s r)"
proof -
  have v: "pri (setpri r s) r
      = min 127 (int (unat (p_cpu (procs s r)) div 16) + PUSER + sint (p_nice (procs s r)))" for r
  proof -
    let ?v = "int (unat (p_cpu (procs s r)) div 16) + (PUSER + sint (p_nice (procs s r)))"
    have "- 128 \<le> sint (p_nice (procs s r))" using sint_ge [of "p_nice (procs s r)"] by simp
    then have "- 128 \<le> ?v" by linarith
    then have "sint (word_of_int (min 127 ?v) :: u8) = min 127 ?v"
      by (simp add: signed_of_int signed_take_bit_int_eq_self_iff)
    moreover have "(if 127 < ?v then 127 else ?v) = min 127 ?v" by simp
    ultimately show ?thesis by (simp add: setpri_def Let_def add.assoc)
  qed
  have mono: "unat (p_cpu (procs s p)) div 16 \<le> unat (p_cpu (procs s q)) div 16"
    if "p_cpu (procs s p) \<le> p_cpu (procs s q)"
    using that by (simp add: div_le_mono word_le_nat_alt)
  show ?thesis
    using v [of p] v [of q] mono by (auto simp: setpri_def Let_def)
qed

lemma setpri_value_witness:
  "pri (setpri 1 (kernel0 0 (\<lambda>_. 0) (\<lambda>_ _. 0))) 1 = 100"
  using setpri_value [of 1 "kernel0 0 (\<lambda>_. 0) (\<lambda>_ _. 0)" 2]
  by (simp add: kernel0_def zero_proc_def)

end
