(* ===== verification/SignalFacts.thy ===== *)
theory SignalFacts
  imports SchedFacts Sys4
begin

text \<open>
  Signals: what \<open>psignal\<close> does to the process it is sent to and to the others, who is reached by
  \<open>kill\<close>, and the time of day kept by the clock.
\<close>

section \<open>Sending\<close>

text \<open>What \<open>psignal\<close> does to the target before it wakes it.\<close>

definition signalled :: "u16 \<Rightarrow> proc \<Rightarrow> proc" where
  "signalled sig q =
     q\<lparr>p_sig := (if c2i (p_sig q) = SIGKIL then p_sig q else i2c sig),
       p_pri := (if sint (p_pri q) > PUSER then 100 else p_pri q)\<rparr>"

lemma signalled_simps [simp]:
  "p_stat (signalled sig q) = p_stat q" "p_flag (signalled sig q) = p_flag q"
  "p_wchan (signalled sig q) = p_wchan q" "p_pid (signalled sig q) = p_pid q"
  "p_ppid (signalled sig q) = p_ppid q" "p_uid (signalled sig q) = p_uid q"
  "p_ttyp (signalled sig q) = p_ttyp q"
  "p_sig (signalled sig q) = (if c2i (p_sig q) = SIGKIL then p_sig q else i2c sig)"
  by (simp_all add: signalled_def)

lemma run1_more [simp]:
  "p_ppid (run1 q) = p_ppid q" "p_uid (run1 q) = p_uid q" "p_ttyp (run1 q) = p_ttyp q"
  by (simp_all add: run1_def)

lemma calls_swapper_proc:
  "runout t = runout s \<Longrightarrow> p_flag (procs t p) = p_flag (procs s p) \<Longrightarrow>
    calls_swapper t p = calls_swapper s p"
  by (simp add: calls_swapper_def)

lemma procs_psignal:
  "procs (psignal p sig s) q =
    (if sint sig \<ge> int NSIG then procs s q
     else
       (let b = (if q = p then signalled sig (procs s p) else procs s q)
        in if p_stat (procs s p) = SWAIT
              \<and> (q = p \<or> calls_swapper s p \<and> q < NPROC \<and> p_wchan b = ChRunout)
           then run1 b else b))"
  by (cases "c2i (p_sig (procs s p)) = SIGKIL"; cases "sint (p_pri (procs s p)) > PUSER")
    (auto simp: psignal_def Let_def procs_setrun calls_swapper_def signalled_def)

text \<open>
  sending a signal to a process: a pending kill is never replaced, any other signal is
  replaced by the new one; a process asleep at a priority that signals can disturb becomes
  runnable, one asleep at a higher priority sleeps on; no other process gets a signal.
\<close>

lemma psignal_effect:
  assumes "sint sig < int NSIG" and "p < NPROC"
  shows "p_sig (procs (psignal p sig s) p) =
      (if c2i (p_sig (procs s p)) = SIGKIL then p_sig (procs s p) else i2c sig)
    \<and> p_stat (procs (psignal p sig s) p) =
        (if p_stat (procs s p) = SWAIT then SRUN else p_stat (procs s p))
    \<and> pri (psignal p sig s) p = min PUSER (pri s p)
    \<and> (\<forall>q. q \<noteq> p \<longrightarrow> p_sig (procs (psignal p sig s) q) = p_sig (procs s q))"
proof -
  have "sint (100 :: u8) = 100" by simp
  then have "sint (p_pri (signalled sig (procs s p))) = min PUSER (pri s p)"
    by (simp add: signalled_def)
  with assms show ?thesis by (simp add: procs_psignal Let_def)
qed

lemma psignal_effect_witness:
  "p_sig (procs (psignal 4 SIGINT (kernel0 0 (\<lambda>_. 0) (\<lambda>_ _. 0))) 4) = 2"
  using psignal_effect [of SIGINT 4 "kernel0 0 (\<lambda>_. 0) (\<lambda>_ _. 0)"]
  by (simp add: kernel0_def zero_proc_def)

section \<open>kill\<close>

lemma psignal_keeps:
  "p_pid (procs (psignal p sig s) q) = p_pid (procs s q)"
  "p_ppid (procs (psignal p sig s) q) = p_ppid (procs s q)"
  "p_uid (procs (psignal p sig s) q) = p_uid (procs s q)"
  "p_ttyp (procs (psignal p sig s) q) = p_ttyp (procs s q)"
  by (simp_all add: procs_psignal Let_def)

lemma kill_hits_psignal: "kill_hits a (psignal p sig s) q = kill_hits a s q"
  by (simp add: kill_hits_def psignal_keeps)

abbreviation kill_step :: "u16 \<Rightarrow> u16 \<Rightarrow> nat \<Rightarrow> nat \<times> kst \<Rightarrow> nat \<times> kst" where
  "kill_step a sig p \<equiv> \<lambda>(f, s). if kill_hits a s p then (f + 1, psignal p sig s) else (f, s)"

lemma kill_fold:
  assumes "distinct ps" "\<forall>p \<in> set ps. p < NPROC" "sint sig < int NSIG"
  shows "case fold (kill_step a sig) ps (f, s) of (f', s') \<Rightarrow>
      f' = f + length (filter (kill_hits a s) ps)
    \<and> (\<forall>q. p_sig (procs s' q) =
          (if q \<in> set ps \<and> kill_hits a s q \<and> c2i (p_sig (procs s q)) \<noteq> SIGKIL
           then i2c sig else p_sig (procs s q)))
    \<and> u_error (usr s') = u_error (usr s)"
  using assms(1,2)
proof (induction ps arbitrary: f s)
  case Nil
  then show ?case by simp
next
  case (Cons p ps)
  show ?case
  proof (cases "kill_hits a s p")
    case False
    with Cons.IH [of f s] Cons.prems show ?thesis by (auto split: prod.splits)
  next
    case True
    let ?s = "psignal p sig s"
    have sig: "p_sig (procs ?s q) =
        (if q = p \<and> c2i (p_sig (procs s p)) \<noteq> SIGKIL then i2c sig else p_sig (procs s q))" for q
      using psignal_effect [of sig p s] assms(3) Cons.prems by auto
    have hits: "kill_hits a ?s = kill_hits a s" by (simp add: fun_eq_iff kill_hits_psignal)
    have "case fold (kill_step a sig) ps (f + 1, ?s) of (f', s') \<Rightarrow>
        f' = f + 1 + length (filter (kill_hits a s) ps)
      \<and> (\<forall>q. p_sig (procs s' q) =
            (if q \<in> set ps \<and> kill_hits a s q \<and> c2i (p_sig (procs ?s q)) \<noteq> SIGKIL
             then i2c sig else p_sig (procs ?s q)))
      \<and> u_error (usr s') = u_error (usr ?s)"
      using Cons.IH [of "f + 1" ?s] Cons.prems by (simp add: hits)
    with True Cons.prems show ?thesis by (auto simp: sig split: prod.splits)
  qed
qed

lemma kill_fold_arg:
  "u_arg (usr s) 0 = sig \<Longrightarrow>
    fold (\<lambda>p (f, s). if kill_hits a s p then (f + 1, psignal p (u_arg (usr s) 0) s) else (f, s)) ps (f, s)
      = fold (kill_step a sig) ps (f, s)"
  by (induction ps arbitrary: f s) auto



text \<open>
  The range check of \<open>psignal\<close> has no lower bound: a negative number from \<open>kill\<close> becomes
  the pending signal, and \<open>issig\<close> then looks for its disposition outside \<open>u_signal\<close>.
\<close>

lemma psignal_negative:
  "p_sig (procs (psignal p (-5) s) p) = (if c2i (p_sig (procs s p)) = SIGKIL then 9 else 251)
    \<and> issig (psignal (curproc s) (-5) s) =
        (if c2i (p_sig (procs s (curproc s))) = SIGKIL
         then (if u_signal (usr s) 9 \<noteq> 1 then 9 else 0)
         else if u_signal (usr s) 65531 \<noteq> 1 then -5 else 0)"
proof -
  have "sint (-5 :: u16) = -5" "i2c (-5) = 251" "c2i 251 = -5" "unat (-5 :: u16) = 65531" by simp_all
  moreover have "c2i x = SIGKIL \<longleftrightarrow> x = 9" for x :: u8
  proof
    assume "c2i x = SIGKIL"
    then have "i2c (c2i x) = i2c SIGKIL" by simp
    then show "x = 9" by (simp add: i2c_c2i)
  qed simp
  moreover have "c2i 9 = 9" "unat (9 :: u16) = 9" by simp_all
  ultimately show ?thesis by (auto simp: procs_psignal Let_def issig_def)
qed

section \<open>The time of day\<close>

lemma age_procs_frame: "ktime (fold age_proc ps s) = ktime s" "lbolt (fold age_proc ps s) = lbolt s"
  by (rule fold_frame, simp add: age_proc_def Let_def)+

lemma clock_account_frame: "ktime (clock_account m s) = ktime s" "lbolt (clock_account m s) = lbolt s"
  by (simp_all add: clock_account_def Let_def)

text \<open>
  A clock tick counts \<open>lbolt\<close> from 0 to 59; the sixtieth sets it back to 0, adds one second to
  the time of day with the carry into its high word, and is the one that is reported.
\<close>

theorem clock_time_tick:
  assumes "unat (lbolt s) < 60"
  shows "lbolt (snd (clock_time m s)) = (if unat (lbolt s) = 59 then 0 else lbolt s + 1)
    \<and> dval (ktime (snd (clock_time m s)))
        = (if unat (lbolt s) = 59 then (dval (ktime s) + 1) mod 2 ^ 32 else dval (ktime s))
    \<and> (fst (clock_time m s) \<longleftrightarrow> unat (lbolt s) = 59)"
proof -
  have u: "unat (lbolt s + 1) = unat (lbolt s) + 1"
    using assms by (subst unat_add_no_wrap) simp_all
  have slt: "slt16 (lbolt s + 1) 60 \<longleftrightarrow> unat (lbolt s) < 59"
  proof -
    have "sint (lbolt s + 1) = int (unat (lbolt s + 1))"
      by (rule sint16_eq_unat) (use assms u in linarith)
    moreover have "sint (60 :: u16) = 60" by simp
    ultimately show ?thesis unfolding slt16_def u by linarith
  qed
  have tm: "dval (if l + 1 = 0 then (h + 1, l + 1) else (h, l + 1)) = (dval (h, l) + 1) mod 2 ^ 32"
    for h l :: u16
  proof -
    have h: "unat h \<le> 65535" and l: "unat l \<le> 65535"
      using unat16_lt [of h] unat16_lt [of l] by linarith+
    have l1: "unat (l + 1) = (unat l + 1) mod 65536" by (simp add: unat_word_ariths)
    have h1: "unat (h + 1) = (unat h + 1) mod 65536" by (simp add: unat_word_ariths)
    show ?thesis
    proof (cases "unat l = 65535")
      case True
      with l1 have "l + 1 = 0" by (simp add: unat_eq_0 [symmetric])
      then show ?thesis using True h h1 by (cases "unat h = 65535") (simp_all add: dval_def)
    next
      case False
      with l have "unat (l + 1) = unat l + 1" using l1 by simp
      moreover from this have "l + 1 \<noteq> 0" by (metis add_is_0 one_neq_zero unat_0)
      ultimately show ?thesis using False l h by (simp add: dval_def)
    qed
  qed
  show ?thesis
  proof (cases "unat (lbolt s) = 59")
    case True
    then have l: "lbolt s = 59" by (simp add: word_unat_eq_iff)
    show ?thesis
      using slt True tm [of "snd (ktime s)" "fst (ktime s)"]
      by (simp add: clock_time_def Let_def age_procs_frame clock_account_frame l
            if_distrib [where f = ktime] if_distrib [where f = lbolt] if_distrib [where f = snd]
            if_distrib [where f = fst] if_distrib [where f = dval] split del: if_split cong: if_cong)
  next
    case False
    with assms slt show ?thesis by (auto simp: clock_time_def Let_def clock_account_frame)
  qed
qed

lemma clock_time_tick_witness:
  "dval (ktime (snd (clock_time 1 ((kernel0 0 (\<lambda>_. 0) (\<lambda>_ _. 0))\<lparr>lbolt := 59, ktime := (2, 0xffff)\<rparr>))))
     = 3 * 65536"
  using clock_time_tick [of "(kernel0 0 (\<lambda>_. 0) (\<lambda>_ _. 0))\<lparr>lbolt := 59, ktime := (2, 0xffff)\<rparr>" 1]
  by (simp add: dval_def)

end
