(* ===== verification/BufRing.thy ===== *)
theory BufRing
  imports BufList
begin

text \<open>
  The buffer lists as lists.  A ring is a circular doubly linked list through a head; the locale
  \<open>linked\<close> states what the two link fields of a table of headers promise, and its lemmas give
  the three splices of \<open>dmr/bio.c\<close> (unlink, append at the end, push at the front) on the
  abstract list.  It is interpreted on both pairs of link fields of \<open>struct buf\<close>.
\<close>

section \<open>Doubly linked chains\<close>

fun links :: "(nat \<Rightarrow> nat) \<Rightarrow> (nat \<Rightarrow> nat) \<Rightarrow> nat list \<Rightarrow> bool" where
  "links nx pv (a # b # zs) \<longleftrightarrow> nx a = b \<and> pv b = a \<and> links nx pv (b # zs)"
| "links nx pv zs \<longleftrightarrow> True"

definition ring :: "(nat \<Rightarrow> nat) \<Rightarrow> (nat \<Rightarrow> nat) \<Rightarrow> nat \<Rightarrow> nat list \<Rightarrow> bool" where
  "ring nx pv h xs \<longleftrightarrow> distinct (h # xs) \<and> links nx pv (h # xs @ [h])"

lemma links_append: "links nx pv (xs @ a # ys) \<longleftrightarrow> links nx pv (xs @ [a]) \<and> links nx pv (a # ys)"
proof (induction xs)
  case (Cons x xs)
  then show ?case by (cases xs) auto
qed simp

lemma links_cong:
  assumes "\<And>x. x \<in> set (butlast zs) \<Longrightarrow> nx' x = nx x" "\<And>x. x \<in> set (tl zs) \<Longrightarrow> pv' x = pv x"
  shows "links nx' pv' zs = links nx pv zs"
  using assms by (induction nx pv zs rule: links.induct) (auto split: if_splits)

lemma links_same:
  "links nx pv zs \<Longrightarrow> (\<And>x. x \<in> set (butlast zs) \<Longrightarrow> nx' x = nx x) \<Longrightarrow>
    (\<And>x. x \<in> set (tl zs) \<Longrightarrow> pv' x = pv x) \<Longrightarrow> links nx' pv' zs"
  by (subst links_cong [where nx = nx and pv = pv]) auto

lemma ring_distinct: "ring nx pv h xs \<Longrightarrow> distinct xs \<and> h \<notin> set xs"
  by (simp add: ring_def)

lemma ring_next: "ring nx pv h xs \<Longrightarrow> nx h = (if xs = [] then h else hd xs)"
  by (cases xs) (simp_all add: ring_def)

lemma ring_prev: "ring nx pv h xs \<Longrightarrow> pv h = (if xs = [] then h else last xs)"
proof (cases xs rule: rev_cases)
  case (snoc ys y)
  moreover assume "ring nx pv h xs"
  ultimately show ?thesis
    using links_append [of nx pv "h # ys" y "[h]"] by (simp add: ring_def)
qed (simp add: ring_def)

lemma ring_empty: "ring nx pv h [] \<longleftrightarrow> nx h = h \<and> pv h = h"
  by (simp add: ring_def)

text \<open>The neighbours of an element.\<close>

lemma ring_split:
  "links nx pv (h # (xs @ b # ys) @ [h]) \<longleftrightarrow>
    links nx pv (h # xs @ [b]) \<and> links nx pv (b # ys @ [h])"
  using links_append [of nx pv "h # xs" b "ys @ [h]"] by simp

lemma ring_at:
  assumes "ring nx pv h (xs @ b # ys)"
  shows "pv b = last (h # xs)" "nx b = hd (ys @ [h])"
proof -
  from assms have l: "links nx pv (h # xs @ [b])" and r: "links nx pv (b # ys @ [h])"
    by (simp_all add: ring_def ring_split del: append.simps(2) append_assoc)
  show "nx b = hd (ys @ [h])" using r by (cases ys) auto
  show "pv b = last (h # xs)"
  proof (cases xs rule: rev_cases)
    case (snoc zs z)
    with l show ?thesis using links_append [of nx pv "h # zs" z "[b]"] by simp
  qed (use l in simp)
qed

lemma links_replace_last:
  assumes "links nx pv (as @ [b])" "as \<noteq> []" "distinct as" "c \<notin> set (tl as)"
  shows "links (nx(last as := c)) (pv(c := last as)) (as @ [c])"
  using assms
proof (induction as)
  case (Cons a as)
  show ?case
  proof (cases as)
    case (Cons a' as')
    with Cons.prems Cons.IH show ?thesis by (auto split: if_splits)
  qed simp
qed simp

lemma ring_remove:
  assumes "ring nx pv h (xs @ b # ys)"
  shows "ring (nx(pv b := nx b)) (pv(nx b := pv b)) h (xs @ ys)"
proof -
  from assms have l: "links nx pv (h # xs @ [b])" and r: "links nx pv (b # ys @ [h])"
    and d: "distinct (h # xs @ b # ys)"
    by (simp_all add: ring_def ring_split del: append.simps(2) append_assoc)
  note at = ring_at [OF assms]
  let ?c = "hd (ys @ [h])" and ?a = "last (h # xs)"
  have a: "?a \<in> set (h # xs)" by (rule last_in_set) simp
  have c: "?c \<in> set (ys @ [h])" by (rule hd_in_set) simp
  have left: "links (nx(?a := ?c)) (pv(?c := ?a)) ((h # xs) @ [?c])"
    by (rule links_replace_last [of _ _ _ b]) (use l d c in auto)
  have right: "links (nx(?a := ?c)) (pv(?c := ?a)) (ys @ [h])"
  proof (cases ys)
    case (Cons y zs)
    have "links nx pv (y # zs @ [h])" using r Cons by simp
    moreover have "\<And>x. x \<in> set (y # zs) \<Longrightarrow> x \<noteq> ?a" "y \<notin> set (zs @ [h])"
      using a d Cons by (auto simp del: last.simps)
    ultimately have "links (nx(?a := y)) (pv(y := ?a)) (y # zs @ [h])"
      by (elim links_same) (auto simp: butlast_append simp del: last.simps)
    then show ?thesis using Cons by simp
  qed simp
  have "links (nx(?a := ?c)) (pv(?c := ?a)) (h # xs @ ys @ [h])"
  proof (cases ys)
    case Nil
    then show ?thesis using left by simp
  next
    case (Cons y zs)
    then show ?thesis using left right
      links_append [of "nx(?a := ?c)" "pv(?c := ?a)" "h # xs" y "zs @ [h]"] by simp
  qed
  then show ?thesis using d by (simp add: ring_def at)
qed

lemma ring_append:
  assumes "ring nx pv h xs" "b \<notin> set (h # xs)"
  shows "ring (nx(pv h := b, b := h)) (pv(b := pv h, h := b)) h (xs @ [b])"
proof -
  let ?a = "last (h # xs)"
  have p: "pv h = ?a" using ring_prev [OF assms(1)] by simp
  have d: "distinct (h # xs)" using assms by (simp add: ring_def)
  have "links (nx(?a := b)) (pv(b := ?a)) ((h # xs) @ [b])"
    by (rule links_replace_last [of _ _ _ h]) (use assms d in \<open>auto simp: ring_def\<close>)
  then have "links (nx(?a := b, b := h)) (pv(b := ?a, h := b)) ((h # xs) @ [b])"
    by (rule links_same) (use assms(2) d in \<open>auto simp: butlast_append\<close>)
  then have "links (nx(?a := b, b := h)) (pv(b := ?a, h := b)) (h # (xs @ [b]) @ [h])"
    using links_append [of "nx(?a := b, b := h)" "pv(b := ?a, h := b)" "h # xs" b "[h]"] assms(2)
    by simp
  then show ?thesis unfolding p using d assms(2) by (simp add: ring_def)
qed

lemma ring_push:
  assumes "ring nx pv h xs" "b \<notin> set (h # xs)"
  shows "ring (nx(b := nx h, h := b)) (pv(b := h, nx h := b)) h (b # xs)"
proof -
  let ?c = "hd (xs @ [h])"
  have n: "nx h = ?c" using ring_next [OF assms(1)] by simp
  have c: "?c \<in> set (xs @ [h])" by (rule hd_in_set) simp
  have d: "distinct (h # xs)" using assms by (simp add: ring_def)
  have "links (nx(b := ?c, h := b)) (pv(b := h, ?c := b)) (b # xs @ [h])"
  proof (cases xs)
    case Nil
    then show ?thesis using assms(2) by simp
  next
    case (Cons x ys)
    have "links nx pv (x # ys @ [h])" using assms(1) Cons by (simp add: ring_def)
    then have "links (nx(b := ?c, h := b)) (pv(b := h, ?c := b)) (x # ys @ [h])"
      by (rule links_same) (use assms(2) d Cons in \<open>auto simp: butlast_append split: if_splits\<close>)
    then show ?thesis using Cons assms(2) by auto
  qed
  then have "links (nx(b := ?c, h := b)) (pv(b := h, ?c := b)) (h # b # xs @ [h])"
    using assms(2) c by auto
  then show ?thesis unfolding n using d assms(2) by (simp add: ring_def)
qed

text \<open>Changes of the links of nodes outside a ring do not matter to it.\<close>

lemma ring_cong:
  "ring nx pv h xs \<Longrightarrow> (\<And>x. x \<in> set (h # xs) \<Longrightarrow> nx' x = nx x \<and> pv' x = pv x) \<Longrightarrow>
    ring nx' pv' h xs"
  by (auto simp: ring_def butlast_append intro!: links_same [where nx = nx and pv = pv])

text \<open>Nodes outside a ring are not reached from it.\<close>

lemma ring_closed:
  assumes "ring nx pv h xs" "x \<in> set (h # xs)"
  shows "nx x \<in> set (h # xs) \<and> pv x \<in> set (h # xs)"
proof (cases "x = h")
  case True
  then show ?thesis using ring_next [OF assms(1)] ring_prev [OF assms(1)] by auto
next
  case False
  with assms(2) obtain ys zs where "xs = ys @ x # zs" by (auto dest: split_list)
  moreover from this have "nx x = hd (zs @ [h])" "pv x = last (h # ys)"
    using assms(1) ring_at by blast+
  moreover have "hd (zs @ [h]) \<in> set (zs @ [h])" "last (h # ys) \<in> set (h # ys)"
    by (rule hd_in_set, simp) (rule last_in_set, simp)
  ultimately show ?thesis by auto
qed

end
