(* ===== verification/BufFacts.thy ===== *)
theory BufFacts
  imports BufRing Bio SchedFacts
begin

text \<open>
  The buffer cache of \<open>dmr/bio.c\<close> as lists: what \<open>brelse\<close>, \<open>notavail\<close> and the rebinding in
  \<open>getblk\<close> do to the rings, the invariant that the cache keeps, and \<open>getblk\<close> as the abstract
  replacement of the least recently released buffer.
\<close>

section \<open>The interface of a pair of link fields\<close>

locale linked =
  fixes nx pv :: "'s \<Rightarrow> nat \<Rightarrow> nat"
    and set_nx set_pv :: "nat \<Rightarrow> nat \<Rightarrow> 's \<Rightarrow> 's"
  assumes nx_set_nx: "nx (set_nx a v s) = (nx s)(a := v)"
    and pv_set_nx: "pv (set_nx a v s) = pv s"
    and nx_set_pv: "nx (set_pv a v s) = nx s"
    and pv_set_pv: "pv (set_pv a v s) = (pv s)(a := v)"
begin

definition unlink :: "nat \<Rightarrow> 's \<Rightarrow> 's" where
  "unlink b s = (let s = set_nx (pv s b) (nx s b) s in set_pv (nx s b) (pv s b) s)"

definition append :: "nat \<Rightarrow> nat \<Rightarrow> 's \<Rightarrow> 's" where
  "append h b s =
     (let s = set_nx (pv s h) b s; s = set_pv b (pv s h) s; s = set_pv h b s in set_nx b h s)"

definition push :: "nat \<Rightarrow> nat \<Rightarrow> 's \<Rightarrow> 's" where
  "push h b s =
     (let s = set_nx b (nx s h) s; s = set_pv b h s; s = set_pv (nx s h) b s in set_nx h b s)"

lemma unlink_ring:
  assumes "ring (nx s) (pv s) h (xs @ b # ys)"
  shows "ring (nx (unlink b s)) (pv (unlink b s)) h (xs @ ys)"
proof -
  have "pv s b \<noteq> b"
  proof -
    have "pv s b = last (h # xs)" using assms ring_at by blast
    moreover have "last (h # xs) \<in> set (h # xs)" by (rule last_in_set) simp
    moreover have "b \<notin> set (h # xs)" using assms by (auto simp: ring_def)
    ultimately show ?thesis by metis
  qed
  then show ?thesis
    using ring_remove [OF assms]
    by (simp add: unlink_def Let_def nx_set_nx pv_set_nx nx_set_pv pv_set_pv)
qed

lemma unlink_other:
  assumes "ring (nx s) (pv s) h xs" "ring (nx s) (pv s) k (ys @ b # zs)"
    "set (h # xs) \<inter> set (k # ys @ b # zs) = {}"
  shows "ring (nx (unlink b s)) (pv (unlink b s)) h xs"
proof (rule ring_cong [OF assms(1)])
  fix x
  assume x: "x \<in> set (h # xs)"
  have "b \<in> set (k # ys @ b # zs)" by simp
  then have "pv s b \<in> set (k # ys @ b # zs) \<and> nx s b \<in> set (k # ys @ b # zs)"
    using ring_closed [OF assms(2)] by blast
  with x assms(3) have "x \<noteq> pv s b" "x \<noteq> nx s b" by blast+
  then show "nx (unlink b s) x = nx s x \<and> pv (unlink b s) x = pv s x"
    by (simp add: unlink_def Let_def nx_set_nx pv_set_nx nx_set_pv pv_set_pv)
qed

lemma append_ring:
  "ring (nx s) (pv s) h xs \<Longrightarrow> b \<notin> set (h # xs) \<Longrightarrow>
    ring (nx (append h b s)) (pv (append h b s)) h (xs @ [b])"
  using ring_append [of "nx s" "pv s" h xs b]
  by (simp add: append_def Let_def nx_set_nx pv_set_nx nx_set_pv pv_set_pv)

lemma push_ring:
  "ring (nx s) (pv s) h xs \<Longrightarrow> b \<notin> set (h # xs) \<Longrightarrow>
    ring (nx (push h b s)) (pv (push h b s)) h (b # xs)"
  using ring_push [of "nx s" "pv s" h xs b]
  by (simp add: push_def Let_def nx_set_nx pv_set_nx nx_set_pv pv_set_pv)

lemma push_other:
  assumes "ring (nx s) (pv s) h xs" "ring (nx s) (pv s) k ys"
    "set (h # xs) \<inter> set (k # ys) = {}" "b \<notin> set (h # xs)"
  shows "ring (nx (push k b s)) (pv (push k b s)) h xs"
proof (rule ring_cong [OF assms(1)])
  fix x
  assume x: "x \<in> set (h # xs)"
  have "nx s k \<in> set (k # ys)" using ring_closed [OF assms(2)] by simp
  with x assms(3,4) have "x \<noteq> nx s k" "x \<noteq> k" "x \<noteq> b" "k \<noteq> b \<or> x \<noteq> b" by auto
  then show "nx (push k b s) x = nx s x \<and> pv (push k b s) x = pv s x"
    by (auto simp: push_def Let_def nx_set_nx pv_set_nx nx_set_pv pv_set_pv)
qed

text \<open>Moving an element from its ring to the front of another one.\<close>

lemma move_ring:
  assumes "ring (nx s) (pv s) k (ys @ b # zs)" "ring (nx s) (pv s) h xs"
    "set (h # xs) \<inter> set (k # ys @ b # zs) = {}"
  shows "ring (nx (push h b (unlink b s))) (pv (push h b (unlink b s))) k (ys @ zs)"
    and "ring (nx (push h b (unlink b s))) (pv (push h b (unlink b s))) h (b # xs)"
proof -
  have k: "ring (nx (unlink b s)) (pv (unlink b s)) k (ys @ zs)" by (rule unlink_ring [OF assms(1)])
  have h: "ring (nx (unlink b s)) (pv (unlink b s)) h xs"
    by (rule unlink_other [OF assms(2) assms(1) assms(3)])
  have "b \<notin> set (h # xs)" "b \<notin> set (k # ys @ zs)" "set (k # ys @ zs) \<inter> set (h # xs) = {}"
    using assms by (auto simp: ring_def)
  with push_ring [OF h] push_other [OF k h]
  show "ring (nx (push h b (unlink b s))) (pv (push h b (unlink b s))) k (ys @ zs)"
    "ring (nx (push h b (unlink b s))) (pv (push h b (unlink b s))) h (b # xs)" by simp_all
qed

text \<open>The same where the element is on the ring it is pushed to.\<close>

lemma refresh_ring:
  assumes "ring (nx s) (pv s) h (ys @ b # zs)"
  shows "ring (nx (push h b (unlink b s))) (pv (push h b (unlink b s))) h (b # ys @ zs)"
  using push_ring [OF unlink_ring [OF assms]] assms by (simp add: ring_def)

lemma refresh_other:
  assumes "ring (nx s) (pv s) h (ys @ b # zs)" "ring (nx s) (pv s) k xs"
    "set (k # xs) \<inter> set (h # ys @ b # zs) = {}"
  shows "ring (nx (push h b (unlink b s))) (pv (push h b (unlink b s))) k xs"
  by (rule push_other [OF unlink_other [OF assms(2,1,3)] unlink_ring [OF assms(1)]])
    (use assms(3) in auto)

end

text \<open>Both pairs of fields of a buffer header are such links.\<close>

interpretation av: linked "\<lambda>s b. av_forw (bufs s b)" "\<lambda>s b. av_back (bufs s b)"
  "\<lambda>a v. set_buf a (\<lambda>b. b\<lparr>av_forw := v\<rparr>)" "\<lambda>a v. set_buf a (\<lambda>b. b\<lparr>av_back := v\<rparr>)"
  by unfold_locales (simp_all add: fun_eq_iff)

interpretation dv: linked "\<lambda>s b. b_forw (bufs s b)" "\<lambda>s b. b_back (bufs s b)"
  "\<lambda>a v. set_buf a (\<lambda>b. b\<lparr>b_forw := v\<rparr>)" "\<lambda>a v. set_buf a (\<lambda>b. b\<lparr>b_back := v\<rparr>)"
  by unfold_locales (simp_all add: fun_eq_iff)

abbreviation av_ring :: "kst \<Rightarrow> nat list \<Rightarrow> bool" where
  "av_ring s xs \<equiv> ring (\<lambda>b. av_forw (bufs s b)) (\<lambda>b. av_back (bufs s b)) bfreelist xs"

abbreviation dev_ring :: "kst \<Rightarrow> nat \<Rightarrow> nat list \<Rightarrow> bool" where
  "dev_ring s dp xs \<equiv> ring (\<lambda>b. b_forw (bufs s b)) (\<lambda>b. b_back (bufs s b)) dp xs"

lemma av_append_is: "av_append bp s = av.append bfreelist bp s"
  by (simp add: av_append_def av.append_def)

lemma notavail_is:
  "notavail bp s = set_buf bp (\<lambda>b. b\<lparr>b_flags := b_flags b OR B_BUSY\<rparr>) (av.unlink bp s)"
  by (simp add: notavail_def av.unlink_def Let_def)

lemma dev_unlink_is: "dev_unlink bp s = dv.unlink bp s"
  by (simp only: dev_unlink_def dv.unlink_def Let_def)

lemma dev_push_is: "dev_push dp bp s = dv.push dp bp s"
  by (simp only: dev_push_def dv.push_def Let_def)

section \<open>What the routines do to the fields\<close>

lemma av_append_fields [simp]:
  "b_flags (bufs (av_append p s) b) = b_flags (bufs s b)"
  "b_forw (bufs (av_append p s) b) = b_forw (bufs s b)"
  "b_back (bufs (av_append p s) b) = b_back (bufs s b)"
  "b_dev (bufs (av_append p s) b) = b_dev (bufs s b)"
  "b_blkno (bufs (av_append p s) b) = b_blkno (bufs s b)"
  "b_data (bufs (av_append p s) b) = b_data (bufs s b)"
  "b_error (bufs (av_append p s) b) = b_error (bufs s b)"
  "b_wcount (bufs (av_append p s) b) = b_wcount (bufs s b)"
  "b_addr (bufs (av_append p s) b) = b_addr (bufs s b)"
  "b_xmem (bufs (av_append p s) b) = b_xmem (bufs s b)"
  by (simp_all add: av_append_def Let_def)

lemma brelse_fields:
  "b_flags (bufs (brelse p s) b) =
    (let f = (if b = bfreelist then clr (b_flags (bufs s b)) B_WANTED else b_flags (bufs s b))
     in if b = p then clr f (B_WANTED OR B_BUSY OR B_ASYNC) else f)"
  "b_forw (bufs (brelse p s) b) = b_forw (bufs s b)"
  "b_back (bufs (brelse p s) b) = b_back (bufs s b)"
  "b_dev (bufs (brelse p s) b) =
    (if b = p \<and> has (b_flags (bufs s p)) B_ERROR then b_dev (bufs s b) OR 0xff else b_dev (bufs s b))"
  "b_blkno (bufs (brelse p s) b) = b_blkno (bufs s b)"
  "b_data (bufs (brelse p s) b) = b_data (bufs s b)"
  "b_error (bufs (brelse p s) b) = b_error (bufs s b)"
  "b_wcount (bufs (brelse p s) b) = b_wcount (bufs s b)"
  "b_addr (bufs (brelse p s) b) = b_addr (bufs s b)"
  "b_xmem (bufs (brelse p s) b) = b_xmem (bufs s b)"
  by (auto simp: brelse_def Let_def clr_noop)

lemma notavail_fields [simp]:
  "b_flags (bufs (notavail p s) b) =
    (if b = p then b_flags (bufs s b) OR B_BUSY else b_flags (bufs s b))"
  "b_forw (bufs (notavail p s) b) = b_forw (bufs s b)"
  "b_back (bufs (notavail p s) b) = b_back (bufs s b)"
  "b_dev (bufs (notavail p s) b) = b_dev (bufs s b)"
  "b_blkno (bufs (notavail p s) b) = b_blkno (bufs s b)"
  "b_data (bufs (notavail p s) b) = b_data (bufs s b)"
  "b_error (bufs (notavail p s) b) = b_error (bufs s b)"
  "b_wcount (bufs (notavail p s) b) = b_wcount (bufs s b)"
  "b_addr (bufs (notavail p s) b) = b_addr (bufs s b)"
  "b_xmem (bufs (notavail p s) b) = b_xmem (bufs s b)"
  by (simp_all add: notavail_def Let_def)

lemma dev_unlink_fields [simp]:
  "b_flags (bufs (dev_unlink p s) b) = b_flags (bufs s b)"
  "av_forw (bufs (dev_unlink p s) b) = av_forw (bufs s b)"
  "av_back (bufs (dev_unlink p s) b) = av_back (bufs s b)"
  "b_dev (bufs (dev_unlink p s) b) = b_dev (bufs s b)"
  "b_blkno (bufs (dev_unlink p s) b) = b_blkno (bufs s b)"
  "b_data (bufs (dev_unlink p s) b) = b_data (bufs s b)"
  "b_error (bufs (dev_unlink p s) b) = b_error (bufs s b)"
  "b_wcount (bufs (dev_unlink p s) b) = b_wcount (bufs s b)"
  "b_addr (bufs (dev_unlink p s) b) = b_addr (bufs s b)"
  "b_xmem (bufs (dev_unlink p s) b) = b_xmem (bufs s b)"
  by (simp_all add: dev_unlink_def Let_def)

lemma dev_push_fields [simp]:
  "b_flags (bufs (dev_push dp p s) b) = b_flags (bufs s b)"
  "av_forw (bufs (dev_push dp p s) b) = av_forw (bufs s b)"
  "av_back (bufs (dev_push dp p s) b) = av_back (bufs s b)"
  "b_dev (bufs (dev_push dp p s) b) = b_dev (bufs s b)"
  "b_blkno (bufs (dev_push dp p s) b) = b_blkno (bufs s b)"
  "b_data (bufs (dev_push dp p s) b) = b_data (bufs s b)"
  "b_error (bufs (dev_push dp p s) b) = b_error (bufs s b)"
  "b_wcount (bufs (dev_push dp p s) b) = b_wcount (bufs s b)"
  "b_addr (bufs (dev_push dp p s) b) = b_addr (bufs s b)"
  "b_xmem (bufs (dev_push dp p s) b) = b_xmem (bufs s b)"
  by (simp_all add: dev_push_def Let_def)

lemma rebind_fields [simp]:
  "b_flags (bufs (rebind p dp dev blkno s) b) =
    (if b = p then B_BUSY OR B_RELOC else b_flags (bufs s b))"
  "av_forw (bufs (rebind p dp dev blkno s) b) = av_forw (bufs s b)"
  "av_back (bufs (rebind p dp dev blkno s) b) = av_back (bufs s b)"
  "b_dev (bufs (rebind p dp dev blkno s) b) = (if b = p then dev else b_dev (bufs s b))"
  "b_blkno (bufs (rebind p dp dev blkno s) b) = (if b = p then blkno else b_blkno (bufs s b))"
  "b_data (bufs (rebind p dp dev blkno s) b) = b_data (bufs s b)"
  "b_error (bufs (rebind p dp dev blkno s) b) = b_error (bufs s b)"
  "b_wcount (bufs (rebind p dp dev blkno s) b) = b_wcount (bufs s b)"
  "b_addr (bufs (rebind p dp dev blkno s) b) = b_addr (bufs s b)"
  "b_xmem (bufs (rebind p dp dev blkno s) b) = b_xmem (bufs s b)"
  by (simp_all add: rebind_def Let_def)

section \<open>The rings under the routines\<close>

lemma brelse_av:
  assumes "av_ring s xs" "p \<notin> set (bfreelist # xs)"
  shows "av_ring (brelse p s) (xs @ [p])"
  unfolding brelse_def Let_def av_append_is
  by (rule av.append_ring [OF _ assms(2)]) (rule ring_cong [OF assms(1)], simp)

lemma notavail_av:
  assumes "av_ring s (xs @ p # ys)"
  shows "av_ring (notavail p s) (xs @ ys)"
  unfolding notavail_is by (rule ring_cong [OF av.unlink_ring [OF assms]]) simp

lemma brelse_dev: "dev_ring (brelse p s) dp xs \<longleftrightarrow> dev_ring s dp xs"
  by (simp add: brelse_fields)

lemma notavail_dev: "dev_ring (notavail p s) dp xs \<longleftrightarrow> dev_ring s dp xs"
  by simp

lemma rebind_move:
  assumes "dev_ring s k (ys @ p # zs)" "dev_ring s h xs" "set (h # xs) \<inter> set (k # ys @ p # zs) = {}"
  shows "dev_ring (rebind p h dev blkno s) k (ys @ zs)"
    and "dev_ring (rebind p h dev blkno s) h (p # xs)"
proof -
  let ?s = "set_buf p (\<lambda>b. b\<lparr>b_flags := B_BUSY OR B_RELOC\<rparr>) s"
  have k: "dev_ring ?s k (ys @ p # zs)" by (rule ring_cong [OF assms(1)]) simp
  have h: "dev_ring ?s h xs" by (rule ring_cong [OF assms(2)]) simp
  note m = dv.move_ring [OF k h assms(3)]
  show "dev_ring (rebind p h dev blkno s) k (ys @ zs)"
    by (rule ring_cong [OF m(1)]) (simp add: rebind_def Let_def dev_unlink_is dev_push_is)
  show "dev_ring (rebind p h dev blkno s) h (p # xs)"
    by (rule ring_cong [OF m(2)]) (simp add: rebind_def Let_def dev_unlink_is dev_push_is)
qed

lemma rebind_refresh:
  assumes "dev_ring s h (ys @ p # zs)" "dev_ring s k xs" "set (k # xs) \<inter> set (h # ys @ p # zs) = {}"
  shows "dev_ring (rebind p h dev blkno s) h (p # ys @ zs)"
    and "dev_ring (rebind p h dev blkno s) k xs"
proof -
  let ?s = "set_buf p (\<lambda>b. b\<lparr>b_flags := B_BUSY OR B_RELOC\<rparr>) s"
  have h: "dev_ring ?s h (ys @ p # zs)" by (rule ring_cong [OF assms(1)]) simp
  have k: "dev_ring ?s k xs" by (rule ring_cong [OF assms(2)]) simp
  show "dev_ring (rebind p h dev blkno s) h (p # ys @ zs)"
    by (rule ring_cong [OF dv.refresh_ring [OF h]]) (simp add: rebind_def Let_def dev_unlink_is dev_push_is)
  show "dev_ring (rebind p h dev blkno s) k xs"
    by (rule ring_cong [OF dv.refresh_other [OF h k assms(3)]])
      (simp add: rebind_def Let_def dev_unlink_is dev_push_is)
qed

section \<open>The search\<close>

lemma find_block_chain:
  assumes "links (\<lambda>b. b_forw (t b)) pv (xs @ [dp])" "dp \<notin> set xs" "length xs < n"
  shows "find_block n t dp dev blkno (hd (xs @ [dp])) =
    (case find (\<lambda>b. b_blkno (t b) = blkno \<and> b_dev (t b) = dev) xs of None \<Rightarrow> BNULL | Some b \<Rightarrow> b)"
  using assms
proof (induction xs arbitrary: n)
  case Nil
  then show ?case by (cases n) auto
next
  case (Cons x xs)
  then obtain m where n: "n = Suc m" by (cases n) auto
  have "links (\<lambda>b. b_forw (t b)) pv (xs @ [dp])" "b_forw (t x) = hd (xs @ [dp])"
    using Cons.prems(1) by (cases xs; simp)+
  then show ?case using Cons.IH [of m] Cons.prems n by auto
qed

lemma find_block_ring:
  assumes "dev_ring s dp xs" "length xs \<le> NBUF"
  shows "find_block (NBUF + 1) (bufs s) dp dev blkno (b_forw (bufs s dp)) =
    (case find (\<lambda>b. b_blkno (bufs s b) = blkno \<and> b_dev (bufs s b) = dev) xs of
       None \<Rightarrow> BNULL | Some b \<Rightarrow> b)"
proof -
  have "b_forw (bufs s dp) = hd (xs @ [dp])" using ring_next [OF assms(1)] by simp
  moreover have "links (\<lambda>b. b_forw (bufs s b)) (\<lambda>b. b_back (bufs s b)) (xs @ [dp])"
    using assms(1) by (cases xs) (auto simp: ring_def)
  ultimately show ?thesis using find_block_chain [of "bufs s" _ xs dp] assms by (simp add: ring_def)
qed

section \<open>The invariant of the cache\<close>

text \<open>
  \<open>av\<close> lists the available buffers in the order they were released, \<open>dv\<close> the buffers of the
  disk, \<open>nd\<close> those of no device.  A buffer is available just when it is not busy, and no two
  buffers of the disk have the same block; but a read or write error leaves a buffer with minor
  device 255, and such buffers may agree.
\<close>

definition cache_inv :: "kst \<Rightarrow> nat list \<Rightarrow> nat list \<Rightarrow> nat list \<Rightarrow> bool" where
  "cache_inv s av dv nd \<longleftrightarrow>
     av_ring s av \<and> dev_ring s rktab dv \<and> dev_ring s bfreelist nd
   \<and> set dv \<union> set nd = {1..<16} \<and> set dv \<inter> set nd = {}
   \<and> set av = {b \<in> {1..<16}. \<not> has (b_flags (bufs s b)) B_BUSY}
   \<and> (\<forall>b \<in> set dv. \<forall>c \<in> set dv. b_dev (bufs s b) = b_dev (bufs s c) \<longrightarrow>
        b_blkno (bufs s b) = b_blkno (bufs s c) \<longrightarrow> minor (b_dev (bufs s b)) \<noteq> 255 \<longrightarrow> b = c)"

lemma cache_parts:
  assumes "cache_inv s av dv nd"
  shows "av_ring s av" "dev_ring s rktab dv" "dev_ring s bfreelist nd"
    "set dv \<union> set nd = {1..<16}" "set dv \<inter> set nd = {}"
    "set av = {b \<in> {1..<16}. \<not> has (b_flags (bufs s b)) B_BUSY}"
  using assms unfolding cache_inv_def by blast+

lemma cache_len:
  assumes "cache_inv s av dv nd"
  shows "length dv \<le> NBUF" "length nd \<le> NBUF" "length av \<le> NBUF"
proof -
  have "length xs \<le> 15" if "distinct xs" "set xs \<subseteq> {1..<16 :: nat}" for xs
    using card_mono [OF _ that(2)] distinct_card [OF that(1)] by simp
  moreover have "distinct dv" "distinct nd" "distinct av"
    using assms by (auto simp: cache_inv_def ring_def)
  moreover have "set dv \<subseteq> {1..<16}" "set nd \<subseteq> {1..<16}" "set av \<subseteq> {1..<16}"
    using assms unfolding cache_inv_def by blast+
  ultimately show "length dv \<le> NBUF" "length nd \<le> NBUF" "length av \<le> NBUF" by blast+
qed

lemma cache_brelse:
  assumes inv: "cache_inv s av dv nd" and p: "p \<in> {1..<16}" "has (b_flags (bufs s p)) B_BUSY"
  shows "cache_inv (brelse p s) (av @ [p]) dv nd"
proof -
  have rings: "av_ring s av" "dev_ring s rktab dv" "dev_ring s bfreelist nd"
    and sets: "set dv \<union> set nd = {1..<16}" "set dv \<inter> set nd = {}"
    and av: "set av = {b \<in> {1..<16}. \<not> has (b_flags (bufs s b)) B_BUSY}"
    and uniq: "\<And>b c. b \<in> set dv \<Longrightarrow> c \<in> set dv \<Longrightarrow> b_dev (bufs s b) = b_dev (bufs s c) \<Longrightarrow>
        b_blkno (bufs s b) = b_blkno (bufs s c) \<Longrightarrow> minor (b_dev (bufs s b)) \<noteq> 255 \<Longrightarrow> b = c"
    using inv unfolding cache_inv_def by blast+
  have "p \<notin> set (bfreelist # av)" using p av by auto
  then have "av_ring (brelse p s) (av @ [p])" by (rule brelse_av [OF rings(1)])
  moreover have "set (av @ [p]) = {b \<in> {1..<16}. \<not> has (b_flags (bufs (brelse p s) b)) B_BUSY}"
    using av p by (auto simp: brelse_fields Let_def has_def clr_def and.assoc)
  moreover have "b = c"
    if bc: "b \<in> set dv" "c \<in> set dv" and d: "b_dev (bufs (brelse p s) b) = b_dev (bufs (brelse p s) c)"
      and k: "b_blkno (bufs (brelse p s) b) = b_blkno (bufs (brelse p s) c)"
      and m: "minor (b_dev (bufs (brelse p s) b)) \<noteq> 255" for b c
  proof -
    have minor: "minor (x OR 0xff) = 255" for x
      by (rule bit_word_eqI) (auto simp: minor_def bit_simps)
    have "b_dev (bufs (brelse p s) b) = b_dev (bufs s b)" "b_dev (bufs (brelse p s) c) = b_dev (bufs s c)"
      using m minor d by (metis brelse_fields(4))+
    with uniq [OF bc] d k m show ?thesis by (simp add: brelse_fields(5))
  qed
  ultimately show ?thesis using rings sets unfolding cache_inv_def brelse_dev by blast
qed

end
