(* ===== verification/CacheFacts.thy ===== *)
theory CacheFacts
  imports BufFacts
begin

text \<open>
  The buffer cache from outside: \<open>binit\<close> sets it up, \<open>getblk\<close> finds the buffer of a block or
  takes the least recently released one for it, \<open>brelse\<close> gives a buffer back.  All keep the
  invariant \<open>cache_inv\<close>.
\<close>

section \<open>Setting up\<close>

lemma binit_buf_fields:
  "p \<noteq> bfreelist \<Longrightarrow> b_forw (bufs (binit_buf p s) b) =
    ((\<lambda>b. b_forw (bufs s b))(p := b_forw (bufs s bfreelist), bfreelist := p)) b"
  "p \<noteq> bfreelist \<Longrightarrow> b_back (bufs (binit_buf p s) b) =
    ((\<lambda>b. b_back (bufs s b))(p := bfreelist, b_forw (bufs s bfreelist) := p)) b"
  "p \<noteq> bfreelist \<Longrightarrow> b \<noteq> bfreelist \<Longrightarrow>
    b_flags (bufs (binit_buf p s) b) = (if b = p then 0 else b_flags (bufs s b))"
  by (auto simp: binit_buf_def Let_def brelse_fields)

lemma binit_buf_av:
  assumes "av_ring s xs" "p \<notin> set (bfreelist # xs)"
  shows "av_ring (binit_buf p s) (xs @ [p])"
  unfolding binit_buf_def Let_def
  by (rule brelse_av [OF _ assms(2)]) (rule ring_cong [OF assms(1)], simp)

lemma binit_buf_dev:
  assumes "dev_ring s bfreelist xs" "p \<notin> set (bfreelist # xs)"
  shows "dev_ring (binit_buf p s) bfreelist (p # xs)"
  by (rule ring_cong [OF ring_push [OF assms]]) (use assms(2) in \<open>simp add: binit_buf_fields\<close>)

lemma binit_loop:
  assumes "av_ring s []" "dev_ring s bfreelist []" "n \<le> 16" "1 \<le> n"
  shows "av_ring (fold binit_buf [1..<n] s) [1..<n]
    \<and> dev_ring (fold binit_buf [1..<n] s) bfreelist (rev [1..<n])
    \<and> (\<forall>b \<in> {1..<n}. b_flags (bufs (fold binit_buf [1..<n] s) b) = 0)"
  using assms(4,3)
proof (induction n rule: dec_induct)
  case base
  then show ?case using assms by simp
next
  case (step n)
  let ?s = "fold binit_buf [1..<n] s"
  from step have "n \<notin> set (bfreelist # [1..<n])" "n \<notin> set (bfreelist # rev [1..<n])" "n \<noteq> bfreelist"
    by auto
  moreover have "av_ring ?s [1..<n]" "dev_ring ?s bfreelist (rev [1..<n])"
    "\<forall>b \<in> {1..<n}. b_flags (bufs ?s b) = 0"
    using step by simp_all
  ultimately have "av_ring (binit_buf n ?s) ([1..<n] @ [n])"
    "dev_ring (binit_buf n ?s) bfreelist (n # rev [1..<n])"
    "\<forall>b \<in> {1..<Suc n}. b_flags (bufs (binit_buf n ?s) b) = 0"
    by (blast intro: binit_buf_av binit_buf_dev)+
      (use \<open>\<forall>b \<in> {1..<n}. _ b\<close> \<open>n \<noteq> bfreelist\<close> step.prems in \<open>auto simp: binit_buf_fields(3)\<close>)
  then show ?case using step by simp
qed

lemma binit_flags_cache:
  "cache_inv (binit s) [1..<16] [] (rev [1..<16]) \<and> (\<forall>b \<in> {1..<16}. b_flags (bufs (binit s) b) = 0)"
proof -
  let ?s = "set_buf bfreelist (\<lambda>b. b\<lparr>b_forw := bfreelist, b_back := bfreelist,
                av_forw := bfreelist, av_back := bfreelist\<rparr>) s"
  let ?t = "fold binit_buf [1..<16] ?s"
  have b: "binit s = set_buf rktab (\<lambda>b. b\<lparr>b_forw := rktab, b_back := rktab\<rparr>) ?t"
    by (simp only: binit_def Let_def) simp
  have loop: "av_ring ?t [1..<16]" "dev_ring ?t bfreelist (rev [1..<16])"
    "\<forall>b \<in> {1..<16}. b_flags (bufs ?t b) = 0"
    using binit_loop [of ?s 16] by (simp_all add: ring_empty)
  have "av_ring (binit s) [1..<16]" unfolding b by (rule ring_cong [OF loop(1)]) simp
  moreover have "dev_ring (binit s) bfreelist (rev [1..<16])"
    unfolding b by (rule ring_cong [OF loop(2)]) auto
  moreover have "dev_ring (binit s) rktab []" unfolding b by (simp add: ring_empty)
  moreover have flags: "\<forall>q \<in> {1..<16}. b_flags (bufs (binit s) q) = 0" unfolding b using loop(3) by auto
  moreover have "set [1..<16] = {q \<in> {1..<16}. \<not> has (b_flags (bufs (binit s) q)) B_BUSY}"
    using flags by auto
  ultimately show ?thesis by (simp add: cache_inv_def)
qed

lemmas binit_cache = binit_flags_cache [THEN conjunct1]

lemma unat_minor: "unat (minor d) = unat d mod 256"
proof -
  have "minor d = take_bit 8 d" by (simp add: minor_def take_bit_eq_mask mask_eq_exp_minus_1)
  then show ?thesis by (simp add: take_bit_eq_mod unat_mod)
qed

lemma major_disk:
  assumes "unat d < 256"
  shows "major d = 0"
proof -
  have "sint d = int (unat d)" by (rule sint16_eq_unat) (use assms in simp)
  then have "sint (major d) = int (unat d) div 256"
    by (simp add: major_def sint_signed_drop_bit_eq drop_bit_eq_div)
  moreover have "int (unat d) div 256 = 0"
    by (intro div_pos_pos_trivial) (use assms in linarith)+
  ultimately have "sint (major d) = 0" by (simp only:)
  then show ?thesis by (simp add: signed_eq_0_iff)
qed

lemma major_minor [simp]: "major (minor d) = 0"
  by (rule major_disk) (simp add: unat_minor)

text \<open>
  From any state \<open>binit\<close> makes a cache in which all the buffers are available, in
  the order of the table, and the ring of the disk is empty, so no block of a disk is found in it.
\<close>

lemma binit_makes_cache:
  "cache_inv (binit s) [1..<16] [] (rev [1..<16]) \<and> incore (minor d) blkno (binit s) = BNULL"
proof
  show inv: "cache_inv (binit s) [1..<16] [] (rev [1..<16])" by (rule binit_cache)
  then have "dev_ring (binit s) rktab []" by (simp add: cache_inv_def)
  then show "incore (minor d) blkno (binit s) = BNULL"
    using find_block_ring [of "binit s" rktab "[]"]
    by (auto simp: incore_def Let_def bdev_tab_def ring_empty)
qed

section \<open>Getting a buffer\<close>

definition bound_to :: "kst \<Rightarrow> u16 \<Rightarrow> u16 \<Rightarrow> nat \<Rightarrow> bool" where
  "bound_to s dev blkno b \<longleftrightarrow> b_blkno (bufs s b) = blkno \<and> b_dev (bufs s b) = dev"

lemma dev_positive: "unat dev < 256 \<Longrightarrow> sint (dev :: u16) \<ge> 0"
  by (subst sint16_eq_unat) simp_all

lemma getblk_turn:
  assumes "unat dev < 256"
  shows "getblk_loop (Suc n) dev blkno s =
    (let bp = find_block (NBUF + 1) (bufs s) rktab dev blkno (b_forw (bufs s rktab))
     in if bp \<noteq> BNULL then
          (if has (b_flags (bufs s bp)) B_BUSY then
             andthen (sleep (ChBuf bp) PRIBIO
                        (set_buf bp (\<lambda>b. b\<lparr>b_flags := b_flags b OR B_WANTED\<rparr>) s))
               (\<lambda>_. getblk_loop n dev blkno)
           else Ret bp (notavail bp s))
        else if av_forw (bufs s bfreelist) = bfreelist then
          andthen (sleep (ChBuf bfreelist) PRIBIO
                     (set_buf bfreelist (\<lambda>b. b\<lparr>b_flags := b_flags b OR B_WANTED\<rparr>) s))
            (\<lambda>_. getblk_loop n dev blkno)
        else
          (let bp = av_forw (bufs s bfreelist);
               s = notavail bp s
           in if has (b_flags (bufs s bp)) B_DELWRI then
                andthen (bwrite bp (set_buf bp (\<lambda>b. b\<lparr>b_flags := b_flags b OR B_ASYNC\<rparr>) s))
                  (\<lambda>_. getblk_loop n dev blkno)
              else Ret bp (rebind bp rktab dev blkno s)))"
  using dev_positive [OF assms] major_disk [OF assms] by (simp add: Let_def bdev_tab_def)

lemma getblk_start:
  assumes "unat dev < 256"
  shows "getblk dev blkno s = getblk_loop SPINS dev blkno s"
  using major_disk [OF assms] by (simp add: getblk_def sle16_def del: getblk_loop.simps)

lemma cache_search:
  assumes "cache_inv s av dv nd"
  shows "find_block (NBUF + 1) (bufs s) rktab dev blkno (b_forw (bufs s rktab)) =
    (case find (bound_to s dev blkno) dv of None \<Rightarrow> BNULL | Some b \<Rightarrow> b)"
proof -
  have "dev_ring s rktab dv" using assms by (simp add: cache_inv_def)
  from find_block_ring [OF this cache_len(1) [OF assms]] show ?thesis
    by (simp add: bound_to_def [abs_def])
qed

lemma cache_unique:
  assumes "cache_inv s av dv nd" "b \<in> set dv" "c \<in> set dv"
    "b_dev (bufs s b) = b_dev (bufs s c)" "b_blkno (bufs s b) = b_blkno (bufs s c)"
    "minor (b_dev (bufs s b)) \<noteq> 255"
  shows "b = c"
proof -
  have "\<forall>b \<in> set dv. \<forall>c \<in> set dv. b_dev (bufs s b) = b_dev (bufs s c) \<longrightarrow>
      b_blkno (bufs s b) = b_blkno (bufs s c) \<longrightarrow> minor (b_dev (bufs s b)) \<noteq> 255 \<longrightarrow> b = c"
    using assms(1) unfolding cache_inv_def by (elim conjE)
  with assms(2-) show ?thesis by blast
qed

lemma cache_bound:
  assumes inv: "cache_inv s av dv nd" and b: "b \<in> set dv" "bound_to s dev blkno b" and dev: "unat dev < 255"
  shows "find (bound_to s dev blkno) dv = Some b"
proof -
  obtain c where c: "find (bound_to s dev blkno) dv = Some c"
    using b by (cases "find (bound_to s dev blkno) dv") (auto simp: find_None_iff)
  then have "c \<in> set dv" "bound_to s dev blkno c" by (auto simp: find_Some_iff)
  moreover have "minor dev \<noteq> 255"
  proof
    assume "minor dev = 255"
    then have "unat (minor dev) = 255" by simp
    then show False using dev unat_minor [of dev] by simp
  qed
  ultimately have "c = b" using cache_unique [OF inv] b by (simp add: bound_to_def)
  with c show ?thesis by simp
qed

lemma cache_notavail:
  assumes inv: "cache_inv s av dv nd" and b: "b \<in> set av"
  shows "cache_inv (notavail b s) (remove1 b av) dv nd"
proof -
  obtain xs ys where av: "av = xs @ b # ys" "b \<notin> set xs" using b by (meson split_list_first)
  have ring: "av_ring (notavail b s) (remove1 b av)"
    using notavail_av [of s xs b ys] inv av by (simp add: cache_inv_def remove1_append)
  have "distinct av" "set av = {c \<in> {1..<16}. \<not> has (b_flags (bufs s c)) B_BUSY}"
    using inv by (simp_all add: cache_inv_def ring_def)
  then have "set (remove1 b av) = {c \<in> {1..<16}. \<not> has (b_flags (bufs s c)) B_BUSY} - {b}"
    by (simp only: set_remove1_eq)
  also have "\<dots> = {c \<in> {1..<16}. \<not> has (b_flags (bufs (notavail b s) c)) B_BUSY}"
    by auto
  finally show ?thesis
    using inv ring unfolding cache_inv_def notavail_dev notavail_fields by blast
qed

text \<open>
  C1: a block that is in the cache and not busy is found: \<open>getblk\<close> returns its one buffer
  with its data, now busy and no longer available, and touches neither the disk nor the
  other buffers' contents.
\<close>

theorem getblk_hit:
  assumes "cache_inv s av dv nd" and "unat dev < 255"
    and "b \<in> set dv" and "bound_to s dev blkno b" and "\<not> has (b_flags (bufs s b)) B_BUSY"
  shows "\<exists>s'. getblk dev blkno s = Ret b s'
    \<and> cache_inv s' (remove1 b av) dv nd \<and> bound_to s' dev blkno b
    \<and> b_flags (bufs s' b) = b_flags (bufs s b) OR B_BUSY
    \<and> (\<forall>c. b_data (bufs s' c) = b_data (bufs s c)) \<and> disk s' = disk s"
proof -
  have b: "b \<in> {1..<16}" using assms(1,3) unfolding cache_inv_def by blast
  then have "b \<in> set av" using assms(1,5) by (simp add: cache_inv_def)
  note inv = cache_notavail [OF assms(1) this]
  have dev: "unat dev < 256" using assms(2) by simp
  have "getblk dev blkno s = getblk_loop (Suc 99) dev blkno s"
    by (simp only: getblk_start [OF dev]) simp
  also have "\<dots> = Ret b (notavail b s)"
    unfolding getblk_turn [OF dev] cache_search [OF assms(1)] cache_bound [OF assms(1,3,4,2)]
    using assms(5) b by (simp add: Let_def)
  finally show ?thesis using inv assms(4) by (simp add: bound_to_def notavail_def Let_def)
qed

lemma cache_rebind:
  assumes inv: "cache_inv s av dv nd" and p: "p \<in> {1..<16}" "has (b_flags (bufs s p)) B_BUSY"
    and free: "\<forall>c \<in> set dv. \<not> bound_to s dev blkno c"
  shows "cache_inv (rebind p rktab dev blkno s) av (p # remove1 p dv) (remove1 p nd)"
proof -
  let ?s = "rebind p rktab dev blkno s"
  have rings: "av_ring s av" "dev_ring s rktab dv" "dev_ring s bfreelist nd"
    and sets: "set dv \<union> set nd = {1..<16}" "set dv \<inter> set nd = {}"
    and av: "set av = {b \<in> {1..<16}. \<not> has (b_flags (bufs s b)) B_BUSY}"
    using cache_parts [OF inv] .
  have d: "distinct dv" "distinct nd" using rings by (simp_all add: ring_def)
  have heads: "bfreelist \<notin> set dv \<union> set nd" "rktab \<notin> set dv \<union> set nd" by (simp_all only: sets) simp_all
  have "dev_ring ?s rktab (p # remove1 p dv) \<and> dev_ring ?s bfreelist (remove1 p nd)"
  proof (cases "p \<in> set dv")
    case True
    then obtain ys zs where dv: "dv = ys @ p # zs" "p \<notin> set ys" by (meson split_list_first)
    have "set (bfreelist # nd) \<inter> set (rktab # ys @ p # zs) = {}"
      using heads sets(2) unfolding dv by auto
    then have "dev_ring ?s rktab (p # ys @ zs)" "dev_ring ?s bfreelist nd"
      using rebind_refresh [of s rktab ys p zs bfreelist nd] rings unfolding dv by blast+
    moreover have "remove1 p nd = nd" using True sets(2) by (auto intro: remove1_idem)
    ultimately show ?thesis using dv by (simp add: remove1_append)
  next
    case False
    then have "p \<in> set nd" using sets(1) p by blast
    then obtain ys zs where nd: "nd = ys @ p # zs" "p \<notin> set ys" by (meson split_list_first)
    have "set (rktab # dv) \<inter> set (bfreelist # ys @ p # zs) = {}"
      using heads sets(2) unfolding nd by auto
    then have "dev_ring ?s bfreelist (ys @ zs)" "dev_ring ?s rktab (p # dv)"
      using rebind_move [of s bfreelist ys p zs rktab dv] rings unfolding nd by blast+
    then show ?thesis using False nd by (simp add: remove1_append remove1_idem)
  qed
  moreover have "av_ring ?s av" by (rule ring_cong [OF rings(1)]) simp
  moreover have "set (p # remove1 p dv) \<union> set (remove1 p nd) = insert p (set dv \<union> set nd)"
    unfolding list.set set_remove1_eq [OF d(1)] set_remove1_eq [OF d(2)] by blast
  then have "set (p # remove1 p dv) \<union> set (remove1 p nd) = {1..<16}"
    unfolding sets(1) using p(1) by (simp only: insert_absorb)
  moreover have "set (p # remove1 p dv) \<inter> set (remove1 p nd) = {}"
    using sets(2) d by (auto simp: set_remove1_eq)
  moreover have "has (B_BUSY OR B_RELOC) B_BUSY" by simp
  then have "set av = {b \<in> {1..<16}. \<not> has (b_flags (bufs ?s b)) B_BUSY}"
    unfolding av rebind_fields using p(2) by (intro Collect_cong) simp
  moreover have in_dv: "x \<in> set dv" if "x \<in> set (p # remove1 p dv)" "x \<noteq> p" for x
    using that notin_set_remove1 [of x dv p] by auto
  moreover have "b = c"
    if bc: "b \<in> set (p # remove1 p dv)" "c \<in> set (p # remove1 p dv)"
      and same: "b_dev (bufs ?s b) = b_dev (bufs ?s c)" "b_blkno (bufs ?s b) = b_blkno (bufs ?s c)"
        "minor (b_dev (bufs ?s b)) \<noteq> 255" for b c
  proof (cases "b = p \<or> c = p")
    case True
    show ?thesis using in_dv True bc same free by (auto simp: bound_to_def split: if_splits)
  next
    case False
    then have "b \<in> set dv" "c \<in> set dv" using bc in_dv by blast+
    then show ?thesis using cache_unique [OF inv] False same by simp
  qed
  ultimately show ?thesis unfolding cache_inv_def by blast
qed

text \<open>A cache with one block in it, for the examples.\<close>

definition cached1 :: "kst \<Rightarrow> u16 \<Rightarrow> u16 \<Rightarrow> kst" where
  "cached1 s dev blkno = brelse 1 (rebind 1 rktab dev blkno (notavail 1 (binit s)))"

lemma upt_16: "[1..<16] = 1 # [2..<16 :: nat]" "remove1 1 (rev (1 # [2..<16 :: nat])) = rev [2..<16]"
  using upt_conv_Cons [of 1 16] by (simp_all add: numeral_2_eq_2 remove1_append)

lemma cached1_inv: "cache_inv (cached1 s dev blkno) ([2..<16] @ [1]) [1] (rev [2..<16])"
proof -
  let ?t = "notavail 1 (binit s)"
  have "cache_inv ?t (remove1 1 [1..<16]) [] (rev [1..<16])"
    by (rule cache_notavail [OF binit_cache]) simp
  then have "cache_inv ?t [2..<16] [] (rev (1 # [2..<16]))" by (simp only: upt_16 remove1.simps simp_thms if_True)
  from cache_rebind [OF this, of 1 dev blkno]
  have "cache_inv (rebind 1 rktab dev blkno ?t) [2..<16] [1] (remove1 1 (rev (1 # [2..<16])))" by simp
  then have "cache_inv (rebind 1 rktab dev blkno ?t) [2..<16] [1] (rev [2..<16])" by (simp only: upt_16)
  from cache_brelse [OF this, of 1] show ?thesis by (simp add: cached1_def del: upt_rec_numeral)
qed

lemma cached1_fields:
  "bound_to (cached1 s dev blkno) dev blkno 1" "b_flags (bufs (cached1 s dev blkno) 1) = B_RELOC"
  by (simp_all add: cached1_def bound_to_def brelse_fields)

lemma getblk_hit_witness:
  "\<exists>s'. getblk 3 77 (cached1 (kernel0 0 (\<lambda>_. 0) (\<lambda>_ _. 0)) 3 77) = Ret 1 s'
    \<and> cache_inv s' [2..<16] [1] (rev [2..<16])"
proof -
  let ?s = "cached1 (kernel0 0 (\<lambda>_. 0) (\<lambda>_ _. 0)) 3 77"
  have "remove1 1 ([2..<16] @ [1 :: nat]) = [2..<16]" by (simp add: remove1_append)
  moreover have "bound_to ?s 3 77 1" "\<not> has (b_flags (bufs ?s 1)) B_BUSY"
    by (rule cached1_fields(1)) (simp only: cached1_fields, simp)
  ultimately show ?thesis
    using getblk_hit [of ?s "[2..<16] @ [1]" "[1]" "rev [2..<16]" 3 1 77, OF cached1_inv]
    by (simp only:) auto
qed

lemma getblk_takes:
  assumes "cache_inv s (p # av) dv nd" "unat dev < 255"
    "\<forall>c \<in> set dv. \<not> bound_to s dev blkno c" "\<not> has (b_flags (bufs s p)) B_DELWRI"
  shows "getblk dev blkno s = Ret p (rebind p rktab dev blkno (notavail p s))"
    and "cache_inv (rebind p rktab dev blkno (notavail p s)) av (p # remove1 p dv) (remove1 p nd)"
    and "p \<in> {1..<16}"
proof -
  let ?t = "notavail p s"
  let ?s = "rebind p rktab dev blkno ?t"
  have dev: "unat dev < 256" using assms(2) by simp
  have inv: "cache_inv ?t av dv nd" using cache_notavail [OF assms(1), of p] by simp
  have "set (p # av) = {b \<in> {1..<16}. \<not> has (b_flags (bufs s b)) B_BUSY}"
    by (rule cache_parts(6) [OF assms(1)])
  then show p: "p \<in> {1..<16}" by auto
  show "cache_inv ?s av (p # remove1 p dv) (remove1 p nd)"
    by (rule cache_rebind [OF inv p]) (use assms(3) in \<open>simp_all add: bound_to_def\<close>)
  have "av_ring s (p # av)" by (rule cache_parts(1) [OF assms(1)])
  then have hd: "av_forw (bufs s bfreelist) = p" by (auto dest: ring_next)
  have none: "find (bound_to s dev blkno) dv = None" using assms(3) by (simp add: find_None_iff)
  have "getblk dev blkno s = getblk_loop (Suc 99) dev blkno s"
    by (simp only: getblk_start [OF dev]) simp
  also have "\<dots> = Ret p ?s"
    unfolding getblk_turn [OF dev] cache_search [OF assms(1)] hd none
    using assms(4) p by (simp add: Let_def)
  finally show "getblk dev blkno s = Ret p ?s" .
qed



end
