(* ===== verification/DiskFacts.thy ===== *)
theory DiskFacts
  imports CacheFacts
begin

text \<open>
  Block I/O through the driver: with the disk idle, \<open>bread\<close> of a block delivers the sector's
  words and \<open>bwrite\<close> stores them; requests are served in the order they were queued; and which
  block numbers the driver lets through.
\<close>

section \<open>One transfer\<close>

lemma word_count_1: "sle16 (1 - 1) (0 :: u16)"
  by (simp add: sle16_def)

text \<open>The state after the only request is done, and the waking of its waiter.\<close>

definition served :: "nat \<Rightarrow> kst \<Rightarrow> buf" where
  "served p s =
     (let b = bufs s p
      in b\<lparr>b_flags := clr (b_flags b OR B_DONE) B_WANTED,
           b_data := (if io_cmd s \<noteq> 0 then bcopy (disk s (unat (io_sector s))) 0 (b_data b) 0 256
                      else b_data b)\<rparr>)"

lemma procs_wakeup_same:
  assumes "c \<noteq> NoChan" "procs d = procs s" "runout d = runout s"
  shows "procs (wakeup c d) q = (if q < NPROC \<and> (p_wchan (procs s q) = c
       \<or> swapper_called c s \<and> p_wchan (procs s q) = ChRunout)
     then run1 (procs s q) else procs s q)"
proof -
  have "swapper_called c d = swapper_called c s"
    using assms(2,3) by (simp add: swapper_called_def calls_swapper_def)
  then show ?thesis by (simp only: procs_wakeup [OF assms(1)] assms(2,3))
qed

lemma iodone_sync:
  "\<not> has (b_flags (bufs s p)) B_ASYNC \<Longrightarrow>
    iodone p s = wakeup (ChBuf p) (set_buf p (\<lambda>b. b\<lparr>b_flags := clr (b_flags b OR B_DONE) B_WANTED\<rparr>) s)"
  by (simp add: iodone_def Let_def comp_def)

lemma ideintr_last:
  assumes "d_active s \<noteq> 0" "d_actf s = p" "io_count s = 1" "io_buf s = IoCache p 0"
    "av_forw (bufs s p) = BNULL" "\<not> has (b_flags (bufs s p)) B_ASYNC"
  shows "bufs (ideintr s) = (bufs s)(p := served p s)"
    and "disk (ideintr s) = disk s" and "d_active (ideintr s) = 0" and "d_actf (ideintr s) = BNULL"
    and "usr (ideintr s) = usr s" and "inodes (ideintr s) = inodes s" and "mounts (ideintr s) = mounts s"
    and "procs (ideintr s) q = (if q < NPROC \<and> (p_wchan (procs s q) = ChBuf p
       \<or> swapper_called (ChBuf p) s \<and> p_wchan (procs s q) = ChRunout)
     then run1 (procs s q) else procs s q)"
proof -
  let ?a = "s\<lparr>io_sector := io_sector s + 1, io_count := 0\<rparr>"
  let ?b = "if io_cmd s \<noteq> 0 then set_buf p (\<lambda>x. x\<lparr>b_data :=
      bcopy (disk s (unat (io_sector s))) 0 (b_data x) 0 256\<rparr>) ?a else ?a"
  let ?c = "?b\<lparr>io_buf := IoCache p 256, d_active := 0, d_errcnt := 0, d_actf := BNULL\<rparr>"
  let ?d = "set_buf p (\<lambda>b. b\<lparr>b_flags := clr (b_flags b OR B_DONE) B_WANTED\<rparr>) ?c"
  have "ideintr s = rkintr (?b\<lparr>io_buf := IoCache p 256\<rparr>)"
  proof -
    have "1 - 1 = (0 :: u16)" "sle16 0 0" by (simp_all add: sle16_def)
    then show ?thesis
      unfolding ideintr_def Let_def using assms(3,4)
      by (cases "io_cmd s = 0") (simp_all add: io_put_def io_advance_def)
  qed
  also have "\<dots> = rkstart (iodone p ?c)"
    using assms by (simp add: rkintr_def Let_def)
  also have "iodone p ?c = wakeup (ChBuf p) ?d"
    by (rule iodone_sync) (use assms(6) in simp)
  finally have i: "ideintr s = rkstart (wakeup (ChBuf p) ?d)" .
  have r: "rkstart (wakeup (ChBuf p) ?d) = wakeup (ChBuf p) ?d" by (simp add: rkstart_def)
  show "bufs (ideintr s) = (bufs s)(p := served p s)"
    unfolding i r by (simp add: served_def Let_def fun_eq_iff)
  show "disk (ideintr s) = disk s" "d_active (ideintr s) = 0" "d_actf (ideintr s) = BNULL"
    "usr (ideintr s) = usr s" "inodes (ideintr s) = inodes s" "mounts (ideintr s) = mounts s"
    unfolding i r by simp_all
  show "procs (ideintr s) q = (if q < NPROC \<and> (p_wchan (procs s q) = ChBuf p
       \<or> swapper_called (ChBuf p) s \<and> p_wchan (procs s q) = ChRunout)
     then run1 (procs s q) else procs s q)"
    unfolding i r by (rule procs_wakeup_same) simp_all
qed

lemma sleep_transfer:
  assumes "curproc s < NPROC" "d_active s \<noteq> 0" "d_actf s = p" "io_count s = 1"
    "io_buf s = IoCache p 0" "av_forw (bufs s p) = BNULL" "\<not> has (b_flags (bufs s p)) B_ASYNC"
  shows "\<exists>s'. sleep (ChBuf p) PRIBIO s = Ret () s'
    \<and> bufs s' = (bufs s)(p := served p s) \<and> disk s' = disk s
    \<and> d_active s' = 0 \<and> d_actf s' = BNULL \<and> usr s' = usr s \<and> inodes s' = inodes s \<and> mounts s' = mounts s"
proof -
  let ?m = "sleep_mark (ChBuf p) PRIBIO s"
  have m: "p_wchan (procs ?m (curproc s)) = ChBuf p" "p_stat (procs ?m (curproc s)) = SSLEEP"
    by (simp_all add: sleep_mark_def Let_def)
  have sv: "served p ?m = served p s" by (simp add: served_def Let_def)
  note i = ideintr_last [of ?m p, simplified sleep_mark_frame sv, OF assms(2-7)]
  let ?i = "ideintr ?m"
  have run: "p_stat (procs ?i (curproc s)) = SRUN" using m(1) assms(1) by (simp add: i(8))
  have "await AWAIT ?m = await (Suc 999) ?m" by simp
  also have "\<dots> = await 999 ?i" by (subst await.simps(2)) (use m(2) assms(2) in simp)
  also have "await 999 ?i = await (Suc 998) ?i" by simp
  also have "\<dots> = ?i" by (subst await.simps(2)) (use run i(5) in simp)
  finally have "sleep (ChBuf p) PRIBIO s = Ret () (resumed ?i)"
    using run i(5) by (simp add: sleep_def Let_def)
  then show ?thesis using i by (simp add: resumed_def)
qed

section \<open>Starting and waiting\<close>

definition quiet :: "kst \<Rightarrow> bool" where
  "quiet s \<longleftrightarrow> d_active s = 0 \<and> d_actf s = BNULL \<and> curproc s < NPROC"

text \<open>The block numbers \<open>rkstrategy\<close> lets through, and the sector they are at.\<close>

definition in_range :: "u16 \<Rightarrow> u16 \<Rightarrow> bool" where
  "in_range dev blkno \<longleftrightarrow>
     \<not> sle16 (NRKBLK * (if sle16 (minor dev - 7) 0 then 1 else minor dev - 7)) blkno"

definition sector :: "u16 \<Rightarrow> u16 \<Rightarrow> nat" where
  "sector dev blkno = unat (blkno + NRKBLK * minor dev)"

definition wblock :: "block \<Rightarrow> block" where
  "wblock d = (\<lambda>i. if i < 256 then d i else 0)"

text \<open>A request to an idle disk starts at once.\<close>

lemma rkstrategy_quiet:
  assumes "d_active s = 0" "d_actf s = BNULL" "p \<noteq> BNULL" "in_range (b_dev (bufs s p)) (b_blkno (bufs s p))"
    "\<not> has (b_flags (bufs s p)) B_PHYS"
  shows "rkstrategy p s =
    ideio (b_blkno (bufs s p) + NRKBLK * minor (b_dev (bufs s p))) 1 (IoCache p 0)
      (b_flags (bufs s p) AND B_READ)
      ((set_buf p (\<lambda>b. b\<lparr>av_forw := BNULL\<rparr>) s)\<lparr>d_actf := p, d_actl := p, d_active := 1\<rparr>)"
  using assms by (simp add: rkstrategy_def in_range_def Let_def rkstart_def devstart_def)

lemma strategy_quiet:
  fixes s p
  defines "b \<equiv> bufs s p"
  assumes "quiet s" "p \<noteq> BNULL" "in_range (b_dev b) (b_blkno b)" "\<not> has (b_flags b) B_PHYS"
    "unat (b_dev b) < 256"
  shows "d_active (strategy p s) = 1" "d_actf (strategy p s) = p" "io_count (strategy p s) = 1"
    "io_buf (strategy p s) = IoCache p 0" "usr (strategy p s) = usr s" "inodes (strategy p s) = inodes s" "mounts (strategy p s) = mounts s"
    "bufs (strategy p s) = (bufs s)(p := b\<lparr>av_forw := BNULL\<rparr>)"
    "io_cmd (strategy p s) = b_flags b AND B_READ" "unat (io_sector (strategy p s)) = sector (b_dev b) (b_blkno b)"
    "disk (strategy p s) = (if b_flags b AND B_READ = 0
       then (disk s)(sector (b_dev b) (b_blkno b) := wblock (b_data b)) else disk s)"
proof -
  have "strategy p s = rkstrategy p s"
    using major_disk assms(6) by (simp add: strategy_def bdev_tab_def b_def)
  then have r: "strategy p s = ideio (b_blkno b + NRKBLK * minor (b_dev b)) 1 (IoCache p 0) (b_flags b AND B_READ)
      ((set_buf p (\<lambda>b. b\<lparr>av_forw := BNULL\<rparr>) s)\<lparr>d_actf := p, d_actl := p, d_active := 1\<rparr>)"
    using rkstrategy_quiet assms by (simp add: quiet_def b_def)
  show "d_active (strategy p s) = 1" "d_actf (strategy p s) = p" "io_count (strategy p s) = 1"
    "io_buf (strategy p s) = IoCache p 0" "usr (strategy p s) = usr s" "inodes (strategy p s) = inodes s" "mounts (strategy p s) = mounts s"
    "bufs (strategy p s) = (bufs s)(p := b\<lparr>av_forw := BNULL\<rparr>)"
    "io_cmd (strategy p s) = b_flags b AND B_READ" "unat (io_sector (strategy p s)) = sector (b_dev b) (b_blkno b)"
    "disk (strategy p s) = (if b_flags b AND B_READ = 0
       then (disk s)(sector (b_dev b) (b_blkno b) := wblock (b_data b)) else disk s)"
    unfolding r
    by (cases "b_flags b AND B_READ = 0";
      simp add: ideio_def Let_def idestart_def io_get_def sector_def wblock_def b_def fun_eq_iff)+
qed

text \<open>A transfer to or from an idle disk, waited for.\<close>

lemma iowait_strategy:
  fixes s p
  defines "b \<equiv> bufs s p"
  assumes "quiet s" "p \<noteq> BNULL" "in_range (b_dev b) (b_blkno b)" "\<not> has (b_flags b) B_PHYS"
    "unat (b_dev b) < 256" "\<not> has (b_flags b) B_ASYNC" "\<not> has (b_flags b) B_DONE"
    "\<not> has (b_flags b) B_ERROR"
  shows "\<exists>s'. iowait p (strategy p s) = Ret () s' \<and> quiet s' \<and> usr s' = usr s
    \<and> inodes s' = inodes s \<and> mounts s' = mounts s
    \<and> disk s' = (if b_flags b AND B_READ = 0
         then (disk s)(sector (b_dev b) (b_blkno b) := wblock (b_data b)) else disk s)
    \<and> bufs s' = (bufs s)(p := b\<lparr>av_forw := BNULL, b_flags := clr (b_flags b OR B_DONE) B_WANTED,
         b_data := (if b_flags b AND B_READ = 0 then b_data b
                    else bcopy (disk s (sector (b_dev b) (b_blkno b))) 0 (b_data b) 0 256)\<rparr>)"
proof -
  let ?t = "strategy p s"
  note q = strategy_quiet [of s p, folded b_def, OF assms(2-6)]
  have tb: "bufs ?t p = b\<lparr>av_forw := BNULL\<rparr>" using q(8) by simp
  have "curproc ?t < NPROC" "d_active ?t \<noteq> 0" "\<not> has (b_flags (bufs ?t p)) B_ASYNC" "av_forw (bufs ?t p) = BNULL"
    using q assms by (simp_all add: quiet_def tb)
  with sleep_transfer [of ?t p] q obtain u where u: "sleep (ChBuf p) PRIBIO ?t = Ret () u"
    "bufs u = (bufs ?t)(p := served p ?t)" "disk u = disk ?t" "d_active u = 0" "d_actf u = BNULL"
    "usr u = usr ?t" "inodes u = inodes ?t" "mounts u = mounts ?t" by blast
  have ub: "bufs u p = b\<lparr>av_forw := BNULL, b_flags := clr (b_flags b OR B_DONE) B_WANTED,
         b_data := (if b_flags b AND B_READ = 0 then b_data b
                    else bcopy (disk s (sector (b_dev b) (b_blkno b))) 0 (b_data b) 0 256)\<rparr>"
    unfolding u(2) fun_upd_same served_def tb Let_def q(9,10,11) by simp
  have fin: "has (b_flags (bufs u p)) B_DONE" "\<not> has (b_flags (bufs u p)) B_ERROR"
    unfolding ub using assms(9) by simp_all
  have "iowait_loop SPINS p ?t = iowait_loop (Suc 99) p ?t" by simp
  also have "\<dots> = iowait_loop 99 p u"
    by (subst iowait_loop.simps(2)) (use assms(8) tb u(1) in simp)
  also have "\<dots> = iowait_loop (Suc 98) p u" by simp
  also have "\<dots> = Ret () u" by (subst iowait_loop.simps(2)) (use fin in simp)
  finally have "iowait p ?t = Ret () u" using fin(2) by (simp add: iowait_def geterror_def)
  moreover have "bufs u = (bufs s)(p := bufs u p)" unfolding u(2) q(8) by simp
  ultimately show ?thesis using u(3-8) q(5-7,11) assms(2) ub unfolding quiet_def by metis
qed

section \<open>Reading and writing a block\<close>

text \<open>The invariant depends on the links, the block and the busy flag of the buffers only.\<close>

lemma cache_same:
  assumes inv: "cache_inv s av dv nd"
    and links: "\<And>b. b \<in> set (bfreelist # av) \<Longrightarrow>
      av_forw (bufs t b) = av_forw (bufs s b) \<and> av_back (bufs t b) = av_back (bufs s b)"
    and rest: "\<And>b. b_forw (bufs t b) = b_forw (bufs s b) \<and> b_back (bufs t b) = b_back (bufs s b)
      \<and> b_dev (bufs t b) = b_dev (bufs s b) \<and> b_blkno (bufs t b) = b_blkno (bufs s b)
      \<and> (has (b_flags (bufs t b)) B_BUSY \<longleftrightarrow> has (b_flags (bufs s b)) B_BUSY)"
  shows "cache_inv t av dv nd"
proof -
  note parts = cache_parts [OF inv]
  have "av_ring t av" by (rule ring_cong [OF parts(1)]) (use links in blast)
  moreover have "dev_ring t rktab dv" by (rule ring_cong [OF parts(2)]) (use rest in blast)
  moreover have "dev_ring t bfreelist nd" by (rule ring_cong [OF parts(3)]) (use rest in blast)
  moreover have "set av = {b \<in> {1..<16}. \<not> has (b_flags (bufs t b)) B_BUSY}"
    unfolding parts(6) using rest by blast
  moreover have "\<forall>b \<in> set dv. \<forall>c \<in> set dv. b_dev (bufs t b) = b_dev (bufs t c) \<longrightarrow>
        b_blkno (bufs t b) = b_blkno (bufs t c) \<longrightarrow> minor (b_dev (bufs t b)) \<noteq> 255 \<longrightarrow> b = c"
    using cache_unique [OF inv] rest by metis
  ultimately show ?thesis unfolding cache_inv_def using parts(4,5) by blast
qed

text \<open>A busy buffer is off the list of available ones, so its forward link is free for the driver.\<close>

lemma cache_busy_update:
  assumes inv: "cache_inv s av dv nd" and p: "has (b_flags (bufs s p)) B_BUSY" "p \<in> {1..<16}"
    and t: "bufs t = (bufs s)(p := b)" "b_forw b = b_forw (bufs s p)" "b_back b = b_back (bufs s p)"
      "b_dev b = b_dev (bufs s p)" "b_blkno b = b_blkno (bufs s p)" "has (b_flags b) B_BUSY"
  shows "cache_inv t av dv nd"
proof (rule cache_same [OF inv])
  have "p \<notin> set (bfreelist # av)" using cache_parts(6) [OF inv] p by auto
  then show "av_forw (bufs t x) = av_forw (bufs s x) \<and> av_back (bufs t x) = av_back (bufs s x)"
    if "x \<in> set (bfreelist # av)" for x
    using that t(1) by auto
qed (use t p in auto)

lemma bread_idle:
  assumes "cache_inv s (p # av) dv nd" and "unat dev < 255"
    and "\<forall>c \<in> set dv. \<not> bound_to s dev blkno c" and "\<not> has (b_flags (bufs s p)) B_DELWRI"
    and "quiet s" and "in_range dev blkno"
  shows "\<exists>s'. bread dev blkno s = Ret p s' \<and> bound_to s' dev blkno p
    \<and> (\<forall>i. i < 256 \<longrightarrow> b_data (bufs s' p) i = disk s (sector dev blkno) i)
    \<and> disk s' = disk s \<and> usr s' = usr s \<and> quiet s' \<and> inodes s' = inodes s \<and> mounts s' = mounts s
    \<and> has (b_flags (bufs s' p)) B_BUSY
    \<and> cache_inv s' av (p # remove1 p dv) (remove1 p nd)"
proof -
  let ?r = "rebind p rktab dev blkno (notavail p s)"
  note g = getblk_takes [OF assms(1-4)]
  have frame: "disk ?r = disk s" "usr ?r = usr s" "d_active ?r = d_active s" "d_actf ?r = d_actf s"
    "inodes ?r = inodes s" "mounts ?r = mounts s"
    by (simp_all add: rebind_def dev_push_def dev_unlink_def notavail_def Let_def)
  have flags: "b_flags (bufs ?r p) = B_BUSY OR B_RELOC" by simp
  define t where "t = set_buf p (\<lambda>b. b\<lparr>b_flags := b_flags b OR B_READ, b_wcount := -256\<rparr>) ?r"
  have tb: "bufs t p = (bufs ?r p)\<lparr>b_flags := 137, b_wcount := -256\<rparr>"
    using flags by (simp add: t_def)
  have "quiet t" using assms(5) frame by (simp add: quiet_def t_def)
  with iowait_strategy [of t p] tb g(3) assms(2,6)
  obtain u where u: "iowait p (strategy p t) = Ret () u" "quiet u" "usr u = usr t" "disk u = disk t"
    "inodes u = inodes t" "mounts u = mounts t"
    "bufs u = (bufs t)(p := (bufs t p)\<lparr>av_forw := BNULL, b_flags := clr (137 OR B_DONE) B_WANTED,
       b_data := bcopy (disk t (sector dev blkno)) 0 (b_data (bufs t p)) 0 256\<rparr>)"
    by auto
  have td: "disk t = disk s" "usr t = usr s" "inodes t = inodes s" "mounts t = mounts s" using frame by (simp_all add: t_def)
  have "bread dev blkno s = Ret p u"
    using u(1) flags by (simp add: bread_def g(1) start_read_def t_def has_def)
  moreover have "cache_inv u av (p # remove1 p dv) (remove1 p nd)"
  proof (rule cache_busy_update [OF g(2)])
    show "bufs u = (bufs ?r)(p := bufs u p)" unfolding u(7) t_def by simp
  qed (use g(3) u(7) tb in \<open>simp_all add: flags\<close>)
  moreover have "b_data (bufs u p) i = disk s (sector dev blkno) i" if "i < 256" for i
    using that u(7) td by (simp add: bcopy_def)
  moreover have "bound_to u dev blkno p" using u(7) tb by (simp add: bound_to_def)
  moreover have "has (b_flags (bufs u p)) B_BUSY" using u(7) tb by simp
  ultimately show ?thesis using u td by auto
qed


lemma av_append_frame [simp]:
  "d_active (av_append p s) = d_active s" "d_actf (av_append p s) = d_actf s"
  "usr (av_append p s) = usr s" "disk (av_append p s) = disk s"
  by (simp_all add: av_append_def Let_def)

lemma brelse_frame [simp]:
  "d_active (brelse p s) = d_active s" "d_actf (brelse p s) = d_actf s"
  "usr (brelse p s) = usr s" "disk (brelse p s) = disk s"
  by (simp_all add: brelse_def Let_def)

lemma binit_buf_frame [simp]:
  "d_active (binit_buf p s) = d_active s" "d_actf (binit_buf p s) = d_actf s"
  "usr (binit_buf p s) = usr s" "disk (binit_buf p s) = disk s"
  by (simp_all add: binit_buf_def Let_def)

lemma binit_frame:
  "d_active (binit s) = d_active s" "d_actf (binit s) = d_actf s"
  "usr (binit s) = usr s" "disk (binit s) = disk s"
  using fold_frame [of d_active binit_buf] fold_frame [of d_actf binit_buf]
    fold_frame [of usr binit_buf] fold_frame [of disk binit_buf]
  by (simp_all add: binit_def Let_def del: upt_rec_numeral upt_Suc)

text \<open>The kernel after \<open>binit\<close>, with the disk \<open>d\<close>.\<close>

definition fresh :: "(nat \<Rightarrow> block) \<Rightarrow> kst" where
  "fresh d = binit (kernel0 0 (\<lambda>_. 0) d)"

lemma fresh_quiet: "quiet (fresh d)" "disk (fresh d) = d"
  by (simp_all add: fresh_def quiet_def binit_frame kernel0_def zero_user_def)

lemma fresh_cache: "cache_inv (fresh d) (1 # [2..<16]) [] (rev (1 # [2..<16]))"
  using binit_cache unfolding fresh_def upt_16 .

lemma in_range_5: "in_range 0 5"
  by (simp add: in_range_def minor_def sle16_def)


text \<open>
  C4: with the disk idle, \<open>bwrite\<close> of a busy buffer stores its words in the sector of its block,
  changes no other sector, and releases the buffer with the block still in it, done and clean.
\<close>

theorem bwrite_stores:
  fixes s p
  defines "b \<equiv> bufs s p"
  assumes "cache_inv s av dv nd" and "p \<in> {1..<16}" and "has (b_flags b) B_BUSY"
    and "\<not> has (b_flags b) B_ASYNC" and "\<not> has (b_flags b) B_PHYS" and "unat (b_dev b) < 256"
    and "quiet s" and "in_range (b_dev b) (b_blkno b)"
  shows "\<exists>s'. bwrite p s = Ret () s'
    \<and> disk s' = (disk s)(sector (b_dev b) (b_blkno b) := wblock (b_data b))
    \<and> cache_inv s' (av @ [p]) dv nd \<and> quiet s' \<and> usr s' = usr s
    \<and> bound_to s' (b_dev b) (b_blkno b) p \<and> b_data (bufs s' p) = b_data b
    \<and> has (b_flags (bufs s' p)) B_DONE \<and> \<not> has (b_flags (bufs s' p)) B_DELWRI
    \<and> \<not> has (b_flags (bufs s' p)) B_BUSY"
proof -
  define f where "f = clr (b_flags b) (B_READ OR B_DONE OR B_ERROR OR B_DELWRI)"
  define t where "t = set_buf p (\<lambda>b. b\<lparr>b_flags := clr (b_flags b) (B_READ OR B_DONE OR B_ERROR OR B_DELWRI),
                                 b_wcount := -256\<rparr>) s"
  have tb: "bufs t p = b\<lparr>b_flags := f, b_wcount := -256\<rparr>" by (simp add: t_def b_def f_def)
  have f: "has f m \<longleftrightarrow> has (b_flags b) m" if "(B_READ OR B_DONE OR B_ERROR OR B_DELWRI) AND m = 0" for m
    unfolding f_def using that by (rule has_clr)
  have f0: "f AND B_READ = 0" "\<not> has f B_DONE" "\<not> has f B_ERROR" "\<not> has f B_DELWRI"
    by (simp_all add: f_def has_def clr_def and.assoc)
  have "quiet t" using assms(8) by (simp add: quiet_def t_def)
  then obtain u where u: "iowait p (strategy p t) = Ret () u" "quiet u" "usr u = usr t"
    "disk u = (disk t)(sector (b_dev b) (b_blkno b) := wblock (b_data b))"
    "bufs u = (bufs t)(p := (bufs t p)\<lparr>av_forw := BNULL, b_flags := clr (f OR B_DONE) B_WANTED,
       b_data := b_data b\<rparr>)"
    using iowait_strategy [of t p] tb f f0 assms by auto
  have ub: "b_flags (bufs u p) = clr (f OR B_DONE) B_WANTED" "b_dev (bufs u p) = b_dev b"
    "b_blkno (bufs u p) = b_blkno b" "b_data (bufs u p) = b_data b"
    using u(5) tb by simp_all
  have busy: "has (b_flags (bufs u p)) B_BUSY" unfolding ub using f [of B_BUSY] assms by simp
  have ut: "disk t = disk s" "usr t = usr s" by (simp_all add: t_def)
  have "cache_inv u av dv nd"
  proof (rule cache_busy_update [OF assms(2)])
    show "bufs u = (bufs s)(p := bufs u p)" unfolding u(5) t_def by simp
  qed (use assms busy u(5) tb in \<open>simp_all add: b_def\<close>)
  note rel = cache_brelse [OF this assms(3) busy]
  have fr: "disk (brelse p u) = disk u" "usr (brelse p u) = usr u" "quiet (brelse p u) = quiet u"
    by (simp_all add: brelse_def av_append_def Let_def quiet_def)
  have "bwrite p s = Ret () (brelse p u)"
    using u(1) assms(5) by (simp add: bwrite_def Let_def t_def b_def)
  moreover have "bound_to (brelse p u) (b_dev b) (b_blkno b) p" "b_data (bufs (brelse p u) p) = b_data b"
    using ub f0 by (simp_all add: bound_to_def brelse_fields)
  moreover have "b_flags (bufs (brelse p u) p) = clr (clr (f OR B_DONE) B_WANTED) (B_WANTED OR B_BUSY OR B_ASYNC)"
    using assms(3) by (simp add: brelse_fields(1) ub Let_def)
  then have "has (b_flags (bufs (brelse p u) p)) B_DONE" "\<not> has (b_flags (bufs (brelse p u) p)) B_DELWRI"
    "\<not> has (b_flags (bufs (brelse p u) p)) B_BUSY"
    using f0 by simp_all (simp add: has_def clr_def and.assoc)
  ultimately show ?thesis using rel u fr ut by auto
qed

lemma bwrite_stores_witness:
  "\<exists>s s'. bwrite 1 s = Ret () s' \<and> disk s' 5 3 = 0 \<and> disk s 5 3 = 7"
proof -
  let ?d = "\<lambda>_ _. 7" let ?f = "fresh (\<lambda>_ _. 7)"
  define s where "s = clrbuf 1 (rebind 1 rktab 0 5 (notavail 1 ?f))"
  have "\<not> has (b_flags (bufs ?f 1)) B_DELWRI" using binit_flags_cache by (simp add: fresh_def)
  from getblk_takes(2) [OF fresh_cache _ _ this, of 0 5]
  have "cache_inv (rebind 1 rktab 0 5 (notavail 1 ?f)) [2..<16] [1] (remove1 1 (rev (1 # [2..<16])))" by simp
  then have "cache_inv s [2..<16] [1] (remove1 1 (rev (1 # [2..<16])))"
    by (rule cache_same) (auto simp: s_def clrbuf_def)
  moreover have "quiet s \<and> disk s = (\<lambda>_ _. 7)"
    using fresh_quiet [of "\<lambda>_ _. 7"]
    by (simp add: s_def clrbuf_def quiet_def rebind_def dev_push_def dev_unlink_def notavail_def Let_def)
  moreover have "b_flags (bufs s 1) = 136" "b_dev (bufs s 1) = 0" "b_blkno (bufs s 1) = 5"
    "b_data (bufs s 1) 3 = 0"
    by (simp_all add: s_def clrbuf_def)
  moreover have "sector 0 5 = 5" by (simp add: sector_def minor_def)
  moreover have "has (136 :: u16) B_BUSY" "\<not> has (136 :: u16) B_ASYNC" "\<not> has (136 :: u16) B_PHYS" by simp_all
  moreover have "(1 :: nat) \<in> {1..<16}" by simp
  ultimately obtain s' where "bwrite 1 s = Ret () s'" "disk s' = (\<lambda>_ _. 7)(5 := wblock (b_data (bufs s 1)))"
    using bwrite_stores [of s "[2..<16]" "[1]" "remove1 1 (rev (1 # [2..<16]))" 1] in_range_5
    by (simp only:) auto
  then show ?thesis
    using \<open>quiet s \<and> disk s = (\<lambda>_ _. 7)\<close> \<open>b_data (bufs s 1) 3 = 0\<close>
    by (intro exI [of _ s] exI [of _ s']) (simp add: wblock_def)
qed

section \<open>The queue of the disk\<close>

fun qchain :: "(nat \<Rightarrow> buf) \<Rightarrow> nat list \<Rightarrow> bool" where
  "qchain t [] \<longleftrightarrow> True"
| "qchain t [x] \<longleftrightarrow> av_forw (t x) = BNULL"
| "qchain t (x # y # zs) \<longleftrightarrow> av_forw (t x) = y \<and> qchain t (y # zs)"

text \<open>The requests \<open>xs\<close> are queued, the first one is under way.\<close>

definition rk_queue :: "kst \<Rightarrow> nat list \<Rightarrow> bool" where
  "rk_queue s xs \<longleftrightarrow> distinct xs \<and> BNULL \<notin> set xs \<and> qchain (bufs s) xs
     \<and> d_actf s = (if xs = [] then BNULL else hd xs) \<and> (xs \<noteq> [] \<longrightarrow> d_actl s = last xs)
     \<and> (d_active s = 0 \<longleftrightarrow> xs = [])"

lemma qchain_cong: "(\<And>x. x \<in> set xs \<Longrightarrow> av_forw (t x) = av_forw (t' x)) \<Longrightarrow> qchain t xs = qchain t' xs"
  by (induction t xs rule: qchain.induct) auto

lemma qchain_snoc:
  assumes "qchain t xs" "distinct xs" "p \<notin> set xs" "xs \<noteq> []" "av_forw (t' p) = BNULL"
    "av_forw (t' (last xs)) = p" "\<And>x. x \<in> set (butlast xs) \<Longrightarrow> av_forw (t' x) = av_forw (t x)"
  shows "qchain t' (xs @ [p])"
  using assms by (induction t xs rule: qchain.induct) (auto split: if_splits)

lemma devstart_frame [simp]:
  "bufs (devstart p s) = bufs s" "d_actf (devstart p s) = d_actf s" "d_actl (devstart p s) = d_actl s"
  "d_active (devstart p s) = d_active s"
  by (simp_all add: devstart_def Let_def ideio_def idestart_def split: prod.splits)

lemma qchain_tail: "qchain t (x # xs) \<Longrightarrow> qchain t xs \<and> av_forw (t x) = (if xs = [] then BNULL else hd xs)"
  by (cases xs) auto

lemma rk_enqueue:
  assumes q: "rk_queue s xs" and p: "p \<notin> set xs" "p \<noteq> BNULL"
    and r: "in_range (b_dev (bufs s p)) (b_blkno (bufs s p))"
  shows "rk_queue (rkstrategy p s) (xs @ [p])"
proof (cases "xs = []")
  case True
  with q r p show ?thesis
    by (auto simp: rk_queue_def rkstrategy_def in_range_def Let_def rkstart_def)
next
  case False
  let ?a = "set_buf p (\<lambda>b. b\<lparr>av_forw := BNULL\<rparr>) s"
  let ?t = "(set_buf (last xs) (\<lambda>b. b\<lparr>av_forw := p\<rparr>) ?a)\<lparr>d_actl := p\<rparr>"
  from q False have q': "distinct xs" "qchain (bufs s) xs" "d_actf s = hd xs" "d_actl s = last xs"
    "d_active s \<noteq> 0" "BNULL \<notin> set xs"
    by (auto simp: rk_queue_def)
  have hd: "hd xs \<noteq> BNULL" using hd_in_set [OF False] q'(6) by metis
  have t: "rkstrategy p s = ?t"
    using r q' hd by (simp add: rkstrategy_def in_range_def Let_def)
  have "last xs \<noteq> p" using False p(1) last_in_set by metis
  moreover have "\<And>x. x \<in> set (butlast xs) \<Longrightarrow> x \<noteq> last xs \<and> x \<noteq> p"
    using q'(1) p(1) by (metis False append_butlast_last_id distinct_append in_set_butlastD
        disjoint_insert(1) list.set(2) not_distinct_conv_prefix)
  ultimately have "qchain (bufs ?t) (xs @ [p])"
    by (intro qchain_snoc [OF q'(2,1) p(1) False]) simp_all
  then show ?thesis unfolding t using q' hd p False by (simp add: rk_queue_def)
qed

lemma av_append_other:
  "x \<noteq> av_back (bufs s bfreelist) \<Longrightarrow> x \<noteq> p \<Longrightarrow> av_forw (bufs (av_append p s) x) = av_forw (bufs s x)"
  by (simp add: av_append_def Let_def)

lemma brelse_queue:
  assumes "av_ring s av" "x \<notin> set (bfreelist # av)" "x \<noteq> p"
  shows "av_forw (bufs (brelse p s) x) = av_forw (bufs s x)"
proof -
  have "av_back (bufs s bfreelist) \<in> set (bfreelist # av)" using ring_closed [OF assms(1)] by simp
  with assms(2) have "x \<noteq> av_back (bufs s bfreelist)" by blast
  with assms(2,3) show ?thesis by (simp add: brelse_def av_append_other Let_def)
qed

lemma iodone_queue:
  assumes "av_ring s av" "x \<notin> set (bfreelist # av)" "x \<noteq> p"
  shows "av_forw (bufs (iodone p s) x) = av_forw (bufs s x)"
proof (cases "has (b_flags (bufs s p)) B_ASYNC")
  case True
  let ?t = "set_buf p (\<lambda>b. b\<lparr>b_flags := b_flags b OR B_DONE\<rparr>) s"
  have "av_ring ?t av" by (rule ring_cong [OF assms(1)]) simp
  from brelse_queue [OF this assms(2,3)] True show ?thesis by (simp add: iodone_def Let_def)
qed (simp add: iodone_sync)

lemma iodone_frame [simp]:
  "d_active (iodone p s) = d_active s" "d_actf (iodone p s) = d_actf s" "usr (iodone p s) = usr s"
  "disk (iodone p s) = disk s" "d_actl (iodone p s) = d_actl s"
  by (simp_all add: iodone_def Let_def brelse_def av_append_def)

lemma iodone_done: "has (b_flags (bufs (iodone p s) p)) B_DONE"
  by (auto simp: iodone_def Let_def brelse_fields)

lemma rkstart_queue:
  assumes "d_active t = 0" "d_actf t = (if xs = [] then BNULL else hd xs)" "xs \<noteq> [] \<Longrightarrow> d_actl t = last xs"
    "distinct xs" "BNULL \<notin> set xs" "qchain (bufs t) xs" "xs \<noteq> [] \<Longrightarrow> hd xs \<noteq> BNULL"
  shows "rk_queue (rkstart t) xs"
  using assms by (cases "xs = []") (simp_all add: rk_queue_def rkstart_def)

lemma rk_complete:
  assumes q: "rk_queue s (p # xs)" and av: "av_ring s av" "set xs \<inter> set (bfreelist # av) = {}"
  shows "rk_queue (rkintr s) xs" "has (b_flags (bufs (rkintr s) p)) B_DONE"
proof -
  let ?a = "s\<lparr>d_active := 0, d_errcnt := 0, d_actf := av_forw (bufs s p)\<rparr>"
  let ?t = "iodone p ?a"
  have i: "rkintr s = rkstart ?t" using q by (simp add: rkintr_def rk_queue_def Let_def)
  have b: "bufs (rkintr s) = bufs ?t" unfolding i by (simp add: rkstart_def)
  then show "has (b_flags (bufs (rkintr s) p)) B_DONE" by (simp add: iodone_done)
  have n: "av_forw (bufs s p) = (if xs = [] then BNULL else hd xs)" and c: "qchain (bufs s) xs"
    using q qchain_tail [of "bufs s" p xs] by (simp_all add: rk_queue_def)
  have "av_ring ?a av" by (rule ring_cong [OF av(1)]) simp
  then have "av_forw (bufs ?t x) = av_forw (bufs s x)" if "x \<in> set xs" for x
    using iodone_queue [of ?a av x p] that av(2) q by (auto simp: rk_queue_def)
  then have "qchain (bufs ?t) xs = qchain (bufs s) xs" by (rule qchain_cong)
  with c have "qchain (bufs ?t) xs" by (simp only:)
  moreover have "BNULL \<notin> set xs" using q by (simp add: rk_queue_def)
  then have "xs \<noteq> [] \<Longrightarrow> hd xs \<noteq> BNULL" using hd_in_set [of xs] by metis
  moreover have "d_active ?t = 0" "d_actf ?t = (if xs = [] then BNULL else hd xs)" "d_actl ?t = d_actl s"
    by (simp_all add: n)
  ultimately show "rk_queue (rkintr s) xs"
    unfolding i by (intro rkstart_queue) (use q in \<open>auto simp: rk_queue_def\<close>)
qed



text \<open>
  \<open>rkstrategy\<close> compares the block number with the size of the device as ints, so a number
  of \<open>32768\<close> or more passes on a device of one pack, and the transfer goes to a sector outside of it.
\<close>

lemma rk_lets_negative_through:
  "in_range (of_nat (n mod 8)) (0x8000 OR blkno)
    \<and> (in_range (of_nat (n mod 8)) k \<longleftrightarrow> unat k < 4872 \<or> unat k \<ge> 32768)"
proof -
  let ?d = "of_nat (n mod 8) :: u16"
  have "n mod 8 \<in> {0, 1, 2, 3, 4, 5, 6, 7}" by auto
  then have "sle16 (minor ?d - 7) 0" by (auto simp: minor_def sle16_def)
  then have r: "in_range ?d k \<longleftrightarrow> sint k < 4872" for k
    by (auto simp: in_range_def sle16_def)
  have s: "sint k < 4872 \<longleftrightarrow> unat k < 4872 \<or> unat k \<ge> 32768" for k :: u16
  proof (cases "unat k < 32768")
    case True
    then show ?thesis using sint16_eq_unat [OF True] by linarith
  next
    case False
    have "\<not> 0 \<le> sint k"
    proof
      assume "0 \<le> sint k"
      moreover have "sint k < 32768" using sint_lt [of k] by simp
      ultimately have "uint k = sint k" by (simp add: uint_sint take_bit_eq_mod)
      then show False using False \<open>sint k < 32768\<close> by (simp add: unat_eq_nat_uint)
    qed
    then show ?thesis using False by linarith
  qed
  have "(0x8000 :: u16) \<le> 0x8000 OR blkno" by (rule le_word_or2)
  then have "unat (0x8000 OR blkno) \<ge> 32768" by (simp add: word_le_nat_alt)
  then show ?thesis using r s by blast
qed

end
