(* ===== verification/IoFacts.thy ===== *)
theory IoFacts
  imports UserIO
begin

text \<open>
  Moving data to and from the user: the block copy of \<open>iomove\<close> does what the loop over
  \<open>passc\<close> or \<open>cpass\<close> does, characters survive the trip through a word, and the memory
  device writes one byte past its offset.
\<close>

section \<open>Bytes and words\<close>

lemma lo8_mk16 [simp]: "lo8 (mk16 h l) = l"
  by (rule bit_word_eqI) (auto simp: lo8_def mk16_def bit_simps)

lemma hi8_mk16 [simp]: "hi8 (mk16 h l) = h"
proof (rule bit_word_eqI)
  fix n assume "n < LENGTH(8)"
  then show "bit (hi8 (mk16 h l)) n = bit h n"
    by (auto simp: hi8_def mk16_def bit_simps dest: bit_imp_le_length)
qed

lemma mk16_split [simp]: "mk16 (hi8 w) (lo8 w) = w"
proof (rule bit_word_eqI)
  fix n assume "n < LENGTH(16)"
  then show "bit (mk16 (hi8 w) (lo8 w)) n = bit w n"
    by (cases "n < 8") (auto simp: mk16_def hi8_def lo8_def bit_simps)
qed

lemma get_put_byte: "get_byte (put_byte k c d) j = (if j = k then c else get_byte d j)"
proof -
  have "j = k" if "j div 2 = k div 2" "even j = even k"
    using that by (metis bit_eq_rec even_iff_mod_2_eq_zero div_mult_mod_eq parity_cases)
  then show ?thesis by (auto simp: get_byte_def put_byte_def)
qed

section \<open>The offset\<close>

lemma dval_off_inc: "dval (off_inc x) = (dval x + 1) mod 2 ^ 32"
proof -
  have "off_inc x = dpadd x 1"
  proof -
    let ?h = "fst x" and ?l = "snd x"
    have l: "unat (?l + 1) = (unat ?l + 1) mod 65536" by (simp add: unat_word_ariths)
    have h: "unat (?h + 1) = (unat ?h + 1) mod 65536" by (simp add: unat_word_ariths)
    have b: "unat ?h < 65536" "unat ?l < 65536" by simp_all
    have "dval (off_inc x) = (dval x + 1) mod 2 ^ 32"
    proof (cases "?l + 1 = 0")
      case True
      then have "unat ?l = 65535" using l b by (cases "unat ?l = 65535") (simp_all add: word_zero_iff)
      moreover have "unat ?h = 65535 \<or> 65536 + 65536 * unat ?h < 4294967296" using b by linarith
      ultimately show ?thesis using True h b by (auto simp: off_inc_def dval_def Let_def)
    next
      case False
      then have "unat ?l \<noteq> 65535" using l by (auto simp: word_zero_iff)
      moreover from this have "dval x + 1 < 4294967296" unfolding dval_def using b by linarith
      moreover have "dval (off_inc x) = dval x + 1"
        using False l b \<open>unat ?l \<noteq> 65535\<close> by (simp add: off_inc_def dval_def Let_def)
      ultimately show ?thesis by simp
    qed
    then show ?thesis by (simp add: dval_inject [symmetric] dval_dpadd)
  qed
  then show ?thesis by (simp add: dval_dpadd)
qed

lemma off_inc_dpadd: "dpadd (off_inc x) n = dpadd x (n + 1)" if "unat n < 65535"
proof -
  have "unat (n + 1) = unat n + 1" using that by (subst unat_add_no_wrap) simp_all
  then show ?thesis
    by (simp add: dval_inject [symmetric] dval_dpadd dval_off_inc mod_add_left_eq add.assoc)
qed

lemma dpadd_0 [simp]: "dpadd x 0 = x"
  by (simp add: dpadd_def)

section \<open>A run of characters\<close>

lemma base_add_add [simp]: "base_add (base_add p a) b = base_add p (a + b)"
  by (cases p) (simp_all add: base_add_def add.assoc)

lemma base_add_0 [simp]: "base_add p 0 = p"
  by (cases p) (simp_all add: base_add_def)

lemma base_addr_add [simp]: "base_addr (base_add p a) = base_addr p + a"
  by (cases p) (simp_all add: base_add_def base_addr_def)

text \<open>What both ways of moving \<open>n\<close> characters leave of the user structure.\<close>

definition moved :: "u16 \<Rightarrow> user \<Rightarrow> user" where
  "moved n w = w\<lparr>u_base := base_add (u_base w) n, u_offset := dpadd (u_offset w) n,
                 u_count := u_count w - n\<rparr>"

lemma step_io_moved: "step_io s = set_u (moved 1) s"
proof -
  have "off_inc x = dpadd x 1" for x
    by (simp add: dval_inject [symmetric] dval_dpadd dval_off_inc)
  then show ?thesis by (simp add: step_io_def moved_def [abs_def] fun_eq_iff)
qed

lemma moved_moved: "moved a (moved b w) = moved (a + b) w" if "unat a + unat b < 65536"
proof -
  have "dpadd (dpadd x b) a = dpadd x (a + b)" for x
    using that by (simp add: dval_inject [symmetric] dval_dpadd mod_simps unat_add_no_wrap add_ac)
  then show ?thesis by (simp add: moved_def add_ac diff_diff_add)
qed

lemma moved_0 [simp]: "moved 0 w = w"
  by (simp add: moved_def)

lemma count_left: "unat n \<le> unat (c - 1 :: u16)" if "Suc (unat n) \<le> unat c"
proof -
  have "unat (c - 1) = unat c - 1" using that by (subst unat_sub_le) (auto simp: word_le_nat_alt)
  then show ?thesis using that by simp
qed

lemma copyout_Suc:
  "copyout_buf bp o' addr (Suc n) s =
    copyout_buf bp (Suc o') (addr + 1) n (subyte addr (get_byte (b_data (bufs s bp)) o') s)"
proof -
  have "[0..<Suc n] = 0 # map Suc [0..<n]" by (simp add: map_Suc_upt upt_conv_Cons del: upt_Suc)
  then show ?thesis
    by (simp add: copyout_buf_def subyte_def user_seg_def fold_map comp_def add_ac del: upt_Suc)
qed

lemma copyin_Suc:
  "copyin_buf addr bp o' (Suc n) s =
    copyin_buf (addr + 1) bp (Suc o') n
      (set_buf bp (\<lambda>b. b\<lparr>b_data := put_byte o' (memory s (lin (user_seg s) addr)) (b_data b)\<rparr>) s)"
proof -
  have "[0..<Suc n] = 0 # map Suc [0..<n]" by (simp add: map_Suc_upt upt_conv_Cons del: upt_Suc)
  then show ?thesis
    by (simp add: copyin_buf_def user_seg_def fold_map comp_def add_ac del: upt_Suc)
qed

lemma passc_user:
  assumes "u_segflg (usr s) = 0"
  shows "passc c s = (u_count (usr s) = 1, set_u (moved 1) (subyte (base_addr (u_base (usr s))) c s))"
  using assms by (simp add: passc_def step_io_moved Let_def subyte_def moved_def)

lemma cpass_user:
  assumes "u_segflg (usr s) = 0" "u_count (usr s) \<noteq> 0"
  shows "cpass s = (Some (memory s (lin (user_seg s) (base_addr (u_base (usr s))))), set_u (moved 1) s)"
  using assms by (simp add: cpass_def step_io_moved Let_def)

lemma moved_procp [simp]: "u_procp (moved n w) = u_procp w" "u_segflg (moved n w) = u_segflg w"
  "u_error (moved n w) = u_error w"
  by (simp_all add: moved_def)

lemma moved_Suc:
  assumes "Suc n < 65536"
  shows "set_u (moved (of_nat n)) (set_u (moved 1) s) = set_u (moved (of_nat (Suc n))) s"
proof -
  have "unat (of_nat n :: u16) + unat (1 :: u16) < 65536" using assms by (simp add: unat_of_nat)
  from moved_moved [OF this] have "moved (of_nat n) \<circ> moved 1 = moved (of_nat (Suc n))"
    by (simp add: fun_eq_iff add.commute)
  then show ?thesis by simp
qed

lemma copyout_set_u:
  "(\<And>w. u_procp (g w) = u_procp w) \<Longrightarrow>
    copyout_buf bp o' a n (set_u g s) = set_u g (copyout_buf bp o' a n s)"
  by (simp add: copyout_buf_def user_seg_def)

lemma copyin_set_u:
  "(\<And>w. u_procp (g w) = u_procp w) \<Longrightarrow>
    copyin_buf a bp o' n (set_u g s) = set_u g (copyin_buf a bp o' n s)"
  by (simp add: copyin_buf_def user_seg_def)

lemma move_out_copy:
  assumes "u_segflg (usr s) = 0" "n \<le> unat (u_count (usr s))"
  shows "move_out n bp o' s =
    set_u (moved (of_nat n)) (copyout_buf bp o' (base_addr (u_base (usr s))) n s)"
  using assms
proof (induction n arbitrary: o' s)
  case 0
  then show ?case by (simp add: copyout_buf_def)
next
  case (Suc n)
  let ?c = "get_byte (b_data (bufs s bp)) o'" and ?a = "base_addr (u_base (usr s))"
  let ?t = "set_u (moved 1) (subyte ?a ?c s)"
  have n: "n < 65536" using Suc.prems(2) unat16_lt [of "u_count (usr s)"] by linarith
  have t: "usr ?t = moved 1 (usr s)" "bufs ?t = bufs s" by (simp_all add: subyte_def)
  have left: "n \<le> unat (u_count (usr ?t))"
    using count_left [of "of_nat n :: u16" "u_count (usr s)"] Suc.prems(2) n
    by (simp add: t moved_def unat_of_nat)
  show ?case
  proof (cases "u_count (usr s) = 1")
    case True
    then have "n = 0" using Suc.prems(2) by simp
    then show ?thesis
      using True Suc.prems(1) by (simp add: passc_user copyout_Suc) (simp add: copyout_buf_def subyte_def)
  next
    case False
    have "move_out (Suc n) bp o' s = move_out n bp (Suc o') ?t"
      using False Suc.prems(1) by (simp add: passc_user)
    also have "\<dots> = set_u (moved (of_nat n)) (copyout_buf bp (Suc o') (base_addr (u_base (usr ?t))) n ?t)"
      by (rule Suc.IH) (use left Suc.prems(1) in \<open>simp_all add: t moved_def\<close>)
    also have "\<dots> = set_u (moved (of_nat (Suc n))) (copyout_buf bp o' ?a (Suc n) s)"
    proof -
      have "Suc n < 65536" using Suc.prems(2) unat16_lt [of "u_count (usr s)"] by linarith
      note m = moved_Suc [OF this]
      have "base_addr (u_base (usr ?t)) = ?a + 1" by (simp add: t moved_def)
      then show ?thesis
        by (simp only: copyout_Suc copyout_set_u [of "moved 1", OF moved_procp(1)] m)
    qed
    finally show ?thesis .
  qed
qed

lemma bufs_usr_commute: "bufs_update f (usr_update g s) = usr_update g (bufs_update f (s :: kst))"
  by simp

lemma move_in_copy:
  assumes "u_segflg (usr s) = 0" "n \<le> unat (u_count (usr s))"
  shows "move_in n bp o' s =
    set_u (moved (of_nat n)) (copyin_buf (base_addr (u_base (usr s))) bp o' n s)"
  using assms
proof (induction n arbitrary: o' s)
  case 0
  then show ?case by (simp add: copyin_buf_def)
next
  case (Suc n)
  let ?a = "base_addr (u_base (usr s))"
  let ?c = "memory s (lin (user_seg s) ?a)"
  let ?b = "set_buf bp (\<lambda>b. b\<lparr>b_data := put_byte o' ?c (b_data b)\<rparr>) s"
  let ?t = "set_u (moved 1) ?b"
  have n: "Suc n < 65536" using Suc.prems(2) unat16_lt [of "u_count (usr s)"] by linarith
  have "u_count (usr s) \<noteq> 0" using Suc.prems(2) by (auto simp: word_zero_iff)
  then have "move_in (Suc n) bp o' s = move_in n bp (Suc o') ?t"
    using Suc.prems(1) by (simp add: cpass_user bufs_usr_commute)
  also have "\<dots> = set_u (moved (of_nat n)) (copyin_buf (base_addr (u_base (usr ?t))) bp (Suc o') n ?t)"
  proof (rule Suc.IH)
    show "n \<le> unat (u_count (usr ?t))"
      using count_left [of "of_nat n :: u16" "u_count (usr s)"] Suc.prems(2) n
      by (simp add: moved_def unat_of_nat)
  qed (use Suc.prems(1) in simp)
  also have "base_addr (u_base (usr ?t)) = ?a + 1" by (simp add: moved_def)
  finally show ?case
    by (simp only: copyin_Suc copyin_set_u [of "moved 1", OF moved_procp(1)] moved_Suc [OF n])
qed

text \<open>
  C16: the block copy of \<open>iomove\<close> is the loop it replaces: for any part of a buffer, any alignment
  and both directions, \<open>iomove\<close> of at most \<open>u_count\<close> characters to or from the user leaves the
  state that passing them one by one leaves.
\<close>

theorem iomove_equiv:
  assumes "u_segflg (usr s) = 0" and "unat n \<le> unat (u_count (usr s))"
  shows "iomove bp o' n flag s =
    (if flag = B_WRITE then move_in (unat n) bp o' s else move_out (unat n) bp o' s)"
  using assms move_in_copy [OF assms] move_out_copy [OF assms]
  by (simp add: iomove_def Let_def moved_def [abs_def])

lemma iomove_equiv_witness:
  "let s = set_u (\<lambda>w. w\<lparr>u_count := 6, u_base := Umem 100\<rparr>) (kernel0 0 (\<lambda>_. 7) (\<lambda>_ _. 0))
   in iomove 1 10 4 B_WRITE s = move_in 4 1 10 s"
  using iomove_equiv [of "set_u (\<lambda>w. w\<lparr>u_count := 6, u_base := Umem 100\<rparr>) (kernel0 0 (\<lambda>_. 7) (\<lambda>_ _. 0))" 4 1 10 B_WRITE]
  by (simp add: Let_def kernel0_def zero_user_def)

section \<open>The memory device\<close>

text \<open>
  A write of one character to \<open>/dev/kmem\<close> at offset \<open>k\<close> changes the byte at \<open>k + 1\<close>, where a
  read at \<open>k\<close> does not look: \<open>cpass\<close> has moved the offset before the address is taken.
\<close>

lemma mmwrite_one_past:
  assumes "u_segflg (usr s) = 0" and "u_count (usr s) = 1" and "u_error (usr s) = 0"
  shows "memory (mmwrite 257 s) = (memory s)
    (lin (core_cs s) (snd (u_offset (usr s)) + 1) :=
       memory s (lin (user_seg s) (base_addr (u_base (usr s)))))"
proof -
  let ?t = "set_u (moved 1) s"
  let ?c = "memory s (lin (user_seg s) (base_addr (u_base (usr s))))"
  let ?v = "?t\<lparr>memory := (memory s)(mm_addr 257 ?t := ?c)\<rparr>"
  have m: "minor 257 = 1" by (simp add: minor_def)
  have "mmwrite 257 s = mmwrite_loop (Suc 65535) 257 s" by (simp add: mmwrite_def m)
  also have "\<dots> = mmwrite_loop 65535 257 ?v"
    by (subst mmwrite_loop.simps(2)) (use assms in \<open>simp add: cpass_user\<close>)
  also have "\<dots> = mmwrite_loop (Suc 65534) 257 ?v" by simp
  also have "\<dots> = ?v"
    by (subst mmwrite_loop.simps(2)) (use assms in \<open>simp add: cpass_def moved_def\<close>)
  finally have "memory (mmwrite 257 s) = (memory s)(mm_addr 257 ?t := ?c)" by simp
  moreover have "snd (dpadd x 1) = snd x + 1" for x
  proof -
    have "off_inc x = dpadd x 1" by (simp add: dval_inject [symmetric] dval_dpadd dval_off_inc)
    then show ?thesis by (metis off_inc_def snd_conv)
  qed
  ultimately show ?thesis by (simp add: mm_addr_def m moved_def)
qed

lemma mmwrite_one_past_witness:
  "memory (mmwrite 257 (set_u (\<lambda>w. w\<lparr>u_count := 1, u_offset := (0, 64)\<rparr>) (kernel0 100 (\<lambda>_. 7) (\<lambda>_ _. 0)))) 1665 = 7"
  using mmwrite_one_past [of "set_u (\<lambda>w. w\<lparr>u_count := 1, u_offset := (0, 64)\<rparr>) (kernel0 100 (\<lambda>_. 7) (\<lambda>_ _. 0))"]
  by (simp add: kernel0_def zero_user_def)

end
