(* ===== verification/FsFacts.thy ===== *)
theory FsFacts
  imports Rdwri DiskFacts IoFacts
begin

text \<open>
  The file system on the disk: inodes as words and their place in the I list, the free list of
  the super block, and the map from the blocks of a file to the blocks of the device.
\<close>

section \<open>Inodes\<close>

lemma inode_of_inode_words: "inode_of_words (inode_words p) p = p"
proof (rule inode.equality)
  show "i_addr (inode_of_words (inode_words p) p) = i_addr p"
    by (auto simp: inode_of_words_def inode_words_def fun_eq_iff)
qed (simp_all add: inode_of_words_def inode_words_def)

lemma inode_words_of_words:
  assumes "k < 12"
  shows "inode_words (inode_of_words w p) k = w k"
proof -
  have "k < 4 \<or> (k - 4 < 8 \<and> k = 4 + (k - 4))" using assms by auto
  then show ?thesis
  proof
    assume "k < 4"
    then have "k = 0 \<or> k = 1 \<or> k = 2 \<or> k = 3" by auto
    then show ?thesis by (auto simp: inode_of_words_def inode_words_def)
  next
    assume k: "k - 4 < 8 \<and> k = 4 + (k - 4)"
    then have "inode_words (inode_of_words w p) k = i_addr (inode_of_words w p) (k - 4)"
      unfolding inode_words_def by auto
    also have "\<dots> = w (4 + (k - 4))" using k by (simp add: inode_of_words_def)
    finally show ?thesis using k by simp
  qed
qed

text \<open>
  An inode survives its image on the disk: what \<open>iget\<close> reads from the words \<open>iupdat\<close> wrote is
  the inode, and writing back what was read reproduces the twelve words.
\<close>

lemma dinode_roundtrip:
  "inode_of_words (inode_words p) p = p
    \<and> map (inode_words (inode_of_words w p)) [0..<12] = map w [0..<12]"
  using inode_of_inode_words inode_words_of_words by (auto simp del: upt_rec_numeral)

text \<open>
  The place of inode \<open>n\<close>: its 16 words lie inside a block of the I list, which starts at
  block 2 with inode 1, and two inodes have the same place only if they are the same.
\<close>

lemma inode_place:
  assumes "1 \<le> unat n" and "unat n < 32737" and "1 \<le> unat m" and "unat m < 32737"
  shows "unat (ino_block n) = 2 + (unat n - 1) div 16 \<and> ino_word n = 16 * ((unat n - 1) mod 16)
    \<and> ino_word n + 16 \<le> 256
    \<and> (ino_block n = ino_block m \<and> ino_word n = ino_word m \<longrightarrow> n = m)"
proof -
  have place: "unat (ino_block k) = 2 + (unat k - 1) div 16" "ino_word k = 16 * ((unat k - 1) mod 16)"
    if "1 \<le> unat k" "unat k < 32737" for k
  proof -
    have a: "unat (k + 31) = unat k - 1 + 2 * 16" using that by (subst unat_add_no_wrap) simp_all
    then have "unat (k + 31) < 32768" using that by simp
    from ldiv_pos [OF this, of 16] a mod_mult_self1 [of "unat k - 1" 2 16]
      div_mult_self1 [of 16 "unat k - 1" 2]
    show "unat (ino_block k) = 2 + (unat k - 1) div 16" "ino_word k = 16 * ((unat k - 1) mod 16)"
      by (simp_all add: ino_block_def ino_word_def)
  qed
  note n = place [OF assms(1,2)] and m = place [OF assms(3,4)]
  have "n = m" if "ino_block n = ino_block m" "ino_word n = ino_word m"
  proof -
    have "(unat n - 1) div 16 = (unat m - 1) div 16" "(unat n - 1) mod 16 = (unat m - 1) mod 16"
      using that n m by simp_all
    then have "unat n - 1 = unat m - 1" by (metis div_mult_mod_eq)
    then show ?thesis using assms by (simp add: word_unat_eq_iff)
  qed
  moreover have "(unat n - 1) mod 16 < 16" by simp
  then have "ino_word n + 16 \<le> 256" unfolding n by linarith
  ultimately show ?thesis using n by blast
qed

lemma inode_place_witness:
  "unat (ino_block 40) = 4 \<and> ino_word 40 = 112"
  using inode_place [of 40 41] by simp

section \<open>The free list\<close>

lemma sb_simps [simp]:
  "s_nfree (set_nfree v d) = v" "s_free (set_nfree v d) = s_free d" "s_isize (set_nfree v d) = s_isize d"
  "s_fsize (set_nfree v d) = s_fsize d" "s_ninode (set_nfree v d) = s_ninode d"
  "s_flock (set_nfree v d) = s_flock d"
  "s_nfree (set_free i v d) = s_nfree d" "s_isize (set_free i v d) = s_isize d"
  "s_fsize (set_free i v d) = s_fsize d" "s_free (set_free i v d) i = v"
  "i \<noteq> j \<Longrightarrow> s_free (set_free i v d) j = s_free d j"
  "i < 100 \<Longrightarrow> s_ninode (set_free i v d) = s_ninode d"
  "s_nfree (set_fmod c d) = s_nfree d" "s_isize (set_fmod c d) = s_isize d"
  "s_fsize (set_fmod c d) = s_fsize d" "s_ninode (set_fmod c d) = s_ninode d"
  "j < 100 \<Longrightarrow> s_free (set_fmod c d) j = s_free d j" "s_flock (set_fmod c d) = s_flock d"
  by (auto simp: s_nfree_def s_free_def s_isize_def s_fsize_def s_ninode_def s_flock_def
      set_nfree_def set_free_def set_fmod_def fun_eq_iff)

text \<open>The blocks \<open>badblock\<close> accepts.\<close>

definition good_block :: "block \<Rightarrow> u16 \<Rightarrow> bool" where
  "good_block d bn \<longleftrightarrow> s_isize d + 2 \<le> bn \<and> bn < s_fsize d"

lemma prdev_bufs [simp]: "bufs (prdev m dev s) = bufs s"
  by (simp add: prdev_def put_console_def)

lemma badblock_good: "fst (badblock fb bn dev s) \<longleftrightarrow> \<not> good_block (sb s fb) bn"
  "bufs (snd (badblock fb bn dev s)) = bufs s" "good_block (sb s fb) bn \<Longrightarrow> badblock fb bn dev s = (False, s)"
  by (auto simp: badblock_def good_block_def)

text \<open>What \<open>alloc\<close> takes off the list is a good block that was on it.\<close>

lemma alloc_pop_good:
  assumes "alloc_pop fb dev n s = (Some bno, s')"
  shows "good_block (sb s fb) bno \<and> (\<exists>i < n. s_free (sb s fb) i = bno \<and> s_nfree (sb s' fb) = of_nat i)
    \<and> s_isize (sb s' fb) = s_isize (sb s fb) \<and> s_fsize (sb s' fb) = s_fsize (sb s fb)
    \<and> s_free (sb s' fb) = s_free (sb s fb)"
  using assms
proof (induction n arbitrary: s)
  case 0
  then show ?case by simp
next
  case (Suc n)
  let ?t = "set_sb fb (set_nfree (of_nat n)) s"
  let ?b = "s_free (sb s fb) n"
  have nz: "?b \<noteq> 0" using Suc.prems by (auto simp: Let_def split: if_splits)
  have sbt: "sb ?t fb = set_nfree (of_nat n) (sb s fb)" by simp
  show ?case
  proof (cases "good_block (sb s fb) ?b")
    case True
    then have g: "good_block (sb ?t fb) ?b" unfolding sbt by (simp add: good_block_def)
    from Suc.prems nz badblock_good(3) [OF g, of dev] have "bno = ?b" "s' = ?t" by (simp_all add: Let_def)
    then show ?thesis using True by auto
  next
    case False
    then have "fst (badblock fb ?b dev ?t)" unfolding badblock_good sbt by (simp add: good_block_def)
    then have "alloc_pop fb dev n (snd (badblock fb ?b dev ?t)) = (Some bno, s')"
      using Suc.prems nz by (auto simp: Let_def split: prod.splits)
    from Suc.IH [OF this] show ?thesis
      unfolding badblock_good(2) sbt by (auto simp: good_block_def intro: less_SucI)
  qed
qed

section \<open>Buffers are found for the block asked for\<close>

lemma find_block_sound:
  "find_block n t dp dev blkno p \<noteq> BNULL \<Longrightarrow>
    b_blkno (t (find_block n t dp dev blkno p)) = blkno \<and> b_dev (t (find_block n t dp dev blkno p)) = dev"
  by (induction n t dp dev blkno p rule: find_block.induct) auto

lemma getblk_sound: "getblk_loop n dev blkno s = Ret bp s' \<Longrightarrow> bound_to s' dev blkno bp"
proof (induction n arbitrary: s)
  case (Suc n)
  let ?dp = "if sint dev < 0 then bfreelist else bdev_tab (major dev)"
  let ?f = "if sint dev < 0 then BNULL else find_block (NBUF + 1) (bufs s) ?dp dev blkno (b_forw (bufs s ?dp))"
  have f: "?f \<noteq> BNULL \<Longrightarrow> bound_to s dev blkno ?f"
    using find_block_sound [of "NBUF + 1" "bufs s" ?dp dev blkno "b_forw (bufs s ?dp)"]
    by (auto simp: bound_to_def simp del: find_block.simps)
  from Suc.prems show ?case
    using Suc.IH f
    by (auto simp: Let_def andthen_Ret_iff bound_to_def simp del: find_block.simps split: if_splits)
qed simp

lemma getblk_bound: "getblk dev blkno s = Ret bp s' \<Longrightarrow> bound_to s' dev blkno bp"
  by (auto simp: getblk_def getblk_sound simp del: getblk_loop.simps split: if_splits)

text \<open>The end of \<open>alloc\<close> once a block is off the list.\<close>

lemma alloc_buffer:
  assumes "getfs dev s = Ret fb s1" "s_flock (sb s1 fb) = 0"
    "alloc_pop fb dev (unat (s_nfree (sb s1 fb))) s1 = (Some bno, t)" "alloc dev s = Ret r s'"
  obtains bp s3 s4 where "getblk dev bno s3 = Ret bp s4" "r = Some bp"
    "s' = set_sb fb (set_fmod 1) (clrbuf bp s4)" "bound_to s' dev bno bp"
proof -
  have "wait_flock SPINS fb s1 = wait_flock (Suc 99) fb s1" by simp
  also have "\<dots> = Ret () s1" by (subst wait_flock.simps(2)) (use assms(2) in simp)
  finally have w: "wait_flock SPINS fb s1 = Ret () s1" .
  from assms(4) obtain bp s3 s4 where g: "getblk dev bno s3 = Ret bp s4" "r = Some bp"
    and s': "s' = set_sb fb (set_fmod 1) (clrbuf bp s4)"
    by (auto simp: alloc_def assms(1) w assms(3) andthen_Ret_iff simp del: wait_flock.simps)
  moreover have "bound_to s' dev bno bp"
    using getblk_bound [OF g(1)] by (cases "bp = fb") (simp_all add: s' bound_to_def clrbuf_def)
  ultimately show ?thesis by (rule that)
qed

text \<open>
  \<open>alloc\<close> hands out blocks of the data area only: when nobody holds the free list, a buffer
  it returns is bound to a block on the device that was in the list of the super block and lies
  above the I list and below the end of the file system, and the words of the buffer are zero.
\<close>

lemma alloc_in_range:
  assumes "getfs dev s = Ret fb s1" and "s_flock (sb s1 fb) = 0" and "alloc dev s = Ret (Some bp) s'"
  shows "\<exists>i < unat (s_nfree (sb s1 fb)). let bno = s_free (sb s1 fb) i in
      bound_to s' dev bno bp \<and> s_isize (sb s1 fb) + 2 \<le> bno \<and> bno < s_fsize (sb s1 fb)
    \<and> (bp \<noteq> fb \<longrightarrow> (\<forall>k < 256. b_data (bufs s' bp) k = 0))"
proof -
  have "wait_flock SPINS fb s1 = wait_flock (Suc 99) fb s1" by simp
  also have "\<dots> = Ret () s1" by (subst wait_flock.simps(2)) (use assms(2) in simp)
  finally have w: "wait_flock SPINS fb s1 = Ret () s1" .
  obtain r s2 where pop: "alloc_pop fb dev (unat (s_nfree (sb s1 fb))) s1 = (r, s2)" by fastforce
  from assms(3) obtain bno where r: "r = Some bno"
    by (cases r) (auto simp: alloc_def assms(1) w pop simp del: wait_flock.simps)
  obtain s3 s4 where s': "s' = set_sb fb (set_fmod 1) (clrbuf bp s4)" and "bound_to s' dev bno bp"
    using alloc_buffer [OF assms(1,2) pop [unfolded r] assms(3)] by blast
  moreover from s' have "b_data (bufs s' bp) k = 0" if "bp \<noteq> fb" "k < 256" for k
    using that by (simp add: s' clrbuf_def)
  ultimately show ?thesis
    using alloc_pop_good [OF pop [unfolded r]] by (auto simp: good_block_def Let_def)
qed

text \<open>A file system with one free block in its list, on a machine with the buffers set up.\<close>

definition small_fs :: kst where
  "small_fs = (set_buf 2 (\<lambda>b. b\<lparr>b_data := (\<lambda>_. 0)(0 := 2, 1 := 100, 2 := 2, 4 := 50)\<rparr>) (fresh (\<lambda>_ _. 0)))
     \<lparr>mounts := (\<lambda>_. \<lparr>m_dev = 0, m_bufp = 2, m_inodp = None\<rparr>)\<rparr>"

lemma small_fs_sb:
  "s_isize (sb small_fs 2) = 2" "s_fsize (sb small_fs 2) = 100" "s_nfree (sb small_fs 2) = 2"
  "s_free (sb small_fs 2) 1 = 50" "s_flock (sb small_fs 2) = 0" "s_ninode (sb small_fs 2) = 0"
  by (simp_all add: small_fs_def s_isize_def s_fsize_def s_nfree_def s_free_def s_flock_def s_ninode_def lo8_def)

lemma small_fs_cache: "cache_inv small_fs (1 # [2..<16]) [] (rev (1 # [2..<16]))"
  by (rule cache_same [OF fresh_cache [of "\<lambda>_ _. 0"]]) (auto simp: small_fs_def)

lemma small_fs_mounts: "mounts small_fs p = \<lparr>m_dev = 0, m_bufp = 2, m_inodp = None\<rparr>"
  by (simp add: small_fs_def)

lemma small_fs_getfs: "getfs 0 small_fs = Ret 2 small_fs"
  using small_fs_sb by (simp add: getfs_def small_fs_mounts upt_rec)

lemma alloc_in_range_witness:
  "\<exists>bp s'. alloc 0 small_fs = Ret (Some bp) s' \<and> bound_to s' 0 50 bp"
proof -
  let ?t = "set_sb 2 (set_nfree 1) small_fs"
  have "wait_flock SPINS 2 small_fs = wait_flock (Suc 99) 2 small_fs" by simp
  also have "\<dots> = Ret () small_fs" by (subst wait_flock.simps(2)) (simp add: small_fs_sb)
  finally have w: "wait_flock SPINS 2 small_fs = Ret () small_fs" .
  have "good_block (sb ?t 2) 50" using small_fs_sb by (simp add: good_block_def)
  note bb = badblock_good(3) [OF this, of 0]
  have pop: "alloc_pop 2 0 (unat (s_nfree (sb small_fs 2))) small_fs = (Some 50, ?t)"
  proof -
    have n: "unat (s_nfree (sb small_fs 2)) = Suc 1" by (simp add: small_fs_sb)
    show ?thesis unfolding n
      by (subst alloc_pop.simps(2)) (simp add: bb small_fs_sb Let_def del: One_nat_def)
  qed
  have "cache_inv ?t (1 # [2..<16]) [] (rev (1 # [2..<16]))"
    by (rule cache_same [OF small_fs_cache]) auto
  moreover have "\<not> has (b_flags (bufs ?t 1)) B_DELWRI"
    using binit_flags_cache by (simp add: small_fs_def fresh_def)
  ultimately obtain s4 where g: "getblk 0 50 ?t = Ret 1 s4"
    using getblk_takes(1) [of ?t 1 "[2..<16]" "[]" _ 0 50] by auto
  have "\<not> sle16 (s_nfree (sb ?t 2)) 0" by (simp add: sle16_def)
  then have a: "alloc 0 small_fs = Ret (Some 1) (set_sb 2 (set_fmod 1) (clrbuf 1 s4))"
    using g by (simp add: alloc_def small_fs_getfs w pop del: wait_flock.simps)
  obtain i where "i < 2" "bound_to (set_sb 2 (set_fmod 1) (clrbuf 1 s4)) 0 (s_free (sb small_fs 2) i) 1"
    "s_isize (sb small_fs 2) + 2 \<le> s_free (sb small_fs 2) i"
    using alloc_in_range [OF small_fs_getfs _ a] by (auto simp: small_fs_sb Let_def)
  have "i \<noteq> 0"
  proof
    assume "i = 0"
    moreover have "s_free (sb small_fs 2) 0 = 0" by (simp add: small_fs_def s_free_def)
    ultimately show False using \<open>s_isize _ + 2 \<le> _\<close> by (simp add: small_fs_sb)
  qed
  with \<open>i < 2\<close> have "i = 1" by linarith
  with \<open>bound_to _ _ _ _\<close> have "bound_to (set_sb 2 (set_fmod 1) (clrbuf 1 s4)) 0 50 1"
    by (simp only: small_fs_sb)
  with a show ?thesis by blast
qed

section \<open>Freeing and allocating\<close>

text \<open>The file system of a device is mounted with its super block in \<open>fb\<close>, with sound counts.\<close>

definition fs_at :: "u16 \<Rightarrow> nat \<Rightarrow> kst \<Rightarrow> bool" where
  "fs_at dev fb s \<longleftrightarrow>
     (case find (\<lambda>p. m_bufp (mounts s p) \<noteq> BNULL \<and> m_dev (mounts s p) = dev) [0..<NMOUNT] of
        None \<Rightarrow> False | Some p \<Rightarrow> m_bufp (mounts s p) = fb)
   \<and> s_nfree (sb s fb) \<le> 100 \<and> s_ninode (sb s fb) \<le> 100"

lemma getfs_at: "fs_at dev fb s \<Longrightarrow> getfs dev s = Ret fb s"
  by (auto simp: fs_at_def getfs_def Let_def simp del: upt_rec_numeral split: option.splits)

lemma fs_at_same:
  "fs_at dev fb s \<Longrightarrow> mounts t = mounts s \<Longrightarrow> s_nfree (sb t fb) \<le> 100 \<Longrightarrow>
    s_ninode (sb t fb) = s_ninode (sb s fb) \<Longrightarrow> fs_at dev fb t"
  by (auto simp: fs_at_def simp del: upt_rec_numeral split: option.splits)

lemma count_bounds:
  fixes k :: u16
  assumes "k \<noteq> 0" "k < 100"
  shows "\<not> sle16 k 0" "\<not> sle16 100 k" "unat (k + 1) = Suc (unat k)" "k + 1 \<le> 100"
proof -
  have u: "0 < unat k" "unat k < 100" using assms by (auto simp: word_less_nat_alt word_zero_iff)
  then have "sint k = int (unat k)" by (intro sint16_eq_unat) simp
  moreover have "sint (100 :: u16) = 100" "sint (0 :: u16) = 0" by simp_all
  ultimately show "\<not> sle16 k 0" "\<not> sle16 100 k" unfolding sle16_def using u by linarith+
  show "unat (k + 1) = Suc (unat k)" using u by (subst unat_add_no_wrap) simp_all
  then show "k + 1 \<le> 100" using u by (simp add: word_le_nat_alt)
qed

lemma wait_flock_0: "s_flock (sb s fb) = 0 \<Longrightarrow> wait_flock SPINS fb s = Ret () s"
  using wait_flock.simps(2) [of 99 fb s] by simp

text \<open>The super block after \<open>free\<close> of \<open>bno\<close> with room in the list.\<close>

definition pushed :: "u16 \<Rightarrow> block \<Rightarrow> block" where
  "pushed bno d = set_fmod 1 (set_free (unat (s_nfree d)) bno (set_nfree (s_nfree d + 1) (set_fmod 1 d)))"

lemma set_fmod_more [simp]: "set_fmod c (set_fmod c d) = set_fmod c d"
  "s_nfree (set_fmod c d) = s_nfree d"
  by (auto simp: set_fmod_def s_nfree_def fun_eq_iff)

lemma bufs_update_eq: "f (bufs s) = g (bufs s) \<Longrightarrow> bufs_update f s = bufs_update g (s :: kst)"
  by (cases s) simp

lemma b_data_update_eq: "f (b_data b) = g (b_data b) \<Longrightarrow> b_data_update f b = b_data_update g (b :: buf)"
  by (cases b) simp

lemma free_pushes:
  assumes fs: "fs_at dev fb s" and fl: "s_flock (sb s fb) = 0" and good: "good_block (sb s fb) bno"
    and k: "s_nfree (sb s fb) \<noteq> 0" "s_nfree (sb s fb) < 100"
  shows "free dev bno s = Ret () (set_sb fb (pushed bno) s)"
proof -
  let ?t = "set_sb fb (set_fmod 1) s"
  have w: "wait_flock SPINS fb ?t = Ret () ?t" by (rule wait_flock_0) (simp add: fl)
  have "good_block (sb ?t fb) bno" using good by (simp add: good_block_def)
  note bb = badblock_good(3) [OF this, of dev]
  have "free dev bno s = Ret () (set_sb fb (\<lambda>d. set_fmod 1 (set_free (unat (s_nfree (sb s fb))) bno
      (set_nfree (s_nfree (sb s fb) + 1) (set_fmod 1 d)))) s)"
    using count_bounds [OF k]
    by (simp add: free_def getfs_at [OF fs] w bb Let_def comp_def del: wait_flock.simps)
  also have "set_sb fb (\<lambda>d. set_fmod 1 (set_free (unat (s_nfree (sb s fb))) bno
      (set_nfree (s_nfree (sb s fb) + 1) (set_fmod 1 d)))) s = set_sb fb (pushed bno) s"
  proof (rule bufs_update_eq)
    have "b_data_update (\<lambda>d. set_fmod 1 (set_free (unat (s_nfree (sb s fb))) bno
        (set_nfree (s_nfree (sb s fb) + 1) (set_fmod 1 d)))) (bufs s fb)
      = b_data_update (pushed bno) (bufs s fb)"
      by (rule b_data_update_eq) (simp only: pushed_def)
    then show "(bufs s)(fb := b_data_update (\<lambda>d. set_fmod 1 (set_free (unat (s_nfree (sb s fb))) bno
        (set_nfree (s_nfree (sb s fb) + 1) (set_fmod 1 d)))) (bufs s fb))
      = (bufs s)(fb := b_data_update (pushed bno) (bufs s fb))" by (simp only:)
  qed
  finally show ?thesis .
qed



end
