(* ===== verification/TtyFacts.thy ===== *)
theory TtyFacts
  imports Tty ClistQueue
begin

text \<open>
  Facts about the terminal driver.  The three lists of the terminal share one pool; \<open>tty_rep\<close> says
  which characters each of them holds, and the lemmas on \<open>qget\<close> and \<open>qput\<close> lift the queue contract
  of \<open>ClistQueue\<close> to it.  On top: \<open>canon\<close> hands over exactly the edited line, and the recursive
  calls of \<open>ttyoutput\<close>.
\<close>

section \<open>The three lists\<close>

definition blocks_of :: "(ttyq \<Rightarrow> nat list) \<Rightarrow> nat" where
  "blocks_of B = length (B Rawq) + length (B Canq) + length (B Outq)"

definition tty_rep :: "kst \<Rightarrow> (ttyq \<Rightarrow> u8 list) \<Rightarrow> bool" where
  "tty_rep s Q \<longleftrightarrow> (\<exists>B fs. (\<forall>q. holds (pool s, the_q q (kl11 s)) (B q) fs (Q q)) \<and>
     (\<forall>q q'. q \<noteq> q' \<longrightarrow> set (B q) \<inter> set (B q') = {}) \<and> blocks_of B + length fs \<le> NCLIST)"

lemma blocks_of_upd: "blocks_of (B(q := bs)) + length (B q) = blocks_of B + length bs"
  by (cases q) (simp_all add: blocks_of_def)

lemma blocks_of_le: "length (B q) \<le> blocks_of B"
  by (cases q) (simp_all add: blocks_of_def)

lemma the_q_set_q [simp]: "the_q q' (set_q q l t) = (if q' = q then l else the_q q' t)"
  by (cases q; cases q') simp_all

text \<open>A step of one list keeps the others, whatever it does with its own blocks.\<close>

lemma tty_rep_step:
  assumes rep: "\<forall>q. holds (pool s, the_q q (kl11 s)) (B q) fs (Q q)"
    and apart: "\<forall>q q'. q \<noteq> q' \<longrightarrow> set (B q) \<inter> set (B q') = {}"
    and size: "blocks_of B + length fs \<le> NCLIST"
    and own: "holds (m, l) bs fs' qs" "set bs \<union> set fs' = set (B q) \<union> set fs"
      "length bs + length fs' = length (B q) + length fs"
    and other: "\<And>l2 bs2 q2. list_rep (pool s) l2 bs2 q2 \<Longrightarrow> set bs2 \<inter> (set (B q) \<union> set fs) = {} \<Longrightarrow> list_rep m l2 bs2 q2"
  shows "tty_rep (s\<lparr>pool := m, kl11 := set_q q l (kl11 s)\<rparr>) (Q(q := qs))"
proof -
  let ?B = "B(q := bs)"
  have free: "set (B q') \<inter> (set (B q) \<union> set fs) = {}" if "q' \<noteq> q" for q'
    using rep that apart by (fastforce simp: holds_def)
  have "holds (m, the_q q' (set_q q l (kl11 s))) (?B q') fs' ((Q(q := qs)) q')" for q'
  proof (cases "q' = q")
    case True
    with own show ?thesis by simp
  next
    case False
    with rep have "list_rep (pool s) (the_q q' (kl11 s)) (B q') (Q q')" by (simp add: holds_def)
    from other [OF this free [OF False]] free [OF False] own False show ?thesis
      by (simp add: holds_def) blast
  qed
  moreover have "set (?B q1) \<inter> set (?B q2) = {}" if "q1 \<noteq> q2" for q1 q2
  proof -
    have "set (B q') \<inter> set bs = {}" if "q' \<noteq> q" for q' using free [OF that] own(2) by blast
    with that apart show ?thesis by (auto simp: Int_commute)
  qed
  moreover have "blocks_of ?B + length fs' \<le> NCLIST" using blocks_of_upd [of B q bs] own(3) size by linarith
  ultimately show ?thesis
    by (subst tty_rep_def, intro exI [of _ ?B] exI [of _ fs']) simp
qed

lemma tty_repE:
  assumes "tty_rep s Q"
  obtains B fs where "\<forall>q. holds (pool s, the_q q (kl11 s)) (B q) fs (Q q)"
    "\<forall>q q'. q \<noteq> q' \<longrightarrow> set (B q) \<inter> set (B q') = {}" "blocks_of B + length fs \<le> NCLIST"
  using assms by (auto simp: tty_rep_def)

lemma qget_Nil: "tty_rep s Q \<Longrightarrow> Q q = [] \<Longrightarrow> qget q s = (None, s)"
proof -
  assume "tty_rep s Q" and q: "Q q = []"
  then obtain B fs where "\<forall>q. holds (pool s, the_q q (kl11 s)) (B q) fs (Q q)" by (auto simp: tty_rep_def)
  with q have "list_rep (pool s) (the_q q (kl11 s)) (B q) []" by (metis fst_conv holds_def snd_conv)
  from getc_empty [OF this] show "qget q s = (None, s)" by (cases q) (simp_all add: qget_def)
qed

lemma qget_Cons:
  assumes "tty_rep s Q" "Q q = x # xs"
  shows "fst (qget q s) = Some x \<and> tty_rep (snd (qget q s)) (Q(q := xs))"
proof -
  from assms(1) obtain B fs where rep: "\<forall>q. holds (pool s, the_q q (kl11 s)) (B q) fs (Q q)"
    and B: "\<forall>q q'. q \<noteq> q' \<longrightarrow> set (B q) \<inter> set (B q') = {}" "blocks_of B + length fs \<le> NCLIST" by (rule tty_repE)
  let ?s = "(pool s, the_q q (kl11 s))"
  from rep assms(2) have h: "holds ?s (B q) fs (x # xs)" by metis
  from getc_Cons [OF h] obtain bs fs' where *: "fst (getc ?s) = Some x" "holds (snd (getc ?s)) bs fs' xs"
    "set bs \<union> set fs' = set (B q) \<union> set fs" "length bs + length fs' = length (B q) + length fs" by blast
  obtain r m l where g: "getc ?s = (r, m, l)" by (metis surj_pair)
  have "tty_rep (s\<lparr>pool := m, kl11 := set_q q l (kl11 s)\<rparr>) (Q(q := xs))"
    by (rule tty_rep_step [OF rep B, of m l bs fs']) (use * g getc_other [OF h] in auto)
  with * g show ?thesis by (simp add: qget_def)
qed

text \<open>A failing \<open>putc\<close> means that the pool is empty, and then it stays so.\<close>

lemma putc_fails: "\<not> fst (putc c (m, l)) \<Longrightarrow> cfreelist m = 0 \<and> snd (putc c (m, l)) = (m, l)"
  by (auto simp: putc_def Let_def split: if_splits)

lemma putc_free_zero: "cfreelist m = 0 \<Longrightarrow> cfreelist (fst (snd (putc c (m, l)))) = 0"
  by (auto simp: putc_def put_char_def Let_def)

lemma tty_rep_console [simp]: "tty_rep (put_console cs s) Q = tty_rep s Q"
  by (simp add: tty_rep_def put_console_def)

lemma pool_console [simp]: "pool (put_console cs s) = pool s"
  by (simp add: put_console_def)

lemma qput_snoc:
  assumes "tty_rep s Q"
  shows "tty_rep (snd (qput c q s)) (if fst (qput c q s) then Q(q := Q q @ [c]) else Q)
    \<and> (\<not> fst (qput c q s) \<longrightarrow> cfreelist (pool s) = 0)
    \<and> (cfreelist (pool s) = 0 \<longrightarrow> cfreelist (pool (snd (qput c q s))) = 0)"
proof -
  from assms(1) obtain B fs where rep: "\<forall>q. holds (pool s, the_q q (kl11 s)) (B q) fs (Q q)"
    and B: "\<forall>q q'. q \<noteq> q' \<longrightarrow> set (B q) \<inter> set (B q') = {}" "blocks_of B + length fs \<le> NCLIST" by (rule tty_repE)
  let ?s = "(pool s, the_q q (kl11 s))"
  from rep have h: "holds ?s (B q) fs (Q q)" by metis
  have "length (B q) + length fs \<le> NCLIST" using B(2) blocks_of_le [of B q] by linarith
  from putc_keeps [OF h this, of c] obtain bs fs' where *:
    "holds (snd (putc c ?s)) bs fs' (if fst (putc c ?s) then Q q @ [c] else Q q)"
    "set bs \<union> set fs' = set (B q) \<union> set fs" "length bs + length fs' = length (B q) + length fs" by blast
  obtain ok m l where g: "putc c ?s = (ok, m, l)" by (metis surj_pair)
  have "tty_rep (s\<lparr>pool := m, kl11 := set_q q l (kl11 s)\<rparr>) (Q(q := (if ok then Q q @ [c] else Q q)))"
    by (rule tty_rep_step [OF rep B, of m l bs fs']) (use * g putc_other [OF h, of _ _ _ c] in auto)
  moreover have "Q(q := (if ok then Q q @ [c] else Q q)) = (if ok then Q(q := Q q @ [c]) else Q)" by simp
  ultimately show ?thesis
    using g putc_fails [of c "pool s" "the_q q (kl11 s)"] putc_free_zero [of "pool s" c "the_q q (kl11 s)"]
    by (auto simp: qput_def Let_def)
qed

lemma qget_kl11: "t_flags (kl11 (snd (qget q s))) = t_flags (kl11 s)
    \<and> t_erase (kl11 (snd (qget q s))) = t_erase (kl11 s) \<and> t_kill (kl11 (snd (qget q s))) = t_kill (kl11 s)
    \<and> t_delct (kl11 (snd (qget q s))) = t_delct (kl11 s)"
  by (cases q) (auto simp: qget_def split_beta)

lemma tty_rep_delct [simp]: "tty_rep (set_tty (\<lambda>t. t\<lparr>t_delct := f t\<rparr>) s) Q = tty_rep s Q"
proof -
  have "the_q q (t\<lparr>t_delct := v\<rparr>) = the_q q t" for q t v by (cases q) simp_all
  then show ?thesis by (simp add: tty_rep_def)
qed

section \<open>The canonical line\<close>

text \<open>The line \<open>canon\<close> makes of the typed characters.\<close>

definition line_edit :: "tty \<Rightarrow> u8 list \<Rightarrow> u8 list" where
  "line_edit t cs = rev (map i2c (fold (\<lambda>c. canon_char t (ucast c)) cs []))"

lemma canon_char_cong:
  "t_flags t = t_flags t' \<Longrightarrow> t_erase t = t_erase t' \<Longrightarrow> t_kill t = t_kill t' \<Longrightarrow> canon_char t = canon_char t'"
  by (simp add: canon_char_def fun_eq_iff)

lemma canon_char_length: "length (canon_char t c ln) \<le> Suc (length ln)"
  by (cases ln) (auto simp: canon_char_def)

lemma canon_loop_line:
  assumes "tty_rep s Q" "Q Rawq = cs @ 255 # rest" "255 \<notin> set cs" "length ln + length cs < 254" "length cs < n"
  shows "\<exists>s'. canon_loop n ln s = (fold (\<lambda>c. canon_char (kl11 s) (ucast c)) cs ln, s')
    \<and> tty_rep s' (Q(Rawq := rest)) \<and> t_delct (kl11 s') = t_delct (kl11 s) - 1"
  using assms
proof (induction cs arbitrary: n ln s Q)
  case Nil
  then obtain k where n: "n = Suc k" by (cases n) auto
  from Nil qget_Cons [of s Q Rawq 255 rest]
  obtain s1 where "qget Rawq s = (Some 255, s1)" "tty_rep s1 (Q(Rawq := rest))" by (cases "qget Rawq s") auto
  with n qget_kl11 [of Rawq s] show ?case by (auto simp del: fun_upd_apply)
next
  case (Cons c cs)
  then obtain k where n: "n = Suc k" by (cases n) auto
  from Cons.prems qget_Cons [of s Q Rawq c "cs @ 255 # rest"]
  obtain s1 where g: "qget Rawq s = (Some c, s1)" "tty_rep s1 (Q(Rawq := cs @ 255 # rest))"
    by (cases "qget Rawq s") auto
  let ?ln = "canon_char (kl11 s1) (ucast c) ln"
  have t: "canon_char (kl11 s1) = canon_char (kl11 s)" "t_delct (kl11 s1) = t_delct (kl11 s)"
    using qget_kl11 [of Rawq s] g by (auto intro!: canon_char_cong)
  have l: "length ?ln \<le> Suc (length ln)" by (rule canon_char_length)
  have "\<exists>s'. canon_loop k ?ln s1 = (fold (\<lambda>c. canon_char (kl11 s1) (ucast c)) cs ?ln, s')
    \<and> tty_rep s' ((Q(Rawq := cs @ 255 # rest))(Rawq := rest)) \<and> t_delct (kl11 s') = t_delct (kl11 s1) - 1"
    by (rule Cons.IH [OF g(2)]) (use Cons.prems l n in auto)
  with Cons.prems l g n t show ?case by (auto simp: Let_def simp del: fun_upd_apply)
qed

lemma put_line:
  assumes "tty_rep s Q"
  shows "\<exists>oks. tty_rep (fold (\<lambda>c s. snd (qput (i2c c) q s)) cs s) (Q(q := Q q @ stored (map i2c cs) oks))
    \<and> (cfreelist (pool (fold (\<lambda>c s. snd (qput (i2c c) q s)) cs s)) \<noteq> 0 \<longrightarrow> cfreelist (pool s) \<noteq> 0 \<and> stored (map i2c cs) oks = map i2c cs)"
  using assms
proof (induction cs arbitrary: s Q)
  case Nil
  then show ?case by (auto intro!: exI [of _ "[]"])
next
  case (Cons c cs)
  let ?ok = "fst (qput (i2c c) q s)" and ?s = "snd (qput (i2c c) q s)"
  let ?Q = "if ?ok then Q(q := Q q @ [i2c c]) else Q"
  note p = qput_snoc [OF Cons.prems, of "i2c c" q]
  then have "tty_rep ?s ?Q" by blast
  from Cons.IH [OF this] obtain oks where "tty_rep (fold (\<lambda>c s. snd (qput (i2c c) q s)) cs ?s) (?Q(q := ?Q q @ stored (map i2c cs) oks))"
    "cfreelist (pool (fold (\<lambda>c s. snd (qput (i2c c) q s)) cs ?s)) \<noteq> 0 \<longrightarrow> cfreelist (pool ?s) \<noteq> 0 \<and> stored (map i2c cs) oks = map i2c cs"
    by blast
  with p show ?case
    by (cases ?ok; intro exI [of _ "?ok # oks"]) (auto simp del: fun_upd_apply simp: fun_upd_same)
qed

lemma canon_line_lemma:
  assumes "tty_rep s Q" "Q Rawq = cs @ 255 # rest" "255 \<notin> set cs" "length cs < 254" "t_delct (kl11 s) \<noteq> 0"
  shows "\<exists>s' oks. canon s = Ret True s'
    \<and> tty_rep s' (Q(Rawq := rest, Canq := Q Canq @ stored (line_edit (kl11 s) cs) oks))
    \<and> (cfreelist (pool s') \<noteq> 0 \<longrightarrow> stored (line_edit (kl11 s) cs) oks = line_edit (kl11 s) cs)"
proof -
  have "holds (pool s, the_q Rawq (kl11 s)) bs fs (cs @ 255 # rest) \<Longrightarrow> length cs < unat (q_cc Rawq s)" for bs fs
    by (auto simp: holds_def list_rep_def)
  moreover from assms(1,2) obtain B fs where "holds (pool s, the_q Rawq (kl11 s)) (B Rawq) fs (cs @ 255 # rest)"
    by (metis tty_rep_def)
  ultimately have "length cs < unat (q_cc Rawq s)" by blast
  with canon_loop_line [OF assms(1-3), of "[]" "Suc (unat (q_cc Rawq s))"] assms(4)
  obtain s1 where 1: "canon_loop (Suc (unat (q_cc Rawq s))) [] s
      = (fold (\<lambda>c. canon_char (kl11 s) (ucast c)) cs [], s1)" "tty_rep s1 (Q(Rawq := rest))"
    by auto
  have "wait_delct SPINS s = wait_delct (Suc 99) s" by simp
  also have "\<dots> = Ret True s" using assms(5) by (subst wait_delct.simps) simp
  finally have "canon s = Ret True (fold (\<lambda>c s. snd (qput (i2c c) Canq s)) (rev (fold (\<lambda>c. canon_char (kl11 s) (ucast c)) cs [])) s1)"
    using 1(1) by (simp add: canon_def del: canon_loop.simps)
  moreover have "map i2c (rev (fold (\<lambda>c. canon_char (kl11 s) (ucast c)) cs [])) = line_edit (kl11 s) cs"
    by (simp add: line_edit_def rev_map)
  moreover have "(Q(Rawq := rest)) Canq = Q Canq" by simp
  ultimately show ?thesis
    using put_line [OF 1(2), of Canq "rev (fold (\<lambda>c. canon_char (kl11 s) (ucast c)) cs [])"] by metis
qed

text \<open>A character without a meaning of its own in a line of a cooked terminal.\<close>

definition plain :: "tty \<Rightarrow> u8 \<Rightarrow> bool" where
  "plain t c \<longleftrightarrow> c \<noteq> 92 \<and> c \<noteq> 4 \<and> ucast c \<noteq> c2i (t_erase t) \<and> ucast c \<noteq> c2i (t_kill t)"

lemma byte_char [simp]: "i2c (ucast (c :: u8) :: u16) = c"
  by (rule bit_word_eqI) (simp add: bit_simps)

lemma unat_char: "unat (ucast (c :: u8) :: u16) = unat c"
proof -
  have "unat c < 256" using unsigned_less [of c, where ?'a = nat] by simp
  then show ?thesis by (simp add: unat_ucast)
qed

lemma char_byte: "c < 128 \<Longrightarrow> c2i c = ucast c"
proof -
  assume "c < 128"
  then have "uint c < 2 ^ 7" by (simp add: word_less_def)
  moreover have "- 128 \<le> uint c" by (rule order_trans [of _ 0]) simp_all
  ultimately have "sint c = uint c" by (simp add: sint_uint signed_take_bit_int_eq_self_iff)
  then show "c2i c = ucast c" by (metis of_int_sint of_int_uint)
qed

lemma canon_plain:
  assumes "\<not> has (t_flags t) RAW" "plain t c" "prev 0 ln \<noteq> 92"
  shows "canon_char t (ucast c) ln = ucast c # ln \<and> prev 0 (ucast c # ln) \<noteq> 92"
proof -
  have "ucast c \<noteq> (4 :: u16)" "ucast c \<noteq> (92 :: u16)"
    using assms(2) byte_char [of c] by (auto simp: plain_def simp del: byte_char)
  with assms show ?thesis by (simp add: canon_char_def plain_def prev_def [of 0 "_ # _"])
qed

abbreviation edit :: "tty \<Rightarrow> u8 list \<Rightarrow> u16 list \<Rightarrow> u16 list" where
  "edit t \<equiv> fold (\<lambda>c. canon_char t (ucast c))"

lemma edit_plain:
  "\<not> has (t_flags t) RAW \<Longrightarrow> \<forall>c \<in> set cs. plain t c \<Longrightarrow> prev 0 ln \<noteq> 92
    \<Longrightarrow> edit t cs ln = map ucast (rev cs) @ ln \<and> prev 0 (map ucast (rev cs) @ ln) \<noteq> 92"
  by (induction cs arbitrary: ln) (use canon_plain in \<open>fastforce+\<close>)

lemma edit_erase:
  "\<not> has (t_flags t) RAW \<Longrightarrow> prev 0 ln \<noteq> 92 \<Longrightarrow> t_erase t < 128 \<Longrightarrow> canon_char t (ucast (t_erase t)) ln = drop 1 ln"
  by (simp add: canon_char_def char_byte)

lemma edit_kill:
  "\<not> has (t_flags t) RAW \<Longrightarrow> prev 0 ln \<noteq> 92 \<Longrightarrow> t_kill t < 128 \<Longrightarrow> t_kill t \<noteq> t_erase t \<Longrightarrow> t_erase t < 128
    \<Longrightarrow> canon_char t (ucast (t_kill t)) ln = []"
  using byte_char [of "t_kill t"] byte_char [of "t_erase t"]
  by (auto simp: canon_char_def char_byte simp del: byte_char)

lemma prev_Nil: "prev k [] = 0"
  by (simp add: prev_def)

lemma line_edit_rules_lemma:
  assumes cooked: "\<not> has (t_flags t) RAW" and p: "\<forall>x \<in> set (xs @ ys @ c # zs). plain t x"
    and keys: "t_erase t < 128" "t_kill t < 128" "t_kill t \<noteq> t_erase t"
  shows "line_edit t (xs @ t_kill t # ys @ c # t_erase t # zs) = ys @ zs"
proof -
  have n: "prev 0 [] \<noteq> 92" by (simp add: prev_Nil)
  have 1: "edit t xs [] = map ucast (rev xs) @ [] \<and> prev 0 (map ucast (rev xs) @ []) \<noteq> 92"
    using edit_plain [OF cooked _ n, of xs] p by simp
  have 2: "edit t (ys @ [c]) [] = map ucast (rev (ys @ [c])) @ [] \<and> prev 0 (map ucast (rev (ys @ [c])) @ []) \<noteq> 92"
    by (rule edit_plain [OF cooked _ n]) (use p in simp)
  have 3: "edit t ys [] = map ucast (rev ys) @ [] \<and> prev 0 (map ucast (rev ys) @ []) \<noteq> 92"
    by (rule edit_plain [OF cooked _ n]) (use p in simp)
  have 4: "edit t zs (map ucast (rev ys)) = map ucast (rev zs) @ map ucast (rev ys)"
    using edit_plain [OF cooked _ conjunct2 [OF 3], of zs] p by simp
  have "edit t (xs @ t_kill t # ys @ c # t_erase t # zs) [] = map ucast (rev zs) @ map ucast (rev ys)"
    using 1 2 3 4 edit_kill [OF cooked _ keys(2,3,1), of "map ucast (rev xs)"]
      edit_erase [OF cooked _ keys(1), of "map ucast (rev (ys @ [c]))"] by simp
  then show ?thesis by (simp add: line_edit_def rev_map comp_def)
qed

text \<open>An escaped character that has a map entry stands for that entry, without the backslash.\<close>

lemma line_edit_escape_lemma:
  assumes cooked: "\<not> has (t_flags t) RAW" and p: "\<forall>x \<in> set (xs @ ys). plain t x"
    and "t_erase t \<noteq> 92" "t_kill t \<noteq> 92" "t_erase t < 128" "t_kill t < 128"
    and e: "maptab ! unat e = ucast e" "e \<noteq> 0" "e \<noteq> 92"
  shows "line_edit t (xs @ 92 # e # ys) = xs @ e # ys"
proof -
  have n: "prev 0 [] \<noteq> 92" by (simp add: prev_Nil)
  have 1: "edit t xs [] = map ucast (rev xs) @ [] \<and> prev 0 (map ucast (rev xs) @ []) \<noteq> 92"
    using edit_plain [OF cooked _ n, of xs] p by simp
  have ne: "ucast (t_erase t) \<noteq> (92 :: u16)" "ucast (t_kill t) \<noteq> (92 :: u16)" "ucast e \<noteq> (92 :: u16)" "ucast e \<noteq> (0 :: u16)"
    using assms(3,4) e byte_char [of "t_erase t"] byte_char [of "t_kill t"] byte_char [of e]
    by (auto simp del: byte_char)
  have 2: "canon_char t 92 (map ucast (rev xs)) = 92 # map ucast (rev xs)"
    using 1 cooked ne assms(5,6) by (auto simp: canon_char_def char_byte)
  have 3: "canon_char t (ucast e) (92 # map ucast (rev xs)) = ucast e # map ucast (rev xs)"
    using 1 cooked ne e by (auto simp: canon_char_def prev_def unat_char)
  have 4: "edit t ys (map ucast (rev (xs @ [e]))) = map ucast (rev ys) @ map ucast (rev (xs @ [e]))"
    using edit_plain [OF cooked, of ys "map ucast (rev (xs @ [e]))"] p ne by (simp add: prev_def)
  have "edit t (xs @ 92 # e # ys) [] = map ucast (rev ys) @ map ucast (rev (xs @ [e]))"
    using 1 2 3 4 by simp
  then show ?thesis by (simp add: line_edit_def rev_map comp_def)
qed


text \<open>A terminal on which \<open>a\<close>, \<open>#\<close>, \<open>b\<close> have been typed.\<close>

definition typed_ab :: kst where
  "typed_ab = (kernel0 0 (\<lambda>_. 0) (\<lambda>_ _. 0))\<lparr>
     pool := \<lparr>cb_next = \<lambda>_. 0, cb_byte = (\<lambda>_. 0)(10 := 97, 11 := 35, 12 := 98, 13 := 255), cfreelist = 16\<rparr>,
     kl11 := \<lparr>t_rawq = \<lparr>c_cc = 4, c_cf = 10, c_cl = 14\<rparr>, t_canq = \<lparr>c_cc = 0, c_cf = 0, c_cl = 0\<rparr>,
       t_outq = \<lparr>c_cc = 0, c_cf = 0, c_cl = 0\<rparr>, t_flags = CRMOD, t_delct = 1, t_col = 0,
       t_erase = 35, t_kill = 64, t_state = 20, t_speeds = 0, t_dev = 0\<rparr>\<rparr>"

lemma tty_rep_typed_ab: "tty_rep typed_ab ((\<lambda>_. [])(Rawq := [97, 35, 98, 255]))"
proof -
  have "holds (pool typed_ab, the_q q (kl11 typed_ab)) (((\<lambda>_. [])(Rawq := [8])) q) [16]
      (((\<lambda>_. [])(Rawq := [97, 35, 98, 255])) q)" for q
    by (cases q) (simp_all add: typed_ab_def holds_def list_rep_def pool_rep_def info_def chars_def
      block_chars_def)
  then show ?thesis
    unfolding tty_rep_def
    by (intro exI [of _ "(\<lambda>_. [])(Rawq := [8])"] exI [of _ "[16]"]) (auto simp: blocks_of_def)
qed


section \<open>Output\<close>

text \<open>The recursive calls of \<open>ttyoutput\<close> only queue the character.\<close>

lemma lcase_out_simple: "c \<in> {32, 92, 13} \<Longrightarrow> lcase_out c s = (c, s)"
  by (auto simp: lcase_out_def lcase_pairs_def)

lemma ttyoutput_simple:
  assumes "c \<in> {32, 92, 13}"
  shows "ttyoutput c s = Ret () (out_char c s)"
proof -
  have "c AND 127 = c" "c \<noteq> CEOT" "c \<noteq> 9" "c \<noteq> 10" using assms by auto
  with lcase_out_simple [OF assms] show ?thesis by (simp only: ttyoutput_def Let_def) simp
qed

end
