(* ===== verification/ProcFacts.thy ===== *)
theory ProcFacts
  imports Sys1
begin

text \<open>
  Facts about making processes.  The search of \<open>newproc\<close> for a process number ends within its
  bound: the numbers it tries are distinct, and more than the table can hold.
\<close>

section \<open>The numbers tried\<close>

fun tried :: "nat \<Rightarrow> nat \<Rightarrow> nat list" where
  "tried 0 m = []"
| "tried (Suc n) m = (if m + 1 < 32768 then (m + 1) # tried n (m + 1) else tried n 0)"

lemma tried_straight: "m + n < 32768 \<Longrightarrow> tried n m = [Suc m..<Suc (m + n)]"
  by (induction n arbitrary: m) (auto simp: upt_conv_Cons)

lemma tried_split: "m + n < 32768 \<Longrightarrow> tried (n + k) m = [Suc m..<Suc (m + n)] @ tried k (m + n)"
  by (induction n arbitrary: m) (auto simp: upt_conv_Cons)

lemma tried_many:
  assumes "m < 32768" and "n < 32767"
  shows "distinct (tried (Suc n) m) \<and> n \<le> length (tried (Suc n) m) \<and> (\<forall>k \<in> set (tried (Suc n) m). 0 < k \<and> k < 32768)"
proof (cases "m + Suc n < 32768")
  case True
  then show ?thesis using tried_straight [OF True] by auto
next
  case False
  define a where "a = 32767 - m"
  define b where "b = Suc n - a - 1"
  have ab: "Suc n = a + Suc b" "m + a = 32767" "b < 32767" "b \<le> m" using False assms by (auto simp: a_def b_def)
  have "tried (Suc n) m = [Suc m..<32768] @ tried (Suc b) 32767"
    using tried_split [of m a "Suc b"] ab(1,2) by simp
  also have "tried (Suc b) 32767 = [1..<Suc b]"
    using tried_straight [of 0 b] ab(3) by simp
  finally have "tried (Suc n) m = [Suc m..<32768] @ [1..<Suc b]" .
  then show ?thesis using ab by auto
qed

text \<open>The loop stops at the first number tried that no process has.\<close>

definition pid_used :: "kst \<Rightarrow> nat \<Rightarrow> bool" where
  "pid_used s k \<longleftrightarrow> (\<exists>p < NPROC. p_pid (procs s p) = of_nat k)"

lemma next_pid_step:
  "next_pid (Suc n) s =
     (if sint (mpid s + 1) < 0 then next_pid n (s\<lparr>mpid := 0\<rparr>)
      else if pid_used s (unat (mpid s + 1)) then next_pid n (s\<lparr>mpid := mpid s + 1\<rparr>)
      else s\<lparr>mpid := mpid s + 1\<rparr>)"
proof -
  have "(\<exists>p \<in> set [0..<NPROC]. p_pid (procs s p) = x) = pid_used s (unat x)" for x
    by (auto simp: pid_used_def)
  then show ?thesis by (simp del: set_upt add: Let_def)
qed

lemma pid_used_mpid [simp]: "pid_used (s\<lparr>mpid := x\<rparr>) k = pid_used s k"
  by (simp add: pid_used_def)

lemma next_pid_tried:
  assumes "unat (mpid s) = m" and "m < 32768" and "\<exists>k \<in> set (tried n m). \<not> pid_used s k"
  shows "\<exists>k \<in> set (tried n m). \<not> pid_used s k \<and> next_pid n s = s\<lparr>mpid := of_nat k\<rparr>"
  using assms
proof (induction n arbitrary: s m)
  case (Suc n)
  show ?case
  proof (cases "m + 1 < 32768")
    case True
    let ?s = "s\<lparr>mpid := mpid s + 1\<rparr>"
    have u: "unat (mpid s + 1) = m + 1" using True Suc.prems(1) by (simp add: unat_word_ariths)
    then have pos: "\<not> sint (mpid s + 1) < 0" using True sint16_eq_unat [of "mpid s + 1"] by simp
    have w: "mpid s + 1 = of_nat (m + 1)" using u by (metis of_nat_unat ucast_id)
    show ?thesis
    proof (cases "pid_used s (m + 1)")
      case used: True
      then have "next_pid (Suc n) s = next_pid n ?s" using pos u by (simp only: next_pid_step if_True if_False)
      moreover have "\<exists>k \<in> set (tried n (m + 1)). \<not> pid_used ?s k" using Suc.prems(3) True used by auto
      ultimately show ?thesis
        using Suc.IH [of ?s "m + 1"] u True by auto
    next
      case False
      then have "next_pid (Suc n) s = ?s" using pos u by (simp only: next_pid_step if_True if_False)
      with False w True show ?thesis by (auto simp del: next_pid.simps)
    qed
  next
    case False
    then have m: "mpid s = 32767" using Suc.prems(1,2) by (simp add: word_unat_eq_iff)
    have "next_pid (Suc n) s = next_pid n (s\<lparr>mpid := 0\<rparr>)" unfolding next_pid_step m by simp
    with False Suc.IH [of "s\<lparr>mpid := 0\<rparr>" 0] Suc.prems(3) show ?thesis by auto
  qed
qed simp

lemma sint_nonneg_unat: "0 \<le> sint (x :: u16) \<Longrightarrow> unat x < 32768"
proof -
  assume "0 \<le> sint x"
  moreover have "sint x < 32768" using sint_lt [of x] by simp
  ultimately have "uint x = sint x" by (simp add: uint_sint take_bit_int_eq_self_iff)
  with \<open>sint x < 32768\<close> show "unat x < 32768" by (simp add: unat_eq_nat_uint)
qed

lemma fresh_pid_tried:
  assumes "m < 32768"
  shows "\<exists>k \<in> set (tried (NPROC + 2) m). \<not> pid_used s k"
proof (rule ccontr)
  let ?T = "set (tried (NPROC + 2) m)"
  note t = tried_many [OF assms, of "NPROC + 1", simplified]
  assume "\<not> (\<exists>k \<in> ?T. \<not> pid_used s k)"
  then have "?T \<subseteq> (\<lambda>p. unat (p_pid (procs s p))) ` {..<NPROC}"
  proof (intro subsetI)
    fix k assume k: "k \<in> ?T" and "\<not> (\<exists>k \<in> ?T. \<not> pid_used s k)"
    then obtain p where "p < NPROC" "p_pid (procs s p) = of_nat k" by (auto simp: pid_used_def)
    moreover have "k < 65536" using t k by fastforce
    then have "unat (of_nat k :: u16) = k" by (simp add: unat_of_nat)
    ultimately show "k \<in> (\<lambda>p. unat (p_pid (procs s p))) ` {..<NPROC}" by force
  qed
  then have "card ?T \<le> card ((\<lambda>p. unat (p_pid (procs s p))) ` {..<NPROC})" by (intro card_mono) auto
  also have "\<dots> \<le> NPROC" using card_image_le [of "{..<NPROC}"] by fastforce
  finally show False using t by (simp add: distinct_card)
qed

text \<open>
  C18: the search of \<open>newproc\<close> for a process number ends: however full the table is, at most
  \<open>NPROC + 2\<close> turns of the retry loop give a number between 1 and 32767 that no process has, also
  when the counter wraps to 0 on the way, and nothing but the counter changes.
\<close>

theorem next_pid_unused:
  assumes "0 \<le> sint (mpid s)"
  shows "\<exists>k. 0 < k \<and> k < 32768 \<and> next_pid (NPROC + 2) s = s\<lparr>mpid := of_nat k\<rparr>
    \<and> (\<forall>p < NPROC. p_pid (procs s p) \<noteq> of_nat k)"
proof -
  have m: "unat (mpid s) < 32768" using assms by (rule sint_nonneg_unat)
  from next_pid_tried [OF refl m fresh_pid_tried [OF m]] obtain k where
    "k \<in> set (tried (NPROC + 2) (unat (mpid s)))" "\<not> pid_used s k"
    "next_pid (NPROC + 2) s = s\<lparr>mpid := of_nat k\<rparr>" by blast
  then show ?thesis using tried_many [OF m, of "NPROC + 1"] by (auto simp: pid_used_def simp del: tried.simps)
qed

lemma next_pid_unused_witness:
  "\<exists>k. 0 < k \<and> k < 32768
    \<and> next_pid (NPROC + 2) ((kernel0 0 (\<lambda>_. 0) (\<lambda>_ _. 0))\<lparr>mpid := 32767\<rparr>)
      = (kernel0 0 (\<lambda>_. 0) (\<lambda>_ _. 0))\<lparr>mpid := of_nat k\<rparr>"
  using next_pid_unused [of "(kernel0 0 (\<lambda>_. 0) (\<lambda>_ _. 0))\<lparr>mpid := 32767\<rparr>"] by auto

end
