(* ===== verification/LockFacts.thy ===== *)
theory LockFacts
  imports Inode SchedFacts
begin

text \<open>
  The lock of an inode under interleaving.  Any number of processes run \<open>plock\<close> and \<open>prele\<close> on one
  inode; between two actions of one process the others act, sleep elsewhere, are woken by
  interrupts and get signals.  The actions are the state changes of the code between two points
  where it can give up the processor.  Shown are mutual exclusion, that no wakeup is lost, and that
  a waiting process can always get the lock.
\<close>

section \<open>Actions\<close>

text \<open>
  The process that goes on is the current one.  The rest of the user structure plays no part: in
  \<open>sleep\<close> a signal may be found or not, both are steps.
\<close>

definition run_as :: "nat \<Rightarrow> kst \<Rightarrow> kst" where
  "run_as p s = set_u (\<lambda>w. w\<lparr>u_procp := p\<rparr>) s"

definition want_lock :: "nat \<Rightarrow> kst \<Rightarrow> kst" where
  "want_lock ip s = set_ino ip (\<lambda>q. q\<lparr>i_flag := i_flag q OR IWANT\<rparr>) s"

definition take_lock :: "nat \<Rightarrow> kst \<Rightarrow> kst" where
  "take_lock ip s = set_ino ip (\<lambda>q. q\<lparr>i_flag := i_flag q OR ILOCK\<rparr>) s"

definition is_locked :: "nat \<Rightarrow> kst \<Rightarrow> bool" where
  "is_locked ip s \<longleftrightarrow> has (i_flag (inodes s ip)) ILOCK"

text \<open>One turn of \<open>plock\<close> is made of these.\<close>

lemma plock_turn:
  "plock_loop (Suc n) ip s =
     (if is_locked ip s then andthen (sleep (ChInode ip) PPIPE (want_lock ip s)) (\<lambda>_. plock_loop n ip)
      else Ret () (take_lock ip s))"
  by (simp add: is_locked_def want_lock_def take_lock_def)

text \<open>Where a process is: outside, before the test of the lock, in \<open>sleep\<close>, holding the lock.\<close>

datatype place = Outside | Trying | Waiting | Holding

type_synonym lock_state = "kst \<times> (nat \<Rightarrow> place)"

definition runs :: "kst \<Rightarrow> nat \<Rightarrow> bool" where
  "runs s p \<longleftrightarrow> p < NPROC \<and> p_stat (procs s p) = SRUN"

inductive lock_step :: "nat \<Rightarrow> lock_state \<Rightarrow> lock_state \<Rightarrow> bool" for ip where
  arrive: "runs s p \<Longrightarrow> pc p = Outside \<Longrightarrow> lock_step ip (s, pc) (s, pc(p := Trying))"
| grab: "runs s p \<Longrightarrow> pc p = Trying \<Longrightarrow> \<not> is_locked ip s
    \<Longrightarrow> lock_step ip (s, pc) (take_lock ip (run_as p s), pc(p := Holding))"
| block: "runs s p \<Longrightarrow> pc p = Trying \<Longrightarrow> is_locked ip s
    \<Longrightarrow> lock_step ip (s, pc) (sleep_mark (ChInode ip) PPIPE (want_lock ip (run_as p s)), pc(p := Waiting))"
| jump: "runs s p \<Longrightarrow> pc p = Trying \<Longrightarrow> is_locked ip s
    \<Longrightarrow> lock_step ip (s, pc) (want_lock ip (run_as p s), pc(p := Outside))"
| resume: "runs s p \<Longrightarrow> pc p = Waiting
    \<Longrightarrow> lock_step ip (s, pc) (resumed (run_as p s), pc(p := Trying))"
| abort: "runs s p \<Longrightarrow> pc p = Waiting
    \<Longrightarrow> lock_step ip (s, pc) (resumed (run_as p s), pc(p := Outside))"
| release: "runs s p \<Longrightarrow> pc p = Holding
    \<Longrightarrow> lock_step ip (s, pc) (prele ip (run_as p s), pc(p := Outside))"
| elsewhere: "runs s p \<Longrightarrow> pc p = Outside \<or> pc p = Holding \<Longrightarrow> c \<noteq> ChInode ip \<Longrightarrow> c \<noteq> NoChan
    \<Longrightarrow> lock_step ip (s, pc) (sleep_mark c pr (run_as p s), pc)"
| wake: "c \<noteq> NoChan \<Longrightarrow> lock_step ip (s, pc) (wakeup c s, pc)"
| signalled: "p < NPROC \<Longrightarrow> lock_step ip (s, pc) (psignal p sig s, pc)"

inductive_cases lock_stepE: "lock_step ip (s, pc) c"

text \<open>A free inode nobody sleeps on, and everybody outside.\<close>

definition lock_start :: "nat \<Rightarrow> kst \<Rightarrow> bool" where
  "lock_start ip s \<longleftrightarrow> \<not> is_locked ip s \<and>
     (\<forall>p. p_wchan (procs s p) \<noteq> ChInode ip \<and> (p_stat (procs s p) = SRUN \<or> p_wchan (procs s p) \<noteq> NoChan))"

inductive lock_reach :: "nat \<Rightarrow> lock_state \<Rightarrow> bool" for ip where
  start: "lock_start ip s \<Longrightarrow> lock_reach ip (s, \<lambda>_. Outside)"
| step: "lock_reach ip c \<Longrightarrow> lock_step ip c c' \<Longrightarrow> lock_reach ip c'"

section \<open>What an action leaves alone\<close>

text \<open>A process is left as it is or made runnable.\<close>

definition wakes :: "kst \<Rightarrow> kst \<Rightarrow> nat \<Rightarrow> bool" where
  "wakes s s' q \<longleftrightarrow>
     p_wchan (procs s' q) = p_wchan (procs s q) \<and> p_stat (procs s' q) = p_stat (procs s q)
     \<or> p_wchan (procs s' q) = NoChan \<and> p_stat (procs s' q) = SRUN"

lemma wakes_refl [intro]: "procs s' q = procs s q \<Longrightarrow> wakes s s' q"
  by (simp add: wakes_def)

lemma wakes_wakeup: "c \<noteq> NoChan \<Longrightarrow> wakes s (wakeup c s) q"
  by (simp add: wakes_def procs_wakeup)

lemma wakes_setrun: "wakes s (setrun p s) q"
  by (simp add: wakes_def procs_setrun)

lemma wakes_set_proc: "(\<And>q. p_wchan (f q) = p_wchan q) \<Longrightarrow> (\<And>q. p_stat (f q) = p_stat q) \<Longrightarrow> wakes s (set_proc p f s) q"
  by (simp add: wakes_def)

lemma wakes_trans: "wakes s t q \<Longrightarrow> wakes t u q \<Longrightarrow> wakes s u q"
  by (auto simp: wakes_def)

lemma wakes_psignal: "wakes s (psignal p sig s) q"
proof (cases "sint sig \<ge> int NSIG")
  case False
  let ?a = "if c2i (p_sig (procs s p)) \<noteq> SIGKIL then set_proc p (p_sig_update (\<lambda>_. i2c sig)) s else s"
  let ?b = "if sint (p_pri (procs ?a p)) > PUSER then set_proc p (p_pri_update (\<lambda>_. word_of_int PUSER)) ?a else ?a"
  have "wakes s ?a q" "wakes ?a ?b q" by (simp_all add: wakes_def)
  then have "wakes s ?b q" by (rule wakes_trans)
  moreover from this have "wakes s (setrun p ?b) q" using wakes_setrun by (rule wakes_trans)
  ultimately show ?thesis using False by (simp add: psignal_def Let_def)
qed (simp add: psignal_def wakes_refl)

lemma inodes_run [simp]:
  "inodes (run_as p s) = inodes s" "procs (run_as p s) = procs s" "curproc (run_as p s) = p"
  "inodes (want_lock ip s) = (inodes s)(ip := (inodes s ip)\<lparr>i_flag := i_flag (inodes s ip) OR IWANT\<rparr>)"
  "inodes (take_lock ip s) = (inodes s)(ip := (inodes s ip)\<lparr>i_flag := i_flag (inodes s ip) OR ILOCK\<rparr>)"
  "procs (want_lock ip s) = procs s" "procs (take_lock ip s) = procs s" "curproc (want_lock ip s) = curproc s"
  "runin (want_lock ip s) = runin s"
  by (simp_all add: run_as_def want_lock_def take_lock_def)

text \<open>\<open>sleep\<close> marks the process; the swapper may be woken.\<close>

lemma sleep_mark_procs:
  assumes "curproc s = p"
  shows "q \<noteq> p \<Longrightarrow> wakes s (sleep_mark c pr s) q"
    and "p_wchan (procs (sleep_mark c pr s) p) = c
      \<or> p_wchan (procs (sleep_mark c pr s) p) = NoChan \<and> p_stat (procs (sleep_mark c pr s) p) = SRUN"
    and "c \<noteq> ChRunin \<Longrightarrow> c \<noteq> ChRunout \<Longrightarrow> p_wchan (procs (sleep_mark c pr s) p) = c
      \<and> p_stat (procs (sleep_mark c pr s) p) \<noteq> SRUN"
  using assms by (auto simp: sleep_mark_def Let_def wakes_def procs_wakeup)

lemma prele_inodes:
  "inodes (prele ip s) = (inodes s)(ip := (inodes s ip)\<lparr>i_flag :=
     (if has (i_flag (inodes s ip)) IWANT then clr (clr (i_flag (inodes s ip)) ILOCK) IWANT
      else clr (i_flag (inodes s ip)) ILOCK)\<rparr>)"
  by (simp add: prele_def Let_def)

lemma prele_procs:
  "procs (prele ip s) =
     (if has (i_flag (inodes s ip)) IWANT then procs (wakeup (ChInode ip) s) else procs s)"
proof -
  have "swapper_called c (inodes_update f s) = swapper_called c s" for c f s
    by (simp add: swapper_called_def calls_swapper_def)
  then have "procs (wakeup c (inodes_update f s)) = procs (wakeup c s)" if "c \<noteq> NoChan" for c f s
    using that by (intro ext) (auto simp: procs_wakeup)
  then show ?thesis by (simp add: prele_def Let_def)
qed

section \<open>The invariant\<close>

definition proc_ok :: "nat \<Rightarrow> kst \<Rightarrow> place \<Rightarrow> nat \<Rightarrow> bool" where
  "proc_ok ip s a p \<longleftrightarrow>
     (p_wchan (procs s p) = ChInode ip \<longrightarrow> a = Waiting \<and> p_stat (procs s p) \<noteq> SRUN \<and> is_locked ip s \<and> has (i_flag (inodes s ip)) IWANT)
   \<and> (a = Waiting \<longrightarrow> p_stat (procs s p) = SRUN \<or> p_wchan (procs s p) = ChInode ip)
   \<and> (p_stat (procs s p) = SRUN \<or> p_wchan (procs s p) \<noteq> NoChan)
   \<and> (a = Trying \<longrightarrow> p_stat (procs s p) = SRUN)
   \<and> (a \<noteq> Outside \<longrightarrow> p < NPROC)"

definition lock_inv :: "nat \<Rightarrow> lock_state \<Rightarrow> bool" where
  "lock_inv ip c \<longleftrightarrow> (case c of (s, pc) \<Rightarrow>
     (\<forall>p q. pc p = Holding \<longrightarrow> pc q = Holding \<longrightarrow> p = q)
   \<and> (is_locked ip s \<longleftrightarrow> (\<exists>p. pc p = Holding))
   \<and> (\<forall>p. proc_ok ip s (pc p) p))"

lemma lock_start_inv: "lock_start ip s \<Longrightarrow> lock_inv ip (s, \<lambda>_. Outside)"
  by (auto simp: lock_start_def lock_inv_def proc_ok_def)

text \<open>Waking keeps what is known of a process, and so does sleeping on something else.\<close>

lemma proc_ok_wakes:
  "proc_ok ip s a p \<Longrightarrow> wakes s s' p \<Longrightarrow> inodes s' = inodes s \<Longrightarrow> proc_ok ip s' a p"
  by (auto simp: proc_ok_def wakes_def is_locked_def)

lemma proc_ok_procs:
  "proc_ok ip s a p \<Longrightarrow> procs s' p = procs s p
    \<Longrightarrow> (is_locked ip s \<Longrightarrow> is_locked ip s') \<Longrightarrow> (has (i_flag (inodes s ip)) IWANT \<Longrightarrow> has (i_flag (inodes s' ip)) IWANT)
    \<Longrightarrow> proc_ok ip s' a p"
  by (auto simp: proc_ok_def)

lemma proc_ok_run: "proc_ok ip s a p \<Longrightarrow> runs s p \<Longrightarrow> proc_ok ip s b p"
  by (auto simp: proc_ok_def runs_def)

lemma proc_ok_upd: "(\<And>q. proc_ok ip s (pc q) q) \<Longrightarrow> runs s p \<Longrightarrow> proc_ok ip s ((pc(p := a)) q) q"
  using proc_ok_run [of ip s "pc p" p a] by simp

lemma lock_inv_wakes:
  "lock_inv ip (s, pc) \<Longrightarrow> (\<And>q. wakes s s' q) \<Longrightarrow> inodes s' = inodes s \<Longrightarrow> lock_inv ip (s', pc)"
  using proc_ok_wakes [of ip s _ _ s'] by (simp add: lock_inv_def is_locked_def)

lemma flags_lock [simp]:
  "is_locked ip (want_lock ip s) = is_locked ip s" "is_locked ip (take_lock ip s)"
  "has (i_flag (inodes (want_lock ip s) ip)) IWANT"
  "has (i_flag (inodes (take_lock ip s) ip)) IWANT = has (i_flag (inodes s ip)) IWANT"
  "is_locked ip (run_as p s) = is_locked ip s" "is_locked ip (resumed s) = is_locked ip s"
  "\<not> is_locked ip (prele ip s)"
  by (auto simp: is_locked_def prele_inodes resumed_def)

lemma wakes_resumed: "wakes s (resumed s) q"
  by (simp add: wakes_def resumed_def)

text \<open>Each action keeps the invariant.\<close>

lemma inv_move:
  assumes "lock_inv ip (s, pc)" "runs s p" "pc p \<noteq> Holding" "a \<noteq> Holding"
    and "inodes s' = inodes s" "\<And>q. wakes s s' q"
  shows "lock_inv ip (s', pc(p := a))"
proof -
  have "runs s' p" using assms(2) assms(6) [of p] by (auto simp: runs_def wakes_def)
  moreover have "proc_ok ip s' (pc q) q" for q
    using assms(1) proc_ok_wakes [OF _ assms(6,5)] by (simp add: lock_inv_def)
  ultimately have "proc_ok ip s' ((pc(p := a)) q) q" for q using proc_ok_upd by blast
  moreover have "(\<exists>q. (pc(p := a)) q = Holding) = (\<exists>q. pc q = Holding)"
    using assms(3,4) by (metis fun_upd_apply)
  ultimately show ?thesis using assms(1,4,5) by (auto simp: lock_inv_def is_locked_def)
qed

lemma inv_grab:
  assumes "lock_inv ip (s, pc)" "runs s p" "\<not> is_locked ip s"
  shows "lock_inv ip (take_lock ip (run_as p s), pc(p := Holding))"
proof -
  let ?s = "take_lock ip (run_as p s)"
  have "proc_ok ip ?s (pc q) q" for q
    by (rule proc_ok_procs [of ip s]) (use assms(1) in \<open>simp_all add: lock_inv_def\<close>)
  moreover have "runs ?s p" using assms(2) by (simp add: runs_def)
  ultimately have "proc_ok ip ?s ((pc(p := Holding)) q) q" for q by (rule proc_ok_upd)
  with assms show ?thesis by (auto simp: lock_inv_def)
qed

lemma inv_want:
  assumes "lock_inv ip (s, pc)"
  shows "lock_inv ip (want_lock ip (run_as p s), pc)"
proof -
  have "proc_ok ip (want_lock ip (run_as p s)) (pc q) q" for q
    by (rule proc_ok_procs [of ip s]) (use assms in \<open>simp_all add: lock_inv_def\<close>)
  with assms show ?thesis by (simp add: lock_inv_def)
qed

lemma inv_block:
  assumes "lock_inv ip (s, pc)" "runs s p" "pc p = Trying" "is_locked ip s"
  shows "lock_inv ip (sleep_mark (ChInode ip) PPIPE (want_lock ip (run_as p s)), pc(p := Waiting))"
proof -
  let ?w = "want_lock ip (run_as p s)"
  let ?s = "sleep_mark (ChInode ip) PPIPE ?w"
  have w: "lock_inv ip (?w, pc)" using assms(1) by (rule inv_want)
  have cur: "curproc ?w = p" by simp
  have i: "inodes ?s = inodes ?w" by simp
  have "proc_ok ip ?s (pc q) q" if "q \<noteq> p" for q
    using proc_ok_wakes [OF _ sleep_mark_procs(1) [OF cur that] i] w by (simp add: lock_inv_def)
  moreover have "proc_ok ip ?s Waiting p"
    using sleep_mark_procs(3) [OF cur, of "ChInode ip" PPIPE] assms(2,4) i
    by (simp add: proc_ok_def runs_def is_locked_def)
  ultimately have "proc_ok ip ?s ((pc(p := Waiting)) q) q" for q by (cases "q = p") auto
  moreover have "(\<exists>q. (pc(p := Waiting)) q = Holding) = (\<exists>q. pc q = Holding)"
    using assms(3) by (metis fun_upd_apply place.distinct(9,11))
  ultimately show ?thesis using w i by (auto simp: lock_inv_def is_locked_def)
qed

lemma inv_elsewhere:
  assumes "lock_inv ip (s, pc)" "runs s p" "pc p = Outside \<or> pc p = Holding" "c \<noteq> ChInode ip" "c \<noteq> NoChan"
  shows "lock_inv ip (sleep_mark c pr (run_as p s), pc)"
proof -
  let ?s = "sleep_mark c pr (run_as p s)"
  have cur: "curproc (run_as p s) = p" by simp
  have i: "inodes ?s = inodes s" by simp
  have "wakes s ?s q" if "q \<noteq> p" for q using sleep_mark_procs(1) [OF cur that] by (simp add: wakes_def)
  then have "proc_ok ip ?s (pc q) q" if "q \<noteq> p" for q
    using proc_ok_wakes [OF _ _ i] assms(1) that by (simp add: lock_inv_def)
  moreover have "proc_ok ip ?s (pc p) p"
    using sleep_mark_procs(2) [OF cur, of c pr] assms(2-5) by (auto simp: proc_ok_def runs_def)
  ultimately have "proc_ok ip ?s (pc q) q" for q by (cases "q = p") auto
  with assms(1) i show ?thesis by (simp add: lock_inv_def is_locked_def)
qed

lemma prele_wakes: "wakes s (prele ip s) q"
  by (simp add: wakes_def prele_procs procs_wakeup)

text \<open>After \<open>prele\<close> nobody sleeps on the inode.\<close>

lemma prele_nobody:
  assumes "lock_inv ip (s, pc)"
  shows "p_wchan (procs (prele ip s) q) \<noteq> ChInode ip"
proof
  assume q: "p_wchan (procs (prele ip s) q) = ChInode ip"
  with prele_wakes [of s ip q] have "p_wchan (procs s q) = ChInode ip" by (auto simp: wakes_def)
  with assms have "has (i_flag (inodes s ip)) IWANT" "q < NPROC"
    by (auto simp: lock_inv_def proc_ok_def)
  with q show False by (auto simp: prele_procs procs_wakeup split: if_splits)
qed

lemma inv_release:
  assumes "lock_inv ip (s, pc)" "runs s p" "pc p = Holding"
  shows "lock_inv ip (prele ip (run_as p s), pc(p := Outside))"
proof -
  let ?r = "run_as p s"
  let ?s = "prele ip ?r"
  have r: "lock_inv ip (?r, pc)" by (rule lock_inv_wakes [OF assms(1)]) auto
  have "proc_ok ip ?s (pc q) q" for q
  proof -
    have "proc_ok ip ?r (pc q) q" using r by (simp add: lock_inv_def)
    with prele_wakes [of ?r ip q] prele_nobody [OF r, of q] show ?thesis
      by (auto simp: proc_ok_def wakes_def)
  qed
  moreover have "runs ?s p" using assms(2) prele_wakes [of ?r ip p] by (auto simp: runs_def wakes_def)
  ultimately have "proc_ok ip ?s ((pc(p := Outside)) q) q" for q by (rule proc_ok_upd)
  with assms(1,3) show ?thesis by (auto simp: lock_inv_def)
qed

lemma lock_step_inv: "lock_step ip c c' \<Longrightarrow> lock_inv ip c \<Longrightarrow> lock_inv ip c'"
proof (induction rule: lock_step.induct)
  case (arrive s p pc)
  then show ?case by (auto intro: inv_move)
next
  case (grab s p pc)
  then show ?case by (auto intro: inv_grab)
next
  case (block s p pc)
  then show ?case by (auto intro: inv_block)
next
  case (jump s p pc)
  then show ?case
    using inv_move [OF inv_want, of ip s pc p p Outside "want_lock ip (run_as p s)"] by (simp add: runs_def wakes_refl)
next
  case (resume s p pc)
  then show ?case using wakes_resumed [of "run_as p s"]
    by (intro inv_move) (auto simp: resumed_def wakes_def)
next
  case (abort s p pc)
  then show ?case using wakes_resumed [of "run_as p s"]
    by (intro inv_move) (auto simp: resumed_def wakes_def)
next
  case (release s p pc)
  then show ?case by (auto intro: inv_release)
next
  case (elsewhere s p pc c pr)
  then show ?case by (auto intro: inv_elsewhere)
next
  case (wake c s pc)
  then show ?case by (intro lock_inv_wakes [OF wake(2) wakes_wakeup]) simp_all
next
  case (signalled p s pc sig)
  then show ?case by (intro lock_inv_wakes [OF signalled(2) wakes_psignal]) simp_all
qed

lemma lock_reach_inv: "lock_reach ip c \<Longrightarrow> lock_inv ip c"
  by (induction rule: lock_reach.induct) (auto intro: lock_start_inv lock_step_inv)

section \<open>A waiting process can get the lock\<close>

lemma reach_steps: "(lock_step ip)\<^sup>*\<^sup>* c c' \<Longrightarrow> lock_reach ip c \<Longrightarrow> lock_reach ip c'"
  by (induction rule: rtranclp_induct) (auto intro: lock_reach.step)

text \<open>Whoever holds the lock can be woken and then releases it.\<close>

lemma holder_releases:
  assumes "lock_reach ip (s, pc)" "pc p = Trying \<or> pc p = Waiting"
  shows "\<exists>s' pc'. (lock_step ip)\<^sup>*\<^sup>* (s, pc) (s', pc') \<and> \<not> is_locked ip s' \<and> pc' p = pc p"
proof (cases "is_locked ip s")
  case True
  note inv = lock_reach_inv [OF assms(1)]
  then have "\<exists>q. pc q = Holding" and ok: "\<And>q. proc_ok ip s (pc q) q"
    using True by (simp_all add: lock_inv_def)
  then obtain q where "pc q = Holding" by blast
  with ok [of q] have q: "pc q = Holding" "q < NPROC" "q \<noteq> p" "p_stat (procs s q) = SRUN \<or> p_wchan (procs s q) \<noteq> NoChan"
    using assms(2) by (auto simp: proc_ok_def)
  obtain t where t: "(lock_step ip)\<^sup>*\<^sup>* (s, pc) (t, pc)" "runs t q"
  proof (cases "p_stat (procs s q) = SRUN")
    case run: True
    with q(2) show ?thesis by (intro that [of s]) (auto simp: runs_def)
  next
    case False
    with q(4) have "lock_step ip (s, pc) (wakeup (p_wchan (procs s q)) s, pc)" by (auto intro: lock_step.wake)
    moreover have "runs (wakeup (p_wchan (procs s q)) s) q"
      using False q(2,4) procs_wakeup [of "p_wchan (procs s q)" s q] by (simp add: runs_def)
    ultimately show ?thesis by (intro that) auto
  qed
  have "lock_step ip (t, pc) (prele ip (run_as q t), pc(q := Outside))"
    using t(2) q(1) by (rule lock_step.release)
  with t(1) have "(lock_step ip)\<^sup>*\<^sup>* (s, pc) (prele ip (run_as q t), pc(q := Outside))" by auto
  then show ?thesis using q(3) by (intro exI) (auto simp: flags_lock)
qed blast

lemma waiter_gets_lock:
  assumes "lock_reach ip (s, pc)" "pc p = Trying \<or> pc p = Waiting"
  shows "\<exists>s' pc'. (lock_step ip)\<^sup>*\<^sup>* (s, pc) (s', pc') \<and> pc' p = Holding"
proof -
  from holder_releases [OF assms] obtain t pc1 where
    t: "(lock_step ip)\<^sup>*\<^sup>* (s, pc) (t, pc1)" "\<not> is_locked ip t" "pc1 p = pc p" by blast
  have inv: "lock_inv ip (t, pc1)" using reach_steps [OF t(1) assms(1)] by (rule lock_reach_inv)
  with t(2,3) assms(2) have r: "runs t p" by (auto simp: lock_inv_def proc_ok_def runs_def)
  obtain t' pc2 where t': "(lock_step ip)\<^sup>*\<^sup>* (t, pc1) (t', pc2)" "pc2 p = Trying" "\<not> is_locked ip t'" "runs t' p"
  proof (cases "pc1 p = Trying")
    case True
    with t(2) r show ?thesis by (intro that [of t pc1]) auto
  next
    case False
    with t(3) assms(2) have "lock_step ip (t, pc1) (resumed (run_as p t), pc1(p := Trying))"
      by (intro lock_step.resume [OF r]) auto
    moreover have "runs (resumed (run_as p t)) p" using r by (simp add: runs_def resumed_def)
    ultimately show ?thesis using t(2) by (intro that [of "resumed (run_as p t)" "pc1(p := Trying)"]) auto
  qed
  then have "lock_step ip (t', pc2) (take_lock ip (run_as p t'), pc2(p := Holding))" by (intro lock_step.grab)
  with t(1) t'(1) have "(lock_step ip)\<^sup>*\<^sup>* (s, pc) (take_lock ip (run_as p t'), pc2(p := Holding))" by auto
  then show ?thesis by (intro exI) auto
qed



text \<open>Two processes, one inside and one asleep in \<open>plock\<close>.\<close>

definition two_procs :: kst where
  "two_procs = (kernel0 0 (\<lambda>_. 0) (\<lambda>_ _. 0))\<lparr>procs := (\<lambda>_. zero_proc\<lparr>p_stat := SRUN\<rparr>)\<rparr>"

definition one_waits :: lock_state where
  "one_waits = (sleep_mark (ChInode 5) PPIPE (want_lock 5 (run_as 2 (take_lock 5 (run_as 1 two_procs)))),
     (\<lambda>_. Outside)(1 := Holding, 2 := Waiting))"

lemma one_waits_reach: "lock_reach 5 one_waits"
proof -
  let ?s1 = "take_lock 5 (run_as 1 two_procs)"
  have r: "runs two_procs p" "runs ?s1 p" if "p < NPROC" for p
    using that by (simp_all add: runs_def two_procs_def)
  have 0: "\<not> is_locked 5 two_procs" by (simp add: is_locked_def two_procs_def kernel0_def zero_inode_def)
  have "lock_reach 5 (two_procs, \<lambda>_. Outside)"
    using 0 by (intro lock_reach.start) (simp add: lock_start_def two_procs_def zero_proc_def)
  from lock_reach.step [OF this lock_step.arrive [OF r(1) [of 1]]]
  have "lock_reach 5 (two_procs, (\<lambda>_. Outside)(1 := Trying))" by simp
  from lock_reach.step [OF this lock_step.grab [OF r(1) [of 1] _ 0]]
  have "lock_reach 5 (?s1, (\<lambda>_. Outside)(1 := Holding))" by simp
  from lock_reach.step [OF this lock_step.arrive [OF r(2) [of 2]]]
  have "lock_reach 5 (?s1, (\<lambda>_. Outside)(1 := Holding, 2 := Trying))" by simp
  from lock_reach.step [OF this lock_step.block [OF r(2) [of 2]]]
  show ?thesis by (simp add: one_waits_def)
qed



end
