(* ===== verification/Grep.thy ===== *)
theory Grep
  imports Prelude
begin

text \<open>
  The program \<open>usr/grep.c\<close>: the matcher for \<open>^ . * $\<close> and the loop that cuts the input into lines.
  A \<open>char *\<close> is the list of the bytes before the terminating NUL.  The matcher is compared with
  the language of the expression, the loop with the lines of the input.
\<close>

section \<open>The matcher\<close>

text \<open>\<open>matchstar\<close> is a do-while loop over the text.\<close>

function matchhere :: "u8 list \<Rightarrow> u8 list \<Rightarrow> bool"
  and matchstar :: "u8 \<Rightarrow> u8 list \<Rightarrow> u8 list \<Rightarrow> bool" where
  "matchhere re txt =
     (case re of
        [] \<Rightarrow> True
      | r # re' \<Rightarrow>
          if re' \<noteq> [] \<and> hd re' = 42 then matchstar r (tl re') txt
          else if r = 36 \<and> re' = [] then txt = []
          else (case txt of [] \<Rightarrow> False | t # ts \<Rightarrow> (r = 46 \<or> r = t) \<and> matchhere re' ts))"
| "matchstar c re txt =
     (matchhere re txt \<or> (case txt of [] \<Rightarrow> False | t # ts \<Rightarrow> (t = c \<or> c = 46) \<and> matchstar c re ts))"
  by pat_completeness auto

termination
  by (relation "measures [\<lambda>x. case x of Inl (re, txt) \<Rightarrow> 2 * length re | Inr (c, re, txt) \<Rightarrow> 2 * length re + 1,
      \<lambda>x. case x of Inl (re, txt) \<Rightarrow> length txt | Inr (c, re, txt) \<Rightarrow> length txt]") auto

declare matchhere.simps [simp del] matchstar.simps [simp del]

text \<open>The loop of \<open>match\<close> also looks at the empty string at the end.\<close>

fun match_any :: "u8 list \<Rightarrow> u8 list \<Rightarrow> bool" where
  "match_any re [] = matchhere re []"
| "match_any re (t # ts) = (matchhere re (t # ts) \<or> match_any re ts)"

definition match_re :: "u8 list \<Rightarrow> u8 list \<Rightarrow> bool" where
  "match_re re txt =
     (case re of [] \<Rightarrow> match_any re txt
      | r # re' \<Rightarrow> if r = 94 then matchhere re' txt else match_any re txt)"

section \<open>The loop over the buffer\<close>

text \<open>
  \<open>while ((q = strchr(p, '\n')) != 0)\<close>: \<open>strchr\<close> looks no further than the first NUL byte.  The
  result is what was written and the rest of the buffer at \<open>p\<close>.
\<close>

definition newline_at :: "u8 list \<Rightarrow> nat option" where
  "newline_at p = find_index (\<lambda>c. c = 10) (takeWhile (\<lambda>c. c \<noteq> 0) p)"

lemma newline_at_lt: "newline_at p = Some i \<Longrightarrow> i < length p"
  unfolding newline_at_def by (drule find_index_lt) (meson length_takeWhile_le less_le_trans)

function scan_lines :: "u8 list \<Rightarrow> u8 list \<Rightarrow> u8 list \<times> u8 list" where
  "scan_lines re p =
     (case newline_at p of
        None \<Rightarrow> ([], p)
      | Some i \<Rightarrow>
          (case scan_lines re (drop (Suc i) p) of
             (out, rest) \<Rightarrow> ((if match_re re (take i p) then take (Suc i) p else []) @ out, rest)))"
  by auto

termination
  by (relation "measure (\<lambda>(re, p). length p)") (auto dest: newline_at_lt)

declare scan_lines.simps [simp del]

text \<open>
  The outer loop.  \<open>pend\<close> is \<open>buf[0..m-1]\<close>, the start of a line; a read gets at most as many bytes as
  there is room for before the last one of \<open>buf\<close>, at most as many as are left, and at most as many as
  the file has ready, the numbers of the list.  A buffer without a newline is thrown away.
\<close>

primrec grep_loop :: "u8 list \<Rightarrow> nat list \<Rightarrow> u8 list \<Rightarrow> u8 list \<Rightarrow> u8 list" where
  "grep_loop re [] input pend = []"
| "grep_loop re (r # rs) input pend =
     (let n = min r (min (1024 - length pend - 1) (length input))
      in if n = 0 then []
         else
           (let buf = pend @ take n input
            in case scan_lines re buf of
                 (out, p) \<Rightarrow>
                   out @ grep_loop re rs (drop n input) (if length p = length buf then [] else p)))"

section \<open>The language of an expression\<close>

text \<open>An expression is a list of characters and of starred characters, perhaps with a final \<open>$\<close>.\<close>

datatype piece = One u8 | Star u8

fun pieces :: "u8 list \<Rightarrow> piece list \<times> bool" where
  "pieces [] = ([], False)"
| "pieces [r] = (if r = 36 then ([], True) else ([One r], False))"
| "pieces (r # x # re) =
     (if x = 42 then (case pieces re of (ps, d) \<Rightarrow> (Star r # ps, d))
      else (case pieces (x # re) of (ps, d) \<Rightarrow> (One r # ps, d)))"

definition fits :: "u8 \<Rightarrow> u8 \<Rightarrow> bool" where
  "fits r t \<longleftrightarrow> r = 46 \<or> r = t"

fun lang :: "piece list \<Rightarrow> u8 list set" where
  "lang [] = {[]}"
| "lang (One r # ps) = {t # v | t v. fits r t \<and> v \<in> lang ps}"
| "lang (Star r # ps) = {u @ v | u v. (\<forall>t \<in> set u. fits r t) \<and> v \<in> lang ps}"

text \<open>A prefix of the text is in the language, all of it after a \<open>$\<close>.\<close>

definition here :: "u8 list \<Rightarrow> u8 list \<Rightarrow> bool" where
  "here re txt \<longleftrightarrow> (case pieces re of (ps, d) \<Rightarrow>
     \<exists>u v. txt = u @ v \<and> u \<in> lang ps \<and> (d \<longrightarrow> v = []))"

lemma here_star:
  "here (c # 42 # re) txt \<longleftrightarrow> here re txt \<or> (\<exists>t ts. txt = t # ts \<and> fits c t \<and> here (c # 42 # re) ts)"
  (is "?L \<longleftrightarrow> ?R")
proof -
  obtain ps d where p: "pieces re = (ps, d)" by (cases "pieces re")
  then have s: "pieces (c # 42 # re) = (Star c # ps, d)" by simp
  have a: "here (c # 42 # re) x \<longleftrightarrow> (\<exists>w u v. x = w @ u @ v \<and> (\<forall>t \<in> set w. fits c t) \<and> u \<in> lang ps \<and> (d \<longrightarrow> v = []))" for x
  proof
    assume "here (c # 42 # re) x"
    then have "\<exists>u0 v. x = u0 @ v \<and> u0 \<in> lang (Star c # ps) \<and> (d \<longrightarrow> v = [])"
      by (simp only: here_def s prod.case)
    then obtain u0 v where x: "x = u0 @ v" "u0 \<in> lang (Star c # ps)" "d \<longrightarrow> v = []" by (elim exE conjE)
    from x(2) obtain w u where "u0 = w @ u" "\<forall>t \<in> set w. fits c t" "u \<in> lang ps" by auto
    with x(1,3) show "\<exists>w u v. x = w @ u @ v \<and> (\<forall>t \<in> set w. fits c t) \<and> u \<in> lang ps \<and> (d \<longrightarrow> v = [])"
      by (intro exI [of _ w] exI [of _ u] exI [of _ v]) simp
  next
    assume "\<exists>w u v. x = w @ u @ v \<and> (\<forall>t \<in> set w. fits c t) \<and> u \<in> lang ps \<and> (d \<longrightarrow> v = [])"
    then obtain w u v where w: "x = (w @ u) @ v" "\<forall>t \<in> set w. fits c t" "u \<in> lang ps" "d \<longrightarrow> v = []" by auto
    then have "w @ u \<in> lang (Star c # ps)" by auto
    with w(1,4) show "here (c # 42 # re) x" by (simp only: here_def s prod.case) blast
  qed
  have b: "here re x \<longleftrightarrow> (\<exists>u v. x = u @ v \<and> u \<in> lang ps \<and> (d \<longrightarrow> v = []))" for x
    by (simp add: here_def p)
  show ?thesis
  proof
    assume ?L
    then obtain w u v where w: "txt = w @ u @ v" "\<forall>t \<in> set w. fits c t" "u \<in> lang ps" "d \<longrightarrow> v = []"
      unfolding a by blast
    show ?R
    proof (cases w)
      case Nil
      with w show ?thesis unfolding b by auto
    next
      case (Cons t ts)
      with w have "txt = t # (ts @ u @ v)" "fits c t" "here (c # 42 # re) (ts @ u @ v)" unfolding a by auto
      then show ?thesis by blast
    qed
  next
    assume ?R
    then show ?L
    proof (elim disjE exE conjE)
      assume "here re txt"
      then show ?L unfolding a b by (metis append_Nil empty_iff list.set(1))
    next
      fix t ts
      assume t: "txt = t # ts" "fits c t" "here (c # 42 # re) ts"
      then obtain w u v where "ts = w @ u @ v" "\<forall>t \<in> set w. fits c t" "u \<in> lang ps" "d \<longrightarrow> v = []"
        unfolding a by blast
      with t(1,2) show ?L unfolding a by (intro exI [of _ "t # w"] exI [of _ u] exI [of _ v]) auto
    qed
  qed
qed

lemma here_one:
  assumes "re' = [] \<or> hd re' \<noteq> 42" "\<not> (r = 36 \<and> re' = [])"
  shows "here (r # re') txt \<longleftrightarrow> (\<exists>t ts. txt = t # ts \<and> fits r t \<and> here re' ts)"
proof -
  have p: "pieces (r # re') = (case pieces re' of (ps, d) \<Rightarrow> (One r # ps, d))"
    using assms by (cases re') auto
  obtain ps d where q: "pieces re' = (ps, d)" by (cases "pieces re'")
  show ?thesis
  proof
    assume "here (r # re') txt"
    then obtain u0 v where x: "txt = u0 @ v" "u0 \<in> lang (One r # ps)" "d \<longrightarrow> v = []"
      by (simp only: here_def p q prod.case) blast
    from x(2) obtain t u where "u0 = t # u" "fits r t" "u \<in> lang ps" by auto
    with x(1,3) show "\<exists>t ts. txt = t # ts \<and> fits r t \<and> here re' ts"
      by (intro exI [of _ t] exI [of _ "u @ v"]) (auto simp: here_def q)
  next
    assume "\<exists>t ts. txt = t # ts \<and> fits r t \<and> here re' ts"
    then obtain t ts where t: "txt = t # ts" "fits r t" "here re' ts" by blast
    from t(3) obtain u v where "ts = u @ v" "u \<in> lang ps" "d \<longrightarrow> v = []"
      by (simp only: here_def q prod.case) blast
    with t have "txt = (t # u) @ v" "fits r t" "u \<in> lang ps" "d \<longrightarrow> v = []" by auto
    moreover from this have "t # u \<in> lang (One r # ps)" by auto
    ultimately show "here (r # re') txt" by (simp only: here_def p q prod.case) blast
  qed
qed

lemma matchhere_iff: "matchhere re tx = here re tx"
  and matchstar_iff: "matchstar c re tx = here (c # 42 # re) tx"
proof (induction re tx and c re tx rule: matchhere_matchstar.induct)
  case (1 re tx)
  show ?case
  proof (cases re)
    case Nil
    then show ?thesis by (simp add: matchhere.simps here_def)
  next
    case (Cons r re')
    consider (star) "re' \<noteq> [] \<and> hd re' = 42" | (dollar) "r = 36" "re' = []"
      | (one) "re' = [] \<or> hd re' \<noteq> 42" "\<not> (r = 36 \<and> re' = [])" by blast
    then show ?thesis
    proof cases
      case star
      then obtain q where q: "re' = 42 # q" by (cases re') auto
      with 1(1) [OF Cons star] have "matchstar r q tx = here (r # 42 # q) tx" by simp
      moreover have "matchhere (r # 42 # q) tx = matchstar r q tx" by (simp add: matchhere.simps)
      ultimately show ?thesis using Cons q by simp
    next
      case dollar
      with Cons show ?thesis by (auto simp: matchhere.simps here_def)
    next
      case one
      have "matchhere re' ts = here re' ts" if "tx = t # ts" "fits r t" for t ts
        using 1(2) [OF Cons _ one(2) that(1)] one(1) that(2) by (auto simp: fits_def)
      with one Cons here_one [OF one] show ?thesis
        by (subst matchhere.simps) (auto simp: fits_def split: list.splits)
    qed
  qed
next
  case (2 c re tx)
  then show ?case
    by (subst matchstar.simps, subst here_star) (auto simp: fits_def split: list.splits)
qed

lemma match_any_iff: "match_any re tx \<longleftrightarrow> (\<exists>p q. tx = p @ q \<and> here re q)"
proof (induction tx)
  case Nil
  then show ?case by (simp add: matchhere_iff)
next
  case (Cons t ts)
  have "(\<exists>p q. t # ts = p @ q \<and> here re q) \<longleftrightarrow> here re (t # ts) \<or> (\<exists>p q. ts = p @ q \<and> here re q)"
    by (auto simp: Cons_eq_append_conv)
  with Cons show ?case by (simp add: matchhere_iff)
qed

text \<open>
  C22: the matcher decides the language of the expression: \<open>match\<close> is true exactly when some part of
  the line is a word of the expression, from the start of the line if it begins with \<open>^\<close> and up to its
  end if it ends in \<open>$\<close>; in particular it always returns.
\<close>

theorem match_language:
  "match_re re tx \<longleftrightarrow>
     (let anchored = (re \<noteq> [] \<and> hd re = 94);
          (ps, d) = pieces (if anchored then tl re else re)
      in \<exists>p u v. tx = p @ u @ v \<and> u \<in> lang ps \<and> (anchored \<longrightarrow> p = []) \<and> (d \<longrightarrow> v = []))"
proof -
  have any: "match_any r tx \<longleftrightarrow> (\<exists>p u v. tx = p @ u @ v \<and> u \<in> lang ps \<and> (d \<longrightarrow> v = []))"
    if "pieces r = (ps, d)" for r ps d
    using that by (auto simp: match_any_iff here_def)
  show ?thesis
  proof (cases "re \<noteq> [] \<and> hd re = 94")
    case True
    then obtain r where "re = 94 # r" by (cases re) auto
    then show ?thesis by (cases "pieces r") (simp add: match_re_def matchhere_iff here_def)
  next
    case False
    then have "match_re re tx = match_any re tx" by (auto simp: match_re_def split: list.splits)
    with False any show ?thesis by (cases "pieces re") auto
  qed
qed

lemma match_language_witness: "match_re [94, 97, 42, 98] [97, 97, 98, 99]"
proof -
  have "\<exists>u v. [97, 97, 98, 99] = u @ v \<and> u \<in> lang [Star 97, One 98]"
    by (intro exI [of _ "[97, 97, 98]"] exI [of _ "[99]"])
      (auto simp: fits_def intro!: exI [of _ "[97, 97]"])
  then show ?thesis by (simp add: match_language)
qed

section \<open>The lines of a file\<close>

definition nl :: "u8 list \<Rightarrow> u8 list" where
  "nl l = l @ [10]"

definition is_line :: "u8 list \<Rightarrow> bool" where
  "is_line l \<longleftrightarrow> 10 \<notin> set l \<and> 0 \<notin> set l"

abbreviation lines_text :: "u8 list list \<Rightarrow> u8 list" where
  "lines_text ls \<equiv> concat (map nl ls)"

lemma nl_append: "nl l @ p = l @ 10 # p"
  by (simp add: nl_def)

lemma takeWhile_line: "0 \<notin> set l \<Longrightarrow> takeWhile (\<lambda>c. c \<noteq> 0) (l @ p) = l @ takeWhile (\<lambda>c. c \<noteq> (0::u8)) p"
  by (induction l) auto

lemma find_index_append: "\<forall>x \<in> set xs. \<not> P x \<Longrightarrow> find_index P (xs @ ys) = map_option (\<lambda>i. length xs + i) (find_index P ys)"
  by (cases "find_index P ys"; induction xs) auto

lemma newline_at_line: "is_line l \<Longrightarrow> newline_at (l @ 10 # p) = Some (length l)"
  unfolding newline_at_def is_line_def
  by (subst takeWhile_line, simp, subst find_index_append) auto

lemma newline_at_none: "is_line l \<Longrightarrow> newline_at l = None"
  by (auto simp: newline_at_def is_line_def find_index_None dest: set_takeWhileD)

lemma scan_lines_text:
  "\<forall>l \<in> set ls. is_line l \<Longrightarrow> is_line q \<Longrightarrow>
    scan_lines re (lines_text ls @ q) = (lines_text (filter (match_re re) ls), q)"
proof (induction ls)
  case Nil
  then show ?case by (subst scan_lines.simps) (simp add: newline_at_none)
next
  case (Cons l ls)
  then show ?case
    by (subst scan_lines.simps) (auto simp: nl_append newline_at_line)
qed

text \<open>A prefix of the text is some lines and the start of the next.\<close>

lemma prefix_lines:
  assumes "m @ w = lines_text ls" "\<forall>l \<in> set ls. is_line l"
  shows "\<exists>l1 l2 q. ls = l1 @ l2 \<and> m = lines_text l1 @ q \<and> is_line q \<and> q @ w = lines_text l2
    \<and> (q \<noteq> [] \<longrightarrow> l2 \<noteq> [] \<and> (\<exists>x. hd l2 = q @ x))"
  using assms
proof (induction ls arbitrary: m)
  case Nil
  then show ?case by (auto simp: is_line_def)
next
  case (Cons l ls)
  show ?case
  proof (cases "length m \<le> length l")
    case True
    from Cons.prems(1) have "m @ w = l @ 10 # lines_text ls" by (simp add: nl_append)
    with True obtain x where l: "l = m @ x"
      by (metis append_eq_append_conv_if append_take_drop_id)
    with Cons.prems have "is_line m" by (simp add: is_line_def)
    with l Cons.prems(1) show ?thesis
      by (intro exI [of _ "[]"] exI [of _ "l # ls"] exI [of _ m]) auto
  next
    case False
    have "take (length (nl l)) (m @ w) = nl l" using Cons.prems(1) by simp
    with False have "take (length (nl l)) m = nl l" by (simp add: nl_def)
    then have m: "m = nl l @ drop (length (nl l)) m" by (metis append_take_drop_id)
    then have "drop (length (nl l)) m @ w = lines_text ls"
      using Cons.prems(1) by (metis append.assoc concat.simps(2) list.simps(9) same_append_eq)
    from Cons.IH [OF this] Cons.prems(2) obtain l1 l2 q where
      "ls = l1 @ l2" "drop (length (nl l)) m = lines_text l1 @ q" "is_line q" "q @ w = lines_text l2"
      "q \<noteq> [] \<longrightarrow> l2 \<noteq> [] \<and> (\<exists>x. hd l2 = q @ x)" by auto
    with m show ?thesis
      by (intro exI [of _ "l # l1"] exI [of _ l2] exI [of _ q]) auto
  qed
qed

lemma grep_loop_lines:
  assumes "pend @ input = lines_text ls" "\<forall>l \<in> set ls. is_line l \<and> length l < 1023" "is_line pend"
    and "pend \<noteq> [] \<longrightarrow> ls \<noteq> [] \<and> (\<exists>x. hd ls = pend @ x)" "\<forall>r \<in> set rs. 1023 \<le> r" "length input < length rs"
  shows "grep_loop re rs input pend = lines_text (filter (match_re re) ls)"
  using assms
proof (induction rs arbitrary: input pend ls)
  case Nil
  then show ?case by simp
next
  case (Cons r rs)
  show ?case
  proof (cases "input = []")
    case True
    have "ls = []"
    proof (rule ccontr)
      assume "ls \<noteq> []"
      then have "10 \<in> set (lines_text ls)" by (cases ls) (simp_all add: nl_def)
      with True Cons.prems(1,3) show False by (simp add: is_line_def)
    qed
    with True show ?thesis by simp
  next
    case False
    define n where "n = min r (min (1024 - length pend - 1) (length input))"
    have pend: "length pend < 1023"
      using Cons.prems(2,4) by (cases "pend = []"; cases ls) auto
    with False Cons.prems(5) have n: "n = min (1023 - length pend) (length input)" "0 < n"
      by (auto simp: n_def)
    let ?m = "pend @ take n input"
    have m: "?m @ drop n input = lines_text ls" using Cons.prems(1) by simp
    have "\<forall>l \<in> set ls. is_line l" using Cons.prems(2) by blast
    from prefix_lines [OF m this] obtain l1 l2 q where p: "ls = l1 @ l2" "?m = lines_text l1 @ q"
      "is_line q" "q @ drop n input = lines_text l2" "q \<noteq> [] \<longrightarrow> l2 \<noteq> [] \<and> (\<exists>x. hd l2 = q @ x)" by (elim exE conjE) (rule that)
    have l1: "l1 \<noteq> []"
    proof
      assume l1: "l1 = []"
      with p n(2) False have q: "?m = q" "ls = l2" "q \<noteq> []" "ls \<noteq> []" by auto
      with p(5) obtain x where "hd ls = q @ x" by blast
      with q Cons.prems(2) have "length q < 1023" by (cases ls) auto
      with q(1) n(1) have "n = length input" by (auto simp: min_def split: if_splits)
      with q p(4) have "lines_text ls = q" by auto
      moreover have "10 \<in> set (lines_text ls)" using q(4) by (cases ls) (simp_all add: nl_def)
      ultimately show False using p(3) by (simp add: is_line_def)
    qed
    then have "length q \<noteq> length ?m" unfolding p(2) by (cases l1) (simp_all add: nl_def)
    moreover have "scan_lines re ?m = (lines_text (filter (match_re re) l1), q)"
      unfolding p(2) by (rule scan_lines_text) (use Cons.prems(2) p in auto)
    ultimately have "grep_loop re (r # rs) input pend
        = lines_text (filter (match_re re) l1) @ grep_loop re rs (drop n input) q"
      using n(2) by (simp only: grep_loop.simps n_def [symmetric] Let_def) simp
    also have "grep_loop re rs (drop n input) q = lines_text (filter (match_re re) l2)"
    proof (rule Cons.IH)
      show "length (drop n input) < length rs" using Cons.prems(6) n(2) False by (cases input) auto
      show "\<forall>l \<in> set l2. is_line l \<and> length l < 1023" using Cons.prems(2) p(1) by simp
      show "\<forall>r \<in> set rs. 1023 \<le> r" using Cons.prems(5) by simp
    qed (use p in auto)
    finally show ?thesis using p(1) by simp
  qed
qed



text \<open>
  When a read ends inside a line, as from a terminal or a pipe it may, the part before it is thrown
  away if the buffer holds no newline: the line \<open>abc\<close> in two reads is printed as \<open>c\<close>, and the
  expression \<open>abc\<close> does not find it.
\<close>

theorem grep_loses_short_read:
  "grep_loop [99] [2, 2, 1] (nl [97, 98, 99]) [] = nl [99]
    \<and> grep_loop [97, 98, 99] [2, 2, 1] (nl [97, 98, 99]) [] = []
    \<and> grep_loop [97, 98, 99] [4, 1] (nl [97, 98, 99]) [] = nl [97, 98, 99]"
  by (simp add: nl_def scan_lines.simps newline_at_def match_re_def matchhere.simps matchstar.simps)

end
