(* ===== verification/UserLib.thy ===== *)
theory UserLib
  imports Prelude
begin

text \<open>Lemmas the models of the user programs share.\<close>

lemma sint16_of_int [simp]: "- 32768 \<le> i \<Longrightarrow> i < 32768 \<Longrightarrow> sint (word_of_int i :: u16) = i"
  by (simp add: signed_of_int signed_take_bit_int_eq_self_iff)

lemma sint16_bounds: "- 32768 \<le> sint (x :: u16)" "sint (x :: u16) < 32768"
  using sint_ge [of x] sint_lt [of x] by simp_all

lemma div_mod_unique: "n = b * q + r \<Longrightarrow> r < b \<Longrightarrow> n div b = q \<and> n mod b = (r :: nat)"
  by auto

text \<open>Division of non-negative numbers rounds down.\<close>

lemma sdiv_nonneg [simp]: "0 \<le> (a :: int) \<Longrightarrow> 0 < b \<Longrightarrow> a sdiv b = a div b"
  by (cases "a = 0") (simp_all add: signed_divide_int_def)

lemma smod_nonneg [simp]: "0 \<le> (a :: int) \<Longrightarrow> 0 < b \<Longrightarrow> a smod b = a mod b"
  by (cases "a = 0") (simp_all add: signed_modulo_int_def minus_div_mult_eq_mod [symmetric])

lemma sdiv_of_nat: "int a sdiv numeral b = int (a div numeral b)"
  by (simp add: zdiv_int)

lemma smod_of_nat: "int a smod numeral b = int (a mod numeral b)"
  by (simp add: zmod_int)

lemma sint16_minus: "x \<noteq> 0x8000 \<Longrightarrow> sint (- x :: u16) = - sint x"
proof -
  assume "x \<noteq> 0x8000"
  then have "sint x \<noteq> sint (0x8000 :: u16)" by (simp only: word_eq_iff_signed [symmetric] simp_thms)
  then have "sint x \<noteq> - 32768" by simp
  then show ?thesis using sint16_bounds [of x]
    by (simp add: sint_word_ariths signed_take_bit_int_eq_self_iff)
qed

end
