(* ===== verification/Uprintf.thy ===== *)
theory Uprintf
  imports UserLib
begin

text \<open>
  The formatted output of the user programs (\<open>usr/printf.c\<close>): the conversion of numbers, the layout
  of a field and \<open>vsprintf\<close> as the bytes stored before the final NUL.  A format that ends inside a
  directive makes \<open>vsprintf\<close> read on behind its NUL, and so does a missing argument: the result is
  \<open>None\<close>.
\<close>

section \<open>Numbers\<close>

text \<open>\<open>xbuf\<close> is filled from the end; \<open>acc\<close> is what it holds so far.\<close>

function itoa_loop :: "u16 \<Rightarrow> u8 list \<Rightarrow> u8 list" where
  "itoa_loop x acc =
     (if sint x > 0
      then itoa_loop (word_of_int (sint x sdiv 10)) (i2c (word_of_int (sint x smod 10) + 48) # acc)
      else acc)"
  by auto

termination
proof (relation "measure (\<lambda>(x, acc). nat (sint x))", simp)
  fix x :: u16
  assume x: "sint x > 0"
  then have "0 \<le> sint x div 10" "sint x div 10 < sint x" "sint x < 32768" using sint_lt [of x] by auto
  with x show "((word_of_int (sint x sdiv 10), i2c (word_of_int (sint x smod 10) + 48) # acc), x, acc)
      \<in> measure (\<lambda>(x, acc). nat (sint x))" for acc :: "u8 list"
    by simp
qed

declare itoa_loop.simps [simp del]

definition itoa :: "u16 \<Rightarrow> u8 list" where
  "itoa x =
     (if x = 0 then [48]
      else (let sf = (sint x < 0); x = (if sf then - x else x)
            in (if sf then [45] else []) @ itoa_loop x []))"

definition hx :: "u8 list" where
  "hx = bytes ''0123456789abcdef''"

text \<open>Every call has radix 8, 10 or 16; a radix below 2 would not return.\<close>

function utoa_loop :: "u16 \<Rightarrow> u16 \<Rightarrow> u8 list \<Rightarrow> u8 list" where
  "utoa_loop x r acc =
     (if x > 0 \<and> 1 < r then utoa_loop (x div r) r (hx ! unat (x mod r) # acc) else acc)"
  by auto

termination
proof (relation "measure (\<lambda>(x, r, acc). unat x)", simp)
  fix x r :: u16 and acc :: "u8 list"
  assume "x > 0 \<and> 1 < r"
  then have "0 < unat x" "1 < unat r" by (auto simp: word_less_nat_alt)
  then have "unat x div unat r < unat x" by (intro div_less_dividend)
  then show "((x div r, r, hx ! unat (x mod r) # acc), x, r, acc) \<in> measure (\<lambda>(x, r, acc). unat x)"
    by (simp add: unat_div)
qed

declare utoa_loop.simps [simp del]

definition utoa :: "u16 \<Rightarrow> u16 \<Rightarrow> u8 list" where
  "utoa x r = (if x = 0 then [48] else utoa_loop x r [])"

section \<open>Fields\<close>

text \<open>\<open>while (*cp) { putchar(*cp++); if (--pr <= 0 && prflg) break; }\<close>\<close>

fun put_cp :: "bool \<Rightarrow> u16 \<Rightarrow> u8 list \<Rightarrow> u8 list" where
  "put_cp prflg pr [] = []"
| "put_cp prflg pr (c # cs) = c # (if sle16 (pr - 1) 0 \<and> prflg then [] else put_cp prflg (pr - 1) cs)"

definition putsr :: "bool \<Rightarrow> u8 \<Rightarrow> u16 \<Rightarrow> bool \<Rightarrow> u16 \<Rightarrow> u8 list \<Rightarrow> u8 list" where
  "putsr ljflg pad fw prflg pr cp =
     (let sl = of_nat (length cp);
          sl = (if slt16 pr sl \<and> prflg then pr else sl);
          padding = (if slt16 sl fw then replicate (unat (fw - sl)) pad else [])
      in (if ljflg then [] else padding) @ put_cp prflg pr cp @ (if ljflg then padding else []))"

section \<open>vsprintf\<close>

datatype uarg = UInt u16 | UStr "u8 list"

fun scan_num :: "u16 \<Rightarrow> u8 list \<Rightarrow> u16 \<times> u8 list" where
  "scan_num v [] = (v, [])"
| "scan_num v (c # fr) = (if 48 \<le> c \<and> c \<le> 57 then scan_num (v * 10 + (ucast c - 48)) fr else (v, c # fr))"

lemma scan_num_length: "length (snd (scan_num v fr)) \<le> length fr"
  by (induction v fr rule: scan_num.induct) (auto intro: le_SucI)

text \<open>A directive from behind the percent sign: flags, width and precision, and what follows.\<close>

definition skip_flag :: "u8 \<Rightarrow> u8 list \<Rightarrow> bool \<times> u8 list" where
  "skip_flag k fr = (if fr \<noteq> [] \<and> hd fr = k then (True, tl fr) else (False, fr))"

definition precision :: "u8 list \<Rightarrow> (bool \<times> u16) \<times> u8 list" where
  "precision fr =
     (case skip_flag 46 fr of
        (False, fr) \<Rightarrow> ((False, 0), fr)
      | (True, fr) \<Rightarrow> (case scan_num 0 fr of (pr, fr) \<Rightarrow> ((True, pr), fr)))"

definition directive :: "u8 list \<Rightarrow> (bool \<times> u8 \<times> u16 \<times> bool \<times> u16) \<times> u8 list" where
  "directive fr =
     (case skip_flag 45 fr of (ljflg, fr) \<Rightarrow>
      case skip_flag 48 fr of (zero, fr) \<Rightarrow>
      case scan_num 0 fr of (fw, fr) \<Rightarrow>
      case precision fr of ((prflg, pr), fr) \<Rightarrow>
        ((ljflg, if zero then 48 else 32, fw, prflg, pr), fr))"

lemma skip_flag_length: "length (snd (skip_flag k fr)) \<le> length fr"
  by (simp add: skip_flag_def)

lemma precision_length: "length (snd (precision fr)) \<le> length fr"
  using skip_flag_length [of 46 fr] scan_num_length [of 0 "snd (skip_flag 46 fr)"]
  by (auto simp: precision_def split: prod.splits bool.splits)

lemma directive_length: "length (snd (directive fr)) \<le> length fr"
proof -
  let ?a = "snd (skip_flag 45 fr)"
  let ?b = "snd (skip_flag 48 ?a)"
  let ?c = "snd (scan_num 0 ?b)"
  have "length (snd (directive fr)) = length (snd (precision ?c))"
    by (simp add: directive_def split: prod.splits)
  then show ?thesis
    using skip_flag_length [of 45 fr] skip_flag_length [of 48 ?a] scan_num_length [of 0 ?b]
      precision_length [of ?c] by linarith
qed

lemma directive_lt: "(d, k # rest) = directive fr \<Longrightarrow> length rest < length fr"
  using directive_length [of fr] by (metis Suc_le_eq length_Cons snd_conv)

text \<open>The text a conversion character makes of its argument.\<close>

definition converted :: "u8 \<Rightarrow> uarg \<Rightarrow> u8 list option" where
  "converted k a =
     (case a of
        UInt x \<Rightarrow>
          (if k = 100 then Some (itoa x)
           else if k = 111 then Some (utoa x 8)
           else if k = 120 then Some (utoa x 16)
           else if k = 117 then Some (utoa x 10)
           else if k = 99 then Some (if i2c x = 0 then [] else [i2c x])
           else None)
      | UStr t \<Rightarrow> if k = 115 then Some (takeWhile (\<lambda>c. c \<noteq> 0) t) else None)"

function vsprintf :: "u8 list \<Rightarrow> uarg list \<Rightarrow> u8 list option" where
  "vsprintf fr as =
     (case fr of
        [] \<Rightarrow> Some []
      | c # per \<Rightarrow>
          if c \<noteq> 37 then map_option ((#) c) (vsprintf per as)
          else
            (case directive per of
               ((ljflg, pad, fw, prflg, pr), rest) \<Rightarrow>
                 (case rest of
                    [] \<Rightarrow> None
                  | k # rest' \<Rightarrow>
                      if k \<in> {100, 111, 120, 117, 99, 115} then
                        (case as of
                           [] \<Rightarrow> None
                         | a # as' \<Rightarrow>
                             (case converted k a of
                                None \<Rightarrow> None
                              | Some t \<Rightarrow>
                                  map_option ((@) (putsr ljflg pad fw prflg pr t)) (vsprintf rest' as')))
                      else
                        map_option ((@) (take (length per - length rest') per)) (vsprintf rest' as))))"
  by pat_completeness auto

termination
by (relation "measure (\<lambda>(fr, as). length fr)") (auto dest!: directive_lt)

declare vsprintf.simps [simp del]

section \<open>What the digits mean\<close>

text \<open>The numeral of a number in a radix, and the value of a string of digits.\<close>

function digits_of :: "nat \<Rightarrow> nat \<Rightarrow> u8 list" where
  "digits_of r n = (if n < r \<or> r < 2 then [hx ! n] else digits_of r (n div r) @ [hx ! (n mod r)])"
  by auto

termination
  by (relation "measure (\<lambda>(r, n). n)") auto

declare digits_of.simps [simp del]

definition hex_val :: "u8 \<Rightarrow> nat" where
  "hex_val c = (if c < 58 then unat c - 48 else unat c - 87)"

definition value_of :: "nat \<Rightarrow> u8 list \<Rightarrow> nat" where
  "value_of r cs = foldl (\<lambda>n c. n * r + hex_val c) 0 cs"

lemma hex_val_hx: "k < 16 \<Longrightarrow> hex_val (hx ! k) = k"
proof -
  assume "k < 16"
  then have "k \<in> set [0..<16]" by simp
  moreover have "\<forall>k \<in> set [0..<16]. hex_val (hx ! k) = k"
    by (simp add: upt_rec hex_val_def hx_def bytes_def)
  ultimately show ?thesis by blast
qed

lemma value_of_numeral:
  "2 \<le> r \<Longrightarrow> r \<le> 16 \<Longrightarrow> value_of r (digits_of r n) = n \<and> (0 < n \<longrightarrow> hex_val (hd (digits_of r n)) \<noteq> 0)"
proof (induction r n rule: digits_of.induct)
  case (1 r n)
  show ?case
  proof (cases "n < r")
    case True
    with 1(3) show ?thesis by (simp add: digits_of.simps value_of_def hex_val_hx)
  next
    case False
    have m: "hex_val (hx ! (n mod r)) = n mod r"
      using 1(2,3) by (intro hex_val_hx) (metis le_trans less_le_trans mod_less_divisor numeral_2_eq_2 zero_less_Suc)
    have ne: "digits_of r (n div r) \<noteq> []" by (simp add: digits_of.simps [of r "n div r"])
    have "0 < n div r" using False 1(2) by (simp add: div_greater_zero_iff)
    with False 1 m ne show ?thesis by (simp add: digits_of.simps [of r n] value_of_def)
  qed
qed

lemma digit_char: "k < 10 \<Longrightarrow> i2c (word_of_int (int k) + 48) = hx ! k"
proof -
  assume "k < 10"
  then have "k \<in> set [0..<10]" by simp
  moreover have "\<forall>k \<in> set [0..<10]. i2c (word_of_int (int k) + 48) = hx ! k"
    by (simp add: upt_rec hx_def bytes_def)
  ultimately show ?thesis by blast
qed

lemma itoa_loop_numeral:
  "sint x > 0 \<Longrightarrow> itoa_loop x acc = digits_of 10 (nat (sint x)) @ acc"
proof (induction x acc rule: itoa_loop.induct)
  case (1 x acc)
  let ?n = "nat (sint x)"
  have b: "sint x < 32768" by (rule sint16_bounds)
  have q: "sint (word_of_int (sint x div 10) :: u16) = sint x div 10"
    using 1(2) b by (intro sint16_of_int) auto
  have c: "i2c (word_of_int (sint x mod 10) + 48) = hx ! (?n mod 10)"
    using digit_char [of "?n mod 10"] 1(2) by (simp add: zmod_int)
  have step: "itoa_loop x acc = itoa_loop (word_of_int (sint x div 10)) (hx ! (?n mod 10) # acc)"
    using 1(2) c by (simp add: itoa_loop.simps [of x])
  show ?case
  proof (cases "sint x < 10")
    case True
    then have "itoa_loop (word_of_int (sint x div 10)) a = a" for a
      using 1(2) by (simp add: itoa_loop.simps [of 0] div_pos_pos_trivial)
    moreover have "?n < 10" using True by simp
    ultimately show ?thesis using step by (simp add: digits_of.simps [of 10 ?n])
  next
    case False
    then have "0 < sint (word_of_int (sint x div 10) :: u16)" unfolding q by simp
    with 1 c have "itoa_loop (word_of_int (sint x div 10)) (hx ! (?n mod 10) # acc)
        = digits_of 10 (nat (sint x div 10)) @ hx ! (?n mod 10) # acc"
      using 1(1) [OF 1(2)] q by simp
    moreover have "nat (sint x div 10) = ?n div 10" using 1(2) by (simp add: nat_div_distrib)
    moreover have "\<not> ?n < 10" using False by simp
    ultimately show ?thesis using step by (simp add: digits_of.simps [of 10 ?n])
  qed
qed

lemma utoa_loop_numeral:
  "1 < r \<Longrightarrow> 0 < x \<Longrightarrow> utoa_loop x r acc = digits_of (unat r) (unat x) @ acc"
proof (induction x r acc rule: utoa_loop.induct)
  case (1 x r acc)
  have r: "2 \<le> unat r" using 1(2) by (simp add: word_less_nat_alt)
  have step: "utoa_loop x r acc = utoa_loop (x div r) r (hx ! (unat x mod unat r) # acc)"
    using 1(2,3) by (simp add: utoa_loop.simps [of x] unat_mod)
  show ?case
  proof (cases "x div r = 0")
    case True
    then have "unat x div unat r = 0" by (metis unat_0 unat_div)
    with r have "unat x < unat r" by (simp add: div_eq_0_iff)
    with True step show ?thesis by (simp add: utoa_loop.simps [of 0] digits_of.simps [of "unat r" "unat x"])
  next
    case False
    then have "0 < x div r" by (simp add: word_gt_0)
    moreover from this have "\<not> unat x < unat r"
      by (metis div_less unat_0 unat_div word_less_nat_alt less_irrefl)
    ultimately show ?thesis
      using 1(1) [OF conjI [OF 1(3,2)] 1(2)] step r
      by (simp add: digits_of.simps [of "unat r" "unat x"] unat_div unat_mod)
  qed
qed

lemma itoa_numeral:
  "itoa x = (if x = 0x8000 then [45]
     else if sint x < 0 then 45 # digits_of 10 (nat (- sint x)) else digits_of 10 (nat (sint x)))"
proof -
  have z: "digits_of 10 0 = [48]" by (simp add: digits_of.simps hx_def bytes_def)
  consider "x = 0x8000" | "x = 0" | "x \<noteq> 0x8000" "sint x < 0" | "0 < sint x"
    by (metis linorder_less_linear signed_0 word_eq_iff_signed)
  then show ?thesis
  proof cases
    case 1
    then show ?thesis by (simp add: itoa_def itoa_loop.simps)
  next
    case 2
    then show ?thesis by (simp add: itoa_def z)
  next
    case 3
    then have "0 < sint (- x)" by (simp add: sint16_minus)
    with 3 show ?thesis by (auto simp: itoa_def itoa_loop_numeral sint16_minus)
  next
    case 4
    then show ?thesis by (auto simp: itoa_def itoa_loop_numeral)
  qed
qed

lemma utoa_numeral:
  assumes "1 < r"
  shows "utoa x r = digits_of (unat r) (unat x)"
proof (cases "x = 0")
  case True
  with assms show ?thesis
    by (simp add: utoa_def digits_of.simps [of _ 0] word_less_nat_alt hx_def bytes_def)
next
  case False
  then have "0 < x" by (simp add: word_gt_0)
  with assms False show ?thesis by (simp add: utoa_def utoa_loop_numeral)
qed

section \<open>Printing\<close>

lemma vsprintf_plain: "37 \<notin> set pre \<Longrightarrow> vsprintf (pre @ fr) as = map_option ((@) pre) (vsprintf fr as)"
proof (induction pre)
  case Nil
  then show ?case by (simp add: option.map_ident)
next
  case (Cons c pre)
  then show ?case by (simp add: vsprintf.simps [of "c # pre @ fr"] option.map_comp comp_def)
qed

lemma put_cp_all: "put_cp False pr cs = cs"
  by (induction cs arbitrary: pr) auto

lemma directive_char: "k \<notin> {45, 46, 48} \<Longrightarrow> \<not> (48 \<le> k \<and> k \<le> 57) \<Longrightarrow>
    directive (k # fr) = ((False, 32, 0, False, 0), k # fr)"
  by (auto simp: directive_def skip_flag_def precision_def)

lemma putsr_plain: "length cp < 32768 \<Longrightarrow> putsr False 32 0 False 0 cp = cp"
proof -
  assume "length cp < 32768"
  then have "sint (of_nat (length cp) :: u16) = int (length cp)"
    using sint16_of_int [of "int (length cp)"] by simp
  then show ?thesis by (simp add: putsr_def put_cp_all slt16_def)
qed

lemma vsprintf_simple:
  assumes "k \<in> {100, 111, 120, 117, 99, 115}" "converted k a = Some t" "length t < 32768"
  shows "vsprintf (37 # k # fr) (a # as) = map_option ((@) t) (vsprintf fr as)"
proof -
  have "directive (k # fr) = ((False, 32, 0, False, 0), k # fr)"
    by (rule directive_char) (use assms(1) in auto)
  with assms show ?thesis by (subst vsprintf.simps) (simp add: putsr_plain)
qed

lemma digits_of_length: "2 \<le> r \<Longrightarrow> n < 2 ^ k \<Longrightarrow> 0 < k \<Longrightarrow> length (digits_of r n) \<le> k"
proof (induction k arbitrary: n)
  case (Suc k)
  show ?case
  proof (cases "n < r \<or> k = 0")
    case True
    then show ?thesis using Suc.prems by (subst digits_of.simps) auto
  next
    case False
    have "n div r \<le> n div 2" using Suc.prems(1) by (simp add: div_le_mono2)
    then have "n div r < 2 ^ k" using Suc.prems(2) by simp
    with Suc False show ?thesis by (subst digits_of.simps) auto
  qed
qed simp

lemma itoa_length: "length (itoa x) < 32768"
proof -
  have "nat (sint x) < 2 ^ 16" "nat (- sint x) < 2 ^ 16" using sint16_bounds [of x] by auto
  then have "length (digits_of 10 (nat (sint x))) \<le> 16" "length (digits_of 10 (nat (- sint x))) \<le> 16"
    using digits_of_length [of 10 _ 16] by auto
  then show ?thesis by (auto simp: itoa_numeral)
qed



end
