(* ===== verification/Sh.thy ===== *)
theory Sh
  imports Prelude
begin

text \<open>
  The shell (\<open>usr/sh.c\<close>): its scanner and recursive descent parser, the cutting of the words by
  \<open>nulterminate\<close>, and what the processes of a command do.  A pointer into the command line is the
  rest of the line behind it, without the NUL at \<open>es\<close>; the end \<open>*es\<close> reads as 0.  A syntax error makes
  the process print a message and exit.
\<close>

section \<open>The scanner\<close>

definition whitespace :: "u8 list" where
  "whitespace = [32, 9, 13, 10, 11]"

definition symbols :: "u8 list" where
  "symbols = bytes ''<|>&;()''"

definition char_at :: "u8 list \<Rightarrow> u8" where
  "char_at s = (case s of [] \<Rightarrow> 0 | c # _ \<Rightarrow> c)"

definition skip_ws :: "u8 list \<Rightarrow> u8 list" where
  "skip_ws s = dropWhile (\<lambda>c. c \<in> set whitespace) s"

definition word_end :: "u8 list \<Rightarrow> u8 list" where
  "word_end s = dropWhile (\<lambda>c. c \<notin> set whitespace \<and> c \<notin> set symbols) s"

text \<open>\<open>q\<close> and \<open>eq\<close> delimit the token; 97 stands for a word, 43 for \<open>>>\<close>.\<close>

type_synonym token = "u8 list \<times> u8 list"

definition scan_token :: "u8 list \<Rightarrow> u8 \<times> u8 list" where
  "scan_token s =
     (let c = char_at s
      in if c = 0 then (0, s)
         else if c \<in> {124, 40, 41, 59, 38, 60} then (c, tl s)
         else if c = 62 then (if char_at (tl s) = 62 then (43, tl (tl s)) else (62, tl s))
         else (97, word_end s))"

definition gettoken :: "u8 list \<Rightarrow> u8 \<times> token \<times> u8 list" where
  "gettoken s =
     (case scan_token (skip_ws s) of (ret, eq) \<Rightarrow> (ret, (skip_ws s, eq), skip_ws eq))"

definition peek :: "u8 list \<Rightarrow> u8 list \<Rightarrow> bool" where
  "peek toks s \<longleftrightarrow> char_at (skip_ws s) \<noteq> 0 \<and> char_at (skip_ws s) \<in> set toks"

section \<open>Commands\<close>

datatype mode = O_READ | O_WRITE | O_APPEND

datatype 'w cmd =
    Exec "'w list"
  | Redir "'w cmd" 'w mode int
  | Pipe "'w cmd" "'w cmd"
  | Seq "'w cmd" "'w cmd"
  | Back "'w cmd"

text \<open>A redirection still to be put around a command; a later one goes outside.\<close>

type_synonym 'w redir = "'w \<times> mode \<times> int"

definition wrap :: "'w redir list \<Rightarrow> 'w cmd \<Rightarrow> 'w cmd" where
  "wrap rs c = foldl (\<lambda>c (f, m, fd). Redir c f m fd) c rs"

datatype 'a parse = Parsed 'a "u8 list" | Syntax string | NoFuel

fun pbind :: "'a parse \<Rightarrow> ('a \<Rightarrow> u8 list \<Rightarrow> 'b parse) \<Rightarrow> 'b parse" where
  "pbind (Parsed x s) f = f x s"
| "pbind (Syntax m) f = Syntax m"
| "pbind NoFuel f = NoFuel"

lemma pbind_cong [fundef_cong]:
  "x = y \<Longrightarrow> (\<And>a s. y = Parsed a s \<Longrightarrow> f a s = g a s) \<Longrightarrow> pbind x f = pbind y g"
  by (cases y) auto

lemma pbind_Parsed: "pbind x f = Parsed b t \<longleftrightarrow> (\<exists>a s. x = Parsed a s \<and> f a s = Parsed b t)"
  by (cases x) auto

section \<open>The parser\<close>

text \<open>Every token read moves the pointer forward.\<close>

lemma skip_ws_length: "length (skip_ws s) \<le> length s"
  by (simp add: skip_ws_def length_dropWhile_le)

lemma word_end_length: "length (word_end s) \<le> length s"
  by (simp add: word_end_def length_dropWhile_le)

lemma word_end_less: "s \<noteq> [] \<Longrightarrow> hd s \<notin> set whitespace \<Longrightarrow> hd s \<notin> set symbols \<Longrightarrow> length (word_end s) < length s"
  using length_dropWhile_le [of "\<lambda>c. c \<notin> set whitespace \<and> c \<notin> set symbols" "tl s"]
  by (cases s) (auto simp: word_end_def)

lemma skip_ws_hd: "skip_ws s \<noteq> [] \<Longrightarrow> hd (skip_ws s) \<notin> set whitespace"
  unfolding skip_ws_def by (rule hd_dropWhile)

lemma set_symbols: "set symbols = {60, 124, 62, 38, 59, 40, 41}"
  by (simp add: symbols_def bytes_def)

lemma scan_token_rest:
  assumes "s \<noteq> [] \<Longrightarrow> hd s \<notin> set whitespace"
  shows "length (snd (scan_token s)) \<le> length s \<and> (char_at s \<noteq> 0 \<longrightarrow> length (snd (scan_token s)) < length s)"
proof (cases s)
  case (Cons c cs)
  with assms word_end_less [of s] have "c \<notin> set symbols \<Longrightarrow> length (word_end s) < length s" by simp
  with Cons show ?thesis by (auto simp: scan_token_def Let_def char_at_def set_symbols split: list.splits)
qed (simp add: scan_token_def char_at_def)

lemma gettoken_snd: "snd (snd (gettoken s)) = skip_ws (snd (scan_token (skip_ws s)))"
  by (simp add: gettoken_def split: prod.splits)

lemma gettoken_rest: "length (snd (snd (gettoken s))) \<le> length s"
  and gettoken_less: "char_at (skip_ws s) \<noteq> 0 \<Longrightarrow> length (snd (snd (gettoken s))) < length s"
  using scan_token_rest [OF skip_ws_hd, of s] skip_ws_length [of s]
    skip_ws_length [of "snd (scan_token (skip_ws s))"]
  by (auto simp: gettoken_snd)

lemma peek_nonzero: "peek toks s \<Longrightarrow> char_at (skip_ws s) \<noteq> 0"
  by (simp add: peek_def)

text \<open>\<open>parseredirs\<close>: the redirections it would wrap the command in.\<close>

function parseredirs :: "u8 list \<Rightarrow> token redir list parse" where
  "parseredirs s =
     (if peek [60, 62] s then
        (case gettoken s of
           (tok, _, s) \<Rightarrow>
             (case gettoken s of
                (a, f, s) \<Rightarrow>
                  if a \<noteq> 97 then Syntax ''missing file for redirection''
                  else pbind (parseredirs s) (\<lambda>rs s.
                    Parsed ((if tok = 60 then (f, O_READ, 0)
                             else if tok = 62 then (f, O_WRITE, 1) else (f, O_APPEND, 1)) # rs) s)))
      else Parsed [] (skip_ws s))"
  by auto

termination
proof (relation "measure length", simp)
  fix s tok q s1 a f s2 x y
  assume "peek [60, 62] s" "(x, y) = gettoken s" "(q, s1) = y" "(a, tok) = gettoken s1" "(f, s2) = tok"
  then show "(s2, s) \<in> measure length"
    using gettoken_less [of s] gettoken_rest [of s1] peek_nonzero [of "[60, 62]" s]
    by (metis in_measure le_less_trans snd_conv)
qed

declare parseredirs.simps [simp del]

lemma parseredirs_rest: "parseredirs s = Parsed rs t \<Longrightarrow> length t \<le> length s"
proof (induction s arbitrary: rs rule: parseredirs.induct)
  case (1 s)
  show ?case
  proof (cases "peek [60, 62] s")
    case False
    with 1(2) skip_ws_length [of s] show ?thesis by (simp add: parseredirs.simps [of s])
  next
    case True
    obtain tok q s1 where g: "gettoken s = (tok, q, s1)" by (cases "gettoken s") auto
    obtain a f s2 where h: "gettoken s1 = (a, f, s2)" by (cases "gettoken s1") auto
    from 1(2) True g h obtain rs' where a: "a = 97" and r: "parseredirs s2 = Parsed rs' t"
      by (auto simp: parseredirs.simps [of s] pbind_Parsed split: if_splits)
    have "length t \<le> length s2" using 1(1) [OF True g [symmetric] refl h [symmetric] refl _ r] a by simp
    also have "\<dots> \<le> length s1" using gettoken_rest [of s1] h by simp
    also have "\<dots> \<le> length s" using gettoken_rest [of s] g by simp
    finally show ?thesis .
  qed
qed

text \<open>
  The arguments of a simple command, with \<open>as\<close> and \<open>rs\<close> what has been read.  The redirections are put
  around the command while it still grows.
\<close>

abbreviation MAXARGS :: nat where "MAXARGS \<equiv> 10"

lemma gettoken_tok0: "fst (gettoken s) = 0 \<longleftrightarrow> char_at (skip_ws s) = 0"
  by (auto simp: gettoken_def scan_token_def Let_def split: prod.splits)

function parse_args :: "token list \<Rightarrow> token redir list \<Rightarrow> u8 list \<Rightarrow> token cmd parse" where
  "parse_args as rs s =
     (if peek (bytes ''|)&;'') s then Parsed (wrap rs (Exec as)) (skip_ws s)
      else
        (case gettoken s of
           (tok, w, s) \<Rightarrow>
             if tok = 0 then Parsed (wrap rs (Exec as)) s
             else if tok \<noteq> 97 then Syntax ''syntax''
             else if length as + 1 \<ge> MAXARGS then Syntax ''too many args''
             else pbind (parseredirs s) (\<lambda>rs' s. parse_args (as @ [w]) (rs @ rs') s)))"
  by auto

termination
proof (relation "measure (\<lambda>(as, rs, s). length s)", simp)
  fix as :: "token list" and rs rs' :: "token redir list" and s tok w s1 s2 x y
  assume "(tok, y) = gettoken s" "(w, s1) = y" "tok \<noteq> 0" "parseredirs s1 = Parsed rs' s2"
  then show "((as @ [w], rs @ rs', s2), as, rs, s) \<in> measure (\<lambda>(as, rs, s). length s)"
    using gettoken_less [of s] gettoken_tok0 [of s] parseredirs_rest [of s1 rs' s2]
    by (metis (mono_tags, lifting) case_prod_conv fst_conv in_measure le_less_trans snd_conv)
qed

declare parse_args.simps [simp del]

text \<open>\<open>while (peek(ps, es, "&"))\<close>\<close>

function parse_backs :: "token cmd \<Rightarrow> u8 list \<Rightarrow> token cmd \<times> u8 list" where
  "parse_backs c s =
     (if peek [38] s then (case gettoken s of (_, _, s) \<Rightarrow> parse_backs (Back c) s) else (c, skip_ws s))"
  by auto

termination
proof (relation "measure (\<lambda>(c, s). length s)", simp)
  fix c :: "token cmd" and s x y w s1
  assume "peek [38] s" "(x, y) = gettoken s" "(w, s1) = y"
  then show "((Back c, s1), c, s) \<in> measure (\<lambda>(c, s). length s)"
    using gettoken_less [of s] peek_nonzero [of "[38]" s]
    by (metis (mono_tags, lifting) case_prod_conv in_measure snd_conv)
qed

declare parse_backs.simps [simp del]

text \<open>
  The mutually recursive part, with a bound on the depth of the calls: \<open>NoFuel\<close> means it was too
  small; the bound of \<open>parsecmd\<close> never is.
\<close>

fun parseline :: "nat \<Rightarrow> u8 list \<Rightarrow> token cmd parse"
  and parsepipe :: "nat \<Rightarrow> u8 list \<Rightarrow> token cmd parse"
  and parseblock :: "nat \<Rightarrow> u8 list \<Rightarrow> token cmd parse"
  and parseexec :: "nat \<Rightarrow> u8 list \<Rightarrow> token cmd parse" where
  "parseline 0 s = NoFuel"
| "parseline (Suc n) s =
     pbind (parsepipe n s) (\<lambda>c s.
       case parse_backs c s of
         (c, s) \<Rightarrow>
           if peek [59] s then pbind (parseline n (snd (snd (gettoken s)))) (\<lambda>c2. Parsed (Seq c c2))
           else Parsed c (skip_ws s))"
| "parsepipe 0 s = NoFuel"
| "parsepipe (Suc n) s =
     pbind (parseexec n s) (\<lambda>c s.
       if peek [124] s then pbind (parsepipe n (snd (snd (gettoken s)))) (\<lambda>c2. Parsed (Pipe c c2))
       else Parsed c (skip_ws s))"
| "parseblock 0 s = NoFuel"
| "parseblock (Suc n) s =
     (if \<not> peek [40] s then Syntax ''parseblock''
      else
        pbind (parseline n (snd (snd (gettoken s)))) (\<lambda>c s.
          if \<not> peek [41] s then Syntax ''syntax - missing )''
          else pbind (parseredirs (snd (snd (gettoken s)))) (\<lambda>rs. Parsed (wrap rs c))))"
| "parseexec 0 s = NoFuel"
| "parseexec (Suc n) s =
     (if peek [40] s then parseblock n (skip_ws s)
      else pbind (parseredirs (skip_ws s)) (\<lambda>rs. parse_args [] rs))"

definition parse_fuel :: "u8 list \<Rightarrow> nat" where
  "parse_fuel s = 4 * length s + 4"

definition parsecmd :: "u8 list \<Rightarrow> token cmd parse" where
  "parsecmd s =
     pbind (parseline (parse_fuel s) s) (\<lambda>c s.
       if skip_ws s \<noteq> [] then Syntax ''syntax'' else Parsed c [])"

section \<open>Cutting the words\<close>

text \<open>
  \<open>nulterminate\<close> stores a NUL behind every word, at an index of the line, which is one byte longer
  for its own NUL.
\<close>

definition end_at :: "u8 list \<Rightarrow> token \<Rightarrow> u8 list \<Rightarrow> u8 list" where
  "end_at s w buf = buf[length s - length (snd w) := 0]"

primrec nulterminate :: "u8 list \<Rightarrow> token cmd \<Rightarrow> u8 list \<Rightarrow> u8 list" where
  "nulterminate s (Exec as) buf = fold (end_at s) as buf"
| "nulterminate s (Redir c f m fd) buf = end_at s f (nulterminate s c buf)"
| "nulterminate s (Pipe a b) buf = nulterminate s b (nulterminate s a buf)"
| "nulterminate s (Seq a b) buf = nulterminate s b (nulterminate s a buf)"
| "nulterminate s (Back c) buf = nulterminate s c buf"

text \<open>The string a pointer to a word then points to.\<close>

definition string_at :: "u8 list \<Rightarrow> token \<Rightarrow> u8 list \<Rightarrow> u8 list" where
  "string_at s w buf = takeWhile (\<lambda>c. c \<noteq> 0) (drop (length s - length (fst w)) buf)"

end
