(* ===== verification/ShRun.thy ===== *)
theory ShRun
  imports Sh
begin

text \<open>
  What the shell does with a parsed command (\<open>runcmd\<close>, \<open>getcmd\<close> and \<open>main\<close> of \<open>usr/sh.c\<close>).  A process
  is the tree of the system calls it makes, with a branch for every result of a call it looks at; the
  kernel, which gives the results, is not part of it.  \<open>fork\<close> returns 0 in the child.
\<close>

section \<open>Processes\<close>

datatype proc_tree =
    P_exit
  | P_print string "u8 list" proc_tree
  | P_exec "u8 list" "u8 list list" proc_tree
  | P_close int proc_tree
  | P_open "u8 list" mode "int \<Rightarrow> proc_tree"
  | P_seek_end int proc_tree
  | P_pipe "(int \<times> int) option \<Rightarrow> proc_tree"
  | P_dup int proc_tree
  | P_fork "int \<Rightarrow> proc_tree"
  | P_wait proc_tree

text \<open>\<open>P_open\<close> with \<open>O_WRITE\<close> is \<open>creat\<close>; an \<open>exec\<close> that succeeds does not come back.\<close>

definition panic :: "string \<Rightarrow> proc_tree" where
  "panic m = P_print m [] P_exit"

definition fork1 :: "proc_tree \<Rightarrow> proc_tree \<Rightarrow> proc_tree" where
  "fork1 child parent =
     P_fork (\<lambda>pid. if pid = -1 then panic ''fork'' else if pid = 0 then child else parent)"

section \<open>Running a command\<close>

text \<open>\<open>safestrcpy(&bincmd[5], argv[0], 20)\<close> keeps 19 bytes of the name.\<close>

definition command_path :: "u8 list \<Rightarrow> u8 list" where
  "command_path w = (if char_at w = 47 then w else bytes ''/bin/'' @ take 19 w)"

primrec runcmd :: "u8 list cmd \<Rightarrow> proc_tree" where
  "runcmd (Exec ws) =
     (case ws of
        [] \<Rightarrow> P_exit
      | w # _ \<Rightarrow> P_exec (command_path w) ws (P_print ''exec failed'' w P_exit))"
| "runcmd (Redir c f m fd) =
     P_close fd (P_open f m (\<lambda>p.
       let next = (if p < 0 then P_print ''open failed'' f P_exit else runcmd c)
       in if m = O_APPEND \<and> p \<ge> 0 then P_seek_end p next else next))"
| "runcmd (Seq a b) = fork1 (runcmd a) (P_wait (runcmd b))"
| "runcmd (Pipe a b) =
     P_pipe (\<lambda>p. case p of
       None \<Rightarrow> panic ''pipe''
     | Some (r, w) \<Rightarrow>
         fork1 (P_close 1 (P_dup w (P_close r (P_close w (runcmd a)))))
           (fork1 (P_close 0 (P_dup r (P_close r (P_close w (runcmd b)))))
             (P_close r (P_close w (P_wait (P_wait P_exit))))))"
| "runcmd (Back c) = fork1 (runcmd c) P_exit"

text \<open>The process that parses a line and runs it.\<close>

definition run_line :: "u8 list \<Rightarrow> proc_tree" where
  "run_line s =
     (case parsecmd s of
        Parsed c _ \<Rightarrow> (let buf = nulterminate s c (s @ [0]) in runcmd (map_cmd (\<lambda>w. string_at s w buf) c))
      | Syntax m \<Rightarrow> panic m
      | NoFuel \<Rightarrow> P_exit)"

section \<open>The main loop\<close>

text \<open>\<open>gets\<close>: bytes of the input up to and with a line end, at most \<open>max - 1\<close>.\<close>

primrec gets :: "nat \<Rightarrow> u8 list \<Rightarrow> u8 list \<times> u8 list" where
  "gets 0 s = ([], s)"
| "gets (Suc k) s =
     (case s of
        [] \<Rightarrow> ([], [])
      | c # cs \<Rightarrow> if c = 10 \<or> c = 13 then ([c], cs) else (case gets k cs of (l, r) \<Rightarrow> (c # l, r)))"

datatype shell_act = Cd "u8 list" | Run proc_tree | Bye

text \<open>One line, as the string in \<open>buf\<close>: up to its first NUL.\<close>

definition shell_line :: "u8 list \<Rightarrow> shell_act" where
  "shell_line l =
     (if take 3 l = bytes ''cd '' then Cd (drop 3 (butlast l))
      else if l = bytes ''exit'' @ [10] then Bye
      else Run (run_line l))"

lemma gets_le: "length (snd (gets k s)) \<le> length s"
proof (induction k arbitrary: s)
  case (Suc k)
  show ?case
  proof (cases s)
    case (Cons c cs)
    then show ?thesis using Suc.IH [of cs] by (auto split: prod.split)
  qed simp
qed simp

lemma gets_length: "s \<noteq> [] \<Longrightarrow> length (snd (gets (Suc k) s)) < length s"
  using gets_le [of k "tl s"] by (cases s) (auto split: prod.split)

text \<open>
  A session on an input: each command runs in a child that is waited for, so only the lines decide what
  the shell does.  It ends with the input, at a line that starts with a NUL or at \<open>exit\<close>.
\<close>

definition says_bye :: "shell_act \<Rightarrow> bool" where
  "says_bye a \<longleftrightarrow> (case a of Bye \<Rightarrow> True | _ \<Rightarrow> False)"

function session :: "u8 list \<Rightarrow> shell_act list" where
  "session s =
     (if s = [] then []
      else (case gets 99 s of
              (l, r) \<Rightarrow>
                if char_at l = 0 then []
                else (let a = shell_line (takeWhile (\<lambda>c. c \<noteq> 0) l)
                      in if says_bye a then [a] else a # session r)))"
  by auto

termination
proof (relation "measure length", simp)
  fix s l r :: "u8 list"
  assume "s \<noteq> []" "(l, r) = gets 99 s"
  moreover have "(99 :: nat) = Suc 98" by simp
  ultimately show "(r, s) \<in> measure length" using gets_length [of s 98] by (metis in_measure snd_conv)
qed

declare session.simps [simp del]

end
