(* ===== verification/ShFacts.thy ===== *)
theory ShFacts
  imports Sh
begin

text \<open>
  Facts about the shell's parser: it always ends, the words cut by \<open>nulterminate\<close> are the tokens of
  the line, and every command can be written down so that the parser reads it back.
\<close>

section \<open>The parser ends\<close>

lemma pbind_NoFuel: "pbind x f = NoFuel \<longleftrightarrow> x = NoFuel \<or> (\<exists>a s. x = Parsed a s \<and> f a s = NoFuel)"
  by (cases x) auto

lemma parseredirs_fuel: "parseredirs s \<noteq> NoFuel"
proof (induction s rule: parseredirs.induct)
  case (1 s)
  then show ?case by (subst parseredirs.simps) (auto simp: pbind_NoFuel split: prod.splits)
qed

lemma parse_args_fuel: "parse_args as rs s \<noteq> NoFuel"
proof (induction as rs s rule: parse_args.induct)
  case (1 as rs s)
  then show ?case
    by (subst parse_args.simps) (auto simp: pbind_NoFuel parseredirs_fuel split: prod.splits)
qed

lemma parse_args_rest: "parse_args as rs s = Parsed c t \<Longrightarrow> length t \<le> length s"
proof (induction as rs s rule: parse_args.induct)
  case (1 as rs s)
  obtain tok w s1 where g: "gettoken s = (tok, w, s1)" by (cases "gettoken s") auto
  have s1: "length s1 \<le> length s" using gettoken_rest [of s] g by simp
  show ?case
  proof (cases "peek (bytes ''|)&;'') s \<or> tok = 0")
    case True
    with 1(2) g s1 skip_ws_length [of s] show ?thesis by (auto simp: parse_args.simps [of as rs s] split: if_splits)
  next
    case False
    with 1(2) g obtain rs' s2 where r: "tok = 97" "length as + 1 < MAXARGS" "parseredirs s1 = Parsed rs' s2"
      "parse_args (as @ [w]) (rs @ rs') s2 = Parsed c t"
      by (auto simp: parse_args.simps [of as rs s] pbind_Parsed split: if_splits)
    have "length t \<le> length s2"
      by (rule 1(1) [OF _ g [symmetric] refl _ _ _ r(3) r(4)]) (use False r in auto)
    with parseredirs_rest [OF r(3)] s1 show ?thesis by linarith
  qed
qed

lemma parse_backs_rest: "length (snd (parse_backs c s)) \<le> length s"
proof (induction c s rule: parse_backs.induct)
  case (1 c s)
  obtain tok q e s1 where g: "gettoken s = (tok, (q, e), s1)" by (cases "gettoken s") auto
  have s1: "length s1 \<le> length s" using gettoken_rest [of s] g by simp
  with 1 g skip_ws_length [of s] show ?case
    by (subst parse_backs.simps) (auto intro: le_trans)
qed

lemma parse_rest:
  "parseline n s = Parsed c t \<Longrightarrow> length t \<le> length s"
  "parsepipe n s = Parsed c t \<Longrightarrow> length t \<le> length s"
  "parseblock n s = Parsed c t \<Longrightarrow> length t \<le> length s"
  "parseexec n s = Parsed c t \<Longrightarrow> length t \<le> length s"
proof (induction n arbitrary: s c t)
  case (Suc n)
  { case 1
    then obtain c1 s1 where p: "parsepipe n s = Parsed c1 s1" by (auto simp: pbind_Parsed)
    obtain c2 s2 where b: "parse_backs c1 s1 = (c2, s2)" by (cases "parse_backs c1 s1")
    have "length s1 \<le> length s" "length s2 \<le> length s1"
      using Suc.IH(2) [OF p] parse_backs_rest [of c1 s1] b by auto
    with 1 p b Suc.IH(1) gettoken_rest [of s2] skip_ws_length [of s2] show ?case
      by (fastforce simp: pbind_Parsed split: if_splits)
  next
    case 2
    then obtain c1 s1 where p: "parseexec n s = Parsed c1 s1" by (auto simp: pbind_Parsed)
    then have "length s1 \<le> length s" by (rule Suc.IH(4))
    with 2 p Suc.IH(2) gettoken_rest [of s1] skip_ws_length [of s1] show ?case
      by (fastforce simp: pbind_Parsed split: if_splits)
  next
    case 3
    then obtain c1 s1 rs where "parseline n (snd (snd (gettoken s))) = Parsed c1 s1"
      "parseredirs (snd (snd (gettoken s1))) = Parsed rs t"
      by (auto simp: pbind_Parsed split: if_splits)
    with Suc.IH(1) [of "snd (snd (gettoken s))"] parseredirs_rest gettoken_rest [of s] gettoken_rest [of s1]
    show ?case by fastforce
  next
    case 4
    then show ?case
      using Suc.IH(3) [of "skip_ws s"] skip_ws_length [of s] parseredirs_rest [of "skip_ws s"]
        parse_args_rest
      by (fastforce simp: pbind_Parsed split: if_splits) }
qed simp_all

lemma parse_total:
  "4 * length s + 4 \<le> n \<Longrightarrow> parseline n s \<noteq> NoFuel"
  "4 * length s + 3 \<le> n \<Longrightarrow> parsepipe n s \<noteq> NoFuel"
  "4 * length s + 1 \<le> n \<Longrightarrow> parseblock n s \<noteq> NoFuel"
  "4 * length s + 2 \<le> n \<Longrightarrow> parseexec n s \<noteq> NoFuel"
proof (induction n arbitrary: s)
  case (Suc n)
  have less: "length (snd (snd (gettoken s))) < length s" if "peek toks s" for toks s
    using that peek_nonzero gettoken_less by blast
  { case 1
    show ?case
    proof
      assume "parseline (Suc n) s = NoFuel"
      moreover have "parsepipe n s \<noteq> NoFuel" using 1 by (intro Suc.IH(2)) simp
      ultimately obtain c1 s1 where p1: "parsepipe n s = Parsed c1 s1"
        "(case parse_backs c1 s1 of (c, s) \<Rightarrow>
           if peek [59] s then pbind (parseline n (snd (snd (gettoken s)))) (\<lambda>c2. Parsed (Seq c c2))
           else Parsed c (skip_ws s)) = NoFuel"
        by (auto simp: pbind_NoFuel)
      obtain c2 s2 where b: "parse_backs c1 s1 = (c2, s2)" by (cases "parse_backs c1 s1")
      with p1 have p: "parsepipe n s = Parsed c1 s1" "parse_backs c1 s1 = (c2, s2)"
        "peek [59] s2" "parseline n (snd (snd (gettoken s2))) = NoFuel"
        by (auto simp: pbind_NoFuel split: if_splits)
      have "length s2 \<le> length s" using parse_rest(2) [OF p(1)] parse_backs_rest [of c1 s1] p(2) by simp
      with less [OF p(3)] 1 Suc.IH(1) p(4) show False by fastforce
    qed
  next
    case 2
    show ?case
    proof
      assume "parsepipe (Suc n) s = NoFuel"
      moreover have "parseexec n s \<noteq> NoFuel" using 2 by (intro Suc.IH(4)) simp
      ultimately obtain c1 s1 where p: "parseexec n s = Parsed c1 s1" "peek [124] s1"
        "parsepipe n (snd (snd (gettoken s1))) = NoFuel"
        by (auto simp: pbind_NoFuel split: if_splits)
      with parse_rest(4) [OF p(1)] less [OF p(2)] 2 Suc.IH(2) show False by fastforce
    qed
  next
    case 3
    show ?case
    proof (cases "peek [40] s")
      case True
      with less [OF True] 3 have "parseline n (snd (snd (gettoken s))) \<noteq> NoFuel" by (intro Suc.IH(1)) simp
      with True parseredirs_fuel show ?thesis by (auto simp: pbind_NoFuel split: if_splits)
    qed simp
  next
    case 4
    then have "parseblock n (skip_ws s) \<noteq> NoFuel" using skip_ws_length [of s] by (intro Suc.IH(3)) simp
    then show ?case by (auto simp: pbind_NoFuel parseredirs_fuel parse_args_fuel) }
qed simp_all

lemma parse_mono:
  "parseline n s \<noteq> NoFuel \<Longrightarrow> parseline (Suc n) s = parseline n s"
  "parsepipe n s \<noteq> NoFuel \<Longrightarrow> parsepipe (Suc n) s = parsepipe n s"
  "parseblock n s \<noteq> NoFuel \<Longrightarrow> parseblock (Suc n) s = parseblock n s"
  "parseexec n s \<noteq> NoFuel \<Longrightarrow> parseexec (Suc n) s = parseexec n s"
proof (induction n arbitrary: s)
  case (Suc n)
  have cong: "pbind x f = pbind y g" if "y \<noteq> NoFuel \<Longrightarrow> x = y" "pbind y g \<noteq> NoFuel"
    "\<And>a s. y = Parsed a s \<Longrightarrow> g a s \<noteq> NoFuel \<Longrightarrow> f a s = g a s"
    for x y :: "'x parse" and f g :: "'x \<Rightarrow> u8 list \<Rightarrow> 'y parse"
    using that by (cases y) auto
  note d = parseline.simps(2) parsepipe.simps(2) parseblock.simps(2) parseexec.simps(2)
  { case 1
    then show ?case
      unfolding d(1) [of "Suc n"] d(1) [of n s]
      by (intro cong) (auto simp: Suc.IH(2) simp del: d split: prod.splits intro!: cong Suc.IH(1))
  next
    case 2
    then show ?case
      unfolding d(2) [of "Suc n"] d(2) [of n s]
      by (intro cong) (auto simp: Suc.IH(4) simp del: d intro!: cong Suc.IH(2))
  next
    case 3
    then show ?case
      unfolding d(3) [of "Suc n"] d(3) [of n s]
      by (cases "peek [40] s") (auto simp del: d intro!: cong Suc.IH(1))
  next
    case 4
    then show ?case
      unfolding d(4) [of "Suc n"] d(4) [of n s]
      by (cases "peek [40] s") (simp_all add: Suc.IH(3) del: d) }
qed simp_all

section \<open>The words\<close>

definition word_char :: "u8 \<Rightarrow> bool" where
  "word_char c \<longleftrightarrow> c \<notin> set whitespace \<and> c \<notin> set symbols"

definition text_of :: "token \<Rightarrow> u8 list" where
  "text_of w = take (length (fst w) - length (snd w)) (fst w)"

text \<open>A word of the line: a longest run of word characters.\<close>

definition good_token :: "u8 list \<Rightarrow> token \<Rightarrow> bool" where
  "good_token s w \<longleftrightarrow> (\<exists>pre mid post. s = pre @ mid @ post \<and> w = (mid @ post, post) \<and> mid \<noteq> [] \<and>
     (\<forall>c \<in> set mid. word_char c) \<and> (post = [] \<or> \<not> word_char (hd post)))"

definition suffix_of :: "u8 list \<Rightarrow> u8 list \<Rightarrow> bool" where
  "suffix_of t s \<longleftrightarrow> (\<exists>pre. s = pre @ t)"

lemma suffix_of_refl [simp]: "suffix_of s s"
  by (simp add: suffix_of_def)

lemma suffix_of_trans: "suffix_of t s \<Longrightarrow> suffix_of u t \<Longrightarrow> suffix_of u s"
  by (auto simp: suffix_of_def)

lemma good_token_suffix: "suffix_of t s \<Longrightarrow> good_token t w \<Longrightarrow> good_token s w"
  unfolding suffix_of_def good_token_def by (metis append.assoc)

lemma suffix_of_dropWhile: "suffix_of (dropWhile P s) s"
  unfolding suffix_of_def by (metis takeWhile_dropWhile_id)

lemma suffix_of_tl: "suffix_of t s \<Longrightarrow> suffix_of (tl t) s"
  by (cases t) (auto simp: suffix_of_def)

lemma skip_ws_suffix: "suffix_of (skip_ws s) s"
  unfolding skip_ws_def by (rule suffix_of_dropWhile)

lemma scan_token_suffix: "suffix_of (snd (scan_token s)) s"
  using suffix_of_tl [OF suffix_of_tl [OF suffix_of_refl [of s]]] suffix_of_tl [OF suffix_of_refl [of s]]
  by (auto simp: scan_token_def Let_def word_end_def intro: suffix_of_dropWhile)

lemma gettoken_suffix: "suffix_of (snd (snd (gettoken s))) s"
  unfolding gettoken_snd
  by (meson skip_ws_suffix scan_token_suffix suffix_of_trans)

lemma gettoken_word:
  assumes "gettoken s = (97, w, t)"
  shows "good_token s w"
proof -
  let ?s = "skip_ws s"
  let ?P = "\<lambda>c. c \<notin> set whitespace \<and> c \<notin> set symbols"
  from assms have w: "w = (?s, word_end ?s)" "?s \<noteq> []" "hd ?s \<notin> set symbols"
    by (auto simp: gettoken_def scan_token_def Let_def char_at_def set_symbols split: if_splits list.splits)
  have "hd ?s \<notin> set whitespace" using w(2) by (rule skip_ws_hd)
  with w have "takeWhile ?P ?s \<noteq> []" by (cases ?s) auto
  moreover have "\<forall>c \<in> set (takeWhile ?P ?s). word_char c" by (auto simp: word_char_def dest: set_takeWhileD)
  moreover have "word_end ?s = [] \<or> \<not> word_char (hd (word_end ?s))"
    unfolding word_end_def word_char_def using hd_dropWhile [of ?P ?s] by blast
  moreover have "?s = takeWhile ?P ?s @ word_end ?s" by (simp add: word_end_def)
  ultimately have "good_token ?s w"
    unfolding good_token_def w(1)
    by (intro exI [of _ "[]"] exI [of _ "takeWhile ?P ?s"] exI [of _ "word_end ?s"]) auto
  with skip_ws_suffix [of s] show ?thesis by (rule good_token_suffix)
qed

lemma set_wrap: "set_cmd (wrap rs c) = set_cmd c \<union> fst ` set rs"
  by (induction rs arbitrary: c) (auto simp: wrap_def)

lemma parseredirs_tokens:
  "parseredirs s = Parsed rs t \<Longrightarrow> suffix_of t s \<and> (\<forall>r \<in> set rs. good_token s (fst r))"
proof (induction s arbitrary: rs rule: parseredirs.induct)
  case (1 s)
  show ?case
  proof (cases "peek [60, 62] s")
    case False
    with 1(2) skip_ws_suffix [of s] show ?thesis by (simp add: parseredirs.simps [of s])
  next
    case True
    obtain tok q s1 where g: "gettoken s = (tok, q, s1)" by (cases "gettoken s") auto
    obtain a f s2 where h: "gettoken s1 = (a, f, s2)" by (cases "gettoken s1") auto
    from 1(2) True g h obtain rs' m where a: "a = 97" and r: "parseredirs s2 = Parsed rs' t" "rs = (f, m) # rs'"
      by (auto simp: parseredirs.simps [of s] pbind_Parsed split: if_splits)
    have IH: "suffix_of t s2 \<and> (\<forall>r \<in> set rs'. good_token s2 (fst r))"
      by (rule 1(1) [OF True g [symmetric] refl h [symmetric] refl _ r(1)]) (simp add: a)
    have "suffix_of s1 s" "suffix_of s2 s1" using gettoken_suffix [of s] gettoken_suffix [of s1] g h by auto
    moreover have "good_token s1 f" using gettoken_word h a by blast
    ultimately show ?thesis using IH r(2) by (auto intro: suffix_of_trans good_token_suffix)
  qed
qed

lemma parse_args_tokens:
  "parse_args as rs s = Parsed c t \<Longrightarrow>
    suffix_of t s \<and> (\<forall>w \<in> set_cmd c. good_token s w \<or> w \<in> set as \<union> fst ` set rs)"
proof (induction as rs s rule: parse_args.induct)
  case (1 as rs s)
  obtain tok w s1 where g: "gettoken s = (tok, w, s1)" by (cases "gettoken s") auto
  have s1: "suffix_of s1 s" using gettoken_suffix [of s] g by simp
  show ?case
  proof (cases "peek (bytes ''|)&;'') s \<or> tok = 0")
    case True
    with 1(2) g s1 skip_ws_suffix [of s] show ?thesis
      by (auto simp: parse_args.simps [of as rs s] set_wrap split: if_splits)
  next
    case False
    with 1(2) g obtain rs' s2 where r: "tok = 97" "length as + 1 < MAXARGS" "parseredirs s1 = Parsed rs' s2"
      "parse_args (as @ [w]) (rs @ rs') s2 = Parsed c t"
      by (auto simp: parse_args.simps [of as rs s] pbind_Parsed split: if_splits)
    have IH: "suffix_of t s2 \<and> (\<forall>x \<in> set_cmd c. good_token s2 x \<or> x \<in> set (as @ [w]) \<union> fst ` set (rs @ rs'))"
      by (rule 1(1) [OF _ g [symmetric] refl _ _ _ r(3) r(4)]) (use False r in auto)
    note p = parseredirs_tokens [OF r(3)]
    then have s2: "suffix_of s2 s" using s1 suffix_of_trans by blast
    have w: "good_token s w" using g r(1) gettoken_word by blast
    have "good_token s x" if "good_token s2 x" for x using s2 that by (rule good_token_suffix)
    moreover have "good_token s x" if "x \<in> fst ` set rs'" for x
      using p s1 that good_token_suffix by blast
    ultimately have "\<forall>x \<in> set_cmd c. good_token s x \<or> x \<in> set as \<union> fst ` set rs"
      using IH w by (simp add: image_Un) blast
    moreover have "suffix_of t s" using IH s2 suffix_of_trans by blast
    ultimately show ?thesis by blast
  qed
qed

lemma parse_backs_tokens:
  "suffix_of (snd (parse_backs c s)) s \<and> set_cmd (fst (parse_backs c s)) = set_cmd c"
proof (induction c s rule: parse_backs.induct)
  case (1 c s)
  obtain tok q e s1 where g: "gettoken s = (tok, (q, e), s1)" by (cases "gettoken s") auto
  have s1: "suffix_of s1 s" using gettoken_suffix [of s] g by simp
  with 1 g skip_ws_suffix [of s] show ?case
    by (subst (1 2) parse_backs.simps) (auto intro: suffix_of_trans)
qed

lemma parse_tokens:
  "parseline n s = Parsed c t \<Longrightarrow> suffix_of t s \<and> (\<forall>w \<in> set_cmd c. good_token s w)"
  "parsepipe n s = Parsed c t \<Longrightarrow> suffix_of t s \<and> (\<forall>w \<in> set_cmd c. good_token s w)"
  "parseblock n s = Parsed c t \<Longrightarrow> suffix_of t s \<and> (\<forall>w \<in> set_cmd c. good_token s w)"
  "parseexec n s = Parsed c t \<Longrightarrow> suffix_of t s \<and> (\<forall>w \<in> set_cmd c. good_token s w)"
proof (induction n arbitrary: s c t)
  case (Suc n)
  have lift: "suffix_of u s \<and> (\<forall>w \<in> set_cmd c. good_token s w)"
    if "suffix_of t s" "suffix_of u t \<and> (\<forall>w \<in> set_cmd c. good_token t w)" for s t u c
    using that suffix_of_trans good_token_suffix by blast
  { case 1
    then obtain c1 s1 where p: "parsepipe n s = Parsed c1 s1" by (auto simp: pbind_Parsed)
    obtain c2 s2 where b: "parse_backs c1 s1 = (c2, s2)" by (cases "parse_backs c1 s1")
    with Suc.IH(2) [OF p] parse_backs_tokens [of c1 s1]
    have 2: "suffix_of s2 s" "\<forall>w \<in> set_cmd c2. good_token s w" using suffix_of_trans by auto
    show ?case
    proof (cases "peek [59] s2")
      case True
      let ?r = "snd (snd (gettoken s2))"
      from 1 p b True obtain c3 where c: "parseline n ?r = Parsed c3 t" "c = Seq c2 c3"
        by (auto simp: pbind_Parsed)
      have "suffix_of ?r s" using 2(1) gettoken_suffix suffix_of_trans by blast
      from lift [OF this Suc.IH(1) [OF c(1)]] c(2) 2 show ?thesis by auto
    next
      case False
      with 1 p b have "c = c2" "t = skip_ws s2" by auto
      with 2 skip_ws_suffix show ?thesis using suffix_of_trans by blast
    qed
  next
    case 2
    then obtain c1 s1 where p: "parseexec n s = Parsed c1 s1" by (auto simp: pbind_Parsed)
    note 3 = Suc.IH(4) [OF p]
    show ?case
    proof (cases "peek [124] s1")
      case True
      let ?r = "snd (snd (gettoken s1))"
      from 2 p True obtain c3 where c: "parsepipe n ?r = Parsed c3 t" "c = Pipe c1 c3"
        by (auto simp: pbind_Parsed)
      have "suffix_of ?r s" using 3 gettoken_suffix suffix_of_trans by blast
      from lift [OF this Suc.IH(2) [OF c(1)]] c(2) 3 show ?thesis by auto
    next
      case False
      with 2 p have "c = c1" "t = skip_ws s1" by auto
      with 3 skip_ws_suffix show ?thesis using suffix_of_trans by blast
    qed
  next
    case 3
    let ?a = "snd (snd (gettoken s))"
    from 3 obtain c1 s1 rs where p: "parseline n ?a = Parsed c1 s1"
      "parseredirs (snd (snd (gettoken s1))) = Parsed rs t" "c = wrap rs c1"
      by (auto simp: pbind_Parsed split: if_splits)
    have a: "suffix_of s1 s \<and> (\<forall>w \<in> set_cmd c1. good_token s w)"
      using lift [OF gettoken_suffix Suc.IH(1) [OF p(1)]] .
    have x: "suffix_of (snd (snd (gettoken s1))) s"
      by (rule suffix_of_trans [OF conjunct1 [OF a] gettoken_suffix])
    have "\<forall>w \<in> fst ` set rs. good_token s w" "suffix_of t s"
      using parseredirs_tokens [OF p(2)] good_token_suffix [OF x] suffix_of_trans [OF x] by auto
    with a show ?case unfolding p(3) set_wrap by blast
  next
    case 4
    show ?case
    proof (cases "peek [40] s")
      case True
      with 4 have "parseblock n (skip_ws s) = Parsed c t" by simp
      from lift [OF skip_ws_suffix Suc.IH(3) [OF this]] show ?thesis .
    next
      case False
      with 4 obtain rs s1 where p: "parseredirs (skip_ws s) = Parsed rs s1" "parse_args [] rs s1 = Parsed c t"
        by (auto simp: pbind_Parsed)
      note r = parseredirs_tokens [OF p(1)]
      have s1: "suffix_of s1 s" by (rule suffix_of_trans [OF skip_ws_suffix conjunct1 [OF r]])
      have "\<forall>w \<in> fst ` set rs. good_token s w" using r good_token_suffix [OF skip_ws_suffix] by auto
      moreover have "suffix_of t s1" "\<forall>w \<in> set_cmd c. good_token s1 w \<or> w \<in> fst ` set rs"
        using parse_args_tokens [OF p(2)] by auto
      ultimately show ?thesis using suffix_of_trans [OF s1] good_token_suffix [OF s1] by blast
    qed }
qed simp_all

text \<open>What \<open>nulterminate\<close> writes.\<close>

lemma end_at_nth: "i < length buf \<Longrightarrow> end_at s w buf ! i = (if i = length s - length (snd w) then 0 else buf ! i)"
  by (simp add: end_at_def nth_list_update)

lemma end_at_length [simp]: "length (end_at s w buf) = length buf"
  by (simp add: end_at_def)

lemma fold_end_at:
  "length (fold (end_at s) ws buf) = length buf \<and> (i < length buf \<longrightarrow>
    fold (end_at s) ws buf ! i = (if \<exists>w \<in> set ws. i = length s - length (snd w) then 0 else buf ! i))"
  by (induction ws arbitrary: buf) (auto simp: end_at_nth)

lemma nulterminate_nth:
  "length (nulterminate s c buf) = length buf \<and> (i < length buf \<longrightarrow>
    nulterminate s c buf ! i = (if \<exists>w \<in> set_cmd c. i = length s - length (snd w) then 0 else buf ! i))"
proof (induction c arbitrary: buf)
  case (Exec ws)
  then show ?case by (simp add: fold_end_at)
qed (auto simp: end_at_nth)

lemma string_at_token:
  assumes "0 \<notin> set s" and "w \<in> set_cmd c" and good: "\<forall>w \<in> set_cmd c. good_token s w"
  shows "string_at s w (nulterminate s c (s @ [0])) = text_of w \<and> text_of w \<noteq> [] \<and> (\<forall>x \<in> set (text_of w). word_char x)"
proof -
  let ?b = "nulterminate s c (s @ [0])"
  from good assms(2) obtain pre mid post where w: "s = pre @ mid @ post" "w = (mid @ post, post)" "mid \<noteq> []"
    "\<forall>c \<in> set mid. word_char c" unfolding good_token_def by blast
  have t: "text_of w = mid" using w(2) by (simp add: text_of_def)
  note n = nulterminate_nth [of s c "s @ [0]", THEN conjunct2, rule_format]
  have len: "length ?b = length s + 1" using nulterminate_nth [of s c "s @ [0]"] by simp
  have in_word: "?b ! (length pre + i) = mid ! i" if i: "i < length mid" for i
  proof -
    let ?i = "length pre + i"
    have si: "(s @ [0]) ! ?i = mid ! i" using i w(1) by (simp add: nth_append)
    have "?i \<noteq> length s - length (snd v)" if "v \<in> set_cmd c" for v
    proof
      assume e: "?i = length s - length (snd v)"
      from good that obtain pre' mid' post' where v: "s = pre' @ mid' @ post'" "v = (mid' @ post', post')"
        "post' = [] \<or> \<not> word_char (hd post')" unfolding good_token_def by blast
      have lt: "?i < length s" using i w(1) by simp
      with e v have "post' \<noteq> []" by auto
      moreover have "s ! ?i = hd post'"
        using e v(1,2) \<open>post' \<noteq> []\<close> by (simp add: nth_append hd_conv_nth)
      moreover have "s ! ?i = mid ! i" using i w(1) by (simp add: nth_append)
      ultimately show False using v(3) w(4) nth_mem [OF i] by auto
    qed
    then show ?thesis using n [of ?i] si i w(1) by auto
  qed
  have at_end: "?b ! (length pre + length mid) = 0"
  proof -
    have "length pre + length mid = length s - length (snd w)" using w(1,2) by simp
    then show ?thesis using n [of "length pre + length mid"] assms(2) w(1) by auto
  qed
  have "drop (length pre) ?b = mid @ 0 # drop (length pre + length mid + 1) ?b"
  proof (rule nth_equalityI)
    show "length (drop (length pre) ?b) = length (mid @ 0 # drop (length pre + length mid + 1) ?b)"
      using len w(1) by simp
    fix j assume "j < length (drop (length pre) ?b)"
    then show "drop (length pre) ?b ! j = (mid @ 0 # drop (length pre + length mid + 1) ?b) ! j"
      using in_word [of j] at_end len w(1) by (auto simp: nth_append nth_Cons' not_less le_Suc_eq)
  qed
  moreover have "\<forall>c \<in> set mid. c \<noteq> 0" using assms(1) w(1) by auto
  moreover have "length s - length (fst w) = length pre" using w(1,2) by simp
  ultimately have "string_at s w ?b = mid" by (simp add: string_at_def takeWhile_append)
  with t w(3,4) show ?thesis by simp
qed

section \<open>Writing a command down\<close>

text \<open>A command with its words as strings, printed at the level of a line (0), of a command with its
  ampersands (1), of a pipeline (2) or of a simple command (3), in parentheses where it must be.\<close>

definition op_of :: "mode \<Rightarrow> u8 list" where
  "op_of m = (case m of O_READ \<Rightarrow> [60] | O_WRITE \<Rightarrow> [62] | O_APPEND \<Rightarrow> [62, 62])"

definition print_words :: "u8 list list \<Rightarrow> u8 list" where
  "print_words ws = concat (map (\<lambda>w. w @ [32]) ws)"

definition print_redirs :: "u8 list redir list \<Rightarrow> u8 list" where
  "print_redirs rs = concat (map (\<lambda>(f, m, fd). op_of m @ f @ [32]) rs)"

definition paren :: "bool \<Rightarrow> u8 list \<Rightarrow> u8 list" where
  "paren b s = (if b then [40] @ s @ [41] else s)"

primrec print_cmd :: "nat \<Rightarrow> u8 list cmd \<Rightarrow> u8 list" where
  "print_cmd l (Exec ws) = print_words ws"
| "print_cmd l (Redir c f m fd) = print_cmd 3 c @ print_redirs [(f, m, fd)]"
| "print_cmd l (Pipe a b) = paren (l > 2) (print_cmd 3 a @ [124] @ print_cmd 2 b)"
| "print_cmd l (Seq a b) = paren (l > 0) (print_cmd 1 a @ [59] @ print_cmd 0 b)"
| "print_cmd l (Back a) = paren (l > 1) (print_cmd 1 a @ [38])"

definition is_word :: "u8 list \<Rightarrow> bool" where
  "is_word w \<longleftrightarrow> w \<noteq> [] \<and> (\<forall>c \<in> set w. word_char c \<and> c \<noteq> 0)"

definition is_redir :: "u8 list redir \<Rightarrow> bool" where
  "is_redir r \<longleftrightarrow> (case r of (f, m, fd) \<Rightarrow> is_word f \<and> fd = (if m = O_READ then 0 else 1))"

primrec wf_cmd :: "u8 list cmd \<Rightarrow> bool" where
  "wf_cmd (Exec ws) \<longleftrightarrow> length ws < MAXARGS \<and> (\<forall>w \<in> set ws. is_word w)"
| "wf_cmd (Redir c f m fd) \<longleftrightarrow> wf_cmd c \<and> is_redir (f, m, fd)"
| "wf_cmd (Pipe a b) \<longleftrightarrow> wf_cmd a \<and> wf_cmd b"
| "wf_cmd (Seq a b) \<longleftrightarrow> wf_cmd a \<and> wf_cmd b"
| "wf_cmd (Back a) \<longleftrightarrow> wf_cmd a"

section \<open>Reading it back\<close>

lemma skip_ws_skip [simp]: "skip_ws (skip_ws s) = skip_ws s"
  by (simp add: skip_ws_def)

lemma peek_skip [simp]: "peek toks (skip_ws s) = peek toks s"
  by (simp add: peek_def)

lemma gettoken_skip [simp]: "gettoken (skip_ws s) = gettoken s"
  by (simp add: gettoken_def)

lemma parse_skip [simp]:
  "parseline n (skip_ws s) = parseline n s" "parsepipe n (skip_ws s) = parsepipe n s"
  "parseexec n (skip_ws s) = parseexec n s"
proof -
  show e: "parseexec n (skip_ws s) = parseexec n s" for n by (cases n) simp_all
  show p: "parsepipe n (skip_ws s) = parsepipe n s" for n by (cases n) (simp_all add: e)
  show "parseline n (skip_ws s) = parseline n s" by (cases n) (simp_all add: p)
qed

lemma parseredirs_skip [simp]: "parseredirs (skip_ws s) = parseredirs s"
  by (subst (1 2) parseredirs.simps) simp

lemma parse_backs_skip [simp]: "parse_backs c (skip_ws s) = parse_backs c s"
  by (subst (1 2) parse_backs.simps) simp

lemma parse_args_skip [simp]: "parse_args as rs (skip_ws s) = parse_args as rs s"
  by (subst (1 2) parse_args.simps) simp

text \<open>One symbol, one word.\<close>

lemma skip_ws_symbol: "c \<in> set symbols \<Longrightarrow> skip_ws (c # s) = c # s"
  by (auto simp: skip_ws_def whitespace_def set_symbols)

lemma skip_ws_space [simp]: "skip_ws (32 # s) = skip_ws s"
  by (simp add: skip_ws_def whitespace_def)

lemma peek_symbol: "c \<in> set symbols \<Longrightarrow> peek toks (c # s) \<longleftrightarrow> c \<in> set toks"
  by (auto simp: peek_def skip_ws_symbol char_at_def set_symbols)

lemma gettoken_symbol:
  "c \<in> {124, 40, 41, 59, 38, 60} \<Longrightarrow> gettoken (c # s) = (c, (c # s, s), skip_ws s)"
proof -
  assume c: "c \<in> {124, 40, 41, 59, 38, 60}"
  then have "skip_ws (c # s) = c # s" by (intro skip_ws_symbol) (auto simp: set_symbols)
  moreover have "scan_token (c # s) = (c, s)" using c by (auto simp: scan_token_def char_at_def)
  ultimately show ?thesis by (simp add: gettoken_def)
qed

lemma skip_ws_word: "is_word w \<Longrightarrow> skip_ws (w @ s) = w @ s"
  by (cases w) (auto simp: is_word_def word_char_def skip_ws_def)

lemma peek_word: "is_word w \<Longrightarrow> set toks \<subseteq> set symbols \<Longrightarrow> \<not> peek toks (w @ s)"
  using skip_ws_word [of w s] by (cases w) (auto simp: peek_def char_at_def is_word_def word_char_def)

lemma gettoken_word_text:
  assumes "is_word w"
  shows "\<exists>t. gettoken (w @ 32 # s) = (97, t, skip_ws s) \<and> text_of t = w"
proof -
  obtain c w' where w: "w = c # w'" using assms by (cases w) (auto simp: is_word_def)
  have "word_end (w @ 32 # s) = 32 # s"
    using assms unfolding word_end_def is_word_def word_char_def
    by (subst dropWhile_append2) (auto simp: whitespace_def)
  moreover have "c \<noteq> 0" "c \<notin> set symbols" using assms w by (auto simp: is_word_def word_char_def)
  then have "scan_token (w @ 32 # s) = (97, word_end (w @ 32 # s))"
    using w by (simp add: scan_token_def char_at_def set_symbols)
  ultimately show ?thesis using skip_ws_word [OF assms, of "32 # s"] by (simp add: gettoken_def text_of_def)
qed

text \<open>What may follow a simple command.\<close>

definition follows :: "u8 list \<Rightarrow> u8 list \<Rightarrow> bool" where
  "follows toks s \<longleftrightarrow> skip_ws s = [] \<or> char_at (skip_ws s) \<in> set toks"

lemma peek_follows: "follows toks s \<Longrightarrow> set toks \<inter> set toks' = {} \<Longrightarrow> \<not> peek toks' s"
  by (auto simp: follows_def peek_def char_at_def split: list.splits)

abbreviation texts_of :: "token redir list \<Rightarrow> u8 list redir list" where
  "texts_of rs \<equiv> map (\<lambda>(f, m, fd). (text_of f, m, fd)) rs"

lemma parseredirs_print:
  assumes "\<forall>r \<in> set rs. is_redir r" "\<not> peek [60, 62] s"
  shows "\<exists>rs'. parseredirs (print_redirs rs @ s) = Parsed rs' (skip_ws s) \<and> texts_of rs' = rs"
  using assms(1)
proof (induction rs)
  case Nil
  then show ?case using assms(2) by (simp add: parseredirs.simps [of s] print_redirs_def)
next
  case (Cons r rs)
  obtain f m fd where r: "r = (f, m, fd)" by (cases r)
  with Cons.prems have f: "is_word f" "fd = (if m = O_READ then 0 else 1)" by (auto simp: is_redir_def)
  let ?t = "print_redirs rs @ s"
  obtain w where w: "gettoken (f @ 32 # ?t) = (97, w, skip_ws ?t)" "text_of w = f"
    using gettoken_word_text [OF f(1)] by blast
  obtain rs' where IH: "parseredirs ?t = Parsed rs' (skip_ws s)" "texts_of rs' = rs" using Cons by auto
  define c where "c = (case m of O_READ \<Rightarrow> 60 | O_WRITE \<Rightarrow> 62 | O_APPEND \<Rightarrow> (43 :: u8))"
  have hf: "char_at (f @ 32 # ?t) \<noteq> 62"
    using f(1) by (cases f) (auto simp: char_at_def is_word_def word_char_def set_symbols)
  have "\<exists>q. gettoken (op_of m @ f @ 32 # ?t) = (c, q, f @ 32 # ?t)"
    using hf skip_ws_word [OF f(1), of "32 # ?t"]
    by (cases m) (simp_all add: c_def op_of_def gettoken_def scan_token_def skip_ws_symbol set_symbols char_at_def)
  then obtain q where q: "gettoken (op_of m @ f @ 32 # ?t) = (c, q, f @ 32 # ?t)" by blast
  have "peek [60, 62] (op_of m @ f @ 32 # ?t)"
    by (cases m) (simp_all add: op_of_def peek_symbol set_symbols)
  then have "parseredirs (op_of m @ f @ 32 # ?t) = Parsed ((w, m, fd) # rs') (skip_ws s)"
    using q w IH(1) f(2) by (subst parseredirs.simps) (cases m; simp add: c_def)
  moreover have "print_redirs (r # rs) @ s = op_of m @ f @ 32 # ?t" by (simp add: print_redirs_def r)
  ultimately show ?case using IH(2) w(2) r by auto
qed

lemma gettoken_end: "skip_ws s = [] \<Longrightarrow> gettoken s = (0, ([], []), [])"
proof -
  have "scan_token [] = (0, [])" "skip_ws [] = []" by (simp_all add: scan_token_def char_at_def skip_ws_def)
  then show "skip_ws s = [] \<Longrightarrow> gettoken s = (0, ([], []), [])" by (simp add: gettoken_def)
qed

lemma set_follow: "set (bytes ''|)&;'') = {124, 41, 38, 59}"
  by (simp add: bytes_def)

lemma parse_args_end:
  assumes "follows [124, 41, 38, 59] s"
  shows "parse_args as rs s = Parsed (wrap rs (Exec as)) (skip_ws s)"
proof (cases "peek (bytes ''|)&;'') s")
  case True
  then show ?thesis by (simp add: parse_args.simps [of as rs s])
next
  case False
  then have "skip_ws s = []"
    using assms unfolding follows_def peek_def set_follow by (auto simp: char_at_def split: list.splits)
  with gettoken_end [OF this] False show ?thesis by (simp add: parse_args.simps [of as rs s])
qed

lemma map_wrap: "map_cmd text_of (wrap rs c) = wrap (texts_of rs) (map_cmd text_of c)"
  by (induction rs arbitrary: c) (auto simp: wrap_def)

lemma parse_args_print:
  assumes "\<forall>w \<in> set ws. is_word w" "length as + length ws < MAXARGS" "\<forall>r \<in> set rs. is_redir r"
    "follows [124, 41, 38, 59] s" "ws \<noteq> []"
  shows "\<exists>c. parse_args as rs0 (print_words ws @ print_redirs rs @ s) = Parsed c (skip_ws s)
    \<and> map_cmd text_of c = wrap (texts_of rs0 @ rs) (Exec (map text_of as @ ws))"
  using assms(1,2,5)
proof (induction ws arbitrary: as rs0)
  case (Cons w ws)
  let ?t = "print_words ws @ print_redirs rs @ s"
  have w: "is_word w" using Cons.prems(1) by simp
  obtain tw where g: "gettoken (w @ 32 # ?t) = (97, tw, skip_ws ?t)" "text_of tw = w"
    using gettoken_word_text [OF w] by blast
  have p: "\<not> peek (bytes ''|)&;'') (w @ 32 # ?t)"
    by (rule peek_word [OF w]) (simp add: bytes_def set_symbols)
  have eq: "print_words (w # ws) @ print_redirs rs @ s = w @ 32 # ?t" by (simp add: print_words_def)
  have step: "parse_args as rs0 (w @ 32 # ?t)
      = pbind (parseredirs ?t) (\<lambda>rs' s. parse_args (as @ [tw]) (rs0 @ rs') s)"
    using p g Cons.prems(2) by (subst parse_args.simps) simp
  show ?case
  proof (cases "ws = []")
    case True
    have "\<not> peek [60, 62] s" by (rule peek_follows [OF assms(4)]) simp
    from parseredirs_print [OF assms(3) this] obtain rs' where r: "parseredirs ?t = Parsed rs' (skip_ws s)" "texts_of rs' = rs"
      using True by (auto simp: print_words_def)
    with step eq parse_args_end [OF assms(4), of "as @ [tw]" "rs0 @ rs'"] g(2) True show ?thesis
      by (simp add: map_wrap)
  next
    case False
    then obtain x xs where ws: "ws = x # xs" by (cases ws) auto
    have "\<not> peek [60, 62] ?t"
      using peek_word [of x "[60, 62]" "32 # print_words xs @ print_redirs rs @ s"] Cons.prems(1) ws
      by (simp add: print_words_def set_symbols)
    then have "parseredirs ?t = Parsed [] (skip_ws ?t)" by (simp add: parseredirs.simps [of ?t])
    with step eq Cons.IH [of "as @ [tw]" rs0] Cons.prems g(2) False show ?thesis by simp
  qed
qed simp

text \<open>More depth does not change a result.\<close>

lemma parse_more:
  "parseline n s = Parsed c t \<Longrightarrow> parseline (n + k) s = Parsed c t"
  "parsepipe n s = Parsed c t \<Longrightarrow> parsepipe (n + k) s = Parsed c t"
  "parseblock n s = Parsed c t \<Longrightarrow> parseblock (n + k) s = Parsed c t"
  "parseexec n s = Parsed c t \<Longrightarrow> parseexec (n + k) s = Parsed c t"
  by (induction k) (simp_all add: parse_mono del: parseline.simps parsepipe.simps parseblock.simps parseexec.simps)

section \<open>Each level is read back\<close>

definition reads3 :: "u8 list cmd \<Rightarrow> bool" where
  "reads3 c \<longleftrightarrow> (\<forall>rs s. (\<forall>r \<in> set rs. is_redir r) \<longrightarrow> follows [124, 41, 38, 59] s \<longrightarrow>
     (\<exists>n c'. parseexec n (print_cmd 3 c @ print_redirs rs @ s) = Parsed c' (skip_ws s)
       \<and> map_cmd text_of c' = wrap rs c))"

definition reads2 :: "u8 list cmd \<Rightarrow> bool" where
  "reads2 c \<longleftrightarrow> (\<forall>s. follows [41, 38, 59] s \<longrightarrow>
     (\<exists>n c'. parsepipe n (print_cmd 2 c @ s) = Parsed c' (skip_ws s) \<and> map_cmd text_of c' = c))"

definition reads1 :: "u8 list cmd \<Rightarrow> bool" where
  "reads1 c \<longleftrightarrow> (\<forall>k s. follows [41, 59] s \<longrightarrow>
     (\<exists>n c1 s1 c'. parsepipe n (print_cmd 1 c @ replicate k 38 @ s) = Parsed c1 s1
       \<and> parse_backs c1 s1 = (c', skip_ws s) \<and> map_cmd text_of c' = (Back ^^ k) c))"

definition reads0 :: "u8 list cmd \<Rightarrow> bool" where
  "reads0 c \<longleftrightarrow> (\<forall>s. follows [41] s \<longrightarrow>
     (\<exists>n c'. parseline n (print_cmd 0 c @ s) = Parsed c' (skip_ws s) \<and> map_cmd text_of c' = c))"

lemma follows_symbol: "c \<in> set toks \<Longrightarrow> c \<in> set symbols \<Longrightarrow> follows toks (c # s)"
  by (simp add: follows_def skip_ws_symbol char_at_def)

lemma follows_mono: "follows a s \<Longrightarrow> set a \<subseteq> set b \<Longrightarrow> follows b s"
  by (auto simp: follows_def)

lemma reads3_Exec:
  assumes "wf_cmd (Exec ws)"
  shows "reads3 (Exec ws)"
  unfolding reads3_def
proof (intro allI impI)
  fix rs s assume rs: "\<forall>r \<in> set rs. is_redir r" and s: "follows [124, 41, 38, 59] s"
  let ?t = "print_words ws @ print_redirs rs @ s"
  have ns: "\<not> peek [60, 62] s" "\<not> peek [40] s" using peek_follows [OF s] by auto
  show "\<exists>n c'. parseexec n (print_cmd 3 (Exec ws) @ print_redirs rs @ s) = Parsed c' (skip_ws s)
      \<and> map_cmd text_of c' = wrap rs (Exec ws)"
  proof (cases ws)
    case Nil
    have "\<not> peek [40] (print_redirs rs @ s)"
    proof (cases rs)
      case (Cons r rs')
      obtain f m fd where "r = (f, m, fd)" by (cases r)
      with Cons show ?thesis by (cases m) (simp_all add: print_redirs_def op_of_def peek_symbol set_symbols)
    qed (simp add: ns print_redirs_def)
    moreover obtain rs' where "parseredirs (print_redirs rs @ s) = Parsed rs' (skip_ws s)" "texts_of rs' = rs"
      using parseredirs_print [OF rs ns(1)] by blast
    ultimately have "parseexec 1 ?t = Parsed (wrap rs' (Exec [])) (skip_ws s)" "map_cmd text_of (wrap rs' (Exec [])) = wrap rs (Exec ws)"
      using parse_args_end [OF s, of "[]" rs'] Nil by (simp_all add: print_words_def map_wrap)
    then show ?thesis by (metis print_cmd.simps(1))
  next
    case (Cons w ws')
    have w: "is_word w" using assms Cons by simp
    have eq: "?t = w @ 32 # print_words ws' @ print_redirs rs @ s" using Cons by (simp add: print_words_def)
    have np: "\<not> peek [40] ?t" "\<not> peek [60, 62] ?t"
      unfolding eq by (rule peek_word [OF w], simp add: set_symbols)+
    have "parseredirs ?t = Parsed [] (skip_ws ?t)" using np by (simp add: parseredirs.simps [of ?t])
    then have "parseexec 1 ?t = parse_args [] [] ?t" using np by simp
    moreover have "\<exists>c. parse_args [] [] ?t = Parsed c (skip_ws s)
        \<and> map_cmd text_of c = wrap (texts_of [] @ rs) (Exec (map text_of [] @ ws))"
      by (rule parse_args_print) (use assms rs s Cons in simp_all)
    ultimately show ?thesis by (metis append_Nil list.map(1) print_cmd.simps(1))
  qed
qed

lemma wrap_Cons: "wrap ((f, m, fd) # rs) c = wrap rs (Redir c f m fd)"
  by (simp add: wrap_def)

lemma reads3_Redir:
  assumes "wf_cmd (Redir c f m fd)" "reads3 c"
  shows "reads3 (Redir c f m fd)"
  unfolding reads3_def
proof (intro allI impI)
  fix rs s assume rs: "\<forall>r \<in> set rs. is_redir r" and s: "follows [124, 41, 38, 59] s"
  have "\<forall>r \<in> set ((f, m, fd) # rs). is_redir r" using assms(1) rs by simp
  with assms(2) s have "\<exists>n c'. parseexec n (print_cmd 3 c @ print_redirs ((f, m, fd) # rs) @ s) = Parsed c' (skip_ws s)
      \<and> map_cmd text_of c' = wrap ((f, m, fd) # rs) c" unfolding reads3_def by blast
  then show "\<exists>n c'. parseexec n (print_cmd 3 (Redir c f m fd) @ print_redirs rs @ s) = Parsed c' (skip_ws s)
      \<and> map_cmd text_of c' = wrap rs (Redir c f m fd)"
    by (simp add: wrap_Cons print_redirs_def)
qed


declare parseline.simps(2) [simp del] parsepipe.simps(2) [simp del] parseblock.simps(2) [simp del]
  parseexec.simps(2) [simp del]

lemma reads3_parens:
  assumes "print_cmd 3 c = [40] @ print_cmd 0 c @ [41]" "reads0 c"
  shows "reads3 c"
  unfolding reads3_def
proof (intro allI impI)
  fix rs s assume rs: "\<forall>r \<in> set rs. is_redir r" and s: "follows [124, 41, 38, 59] s"
  let ?r = "print_redirs rs @ s" and ?i = "print_cmd 0 c"
  have "follows [41] (41 # ?r)" by (simp add: follows_symbol set_symbols)
  with assms(2) obtain n c' where l: "parseline n (?i @ 41 # ?r) = Parsed c' (skip_ws (41 # ?r))" "map_cmd text_of c' = c"
    unfolding reads0_def by blast
  have "\<not> peek [60, 62] s" by (rule peek_follows [OF s]) simp
  with rs obtain rs' where r: "parseredirs ?r = Parsed rs' (skip_ws s)" "texts_of rs' = rs"
    using parseredirs_print by blast
  have "parseblock (Suc n) (40 # ?i @ 41 # ?r) = Parsed (wrap rs' c') (skip_ws s)"
    using l(1) r(1) by (simp add: parseblock.simps(2) peek_symbol gettoken_symbol skip_ws_symbol set_symbols)
  then have "parseexec (Suc (Suc n)) (40 # ?i @ 41 # ?r) = Parsed (wrap rs' c') (skip_ws s)"
    by (simp add: parseexec.simps(2) peek_symbol skip_ws_symbol set_symbols)
  moreover have "map_cmd text_of (wrap rs' c') = wrap rs c" using map_wrap [of rs' c'] unfolding r(2) l(2) .
  ultimately show "\<exists>n c'. parseexec n (print_cmd 3 c @ ?r) = Parsed c' (skip_ws s)
      \<and> map_cmd text_of c' = wrap rs c"
    unfolding assms(1) by (intro exI conjI) simp_all
qed

lemma reads2_reads3:
  assumes "print_cmd 2 c = print_cmd 3 c" "reads3 c"
  shows "reads2 c"
  unfolding reads2_def
proof (intro allI impI)
  fix s assume s: "follows [41, 38, 59] s"
  have "follows [124, 41, 38, 59] s" by (rule follows_mono [OF s]) auto
  with assms(2) [unfolded reads3_def, rule_format, of "[]" s] obtain n c' where
    e: "parseexec n (print_cmd 3 c @ s) = Parsed c' (skip_ws s)" "map_cmd text_of c' = c"
    by (auto simp: print_redirs_def wrap_def)
  have "\<not> peek [124] s" by (rule peek_follows [OF s]) simp
  with e(1) have "parsepipe (Suc n) (print_cmd 2 c @ s) = Parsed c' (skip_ws s)"
    by (simp add: parsepipe.simps(2) assms(1))
  with e(2) show "\<exists>n c'. parsepipe n (print_cmd 2 c @ s) = Parsed c' (skip_ws s) \<and> map_cmd text_of c' = c"
    by blast
qed

lemma reads2_Pipe:
  assumes "reads3 a" "reads2 b"
  shows "reads2 (Pipe a b)"
  unfolding reads2_def
proof (intro allI impI)
  fix s assume s: "follows [41, 38, 59] s"
  let ?t = "124 # print_cmd 2 b @ s"
  have "follows [124, 41, 38, 59] ?t" by (simp add: follows_symbol set_symbols)
  with assms(1) [unfolded reads3_def, rule_format, of "[]" ?t] obtain n a' where
    a: "parseexec n (print_cmd 3 a @ ?t) = Parsed a' (skip_ws ?t)" "map_cmd text_of a' = a"
    by (auto simp: print_redirs_def wrap_def)
  from assms(2) s obtain m b' where
    b: "parsepipe m (print_cmd 2 b @ s) = Parsed b' (skip_ws s)" "map_cmd text_of b' = b"
    unfolding reads2_def by blast
  have "parsepipe (Suc (n + m)) (print_cmd 3 a @ ?t) = Parsed (Pipe a' b') (skip_ws s)"
    using parse_more(4) [OF a(1), of m] parse_more(2) [OF b(1), of n]
    by (simp add: parsepipe.simps(2) peek_symbol gettoken_symbol skip_ws_symbol set_symbols add.commute)
  with a(2) b(2) show "\<exists>n c'. parsepipe n (print_cmd 2 (Pipe a b) @ s) = Parsed c' (skip_ws s)
      \<and> map_cmd text_of c' = Pipe a b"
    by (intro exI [of _ "Suc (n + m)"] exI [of _ "Pipe a' b'"]) (simp add: paren_def)
qed

lemma parse_backs_replicate:
  assumes "follows [41, 59] s"
  shows "parse_backs c (replicate k 38 @ s) = ((Back ^^ k) c, skip_ws s)"
proof (induction k arbitrary: c)
  case 0
  have "\<not> peek [38] s" by (rule peek_follows [OF assms]) simp
  then show ?case by (simp add: parse_backs.simps [of c s])
next
  case (Suc k)
  then show ?case
    using parse_backs.simps [of c "38 # replicate k 38 @ s"]
    by (simp add: peek_symbol gettoken_symbol set_symbols funpow_swap1)
qed

lemma map_backs: "map_cmd f ((Back ^^ k) c) = (Back ^^ k) (map_cmd f c)"
  by (induction k) simp_all

lemma reads1_reads2:
  assumes "print_cmd 1 c = print_cmd 2 c" "reads2 c"
  shows "reads1 c"
  unfolding reads1_def
proof (intro allI impI)
  fix k s assume s: "follows [41, 59] s"
  let ?t = "replicate k 38 @ s"
  have "follows [41, 38, 59] ?t"
    using follows_mono [OF s, of "[41, 38, 59]"] by (cases k) (auto simp: follows_symbol set_symbols)
  with assms(2) obtain n c' where c: "parsepipe n (print_cmd 2 c @ ?t) = Parsed c' (skip_ws ?t)" "map_cmd text_of c' = c"
    unfolding reads2_def by blast
  have "parse_backs c' (skip_ws ?t) = ((Back ^^ k) c', skip_ws s)"
    using parse_backs_replicate [OF s, of c' k] by simp
  moreover have "map_cmd text_of ((Back ^^ k) c') = (Back ^^ k) c" by (simp add: map_backs c(2))
  ultimately show "\<exists>n c1 s1 c'. parsepipe n (print_cmd 1 c @ ?t) = Parsed c1 s1
      \<and> parse_backs c1 s1 = (c', skip_ws s) \<and> map_cmd text_of c' = (Back ^^ k) c"
    using c(1) unfolding assms(1) by blast
qed

lemma reads1_Back:
  assumes "reads1 a"
  shows "reads1 (Back a)"
  unfolding reads1_def
proof (intro allI impI)
  fix k s assume "follows [41, 59] s"
  with assms [unfolded reads1_def, rule_format, of s "Suc k"]
  show "\<exists>n c1 s1 c'. parsepipe n (print_cmd 1 (Back a) @ replicate k 38 @ s) = Parsed c1 s1
      \<and> parse_backs c1 s1 = (c', skip_ws s) \<and> map_cmd text_of c' = (Back ^^ k) (Back a)"
    by (simp add: paren_def funpow_swap1)
qed

lemma reads0_reads1:
  assumes "print_cmd 0 c = print_cmd 1 c" "reads1 c"
  shows "reads0 c"
  unfolding reads0_def
proof (intro allI impI)
  fix s assume s: "follows [41] s"
  have "follows [41, 59] s" by (rule follows_mono [OF s]) auto
  with assms(2) [unfolded reads1_def, rule_format, of s 0] obtain n c1 s1 c' where
    c: "parsepipe n (print_cmd 1 c @ s) = Parsed c1 s1" "parse_backs c1 s1 = (c', skip_ws s)" "map_cmd text_of c' = c"
    by auto
  have "\<not> peek [59] s" by (rule peek_follows [OF s]) simp
  with c(1,2) have "parseline (Suc n) (print_cmd 0 c @ s) = Parsed c' (skip_ws s)"
    by (simp add: parseline.simps(2) assms(1))
  with c(3) show "\<exists>n c'. parseline n (print_cmd 0 c @ s) = Parsed c' (skip_ws s) \<and> map_cmd text_of c' = c"
    by blast
qed

lemma reads0_Seq:
  assumes "reads1 a" "reads0 b"
  shows "reads0 (Seq a b)"
  unfolding reads0_def
proof (intro allI impI)
  fix s assume s: "follows [41] s"
  let ?t = "59 # print_cmd 0 b @ s"
  have "follows [41, 59] ?t" by (simp add: follows_symbol set_symbols)
  with assms(1) [unfolded reads1_def, rule_format, of ?t 0] obtain n c1 s1 a' where
    a: "parsepipe n (print_cmd 1 a @ ?t) = Parsed c1 s1" "parse_backs c1 s1 = (a', skip_ws ?t)" "map_cmd text_of a' = a"
    by auto
  from assms(2) s obtain m b' where
    b: "parseline m (print_cmd 0 b @ s) = Parsed b' (skip_ws s)" "map_cmd text_of b' = b"
    unfolding reads0_def by blast
  have "parseline (Suc (n + m)) (print_cmd 1 a @ ?t) = Parsed (Seq a' b') (skip_ws s)"
    using parse_more(2) [OF a(1), of m] parse_more(1) [OF b(1), of n] a(2)
    by (simp add: parseline.simps(2) peek_symbol gettoken_symbol skip_ws_symbol set_symbols add.commute)
  with a(3) b(2) show "\<exists>n c'. parseline n (print_cmd 0 (Seq a b) @ s) = Parsed c' (skip_ws s)
      \<and> map_cmd text_of c' = Seq a b"
    by (intro exI [of _ "Suc (n + m)"] exI [of _ "Seq a' b'"]) (simp add: paren_def)
qed

lemma reads_all:
  "wf_cmd c \<Longrightarrow> reads0 c \<and> reads1 c \<and> reads2 c \<and> reads3 c"
proof (induction c)
  case (Exec ws)
  then show ?case by (simp add: reads3_Exec reads2_reads3 reads1_reads2 reads0_reads1)
next
  case (Redir c f m fd)
  then show ?case by (simp add: reads3_Redir reads2_reads3 reads1_reads2 reads0_reads1)
next
  case (Pipe a b)
  then have "reads2 (Pipe a b)" by (simp add: reads2_Pipe)
  moreover from this have "reads1 (Pipe a b)" by (rule reads1_reads2 [rotated]) (simp add: paren_def)
  moreover from this have "reads0 (Pipe a b)" by (rule reads0_reads1 [rotated]) (simp add: paren_def)
  moreover from this have "reads3 (Pipe a b)" by (rule reads3_parens [rotated]) (simp add: paren_def)
  ultimately show ?case by blast
next
  case (Seq a b)
  then have "reads0 (Seq a b)" by (simp add: reads0_Seq)
  moreover from this have "reads3 (Seq a b)" by (rule reads3_parens [rotated]) (simp add: paren_def)
  moreover from this have "reads2 (Seq a b)" by (rule reads2_reads3 [rotated]) (simp add: paren_def)
  moreover from this have "reads1 (Seq a b)" by (rule reads1_reads2 [rotated]) (simp add: paren_def)
  ultimately show ?case by blast
next
  case (Back a)
  then have "reads1 (Back a)" by (simp add: reads1_Back)
  moreover from this have "reads0 (Back a)" by (rule reads0_reads1 [rotated]) (simp add: paren_def)
  moreover from this have "reads3 (Back a)" by (rule reads3_parens [rotated]) (simp add: paren_def)
  moreover from this have "reads2 (Back a)" by (rule reads2_reads3 [rotated]) (simp add: paren_def)
  ultimately show ?case by blast
qed

lemma parse_fuel_enough:
  assumes "parseline n s = Parsed c t"
  shows "parseline (parse_fuel s) s = Parsed c t"
proof -
  have "parseline (parse_fuel s) s \<noteq> NoFuel" by (rule parse_total(1)) (simp add: parse_fuel_def)
  then have "parseline (parse_fuel s + n) s = parseline (parse_fuel s) s"
    by (induction n) (simp_all add: parse_mono)
  with parse_more(1) [OF assms, of "parse_fuel s"] show ?thesis by (simp add: add.commute)
qed

text \<open>
  C25: every command whose words are non-empty and free of blanks and operators, with at most nine words
  in a simple command, has a line the shell reads as exactly that command: written with pipes binding
  tighter than ampersands and these tighter than semicolons, and in parentheses where a looser command
  stands inside a tighter one.
\<close>

theorem sh_roundtrip:
  assumes "wf_cmd c"
  shows "\<exists>c'. parsecmd (print_cmd 0 c) = Parsed c' [] \<and> map_cmd text_of c' = c"
proof -
  have e: "skip_ws [] = []" by (simp add: skip_ws_def)
  from reads_all [OF assms] have "reads0 c" by blast
  moreover have "follows [41] []" by (simp add: follows_def e)
  ultimately obtain n c' where c: "parseline n (print_cmd 0 c) = Parsed c' []" "map_cmd text_of c' = c"
    unfolding reads0_def using e by (metis append_Nil2)
  from parse_fuel_enough [OF c(1)] c(2) show ?thesis by (simp add: parsecmd_def e)
qed

lemma sh_roundtrip_witness:
  "\<exists>c'. parsecmd (print_cmd 0 (Pipe (Seq (Exec [[97]]) (Back (Redir (Exec [[98], [99]]) [102] O_APPEND 1))) (Exec [[100]])))
     = Parsed c' [] \<and> map_cmd text_of c'
     = Pipe (Seq (Exec [[97]]) (Back (Redir (Exec [[98], [99]]) [102] O_APPEND 1))) (Exec [[100]])"
  by (rule sh_roundtrip) (simp add: is_word_def is_redir_def word_char_def whitespace_def set_symbols)

text \<open>
  C26: every word and file name of a parsed command, cut by the NULs \<open>nulterminate\<close> writes into the line,
  reads as its token: a non-empty run of word characters, none of which another word's NUL falls into.
\<close>

theorem sh_words:
  assumes "0 \<notin> set s" "parsecmd s = Parsed c t" "w \<in> set_cmd c"
  shows "string_at s w (nulterminate s c (s @ [0])) = text_of w \<and> text_of w \<noteq> []
    \<and> (\<forall>x \<in> set (text_of w). word_char x)"
proof -
  from assms(2) obtain u where "parseline (parse_fuel s) s = Parsed c u"
    by (auto simp: parsecmd_def pbind_Parsed split: if_splits)
  from parse_tokens(1) [OF this] have "\<forall>w \<in> set_cmd c. good_token s w" by blast
  with assms(1,3) show ?thesis by (rule string_at_token)
qed

lemma sh_words_witness:
  "let s = bytes ''ls>f''; c = Redir (Exec [(s, bytes ''>f'')]) (bytes ''f'', []) O_WRITE 1; w = (s, bytes ''>f'') in
     parsecmd s = Parsed c [] \<and> string_at s w (nulterminate s c (s @ [0])) = text_of w \<and> text_of w \<noteq> []
       \<and> (\<forall>x \<in> set (text_of w). word_char x)"
proof -
  let ?s = "[108, 115, 62, 102] :: u8 list"
  let ?c = "Redir (Exec [(?s, [62, 102])]) ([102], []) O_WRITE 1"
  have p: "parsecmd ?s = Parsed ?c []" by code_simp
  have "(?s, [62, 102]) \<in> set_cmd ?c" by simp
  from sh_words [OF _ p this] p show ?thesis by (simp add: Let_def bytes_def)
qed

text \<open>
  C27: the parser comes to an end on every line, with a command or a syntax error: the depth of its
  recursion is at most four calls per byte.
\<close>

theorem sh_parser_ends: "parsecmd s \<noteq> NoFuel"
proof -
  have "parseline (parse_fuel s) s \<noteq> NoFuel" by (rule parse_total(1)) (simp add: parse_fuel_def)
  then show ?thesis by (auto simp: parsecmd_def pbind_NoFuel)
qed

end
