(* ===== verification/ShRunFacts.thy ===== *)
theory ShRunFacts
  imports ShRun ShFacts
begin

text \<open>
  The processes of a command on a table of descriptors: which programs are started, and with which
  files, pipes and arguments.
\<close>

section \<open>Descriptors\<close>

text \<open>
  What the kernel promises here: a new descriptor is the lowest free one of the 15 (\<open>ufalloc\<close>), a child
  starts with its parent's descriptors, \<open>exec\<close> keeps them.  All calls succeed that find a descriptor.
  Pipes are numbered in the order they are made.
\<close>

datatype 'o target = Given 'o | Opened "u8 list" mode | RdEnd nat | WrEnd nat

type_synonym 'o fds = "int \<Rightarrow> 'o target option"
type_synonym 'o started = "(u8 list \<times> u8 list list \<times> 'o fds) list"

definition lowest :: "'o fds \<Rightarrow> int" where
  "lowest t = (case find (\<lambda>i. t (int i) = None) [0..<15] of None \<Rightarrow> -1 | Some i \<Rightarrow> int i)"

text \<open>All programs a process and its children start, each with its descriptors.\<close>

primrec launch :: "proc_tree \<Rightarrow> 'o fds \<Rightarrow> nat \<Rightarrow> 'o started \<times> nat" where
  "launch P_exit t n = ([], n)"
| "launch (P_print m x k) t n = launch k t n"
| "launch (P_exec p ws k) t n = ([(p, ws, t)], n)"
| "launch (P_close fd k) t n = launch k (t(fd := None)) n"
| "launch (P_open f m k) t n =
     (let i = lowest t in launch (k i) (if i < 0 then t else t(i := Some (Opened f m))) n)"
| "launch (P_seek_end fd k) t n = launch k t n"
| "launch (P_pipe k) t n =
     (let r = lowest t; t' = t(r := Some (RdEnd n)); w = lowest t'
      in if r < 0 \<or> w < 0 then launch (k None) t n
         else launch (k (Some (r, w))) (t'(w := Some (WrEnd n))) (n + 1))"
| "launch (P_dup fd k) t n = (let i = lowest t in launch k (if i < 0 then t else t(i := t fd)) n)"
| "launch (P_fork k) t n =
     (case launch (k 0) t n of (a, n) \<Rightarrow> case launch (k 1) t n of (b, n) \<Rightarrow> (a @ b, n))"
| "launch (P_wait k) t n = launch k t n"

text \<open>
  What the command means: a redirection replaces one descriptor of the command, a pipe replaces the
  output of its left side and the input of its right side, and everything else is inherited.
\<close>

primrec plumb :: "u8 list cmd \<Rightarrow> 'o fds \<Rightarrow> nat \<Rightarrow> 'o started \<times> nat" where
  "plumb (Exec ws) t n = ((case ws of [] \<Rightarrow> [] | w # _ \<Rightarrow> [(command_path w, ws, t)]), n)"
| "plumb (Redir c f m fd) t n = plumb c (t(fd := Some (Opened f m))) n"
| "plumb (Seq a b) t n = (case plumb a t n of (x, n) \<Rightarrow> case plumb b t n of (y, n) \<Rightarrow> (x @ y, n))"
| "plumb (Pipe a b) t n =
     (case plumb a (t(1 := Some (WrEnd n))) (n + 1) of (x, m) \<Rightarrow>
        case plumb b (t(0 := Some (RdEnd n))) m of (y, m) \<Rightarrow> (x @ y, m))"
| "plumb (Back c) t n = plumb c t n"

primrec std_redirs :: "'w cmd \<Rightarrow> bool" where
  "std_redirs (Exec ws) \<longleftrightarrow> True"
| "std_redirs (Redir c f m fd) \<longleftrightarrow> std_redirs c \<and> fd = (if m = O_READ then 0 else 1)"
| "std_redirs (Pipe a b) \<longleftrightarrow> std_redirs a \<and> std_redirs b"
| "std_redirs (Seq a b) \<longleftrightarrow> std_redirs a \<and> std_redirs b"
| "std_redirs (Back a) \<longleftrightarrow> std_redirs a"

definition sh_ready :: "'o fds \<Rightarrow> bool" where
  "sh_ready t \<longleftrightarrow> t 0 \<noteq> None \<and> t 1 \<noteq> None \<and>
     (\<exists>i j. i < j \<and> j < 15 \<and> t (int i) = None \<and> t (int j) = None)"

lemma lowest_0: "t 0 = None \<Longrightarrow> lowest t = 0"
  by (simp add: lowest_def upt_rec)

lemma lowest_1: "t 0 \<noteq> None \<Longrightarrow> t 1 = None \<Longrightarrow> lowest t = 1"
  by (simp add: lowest_def upt_rec)

lemma lowest_free:
  assumes "t (int i) = None" "i < 15"
  shows "0 \<le> lowest t \<and> lowest t \<le> int i \<and> t (lowest t) = None"
proof (cases "find (\<lambda>i. t (int i) = None) [0..<15]")
  case None
  then show ?thesis using assms by (auto simp: find_None_iff)
next
  case (Some k)
  then have k: "k < 15" "t (int k) = None" "\<forall>j < k. t (int j) \<noteq> None" by (auto simp: find_Some_iff)
  then have "k \<le> i" using assms(1) by (meson not_less)
  with Some k show ?thesis by (simp add: lowest_def)
qed

text \<open>A pipe gets two descriptors above the standard ones.\<close>

lemma lowest_pipe:
  assumes "sh_ready t"
  shows "\<exists>r w. lowest t = r \<and> lowest (t(r := Some x)) = w \<and> 1 < r \<and> 1 < w \<and> r \<noteq> w \<and> t r = None \<and> t w = None"
proof -
  from assms obtain i j where t: "t 0 \<noteq> None" "t 1 \<noteq> None" "i < j" "j < 15" "t (int i) = None" "t (int j) = None"
    unfolding sh_ready_def by blast
  let ?r = "lowest t" and ?t = "t(lowest t := Some x)"
  have r: "0 \<le> ?r" "?r \<le> int i" "t ?r = None" using lowest_free [of t i] t(3-5) by auto
  have "?t (int j) = None" using r(2) t(3,6) by auto
  from lowest_free [of ?t j, OF this t(4)] have w: "0 \<le> lowest ?t" "?t (lowest ?t) = None" by auto
  then have "lowest ?t \<noteq> ?r" "t (lowest ?t) = None" by (auto split: if_splits)
  moreover have gt: "1 < v" if "0 \<le> v" "t v = None" for v :: int
    using that t(1,2) by (cases "v = 0"; cases "v = 1") auto
  ultimately show ?thesis using r(1,3) w(1) gt [of ?r] gt [of "lowest ?t"]
    by (intro exI [of _ ?r] exI [of _ "lowest ?t"] conjI refl) simp_all
qed

lemma ready_upd:
  assumes "sh_ready t" "d = 0 \<or> d = 1"
  shows "sh_ready (t(d := Some x))"
proof -
  from assms(1) obtain i j where t: "t 0 \<noteq> None" "t 1 \<noteq> None" "i < j" "j < 15" "t (int i) = None" "t (int j) = None"
    unfolding sh_ready_def by blast
  with assms(2) have "int i \<noteq> d" "int j \<noteq> d" by auto
  with t(5,6) have "(t(d := Some x)) (int i) = None" "(t(d := Some x)) (int j) = None" by auto
  moreover have "(t(d := Some x)) 0 \<noteq> None" "(t(d := Some x)) 1 \<noteq> None" using t(1,2) by auto
  ultimately show ?thesis using t(3,4) unfolding sh_ready_def by blast
qed

lemma launch_fork1: "launch (fork1 a b) t n = (case launch a t n of (x, n) \<Rightarrow> case launch b t n of (y, n) \<Rightarrow> (x @ y, n))"
  by (simp add: fork1_def)

text \<open>
  C33: the shell connects the programs of a command as it is written: started with standard input and
  output open and two free descriptors, \<open>runcmd\<close> starts exactly the simple commands, in order, each with
  the redirected files and pipe ends in place of descriptors 0 and 1 and all other descriptors as they
  were, so that no program is left holding another end of a pipe.
\<close>

theorem sh_plumbing:
  assumes "std_redirs c" "sh_ready t"
  shows "launch (runcmd c) t n = plumb c t n"
  using assms
proof (induction c arbitrary: t n)
  case (Exec ws)
  then show ?case by (cases ws) simp_all
next
  case (Redir c f m fd)
  have fd: "fd = (if m = O_READ then 0 else 1)" "std_redirs c" using Redir.prems by auto
  have "lowest (t(fd := None)) = fd"
    using fd(1) Redir.prems(2) by (auto simp: sh_ready_def intro: lowest_0 lowest_1)
  moreover have "sh_ready (t(fd := Some (Opened f m)))" by (rule ready_upd [OF Redir.prems(2)]) (simp add: fd(1))
  then have "launch (runcmd c) (t(fd := Some (Opened f m))) n = plumb c (t(fd := Some (Opened f m))) n"
    by (rule Redir.IH [OF fd(2)])
  ultimately show ?case using fd(1) by (auto simp: Let_def)
next
  case (Pipe a b)
  obtain r w where p: "lowest t = r" "lowest (t(r := Some (RdEnd n))) = w" "1 < r" "1 < w" "r \<noteq> w" "t r = None" "t w = None"
    using lowest_pipe [OF Pipe.prems(2)] by blast
  let ?t = "t(r := Some (RdEnd n), w := Some (WrEnd n))"
  have t: "t 0 \<noteq> None" "t 1 \<noteq> None" using Pipe.prems(2) by (auto simp: sh_ready_def)
  have l1: "lowest (?t(1 := None)) = 1" by (rule lowest_1) (use p t in auto)
  have l0: "lowest (?t(0 := None)) = 0" by (rule lowest_0) (use p in auto)
  have e1: "?t(1 := Some (WrEnd n), r := None, w := None) = t(1 := Some (WrEnd n))" using p by auto
  have e0: "?t(0 := Some (RdEnd n), r := None, w := None) = t(0 := Some (RdEnd n))" using p by auto
  have a: "launch (runcmd a) (t(1 := Some (WrEnd n))) m = plumb a (t(1 := Some (WrEnd n))) m" for m
    by (rule Pipe.IH(1)) (use Pipe.prems in \<open>auto simp del: fun_upd_apply intro: ready_upd\<close>)
  have b: "launch (runcmd b) (t(0 := Some (RdEnd n))) m = plumb b (t(0 := Some (RdEnd n))) m" for m
    by (rule Pipe.IH(2)) (use Pipe.prems in \<open>auto simp del: fun_upd_apply intro: ready_upd\<close>)
  have c1: "launch (P_close 1 (P_dup w (P_close r (P_close w (runcmd a))))) ?t m = plumb a (t(1 := Some (WrEnd n))) m" for m
    using p l1 e1 a [of m] by (simp add: Let_def del: fun_upd_apply) (simp add: fun_upd_def)
  have c0: "launch (P_close 0 (P_dup r (P_close r (P_close w (runcmd b))))) ?t m = plumb b (t(0 := Some (RdEnd n))) m" for m
    using p l0 e0 b [of m] by (simp add: Let_def del: fun_upd_apply) (simp add: fun_upd_def)
  show ?case
    using p c1 c0 by (simp add: Let_def launch_fork1 split: prod.split)
next
  case (Seq a b)
  then show ?case by (simp add: launch_fork1 split: prod.split)
next
  case (Back c)
  then show ?case by (simp add: launch_fork1 split: prod.split)
qed

lemma sh_plumbing_witness:
  "let t = (\<lambda>d. if d \<in> {0, 1, 2} then Some (Given d) else None) in
   fst (launch (runcmd (Pipe (Exec [bytes ''ls'']) (Redir (Exec [bytes ''wc'']) (bytes ''f'') O_WRITE 1))) t 0)
   = [(bytes ''/bin/ls'', [bytes ''ls''], t(1 := Some (WrEnd 0))),
      (bytes ''/bin/wc'', [bytes ''wc''], t(0 := Some (RdEnd 0), 1 := Some (Opened (bytes ''f'') O_WRITE)))]"
proof -
  let ?t = "\<lambda>d :: int. if d \<in> {0, 1, 2} then Some (Given d) else None"
  have "sh_ready ?t" unfolding sh_ready_def by (intro conjI exI [of _ 3] exI [of _ 4]) auto
  from sh_plumbing [OF _ this, of "Pipe (Exec [bytes ''ls'']) (Redir (Exec [bytes ''wc'']) (bytes ''f'') O_WRITE 1)" 0]
  show ?thesis by (simp add: Let_def command_path_def char_at_def bytes_def del: runcmd.simps launch.simps fun_upd_apply)
qed

end
