(* ===== verification/Mkfs.thy ===== *)
theory Mkfs
  imports UserLib KState
begin

text \<open>
  The file system builder (\<open>usr/mkfs.c\<close>, the same code as \<open>tools/mkfs.c\<close> with 16-bit integers): it
  reads a description from a prototype file and writes the image block by block.  The files it copies
  are a function \<open>cont\<close> from names to contents.  \<open>ldiv\<close> and \<open>lrem\<close> are the signed division and remainder, as in
  \<open>dmr/pc.c\<close>.  A step that indexes outside an array, and a read of the prototype past its end, where
  \<open>getchar\<close> returns an uninitialised byte, have the outcome \<open>Undef\<close>.
\<close>

section \<open>State\<close>

record minode =
  n_number :: u16
  n_mode :: u16
  n_nlink :: u8
  n_uid :: u8
  n_gid :: u8
  n_size0 :: u8
  n_size1 :: u16
  n_addr :: "nat \<Rightarrow> u16"

text \<open>
  The image has \<open>img_len\<close> blocks so far, holes read as zero, and the medium has room for \<open>img_room\<close>.
  \<open>inp\<close> is what is left of the prototype or, with its NUL, of the built-in one.
  \<open>tok\<close> is \<open>string\<close>, \<open>mbuf\<close> is \<open>buf\<close>, and the \<open>f_\<close> fields are those of \<open>filsys\<close>.
\<close>

record mkst =
  img :: "u16 \<Rightarrow> block"
  img_len :: nat
  img_room :: nat
  f_isize :: u16
  f_fsize :: u16
  f_nfree :: u16
  f_free :: "nat \<Rightarrow> u16"
  mbuf :: block
  mswap :: u16
  f_n :: nat
  f_m :: nat
  inp :: "u8 list"
  tok :: "u8 list"
  mino :: u16

datatype 'a out = Val 'a mkst | Exit string | Undef | Deep

fun obind :: "'a out \<Rightarrow> ('a \<Rightarrow> mkst \<Rightarrow> 'b out) \<Rightarrow> 'b out" where
  "obind (Val x s) f = f x s"
| "obind (Exit m) f = Exit m"
| "obind Undef f = Undef"
| "obind Deep f = Deep"

lemma obind_cong [fundef_cong]:
  "x = y \<Longrightarrow> (\<And>a s. y = Val a s \<Longrightarrow> f a s = g a s) \<Longrightarrow> obind x f = obind y g"
  by (cases y) auto

lemma obind_Val: "obind x f = Val b t \<longleftrightarrow> (\<exists>a s. x = Val a s \<and> f a s = Val b t)"
  by (cases x) auto

lemma obind_Deep: "obind x f = Deep \<longleftrightarrow> x = Deep \<or> (\<exists>a s. x = Val a s \<and> f a s = Deep)"
  by (cases x) auto

definition mk_IALLOC :: u16 where "mk_IALLOC = 0x8000"
definition mk_IFMT :: u16 where "mk_IFMT = 0x6000"
definition mk_IFDIR :: u16 where "mk_IFDIR = 0x4000"
definition mk_IFCHR :: u16 where "mk_IFCHR = 0x2000"
definition mk_IFBLK :: u16 where "mk_IFBLK = 0x6000"
definition mk_ILARG :: u16 where "mk_ILARG = 0x1000"
definition mk_ISUID :: u16 where "mk_ISUID = 0x800"
definition mk_ISGID :: u16 where "mk_ISGID = 0x400"

section \<open>Blocks\<close>

definition rdfs :: "u16 \<Rightarrow> mkst \<Rightarrow> block out" where
  "rdfs bno s = (if unat bno < img_len s then Val (img s bno) s else Exit ''read error'')"

definition wtfs :: "u16 \<Rightarrow> block \<Rightarrow> mkst \<Rightarrow> unit out" where
  "wtfs bno bf s =
     (if unat bno < img_room s
      then Val () (s\<lparr>img := (img s)(bno := bf), img_len := max (img_len s) (unat bno + 1)\<rparr>)
      else Exit ''write error'')"

definition mk_alloc :: "mkst \<Rightarrow> u16 out" where
  "mk_alloc s =
     (let n = f_nfree s - 1; bno = f_free s (unat n)
      in if unat n \<ge> 100 then Undef
         else
           let s = s\<lparr>f_nfree := n, f_free := (f_free s)(unat n := 0)\<rparr>
           in if bno = 0 then Exit ''out of free space''
              else if sle16 n 0 then
                obind (rdfs bno s) (\<lambda>b s.
                  Val bno (s\<lparr>mbuf := b, f_nfree := b 0,
                    f_free := (\<lambda>i. if i < 100 then b (i + 1) else f_free s i)\<rparr>))
              else Val bno s)"

definition bfree :: "u16 \<Rightarrow> mkst \<Rightarrow> unit out" where
  "bfree bno s =
     obind
       (if sle16 100 (f_nfree s) then
          (let b = (\<lambda>k. if k = 0 then f_nfree s else if k \<le> 100 then f_free s (k - 1) else mbuf s k)
           in obind (wtfs bno b (s\<lparr>mbuf := b\<rparr>)) (\<lambda>_ s. Val () (s\<lparr>f_nfree := 0\<rparr>)))
        else Val () s)
       (\<lambda>_ s. if unat (f_nfree s) \<ge> 100 then Undef
         else Val () (s\<lparr>f_free := (f_free s)(unat (f_nfree s) := bno), f_nfree := f_nfree s + 1\<rparr>))"

section \<open>The free list\<close>

text \<open>
  \<open>while(flg[i]) i = (i+1)%f_n\<close> ends within \<open>f_n\<close> turns or not at all.  The numbers here stay below 200,
  so they are naturals.
\<close>

primrec next_clear :: "nat \<Rightarrow> nat \<Rightarrow> (nat \<Rightarrow> bool) \<Rightarrow> nat \<Rightarrow> nat option" where
  "next_clear n 0 flg i = (if flg i then None else Some i)"
| "next_clear n (Suc k) flg i = (if flg i then next_clear n k flg ((i + 1) mod n) else Some i)"

primrec adr_table :: "nat \<Rightarrow> nat \<Rightarrow> nat \<Rightarrow> (nat \<Rightarrow> bool) \<Rightarrow> nat \<Rightarrow> nat list option" where
  "adr_table n m 0 flg i = Some []"
| "adr_table n m (Suc k) flg i =
     (case next_clear n n flg i of
        None \<Rightarrow> None
      | Some i \<Rightarrow> map_option ((#) i) (adr_table n m k (flg(i := True)) ((i + m) mod n)))"

fun each_out :: "('x \<Rightarrow> mkst \<Rightarrow> unit out) \<Rightarrow> 'x list \<Rightarrow> mkst \<Rightarrow> unit out" where
  "each_out f [] s = Val () s"
| "each_out f (x # xs) s = obind (f x s) (\<lambda>_. each_out f xs)"

text \<open>The three loops over the blocks; \<open>low\<close> is compared unsigned.  At most 65536 turns are made.\<close>

primrec free_lead :: "nat \<Rightarrow> u16 \<Rightarrow> u16 \<Rightarrow> mkst \<Rightarrow> u16 out" where
  "free_lead 0 low i s = Deep"
| "free_lead (Suc k) low i s =
     (if lrem (i + 1) (of_nat (f_n s)) = 0 then Val i s
      else if i < low then Val i s
      else obind (bfree i s) (\<lambda>_. free_lead k low (i - 1)))"

primrec free_groups :: "nat \<Rightarrow> nat list \<Rightarrow> u16 \<Rightarrow> u16 \<Rightarrow> mkst \<Rightarrow> u16 out" where
  "free_groups 0 adr low i s = Deep"
| "free_groups (Suc k) adr low i s =
     (if i < low + of_nat (f_n s) then Val i s
      else obind (each_out (\<lambda>a. bfree (i - of_nat a)) adr s)
             (\<lambda>_ s. free_groups k adr low (i - of_nat (f_n s)) s))"

primrec free_rest :: "nat \<Rightarrow> u16 \<Rightarrow> u16 \<Rightarrow> mkst \<Rightarrow> unit out" where
  "free_rest 0 low i s = Deep"
| "free_rest (Suc k) low i s =
     (if i < low then Val () s else obind (bfree i s) (\<lambda>_. free_rest k low (i - 1)))"

definition bflist :: "mkst \<Rightarrow> unit out" where
  "bflist s =
     (let s = (if f_n s > 100 then s\<lparr>f_n := 100\<rparr> else s)
      in case adr_table (f_n s) (f_m s) (f_n s) (\<lambda>_. False) 0 of
           None \<Rightarrow> Deep
         | Some adr \<Rightarrow>
             (let high = f_fsize s - 1; low = f_isize s + 2
              in obind (bfree 0 s) (\<lambda>_ s.
                 obind (free_lead 65537 low high s) (\<lambda>i s.
                 obind (free_groups 65537 adr low i s) (\<lambda>i s.
                 free_rest 65537 low i s)))))"

section \<open>Reading the prototype\<close>

definition blank :: "u8 \<Rightarrow> bool" where
  "blank c \<longleftrightarrow> c = 32 \<or> c = 9 \<or> c = 10"

text \<open>
  \<open>getstr\<close> on the rest of the input: blanks and comments are skipped (\<open>skip_blank\<close>, \<open>skip_line\<close> give the
  rest at the first byte of the token), then the token is copied into the 50 bytes of \<open>string\<close>.
\<close>

fun skip_blank :: "u8 list \<Rightarrow> u8 list option"
  and skip_line :: "u8 list \<Rightarrow> u8 list option" where
  "skip_blank [] = None"
| "skip_blank (c # cs) =
     (if blank c then skip_blank cs else if c = 58 then skip_line cs else Some (c # cs))"
| "skip_line [] = None"
| "skip_line (c # cs) = (if c = 10 then skip_blank cs else skip_line cs)"

fun take_token :: "u8 list \<Rightarrow> u8 list \<Rightarrow> (u8 list \<times> u8 list) option" where
  "take_token acc [] = None"
| "take_token acc (c # cs) =
     (if blank c \<or> c = 0 then Some (acc, cs)
      else if length acc \<ge> 49 then None
      else take_token (acc @ [c]) cs)"

definition getstr :: "mkst \<Rightarrow> unit out" where
  "getstr s =
     (case skip_blank (inp s) of
        None \<Rightarrow> Undef
      | Some [] \<Rightarrow> Undef
      | Some (c # cs) \<Rightarrow>
          if c = 0 then Exit ''EOF''
          else (case take_token [c] cs of
                  None \<Rightarrow> Undef
                | Some (t, rest) \<Rightarrow> Val () (s\<lparr>inp := rest, tok := t\<rparr>)))"

definition tch :: "mkst \<Rightarrow> nat \<Rightarrow> u8" where
  "tch s i = (if i < length (tok s) then tok s ! i else 0)"

fun number :: "u16 \<Rightarrow> u8 list \<Rightarrow> u16 option" where
  "number n [] = Some n"
| "number n (c # cs) = (if c < 48 \<or> c > 57 then None else number (n * 10 + ucast c - 48) cs)"

definition getnum :: "mkst \<Rightarrow> u16 out" where
  "getnum s =
     obind (getstr s) (\<lambda>_ s. case number 0 (tok s) of None \<Rightarrow> Exit ''bad number'' | Some n \<Rightarrow> Val n s)"

definition gmode :: "u8 \<Rightarrow> u8 list \<Rightarrow> u16 \<Rightarrow> u16 \<Rightarrow> u16 \<Rightarrow> mkst \<Rightarrow> u16 out" where
  "gmode c cs m0 m1 m2 s =
     (case find_index (\<lambda>x. c = x) cs of
        Some i \<Rightarrow> Val (if i = 0 then m0 else if i = 1 then m1 else m2) s
      | None \<Rightarrow> if c = 45 then Val 0 s else Exit ''bad mode'')"

text \<open>A character past the NUL of \<open>string\<close> is never looked at: the NUL itself is a bad mode or digit.\<close>

primrec mode_digits :: "nat \<Rightarrow> u16 \<Rightarrow> mkst \<Rightarrow> u16 out" where
  "mode_digits 0 m s = Val m s"
| "mode_digits (Suc k) m s =
     (let i = 5 - k; c = tch s i
      in if c < 48 \<or> c > 55 then Exit ''bad digit''
         else mode_digits k (m OR push_bit (15 - 3 * i) (ucast c - 48)) s)"

definition file_mode :: "mkst \<Rightarrow> u16 out" where
  "file_mode s =
     obind (gmode (tch s 0) (bytes ''bcd'') mk_IFBLK mk_IFCHR mk_IFDIR s) (\<lambda>m0 s.
     obind (gmode (tch s 1) (bytes ''u'') mk_ISUID 0 0 s) (\<lambda>m1 s.
     obind (gmode (tch s 2) (bytes ''g'') mk_ISGID 0 0 s) (\<lambda>m2 s.
     mode_digits 3 (mk_IALLOC OR m0 OR m1 OR m2) s)))"

section \<open>Files\<close>

text \<open>The locals of \<open>cfile\<close>: the inode, the data block being filled and the list of blocks.\<close>

record fil =
  inn :: minode
  dbc :: u16
  db :: block
  ibc :: u16
  ib :: block

definition newblk :: "fil \<Rightarrow> mkst \<Rightarrow> fil out" where
  "newblk f s =
     obind (mk_alloc s) (\<lambda>bno s.
     obind (wtfs bno (db f) s) (\<lambda>_ s.
       let f = f\<lparr>db := (\<lambda>_. 0), dbc := 0, ib := (ib f)(unat (ibc f) := bno), ibc := ibc f + 1\<rparr>
       in if sle16 256 (ibc f) then Exit ''indirect block full'' else Val f s))"

definition name_words :: "u8 list \<Rightarrow> nat \<Rightarrow> u16" where
  "name_words str k =
     (let c = (\<lambda>i. if i < length str then str ! i else 0) in mk16 (c (2 * k + 1)) (c (2 * k)))"

definition mk_entry :: "u16 \<Rightarrow> u8 list \<Rightarrow> fil \<Rightarrow> mkst \<Rightarrow> fil out" where
  "mk_entry ino str f s =
     (let d = unat (dbc f);
          f = f\<lparr>db := (\<lambda>k. if k = d then ino else if d < k \<and> k \<le> d + 7 then name_words str (k - d - 1) else db f k),
                dbc := dbc f + 8\<rparr>
      in if sle16 256 (dbc f) then newblk f s else Val f s)"

text \<open>\<open>read(f, db, 512)\<close> puts the next bytes over the front of \<open>db\<close>.\<close>

definition read_over :: "u8 list \<Rightarrow> block \<Rightarrow> block" where
  "read_over bs w =
     (\<lambda>k. if 2 * k + 1 < length bs then mk16 (bs ! (2 * k + 1)) (bs ! (2 * k))
          else if 2 * k < length bs then mk16 (hi8 (w k)) (bs ! (2 * k))
          else w k)"

function put_file :: "u8 list \<Rightarrow> fil \<Rightarrow> mkst \<Rightarrow> fil out" where
  "put_file bs f s =
     (if bs = [] then Val f s
      else
        (let i = take 512 bs;
             f = f\<lparr>db := read_over i (db f), inn := (inn f)\<lparr>n_size1 := n_size1 (inn f) + of_nat (length i)\<rparr>\<rparr>
         in obind (newblk f s) (put_file (drop 512 bs))))"
  by auto

termination
  by (relation "measure (\<lambda>(bs, f, s). length bs)") auto

declare put_file.simps [simp del]

definition inode_block_words :: "minode \<Rightarrow> nat \<Rightarrow> u16" where
  "inode_block_words p k =
     (if k = 0 then n_mode p
      else if k = 1 then mk16 (n_uid p) (n_nlink p)
      else if k = 2 then mk16 (n_size0 p) (n_gid p)
      else if k = 3 then n_size1 p
      else if k < 12 then n_addr p (k - 4)
      else 0)"

text \<open>After the contents: the block list goes into the inode, the inode onto its block.\<close>

definition put_inode :: "minode \<Rightarrow> mkst \<Rightarrow> minode out" where
  "put_inode p s =
     (let i = n_number p + 31; b = ldiv i 16; o1 = unat (lrem i 16) * 16
      in obind (rdfs b s) (\<lambda>w s.
         let w = (\<lambda>k. if o1 \<le> k \<and> k < o1 + 16 then inode_block_words p (k - o1) else w k)
         in obind (wtfs b w (s\<lparr>mbuf := w\<rparr>)) (\<lambda>_. Val p)))"

definition finish :: "fil \<Rightarrow> mkst \<Rightarrow> minode out" where
  "finish f s =
     obind (if dbc f \<noteq> 0 then newblk f s else Val f s) (\<lambda>f s.
     obind
       (if sle16 (ibc f) 8 then
          Val ((inn f)\<lparr>n_addr := (\<lambda>i. if i < unat (ibc f) then ib f i else n_addr (inn f) i)\<rparr>) s
        else
          obind (mk_alloc s) (\<lambda>b s.
          obind (wtfs b (ib f) s) (\<lambda>_ s.
            Val ((inn f)\<lparr>n_mode := n_mode (inn f) OR mk_ILARG, n_addr := (n_addr (inn f))(0 := b)\<rparr>) s)))
       put_inode)"

definition start_file :: "mkst \<Rightarrow> fil out" where
  "start_file s =
     obind (getstr s) (\<lambda>_ s.
     obind (file_mode s) (\<lambda>mode s.
     obind (getnum s) (\<lambda>uid s.
     obind (getnum s) (\<lambda>gid s.
       let s = s\<lparr>mino := mino s + 1\<rparr>
       in if f_isize s < ldiv (mino s) 16 then Exit ''too many inodes''
          else Val
            \<lparr>inn = \<lparr>n_number = mino s, n_mode = mode, n_nlink = 1, n_uid = i2c uid, n_gid = i2c gid,
                    n_size0 = 0, n_size1 = 0, n_addr = (\<lambda>_. 0)\<rparr>,
             dbc = 0, db = (\<lambda>_. 0), ibc = 0, ib = (\<lambda>_. 0)\<rparr> s))))"

text \<open>
  \<open>cfile\<close>, with its parent directory's inode if there is one, which it returns with the link that a
  subdirectory adds; \<open>cdir\<close> is the loop over the entries of a directory.  \<open>Deep\<close> means the bound on the
  nesting was too small.
\<close>

fun cfile :: "nat \<Rightarrow> (u8 list \<Rightarrow> u8 list option) \<Rightarrow> minode option \<Rightarrow> mkst \<Rightarrow> minode option out"
  and cdir :: "nat \<Rightarrow> (u8 list \<Rightarrow> u8 list option) \<Rightarrow> fil \<Rightarrow> mkst \<Rightarrow> fil out" where
  "cfile 0 cont par s = Deep"
| "cfile (Suc k) cont par s =
     obind (start_file s) (\<lambda>f s.
       let f = (if par = None then f\<lparr>inn := (inn f)\<lparr>n_nlink := n_nlink (inn f) - 1\<rparr>\<rparr> else f);
           fmt = n_mode (inn f) AND mk_IFMT
       in obind
            (if fmt = 0 then
               obind (getstr s) (\<lambda>_ s.
                 case cont (tok s) of
                   None \<Rightarrow> Val (par, f) s
                 | Some bs \<Rightarrow> obind (put_file bs f s) (\<lambda>f. Val (par, f)))
             else if fmt = mk_IFBLK \<or> fmt = mk_IFCHR then
               obind (getnum s) (\<lambda>a s. obind (getnum s) (\<lambda>b s.
                 Val (par, f\<lparr>inn := (inn f)\<lparr>n_addr := (n_addr (inn f))(0 := push_bit 8 a OR b)\<rparr>\<rparr>) s))
             else
               (let (par, f, up) =
                      (case par of
                         None \<Rightarrow> (None, f\<lparr>inn := (inn f)\<lparr>n_nlink := n_nlink (inn f) + 1\<rparr>\<rparr>, n_number (inn f))
                       | Some p \<Rightarrow> (Some (p\<lparr>n_nlink := n_nlink p + 1\<rparr>), f, n_number p))
                in obind (mk_entry up (bytes ''..'') f s) (\<lambda>f s.
                     let f = f\<lparr>inn := (inn f)\<lparr>n_nlink := n_nlink (inn f) + 1\<rparr>\<rparr>
                     in obind (mk_entry (n_number (inn f)) (bytes ''.'') f s) (\<lambda>f s.
                          obind (cdir k cont (f\<lparr>inn := (inn f)\<lparr>n_size1 := 32\<rparr>\<rparr>) s) (\<lambda>f. Val (par, f))))))
            (\<lambda>(par, f) s. obind (finish f s) (\<lambda>_. Val par)))"
| "cdir 0 cont f s = Deep"
| "cdir (Suc k) cont f s =
     obind (getstr s) (\<lambda>_ s.
       if tok s = [36] then Val f s
       else
         obind (mk_entry (mino s + 1) (tok s) f s) (\<lambda>f s.
           let f = f\<lparr>inn := (inn f)\<lparr>n_size1 := n_size1 (inn f) + 16\<rparr>\<rparr>
           in obind (cfile k cont (Some (inn f)) s) (\<lambda>p s.
                case p of None \<Rightarrow> Undef | Some p \<Rightarrow> cdir k cont (f\<lparr>inn := p\<rparr>) s)))"

section \<open>The program\<close>

text \<open>The rotation of the free list for RK and RP disks, by the name of the image.\<close>

fun rotation :: "u8 list \<Rightarrow> nat \<times> nat \<Rightarrow> nat \<times> nat" where
  "rotation (a # b # r) p =
     rotation (b # r) (if a = 114 then if b = 107 then (24, 3) else if b = 112 then (10, 4) else p else p)"
| "rotation _ p = p"

definition mkfs_begin :: "nat \<Rightarrow> u8 list \<Rightarrow> mkst" where
  "mkfs_begin room fsys =
     \<lparr>img = (\<lambda>_ _. 0), img_len = 0, img_room = room, f_isize = 0, f_fsize = 0, f_nfree = 0,
      f_free = (\<lambda>_. 0), mbuf = (\<lambda>_. 0), mswap = 0, f_n = fst (rotation fsys (1, 1)),
      f_m = snd (rotation fsys (1, 1)), inp = [], tok = [], mino = 0\<rparr>"

text \<open>The sizes, from the prototype or from a number given in its place.\<close>

definition mkfs_sizes :: "(u8 list \<Rightarrow> u8 list option) \<Rightarrow> u8 list \<Rightarrow> mkst \<Rightarrow> unit out" where
  "mkfs_sizes cont proto s =
     (case cont proto of
        None \<Rightarrow>
          (case number 0 proto of
             None \<Rightarrow> Exit ''cannot open''
           | Some n \<Rightarrow>
               Val () (s\<lparr>f_fsize := n, f_isize := ldiv n (43 + ldiv n 1000),
                 inp := bytes ''d--777 0 0 $ '' @ [0]\<rparr>))
      | Some p \<Rightarrow>
          obind (getstr (s\<lparr>inp := p\<rparr>)) (\<lambda>_ s.
          obind
            (case cont (tok s) of
               None \<Rightarrow> Val () s
             | Some boot \<Rightarrow>
                 (let b = read_over (take 512 boot) (mbuf s) in wtfs 0 b (s\<lparr>mbuf := b\<rparr>))) (\<lambda>_ s.
          obind (getnum s) (\<lambda>n s.
          obind (getnum (s\<lparr>f_fsize := n\<rparr>)) (\<lambda>n s.
          obind (getnum (s\<lparr>f_isize := n\<rparr>)) (\<lambda>n s. Val () (s\<lparr>mswap := n\<rparr>)))))))"

text \<open>
  The super block as \<open>filsys\<close> lies in memory: 511 bytes here, since the structure is packed, so the last
  byte written is the one behind it (\<open>past\<close>).
\<close>

definition super_words :: "u8 \<Rightarrow> mkst \<Rightarrow> block" where
  "super_words past s =
     (\<lambda>k. if k = 0 then f_isize s
          else if k = 1 then f_fsize s
          else if k = 2 then f_nfree s
          else if k < 103 then f_free s (k - 3)
          else if k = 255 then mk16 past 0
          else 0)"

definition mkfs_build :: "(u8 list \<Rightarrow> u8 list option) \<Rightarrow> u8 \<Rightarrow> mkst \<Rightarrow> unit out" where
  "mkfs_build cont past s =
     (if f_isize s > f_fsize s \<or> f_fsize s - f_isize s - 2 < f_isize s then Exit ''bad ratio''
      else
        obind (bflist s) (\<lambda>_ s.
        let s = s\<lparr>mbuf := (\<lambda>_. 0)\<rparr>
        in obind (each_out (\<lambda>n s. wtfs (of_nat n + 2) (mbuf s) s) [0..<unat (f_isize s)] s) (\<lambda>_ s.
           obind (wtfs (f_fsize s + mswap s - 1) (mbuf s) s) (\<lambda>_ s.
           obind (cfile (length (inp s) + 1) cont None s) (\<lambda>_ s.
             wtfs 1 (super_words past s) (s\<lparr>mbuf := (\<lambda>_. 0)\<rparr>))))))"

definition mkfs :: "(u8 list \<Rightarrow> u8 list option) \<Rightarrow> nat \<Rightarrow> u8 \<Rightarrow> u8 list \<Rightarrow> u8 list \<Rightarrow> unit out" where
  "mkfs cont room past fsys proto =
     obind (mkfs_sizes cont proto (mkfs_begin room fsys)) (\<lambda>_. mkfs_build cont past)"

end
