(* ===== verification/MkfsFacts.thy ===== *)
theory MkfsFacts
  imports Mkfs IoFacts
begin

text \<open>
  Facts about \<open>mkfs\<close>: the free list on the image is a stack of block numbers, \<open>bflist\<close> puts every data
  block on it once whatever the rotation, files are stored so that their inode leads to their
  contents, and the nesting bound of \<open>cfile\<close> is enough.
\<close>

section \<open>The free list as a stack\<close>

text \<open>
  \<open>flist d l n fr xs\<close>: \<open>n\<close> entries in \<open>fr\<close>, continued in the block of the first of them unless that is 0,
  stand for the blocks \<open>xs\<close>, the next one to hand out first.
\<close>

inductive flist :: "(u16 \<Rightarrow> block) \<Rightarrow> nat \<Rightarrow> u16 \<Rightarrow> (nat \<Rightarrow> u16) \<Rightarrow> u16 list \<Rightarrow> bool" for d l where
  flist_last: "0 < unat n \<Longrightarrow> unat n \<le> 100 \<Longrightarrow> fr 0 = 0 \<Longrightarrow> (\<And>i. 0 < i \<Longrightarrow> i < unat n \<Longrightarrow> fr i \<noteq> 0) \<Longrightarrow>
     flist d l n fr (map fr (rev [1..<unat n]))"
| flist_link: "0 < unat n \<Longrightarrow> unat n \<le> 100 \<Longrightarrow> (\<And>i. i < unat n \<Longrightarrow> fr i \<noteq> 0) \<Longrightarrow> unat (fr 0) < l \<Longrightarrow>
     flist d l (d (fr 0) 0) (\<lambda>i. d (fr 0) (i + 1)) xs \<Longrightarrow>
     flist d l n fr (map fr (rev [0..<unat n]) @ xs)"

lemma flist_cong:
  assumes "flist d l n fr xs" "\<And>i. i < unat n \<Longrightarrow> fr' i = fr i"
  shows "flist d l n fr' xs"
  using assms
proof (cases rule: flist.cases)
  case (flist_last)
  have e: "map fr (rev [1..<unat n]) = map fr' (rev [1..<unat n])" using assms(2) by (intro map_cong) auto
  show ?thesis unfolding flist_last(1) e by (rule flist.flist_last) (use flist_last assms(2) in auto)
next
  case (flist_link ys)
  have e: "fr' 0 = fr 0" using flist_link assms(2) by auto
  have m: "map fr (rev [0..<unat n]) = map fr' (rev [0..<unat n])" using assms(2) by (intro map_cong) auto
  show ?thesis unfolding flist_link(1) m by (rule flist.flist_link) (use flist_link assms(2) e in auto)
qed

lemma flist_disk:
  "flist d l n fr xs \<Longrightarrow> (\<And>x. x \<in> set xs \<Longrightarrow> d' x = d x) \<Longrightarrow> l \<le> l' \<Longrightarrow> flist d' l' n fr xs"
proof (induction rule: flist.induct)
  case (flist_last n fr)
  then show ?case by (intro flist.flist_last) auto
next
  case (flist_link n fr xs)
  have "fr 0 \<in> set (map fr (rev [0..<unat n]))" using flist_link(1) by auto
  then have "d' (fr 0) = d (fr 0)" using flist_link(7) by auto
  with flist_link show ?case by (intro flist.flist_link) auto
qed

abbreviation free_blocks :: "mkst \<Rightarrow> u16 list \<Rightarrow> bool" where
  "free_blocks s xs \<equiv> flist (img s) (img_len s) (f_nfree s) (f_free s) xs"

lemma unat_pred: "0 < unat (n :: u16) \<Longrightarrow> unat (n - 1) = unat n - 1"
  by (subst unat_sub) (simp_all add: word_le_nat_alt Suc_leI)

lemma sle16_small:
  assumes "unat n < 32768" "k < 32768"
  shows "sle16 (of_nat k) n \<longleftrightarrow> k \<le> unat n" "sle16 n (of_nat k) \<longleftrightarrow> unat n \<le> k"
proof -
  have k: "unat (of_nat k :: u16) = k" using assms(2) by (simp add: unat_of_nat)
  have "sint n = int (unat n)" "sint (of_nat k :: u16) = int k"
    using sint16_eq_unat [OF assms(1)] sint16_eq_unat [of "of_nat k"] assms(2) unfolding k by auto
  then show "sle16 (of_nat k) n \<longleftrightarrow> k \<le> unat n" "sle16 n (of_nat k) \<longleftrightarrow> unat n \<le> k"
    unfolding sle16_def by (simp_all only: of_nat_le_iff)
qed

lemma flist_Nil: "flist d l n fr [] \<longleftrightarrow> n = 1 \<and> fr 0 = 0"
proof
  assume "flist d l n fr []"
  then show "n = 1 \<and> fr 0 = 0"
    by (cases rule: flist.cases) (auto simp: word_unat_eq_iff)
next
  assume "n = 1 \<and> fr 0 = 0"
  then show "flist d l n fr []" using flist_last [of 1 fr d l] by simp
qed

lemma rev_upt_last: "i < unat n \<Longrightarrow> rev [i..<unat n] = (unat n - 1) # rev [i..<unat n - 1]"
  by (cases "unat n") auto

lemma flist_count: "flist d l n fr xs \<Longrightarrow> 0 < unat n \<and> unat n \<le> 100"
  by (erule flist.cases) auto

text \<open>The next block is the last entry; the first entry is the block with the entries that follow.\<close>

lemma flist_pop:
  assumes "flist d l n fr (b # ys)"
  shows "b = fr (unat n - 1)" "b \<noteq> 0"
    "if unat n = 1 then unat b < l \<and> flist d l (d b 0) (\<lambda>i. d b (i + 1)) ys else flist d l (n - 1) fr ys"
proof -
  have n: "0 < unat n" "unat n \<le> 100" using flist_count [OF assms] by auto
  have m: "unat (n - 1) = unat n - 1" using n(1) by (rule unat_pred)
  have "b = fr (unat n - 1) \<and> b \<noteq> 0 \<and>
      (if unat n = 1 then unat b < l \<and> flist d l (d b 0) (\<lambda>i. d b (i + 1)) ys else flist d l (n - 1) fr ys)"
    using assms
  proof (cases rule: flist.cases)
    case flist_last
    from flist_last(1) have "1 < unat n" by (cases "1 < unat n") auto
    with flist_last(1) have b: "b = fr (unat n - 1)" "ys = map fr (rev [1..<unat (n - 1)])"
      by (auto simp: rev_upt_last m)
    have "b \<noteq> 0" unfolding b(1) by (rule flist_last(5)) (use \<open>1 < unat n\<close> in auto)
    moreover have "flist d l (n - 1) fr ys"
      unfolding b(2) by (rule flist.flist_last) (use \<open>1 < unat n\<close> flist_last m in auto)
    ultimately show ?thesis using b(1) \<open>1 < unat n\<close> by simp
  next
    case (flist_link xs)
    from flist_link(1) n(1) have b: "b = fr (unat n - 1)" "ys = map fr (rev [0..<unat (n - 1)]) @ xs"
      by (auto simp: rev_upt_last m)
    have nz: "b \<noteq> 0" unfolding b(1) by (rule flist_link(4)) (use n in auto)
    show ?thesis
    proof (cases "unat n = 1")
      case True
      then show ?thesis using b nz flist_link(5,6) m by simp
    next
      case False
      have "flist d l (n - 1) fr ys"
        unfolding b(2) by (rule flist.flist_link) (use False flist_link m n in auto)
      with False b(1) nz show ?thesis by simp
    qed
  qed
  then show "b = fr (unat n - 1)" "b \<noteq> 0"
    "if unat n = 1 then unat b < l \<and> flist d l (d b 0) (\<lambda>i. d b (i + 1)) ys else flist d l (n - 1) fr ys" by blast+
qed

lemma mk_alloc_pop:
  assumes "free_blocks s (b # ys)"
  shows "\<exists>n fr w. mk_alloc s = Val b (s\<lparr>f_nfree := n, f_free := fr, mbuf := w\<rparr>) \<and> flist (img s) (img_len s) n fr ys \<and> b \<noteq> 0"
proof -
  let ?n = "f_nfree s" and ?fr = "f_free s"
  let ?m = "?n - 1"
  have n: "0 < unat ?n" "unat ?n \<le> 100" using flist_count [OF assms] by auto
  have m: "unat ?m = unat ?n - 1" using n(1) by (rule unat_pred)
  have idx: "\<not> 100 \<le> unat ?m" using m n by simp
  have le: "sle16 ?m 0 \<longleftrightarrow> unat ?m = 0" using sle16_small(2) [of ?m 0] idx by simp
  note pop = flist_pop [OF assms]
  show ?thesis
  proof (cases "unat ?n = 1")
    case False
    have "flist (img s) (img_len s) ?m (?fr(unat ?m := 0)) ys"
      by (rule flist_cong [of _ _ _ ?fr]) (use pop(3) False in simp_all)
    with pop(1,2) m False n show ?thesis using idx le
      by (intro exI [of _ ?m] exI [of _ "?fr(unat ?m := 0)"] exI [of _ "mbuf s"]) (simp add: mk_alloc_def Let_def)
  next
    case True
    let ?w = "img s b"
    let ?g = "\<lambda>i. if i < 100 then ?w (i + 1) else (?fr(unat ?m := 0)) i"
    have f: "unat b < img_len s" "flist (img s) (img_len s) (?w 0) (\<lambda>i. ?w (i + 1)) ys" using pop(3) True by simp_all
    have "flist (img s) (img_len s) (?w 0) ?g ys"
      by (rule flist_cong [OF f(2)]) (use flist_count [OF f(2)] in auto)
    moreover have "mk_alloc s = Val b (s\<lparr>f_nfree := ?w 0, f_free := ?g, mbuf := ?w\<rparr>)"
      using True pop(1,2) idx le m f(1) by (simp add: mk_alloc_def Let_def rdfs_def cong: if_cong)
    ultimately show ?thesis using pop(2) by blast
  qed
qed

lemma mk_alloc_empty:
  assumes "free_blocks s []"
  shows "mk_alloc s = Exit ''out of free space''"
  using assms by (simp add: flist_Nil mk_alloc_def)

lemma bfree_push:
  assumes "free_blocks s xs" "b \<noteq> 0" "b \<notin> set xs" "unat b < img_room s"
  shows "\<exists>w l n fr mb. bfree b s = Val () (s\<lparr>img := (img s)(b := w), img_len := l, f_nfree := n, f_free := fr, mbuf := mb\<rparr>)
    \<and> img_len s \<le> l \<and> flist ((img s)(b := w)) l n fr (b # xs)"
proof -
  let ?n = "f_nfree s" and ?fr = "f_free s"
  from assms(1) have n: "0 < unat ?n" "unat ?n \<le> 100" by (auto elim: flist.cases)
  have le: "sle16 100 ?n \<longleftrightarrow> unat ?n = 100" using sle16_small(1) [of ?n 100] n by auto
  show ?thesis
  proof (cases "unat ?n = 100")
    case False
    let ?f = "?fr(unat ?n := b)"
    have n1: "unat (?n + 1) = unat ?n + 1" using n False by (subst unat_add_no_wrap) auto
    have "flist (img s) (img_len s) (?n + 1) ?f (b # xs)" using assms(1)
    proof (cases rule: flist.cases)
      case flist_last
      have "map ?f (rev [1..<unat (?n + 1)]) = b # xs"
        using flist_last(1) n(1) by (auto simp: n1)
      moreover have "flist (img s) (img_len s) (?n + 1) ?f (map ?f (rev [1..<unat (?n + 1)]))"
        by (rule flist.flist_last) (use flist_last n n1 False assms(2) in auto)
      ultimately show ?thesis by simp
    next
      case (flist_link ys)
      have "map ?f (rev [0..<unat (?n + 1)]) @ ys = b # xs" using flist_link(1) n(1) by (auto simp: n1)
      moreover have "flist (img s) (img_len s) (?n + 1) ?f (map ?f (rev [0..<unat (?n + 1)]) @ ys)"
        by (rule flist.flist_link) (use flist_link n n1 False assms(2) in auto)
      ultimately show ?thesis by simp
    qed
    then show ?thesis using n False le
      by (intro exI [of _ "img s b"] exI [of _ "img_len s"] exI [of _ "?n + 1"] exI [of _ ?f] exI [of _ "mbuf s"])
        (simp add: bfree_def)
  next
    case True
    let ?w = "\<lambda>k. if k = 0 then ?n else if k \<le> 100 then ?fr (k - 1) else mbuf s k"
    let ?d = "(img s)(b := ?w)" and ?l = "max (img_len s) (unat b + 1)" and ?f = "?fr(0 := b)"
    have "flist (img s) (img_len s) ?n (\<lambda>i. ?w (i + 1)) xs"
      by (rule flist_cong [OF assms(1)]) (use n in auto)
    then have "flist ?d ?l ?n (\<lambda>i. ?w (i + 1)) xs"
      by (rule flist_disk) (use assms(3) in auto)
    moreover have "?d (?f 0) = ?w" "?w 0 = ?n" by simp_all
    ultimately have "flist ?d ?l (?d (?f 0) 0) (\<lambda>i. ?d (?f 0) (i + 1)) xs" by (simp only:)
    then have "flist ?d ?l 1 ?f (map ?f (rev [0..<unat (1 :: u16)]) @ xs)"
      by (intro flist.flist_link) (use assms(2) in auto)
    then have "flist ?d ?l 1 ?f (b # xs)" by simp
    moreover have "bfree b s = Val () (s\<lparr>img := ?d, img_len := ?l, f_nfree := 1, f_free := ?f, mbuf := ?w\<rparr>)"
      using assms(4) le True by (simp add: bfree_def wtfs_def Let_def)
    ultimately show ?thesis by (intro exI conjI) auto
  qed
qed

section \<open>Freeing every block\<close>

definition kept :: "mkst \<Rightarrow> mkst \<Rightarrow> bool" where
  "kept s s' \<longleftrightarrow> s' = s\<lparr>img := img s', img_len := img_len s', f_nfree := f_nfree s', f_free := f_free s', mbuf := mbuf s'\<rparr>"

lemma kept_refl [simp]: "kept s s"
  by (simp add: kept_def)

lemma kept_trans: "kept s t \<Longrightarrow> kept t u \<Longrightarrow> kept s u"
  by (cases s; cases t; cases u) (simp add: kept_def)

lemma kept_fields:
  "kept s s' \<Longrightarrow> f_n s' = f_n s \<and> img_room s' = img_room s \<and> f_isize s' = f_isize s \<and> f_fsize s' = f_fsize s"
  by (cases s; cases s') (simp add: kept_def)

lemma bfree_kept:
  assumes "free_blocks s xs" "b \<noteq> 0" "b \<notin> set xs" "unat b < img_room s"
  shows "\<exists>s'. bfree b s = Val () s' \<and> free_blocks s' (b # xs) \<and> kept s s'"
proof -
  from bfree_push [OF assms] obtain w l n fr mb t where
    "bfree b s = Val () t" "t = s\<lparr>img := (img s)(b := w), img_len := l, f_nfree := n, f_free := fr, mbuf := mb\<rparr>"
    "flist ((img s)(b := w)) l n fr (b # xs)" by blast
  then show ?thesis by (intro exI [of _ t]) (simp add: kept_def)
qed

lemma each_out_map: "each_out (\<lambda>a. f (g a)) as s = each_out f (map g as) s"
proof (induction as arbitrary: s)
  case (Cons a as)
  then show ?case by (cases "f (g a) s") simp_all
qed simp

lemma each_bfree:
  "free_blocks s xs \<Longrightarrow> distinct (bs @ xs) \<Longrightarrow> 0 \<notin> set bs \<Longrightarrow> (\<And>b. b \<in> set bs \<Longrightarrow> unat b < img_room s) \<Longrightarrow>
    \<exists>s'. each_out bfree bs s = Val () s' \<and> free_blocks s' (rev bs @ xs) \<and> kept s s'"
proof (induction bs arbitrary: s xs)
  case (Cons b bs)
  from Cons.prems obtain t where t: "bfree b s = Val () t" "free_blocks t (b # xs)" "kept s t"
    using bfree_kept [of s xs b] by auto
  from Cons.prems kept_fields [OF t(3)] have "distinct (bs @ b # xs)" "0 \<notin> set bs"
    "\<And>b. b \<in> set bs \<Longrightarrow> unat b < img_room t" by auto
  from Cons.IH [OF t(2) this] kept_trans [OF t(3)] t(1) show ?case by auto
qed simp

definition freed :: "u16 \<Rightarrow> u16 \<Rightarrow> mkst \<Rightarrow> bool" where
  "freed i high s \<longleftrightarrow> (\<exists>xs. free_blocks s xs \<and> distinct xs \<and> set xs = {w. unat i < unat w \<and> unat w \<le> unat high})"

lemma freed_push:
  assumes "freed i high s" "distinct bs" "set bs = {w. unat j < unat w \<and> unat w \<le> unat i}"
    "unat i \<le> unat high" "unat j \<le> unat i" "unat high < img_room s"
  shows "\<exists>s'. each_out bfree bs s = Val () s' \<and> freed j high s' \<and> kept s s'"
proof -
  from assms(1) obtain xs where xs: "free_blocks s xs" "distinct xs" "set xs = {w. unat i < unat w \<and> unat w \<le> unat high}"
    unfolding freed_def by blast
  have "distinct (bs @ xs)" using assms(2,3) xs by auto
  moreover have "0 \<notin> set bs" using assms(3) by simp
  moreover have "unat b < img_room s" if "b \<in> set bs" for b using that assms(3,4,6) by auto
  ultimately obtain s' where s': "each_out bfree bs s = Val () s'" "free_blocks s' (rev bs @ xs)" "kept s s'"
    using each_bfree [OF xs(1)] by blast
  have "set (rev bs @ xs) = {w. unat j < unat w \<and> unat w \<le> unat high}" using assms(3-5) xs(3) by auto
  with s' \<open>distinct (bs @ xs)\<close> show ?thesis unfolding freed_def by (auto intro!: exI [of _ "rev bs @ xs"])
qed

lemma freed_one:
  assumes "freed i high s" "0 < unat i" "unat i \<le> unat high" "unat high < img_room s"
  shows "\<exists>s'. bfree i s = Val () s' \<and> freed (i - 1) high s' \<and> kept s s'"
proof -
  have "set [i] = {w. unat (i - 1) < unat w \<and> unat w \<le> unat i}"
    using assms(2) by (auto simp: unat_pred word_unat_eq_iff)
  from freed_push [OF assms(1) _ this assms(3) _ assms(4)] obtain s' where
    s': "each_out bfree [i] s = Val () s'" "freed (i - 1) high s'" "kept s s'"
    using assms(2) by (auto simp: unat_pred)
  then show ?thesis by (auto simp: obind_Val)
qed

lemma free_lead_freed:
  assumes "0 < unat low" "unat high < img_room s" "freed i high s" "unat i \<le> unat high" "unat low \<le> unat i + 1" "unat i < k"
  shows "\<exists>j t. free_lead k low i s = Val j t \<and> freed j high t \<and> kept s t \<and> unat low \<le> unat j + 1 \<and> unat j \<le> unat i"
  using assms
proof (induction k arbitrary: i s)
  case (Suc k)
  show ?case
  proof (cases "lrem (i + 1) (of_nat (f_n s)) = 0 \<or> i < low")
    case True
    with Suc.prems show ?thesis by (auto simp: intro!: exI)
  next
    case False
    then have i: "unat low \<le> unat i" by (simp add: word_less_nat_alt)
    with Suc.prems have pos: "0 < unat i" by linarith
    note p = unat_pred [OF pos]
    obtain t where t: "bfree i s = Val () t" "freed (i - 1) high t" "kept s t"
      using freed_one [OF Suc.prems(3) pos Suc.prems(4,2)] by blast
    have "\<exists>j u. free_lead k low (i - 1) t = Val j u \<and> freed j high u \<and> kept t u \<and> unat low \<le> unat j + 1 \<and> unat j \<le> unat (i - 1)"
      by (rule Suc.IH) (use Suc.prems t p i pos kept_fields [OF t(3)] in auto)
    then obtain j u where "free_lead k low (i - 1) t = Val j u" "freed j high u" "kept t u"
      "unat low \<le> unat j + 1" "unat j \<le> unat (i - 1)" by blast
    with t False p kept_trans show ?thesis by (intro exI [of _ j] exI [of _ u]) auto
  qed
qed simp

lemma free_rest_freed:
  assumes "0 < unat low" "unat high < img_room s" "freed i high s" "unat i \<le> unat high" "unat low \<le> unat i + 1" "unat i < k"
  shows "\<exists>t. free_rest k low i s = Val () t \<and> freed (low - 1) high t \<and> kept s t"
  using assms
proof (induction k arbitrary: i s)
  case (Suc k)
  show ?case
  proof (cases "i < low")
    case True
    with Suc.prems have "unat i = unat (low - 1)" by (simp add: unat_pred word_less_nat_alt)
    with Suc.prems True show ?thesis by (auto simp: freed_def)
  next
    case False
    then have i: "unat low \<le> unat i" by (simp add: word_less_nat_alt)
    with Suc.prems have pos: "0 < unat i" by linarith
    note p = unat_pred [OF pos]
    obtain t where t: "bfree i s = Val () t" "freed (i - 1) high t" "kept s t"
      using freed_one [OF Suc.prems(3) pos Suc.prems(4,2)] by blast
    have "\<exists>u. free_rest k low (i - 1) t = Val () u \<and> freed (low - 1) high u \<and> kept t u"
      by (rule Suc.IH) (use Suc.prems t p i pos kept_fields [OF t(3)] in auto)
    with t False kept_trans show ?thesis by fastforce
  qed
qed simp

lemma group_blocks:
  fixes i :: u16
  assumes "distinct adr" "set adr = {..<n}" "n \<le> unat i" "n < 65536"
  shows "distinct (map (\<lambda>a. i - of_nat a) adr)"
    "set (map (\<lambda>a. i - of_nat a) adr) = {w. unat (i - of_nat n) < unat w \<and> unat w \<le> unat i}"
proof -
  have u: "unat (i - of_nat a) = unat i - a" if "a \<le> n" for a
    using that assms(3,4) by (subst unat_sub_le) (auto simp: word_le_nat_alt unat_of_nat)
  show "distinct (map (\<lambda>a. i - of_nat a) adr)"
  proof (simp add: distinct_map assms(1) inj_on_def, intro ballI impI)
    fix a b assume "a \<in> set adr" "b \<in> set adr" and e: "(of_nat a :: u16) = of_nat b"
    with assms(2,4) have "a < 65536" "b < 65536" by auto
    then have "a = unat (of_nat a :: u16)" "b = unat (of_nat b :: u16)" by (simp_all add: unat_of_nat)
    with e show "a = b" by simp
  qed
  show "set (map (\<lambda>a. i - of_nat a) adr) = {w. unat (i - of_nat n) < unat w \<and> unat w \<le> unat i}" (is "?L = ?R")
  proof (intro equalityI subsetI)
    fix w assume "w \<in> ?L"
    then show "w \<in> ?R" using assms(2,3) u by auto
  next
    fix w assume w: "w \<in> ?R"
    let ?a = "unat i - unat w"
    have "?a < n" using w u [of n] assms(3) by auto
    moreover have "w = i - of_nat ?a" using w u [of ?a] \<open>?a < n\<close> by (auto simp: word_unat_eq_iff)
    ultimately show "w \<in> ?L" using assms(2) by auto
  qed
qed

lemma free_groups_freed:
  assumes "distinct adr" "set adr = {..<f_n s}" "0 < f_n s" "unat low + f_n s < 65536"
    "0 < unat low" "unat high < img_room s" "freed i high s" "unat i \<le> unat high" "unat low \<le> unat i + 1" "unat i < k"
  shows "\<exists>j t. free_groups k adr low i s = Val j t \<and> freed j high t \<and> kept s t \<and> unat low \<le> unat j + 1 \<and> unat j \<le> unat i"
  using assms
proof (induction k arbitrary: i s)
  case (Suc k)
  let ?n = "f_n s"
  have n: "?n < 65536" using Suc.prems(4) by linarith
  have lt: "i < low + of_nat ?n \<longleftrightarrow> unat i < unat low + ?n"
    using Suc.prems(4) n by (simp add: word_less_nat_alt unat_add_no_wrap unat_of_nat)
  show ?case
  proof (cases "i < low + of_nat ?n")
    case True
    with Suc.prems show ?thesis by (auto intro!: exI)
  next
    case False
    let ?j = "i - of_nat ?n" and ?bs = "map (\<lambda>a. i - of_nat a) adr"
    have i: "unat low + ?n \<le> unat i" using False lt by simp
    have j: "unat ?j = unat i - ?n" using i n by (subst unat_sub_le) (auto simp: word_le_nat_alt unat_of_nat)
    obtain t where t: "each_out bfree ?bs s = Val () t" "freed ?j high t" "kept s t"
      using freed_push [OF Suc.prems(7) group_blocks [OF Suc.prems(1,2) _ n]] Suc.prems i j by auto
    have "\<exists>j u. free_groups k adr low ?j t = Val j u \<and> freed j high u \<and> kept t u \<and> unat low \<le> unat j + 1 \<and> unat j \<le> unat ?j"
      by (rule Suc.IH) (use Suc.prems t j i kept_fields [OF t(3)] in auto)
    then obtain j u where "free_groups k adr low ?j t = Val j u" "freed j high u" "kept t u"
      "unat low \<le> unat j + 1" "unat j \<le> unat ?j" by blast
    with t False j kept_trans kept_fields [OF t(3)] show ?thesis
      by (intro exI [of _ j] exI [of _ u]) (auto simp: each_out_map [of bfree "\<lambda>a. i - of_nat a" adr s])
  qed
qed simp

text \<open>The rotation visits every offset of a group once.\<close>

lemma next_clear_finds:
  "\<not> flg ((i + j) mod n) \<Longrightarrow> j \<le> k \<Longrightarrow> i < n \<Longrightarrow> \<exists>x. next_clear n k flg i = Some x \<and> x < n \<and> \<not> flg x"
proof (induction k arbitrary: i j)
  case (Suc k)
  show ?case
  proof (cases "flg i")
    case True
    with Suc.prems have "j \<noteq> 0" by (intro notI) simp
    then obtain j' where j: "j = Suc j'" by (cases j) auto
    have "\<not> flg (((i + 1) mod n + j') mod n)" using Suc.prems(1) j by (simp add: mod_simps)
    from Suc.IH [OF this] Suc.prems j True show ?thesis by auto
  qed (use Suc.prems in auto)
qed auto

lemma next_clear_some:
  assumes "x < n" "\<not> flg x" "i < n"
  shows "\<exists>y. next_clear n n flg i = Some y \<and> y < n \<and> \<not> flg y"
proof (rule next_clear_finds)
  let ?j = "(x + n - i) mod n"
  have "(i + ?j) mod n = (i + (x + n - i)) mod n" by (simp add: mod_simps)
  also have "\<dots> = x" using assms by simp
  finally show "\<not> flg ((i + ?j) mod n)" using assms(2) by simp
  show "?j \<le> n" using assms by (simp add: less_imp_le)
qed (rule assms(3))

lemma adr_table_perm:
  "i < n \<Longrightarrow> card {x. x < n \<and> \<not> flg x} = k \<Longrightarrow>
    \<exists>adr. adr_table n m k flg i = Some adr \<and> distinct adr \<and> set adr = {x. x < n \<and> \<not> flg x}"
proof (induction k arbitrary: flg i)
  case 0
  then show ?case by auto
next
  case (Suc k)
  let ?F = "\<lambda>flg. {x. x < n \<and> \<not> flg x}"
  from Suc.prems(2) have "?F flg \<noteq> {}" by (metis card.empty nat.distinct(1))
  then obtain x where "x < n" "\<not> flg x" by auto
  from next_clear_some [of x n flg i, OF this Suc.prems(1)] obtain y where
    y: "next_clear n n flg i = Some y" "y < n" "\<not> flg y" by blast
  have F: "?F (flg(y := True)) = ?F flg - {y}" by auto
  have "card (?F (flg(y := True))) = k" unfolding F using Suc.prems(2) y by simp
  moreover have "(y + m) mod n < n" using y(2) by simp
  ultimately obtain adr where "adr_table n m k (flg(y := True)) ((y + m) mod n) = Some adr" "distinct adr"
    "set adr = ?F (flg(y := True))" using Suc.IH by blast
  with y F show ?case by (intro exI [of _ "y # adr"]) auto
qed

primrec allocs :: "nat \<Rightarrow> mkst \<Rightarrow> u16 list out" where
  "allocs 0 s = Val [] s"
| "allocs (Suc k) s = obind (mk_alloc s) (\<lambda>b s. obind (allocs k s) (\<lambda>bs. Val (b # bs)))"

lemma allocs_all:
  "free_blocks s xs \<Longrightarrow> \<exists>s'. allocs (length xs) s = Val xs s' \<and> mk_alloc s' = Exit ''out of free space''"
proof (induction xs arbitrary: s)
  case (Cons b ys)
  obtain n fr w where a: "mk_alloc s = Val b (s\<lparr>f_nfree := n, f_free := fr, mbuf := w\<rparr>)"
    "flist (img s) (img_len s) n fr ys" using mk_alloc_pop [OF Cons.prems] by blast
  then have "free_blocks (s\<lparr>f_nfree := n, f_free := fr, mbuf := w\<rparr>) ys" by simp
  from Cons.IH [OF this] a(1) show ?case by auto
qed (simp add: mk_alloc_empty)

lemma bflist_freed:
  assumes "0 < f_n s" "f_nfree s = 0" "unat (f_isize s) + 102 < 65536" "unat (f_isize s) + 2 \<le> unat (f_fsize s)"
    "unat (f_fsize s) \<le> img_room s"
  shows "\<exists>t. bflist s = Val () t \<and> freed (f_isize s + 1) (f_fsize s - 1) t
    \<and> f_isize t = f_isize s \<and> f_fsize t = f_fsize s \<and> img_room t = img_room s"
proof -
  let ?s = "if f_n s > 100 then s\<lparr>f_n := 100\<rparr> else s"
  let ?low = "f_isize s + 2" and ?high = "f_fsize s - 1"
  have s: "0 < f_n ?s" "f_n ?s \<le> 100" "f_isize ?s = f_isize s" "f_fsize ?s = f_fsize s" "img_room ?s = img_room s"
    "f_nfree ?s = 0" using assms by auto
  have low: "unat ?low = unat (f_isize s) + 2" using assms(3) by (subst unat_add_no_wrap) auto
  have "0 < unat (f_fsize s)" using assms(4) by simp
  then have high: "unat ?high = unat (f_fsize s) - 1" by (rule unat_pred)
  have "card {x. x < f_n ?s \<and> \<not> False} = f_n ?s" by simp
  from adr_table_perm [OF s(1) this, of "f_m ?s"] obtain adr where
    adr: "adr_table (f_n ?s) (f_m ?s) (f_n ?s) (\<lambda>_. False) 0 = Some adr" "distinct adr" "set adr = {..<f_n ?s}"
    unfolding lessThan_def by auto
  obtain t0 where t0: "bfree 0 ?s = Val () t0" "t0 = ?s\<lparr>f_free := (f_free ?s)(0 := 0), f_nfree := 1\<rparr>"
    using s(6) by (simp add: bfree_def sle16_def)
  have f0: "freed ?high ?high t0" unfolding freed_def by (intro exI [of _ "[]"]) (auto simp: flist_Nil t0(2))
  have k0: "f_n t0 = f_n ?s" "img_room t0 = img_room s" using s by (simp_all add: t0(2))
  have b: "0 < unat ?low" "unat ?high < img_room t0" "unat ?low \<le> unat ?high + 1"
    "unat ?high < 65537" "unat ?low + f_n t0 < 65536"
    using low high assms s k0 unat16_lt [of ?high] by auto
  obtain i t1 where t1: "free_lead 65537 ?low ?high t0 = Val i t1" "freed i ?high t1" "kept t0 t1"
    "unat ?low \<le> unat i + 1" "unat i \<le> unat ?high"
    using free_lead_freed [OF b(1,2) f0 _ b(3,4)] by auto
  note k1 = kept_fields [OF t1(3)]
  have b1: "distinct adr" "set adr = {..<f_n t1}" "0 < f_n t1" "unat ?low + f_n t1 < 65536" "unat ?high < img_room t1"
    "unat i < 65537" using adr k0 k1 s b t1(5) by auto
  obtain j t2 where t2: "free_groups 65537 adr ?low i t1 = Val j t2" "freed j ?high t2" "kept t1 t2"
    "unat ?low \<le> unat j + 1" "unat j \<le> unat i"
    using free_groups_freed [OF b1(1-4) b(1) b1(5) t1(2,5,4) b1(6)] by auto
  note k2 = kept_fields [OF t2(3)]
  obtain t3 where t3: "free_rest 65537 ?low j t2 = Val () t3" "freed (?low - 1) ?high t3" "kept t2 t3"
    using free_rest_freed [OF b(1) _ t2(2) _ t2(4), of 65537] k2 b1 t1(5) t2(5) by auto
  have "bflist s = Val () t3"
    unfolding bflist_def Let_def adr(1) s(3,4) using t0(1) t1(1) t2(1) t3(1) by simp
  moreover have "?low - 1 = f_isize s + 1" by simp
  moreover have "f_isize t3 = f_isize s \<and> f_fsize t3 = f_fsize s \<and> img_room t3 = img_room s"
    using kept_fields [OF t3(3)] k2 k1 s by (simp add: t0(2))
  ultimately show ?thesis using t3(2) by metis
qed

lemma bflist_list:
  assumes "0 < f_n s" "f_nfree s = 0" "unat (f_isize s) + 102 < 65536" "unat (f_isize s) + 2 \<le> unat (f_fsize s)"
    "unat (f_fsize s) \<le> img_room s"
  shows "\<exists>t xs. bflist s = Val () t \<and> free_blocks t xs \<and> distinct xs
    \<and> set xs = {b. unat (f_isize s) + 2 \<le> unat b \<and> unat b < unat (f_fsize s)}
    \<and> f_isize t = f_isize s \<and> f_fsize t = f_fsize s \<and> img_room t = img_room s"
proof -
  from bflist_freed [OF assms] obtain t xs where t: "bflist s = Val () t" "free_blocks t xs" "distinct xs"
    "set xs = {w. unat (f_isize s + 1) < unat w \<and> unat w \<le> unat (f_fsize s - 1)}"
    "f_isize t = f_isize s \<and> f_fsize t = f_fsize s \<and> img_room t = img_room s" unfolding freed_def by blast
  have u: "unat (f_isize s + 1) = unat (f_isize s) + 1" using assms(3) by (subst unat_add_no_wrap; simp)
  have v: "unat (f_fsize s - 1) = unat (f_fsize s) - 1" by (rule unat_pred) (use assms(4) in simp)
  have "m + 1 < w \<and> w \<le> n - 1 \<longleftrightarrow> m + 2 \<le> w \<and> w < n" for m w n :: nat by linarith
  then have "set xs = {b. unat (f_isize s) + 2 \<le> unat b \<and> unat b < unat (f_fsize s)}"
    unfolding t(4) u v by (simp only:)
  then show ?thesis using t by blast
qed



section \<open>Storing a file\<close>

lemma newblk_stores:
  assumes "free_blocks s (b # ys)" "b \<notin> set ys" "unat b < img_room s" "unat (ibc f) < 255"
  shows "\<exists>s'. newblk f s = Val (f\<lparr>db := (\<lambda>_. 0), dbc := 0, ib := (ib f)(unat (ibc f) := b), ibc := ibc f + 1\<rparr>) s'
    \<and> free_blocks s' ys \<and> img s' = (img s)(b := db f) \<and> img_len s \<le> img_len s' \<and> kept s s'"
proof -
  obtain n fr w where a: "mk_alloc s = Val b (s\<lparr>f_nfree := n, f_free := fr, mbuf := w\<rparr>)"
    "flist (img s) (img_len s) n fr ys" using mk_alloc_pop [OF assms(1)] by blast
  let ?t = "s\<lparr>img := (img s)(b := db f), img_len := max (img_len s) (unat b + 1), f_nfree := n, f_free := fr, mbuf := w\<rparr>"
  have "unat (ibc f + 1) = unat (ibc f) + 1" using assms(4) by (subst unat_add_no_wrap) auto
  then have "\<not> sle16 256 (ibc f + 1)" using sle16_small(1) [of "ibc f + 1" 256] assms(4) by simp
  then have "newblk f s = Val (f\<lparr>db := (\<lambda>_. 0), dbc := 0, ib := (ib f)(unat (ibc f) := b), ibc := ibc f + 1\<rparr>) ?t"
    using assms(3) a(1) by (simp add: newblk_def wtfs_def Let_def)
  moreover have "flist (img ?t) (img_len ?t) n fr ys" by (rule flist_disk [OF a(2)]) (use assms(2) in auto)
  then have "free_blocks ?t ys" by simp
  ultimately show ?thesis by (intro exI [of _ ?t]) (simp add: kept_def)
qed

text \<open>The \<open>j\<close>th block of a file.\<close>

definition chunk :: "u8 list \<Rightarrow> nat \<Rightarrow> block" where
  "chunk bs j = read_over (take 512 (drop (512 * j) bs)) (\<lambda>_. 0)"

definition blocks_for :: "u8 list \<Rightarrow> nat" where
  "blocks_for bs = (length bs + 511) div 512"

lemma chunk_drop: "chunk (drop 512 bs) j = chunk bs (Suc j)"
  by (simp add: chunk_def add.commute)

lemma blocks_for_step: "bs \<noteq> [] \<Longrightarrow> blocks_for bs = Suc (blocks_for (drop 512 bs))"
proof (cases "length bs \<le> 512")
  case True
  moreover assume "bs \<noteq> []"
  ultimately have "(length bs + 511) div 512 = 1" by (intro div_nat_eqI) (cases bs; simp)+
  with True show ?thesis by (simp add: blocks_for_def)
next
  case False
  then have "length bs + 511 = (length bs - 512 + 511) + 512" by simp
  then have "(length bs + 511) div 512 = (length bs - 512 + 511) div 512 + 1" by (metis div_add_self2 zero_neq_numeral)
  then show ?thesis by (simp add: blocks_for_def)
qed

lemma put_file_stores:
  assumes "free_blocks s xs" "distinct xs" "\<And>x. x \<in> set xs \<Longrightarrow> unat x < img_room s" "blocks_for bs \<le> length xs"
    "unat (ibc f) + blocks_for bs \<le> 255" "db f = (\<lambda>_. 0)" "dbc f = 0"
  shows "\<exists>f' s'. put_file bs f s = Val f' s' \<and> free_blocks s' (drop (blocks_for bs) xs)
    \<and> (\<forall>j < blocks_for bs. img s' (xs ! j) = chunk bs j) \<and> (\<forall>x. x \<notin> set (take (blocks_for bs) xs) \<longrightarrow> img s' x = img s x)
    \<and> img_len s \<le> img_len s' \<and> kept s s' \<and> dbc f' = 0 \<and> unat (ibc f') = unat (ibc f) + blocks_for bs
    \<and> inn f' = (inn f)\<lparr>n_size1 := n_size1 (inn f) + of_nat (length bs)\<rparr>
    \<and> (\<forall>i < unat (ibc f). ib f' i = ib f i) \<and> (\<forall>j < blocks_for bs. ib f' (unat (ibc f) + j) = xs ! j)"
  using assms
proof (induction bs arbitrary: f s xs rule: length_induct)
  case (1 bs)
  show ?case
  proof (cases "bs = []")
    case True
    then have "put_file bs f s = Val f s" using put_file.simps [of "[]" f s] by simp
    with 1 True show ?thesis by (intro exI [of _ f] exI [of _ s]) (simp add: blocks_for_def)
  next
    case False
    let ?c = "take 512 bs" and ?r = "drop 512 bs"
    note n = blocks_for_step [OF False]
    with "1.prems"(4) obtain b ys where xs: "xs = b # ys" by (cases xs) auto
    define g where "g = f\<lparr>db := read_over ?c (db f), inn := (inn f)\<lparr>n_size1 := n_size1 (inn f) + of_nat (length ?c)\<rparr>\<rparr>"
    have p: "put_file bs f s = obind (newblk g s) (put_file ?r)"
      using False by (simp add: put_file.simps [of bs] g_def Let_def)
    have "b \<notin> set ys" "unat b < img_room s" "unat (ibc g) < 255" using "1.prems" xs n by (auto simp: g_def)
    from newblk_stores [OF "1.prems"(1) [unfolded xs] this] obtain t where
      t: "newblk g s = Val (g\<lparr>db := (\<lambda>_. 0), dbc := 0, ib := (ib g)(unat (ibc g) := b), ibc := ibc g + 1\<rparr>) t"
      "free_blocks t ys" "img t = (img s)(b := db g)" "img_len s \<le> img_len t" "kept s t" by blast
    define h where "h = g\<lparr>db := (\<lambda>_. 0), dbc := 0, ib := (ib g)(unat (ibc g) := b), ibc := ibc g + 1\<rparr>"
    have ic: "unat (ibc h) = unat (ibc f) + 1"
      unfolding h_def g_def using "1.prems"(5) n by (simp, subst unat_add_no_wrap) auto
    have lt: "length ?r < length bs" using False by simp
    have hd: "db h = (\<lambda>_. 0)" "dbc h = 0" by (simp_all add: h_def)
    have len: "blocks_for ?r \<le> length ys" "unat (ibc h) + blocks_for ?r \<le> 255" using "1.prems"(4,5) xs n ic by simp_all
    have ys: "distinct ys" "\<And>x. x \<in> set ys \<Longrightarrow> unat x < img_room t"
      using "1.prems"(2,3) xs kept_fields [OF t(5)] by auto
    have "\<exists>f' s'. put_file ?r h t = Val f' s' \<and> free_blocks s' (drop (blocks_for ?r) ys)
      \<and> (\<forall>j < blocks_for ?r. img s' (ys ! j) = chunk ?r j) \<and> (\<forall>x. x \<notin> set (take (blocks_for ?r) ys) \<longrightarrow> img s' x = img t x)
      \<and> img_len t \<le> img_len s' \<and> kept t s' \<and> dbc f' = 0 \<and> unat (ibc f') = unat (ibc h) + blocks_for ?r
      \<and> inn f' = (inn h)\<lparr>n_size1 := n_size1 (inn h) + of_nat (length ?r)\<rparr>
      \<and> (\<forall>i < unat (ibc h). ib f' i = ib h i) \<and> (\<forall>j < blocks_for ?r. ib f' (unat (ibc h) + j) = ys ! j)"
      by (rule "1.IH" [rule_format, OF lt t(2) ys(1) _ len hd]) (rule ys(2))
    then obtain f' s' where s': "put_file ?r h t = Val f' s'" "free_blocks s' (drop (blocks_for ?r) ys)"
      "\<And>j. j < blocks_for ?r \<Longrightarrow> img s' (ys ! j) = chunk ?r j" "\<And>x. x \<notin> set (take (blocks_for ?r) ys) \<Longrightarrow> img s' x = img t x"
      "img_len t \<le> img_len s'" "kept t s'" "dbc f' = 0" "unat (ibc f') = unat (ibc h) + blocks_for ?r"
      "inn f' = (inn h)\<lparr>n_size1 := n_size1 (inn h) + of_nat (length ?r)\<rparr>"
      "\<And>i. i < unat (ibc h) \<Longrightarrow> ib f' i = ib h i" "\<And>j. j < blocks_for ?r \<Longrightarrow> ib f' (unat (ibc h) + j) = ys ! j"
      by blast
    have b: "b \<notin> set (take (blocks_for ?r) ys)" using "1.prems"(2) xs by (auto dest: in_set_takeD)
    have "(of_nat (length ?c) :: u16) + of_nat (length ?r) = of_nat (length bs)"
      by (metis append_take_drop_id length_append of_nat_add)
    then have "inn f' = (inn f)\<lparr>n_size1 := n_size1 (inn f) + of_nat (length bs)\<rparr>"
      unfolding s'(9) by (simp add: h_def g_def add.assoc)
    moreover have "img s' (xs ! j) = chunk bs j" if "j < blocks_for bs" for j
    proof (cases j)
      case 0
      have "img s' b = read_over ?c (\<lambda>_. 0)" using s'(4) [OF b] t(3) "1.prems"(6) by (simp add: g_def)
      then show ?thesis using 0 xs by (simp add: chunk_def)
    next
      case (Suc i)
      then show ?thesis using that n s'(3) [of i] xs by (simp add: chunk_drop)
    qed
    moreover have "img s' x = img s x" if "x \<notin> set (take (blocks_for bs) xs)" for x
      using that s'(4) [of x] t(3) n xs by simp
    moreover have "ib f' i = ib f i" if "i < unat (ibc f)" for i
      using s'(10) [of i] that ic by (simp add: h_def g_def)
    moreover have "ib f' (unat (ibc f) + j) = xs ! j" if "j < blocks_for bs" for j
    proof (cases j)
      case 0
      then show ?thesis using s'(10) [of "unat (ibc f)"] ic xs by (simp add: h_def g_def)
    next
      case (Suc i)
      then show ?thesis using s'(11) [of i] that n ic xs by simp
    qed
    moreover have "put_file bs f s = Val f' s'" using p t(1) s'(1) by (simp add: h_def)
    moreover have "free_blocks s' (drop (blocks_for bs) xs)" using s'(2) n xs by simp
    moreover have "img_len s \<le> img_len s'" "kept s s'" using t s' kept_trans by auto
    moreover have "unat (ibc f') = unat (ibc f) + blocks_for bs" using s'(8) ic n by simp
    ultimately show ?thesis using s'(7) by (intro exI [of _ f'] exI [of _ s']) simp
  qed
qed

text \<open>What the inode on the image says, and the bytes it leads to.\<close>

definition image_inode :: "mkst \<Rightarrow> u16 \<Rightarrow> nat \<Rightarrow> u16" where
  "image_inode s n k = img s (ldiv (n + 31) 16) (unat (lrem (n + 31) 16) * 16 + k)"

definition image_block :: "mkst \<Rightarrow> u16 \<Rightarrow> nat \<Rightarrow> u16" where
  "image_block s n j =
     (if has (image_inode s n 0) mk_ILARG then img s (image_inode s n 4) j else image_inode s n (4 + j))"

definition image_byte :: "mkst \<Rightarrow> u16 \<Rightarrow> nat \<Rightarrow> u8" where
  "image_byte s n i =
     (let w = img s (image_block s n (i div 512)) (i mod 512 div 2) in if even i then lo8 w else hi8 w)"

lemma chunk_byte:
  assumes "i < length bs"
  shows "(let w = chunk bs (i div 512) (i mod 512 div 2) in if even i then lo8 w else hi8 w) = bs ! i"
proof -
  let ?c = "take 512 (drop (512 * (i div 512)) bs)" and ?k = "i mod 512"
  have k: "?k < length ?c" "?c ! ?k = bs ! i" using assms by (auto simp: less_diff_conv mod_div_decomp)
  have ev: "even i \<longleftrightarrow> even ?k" by (simp add: dvd_mod_iff)
  show ?thesis
  proof (cases "even ?k")
    case True
    then have "2 * (?k div 2) = ?k" by simp
    with True k ev show ?thesis by (auto simp: chunk_def read_over_def Let_def lo8_mk16)
  next
    case False
    then have o: "2 * (?k div 2) + 1 = ?k" by (rule odd_two_times_div_two_succ)
    have "chunk bs (i div 512) (?k div 2) = mk16 (?c ! ?k) (?c ! (2 * (?k div 2)))"
      unfolding chunk_def read_over_def o using k(1) by simp
    with False k(2) ev show ?thesis by (simp add: Let_def hi8_mk16)
  qed
qed

lemma has_zero_and: "x AND m = 0 \<Longrightarrow> \<not> has x m"
  by (simp add: has_def)

lemma mode_digits_plain: "k \<le> 3 \<Longrightarrow> mode_digits k m s = Val m' s' \<Longrightarrow> s' = s \<and> (has m' mk_ILARG \<longleftrightarrow> has m mk_ILARG)"
proof (induction k arbitrary: m)
  case (Suc k)
  let ?c = "tch s (5 - k)"
  from Suc.prems have c: "\<not> (?c < 48 \<or> ?c > 55)"
    and r: "mode_digits k (m OR push_bit (15 - 3 * (5 - k)) (ucast ?c - 48)) s = Val m' s'"
    by (auto simp: Let_def split: if_splits)
  have "unat ?c \<in> {48..55}" using c by (auto simp: word_less_nat_alt)
  then have "unat ?c \<in> set [48..<56]" by auto
  moreover have "?c = of_nat (unat ?c)" by simp
  ultimately have "?c \<in> set (map of_nat [48..<56])" unfolding set_map by blast
  then have "?c \<in> {48, 49, 50, 51, 52, 53, 54, 55}" by (simp add: upt_rec)
  moreover have "k \<in> {0, 1, 2}" using Suc.prems(1) by auto
  ultimately have "\<not> has (push_bit (15 - 3 * (5 - k)) (ucast ?c - 48) :: u16) mk_ILARG"
    by (auto simp: mk_ILARG_def has_def)
  with Suc.IH [OF _ r] Suc.prems(1) show ?case by simp
qed simp

lemma gmode_val: "gmode c cs m0 m1 m2 s = Val m t \<Longrightarrow> t = s \<and> m \<in> {m0, m1, m2, 0}"
  by (auto simp: gmode_def split: option.splits if_splits)

lemma file_mode_plain: "file_mode s = Val m s' \<Longrightarrow> s' = s \<and> \<not> has m mk_ILARG"
proof -
  assume "file_mode s = Val m s'"
  then obtain m0 m1 m2 t0 t1 t2 where m: "gmode (tch s 0) (bytes ''bcd'') mk_IFBLK mk_IFCHR mk_IFDIR s = Val m0 t0"
    "gmode (tch t0 1) (bytes ''u'') mk_ISUID 0 0 t0 = Val m1 t1" "gmode (tch t1 2) (bytes ''g'') mk_ISGID 0 0 t1 = Val m2 t2"
    "mode_digits 3 (mk_IALLOC OR m0 OR m1 OR m2) t2 = Val m s'"
    unfolding file_mode_def obind_Val by blast
  note g = gmode_val [OF m(1)] gmode_val [OF m(2)] gmode_val [OF m(3)]
  have "\<not> has m0 mk_ILARG" "\<not> has m1 mk_ILARG" "\<not> has m2 mk_ILARG" "\<not> has mk_IALLOC mk_ILARG"
    using g by (auto simp: mk_IALLOC_def mk_ILARG_def mk_IFBLK_def mk_IFCHR_def mk_IFDIR_def mk_ISUID_def mk_ISGID_def)
  with mode_digits_plain [OF _ m(4)] g show ?thesis by simp
qed

lemma start_file_val:
  assumes "start_file s = Val f s1"
  shows "dbc f = 0 \<and> db f = (\<lambda>_. 0) \<and> ibc f = 0 \<and> n_size1 (inn f) = 0 \<and> \<not> has (n_mode (inn f)) mk_ILARG"
  using assms unfolding start_file_def obind_Val
  by (auto simp: Let_def dest: file_mode_plain split: if_splits)

definition inode_home :: "u16 \<Rightarrow> u16" where
  "inode_home n = ldiv (n + 31) 16"

lemma put_inode_stores:
  assumes "unat (inode_home (n_number p)) < img_len s" "unat (inode_home (n_number p)) < img_room s"
  shows "\<exists>s'. put_inode p s = Val p s' \<and> (\<forall>k < 16. image_inode s' (n_number p) k = inode_block_words p k)
    \<and> (\<forall>x. x \<noteq> inode_home (n_number p) \<longrightarrow> img s' x = img s x) \<and> img_len s \<le> img_len s'
    \<and> f_nfree s' = f_nfree s \<and> f_free s' = f_free s"
  using assms by (auto simp: put_inode_def inode_home_def image_inode_def Let_def rdfs_def wtfs_def)

text \<open>The inode of a file with the blocks \<open>xs\<close>.\<close>

lemma finish_stores:
  assumes "dbc f = 0" "unat (ibc f) \<le> 255" "free_blocks s ys" "distinct ys" "unat (ibc f) > 8 \<longrightarrow> ys \<noteq> []"
    "\<And>y. y \<in> set ys \<Longrightarrow> y \<noteq> inode_home (n_number (inn f)) \<and> unat y < img_room s"
    "unat (inode_home (n_number (inn f))) < img_len s" "unat (inode_home (n_number (inn f))) < img_room s"
    "\<not> has (n_mode (inn f)) mk_ILARG"
  defines "zs \<equiv> (if unat (ibc f) > 8 then tl ys else ys)" and "n \<equiv> n_number (inn f)"
  shows "\<exists>p s'. finish f s = Val p s' \<and> free_blocks s' zs
    \<and> (\<forall>j < unat (ibc f). image_block s' n j = ib f j) \<and> image_inode s' n 3 = n_size1 (inn f)
    \<and> image_inode s' n 1 = mk16 (n_uid (inn f)) (n_nlink (inn f)) \<and> image_inode s' n 2 = mk16 (n_size0 (inn f)) (n_gid (inn f))
    \<and> image_inode s' n 0 = (if unat (ibc f) > 8 then n_mode (inn f) OR mk_ILARG else n_mode (inn f))
    \<and> (\<forall>x. x \<noteq> inode_home n \<longrightarrow> x \<notin> set ys \<longrightarrow> img s' x = img s x)"
proof (cases "unat (ibc f) > 8")
  case False
  let ?p = "(inn f)\<lparr>n_addr := (\<lambda>i. if i < unat (ibc f) then ib f i else n_addr (inn f) i)\<rparr>"
  have "sle16 (ibc f) 8" using sle16_small(2) [of "ibc f" 8] assms(2) False by simp
  then have fin: "finish f s = put_inode ?p s" using assms(1) by (simp add: finish_def)
  from put_inode_stores [of ?p s] assms(7,8) obtain s' where
    s': "put_inode ?p s = Val ?p s'" "\<And>k. k < 16 \<Longrightarrow> image_inode s' n k = inode_block_words ?p k"
      "\<And>x. x \<noteq> inode_home n \<Longrightarrow> img s' x = img s x" "img_len s \<le> img_len s'" "f_nfree s' = f_nfree s" "f_free s' = f_free s"
    by (auto simp: n_def)
  have "free_blocks s' ys" unfolding s'(5,6)
    by (rule flist_disk [OF assms(3)]) (use s'(3,4) assms(6) in \<open>auto simp: n_def\<close>)
  moreover have "image_block s' n j = ib f j" if "j < unat (ibc f)" for j
    using that False s'(2) [of 0] s'(2) [of "4 + j"] assms(9) by (simp add: image_block_def inode_block_words_def)
  ultimately show ?thesis using False fin s'(1,3) s'(2) [of 0] s'(2) [of 1] s'(2) [of 2] s'(2) [of 3]
    by (intro exI [of _ ?p] exI [of _ s']) (simp add: zs_def inode_block_words_def)
next
  case True
  with assms(5) obtain b cs where ys: "ys = b # cs" by (cases ys) auto
  obtain m fr w where a: "mk_alloc s = Val b (s\<lparr>f_nfree := m, f_free := fr, mbuf := w\<rparr>)"
    "flist (img s) (img_len s) m fr cs" using mk_alloc_pop assms(3) ys by blast
  let ?t = "s\<lparr>f_nfree := m, f_free := fr, mbuf := w, img := (img s)(b := ib f), img_len := max (img_len s) (unat b + 1)\<rparr>"
  let ?p = "(inn f)\<lparr>n_mode := n_mode (inn f) OR mk_ILARG, n_addr := (n_addr (inn f))(0 := b)\<rparr>"
  have "\<not> sle16 (ibc f) 8" using sle16_small(2) [of "ibc f" 8] assms(2) True by simp
  then have fin: "finish f s = put_inode ?p ?t"
    using assms(1,6) a(1) ys by (simp add: finish_def wtfs_def)
  have "unat (inode_home (n_number ?p)) < img_len ?t" "unat (inode_home (n_number ?p)) < img_room ?t"
    using assms(7,8) by (simp_all add: less_max_iff_disj)
  from put_inode_stores [OF this] obtain s' where
    s': "put_inode ?p ?t = Val ?p s'" "\<And>k. k < 16 \<Longrightarrow> image_inode s' n k = inode_block_words ?p k"
      "\<And>x. x \<noteq> inode_home n \<Longrightarrow> img s' x = img ?t x" "img_len ?t \<le> img_len s'" "f_nfree s' = m" "f_free s' = fr"
    by (auto simp: n_def)
  have nb: "b \<noteq> inode_home n" "b \<notin> set cs" using assms(4,6) ys by (auto simp: n_def)
  have "free_blocks s' cs" unfolding s'(5,6)
    by (rule flist_disk [OF a(2)]) (use s'(3,4) assms(6) ys nb in \<open>auto simp: n_def\<close>)
  moreover have "image_block s' n j = ib f j" for j
    using s'(2) [of 0] s'(2) [of 4] s'(3) [OF nb(1)]
    by (simp add: image_block_def inode_block_words_def) (simp add: mk_ILARG_def has_def)
  ultimately show ?thesis using True fin s'(1,3) ys s'(2) [of 0] s'(2) [of 1] s'(2) [of 2] s'(2) [of 3]
    by (intro exI [of _ ?p] exI [of _ s']) (simp add: zs_def inode_block_words_def)
qed

lemma blocks_for_le: "length bs \<le> 512 * k \<Longrightarrow> blocks_for bs \<le> k"
proof -
  assume "length bs \<le> 512 * k"
  then have "(length bs + 511) div 512 \<le> (512 * k + 511) div 512" by (intro div_le_mono) simp
  then show ?thesis by (simp add: blocks_for_def)
qed

lemma block_lt: "i < length bs \<Longrightarrow> i div 512 < blocks_for bs"
proof -
  assume "i < length bs"
  then have "i + 512 \<le> length bs + 511" by simp
  then have "(i + 512) div 512 \<le> (length bs + 511) div 512" by (rule div_le_mono)
  then show ?thesis by (simp add: blocks_for_def)
qed


lemma mode_digits_numeral: "mode_digits (numeral v) m s =
    (let k = pred_numeral v; i = 5 - k; c = tch s i
     in if c < 48 \<or> c > 55 then Exit ''bad digit''
        else mode_digits k (m OR push_bit (15 - 3 * i) (ucast c - 48)) s)"
  by (simp add: numeral_eq_Suc Let_def)


section \<open>The nesting bound\<close>

text \<open>A step does not run out of depth and reads at least \<open>k\<close> bytes of the prototype.\<close>

definition rd_reads :: "nat \<Rightarrow> mkst \<Rightarrow> 'a out \<Rightarrow> bool" where
  "rd_reads k s r \<longleftrightarrow> r \<noteq> Deep \<and> (\<forall>x t. r = Val x t \<longrightarrow> length (inp t) + k \<le> length (inp s))"

lemma reads_obind: "rd_reads k s r \<Longrightarrow> (\<And>x t. r = Val x t \<Longrightarrow> length (inp t) + k \<le> length (inp s) \<Longrightarrow> rd_reads 0 t (f x t)) \<Longrightarrow>
    rd_reads k s (obind r f)"
  by (cases r) (fastforce simp: rd_reads_def)+

lemma reads_Val [simp]: "rd_reads k s (Val x t) \<longleftrightarrow> length (inp t) + k \<le> length (inp s)"
  by (simp add: rd_reads_def)

lemma reads_Exit [simp]: "rd_reads k s (Exit m)" "rd_reads k s Undef"
  by (simp_all add: rd_reads_def)

lemma reads_0: "rd_reads k s r \<Longrightarrow> rd_reads 0 s r"
  by (auto simp: rd_reads_def dest: add_leD1)

lemma reads_state: "inp s = inp s' \<Longrightarrow> rd_reads k s r \<Longrightarrow> rd_reads k s' r"
  by (simp add: rd_reads_def)

lemma reads_rdfs: "rd_reads 0 s (rdfs b s)"
  by (simp add: rdfs_def)

lemma reads_wtfs: "inp t = inp s \<Longrightarrow> rd_reads 0 s (wtfs b w t)"
  by (simp add: wtfs_def)

lemma reads_alloc: "rd_reads 0 s (mk_alloc s)"
  by (auto simp: mk_alloc_def Let_def intro!: reads_obind reads_state [OF _ reads_rdfs])

lemma reads_newblk: "rd_reads 0 s (newblk f s)"
  by (auto simp: newblk_def Let_def intro!: reads_obind reads_alloc reads_wtfs)

lemma reads_entry: "rd_reads 0 s (mk_entry n str f s)"
  by (simp add: mk_entry_def Let_def reads_newblk)

lemma reads_put_file: "rd_reads 0 s (put_file bs f s)"
proof (induction bs f s rule: put_file.induct)
  case (1 bs f s)
  then show ?case by (subst put_file.simps) (auto simp: Let_def intro!: reads_obind reads_newblk)
qed

lemma reads_put_inode: "rd_reads 0 s (put_inode p s)"
  by (auto simp: put_inode_def Let_def intro!: reads_obind reads_rdfs reads_wtfs)

lemma reads_finish: "rd_reads 0 s (finish f s)"
  by (auto simp: finish_def intro!: reads_obind reads_newblk reads_alloc reads_wtfs reads_put_inode)

lemma skip_length:
  "skip_blank cs = Some ds \<Longrightarrow> length ds \<le> length cs"
  "skip_line cs = Some ds \<Longrightarrow> length ds \<le> length cs"
  by (induction cs and cs rule: skip_blank_skip_line.induct) (auto split: if_splits)

lemma take_token_length: "take_token acc cs = Some (t, rest) \<Longrightarrow> length rest < length cs"
  by (induction acc cs rule: take_token.induct) (fastforce split: if_splits)+

lemma reads_getstr: "rd_reads (Suc 0) s (getstr s)"
  using skip_length(1) [of "inp s"]
  by (auto simp: getstr_def split: option.splits list.splits dest!: take_token_length)

lemma reads_getnum: "rd_reads (Suc 0) s (getnum s)"
  by (auto simp: getnum_def intro!: reads_obind reads_getstr split: option.splits)

lemma reads_mode_digits: "rd_reads 0 s (mode_digits k m s)"
  by (induction k arbitrary: m) (simp_all add: Let_def)

lemma reads_gmode: "rd_reads 0 s (gmode c cs m0 m1 m2 s)"
  by (simp add: gmode_def split: option.split)

lemma reads_file_mode: "rd_reads 0 s (file_mode s)"
  unfolding file_mode_def by (intro reads_obind reads_gmode reads_mode_digits)

lemma reads_start: "rd_reads (Suc 0) s (start_file s)"
  unfolding start_file_def
  by (intro reads_obind reads_getstr reads_file_mode reads_0 [OF reads_getnum]) (simp add: Let_def)

lemma reads_let: "rd_reads 0 t (f x) \<Longrightarrow> rd_reads 0 t (Let x f)"
  by simp

lemma cfile_reads:
  "length (inp s) < n \<Longrightarrow> rd_reads (Suc 0) s (cfile n cont par s)"
  "length (inp s) < n \<Longrightarrow> rd_reads (Suc 0) s (cdir n cont f s)"
proof (induction n arbitrary: s par f)
  case (Suc k)
  { case 1
    have dir: "rd_reads 0 t (cdir k cont g t)" if "length (inp t) < length (inp s)" for g t
      by (rule reads_0, rule Suc.IH(2)) (use that 1 in simp)
    have str: "rd_reads 0 t (getstr t)" "rd_reads 0 t (getnum t)" for t
      by (rule reads_0, rule reads_getstr, rule reads_0, rule reads_getnum)
    show ?case
      unfolding cfile.simps
    proof (rule reads_obind [OF reads_start], goal_cases)
      case (1 f t)
      have d: "length (inp u) < length (inp s)" if "length (inp u) + 0 \<le> length (inp t)" for u
        using 1(2) that by simp
      show ?case
        unfolding Let_def
        apply (rule reads_obind)
         apply (split if_split, intro conjI impI)
          apply (rule reads_obind [OF str(1)])
          apply (simp split: option.split add: reads_obind [OF reads_put_file])
         apply (split if_split, intro conjI impI)
          apply (rule reads_obind [OF str(2)])+
          apply simp
         apply (split prod.split, intro allI impI)+
         apply (rule reads_obind [OF reads_entry])+
         apply (rule reads_obind [OF dir])
          apply (rule d)
          apply simp
         apply simp
        apply (split prod.split, intro allI impI)
        apply (rule reads_obind [OF reads_finish])
        apply simp
        done
    qed
  next
    case 2
    show ?case
      unfolding cdir.simps
    proof (rule reads_obind [OF reads_getstr], goal_cases)
      case (1 x t)
      show ?case
      proof (cases "tok t = [36]")
        case False
        have sub: "length (inp u) < k" if "length (inp u) + 0 \<le> length (inp t)" for u
          using 1(2) 2 that by simp
        have cf: "rd_reads 0 u (cfile k cont p u)" if "length (inp u) + 0 \<le> length (inp t)" for p u
          by (rule reads_0, rule Suc.IH(1), rule sub, rule that)
        have cd: "rd_reads 0 u (cdir k cont g u)" if "length (inp u) + 0 \<le> length (inp t)" for g u
          by (rule reads_0, rule Suc.IH(2), rule sub, rule that)
        show ?thesis
          using False unfolding Let_def
          by (auto intro!: reads_obind reads_entry cf cd split: option.split)
      qed simp
    qed }
qed simp_all

text \<open>The bound \<open>mkfs_build\<close> gives \<open>cfile\<close> is never reached.\<close>

lemma cfile_fuel: "cfile (length (inp s) + 1) cont par s \<noteq> Deep"
  using cfile_reads(1) [of s "length (inp s) + 1" cont par] by (simp add: rd_reads_def)

text \<open>
  The check of the inode number is one division too weak: the last inode that fits has the number
  \<open>16 * f_isize\<close>, but the next fifteen numbers pass it too, and their inodes lie on the first data block.
\<close>

lemma inode_check_late:
  assumes "16 * unat i + k < 32700" "0 < k" "k < 16"
  shows "\<not> i < ldiv (16 * i + of_nat k) 16" and "inode_home (16 * i + of_nat k) = i + 2"
proof -
  have u: "unat (16 * i + of_nat k) = 16 * unat i + k"
    using assms by (subst unat_add_no_wrap) (simp_all add: unat_mult_lem [THEN iffD1] unat_of_nat unat_word_ariths)
  have "unat (ldiv (16 * i + of_nat k) 16) = (16 * unat i + k) div 16"
    using assms by (subst ldiv_pos(1)) (simp_all add: u)
  also have "\<dots> = unat i" using assms(3) by simp
  finally show "\<not> i < ldiv (16 * i + of_nat k) 16" by (simp add: word_less_nat_alt)
  have v: "unat (16 * i + of_nat k + 31) = 16 * unat i + k + 31"
    using assms by (subst unat_add_no_wrap) (simp_all add: u)
  have "unat (inode_home (16 * i + of_nat k)) = (16 * unat i + k + 31) div 16"
    using assms unfolding inode_home_def by (subst ldiv_pos(1)) (simp_all add: v)
  also have "\<dots> = unat i + 2" using assms(2,3) by (intro div_nat_eqI) auto
  also have "\<dots> = unat (i + 2)" using assms(1) by (subst unat_add_no_wrap) auto
  finally show "inode_home (16 * i + of_nat k) = i + 2" by (simp add: word_unat_eq_iff)
qed

end
