(* ===== verification/Ulib.thy ===== *)
theory Ulib
  imports UserLib
begin

text \<open>
  The library of the user programs (\<open>usr/ulib.c\<close>): the storage allocator, the string and memory
  functions on the bytes of the process, and \<open>mkdir\<close> on the results of its system calls.  Addresses have
  16 bits and wrap.  A loop that has no bound of its own has a number of turns as its first argument
  and the result \<open>None\<close> when they are used up.
\<close>

section \<open>Storage\<close>

text \<open>
  A header is 4 bytes: the next free block and the size in headers.  \<open>hdr\<close> is the memory seen as
  headers, \<open>ubase\<close> and \<open>uheap\<close> are the addresses of \<open>base\<close> and \<open>heap\<close>, which holds 4096 headers; a
  \<open>freep\<close> of 0 is null.
\<close>

record heapst =
  h_ptr :: "u16 \<Rightarrow> u16"
  h_size :: "u16 \<Rightarrow> u16"
  freep :: u16
  ubase :: u16
  uheap :: u16

abbreviation HDR :: u16 where "HDR \<equiv> 4"

text \<open>The search of \<open>free\<close> for the block in front of \<open>bp\<close>.\<close>

fun free_spot :: "nat \<Rightarrow> (u16 \<Rightarrow> u16) \<Rightarrow> u16 \<Rightarrow> u16 \<Rightarrow> u16 option" where
  "free_spot 0 ptr bp p = None"
| "free_spot (Suc k) ptr bp p =
     (if bp > p \<and> bp < ptr p then Some p
      else if p \<ge> ptr p \<and> (bp > p \<or> bp < ptr p) then Some p
      else free_spot k ptr bp (ptr p))"

text \<open>\<open>bp\<close> is joined with the block behind it, then with the one in front of it.\<close>

definition join_next :: "u16 \<Rightarrow> u16 \<Rightarrow> heapst \<Rightarrow> heapst" where
  "join_next p bp h =
     (let q = h_ptr h p
      in if bp + HDR * h_size h bp = q
         then h\<lparr>h_size := (h_size h)(bp := h_size h bp + h_size h q), h_ptr := (h_ptr h)(bp := h_ptr h q)\<rparr>
         else h\<lparr>h_ptr := (h_ptr h)(bp := q)\<rparr>)"

definition join_prev :: "u16 \<Rightarrow> u16 \<Rightarrow> heapst \<Rightarrow> heapst" where
  "join_prev p bp h =
     (if p + HDR * h_size h p = bp
      then h\<lparr>h_size := (h_size h)(p := h_size h p + h_size h bp), h_ptr := (h_ptr h)(p := h_ptr h bp)\<rparr>
      else h\<lparr>h_ptr := (h_ptr h)(p := bp)\<rparr>)"

definition ufree :: "nat \<Rightarrow> u16 \<Rightarrow> heapst \<Rightarrow> heapst option" where
  "ufree k ap h =
     (let bp = ap - HDR
      in map_option (\<lambda>p. (join_prev p bp (join_next p bp h))\<lparr>freep := p\<rparr>) (free_spot k (h_ptr h) bp (freep h)))"

definition morecore :: "nat \<Rightarrow> heapst \<Rightarrow> heapst option" where
  "morecore k h = ufree k (uheap h + HDR) (h\<lparr>h_size := (h_size h)(uheap h := 4096)\<rparr>)"

definition nunits_of :: "u16 \<Rightarrow> u16" where
  "nunits_of nbytes = (nbytes + HDR - 1) div HDR + 1"

text \<open>The block \<open>p\<close> behind \<open>prevp\<close> is large enough.\<close>

definition take_block :: "u16 \<Rightarrow> u16 \<Rightarrow> u16 \<Rightarrow> heapst \<Rightarrow> u16 \<times> heapst" where
  "take_block n prevp p h =
     (if h_size h p = n then (p + HDR, h\<lparr>h_ptr := (h_ptr h)(prevp := h_ptr h p), freep := prevp\<rparr>)
      else (let rest = h_size h p - n; q = p + HDR * rest
            in (q + HDR, h\<lparr>h_size := (h_size h)(p := rest, q := n), freep := prevp\<rparr>)))"

fun malloc_loop :: "nat \<Rightarrow> u16 \<Rightarrow> u16 \<Rightarrow> u16 \<Rightarrow> heapst \<Rightarrow> (u16 \<times> heapst) option" where
  "malloc_loop 0 n prevp p h = None"
| "malloc_loop (Suc k) n prevp p h =
     (if h_size h p \<ge> n then Some (take_block n prevp p h)
      else if p = freep h then
        (case morecore k h of
           None \<Rightarrow> None
         | Some h \<Rightarrow> (let p = freep h in if p = 0 then Some (0, h) else malloc_loop k n p (h_ptr h p) h))
      else malloc_loop k n p (h_ptr h p) h)"

definition umalloc :: "nat \<Rightarrow> u16 \<Rightarrow> heapst \<Rightarrow> (u16 \<times> heapst) option" where
  "umalloc k nbytes h =
     (let h = (if freep h = 0
               then h\<lparr>h_ptr := (h_ptr h)(ubase h := ubase h), h_size := (h_size h)(ubase h := 0), freep := ubase h\<rparr>
               else h)
      in malloc_loop k (nunits_of nbytes) (freep h) (h_ptr h (freep h)) h)"

section \<open>Strings\<close>

type_synonym umem = "u16 \<Rightarrow> u8"

fun strcpy :: "nat \<Rightarrow> u16 \<Rightarrow> u16 \<Rightarrow> umem \<Rightarrow> umem option" where
  "strcpy 0 s t m = None"
| "strcpy (Suc k) s t m =
     (let m' = m(s := m t) in if m t \<noteq> 0 then strcpy k (s + 1) (t + 1) m' else Some m')"

fun strcmp :: "nat \<Rightarrow> u16 \<Rightarrow> u16 \<Rightarrow> umem \<Rightarrow> u16 option" where
  "strcmp 0 p q m = None"
| "strcmp (Suc k) p q m =
     (if m p \<noteq> 0 \<and> m p = m q then strcmp k (p + 1) (q + 1) m else Some (ucast (m p) - ucast (m q)))"

fun strlen :: "nat \<Rightarrow> u16 \<Rightarrow> umem \<Rightarrow> u16 option" where
  "strlen 0 s m = None"
| "strlen (Suc k) s m = (if m s \<noteq> 0 then map_option (\<lambda>n. n + 1) (strlen k (s + 1) m) else Some 0)"

fun str_end :: "nat \<Rightarrow> u16 \<Rightarrow> umem \<Rightarrow> u16 option" where
  "str_end 0 s m = None"
| "str_end (Suc k) s m = (if m s \<noteq> 0 then str_end k (s + 1) m else Some s)"

definition strcat :: "nat \<Rightarrow> u16 \<Rightarrow> u16 \<Rightarrow> umem \<Rightarrow> umem option" where
  "strcat k s1 s2 m = (case str_end k s1 m of None \<Rightarrow> None | Some e \<Rightarrow> strcpy k e s2 m)"

fun strncmp :: "nat \<Rightarrow> u16 \<Rightarrow> u16 \<Rightarrow> umem \<Rightarrow> u16" where
  "strncmp 0 p q m = 0"
| "strncmp (Suc n) p q m =
     (if m p \<noteq> 0 \<and> m p = m q then strncmp n (p + 1) (q + 1) m else ucast (m p) - ucast (m q))"

fun put_zeros :: "nat \<Rightarrow> u16 \<Rightarrow> umem \<Rightarrow> umem" where
  "put_zeros 0 s m = m"
| "put_zeros (Suc n) s m = put_zeros n (s + 1) (m(s := 0))"

text \<open>A negative length does nothing in the next two, so the length is a natural number.\<close>

fun strncpy :: "nat \<Rightarrow> u16 \<Rightarrow> u16 \<Rightarrow> umem \<Rightarrow> umem" where
  "strncpy 0 s t m = m"
| "strncpy (Suc n) s t m =
     (let m' = m(s := m t) in if m t \<noteq> 0 then strncpy n (s + 1) (t + 1) m' else put_zeros n (s + 1) m')"

fun safestrcpy :: "nat \<Rightarrow> u16 \<Rightarrow> u16 \<Rightarrow> umem \<Rightarrow> umem" where
  "safestrcpy 0 s t m = m"
| "safestrcpy (Suc 0) s t m = m(s := 0)"
| "safestrcpy (Suc (Suc n)) s t m =
     (let m' = m(s := m t)
      in if m t \<noteq> 0 then safestrcpy (Suc n) (s + 1) (t + 1) m' else m'(s + 1 := 0))"

fun strchr :: "nat \<Rightarrow> u16 \<Rightarrow> u8 \<Rightarrow> umem \<Rightarrow> u16 option" where
  "strchr 0 s c m = None"
| "strchr (Suc k) s c m =
     (if m s = 0 then Some 0 else if m s = c then Some s else strchr k (s + 1) c m)"

fun atoi :: "nat \<Rightarrow> u16 \<Rightarrow> u16 \<Rightarrow> umem \<Rightarrow> u16 option" where
  "atoi 0 n s m = None"
| "atoi (Suc k) n s m =
     (if 48 \<le> m s \<and> m s \<le> 57 then atoi k (n * 10 + ucast (m s) - 48) (s + 1) m else Some n)"

section \<open>Memory\<close>

fun memset :: "nat \<Rightarrow> u16 \<Rightarrow> u8 \<Rightarrow> umem \<Rightarrow> umem" where
  "memset 0 d c m = m"
| "memset (Suc n) d c m = memset n (d + 1) c (m(d := c))"

fun memcmp :: "nat \<Rightarrow> u16 \<Rightarrow> u16 \<Rightarrow> umem \<Rightarrow> u16" where
  "memcmp 0 p q m = 0"
| "memcmp (Suc n) p q m =
     (if m p \<noteq> m q then ucast (m p) - ucast (m q) else memcmp n (p + 1) (q + 1) m)"

fun copy_up :: "nat \<Rightarrow> u16 \<Rightarrow> u16 \<Rightarrow> umem \<Rightarrow> umem" where
  "copy_up 0 d s m = m"
| "copy_up (Suc n) d s m = copy_up n (d + 1) (s + 1) (m(d := m s))"

fun copy_down :: "nat \<Rightarrow> u16 \<Rightarrow> u16 \<Rightarrow> umem \<Rightarrow> umem" where
  "copy_down 0 d s m = m"
| "copy_down (Suc n) d s m = copy_down n (d - 1) (s - 1) (m(d - 1 := m (s - 1)))"

definition memmove :: "u16 \<Rightarrow> u16 \<Rightarrow> u16 \<Rightarrow> umem \<Rightarrow> umem" where
  "memmove d s n m =
     (if s < d \<and> s + n > d then copy_down (unat n) (d + n) (s + n) m else copy_up (unat n) d s m)"

section \<open>Error messages\<close>

definition sys_errlist :: "string list" where
  "sys_errlist =
  [''Error 0'', ''Not super-user'', ''No such file or directory'', ''No such process'',
   ''Interrupted system call'', ''I/O error'', ''No such device or address'', ''Arg list too long'',
   ''Exec format error'', ''Bad file number'', ''No children'', ''No more processes'',
   ''Not enough core'', ''Permission denied'', ''Error 14'', ''Block device required'',
   ''Mount device busy'', ''File exists'', ''Cross-device link'', ''No such device'',
   ''Not a directory'', ''Is a directory'', ''Invalid argument'', ''File table overflow'',
   ''Too many open files'', ''Not a typewriter'', ''Text file busy'', ''File too large'',
   ''No space left on device'', ''Illegal seek'', ''Read-only file system'', ''Too many links'',
   ''Broken Pipe'']"

text \<open>
  What \<open>perror\<close> writes to descriptor 2, each \<open>write\<close> a part; the result is undefined for a negative \<open>errno\<close>, for which
  the table is read below its start.
\<close>

definition perror :: "int \<Rightarrow> u8 list \<Rightarrow> u8 list list option" where
  "perror errno s =
     (if errno < 0 then None
      else
        let c = (if errno < int (length sys_errlist) then sys_errlist ! nat errno else ''Unknown error'')
        in Some ((if s \<noteq> [] then [s, bytes '': ''] else []) @ [bytes c, [10]]))"

section \<open>Making a directory\<close>

text \<open>
  \<open>mkdir\<close> with the results of its \<open>mknod\<close> and its two \<open>link\<close>s: the calls it makes and its own result.
  Its clean-up after the second \<open>link\<close> stores the NUL where it already is.
\<close>

datatype ucall = C_mknod "u8 list" u16 u16 | C_chown "u8 list" | C_link "u8 list" "u8 list" | C_unlink "u8 list"
  | C_perror string

definition dir_part :: "u8 list \<Rightarrow> u8 list" where
  "dir_part d = rev (dropWhile (\<lambda>c. c \<noteq> 47) (rev d)) @ [46]"

definition mkdir :: "u8 list \<Rightarrow> int \<Rightarrow> int \<Rightarrow> int \<Rightarrow> ucall list \<times> int" where
  "mkdir d mknod_r link1_r link2_r =
     (let dot = d @ bytes ''/.''; dotdot = d @ bytes ''/..''
      in if mknod_r < 0 then ([C_mknod d 0x41FF 0, C_perror ''mknod''], -1)
         else if link1_r < 0 then
           ([C_mknod d 0x41FF 0, C_chown d, C_link d dot, C_perror ''link .'', C_unlink d], -1)
         else if link2_r < 0 then
           ([C_mknod d 0x41FF 0, C_chown d, C_link d dot, C_link (dir_part d) dotdot, C_perror ''link ..'',
             C_unlink dotdot, C_unlink d], -1)
         else ([C_mknod d 0x41FF 0, C_chown d, C_link d dot, C_link (dir_part d) dotdot], 0))"

end
