(* ===== verification/UlibFacts.thy ===== *)
theory UlibFacts
  imports Ulib
begin

text \<open>
  Facts about the user library: \<open>memmove\<close> copies as if through a buffer, \<open>safestrcpy\<close> stays inside its
  buffer and ends the string, and the allocator gives out memory that is in use when it runs dry.
\<close>

section \<open>Copying\<close>

lemma unat_plus_nat: "unat (a :: u16) + n < 65536 \<Longrightarrow> unat (a + of_nat n) = unat a + n"
  by (subst unat_add_no_wrap) (simp_all add: unat_of_nat)

lemma unat_plus_one: "unat (a :: u16) + 1 < 65536 \<Longrightarrow> unat (a + 1) = unat a + 1"
  by (subst unat_add_no_wrap) simp_all

text \<open>The bytes from \<open>d\<close> on replaced by those from \<open>s\<close> on.\<close>

definition moved_bytes :: "u16 \<Rightarrow> u16 \<Rightarrow> nat \<Rightarrow> umem \<Rightarrow> umem" where
  "moved_bytes d s n m = (\<lambda>a. if unat d \<le> unat a \<and> unat a < unat d + n then m (s + (a - d)) else m a)"

lemma copy_up_moves:
  assumes "unat d + n \<le> 65536" "unat s + n \<le> 65536" "\<not> (unat s < unat d \<and> unat d < unat s + n)"
  shows "copy_up n d s m = moved_bytes d s n m"
  using assms
proof (induction n arbitrary: d s m)
  case 0
  then show ?case by (auto simp: moved_bytes_def fun_eq_iff)
next
  case (Suc n)
  show ?case
  proof (cases "n = 0")
    case True
    have "unat d \<le> unat a \<and> unat a < unat d + 1 \<longleftrightarrow> a = d" for a by (auto simp: word_unat_eq_iff)
    then show ?thesis using True by (simp add: moved_bytes_def fun_eq_iff)
  next
    case False
    then have "unat d + 1 < 65536" "unat s + 1 < 65536" using Suc.prems(1,2) by linarith+
    then have u: "unat (d + 1) = unat d + 1" "unat (s + 1) = unat s + 1" by (simp_all add: unat_plus_one)
    with Suc have ih: "copy_up n (d + 1) (s + 1) (m(d := m s)) = moved_bytes (d + 1) (s + 1) n (m(d := m s))"
      by (intro Suc.IH) auto
    show ?thesis
    proof
      fix a
      show "copy_up (Suc n) d s m a = moved_bytes d s (Suc n) m a"
      proof (cases "unat d + 1 \<le> unat a \<and> unat a < unat d + Suc n")
        case True
        have "unat (a - d) = unat a - unat d" using True by (intro unat_sub_le) (simp add: word_le_nat_alt)
        then have "unat (s + (a - d)) = unat s + (unat a - unat d)"
          using True Suc.prems by (subst unat_add_no_wrap) auto
        then have "s + (a - d) \<noteq> d" using True Suc.prems(3) by (auto simp: word_unat_eq_iff)
        with True show ?thesis using ih u by (simp add: moved_bytes_def)
      next
        case False
        show ?thesis
        proof (cases "a = d")
          case True
          then show ?thesis using ih u by (simp add: moved_bytes_def)
        next
          case ne: False
          then have "unat a \<noteq> unat d" by (simp add: word_unat_eq_iff)
          with False have "\<not> (unat d \<le> unat a \<and> unat a < unat d + Suc n)" by linarith
          then have "moved_bytes d s (Suc n) m a = m a" unfolding moved_bytes_def by (rule if_not_P)
          moreover have "\<not> (unat (d + 1) \<le> unat a \<and> unat a < unat (d + 1) + n)" using False u by simp
          then have "moved_bytes (d + 1) (s + 1) n (m(d := m s)) a = (m(d := m s)) a"
            unfolding moved_bytes_def by (rule if_not_P)
          ultimately show ?thesis using ne ih by simp
        qed
      qed
    qed
  qed
qed

lemma copy_down_moves:
  assumes "unat d + n \<le> 65536" "unat s + n \<le> 65536" "unat s \<le> unat d"
  shows "copy_down n (d + of_nat n) (s + of_nat n) m = moved_bytes d s n m"
  using assms
proof (induction n arbitrary: m)
  case 0
  then show ?case by (auto simp: moved_bytes_def fun_eq_iff)
next
  case (Suc n)
  let ?d = "d + of_nat n" and ?s = "s + of_nat n"
  have u: "unat ?d = unat d + n" "unat ?s = unat s + n" using Suc.prems by (auto intro: unat_plus_nat)
  have "copy_down (Suc n) (d + of_nat (Suc n)) (s + of_nat (Suc n)) m = moved_bytes d s n (m(?d := m ?s))"
    using Suc by (simp add: algebra_simps)
  also have "\<dots> = moved_bytes d s (Suc n) m"
  proof
    fix a
    show "moved_bytes d s n (m(?d := m ?s)) a = moved_bytes d s (Suc n) m a"
    proof (cases "unat d \<le> unat a \<and> unat a < unat d + n")
      case True
      have "unat (a - d) = unat a - unat d" using True by (intro unat_sub_le) (simp add: word_le_nat_alt)
      then have "unat (s + (a - d)) = unat s + (unat a - unat d)"
        using True Suc.prems by (subst unat_add_no_wrap) auto
      then have "s + (a - d) \<noteq> ?d" using True Suc.prems(3) u by (auto simp: word_unat_eq_iff)
      with True show ?thesis by (simp add: moved_bytes_def)
    next
      case False
      show ?thesis
      proof (cases "unat a = unat d + n")
        case True
        then have "a = ?d" using u by (simp add: word_unat_eq_iff)
        then show ?thesis using u by (simp add: moved_bytes_def algebra_simps)
      next
        case f: False
        then have "a \<noteq> ?d" using u by auto
        moreover have "\<not> (unat d \<le> unat a \<and> unat a < unat d + Suc n)" using False f by linarith
        ultimately show ?thesis using False unfolding moved_bytes_def by (simp only: if_False fun_upd_apply)
      qed
    qed
  qed
  finally show ?case .
qed

text \<open>
  C36: \<open>memmove\<close> copies as if through a buffer: however source and target overlap, the target holds what
  the source held before, and no other byte changes.
\<close>

theorem memmove_copies:
  assumes "unat d + unat n \<le> 65536" "unat s + unat n < 65536"
  shows "memmove d s n m = (\<lambda>a. if unat d \<le> unat a \<and> unat a < unat d + unat n then m (s + (a - d)) else m a)"
proof -
  have u: "unat (s + n) = unat s + unat n" using assms(2) by (rule unat_add_no_wrap)
  have "memmove d s n m = moved_bytes d s (unat n) m"
  proof (cases "s < d \<and> s + n > d")
    case True
    then show ?thesis
      using copy_down_moves [of d "unat n" s m] assms by (simp add: memmove_def word_less_nat_alt)
  next
    case False
    then show ?thesis
      using copy_up_moves [of d "unat n" s m] assms u by (auto simp: memmove_def word_less_nat_alt)
  qed
  then show ?thesis by (simp add: moved_bytes_def)
qed

lemma memmove_copies_witness:
  "memmove 11 10 3 (\<lambda>a. ucast a) = (\<lambda>a. if 11 \<le> unat a \<and> unat a < 14 then ucast (a - 1) else ucast a)"
proof -
  have e: "10 + (a - 11) = a - (1 :: u16)" for a by (simp add: algebra_simps)
  have "unat (11 :: u16) + unat (3 :: u16) \<le> 65536" "unat (10 :: u16) + unat (3 :: u16) < 65536" by simp_all
  from memmove_copies [OF this, of "\<lambda>a. ucast a"] show ?thesis unfolding e by simp
qed

section \<open>Bounded strings\<close>

text \<open>\<open>safestrcpy\<close> writes within its \<open>n\<close> bytes and leaves a NUL among them.\<close>

lemma safestrcpy_bounded:
  assumes "0 < n" "unat s + n \<le> 65536"
  shows "(\<forall>a. \<not> (unat s \<le> unat a \<and> unat a < unat s + n) \<longrightarrow> safestrcpy n s t m a = m a)
    \<and> (\<exists>a. unat s \<le> unat a \<and> unat a < unat s + n \<and> safestrcpy n s t m a = 0)"
  using assms
proof (induction n s t m rule: safestrcpy.induct)
  case (2 s t m)
  then show ?case by (auto simp: word_unat_eq_iff)
next
  case (3 n s t m)
  have u: "unat (s + 1) = unat s + 1" using 3(3) by (intro unat_plus_one) simp
  show ?case
  proof (cases "m t = 0")
    case True
    then show ?thesis using u by (auto simp: Let_def word_unat_eq_iff intro!: exI [of _ s])
  next
    case False
    let ?m = "m(s := m t)"
    have r: "unat (s + 1) + Suc n \<le> 65536" using u 3(3) by simp
    note ih = 3(1) [OF refl False _ r]
    have e: "safestrcpy (Suc (Suc n)) s t m = safestrcpy (Suc n) (s + 1) (t + 1) ?m" using False by (simp add: Let_def)
    have "safestrcpy (Suc (Suc n)) s t m a = m a" if "\<not> (unat s \<le> unat a \<and> unat a < unat s + Suc (Suc n))" for a
      unfolding e using conjunct1 [OF ih, rule_format, of a] that u by auto
    moreover from ih obtain a where "unat (s + 1) \<le> unat a" "unat a < unat (s + 1) + Suc n"
      "safestrcpy (Suc n) (s + 1) (t + 1) ?m a = 0" by blast
    then have "\<exists>a. unat s \<le> unat a \<and> unat a < unat s + Suc (Suc n) \<and> safestrcpy (Suc (Suc n)) s t m a = 0"
      using u unfolding e by (intro exI [of _ a]) simp
    ultimately show ?thesis by blast
  qed
qed simp

section \<open>Running out of memory\<close>

lemma nunits_bounds: "unat nb < 16380 \<Longrightarrow> unat (nunits_of nb) = (unat nb + 3) div 4 + 1"
proof -
  assume nb: "unat nb < 16380"
  then have "unat (nb + 3) = unat nb + 3" by (subst unat_add_no_wrap) simp_all
  then have "unat ((nb + 3) div 4) = (unat nb + 3) div 4" by (simp add: unat_div)
  moreover have "(unat nb + 3) div 4 + 1 < 65536" using nb by linarith
  ultimately show ?thesis by (simp add: nunits_of_def unat_add_no_wrap algebra_simps)
qed

lemma unat_four: "unat (w :: u16) < 16384 \<Longrightarrow> unat (4 * w) = 4 * unat w"
  by (simp add: unat_word_ariths)

text \<open>The allocator when no block is free but \<open>base\<close>.\<close>

definition dry :: "heapst \<Rightarrow> bool" where
  "dry h \<longleftrightarrow> freep h = ubase h \<and> h_ptr h (ubase h) = ubase h \<and> h_size h (ubase h) = 0"

definition heap_layout :: "heapst \<Rightarrow> bool" where
  "heap_layout h \<longleftrightarrow> 0 < unat (ubase h) \<and> unat (ubase h) + 4 \<le> unat (uheap h) \<and> unat (uheap h) + 16384 < 65536"

lemma dry_morecore:
  assumes "dry h" "heap_layout h" "0 < k"
  shows "morecore k h = Some (h\<lparr>h_size := (h_size h)(uheap h := 4096),
      h_ptr := (h_ptr h)(uheap h := ubase h, ubase h := uheap h), freep := ubase h\<rparr>)"
proof -
  have ne: "uheap h \<noteq> ubase h" "uheap h > ubase h" using assms(2) by (auto simp: heap_layout_def word_less_nat_alt)
  have "unat (uheap h + 16384) = unat (uheap h) + 16384"
    using assms(2) by (subst unat_add_no_wrap) (simp_all add: heap_layout_def)
  then have "uheap h + 16384 \<noteq> ubase h" using assms(2) by (auto simp: heap_layout_def)
  moreover have "free_spot k (h_ptr h) (uheap h) (ubase h) = Some (ubase h)"
    using assms(1,3) ne by (cases k) (simp_all add: dry_def)
  ultimately show ?thesis
    using assms(1) ne by (simp add: morecore_def ufree_def join_next_def join_prev_def dry_def Let_def)
qed

lemma dry_malloc:
  assumes "dry h" "heap_layout h" "unat nb \<le> 16380" "0 < unat nb"
  shows "\<exists>q h'. umalloc (k + 3) nb h = Some (q, h') \<and> unat (uheap h) + 4 \<le> unat q
    \<and> unat q + unat nb \<le> unat (uheap h) + 16384
    \<and> (unat nb = 16380 \<longrightarrow> dry h' \<and> uheap h' = uheap h \<and> ubase h' = ubase h)"
proof -
  let ?n = "nunits_of nb"
  have n: "unat ?n = (unat nb + 3) div 4 + 1"
  proof (cases "unat nb = 16380")
    case True
    then have "nb = 16380" by (simp add: word_unat_eq_iff)
    then show ?thesis by (simp add: nunits_of_def)
  qed (use assms(3) nunits_bounds in simp)
  then have bounds: "1 < unat ?n" "unat ?n \<le> 4096" "unat nb \<le> 4 * (unat ?n - 1)" using assms(3,4) by linarith+
  have f: "freep h \<noteq> 0" "freep h = ubase h" "h_ptr h (ubase h) = ubase h" "h_size h (ubase h) = 0"
    using assms(1,2) by (auto simp: dry_def heap_layout_def)
  have small: "\<not> ?n \<le> 0" using bounds by (simp add: word_le_nat_alt)
  let ?h = "h\<lparr>h_size := (h_size h)(uheap h := 4096), h_ptr := (h_ptr h)(uheap h := ubase h, ubase h := uheap h), freep := ubase h\<rparr>"
  have ne: "uheap h \<noteq> ubase h" using assms(2) by (auto simp: heap_layout_def)
  have fits: "?n \<le> 4096" using bounds by (simp add: word_le_nat_alt)
  have m: "umalloc (k + 3) nb h = Some (take_block ?n (ubase h) (uheap h) ?h)"
    using f small fits ne dry_morecore [OF assms(1,2), of "k + 2"]
    by (simp add: umalloc_def numeral_3_eq_3 numeral_2_eq_2 Let_def)
  show ?thesis
  proof (cases "?n = 4096")
    case True
    then have "4 * (unat ?n - 1) = 16380" by simp
    then have "take_block ?n (ubase h) (uheap h) ?h
        = (uheap h + 4, ?h\<lparr>h_ptr := (h_ptr ?h)(ubase h := ubase h), freep := ubase h\<rparr>)"
      using True ne by (simp add: take_block_def)
    moreover have "unat (uheap h + 4) = unat (uheap h) + 4"
      using assms(2) by (subst unat_add_no_wrap) (simp_all add: heap_layout_def)
    ultimately show ?thesis using m assms(3) f ne by (auto simp: dry_def)
  next
    case False
    let ?q = "uheap h + 4 * (4096 - ?n)"
    have lt: "unat ?n < 4096" using False bounds(2) by (auto simp: word_unat_eq_iff)
    have r: "unat (4096 - ?n) = 4096 - unat ?n" using fits by (simp add: unat_sub_le)
    have "unat (4 * (4096 - ?n)) = 4 * (4096 - unat ?n)"
      using bounds(1) r unat_four [of "4096 - ?n"] by linarith
    moreover have "4 * (4096 - unat ?n) \<le> 16376" using bounds(1) by linarith
    moreover from calculation have "unat ?q = unat (uheap h) + 4 * (4096 - unat ?n)"
      using assms(2) bounds by (subst unat_add_no_wrap) (simp_all add: heap_layout_def)
    ultimately have q: "unat (?q + 4) = unat (uheap h) + 4 * (4096 - unat ?n) + 4"
      using assms(2) bounds by (subst unat_add_no_wrap) (simp_all add: heap_layout_def)
    have "unat nb \<noteq> 16380" using n lt by auto
    moreover have "take_block ?n (ubase h) (uheap h) ?h = (?q + 4, snd (take_block ?n (ubase h) (uheap h) ?h))"
      using False by (simp add: take_block_def Let_def)
    moreover have "unat (uheap h) + 4 \<le> unat (?q + 4) \<and> unat (?q + 4) + unat nb \<le> unat (uheap h) + 16384"
      unfolding q using bounds lt by linarith
    ultimately show ?thesis using m by metis
  qed
qed

text \<open>
  The allocator never reports that memory is used up: when a first block takes the whole heap, the
  next request is answered with an address inside that block, because \<open>morecore\<close> frees the one heap there
  is again.
\<close>

lemma malloc_hands_out_twice:
  assumes "dry h" "heap_layout h" "0 < unat nb" "unat nb \<le> 16380"
  shows "\<exists>h1 q h2. umalloc (k + 3) 16380 h = Some (uheap h + 4, h1) \<and> umalloc (k + 3) nb h1 = Some (q, h2)
    \<and> unat (uheap h + 4) \<le> unat q \<and> unat q + unat nb \<le> unat (uheap h + 4) + 16380"
proof -
  have e: "unat (uheap h + 4) = unat (uheap h) + 4"
    using assms(2) by (subst unat_add_no_wrap) (simp_all add: heap_layout_def)
  have "unat (16380 :: u16) \<le> 16380" "0 < unat (16380 :: u16)" by simp_all
  from dry_malloc [OF assms(1,2) this, of k] obtain p h1 where
    h1: "umalloc (k + 3) 16380 h = Some (p, h1)" "unat (uheap h) + 4 \<le> unat p" "unat p + unat (16380 :: u16) \<le> unat (uheap h) + 16384"
      "dry h1" "uheap h1 = uheap h" "ubase h1 = ubase h" by auto
  have "p = uheap h + 4" using h1(2,3) e by (simp add: word_unat_eq_iff)
  moreover have "heap_layout h1" using assms(2) h1(5,6) by (simp add: heap_layout_def)
  from dry_malloc [OF h1(4) this assms(4,3), of k] obtain q h2 where
    "umalloc (k + 3) nb h1 = Some (q, h2)" "unat (uheap h1) + 4 \<le> unat q" "unat q + unat nb \<le> unat (uheap h1) + 16384" by blast
  ultimately show ?thesis using h1(1,5) e by auto
qed

lemma malloc_hands_out_twice_witness:
  "let h = \<lparr>h_ptr = \<lambda>_. 1000, h_size = \<lambda>_. 0, freep = 1000, ubase = 1000, uheap = 1006\<rparr> in
   \<exists>h1 q h2. umalloc 3 16380 h = Some (1010, h1) \<and> umalloc 3 100 h1 = Some (q, h2)
    \<and> 1010 \<le> unat q \<and> unat q + 100 \<le> 1010 + 16380"
proof -
  let ?h = "\<lparr>h_ptr = \<lambda>_. 1000, h_size = \<lambda>_. 0, freep = 1000, ubase = 1000, uheap = 1006\<rparr>"
  have "dry ?h" "heap_layout ?h" "0 < unat (100 :: u16)" "unat (100 :: u16) \<le> 16380"
    by (simp_all add: dry_def heap_layout_def)
  from malloc_hands_out_twice [OF this, of 0] show ?thesis by (simp add: Let_def)
qed

end
