(* ===== verification/Ctime.thy ===== *)
theory Ctime
  imports UserLib Arith
begin

text \<open>
  Dates (\<open>usr/ctime.c\<close>).  A time is a pair of words, high word first; the numbers below are
  \<open>int\<close>s that stay within 16 bits, with C's division.  The array of nine numbers is a record.
  \<open>asctime\<close> gives \<open>None\<close> where the source would index its strings out of range.
\<close>

section \<open>Double precision\<close>

definition dpadd_u :: "dword \<Rightarrow> u16 \<Rightarrow> dword" where
  "dpadd_u a b =
     (let lo = snd a; hi = fst a
      in if sint b \<ge> 0 then
           (let lo = lo + b in (if lo < b then hi + 1 else hi, lo))
         else
           (let abs_b = - b in (if lo < abs_b then hi - 1 else hi, lo - abs_b)))"

text \<open>One round of the division by shifting, for bit \<open>i\<close>.\<close>

definition ldiv_step :: "dword \<Rightarrow> u16 \<Rightarrow> nat \<Rightarrow> u16 \<times> u16 \<Rightarrow> u16 \<times> u16" where
  "ldiv_step a bl i qr =
     (let remainder = push_bit 1 (snd qr) OR (drop_bit (i mod 16) (if i \<ge> 16 then fst a else snd a) AND 1)
      in if remainder \<ge> bl then (fst qr OR push_bit (i mod 16) 1, remainder - bl)
         else (fst qr, remainder))"

definition ldiv_u :: "dword \<Rightarrow> u16 \<Rightarrow> u16 \<times> u16" where
  "ldiv_u a bl = fold (ldiv_step a bl) (rev [0..<32]) (0, 0)"

section \<open>The calendar\<close>

record tvec =
  SEC :: int
  MINUTE :: int
  HOUR :: int
  MDAY :: int
  MON :: int
  YEAR :: int
  WDAY :: int
  YDAY :: int
  ISDAY :: int

definition dysize :: "int \<Rightarrow> int" where
  "dysize y = (if y smod 4 = 0 then 366 else 365)"

definition dmsize :: "int list" where
  "dmsize = [31, 28, 31, 30, 31, 30, 31, 31, 30, 31, 30, 31]"

text \<open>The loops over the years and the months; \<open>ms\<close> is what is left of \<open>dmsize\<close>.\<close>

lemma dysize_pos: "365 \<le> dysize y"
  by (simp add: dysize_def)

function year_loop :: "int \<Rightarrow> int \<Rightarrow> int \<times> int" where
  "year_loop d1 d0 = (if d0 \<ge> dysize d1 then year_loop (d1 + 1) (d0 - dysize d1) else (d1, d0))"
  by auto

termination
proof (relation "measure (\<lambda>(d1, d0). nat d0)", simp)
  fix d1 d0 assume "dysize d1 \<le> d0"
  with dysize_pos [of d1] show "((d1 + 1, d0 - dysize d1), d1, d0) \<in> measure (\<lambda>(d1, d0). nat d0)"
    by simp
qed

declare year_loop.simps [simp del]

fun month_loop :: "int list \<Rightarrow> int \<Rightarrow> int \<Rightarrow> int \<times> int" where
  "month_loop [] d1 d0 = (d1, d0)"
| "month_loop (m # ms) d1 d0 = (if d0 \<ge> m then month_loop ms (d1 + 1) (d0 - m) else (d1, d0))"

definition gmtime :: "dword \<Rightarrow> tvec" where
  "gmtime tim =
     (let (q, r) = ldiv_u tim 28800;
          d0 = sint q; d1 = sint r;
          sec = d1 smod 60; d1 = d1 sdiv 60;
          minute = d1 smod 60; d1 = d1 sdiv 60;
          hour = d1 + (d0 smod 3) * 8; d0 = d0 sdiv 3;
          wday = (d0 + 4) smod 7;
          (year, yday) = year_loop 70 d0;
          dm = (if dysize year = 366 then dmsize[1 := 29] else dmsize);
          (mon, d0) = month_loop dm 0 yday
      in \<lparr>SEC = sec, MINUTE = minute, HOUR = hour, MDAY = d0 + 1, MON = mon, YEAR = year, WDAY = wday,
          YDAY = yday, ISDAY = 0\<rparr>)"

definition sunday :: "tvec \<Rightarrow> int \<Rightarrow> int" where
  "sunday t ad =
     (let d = (if ad \<ge> 58 then ad + (dysize (YEAR t) - 365) else ad)
      in d - (d - YDAY t + WDAY t + 700) smod 7)"

definition daytab :: "(int \<times> int) list" where
  "daytab = [(5, 333), (58, 303)]"

text \<open>The shift to the time zone is commented out in the source; \<open>daylight\<close> is 1.\<close>

definition localtime :: "dword \<Rightarrow> tvec" where
  "localtime tim =
     (let ct = gmtime tim;
          dayno = YDAY ct;
          (daylbegin, daylend) =
            (if YEAR ct = 74 \<or> YEAR ct = 75 then daytab ! nat (YEAR ct - 74) else (119, 303));
          daylbegin = sunday ct daylbegin;
          daylend = sunday ct daylend
      in if (dayno > daylbegin \<or> dayno = daylbegin \<and> HOUR ct \<ge> 2)
            \<and> (dayno < daylend \<or> dayno = daylend \<and> HOUR ct < 1)
         then (let ct = gmtime (dpadd_u tim 3600) in ct\<lparr>ISDAY := ISDAY ct + 1\<rparr>)
         else ct)"

section \<open>The printed form\<close>

text \<open>\<open>ct_numb\<close> skips a character and stores two; the next call goes on behind them.\<close>

definition ct_numb :: "nat \<Rightarrow> int \<Rightarrow> u8 list \<Rightarrow> u8 list" where
  "ct_numb cp n cbuf =
     cbuf[cp + 1 := (if n \<ge> 10 then word_of_int ((n sdiv 10) smod 10 + 48) else 32),
          cp + 2 := word_of_int (n smod 10 + 48)]"

definition put3 :: "nat \<Rightarrow> u8 list \<Rightarrow> u8 list \<Rightarrow> u8 list" where
  "put3 cp cs cbuf = cbuf[cp := cs ! 0, cp + 1 := cs ! 1, cp + 2 := cs ! 2]"

definition asctime :: "tvec \<Rightarrow> u8 list option" where
  "asctime t =
     (if 0 \<le> WDAY t \<and> WDAY t < 7 \<and> 0 \<le> MON t \<and> MON t < 12 then
        (let cbuf = bytes ''Day Mon 00 00:00:00 1900\<newline>'';
             cbuf = put3 0 (drop (nat (3 * WDAY t)) (bytes ''SunMonTueWedThuFriSat'')) cbuf;
             cbuf = put3 4 (drop (nat (MON t * 3)) (bytes ''JanFebMarAprMayJunJulAugSepOctNovDec'')) cbuf;
             cbuf = ct_numb 7 (MDAY t) cbuf;
             cbuf = ct_numb 10 (HOUR t + 100) cbuf;
             cbuf = ct_numb 13 (MINUTE t + 100) cbuf;
             cbuf = ct_numb 16 (SEC t + 100) cbuf
         in Some (ct_numb 21 (YEAR t) cbuf))
      else None)"

definition ctime :: "dword \<Rightarrow> u8 list option" where
  "ctime at = asctime (localtime at)"

section \<open>The division\<close>

lemma ldiv_bit:
  assumes "i < 32"
  shows "unat (drop_bit (i mod 16) (if i \<ge> 16 then fst a else snd a) AND (1 :: u16)) = dval a div 2 ^ i mod 2"
proof -
  have "bit (i32_of a) i = bit (if i \<ge> 16 then fst a else snd a) (i mod 16)"
    using assms by (auto simp: i32_of_def bit_simps mod_if not_le dest: bit_imp_le_length)
  moreover have "bit (i32_of a) i = odd (dval a div 2 ^ i)"
    by (simp only: unat_i32_of [symmetric] bit_iff_odd [symmetric]) (simp add: bit_unsigned_iff)
  moreover have "drop_bit k x AND 1 = (of_bool (bit x k) :: u16)" for k and x :: u16
    by (simp add: and_one_eq bit_iff_odd_drop_bit mod_2_eq_odd)
  ultimately show ?thesis by (simp add: mod_2_eq_odd)
qed

text \<open>Shifting a bit into the remainder, setting a bit of the quotient below those it has.\<close>

lemma shift_in: "unat r < 32768 \<Longrightarrow> unat x < 2 \<Longrightarrow> unat (push_bit 1 r OR x) = 2 * unat r + unat (x :: u16)"
proof -
  assume r: "unat r < 32768" and x: "unat x < 2"
  then have "x = 0 \<or> x = 1" by (auto simp: word_unat_eq_iff less_2_cases_iff)
  moreover have "push_bit 1 r AND 1 = 0" by (simp add: and_one_eq mod_2_eq_odd)
  ultimately have "push_bit 1 r AND x = 0" by auto
  then have "push_bit 1 r OR x = push_bit 1 r + x" by (simp add: disjunctive_add_eq_or)
  moreover have "unat (push_bit 1 r) = 2 * unat r" using r by (simp add: push_bit_eq_mult unat_word_ariths)
  ultimately show ?thesis using r x by (simp add: unat_word_ariths)
qed

lemma set_bit_above:
  assumes "k < 16" "unat q = a * 2 ^ Suc k"
  shows "unat (q OR push_bit k (1 :: u16)) = unat q + 2 ^ k"
proof -
  have "bit q k = odd (unat q div 2 ^ k)" by (simp add: bit_unsigned_iff flip: bit_iff_odd)
  also have "unat q div 2 ^ k = 2 * a" using assms(2) by simp
  finally have "\<not> bit q k" by simp
  then have "q AND push_bit k 1 = 0" by (intro bit_word_eqI) (auto simp: bit_simps)
  then have "q OR push_bit k 1 = q + push_bit k 1" by (simp add: disjunctive_add_eq_or)
  moreover have "unat (push_bit k (1 :: u16)) = 2 ^ k"
  proof -
    have "(2 :: nat) ^ k < 2 ^ 16" using assms(1) by (intro power_strict_increasing) auto
    then have "unat (of_nat (2 ^ k) :: u16) = 2 ^ k" by (simp only: unat_of_nat) (simp add: take_bit_eq_mod)
    then show ?thesis by simp
  qed
  moreover have "unat q + 2 ^ k < 65536"
  proof -
    have p: "(65536 :: nat) = 2 ^ (15 - k) * 2 ^ Suc k" using assms(1) by (simp flip: power_add power_Suc)
    have "a * 2 ^ Suc k < 65536" using assms(2) unat16_lt [of q] by simp
    then have "a < 2 ^ (15 - k)" unfolding p by (simp only: mult_less_cancel2)
    then have "Suc a * 2 ^ Suc k \<le> 2 ^ (15 - k) * 2 ^ Suc k" by (intro mult_le_mono1) simp
    then have "unat q + 2 ^ Suc k \<le> 65536" unfolding p [symmetric] assms(2) by simp
    moreover have "(2 :: nat) ^ k < 2 ^ Suc k" by simp
    ultimately show ?thesis by linarith
  qed
  ultimately show ?thesis by (simp add: unat_word_ariths)
qed

text \<open>After the bits from 31 down to \<open>k\<close> the state holds the division of the bits read.\<close>

lemma ldiv_steps:
  assumes "0 < bl" "bl \<le> 32768" "dval a div unat bl < 65536" "k \<le> 32"
  shows "case fold (ldiv_step a bl) (rev [k..<32]) (0, 0) of (q, r) \<Rightarrow>
    unat q = dval a div 2 ^ k div unat bl * 2 ^ k \<and> unat r = dval a div 2 ^ k mod unat bl"
  using assms(4)
proof (induction "32 - k" arbitrary: k)
  case 0
  then have "k = 32" by simp
  moreover have "dval a div 2 ^ 32 = 0" using dval_lt [of a] by simp
  ultimately show ?case by simp
next
  case (Suc n)
  let ?B = "unat bl"
  have k: "k < 32" "n = 32 - Suc k" using Suc(2) by auto
  obtain q r where qr: "fold (ldiv_step a bl) (rev [Suc k..<32]) (0, 0) = (q, r)"
    and IH: "unat q = dval a div 2 ^ Suc k div ?B * 2 ^ Suc k" "unat r = dval a div 2 ^ Suc k mod ?B"
    using Suc(1) [OF k(2)] k(1) by (auto split: prod.splits)
  let ?A = "dval a div 2 ^ Suc k" and ?T = "dval a div 2 ^ k"
  define b where "b = ?T mod 2"
  have "?A = ?T div 2" by (simp only: power_Suc2 div_mult2_eq)
  then have T: "?T = 2 * ?A + b" by (simp add: b_def)
  have B: "0 < ?B" "?B \<le> 32768" using assms(1,2) by (simp_all add: word_less_nat_alt word_le_nat_alt)
  have rB: "unat r < ?B" using IH(2) B by simp
  define x where "x = drop_bit (k mod 16) (if k \<ge> 16 then fst a else snd a) AND (1 :: u16)"
  have x: "unat x = b" unfolding x_def b_def using ldiv_bit [OF k(1)] .
  have rem: "unat (push_bit 1 r OR x) = 2 * unat r + b"
    using shift_in [of r x] rB B x by (simp add: b_def)
  have split: "?T = ?B * (2 * (?A div ?B)) + (2 * unat r + b)"
    using T IH(2) by (metis (no_types, lifting) ab_semigroup_add_class.add_ac(1) add_mult_distrib2 mult.left_commute mult_div_mod_eq)
  have step: "fold (ldiv_step a bl) (rev [k..<32]) (0, 0) = ldiv_step a bl k (q, r)"
    using k(1) qr by (simp add: upt_conv_Cons)
  show ?case
  proof (cases "?B \<le> 2 * unat r + b")
    case True
    have "2 * unat r + b - ?B < ?B" using rB by (auto simp: b_def)
    moreover have "?T = ?B * (2 * (?A div ?B) + 1) + (2 * unat r + b - ?B)"
      using split True by (simp add: add_mult_distrib2)
    ultimately have d: "?T div ?B = 2 * (?A div ?B) + 1" "?T mod ?B = 2 * unat r + b - ?B"
      using div_mod_unique by blast+
    have "?T div ?B = dval a div ?B div 2 ^ k" by (metis div_mult2_eq mult.commute)
    with d(1) have "0 < dval a div ?B div 2 ^ k" by simp
    then have "2 ^ k \<le> dval a div ?B" by (simp add: div_greater_zero_iff)
    with assms(3) have "2 ^ k < (2 :: nat) ^ 16" by simp
    then have k16: "k < 16" by (simp only: power_strict_increasing_iff)
    have ge: "bl \<le> push_bit 1 r OR x" using True rem by (simp add: word_le_nat_alt)
    from ge have s: "ldiv_step a bl k (q, r) = (q OR push_bit (k mod 16) 1, (push_bit 1 r OR x) - bl)"
      by (simp add: ldiv_step_def x_def [symmetric])
    have "unat (q OR push_bit k 1) = unat q + 2 ^ k"
      using set_bit_above [OF k16, of q "?A div ?B"] IH(1) by simp
    moreover have "unat ((push_bit 1 r OR x) - bl) = 2 * unat r + b - ?B"
      using ge rem by (simp add: unat_sub_le)
    ultimately show ?thesis unfolding step s using d IH(1) k16 by (simp add: algebra_simps)
  next
    case False
    then have d: "?T div ?B = 2 * (?A div ?B)" "?T mod ?B = 2 * unat r + b"
      using split B by auto
    have "\<not> bl \<le> push_bit 1 r OR x" using False rem by (simp add: word_le_nat_alt)
    then have "ldiv_step a bl k (q, r) = (q, push_bit 1 r OR x)" by (simp add: ldiv_step_def x_def [symmetric])
    with d IH(1) rem show ?thesis unfolding step by (simp add: mult.assoc mult.commute)
  qed
qed

lemma ldiv_u_exact:
  assumes "0 < bl" "bl \<le> 32768" "dval a div unat bl < 65536"
  shows "unat (fst (ldiv_u a bl)) = dval a div unat bl" "unat (snd (ldiv_u a bl)) = dval a mod unat bl"
  using ldiv_steps [OF assms, of 0] by (auto simp: ldiv_u_def split: prod.splits)

section \<open>The reference calendar\<close>

definition leap :: "nat \<Rightarrow> bool" where
  "leap Y \<longleftrightarrow> 4 dvd Y \<and> (\<not> 100 dvd Y \<or> 400 dvd Y)"

definition year_len :: "nat \<Rightarrow> nat" where
  "year_len Y = (if leap Y then 366 else 365)"

definition month_len :: "nat \<Rightarrow> nat \<Rightarrow> nat" where
  "month_len Y m = (if m = 1 then (if leap Y then 29 else 28) else if m \<in> {3, 5, 8, 10} then 30 else 31)"

text \<open>The years that a time before 1999 November 27, 16:00 can fall in.\<close>

lemma leap_dysize:
  assumes "70 \<le> y" "y \<le> 99"
  shows "(dysize y = 366) = leap (nat (1900 + y))"
proof -
  define k where "k = nat y"
  then have k: "y = int k" "0 < k" "k < 100" using assms by auto
  have "4 dvd 1900 + k \<longleftrightarrow> 4 dvd k" by (rule dvd_add_right_iff) simp
  moreover have "100 dvd 1900 + k \<longleftrightarrow> 100 dvd k" by (rule dvd_add_right_iff) simp
  then have "\<not> 100 dvd 1900 + k" using k dvd_imp_le [of 100 k] by auto
  ultimately have "leap (1900 + k) \<longleftrightarrow> 4 dvd k" by (simp add: leap_def)
  moreover have "dysize y = 366 \<longleftrightarrow> 4 dvd k" unfolding k(1)
    by (simp add: dysize_def mod_eq_0_iff_dvd int_dvd_int_iff [of 4, simplified])
  ultimately show ?thesis using k(1) by (simp add: nat_add_distrib)
qed

lemma year_loop_result:
  "0 \<le> d0 \<Longrightarrow> year_loop d1 d0 = (y, d) \<Longrightarrow>
    d1 \<le> y \<and> 0 \<le> d \<and> d < dysize y \<and> d0 = (\<Sum>i \<in> {d1..<y}. dysize i) + d"
proof (induction d1 d0 rule: year_loop.induct)
  case (1 d1 d0)
  show ?case
  proof (cases "d0 \<ge> dysize d1")
    case True
    with 1(3) have "year_loop (d1 + 1) (d0 - dysize d1) = (y, d)" by (simp add: year_loop.simps [of d1 d0])
    with 1(1) [OF True] True have IH: "d1 + 1 \<le> y" "0 \<le> d" "d < dysize y"
      "d0 - dysize d1 = (\<Sum>i \<in> {d1 + 1..<y}. dysize i) + d" by auto
    from IH(1) have "{d1..<y} = insert d1 {d1 + 1..<y}" by auto
    with IH show ?thesis by simp
  next
    case False
    with 1(2,3) show ?thesis by (simp add: year_loop.simps [of d1 d0])
  qed
qed

lemma month_loop_result:
  "0 \<le> d0 \<Longrightarrow> d0 < sum_list ms \<Longrightarrow> month_loop ms d1 d0 = (m, d) \<Longrightarrow>
    \<exists>i < length ms. m = d1 + int i \<and> 0 \<le> d \<and> d < ms ! i \<and> d0 = sum_list (take i ms) + d"
proof (induction ms arbitrary: d1 d0)
  case (Cons x ms)
  show ?case
  proof (cases "d0 \<ge> x")
    case True
    with Cons.prems have "0 \<le> d0 - x" "d0 - x < sum_list ms" "month_loop ms (d1 + 1) (d0 - x) = (m, d)" by auto
    from Cons.IH [OF this] obtain i where "i < length ms" "m = d1 + 1 + int i" "0 \<le> d" "d < ms ! i"
      "d0 - x = sum_list (take i ms) + d" by blast
    then show ?thesis by (intro exI [of _ "Suc i"]) auto
  qed (use Cons.prems in auto)
qed simp

definition months :: "int \<Rightarrow> int list" where
  "months y = (if dysize y = 366 then dmsize[1 := 29] else dmsize)"

lemma months_len:
  assumes "70 \<le> y" "y \<le> 99" "i < 12"
  shows "months y ! i = int (month_len (nat (1900 + y)) i)"
proof -
  have l: "[0..<12] = [0, 1, 2, 3, 4, 5, 6, 7, 8, 9, 10, 11 :: nat]" by (simp add: upt_rec)
  have "months y = map (\<lambda>i. int (month_len Y i)) [0..<12]" if "leap Y = (dysize y = 366)" for Y
    unfolding l using that by (simp add: months_def dmsize_def month_len_def)
  then have "months y = map (\<lambda>i. int (month_len (nat (1900 + y)) i)) [0..<12]"
    using leap_dysize [OF assms(1,2)] by blast
  then show ?thesis using assms(3) by simp
qed

lemma months_total: "sum_list (months y) = dysize y" "length (months y) = 12"
proof -
  have "dysize y = 366 \<or> dysize y = 365" by (simp add: dysize_def)
  then show "sum_list (months y) = dysize y" by (elim disjE) (simp_all add: months_def dmsize_def)
  show "length (months y) = 12" by (simp add: months_def dmsize_def)
qed

lemma months_sum:
  assumes "70 \<le> y" "y \<le> 99" "i \<le> 12"
  shows "sum_list (take i (months y)) = (\<Sum>m < i. int (month_len (nat (1900 + y)) m))"
  using assms(3)
proof (induction i)
  case (Suc i)
  then have "sum_list (take (Suc i) (months y)) = sum_list (take i (months y)) + months y ! i"
    by (simp add: take_Suc_conv_app_nth months_total)
  with Suc months_len [OF assms(1,2), of i] show ?case by simp
qed simp

lemma year_days:
  "70 \<le> y \<Longrightarrow> y \<le> 100 \<Longrightarrow> (\<Sum>i \<in> {70..<y}. dysize i) = int (\<Sum>Y \<in> {1970..<nat (1900 + y)}. year_len Y)"
proof (induction "nat (y - 70)" arbitrary: y)
  case 0
  then show ?case by simp
next
  case (Suc n)
  then have y: "n = nat ((y - 1) - 70)" "70 \<le> y - 1" "y - 1 \<le> 99" by auto
  then have 1: "{70..<y} = insert (y - 1) {70..<y - 1}" by auto
  have "nat (1900 + y) = Suc (nat (1900 + (y - 1)))" using y by simp
  then have 2: "{1970..<nat (1900 + y)} = insert (nat (1900 + (y - 1))) {1970..<nat (1900 + (y - 1))}" using y by auto
  have "dysize (y - 1) = int (year_len (nat (1900 + (y - 1))))"
    using leap_dysize [OF y(2,3)] by (auto simp: year_len_def dysize_def split: if_splits)
  with Suc.hyps(1) [OF y(1,2)] y(3) show ?case unfolding 1 2 by simp
qed

lemma years_bound:
  assumes "70 \<le> y" "(\<Sum>i \<in> {70..<y}. dysize i) < 10923"
  shows "y \<le> 99"
proof -
  have "of_nat (card {70..<y}) * 365 \<le> (\<Sum>i \<in> {70..<y}. dysize i)"
    by (rule sum_bounded_below) (rule dysize_pos)
  with assms show ?thesis by simp
qed

text \<open>The time of day and the number of the day.\<close>

lemma eighths:
  fixes T :: nat
  shows "T mod 28800 div 3600 + T div 28800 mod 3 * 8 = T div 3600 mod 24"
    and "T mod 28800 div 60 mod 60 = T div 60 mod 60" and "T mod 28800 mod 60 = T mod 60"
    and "T div 28800 div 3 = T div 86400" and "T mod 28800 div 60 div 60 = T mod 28800 div 3600"
proof -
  define q where "q = T div 28800"
  define r where "r = T mod 28800"
  have T: "T = 28800 * q + r" "r < 28800" by (simp_all add: q_def r_def)
  have a: "T div 3600 = 8 * q + r div 3600" using T by simp
  have "r div 3600 < 8" using T(2) by simp
  then have "(8 * q + r div 3600) mod 24 = 8 * (q mod 3) + r div 3600"
    using mod_mult2_eq [of "8 * q + r div 3600" 8 3] by simp
  with a show "T mod 28800 div 3600 + T div 28800 mod 3 * 8 = T div 3600 mod 24"
    by (simp add: q_def [symmetric] r_def [symmetric])
  have "T div 60 = 480 * q + r div 60" using T by simp
  then have "T div 60 mod 60 = r div 60 mod 60"
    by (simp add: mod_add_left_eq [of "480 * q" 60, symmetric] mod_mult_left_eq)
  then show "T mod 28800 div 60 mod 60 = T div 60 mod 60" by (simp add: r_def)
  show "T mod 28800 mod 60 = T mod 60" by (rule mod_mod_cancel) simp
  show "T div 28800 div 3 = T div 86400" by (simp add: div_mult2_eq [of T 28800 3, symmetric])
  show "T mod 28800 div 60 div 60 = T mod 28800 div 3600" by (simp add: div_mult2_eq [of _ 60 60, symmetric])
qed

lemma gmtime_parts:
  assumes "dval tim < 943718400"
  shows "\<exists>y yday mon d. year_loop 70 (int (dval tim div 86400)) = (y, yday) \<and> month_loop (months y) 0 yday = (mon, d)
    \<and> gmtime tim = \<lparr>SEC = int (dval tim mod 60), MINUTE = int (dval tim div 60 mod 60),
        HOUR = int (dval tim div 3600 mod 24), MDAY = d + 1, MON = mon, YEAR = y,
        WDAY = int ((dval tim div 86400 + 4) mod 7), YDAY = yday, ISDAY = 0\<rparr>"
proof -
  let ?T = "dval tim"
  obtain q r where qr: "ldiv_u tim 28800 = (q, r)" by (cases "ldiv_u tim 28800")
  have "?T div 28800 < 32768" using assms by simp
  then have u: "unat q = ?T div 28800" "unat r = ?T mod 28800"
    using ldiv_u_exact [of 28800 tim] qr by simp_all
  have s: "sint q = int (?T div 28800)" "sint r = int (?T mod 28800)"
    using sint16_eq_unat [of q] sint16_eq_unat [of r] u assms by simp_all
  obtain y yday where y: "year_loop 70 (int (?T div 86400)) = (y, yday)"
    by (cases "year_loop 70 (int (?T div 86400))")
  obtain mon d where m: "month_loop (months y) 0 yday = (mon, d)"
    by (cases "month_loop (months y) 0 yday")
  have e: "int (?T div 28800) sdiv 3 = int (?T div 86400)"
    "int (?T mod 28800) smod 60 = int (?T mod 60)"
    "int (?T mod 28800) sdiv 60 smod 60 = int (?T div 60 mod 60)"
    "int (?T mod 28800) sdiv 60 sdiv 60 + int (?T div 28800) smod 3 * 8 = int (?T div 3600 mod 24)"
    unfolding sdiv_of_nat smod_of_nat
    by (simp_all only: eighths(2-5) eighths(1) [symmetric] of_nat_add of_nat_mult of_nat_numeral)
  have w: "(int (?T div 86400) + 4) smod 7 = int ((?T div 86400 + 4) mod 7)"
    by (simp only: smod_of_nat [symmetric] of_nat_add of_nat_numeral)
  have m': "month_loop (if dysize y = 366 then dmsize[1 := 29] else dmsize) 0 yday = (mon, d)"
    using m by (simp add: months_def)
  have "gmtime tim = \<lparr>SEC = int (?T mod 60), MINUTE = int (?T div 60 mod 60),
        HOUR = int (?T div 3600 mod 24), MDAY = d + 1, MON = mon, YEAR = y,
        WDAY = int ((?T div 86400 + 4) mod 7), YDAY = yday, ISDAY = 0\<rparr>"
    by (simp only: gmtime_def Let_def qr prod.case s e w y m')
  with y m show ?thesis by blast
qed

text \<open>
  C23: \<open>gmtime\<close> is the Gregorian calendar for every time before 27 November 1999, 16:00 UTC: seconds,
  minutes, hours and the day of the week are those of the time, the days of the earlier years since
  1970 and the day of the year make up the number of days passed, and month and day of the month
  make up the day of the year.
\<close>

theorem gmtime_gregorian:
  assumes "dval tim < 943718400"
  shows "let t = gmtime tim; T = dval tim; Y = nat (1900 + YEAR t) in
      SEC t = int (T mod 60) \<and> MINUTE t = int (T div 60 mod 60) \<and> HOUR t = int (T div 3600 mod 24)
    \<and> WDAY t = int ((T div 86400 + 4) mod 7)
    \<and> 70 \<le> YEAR t \<and> int (T div 86400) = int (\<Sum>y \<in> {1970..<Y}. year_len y) + YDAY t
    \<and> 0 \<le> YDAY t \<and> YDAY t < int (year_len Y)
    \<and> 0 \<le> MON t \<and> MON t < 12 \<and> YDAY t = (\<Sum>m < nat (MON t). int (month_len Y m)) + MDAY t - 1
    \<and> 1 \<le> MDAY t \<and> MDAY t \<le> int (month_len Y (nat (MON t)))"
proof -
  from gmtime_parts [OF assms] obtain y yday mon d where
    y: "year_loop 70 (int (dval tim div 86400)) = (y, yday)" and m: "month_loop (months y) 0 yday = (mon, d)"
    and g: "gmtime tim = \<lparr>SEC = int (dval tim mod 60), MINUTE = int (dval tim div 60 mod 60),
        HOUR = int (dval tim div 3600 mod 24), MDAY = d + 1, MON = mon, YEAR = y,
        WDAY = int ((dval tim div 86400 + 4) mod 7), YDAY = yday, ISDAY = 0\<rparr>" by blast
  have Y: "70 \<le> y" "0 \<le> yday" "yday < dysize y"
    "int (dval tim div 86400) = (\<Sum>i \<in> {70..<y}. dysize i) + yday"
    using year_loop_result [OF _ y] by auto
  moreover have "dval tim div 86400 < 10923" using assms by simp
  ultimately have y99: "y \<le> 99" by (intro years_bound) auto
  from month_loop_result [OF Y(2) _ m] obtain i where i: "i < 12" "mon = int i" "0 \<le> d" "d < months y ! i"
    "yday = sum_list (take i (months y)) + d" using Y(3) by (auto simp: months_total)
  have len: "dysize y = int (year_len (nat (1900 + y)))"
    using leap_dysize [OF Y(1) y99] by (auto simp: year_len_def dysize_def split: if_splits)
  have y: "int (dval tim div 86400) = int (\<Sum>Y \<in> {1970..<nat (1900 + y)}. year_len Y) + yday"
    using year_days [of y] Y(1,4) y99 by simp
  have n: "nat mon = i" "0 \<le> mon" "mon < 12" using i(1,2) by auto
  have m: "yday = (\<Sum>m < nat mon. int (month_len (nat (1900 + y)) m)) + (d + 1) - 1"
    "1 \<le> d + 1" "d + 1 \<le> int (month_len (nat (1900 + y)) (nat mon))"
    unfolding n(1) using i months_sum [OF Y(1) y99, of i] months_len [OF Y(1) y99, of i] by auto
  have "yday < int (year_len (nat (1900 + y)))" using Y(3) len by simp
  with Y(1,2) n y m show ?thesis unfolding g Let_def tvec.select_convs by blast
qed

lemma gmtime_gregorian_witness:
  "SEC (gmtime (77, 54989)) = 1 \<and> HOUR (gmtime (77, 54989)) = 1 \<and> WDAY (gmtime (77, 54989)) = 0"
proof -
  have "dval (77, 54989) = 5101261" by (simp add: dval_def)
  then show ?thesis using gmtime_gregorian [of "(77, 54989)"] by (simp add: Let_def)
qed

text \<open>
  \<open>sunday\<close> gives the last Sunday on or before the day; the comment in the source says the first one
  on or after it.
\<close>

lemma sunday_before:
  assumes "0 \<le> WDAY t" "YDAY t \<le> 366" "0 \<le> ad"
  shows "let d = (if ad \<ge> 58 then ad + (dysize (YEAR t) - 365) else ad)
    in d - 6 \<le> sunday t ad \<and> sunday t ad \<le> d \<and> (sunday t ad - YDAY t + WDAY t) mod 7 = 0"
proof -
  define d where "d = (if ad \<ge> 58 then ad + (dysize (YEAR t) - 365) else ad)"
  have "0 \<le> d" using assms(3) by (simp add: d_def dysize_def)
  then have "0 \<le> d - YDAY t + WDAY t + 700" using assms by linarith
  then have s: "sunday t ad = d - (d - YDAY t + WDAY t + 700) mod 7"
    by (simp add: sunday_def d_def [symmetric])
  moreover have "(d - x mod 7 - y) mod 7 = (d - x - y) mod 7" for d x y :: int
    by (metis diff_right_commute mod_diff_right_eq)
  then have "(sunday t ad - (YDAY t - WDAY t)) mod 7 = (d - (d - YDAY t + WDAY t + 700) - (YDAY t - WDAY t)) mod 7"
    unfolding s by blast
  then have "(sunday t ad - YDAY t + WDAY t) mod 7 = 0" by (simp add: algebra_simps)
  ultimately show ?thesis unfolding d_def [symmetric] Let_def by simp
qed

text \<open>
  From 27 November 1999, 16:00 on the count of eight-hour periods is negative as an \<open>int\<close>: \<open>gmtime\<close>
  gives a day before 1970 and a negative day of the week, with which \<open>asctime\<close> indexes its string.
\<close>

lemma ctime_fails_1999:
  "YEAR (gmtime (14400, 0)) = 70 \<and> YDAY (gmtime (14400, 0)) = - 10922 \<and> ctime (14400, 0) = None"
proof -
  have "dval (14400, 0) = 943718400" by (simp add: dval_def)
  then have u: "unat (fst (ldiv_u (14400, 0) 28800)) = 32768" "unat (snd (ldiv_u (14400, 0) 28800)) = 0"
    using ldiv_u_exact [of 28800 "(14400, 0)"] by simp_all
  obtain q r where qr: "ldiv_u (14400, 0) 28800 = (q, r)" by (cases "ldiv_u (14400, 0) 28800")
  with u have "q = 0x8000" "r = 0" by (simp_all add: word_unat_eq_iff)
  with qr have qr: "ldiv_u (14400, 0) 28800 = (0x8000, 0)" by simp
  have g: "gmtime (14400, 0) = \<lparr>SEC = 0, MINUTE = 0, HOUR = -16, MDAY = -10921, MON = 0, YEAR = 70,
      WDAY = -5, YDAY = -10922, ISDAY = 0\<rparr>"
    by (simp add: gmtime_def qr year_loop.simps [of 70 "- 10922"] dysize_def dmsize_def signed_modulo_int_def signed_divide_int_def)
  have "sunday (gmtime (14400, 0)) 119 = 115" "sunday (gmtime (14400, 0)) 303 = 297"
    by (simp_all add: g sunday_def dysize_def)
  then have "localtime (14400, 0) = gmtime (14400, 0)"
    unfolding localtime_def Let_def by (simp add: g)
  with g show ?thesis by (simp add: ctime_def asctime_def)
qed

end
