(* ===== verification/EdBuf.thy ===== *)
theory EdBuf
  imports UserLib Ctime
begin

text \<open>
  The editor (\<open>usr/ed.c\<close>), first part: its variables, the terminal and the temporary file that holds
  the lines.  A character is the \<open>int\<close> that \<open>getchar\<close> returns, with -1 for \<open>EOF\<close>; the buffers are functions
  from indices to bytes; a pointer into the line table is the index of its entry, and \<open>zero\<close> is entry 0.
  Not modelled: signals, and failures of the temporary file other than reading past its end.
\<close>

section \<open>State\<close>

type_synonym carr = "nat \<Rightarrow> u8"

abbreviation LBSIZE :: nat where "LBSIZE \<equiv> 512"
abbreviation ESIZE :: nat where "ESIZE \<equiv> 128"
abbreviation NLINES :: int where "NLINES \<equiv> 4096"

text \<open>A pointer into \<open>linebuf\<close> or \<open>genbuf\<close>; whether a temporary block is in \<open>ibuff\<close> or \<open>obuff\<close>.\<close>

datatype cbuf = LBUF | GBUF
type_synonym cptr = "cbuf \<times> nat"

datatype tbuf = IBUF | OBUF

text \<open>
  \<open>e_in\<close> is what is left of the standard input, which cannot be sought on if \<open>e_tty\<close>; \<open>e_out\<close> is what was written to the
  standard output, \<open>pline\<close> the output line being put together.  \<open>e_fs\<close> are the files by name, \<open>e_creat\<close> tells
  which of them \<open>creat\<close> may make, \<open>e_sh\<close> what a shell does that reads the same input: it gives the input it leaves, its
  output and the files.  \<open>io_in\<close> is what is left of the file being read; \<open>io_open\<close> tells whether \<open>io\<close> is a descriptor.  \<open>tabpos\<close> is the place
  of the line table in memory, counted in entries.  \<open>tblk\<close> and \<open>tlen\<close> are the blocks of the temporary file.
\<close>

record edst =
  e_in :: "u8 list"
  e_tty :: bool
  e_out :: "u8 list"
  pline :: "u8 list"
  col :: int
  listf :: bool
  pflag :: bool
  vflag :: bool
  peekc :: int
  lastc :: int
  globp :: "u8 list option"
  savedfile :: "u8 list"
  efile :: "u8 list"
  e_fs :: "u8 list \<Rightarrow> u8 list option"
  e_creat :: "u8 list \<Rightarrow> bool"
  e_sh :: "u8 list \<Rightarrow> (u8 list \<Rightarrow> u8 list option) \<Rightarrow> u8 list \<times> u8 list \<times> (u8 list \<Rightarrow> u8 list option)"
  io_in :: "u8 list"
  io_open :: bool
  ninbuf :: int
  nextip :: nat
  linebuf :: carr
  genbuf :: carr
  linebp :: "nat option"
  rhsbuf :: "u8 list"
  expbuf :: carr
  circfl :: bool
  tab :: "int \<Rightarrow> u16"
  tabpos :: int
  dot :: int
  dol :: int
  addr1 :: "int option"
  addr2 :: "int option"
  tline :: u16
  tblk :: "nat \<Rightarrow> carr"
  tlen :: nat
  iblock :: "nat option"
  oblock :: "nat option"
  ibuff :: carr
  obuff :: carr
  ichanged :: bool
  nleft :: nat
  ecount :: dword
  names :: "nat \<Rightarrow> u16"
  loc1 :: "cptr option"
  loc2 :: "cptr option"
  locs :: "cptr option"
  braslist :: "nat \<Rightarrow> cptr option"
  braelist :: "nat \<Rightarrow> cptr option"

text \<open>
  \<open>Jump\<close> is the \<open>reset()\<close> at the end of \<open>errfunc\<close>, back to \<open>setexit()\<close> in \<open>main\<close>; \<open>Gone\<close> is \<open>exit\<close>; \<open>Wild\<close> an
  index out of an array or a comparison of pointers into two of them; \<open>Long\<close> a used up bound.
\<close>

datatype 'a eres = Fine 'a edst | Jump edst | Gone edst | Wild | Long

fun ebind :: "'a eres \<Rightarrow> ('a \<Rightarrow> edst \<Rightarrow> 'b eres) \<Rightarrow> 'b eres" where
  "ebind (Fine x s) f = f x s"
| "ebind (Jump s) f = Jump s"
| "ebind (Gone s) f = Gone s"
| "ebind Wild f = Wild"
| "ebind Long f = Long"

lemma ebind_cong [fundef_cong]:
  "x = y \<Longrightarrow> (\<And>a s. y = Fine a s \<Longrightarrow> f a s = g a s) \<Longrightarrow> ebind x f = ebind y g"
  by (cases y) auto

lemma ebind_Fine: "ebind x f = Fine b t \<longleftrightarrow> (\<exists>a s. x = Fine a s \<and> f a s = Fine b t)"
  by (cases x) auto

section \<open>The terminal\<close>

definition ch :: "int \<Rightarrow> u8" where
  "ch c = word_of_int c"

definition getchar :: "edst \<Rightarrow> int \<times> edst" where
  "getchar s =
     (if peekc s \<noteq> 0 then (peekc s, s\<lparr>lastc := peekc s, peekc := 0\<rparr>)
      else
        (case globp s of
           Some (c # cs) \<Rightarrow> (sint c, s\<lparr>lastc := sint c, globp := Some cs\<rparr>)
         | Some [] \<Rightarrow> (-1, s\<lparr>lastc := 0, globp := None\<rparr>)
         | None \<Rightarrow>
             (case e_in s of
                [] \<Rightarrow> (-1, s\<lparr>lastc := -1\<rparr>)
              | c # cs \<Rightarrow> (uint (c AND 127), s\<lparr>lastc := uint (c AND 127), e_in := cs\<rparr>))))"

definition flush_line :: "int \<Rightarrow> u8 list \<Rightarrow> edst \<Rightarrow> edst" where
  "flush_line c lp s =
     (if c = 10 \<or> length lp \<ge> 64 then s\<lparr>e_out := e_out s @ lp, pline := []\<rparr> else s\<lparr>pline := lp\<rparr>)"

definition ed_putc :: "int \<Rightarrow> edst \<Rightarrow> edst" where
  "ed_putc c s =
     (let lp = pline s
      in if listf s then
           (let s = s\<lparr>col := col s + 1\<rparr>;
                (s, lp) = (if col s \<ge> 72 then (s\<lparr>col := 0\<rparr>, lp @ [92, 10]) else (s, lp))
            in if c = 9 then flush_line 62 (lp @ [45, 8, 62]) s
               else if c = 8 then flush_line 60 (lp @ [45, 8, 60]) s
               else if c < 32 \<and> c \<noteq> 10 then
                 flush_line c (lp @ [92, ch (c div 8 + 48), ch (c mod 8 + 48)]) (s\<lparr>col := col s + 2\<rparr>)
               else flush_line c (lp @ [ch c]) s)
         else flush_line c (lp @ [ch c]) s)"

definition puts :: "u8 list \<Rightarrow> edst \<Rightarrow> edst" where
  "puts cs s = ed_putc 10 (fold (\<lambda>c. ed_putc (sint c)) cs (s\<lparr>col := 0\<rparr>))"

text \<open>\<open>errfunc\<close>: what is left of the input line is thrown away.\<close>

fun eat_line :: "nat \<Rightarrow> edst \<Rightarrow> edst" where
  "eat_line 0 s = s"
| "eat_line (Suc k) s =
     (case getchar s of (c, s) \<Rightarrow> if c \<noteq> 10 \<and> c \<noteq> -1 then eat_line k s else s)"

definition errfunc :: "edst \<Rightarrow> edst" where
  "errfunc s =
     (let s = puts [63] (s\<lparr>listf := False\<rparr>);
          s = s\<lparr>ecount := (0, snd (ecount s)), e_in := (if e_tty s then e_in s else []), pflag := False\<rparr>;
          s = (if globp s \<noteq> None then s\<lparr>lastc := 10\<rparr> else s);
          s = s\<lparr>globp := None, peekc := lastc s\<rparr>;
          s = eat_line (length (e_in s) + 2) s
      in s\<lparr>io_open := False\<rparr>)"

definition err :: "edst \<Rightarrow> 'a eres" where
  "err s = Jump (errfunc s)"

text \<open>\<open>putd\<close> prints the two words of \<open>count\<close> as one decimal number; ten digits are enough.\<close>

fun putd_loop :: "nat \<Rightarrow> edst \<Rightarrow> edst" where
  "putd_loop 0 s = s"
| "putd_loop (Suc k) s =
     (let (q_hi, r) = ldiv_u (0, fst (ecount s)) 10; (q_lo, r) = ldiv_u (r, snd (ecount s)) 10;
          s = s\<lparr>ecount := (q_hi, q_lo)\<rparr>;
          s = (if q_hi \<noteq> 0 \<or> q_lo \<noteq> 0 then putd_loop k s else s)
      in ed_putc (sint r + 48) s)"

definition putd :: "edst \<Rightarrow> edst" where
  "putd s = putd_loop 10 s"

section \<open>The temporary file\<close>

definition tmp_error :: "edst \<Rightarrow> 'a eres" where
  "tmp_error s = err (puts (bytes ''TMP'') s)"

definition blk_read :: "nat \<Rightarrow> edst \<Rightarrow> unit eres" where
  "blk_read b s = (if b < tlen s then Fine () (s\<lparr>ibuff := tblk s b\<rparr>) else tmp_error s)"

definition blk_write :: "nat \<Rightarrow> carr \<Rightarrow> edst \<Rightarrow> edst" where
  "blk_write b buf s = s\<lparr>tblk := (tblk s)(b := buf), tlen := max (tlen s) (b + 1)\<rparr>"

text \<open>The result is a pointer into one of the two block buffers.\<close>

definition getblock :: "u16 \<Rightarrow> bool \<Rightarrow> edst \<Rightarrow> (tbuf \<times> nat) eres" where
  "getblock atl wr s =
     (let bno = unat (drop_bit 8 atl); off = unat (push_bit 1 atl AND 508)
      in if bno \<ge> 255 then tmp_error s
         else
           let s = s\<lparr>nleft := 512 - off\<rparr>
           in if iblock s = Some bno then Fine (IBUF, off) (s\<lparr>ichanged := (ichanged s \<or> wr)\<rparr>)
              else if oblock s = Some bno then Fine (OBUF, off) s
              else if \<not> wr then
                (let s = (if ichanged s then (case iblock s of None \<Rightarrow> s | Some b \<Rightarrow> blk_write b (ibuff s) s) else s)
                 in ebind (blk_read bno (s\<lparr>ichanged := False, iblock := Some bno\<rparr>)) (\<lambda>_. Fine (IBUF, off)))
              else
                (let s = (case oblock s of None \<Rightarrow> s | Some b \<Rightarrow> blk_write b (obuff s) s)
                 in Fine (OBUF, off) (s\<lparr>oblock := Some bno\<rparr>)))"

definition tget :: "tbuf \<times> nat \<Rightarrow> edst \<Rightarrow> u8" where
  "tget p s = (case fst p of IBUF \<Rightarrow> ibuff s (snd p) | OBUF \<Rightarrow> obuff s (snd p))"

definition tput :: "tbuf \<times> nat \<Rightarrow> u8 \<Rightarrow> edst \<Rightarrow> edst" where
  "tput p c s =
     (case fst p of
        IBUF \<Rightarrow> s\<lparr>ibuff := (ibuff s)(snd p := c)\<rparr>
      | OBUF \<Rightarrow> s\<lparr>obuff := (obuff s)(snd p := c)\<rparr>)"

text \<open>Both loops have the 512 places of \<open>linebuf\<close>.\<close>

fun getline_loop :: "nat \<Rightarrow> nat \<Rightarrow> tbuf \<times> nat \<Rightarrow> nat \<Rightarrow> u16 \<Rightarrow> edst \<Rightarrow> unit eres" where
  "getline_loop 0 lp bp nl tn s = Wild"
| "getline_loop (Suc k) lp bp nl tn s =
     (let c = tget bp s; s = s\<lparr>linebuf := (linebuf s)(lp := c)\<rparr>
      in if c = 0 then Fine () s
         else if nl = 1 then
           ebind (getblock (tn + 256) False s) (\<lambda>bp s. getline_loop k (lp + 1) bp (nleft s) (tn + 256) s)
         else getline_loop k (lp + 1) (fst bp, snd bp + 1) (nl - 1) tn s)"

definition getline :: "u16 \<Rightarrow> edst \<Rightarrow> unit eres" where
  "getline tn s =
     ebind (getblock tn False s) (\<lambda>bp s. getline_loop LBSIZE 0 bp (nleft s) (clr tn 255) s)"

text \<open>\<open>putline\<close> stops behind the NUL or the newline and keeps that place (\<open>lp\<close>).\<close>

fun putline_loop :: "nat \<Rightarrow> nat \<Rightarrow> tbuf \<times> nat \<Rightarrow> nat \<Rightarrow> u16 \<Rightarrow> edst \<Rightarrow> nat eres" where
  "putline_loop 0 lp bp nl tn s = Wild"
| "putline_loop (Suc k) lp bp nl tn s =
     (let c = linebuf s lp
      in if c = 0 then Fine (lp + 1) (tput bp 0 s)
         else if c = 10 then Fine (lp + 1) (tput bp 0 (s\<lparr>linebp := Some (lp + 1)\<rparr>))
         else
           let s = tput bp c s
           in if nl = 1 then
                ebind (getblock (tn + 256) True s) (\<lambda>bp s. putline_loop k (lp + 1) bp (nleft s) (tn + 256) s)
              else putline_loop k (lp + 1) (fst bp, snd bp + 1) (nl - 1) tn s)"

definition putline :: "edst \<Rightarrow> u16 eres" where
  "putline s =
     (let tn = tline s
      in ebind (getblock tn True s) (\<lambda>bp s.
         ebind (putline_loop LBSIZE 0 bp (nleft s) (clr tn 255) s) (\<lambda>lp s.
           Fine tn (s\<lparr>tline := tn + (drop_bit 1 (of_nat lp + 3) AND 32766)\<rparr>))))"

end
