(* ===== verification/EdRe.thy ===== *)
theory EdRe
  imports EdBuf
begin

text \<open>
  The editor, second part: regular expressions.  \<open>compile\<close> translates what is typed into the byte code in
  \<open>expbuf\<close>, \<open>advance\<close> interprets it on a line, \<open>execute\<close> looks for the first place where it matches.
  Indices into \<open>expbuf\<close> stand for the pointers \<open>ep\<close>.
\<close>

section \<open>Compilation\<close>

abbreviation CBRA :: u8 where "CBRA \<equiv> 1"
abbreviation CCHR :: u8 where "CCHR \<equiv> 2"
abbreviation CDOT :: u8 where "CDOT \<equiv> 4"
abbreviation CCL :: u8 where "CCL \<equiv> 6"
abbreviation NCCL :: u8 where "NCCL \<equiv> 8"
abbreviation CDOL :: u8 where "CDOL \<equiv> 10"
abbreviation CEOF :: u8 where "CEOF \<equiv> 11"
abbreviation CKET :: u8 where "CKET \<equiv> 12"
abbreviation STAR :: u8 where "STAR \<equiv> 1"
abbreviation NBRA :: nat where "NBRA \<equiv> 5"

definition eput :: "nat \<Rightarrow> u8 \<Rightarrow> edst \<Rightarrow> edst" where
  "eput ep c s = s\<lparr>expbuf := (expbuf s)(ep := c)\<rparr>"

definition cerror :: "edst \<Rightarrow> 'a eres" where
  "cerror s = err (eput 0 0 s)"

text \<open>The members of a class, from the character \<open>c\<close> that has been read.\<close>

fun class_loop :: "nat \<Rightarrow> int \<Rightarrow> nat \<Rightarrow> nat \<Rightarrow> edst \<Rightarrow> (nat \<times> nat) eres" where
  "class_loop 0 c ep cnt s = Long"
| "class_loop (Suc k) c ep cnt s =
     (if c = 10 then cerror s
      else
        let s = eput ep (ch c) s
        in if ep + 1 \<ge> ESIZE then cerror s
           else (case getchar s of (c, s) \<Rightarrow>
                   if c = 93 then Fine (ep + 1, cnt + 1) s else class_loop k c (ep + 1) (cnt + 1) s))"

text \<open>\<open>br\<close> holds the numbers of the open brackets, the innermost first; \<open>lastep\<close> is not set before the
  first character.\<close>

fun compile_loop :: "nat \<Rightarrow> int \<Rightarrow> nat \<Rightarrow> nat option \<Rightarrow> nat list \<Rightarrow> nat \<Rightarrow> edst \<Rightarrow> unit eres" where
  "compile_loop 0 eof ep lastep br nbra s = Long"
| "compile_loop (Suc k) eof ep lastep br nbra s =
     (if ep \<ge> ESIZE then cerror s
      else
        (case getchar s of (c, s) \<Rightarrow>
           if c = eof then Fine () (eput ep CEOF s)
           else
             let lastep = (if c \<noteq> 42 then Some ep else lastep)
             in if c = 92 then
                  (case getchar s of (c, s) \<Rightarrow>
                     if c = 40 then
                       (if nbra \<ge> NBRA then cerror s
                        else compile_loop k eof (ep + 2) lastep (nbra # br) (nbra + 1)
                               (eput (ep + 1) (of_nat nbra) (eput ep CBRA s)))
                     else if c = 41 then
                       (case br of
                          [] \<Rightarrow> cerror s
                        | b # br \<Rightarrow>
                            compile_loop k eof (ep + 2) lastep br nbra (eput (ep + 1) (of_nat b) (eput ep CKET s)))
                     else if c = 10 then cerror (eput ep CCHR s)
                     else compile_loop k eof (ep + 2) lastep br nbra (eput (ep + 1) (ch c) (eput ep CCHR s)))
                else if c = 46 then compile_loop k eof (ep + 1) lastep br nbra (eput ep CDOT s)
                else if c = 10 then cerror s
                else if c = 42 then
                  (case lastep of
                     None \<Rightarrow> Wild
                   | Some l \<Rightarrow>
                       if expbuf s l = CBRA \<or> expbuf s l = CKET then err s
                       else compile_loop k eof ep lastep br nbra (eput l (expbuf s l OR STAR) s))
                else if c = 36 then
                  (case getchar s of (d, s) \<Rightarrow>
                     let s = s\<lparr>peekc := d\<rparr>
                     in if d \<noteq> eof then
                          compile_loop k eof (ep + 2) lastep br nbra (eput (ep + 1) (ch c) (eput ep CCHR s))
                        else compile_loop k eof (ep + 1) lastep br nbra (eput ep CDOL s))
                else if c = 91 then
                  (case getchar (eput (ep + 1) 0 (eput ep CCL s)) of (c, s) \<Rightarrow>
                     case (if c = 94 then (case getchar s of (c, s) \<Rightarrow> (c, eput ep NCCL s)) else (c, s)) of
                       (c, s) \<Rightarrow>
                         ebind (class_loop ESIZE c (ep + 2) 1 s) (\<lambda>(ep', cnt) s.
                           compile_loop k eof ep' lastep br nbra (eput (ep + 1) (of_nat cnt) s)))
                else compile_loop k eof (ep + 2) lastep br nbra (eput (ep + 1) (ch c) (eput ep CCHR s))))"

text \<open>A turn of the loop advances \<open>ep\<close>, unless it is a star, which is a character of the input.\<close>

definition typed :: "edst \<Rightarrow> nat" where
  "typed s = (if peekc s \<noteq> 0 then 1 else 0) + (case globp s of None \<Rightarrow> 0 | Some g \<Rightarrow> length g + 1) + length (e_in s)"

definition compile :: "int \<Rightarrow> edst \<Rightarrow> unit eres" where
  "compile eof s =
     (case getchar s of (c, s) \<Rightarrow>
        if c = eof then (if expbuf s 0 = 0 then err s else Fine () s)
        else
          (case (if c = 94 then (case getchar (s\<lparr>circfl := True\<rparr>) of (c, s) \<Rightarrow> (c, s))
                 else (c, s\<lparr>circfl := False\<rparr>)) of
             (c, s) \<Rightarrow>
               if c = 42 then cerror s
               else
                 let s = s\<lparr>peekc := c\<rparr>
                 in compile_loop (typed s + ESIZE + 1) eof 0 None [] 0 s))"

section \<open>Matching\<close>

definition cget :: "cbuf \<Rightarrow> nat \<Rightarrow> edst \<Rightarrow> u8" where
  "cget b i s = (case b of LBUF \<Rightarrow> linebuf s i | GBUF \<Rightarrow> genbuf s i)"

text \<open>The class starts at \<open>ep\<close> with its count, which includes the count itself.\<close>

definition cclass :: "carr \<Rightarrow> nat \<Rightarrow> u8 \<Rightarrow> bool \<Rightarrow> bool" where
  "cclass e ep c af \<longleftrightarrow>
     c \<noteq> 0 \<and> (if c \<in> set (map e [ep + 1..<ep + unat (e ep)]) then af else \<not> af)"

definition class_ok :: "carr \<Rightarrow> nat \<Rightarrow> bool" where
  "class_ok e ep \<longleftrightarrow> 0 < unat (e ep) \<and> unat (e ep) < 128"

text \<open>\<open>while (P(*lp++));\<close> leaves \<open>lp\<close> one behind the index this gives.\<close>

definition run_end :: "(u8 \<Rightarrow> bool) \<Rightarrow> cbuf \<Rightarrow> nat \<Rightarrow> edst \<Rightarrow> nat option" where
  "run_end P b lp s = find (\<lambda>i. \<not> P (cget b i s)) [lp..<LBSIZE]"

function advance :: "cbuf \<Rightarrow> nat \<Rightarrow> nat \<Rightarrow> edst \<Rightarrow> bool eres"
  and star_loop :: "cbuf \<Rightarrow> nat \<Rightarrow> nat \<Rightarrow> nat \<Rightarrow> edst \<Rightarrow> bool eres" where
  "advance b lp ep s =
     (if ep \<ge> ESIZE + 4 \<or> lp \<ge> LBSIZE then Wild
      else
        let opc = expbuf s ep; e = ep + 1; x = expbuf s e; c = cget b lp s
        in if opc = CCHR then (if x = c then advance b (lp + 1) (e + 1) s else Fine False s)
           else if opc = CDOT then (if c \<noteq> 0 then advance b (lp + 1) e s else Fine False s)
           else if opc = CDOL then (if c = 0 then advance b lp e s else Fine False s)
           else if opc = CEOF then Fine True (s\<lparr>loc2 := Some (b, lp)\<rparr>)
           else if opc = CCL \<or> opc = NCCL then
             (if \<not> class_ok (expbuf s) e then Wild
              else if cclass (expbuf s) e c (opc = CCL) then advance b (lp + 1) (e + unat x) s
              else Fine False s)
           else if opc = CBRA then
             (if unat x \<ge> NBRA then Wild
              else advance b lp (e + 1) (s\<lparr>braslist := (braslist s)(unat x := Some (b, lp))\<rparr>))
           else if opc = CKET then
             (if unat x \<ge> NBRA then Wild
              else advance b lp (e + 1) (s\<lparr>braelist := (braelist s)(unat x := Some (b, lp))\<rparr>))
           else if opc = CDOT OR STAR then
             (case run_end (\<lambda>c. c \<noteq> 0) b lp s of None \<Rightarrow> Wild | Some j \<Rightarrow> star_loop b j lp e s)
           else if opc = CCHR OR STAR then
             (case run_end (\<lambda>c. c = x) b lp s of None \<Rightarrow> Wild | Some j \<Rightarrow> star_loop b j lp (e + 1) s)
           else if opc = CCL OR STAR \<or> opc = NCCL OR STAR then
             (if \<not> class_ok (expbuf s) e then Wild
              else (case run_end (\<lambda>c. cclass (expbuf s) e c (opc = CCL OR STAR)) b lp s of
                      None \<Rightarrow> Wild | Some j \<Rightarrow> star_loop b j lp (e + unat x) s))
           else err s)"
| "star_loop b j lo ep s =
     (if locs s = Some (b, j) then Fine False s
      else
        ebind (advance b j ep s) (\<lambda>r s.
          if r then Fine True s
          else if j > lo then star_loop b (j - 1) lo ep s
          else Fine False s))"
  by pat_completeness auto

termination
  by (relation "measures [case_sum (\<lambda>(b, lp, ep, s). ESIZE + 4 - ep) (\<lambda>(b, j, lo, ep, s). ESIZE + 4 - ep),
        case_sum (\<lambda>_. 0) (\<lambda>(b, j, lo, ep, s). j + 1)]") auto

declare advance.simps [simp del] star_loop.simps [simp del]

text \<open>\<open>while (*p1++ = *p2++);\<close> from \<open>genbuf\<close> to \<open>linebuf\<close>.\<close>

definition str_len :: "carr \<Rightarrow> nat option" where
  "str_len a = find (\<lambda>i. a i = 0) [0..<LBSIZE]"

definition gen_to_line :: "edst \<Rightarrow> unit eres" where
  "gen_to_line s =
     (case str_len (genbuf s) of
        None \<Rightarrow> Wild
      | Some n \<Rightarrow> Fine () (s\<lparr>linebuf := (\<lambda>k. if k \<le> n then genbuf s k else linebuf s k)\<rparr>))"

text \<open>The two search loops; \<open>first\<close> is the character the fast one looks for.\<close>

fun search_loop :: "nat \<Rightarrow> u8 option \<Rightarrow> cbuf \<Rightarrow> nat \<Rightarrow> edst \<Rightarrow> bool eres" where
  "search_loop 0 first b p s = Wild"
| "search_loop (Suc k) first b p s =
     (let next = (\<lambda>s. if cget b p s = 0 then Fine False s else search_loop k first b (p + 1) s)
      in case first of
           Some c \<Rightarrow>
             if cget b p s \<noteq> c then next s
             else ebind (advance b p 0 s) (\<lambda>r s. if r then Fine True (s\<lparr>loc1 := Some (b, p)\<rparr>) else next s)
         | None \<Rightarrow>
             ebind (advance b p 0 s) (\<lambda>r s. if r then Fine True (s\<lparr>loc1 := Some (b, p)\<rparr>) else next s))"

definition match_from :: "cbuf \<Rightarrow> nat \<Rightarrow> edst \<Rightarrow> bool eres" where
  "match_from b p s =
     (if circfl s then advance b p 0 (s\<lparr>loc1 := Some (b, p)\<rparr>)
      else search_loop (LBSIZE - p) (if expbuf s 0 = CCHR then Some (expbuf s 1) else None) b p s)"

text \<open>\<open>execute(0, addr)\<close> looks at a line of the table, \<open>execute(1, 0)\<close> goes on behind a substitution.\<close>

definition execute :: "int \<Rightarrow> edst \<Rightarrow> bool eres" where
  "execute addr s =
     (if addr = 0 then Fine False s
      else ebind (getline (tab s addr) s) (\<lambda>_ s. match_from LBUF 0 (s\<lparr>locs := None\<rparr>)))"

definition execute_on :: "edst \<Rightarrow> bool eres" where
  "execute_on s =
     (if circfl s then Fine False s
      else
        ebind (gen_to_line s) (\<lambda>_ s.
          case loc2 s of
            None \<Rightarrow> Wild
          | Some (b, p) \<Rightarrow> match_from b p (s\<lparr>locs := Some (b, p)\<rparr>)))"

end
