(* ===== verification/EdCmd.thy ===== *)
theory EdCmd
  imports EdRe
begin

text \<open>
  The editor, third part: addresses, the line table and the commands.  Loops that read the input are
  bounded by what is left of it (\<open>typed\<close>).
\<close>

section \<open>Addresses\<close>

text \<open>
  A pointer into the line table counts entries in 16 bits, so it wraps at 32768 of them, which may take it
  back into the table or make it null.
\<close>

definition entry_ptr :: "int \<Rightarrow> edst \<Rightarrow> int option" where
  "entry_ptr i s = (let j = (i + tabpos s) mod 32768 in if j = 0 then None else Some (j - tabpos s))"

fun number_loop :: "nat \<Rightarrow> u16 \<Rightarrow> int \<Rightarrow> edst \<Rightarrow> (u16 \<times> int) eres" where
  "number_loop 0 n c s = Long"
| "number_loop (Suc k) n c s =
     (let n = n * 10 + (word_of_int c - 48)
      in case getchar s of (c, s) \<Rightarrow> if 48 \<le> c \<and> c \<le> 57 then number_loop k n c s else Fine (n, c) s)"

text \<open>The search goes round the table once.\<close>

fun address_search :: "nat \<Rightarrow> bool \<Rightarrow> int \<Rightarrow> edst \<Rightarrow> int eres" where
  "address_search 0 fwd a1 s = Long"
| "address_search (Suc k) fwd a1 s =
     (let a1 = (if fwd then (if a1 + 1 > dol s then 0 else a1 + 1) else (if a1 - 1 < 0 then dol s else a1 - 1))
      in ebind (execute a1 s) (\<lambda>r s.
           if r then Fine a1 s else if a1 = dot s then err s else address_search k fwd a1 s))"

definition mark_line :: "u16 \<Rightarrow> edst \<Rightarrow> int" where
  "mark_line m s = (case find (\<lambda>i. m = tab s i OR 1) [0..dol s] of Some i \<Rightarrow> i | None \<Rightarrow> dol s + 1)"

fun address_loop :: "nat \<Rightarrow> int option \<Rightarrow> u16 \<Rightarrow> edst \<Rightarrow> int option eres" where
  "address_loop 0 a1 mns s = Long"
| "address_loop (Suc k) a1 mns s =
     (case getchar s of (c, s) \<Rightarrow>
        let relerr = (a1 \<noteq> None \<or> mns \<noteq> 0)
        in if 48 \<le> c \<and> c \<le> 57 then
             ebind (number_loop (typed s + 2) 0 c s) (\<lambda>(n, c) s.
               let s = s\<lparr>peekc := c\<rparr>; a = (case a1 of None \<Rightarrow> 0 | Some a \<Rightarrow> a);
                   n = (if sint mns < 0 then - n else n)
               in address_loop k (entry_ptr (a + sint n) s) 0 s)
           else if c = 32 \<or> c = 9 then address_loop k a1 mns s
           else if c = 43 then
             address_loop k (case a1 of None \<Rightarrow> Some (dot s) | Some a \<Rightarrow> Some a) (mns + 1) s
           else if c = 45 \<or> c = 94 then
             address_loop k (case a1 of None \<Rightarrow> Some (dot s) | Some a \<Rightarrow> Some a) (mns - 1) s
           else if c = 63 \<or> c = 47 then
             ebind (compile c s) (\<lambda>_ s.
               ebind (address_search (nat (dol s + 2)) (c = 47) (dot s) s) (\<lambda>a s.
                 if relerr then err s else address_loop k (Some a) mns s))
           else if c = 36 then (if relerr then err s else address_loop k (Some (dol s)) mns s)
           else if c = 46 then (if relerr then err s else address_loop k (Some (dot s)) mns s)
           else if c = 39 then
             (case getchar s of (c, s) \<Rightarrow>
                if c < 97 \<or> c > 122 then err s
                else if relerr then err s
                else address_loop k (Some (mark_line (names s (nat (c - 97))) s)) mns s)
           else
             let s = s\<lparr>peekc := c\<rparr>
             in case a1 of
                  None \<Rightarrow> Fine None s
                | Some a \<Rightarrow>
                    (case entry_ptr (a + sint mns) s of
                       None \<Rightarrow> err s
                     | Some a \<Rightarrow> if a < 0 \<or> a > dol s then err s else Fine (Some a) s))"

definition address :: "edst \<Rightarrow> int option eres" where
  "address s = address_loop (typed s + 2) None 0 s"

text \<open>A null pointer is below every other.\<close>

definition above :: "int option \<Rightarrow> int option \<Rightarrow> bool" where
  "above a b \<longleftrightarrow> (case (a, b) of (None, _) \<Rightarrow> False | (Some a, None) \<Rightarrow> True | (Some a, Some b) \<Rightarrow> a > b)"

definition setdot :: "edst \<Rightarrow> unit eres" where
  "setdot s =
     (let s = (if addr2 s = None then s\<lparr>addr1 := Some (dot s), addr2 := Some (dot s)\<rparr> else s)
      in if above (addr1 s) (addr2 s) then err s else Fine () s)"

definition setall :: "edst \<Rightarrow> unit eres" where
  "setall s =
     setdot (if addr2 s = None
             then s\<lparr>addr1 := Some (if dol s = 0 then 0 else 1), addr2 := Some (dol s)\<rparr>
             else s)"

definition setnoaddr :: "edst \<Rightarrow> unit eres" where
  "setnoaddr s = (if addr2 s \<noteq> None then err s else Fine () s)"

definition nonzero :: "edst \<Rightarrow> unit eres" where
  "nonzero s =
     (if \<not> above (addr1 s) (Some 0) \<or> above (addr2 s) (Some (dol s)) then err s else Fine () s)"

definition newline :: "edst \<Rightarrow> unit eres" where
  "newline s =
     (case getchar s of (c, s) \<Rightarrow>
        if c = 10 then Fine () s
        else if c = 112 \<or> c = 108 then
          (case getchar (s\<lparr>pflag := True, listf := (listf s \<or> c = 108)\<rparr>) of (c, s) \<Rightarrow>
             if c = 10 then Fine () s else err s)
        else err s)"

section \<open>Files\<close>

text \<open>The name has the 64 places of \<open>file\<close>, its NUL included.\<close>

fun name_loop :: "nat \<Rightarrow> int \<Rightarrow> edst \<Rightarrow> u8 list eres" where
  "name_loop 0 c s = Wild"
| "name_loop (Suc k) c s =
     (if k = 0 then Wild
      else
        (case getchar s of (d, s) \<Rightarrow>
           if d = 10 then Fine [ch c] s else ebind (name_loop k d s) (\<lambda>cs s. Fine (ch c # cs) s)))"

fun skip_spaces :: "nat \<Rightarrow> edst \<Rightarrow> int eres" where
  "skip_spaces 0 s = Long"
| "skip_spaces (Suc k) s = (case getchar s of (c, s) \<Rightarrow> if c = 32 then skip_spaces k s else Fine c s)"

definition filename :: "edst \<Rightarrow> unit eres" where
  "filename s =
     (case getchar (s\<lparr>ecount := (fst (ecount s), 0)\<rparr>) of (c, s) \<Rightarrow>
        if c = 10 \<or> c = -1 then
          (if savedfile s = [] then err s else Fine () (s\<lparr>efile := savedfile s\<rparr>))
        else if c \<noteq> 32 then err s
        else
          ebind (skip_spaces (typed s + 2) s) (\<lambda>c s.
            if c = 10 then err s
            else
              ebind (name_loop 64 c s) (\<lambda>cs s.
                let s = s\<lparr>efile := takeWhile (\<lambda>c. c \<noteq> 0) cs\<rparr>
                in Fine () (if savedfile s = [] then s\<lparr>savedfile := efile s\<rparr> else s))))"

definition exfile :: "edst \<Rightarrow> edst" where
  "exfile s =
     (let s = s\<lparr>io_open := False\<rparr> in if vflag s then ed_putc 10 (putd s) else s)"

text \<open>What \<open>++count[1]\<close> and its carry do.\<close>

definition bump :: "dword \<Rightarrow> dword" where
  "bump c = (if snd c + 1 = 0 then (fst c + 1, 0) else (fst c, snd c + 1))"

text \<open>\<open>getfile\<close> reads a line, 512 bytes at a time through \<open>genbuf\<close>.  The result tells whether there was one.\<close>

fun getfile_loop :: "nat \<Rightarrow> nat \<Rightarrow> nat \<Rightarrow> edst \<Rightarrow> bool eres" where
  "getfile_loop 0 lp fp s = Long"
| "getfile_loop (Suc k) lp fp s =
     (let s = s\<lparr>ninbuf := ninbuf s - 1\<rparr>;
          (s, fp) =
            (if ninbuf s < 0 then
               (let b = take LBSIZE (io_in s)
                in (s\<lparr>ninbuf := int (length b) - 1, io_in := drop LBSIZE (io_in s),
                      genbuf := (\<lambda>i. if i < length b then b ! i else genbuf s i)\<rparr>, 0))
             else (s, fp))
      in if ninbuf s < 0 then Fine False s
         else if lp \<ge> LBSIZE then err s
         else if fp \<ge> LBSIZE then Wild
         else
           let c = genbuf s fp AND 127; s = s\<lparr>linebuf := (linebuf s)(lp := c)\<rparr>
           in if c = 0 then getfile_loop k lp (fp + 1) s
              else
                let s = s\<lparr>ecount := bump (ecount s)\<rparr>
                in if c = 10 then Fine True (s\<lparr>linebuf := (linebuf s)(lp := 0), nextip := fp + 1\<rparr>)
                   else getfile_loop k (lp + 1) (fp + 1) s)"

definition getfile :: "edst \<Rightarrow> bool eres" where
  "getfile s = getfile_loop (nat (ninbuf s) + length (io_in s) + 2) 0 (nextip s) s"

definition io_write :: "u8 list \<Rightarrow> edst \<Rightarrow> edst" where
  "io_write cs s =
     s\<lparr>e_fs := (e_fs s)(efile s := Some ((case e_fs s (efile s) of None \<Rightarrow> [] | Some d \<Rightarrow> d) @ cs))\<rparr>"

definition genbuf_list :: "nat \<Rightarrow> edst \<Rightarrow> u8 list" where
  "genbuf_list n s = map (genbuf s) [0..<n]"

text \<open>The lines go to the file through \<open>genbuf\<close>, of which \<open>nib\<close> bytes are free.\<close>

fun putfile_line :: "nat \<Rightarrow> nat \<Rightarrow> int \<Rightarrow> nat \<Rightarrow> edst \<Rightarrow> (int \<times> nat) eres" where
  "putfile_line 0 lp nib fp s = Wild"
| "putfile_line (Suc k) lp nib fp s =
     (let (nib, fp, s) = (if nib - 1 < 0 then (511, 0, io_write (genbuf_list fp s) s) else (nib - 1, fp, s));
          s = s\<lparr>ecount := bump (ecount s)\<rparr>; c = linebuf s lp
      in if fp \<ge> LBSIZE then Wild
         else if c = 0 then Fine (nib, fp + 1) (s\<lparr>genbuf := (genbuf s)(fp := 10)\<rparr>)
         else putfile_line k (lp + 1) nib (fp + 1) (s\<lparr>genbuf := (genbuf s)(fp := c)\<rparr>))"

text \<open>The first line is written whatever \<open>addr2\<close> is; \<open>n\<close> is the number of lines after it.\<close>

fun putfile_loop :: "nat \<Rightarrow> int \<Rightarrow> int \<Rightarrow> nat \<Rightarrow> edst \<Rightarrow> nat eres" where
  "putfile_loop n a1 nib fp s =
     ebind (getline (tab s a1) s) (\<lambda>_ s.
       ebind (putfile_line LBSIZE 0 nib fp s) (\<lambda>(nib, fp) s.
         case n of 0 \<Rightarrow> Fine fp s | Suc n \<Rightarrow> putfile_loop n (a1 + 1) nib fp s))"

definition putfile :: "edst \<Rightarrow> unit eres" where
  "putfile s =
     (case (addr1 s, addr2 s) of
        (Some a1, Some a2) \<Rightarrow>
          ebind (putfile_loop (nat (a2 - a1)) a1 512 0 s) (\<lambda>fp s. Fine () (io_write (genbuf_list fp s) s))
      | _ \<Rightarrow> Wild)"

section \<open>The line table\<close>

text \<open>
  \<open>ed_append(f, a)\<close>: \<open>f\<close> leaves a line in \<open>linebuf\<close> and tells whether there was one; the entries behind \<open>dot\<close> move up by
  one place.  The result is the number of lines.
\<close>

fun shift_entries :: "nat \<Rightarrow> int \<Rightarrow> (int \<Rightarrow> u16) \<Rightarrow> int \<Rightarrow> u16" where
  "shift_entries 0 a1 t = t"
| "shift_entries (Suc k) a1 t = shift_entries k (a1 - 1) (t(a1 := t (a1 - 1)))"

definition insert_line :: "u16 \<Rightarrow> edst \<Rightarrow> edst" where
  "insert_line tn s =
     (let s = s\<lparr>dol := dol s + 1, dot := dot s + 1\<rparr>;
          t = shift_entries (nat (dol s - dot s)) (dol s) (tab s)
      in s\<lparr>tab := t(dot s := tn)\<rparr>)"

fun append_loop :: "nat \<Rightarrow> (edst \<Rightarrow> bool eres) \<Rightarrow> nat \<Rightarrow> edst \<Rightarrow> nat eres" where
  "append_loop 0 f n s = Long"
| "append_loop (Suc k) f n s =
     ebind (f s) (\<lambda>more s.
       if \<not> more then Fine n s
       else if dol s \<ge> NLINES - 2 then err s
       else ebind (putline s) (\<lambda>tn s. append_loop k f (n + 1) (insert_line tn s)))"

definition ed_append :: "(edst \<Rightarrow> bool eres) \<Rightarrow> int \<Rightarrow> edst \<Rightarrow> nat eres" where
  "ed_append f a s = append_loop (nat (NLINES - dol s) + 1) f 0 (s\<lparr>dot := a\<rparr>)"

text \<open>\<open>gettty\<close> takes a line from the input, up to a single dot.\<close>

fun gettty_loop :: "nat \<Rightarrow> bool \<Rightarrow> nat \<Rightarrow> edst \<Rightarrow> bool eres" where
  "gettty_loop 0 gf p s = Long"
| "gettty_loop (Suc k) gf p s =
     (case getchar s of (c, s) \<Rightarrow>
        if c = 10 then
          (let s = s\<lparr>linebuf := (linebuf s)(p := 0)\<rparr>
           in Fine (\<not> (linebuf s 0 = 46 \<and> linebuf s 1 = 0)) s)
        else if c = -1 then Fine False (if gf then s\<lparr>peekc := c\<rparr> else s)
        else
          let c = ch c AND 127
          in if c = 0 then gettty_loop k gf p s
             else
               let s = s\<lparr>linebuf := (linebuf s)(p := c)\<rparr>
               in if p + 1 \<ge> LBSIZE - 2 then err s else gettty_loop k gf (p + 1) s)"

definition gettty :: "edst \<Rightarrow> bool eres" where
  "gettty s = gettty_loop (typed s + 2) (globp s \<noteq> None) 0 s"

text \<open>\<open>getsub\<close> takes the rest of a line that a substitution has split.\<close>

definition getsub :: "edst \<Rightarrow> bool eres" where
  "getsub s =
     (case linebp s of
        None \<Rightarrow> Fine False s
      | Some p \<Rightarrow>
          (case find (\<lambda>i. linebuf s i = 0) [p..<LBSIZE] of
             None \<Rightarrow> Wild
           | Some e \<Rightarrow>
               Fine True (s\<lparr>linebuf := (\<lambda>i. if i \<le> e - p then linebuf s (p + i) else linebuf s i), linebp := None\<rparr>)))"

definition getcopy :: "edst \<Rightarrow> bool eres" where
  "getcopy s =
     (case addr1 s of
        None \<Rightarrow> Wild
      | Some a \<Rightarrow>
          if above (Some a) (addr2 s) then Fine False s
          else ebind (getline (tab s a) (s\<lparr>addr1 := Some (a + 1)\<rparr>)) (\<lambda>_ s. Fine True s))"

text \<open>\<open>do *a1++ = *a2++; while (a2 <= a3)\<close>; \<open>n\<close> is the number of turns after the first.\<close>

fun slide_down :: "nat \<Rightarrow> int \<Rightarrow> int \<Rightarrow> (int \<Rightarrow> u16) \<Rightarrow> int \<Rightarrow> u16" where
  "slide_down n a1 a2 t =
     (let t = t(a1 := t a2) in case n of 0 \<Rightarrow> t | Suc n \<Rightarrow> slide_down n (a1 + 1) (a2 + 1) t)"

definition delete :: "edst \<Rightarrow> unit eres" where
  "delete s =
     ebind (setdot s) (\<lambda>_ s. ebind (newline s) (\<lambda>_ s. ebind (nonzero s) (\<lambda>_ s.
       case (addr1 s, addr2 s) of
         (Some a1, Some b) \<Rightarrow>
           let a2 = b + 1; a3 = dol s;
               s = s\<lparr>dol := dol s - (a2 - a1), tab := slide_down (nat (a3 - a2)) a1 a2 (tab s)\<rparr>
           in Fine () (s\<lparr>dot := (if a1 > dol s then dol s else a1)\<rparr>)
       | _ \<Rightarrow> Wild)))"

function reverse :: "int \<Rightarrow> int \<Rightarrow> (int \<Rightarrow> u16) \<Rightarrow> int \<Rightarrow> u16" where
  "reverse a1 a2 tb =
     (let t = tb (a2 - 1)
      in if a2 - 1 \<le> a1 then tb else reverse (a1 + 1) (a2 - 1) (tb(a2 - 1 := tb a1, a1 := t)))"
  by pat_completeness auto

termination by (relation "measure (\<lambda>(a1, a2, tb). nat (a2 - a1))") auto

declare reverse.simps [simp del]

text \<open>\<open>m\<close> and \<open>t\<close>: the lines from \<open>ad1\<close> up to before \<open>ad2\<close> go behind the line \<open>adt\<close>.\<close>

definition rotate_lines :: "int \<Rightarrow> int \<Rightarrow> int \<Rightarrow> edst \<Rightarrow> unit eres" where
  "rotate_lines adt ad1 ad2 s =
     (if adt < ad1 then
        (let s = s\<lparr>dot := adt + (ad2 - ad1)\<rparr>; adt = adt + 1
         in if adt = ad1 then Fine () s
            else Fine () (s\<lparr>tab := reverse adt ad2 (reverse ad1 ad2 (reverse adt ad1 (tab s)))\<rparr>))
      else if adt \<ge> ad2 then
        (let s = s\<lparr>dot := adt\<rparr>; adt = adt + 1
         in Fine () (s\<lparr>tab := reverse ad1 adt (reverse ad2 adt (reverse ad1 ad2 (tab s)))\<rparr>))
      else err s)"

definition move :: "bool \<Rightarrow> edst \<Rightarrow> unit eres" where
  "move cflag s =
     ebind (setdot s) (\<lambda>_ s. ebind (nonzero s) (\<lambda>_ s. ebind (address s) (\<lambda>adt s.
       case adt of
         None \<Rightarrow> err s
       | Some adt \<Rightarrow>
           ebind (newline s) (\<lambda>_ s.
             if cflag then
               (let ad1 = dol s
                in ebind (ed_append getcopy ad1 s) (\<lambda>_ s. rotate_lines adt (ad1 + 1) (dol s + 1) s))
             else
               (case (addr1 s, addr2 s) of
                  (Some ad1, Some ad2) \<Rightarrow> rotate_lines adt ad1 (ad2 + 1) s
                | _ \<Rightarrow> Wild)))))"

section \<open>Substitution\<close>

text \<open>The right side: a character after a backslash gets its top bit set.\<close>

fun rhs_loop :: "nat \<Rightarrow> int \<Rightarrow> edst \<Rightarrow> u8 list eres" where
  "rhs_loop 0 seof s = err s"
| "rhs_loop (Suc k) seof s =
     (case getchar s of (c, s) \<Rightarrow>
        case (if c = 92 then (case getchar s of (d, s) \<Rightarrow> (or d 128, s)) else (c, s)) of
          (c, s) \<Rightarrow>
            if c = 10 then err s
            else if c = seof then Fine [] s
            else ebind (rhs_loop k seof s) (\<lambda>cs s. Fine (ch c # cs) s))"

text \<open>The result tells whether every match of a line is replaced.\<close>

definition compsub :: "edst \<Rightarrow> bool eres" where
  "compsub s =
     (case getchar s of (seof, s) \<Rightarrow>
        if seof = 10 then err s
        else
          ebind (compile seof s) (\<lambda>_ s.
            ebind (rhs_loop (LBSIZE div 2) seof s) (\<lambda>cs s.
              let s = s\<lparr>rhsbuf := takeWhile (\<lambda>c. c \<noteq> 0) cs\<rparr>
              in case getchar s of (c, s) \<Rightarrow>
                   if c = 103 then ebind (newline (s\<lparr>peekc := 0\<rparr>)) (\<lambda>_ s. Fine True s)
                   else ebind (newline (s\<lparr>peekc := c\<rparr>)) (\<lambda>_ s. Fine False s))))"

definition gput :: "nat \<Rightarrow> u8 \<Rightarrow> edst \<Rightarrow> edst" where
  "gput sp c s = s\<lparr>genbuf := (genbuf s)(sp := c)\<rparr>"

text \<open>\<open>ed_place\<close> copies from \<open>l1\<close> up to \<open>l2\<close>; two null pointers are an empty range.\<close>

fun place_loop :: "nat \<Rightarrow> nat \<Rightarrow> cbuf \<Rightarrow> nat \<Rightarrow> edst \<Rightarrow> nat eres" where
  "place_loop 0 sp b l s = Fine sp s"
| "place_loop (Suc n) sp b l s =
     (let s = gput sp (cget b l s) s
      in if sp + 1 \<ge> LBSIZE then err s else place_loop n (sp + 1) b (l + 1) s)"

definition ed_place :: "nat \<Rightarrow> cptr option \<Rightarrow> cptr option \<Rightarrow> edst \<Rightarrow> nat eres" where
  "ed_place sp p1 p2 s =
     (case (p1, p2) of
        (Some (b1, l1), Some (b2, l2)) \<Rightarrow> if b1 = b2 then place_loop (l2 - l1) sp b1 l1 s else Wild
      | (_, None) \<Rightarrow> Fine sp s
      | _ \<Rightarrow> Wild)"

text \<open>The right side \<open>cs\<close> with \<open>&\<close> and the bracketed parts put in.\<close>

fun sub_rhs :: "u8 list \<Rightarrow> nat \<Rightarrow> edst \<Rightarrow> nat eres" where
  "sub_rhs [] sp s = Fine sp s"
| "sub_rhs (c # cs) sp s =
     (if c = 38 then ebind (ed_place sp (loc1 s) (loc2 s) s) (\<lambda>sp s. sub_rhs cs sp s)
      else if c \<ge> 128 \<and> 49 \<le> c AND 127 \<and> c AND 127 < 54 then
        (let i = unat (c AND 127) - 49
         in ebind (ed_place sp (braslist s i) (braelist s i) s) (\<lambda>sp s. sub_rhs cs sp s))
      else
        let s = gput sp (c AND 127) s
        in if sp + 1 \<ge> LBSIZE then err s else sub_rhs cs (sp + 1) s)"

fun sub_tail :: "nat \<Rightarrow> nat \<Rightarrow> nat \<Rightarrow> edst \<Rightarrow> unit eres" where
  "sub_tail 0 sp lp s = Wild"
| "sub_tail (Suc k) sp lp s =
     (let c = linebuf s lp; s = gput sp c s
      in if c = 0 then Fine () s
         else if sp + 1 \<ge> LBSIZE then err s
         else sub_tail k (sp + 1) (lp + 1) s)"

text \<open>
  \<open>loc2\<close> becomes \<open>sp\<close> itself, since the two buffers have the same size: a pointer into \<open>genbuf\<close>.  With
  \<open>loc1\<close> in \<open>genbuf\<close> the first loop compares pointers into two arrays.
\<close>

definition dosub :: "edst \<Rightarrow> unit eres" where
  "dosub s =
     (case (loc1 s, loc2 s) of
        (Some (LBUF, l1), Some (LBUF, l2)) \<Rightarrow>
          ebind (sub_rhs (rhsbuf s) l1 (s\<lparr>genbuf := (\<lambda>i. if i < l1 then linebuf s i else genbuf s i)\<rparr>)) (\<lambda>sp s.
            ebind (sub_tail (LBSIZE - l2) sp l2 (s\<lparr>loc2 := Some (GBUF, sp)\<rparr>)) (\<lambda>_ s. gen_to_line s))
      | _ \<Rightarrow> Wild)"

text \<open>\<open>while (*loc2)\<close>; each turn goes on behind the last match.\<close>

fun gsub_loop :: "nat \<Rightarrow> edst \<Rightarrow> unit eres" where
  "gsub_loop 0 s = Long"
| "gsub_loop (Suc k) s =
     (case loc2 s of
        None \<Rightarrow> Wild
      | Some (b, p) \<Rightarrow>
          if cget b p s = 0 then Fine () s
          else
            ebind (execute_on s) (\<lambda>r s.
              if r then ebind (dosub s) (\<lambda>_ s. gsub_loop k s) else Fine () s))"

text \<open>The lines still to look at, from \<open>a1\<close> to \<open>addr2\<close>, which grows with the lines put in.\<close>

fun substitute_loop :: "nat \<Rightarrow> bool \<Rightarrow> bool \<Rightarrow> int \<Rightarrow> edst \<Rightarrow> bool eres" where
  "substitute_loop 0 gsubf inglob a1 s = Long"
| "substitute_loop (Suc k) gsubf inglob a1 s =
     (if above (Some a1) (addr2 s) then Fine inglob s
      else
        ebind (execute a1 s) (\<lambda>r s.
          if \<not> r then substitute_loop k gsubf inglob (a1 + 1) s
          else
            ebind (dosub s) (\<lambda>_ s.
              ebind (if gsubf then gsub_loop LBSIZE s else Fine () s) (\<lambda>_ s.
                ebind (putline s) (\<lambda>tn s.
                  ebind (ed_append getsub a1 (s\<lparr>tab := (tab s)(a1 := tn)\<rparr>)) (\<lambda>nl s.
                    substitute_loop k gsubf True (a1 + int nl + 1)
                      (s\<lparr>addr2 := map_option (\<lambda>a. a + int nl) (addr2 s)\<rparr>)))))))"

definition substitute :: "bool \<Rightarrow> edst \<Rightarrow> unit eres" where
  "substitute inglob s =
     ebind (compsub s) (\<lambda>gsubf s.
       case addr1 s of
         None \<Rightarrow> Wild
       | Some a1 \<Rightarrow>
           ebind (substitute_loop (nat NLINES + 1) gsubf inglob a1 s) (\<lambda>r s.
             if r then Fine () s else err s))"

section \<open>Global commands\<close>

text \<open>The commands of \<open>g\<close> and \<open>v\<close>, as they go into \<open>globuf\<close>.\<close>

fun globuf_loop :: "nat \<Rightarrow> nat \<Rightarrow> edst \<Rightarrow> u8 list eres" where
  "globuf_loop 0 gp s = Long"
| "globuf_loop (Suc k) gp s =
     (case getchar s of (c, s) \<Rightarrow>
        if c = 10 then Fine [] s
        else if c = -1 then err s
        else
          (case (if c = 92 then (case getchar s of (d, s) \<Rightarrow> (if d = 10 then [10] else [92, ch d], s))
                 else ([ch c], s)) of
             (cs, s) \<Rightarrow>
               if gp + length cs \<ge> 254 then err s
               else ebind (globuf_loop k (gp + length cs) s) (\<lambda>ds s. Fine (cs @ ds) s)))"

text \<open>The first loop marks the lines; \<open>n\<close> counts the ones still to come.\<close>

fun mark_loop :: "nat \<Rightarrow> bool \<Rightarrow> int \<Rightarrow> edst \<Rightarrow> unit eres" where
  "mark_loop 0 k a1 s = Fine () s"
| "mark_loop (Suc n) k a1 s =
     (let s = s\<lparr>tab := (tab s)(a1 := clr (tab s a1) 1)\<rparr>
      in if above (addr1 s) (Some a1) \<or> above (Some a1) (addr2 s) then mark_loop n k (a1 + 1) s
         else
           ebind (execute a1 s) (\<lambda>r s.
             mark_loop n k (a1 + 1) (if r = k then s\<lparr>tab := (tab s)(a1 := tab s a1 OR 1)\<rparr> else s)))"

text \<open>
  The second loop runs the commands on the first marked line and starts again behind line 0, until no
  line is marked; \<open>rec\<close> is \<open>commands\<close>.  The first search starts at line 0.
\<close>

fun global_loop :: "nat \<Rightarrow> (edst \<Rightarrow> unit eres) \<Rightarrow> u8 list \<Rightarrow> int \<Rightarrow> edst \<Rightarrow> unit eres" where
  "global_loop 0 rec g a s = Long"
| "global_loop (Suc n) rec g a s =
     (case find (\<lambda>i. tab s i AND 1 \<noteq> 0) [a..dol s] of
        None \<Rightarrow> Fine () s
      | Some a1 \<Rightarrow>
          ebind (rec (s\<lparr>tab := (tab s)(a1 := clr (tab s a1) 1), dot := a1, globp := Some g\<rparr>)) (\<lambda>_ s.
            global_loop n rec g 1 s))"

definition global :: "(edst \<Rightarrow> unit eres) \<Rightarrow> bool \<Rightarrow> edst \<Rightarrow> unit eres" where
  "global rec k s =
     (if globp s \<noteq> None then err s
      else
        ebind (setall s) (\<lambda>_ s. ebind (nonzero s) (\<lambda>_ s.
          case getchar s of (c, s) \<Rightarrow>
            if c = 10 then err s
            else
              ebind (compile c s) (\<lambda>_ s.
                ebind (globuf_loop (typed s + 2) 0 s) (\<lambda>g s.
                  ebind (mark_loop (nat (dol s + 1)) k 0 s) (\<lambda>_ s.
                    global_loop (nat NLINES + 1) rec (takeWhile (\<lambda>c. c \<noteq> 0) (g @ [10])) 0 s))))))"

section \<open>Commands\<close>

text \<open>The addresses in front of a command; the result is the command's character.\<close>

fun range_loop :: "nat \<Rightarrow> edst \<Rightarrow> int eres" where
  "range_loop 0 s = Long"
| "range_loop (Suc k) s =
     ebind (address (s\<lparr>addr1 := addr2 s\<rparr>)) (\<lambda>a1 s.
       case a1 of
         None \<Rightarrow> (case getchar s of (c, s) \<Rightarrow> Fine c s)
       | Some a \<Rightarrow>
           (case getchar (s\<lparr>addr2 := Some a\<rparr>) of (c, s) \<Rightarrow>
              if c = 59 then range_loop k (s\<lparr>dot := a\<rparr>)
              else if c = 44 then range_loop k s
              else Fine c s))"

definition line_of :: "edst \<Rightarrow> u8 list" where
  "line_of s = takeWhile (\<lambda>c. c \<noteq> 0) (map (linebuf s) [0..<LBSIZE])"

fun print_loop :: "nat \<Rightarrow> int \<Rightarrow> edst \<Rightarrow> unit eres" where
  "print_loop n a1 s =
     ebind (getline (tab s a1) s) (\<lambda>_ s.
       let s = puts (line_of s) s in case n of 0 \<Rightarrow> Fine () s | Suc n \<Rightarrow> print_loop n (a1 + 1) s)"

definition print_lines :: "edst \<Rightarrow> unit eres" where
  "print_lines s =
     ebind (setdot s) (\<lambda>_ s. ebind (nonzero s) (\<lambda>_ s.
       case (addr1 s, addr2 s) of
         (Some a1, Some a2) \<Rightarrow>
           ebind (print_loop (nat (a2 - a1)) a1 s) (\<lambda>_ s. Fine () (s\<lparr>dot := a2, listf := False\<rparr>))
       | _ \<Rightarrow> Wild))"

definition init :: "edst \<Rightarrow> edst" where
  "init s =
     s\<lparr>tline := 0, iblock := None, oblock := None, ichanged := False, tblk := (\<lambda>_ _. 0), tlen := 0,
       dot := 0, dol := 0\<rparr>"

definition read_file :: "edst \<Rightarrow> unit eres" where
  "read_file s =
     ebind (filename s) (\<lambda>_ s.
       case e_fs s (efile s) of
         None \<Rightarrow> err (s\<lparr>io_open := False, lastc := 10\<rparr>)
       | Some d \<Rightarrow>
           ebind (setall (s\<lparr>io_open := True, io_in := d\<rparr>)) (\<lambda>_ s.
             case addr2 s of
               None \<Rightarrow> Wild
             | Some a \<Rightarrow> ebind (ed_append getfile a (s\<lparr>ninbuf := 0\<rparr>)) (\<lambda>_ s. Fine () (exfile s))))"

definition write_file :: "edst \<Rightarrow> unit eres" where
  "write_file s =
     ebind (setall s) (\<lambda>_ s. ebind (nonzero s) (\<lambda>_ s. ebind (filename s) (\<lambda>_ s.
       if \<not> e_creat s (efile s) then err (s\<lparr>io_open := False\<rparr>)
       else
         ebind (putfile (s\<lparr>io_open := True, e_fs := (e_fs s)(efile s := Some [])\<rparr>)) (\<lambda>_ s.
           Fine () (exfile s)))))"

text \<open>The shell has the same input, output and files; \<open>fork\<close> is taken to succeed.\<close>

definition run_unix :: "edst \<Rightarrow> unit eres" where
  "run_unix s =
     ebind (setnoaddr s) (\<lambda>_ s.
       case e_sh s (e_in s) (e_fs s) of
         (rest, said, fs) \<Rightarrow> Fine () (puts [33] (s\<lparr>e_in := rest, e_out := e_out s @ said, e_fs := fs\<rparr>)))"

definition append_tty :: "int \<Rightarrow> edst \<Rightarrow> unit eres" where
  "append_tty a s = ebind (ed_append gettty a s) (\<lambda>_ s. Fine () s)"

text \<open>The switch over the commands that return to the loop.\<close>

definition command :: "(edst \<Rightarrow> unit eres) \<Rightarrow> int \<Rightarrow> edst \<Rightarrow> unit eres" where
  "command rec c s =
     (if c = 97 then
        ebind (setdot s) (\<lambda>_ s. ebind (newline s) (\<lambda>_ s.
          case addr2 s of None \<Rightarrow> Wild | Some a \<Rightarrow> append_tty a s))
      else if c = 99 then
        ebind (delete s) (\<lambda>_ s. case addr1 s of None \<Rightarrow> Wild | Some a \<Rightarrow> append_tty (a - 1) s)
      else if c = 100 then delete s
      else if c = 101 then
        ebind (setnoaddr s) (\<lambda>_ s.
          case getchar s of (c, s) \<Rightarrow>
            if c \<noteq> 32 then err (s\<lparr>peekc := c\<rparr>)
            else read_file ((init (s\<lparr>peekc := c, savedfile := []\<rparr>))\<lparr>addr2 := Some 0\<rparr>))
      else if c = 102 then
        ebind (setnoaddr s) (\<lambda>_ s.
          case getchar s of (c, s) \<Rightarrow>
            ebind (if c \<noteq> 10 then filename (s\<lparr>peekc := c, savedfile := []\<rparr>) else Fine () s) (\<lambda>_ s.
              Fine () (puts (savedfile s) s)))
      else if c = 103 then global rec True s
      else if c = 105 then
        ebind (setdot s) (\<lambda>_ s. ebind (nonzero s) (\<lambda>_ s. ebind (newline s) (\<lambda>_ s.
          case addr2 s of None \<Rightarrow> Wild | Some a \<Rightarrow> append_tty (a - 1) s)))
      else if c = 107 then
        (case getchar s of (c, s) \<Rightarrow>
           if c < 97 \<or> c > 122 then err s
           else
             ebind (newline s) (\<lambda>_ s. ebind (setdot s) (\<lambda>_ s. ebind (nonzero s) (\<lambda>_ s.
               case addr2 s of
                 None \<Rightarrow> Wild
               | Some a \<Rightarrow> Fine () (s\<lparr>names := (names s)(nat (c - 97) := tab s a OR 1)\<rparr>)))))
      else if c = 109 then move False s
      else if c = 10 then
        (let s = (if addr2 s = None then s\<lparr>addr2 := Some (dot s + 1)\<rparr> else s)
         in print_lines (s\<lparr>addr1 := addr2 s\<rparr>))
      else if c = 108 then ebind (newline (s\<lparr>listf := True\<rparr>)) (\<lambda>_ s. print_lines s)
      else if c = 112 then ebind (newline s) (\<lambda>_ s. print_lines s)
      else if c = 113 then ebind (setnoaddr s) (\<lambda>_ s. ebind (newline s) (\<lambda>_ s. Gone s))
      else if c = 114 then read_file s
      else if c = 115 then
        ebind (setdot s) (\<lambda>_ s. ebind (nonzero s) (\<lambda>_ s. substitute (globp s \<noteq> None) s))
      else if c = 116 then move True s
      else if c = 118 then global rec False s
      else if c = 119 then write_file s
      else if c = 61 then
        ebind (setall s) (\<lambda>_ s. ebind (newline s) (\<lambda>_ s.
          case addr2 s of
            None \<Rightarrow> Wild
          | Some a \<Rightarrow>
              Fine () (ed_putc 10 (putd (s\<lparr>ecount := (fst (ecount s), word_of_int a AND 0x7FFF)\<rparr>)))))
      else if c = 33 then run_unix s
      else err s)"

text \<open>
  One turn of the loop of \<open>commands\<close>; the result is false when it returns.  The bound of \<open>commands\<close> counts its turns
  and those of the \<open>commands\<close> that a global command calls.
\<close>

definition command_turn :: "(edst \<Rightarrow> unit eres) \<Rightarrow> edst \<Rightarrow> bool eres" where
  "command_turn rec s =
     (if pflag s then
        ebind (print_lines (s\<lparr>pflag := False, addr1 := Some (dot s), addr2 := Some (dot s)\<rparr>)) (\<lambda>_ s. Fine True s)
      else
        ebind (range_loop (typed s + 2) (s\<lparr>addr1 := None, addr2 := None\<rparr>)) (\<lambda>c s.
          let s = (if addr1 s = None then s\<lparr>addr1 := addr2 s\<rparr> else s)
          in if c = -1 then Fine False s else ebind (command rec c s) (\<lambda>_ s. Fine True s)))"

fun commands :: "nat \<Rightarrow> edst \<Rightarrow> unit eres" where
  "commands 0 s = Long"
| "commands (Suc k) s = ebind (command_turn (commands k) s) (\<lambda>more s. if more then commands k s else Fine () s)"

text \<open>\<open>main\<close> from \<open>setexit\<close> on: an error comes back to it.\<close>

fun edit_loop :: "nat \<Rightarrow> nat \<Rightarrow> edst \<Rightarrow> unit eres" where
  "edit_loop 0 k s = Long"
| "edit_loop (Suc n) k s = (case commands k s of Jump s \<Rightarrow> edit_loop n k s | r \<Rightarrow> r)"

definition ed_args :: "u8 list list \<Rightarrow> edst \<Rightarrow> unit eres" where
  "ed_args av s =
     (let (av, s) =
        (case av of
           a # av' \<Rightarrow> if take 1 a = [45] then (av', s\<lparr>vflag := (take 1 (drop 1 a) = [113])\<rparr>) else (av, s)
         | [] \<Rightarrow> (av, s))
      in case av of
           [] \<Rightarrow> Fine () s
         | f # _ \<Rightarrow>
             if length f \<ge> 64 then Wild else Fine () (s\<lparr>savedfile := f, globp := Some [114]\<rparr>))"

definition ed_main :: "nat \<Rightarrow> u8 list list \<Rightarrow> edst \<Rightarrow> unit eres" where
  "ed_main k av s = ebind (ed_args av s) (\<lambda>_ s. edit_loop k k (init s))"

end
