(* ===== verification/EdTmp.thy ===== *)
theory EdTmp
  imports EdCmd
begin

text \<open>
  The temporary file of the editor is a store of lines: \<open>putline\<close> adds a line under the number it returns,
  \<open>getline\<close> of that number gives it back, whatever was read and added in between.
\<close>

section \<open>The contents of the file, seen through the two block buffers\<close>

definition view :: "edst \<Rightarrow> nat \<Rightarrow> carr" where
  "view s b = (if iblock s = Some b then ibuff s else if oblock s = Some b then obuff s else tblk s b)"

definition tmem :: "edst \<Rightarrow> nat \<Rightarrow> u8" where
  "tmem s a = view s (a div 512) (a mod 512)"

text \<open>The byte a line number stands for; its lowest bit is the mark of \<open>g\<close>.\<close>

definition tpos :: "u16 \<Rightarrow> nat" where
  "tpos tn = 4 * (unat tn div 2)"

abbreviation tend :: "edst \<Rightarrow> nat" where
  "tend s \<equiv> tpos (tline s)"

text \<open>
  Lines are only added at the end.  The last block is in \<open>obuff\<close>, those before it are in the file, and
  \<open>ibuff\<close> is a clean copy of one of them: it never has to be written back.
\<close>

definition tmp_inv :: "edst \<Rightarrow> bool" where
  "tmp_inv s \<longleftrightarrow>
     even (unat (tline s)) \<and> \<not> ichanged s \<and>
     (case oblock s of
        None \<Rightarrow> tline s = 0 \<and> tlen s = 0
      | Some b \<Rightarrow> tlen s = b \<and> b * 512 < tend s \<and> tend s \<le> (b + 1) * 512 \<and> b < 255) \<and>
     (case iblock s of None \<Rightarrow> True | Some b \<Rightarrow> b < tlen s \<and> ibuff s = tblk s b)"

definition line_stored :: "edst \<Rightarrow> u16 \<Rightarrow> u8 list \<Rightarrow> bool" where
  "line_stored s tn xs \<longleftrightarrow>
     length xs < LBSIZE \<and> tpos tn + length xs < tend s \<and> 0 \<notin> set xs \<and>
     (\<forall>i < length xs. tmem s (tpos tn + i) = xs ! i) \<and> tmem s (tpos tn + length xs) = 0"

definition same_store :: "edst \<Rightarrow> edst \<Rightarrow> bool" where
  "same_store s t \<longleftrightarrow> tend s \<le> tend t \<and> (\<forall>a < tend s. tmem t a = tmem s a)"

lemma same_store_refl: "same_store s s"
  by (simp add: same_store_def)

lemma same_store_trans: "same_store s t \<Longrightarrow> same_store t u \<Longrightarrow> same_store s u"
  by (simp add: same_store_def)

lemma stored_same: "same_store s t \<Longrightarrow> line_stored s tn xs \<Longrightarrow> line_stored t tn xs"
  by (auto simp: line_stored_def same_store_def)

section \<open>Numbers of lines\<close>

lemma tpos_div: "tpos tn div 512 = unat tn div 256"
  by (simp add: tpos_def)

lemma off_eq: "unat (push_bit 1 tn AND 508) = tpos tn mod 512" for tn :: u16
proof -
  have m: "(508 :: u16) = push_bit 2 (mask 7)" by (simp add: mask_eq_exp_minus_1)
  have "push_bit 1 tn AND 508 = push_bit 2 (take_bit 7 (drop_bit 1 tn))"
    unfolding m
  proof (rule bit_eqI)
    fix n assume p: "possible_bit TYPE(u16) n"
    have e: "2 \<le> n \<Longrightarrow> 1 + (n - 2) = n - 1" by arith
    show "bit (push_bit 1 tn AND push_bit 2 (mask 7)) n = bit (push_bit 2 (take_bit 7 (drop_bit 1 tn))) n"
      using p by (cases "2 \<le> n") (auto simp only: bit_simps comp_def e possible_bit_word)
  qed
  moreover have "unat (push_bit 2 (take_bit 7 (drop_bit 1 tn))) = 4 * (unat tn div 2 mod 128)"
  proof -
    have "unat (take_bit 7 (drop_bit 1 tn)) = unat tn div 2 mod 128"
      by (simp only: unsigned_take_bit_eq unat_drop_bit_eq) (simp add: take_bit_eq_mod drop_bit_eq_div)
    then show ?thesis by (simp add: push_bit_eq_mult unat_word_ariths)
  qed
  ultimately show ?thesis by (simp add: tpos_def mult_mod_right)
qed

lemma off_eq' [simp]: "unat (tn * 2 AND 508) = tpos tn mod 512" for tn :: u16
  using off_eq [of tn] by (simp add: push_bit_eq_mult)

lemma bno_eq: "unat (drop_bit 8 tn) = tpos tn div 512" for tn :: u16
  by (simp only: tpos_div unat_drop_bit_eq) (simp add: drop_bit_eq_div)

text \<open>The pointer that \<open>getblock\<close> gives stands for the byte \<open>a\<close> of the file.\<close>

definition points :: "edst \<Rightarrow> tbuf \<times> nat \<Rightarrow> nat \<Rightarrow> bool" where
  "points s bp a \<longleftrightarrow>
     snd bp = a mod 512 \<and>
     (case fst bp of
        IBUF \<Rightarrow> iblock s = Some (a div 512)
      | OBUF \<Rightarrow> oblock s = Some (a div 512) \<and> iblock s \<noteq> Some (a div 512))"

lemma tget_points: "points s bp a \<Longrightarrow> tget bp s = tmem s a"
  by (auto simp: points_def tget_def tmem_def view_def split: tbuf.splits)

lemma points_next: "points s bp a \<Longrightarrow> a mod 512 \<noteq> 511 \<Longrightarrow> points s (fst bp, snd bp + 1) (a + 1)"
proof -
  assume p: "points s bp a" and n: "a mod 512 \<noteq> 511"
  then have "Suc (a mod 512) \<noteq> 512" by simp
  then have "(a + 1) mod 512 = a mod 512 + 1" "(a + 1) div 512 = a div 512"
    by (simp_all add: mod_Suc div_Suc)
  with p show ?thesis by (cases "fst bp") (simp_all add: points_def)
qed

text \<open>What a step may change besides the block buffers.\<close>

lemma tmp_inv_update:
  "tmp_inv (s\<lparr>linebuf := x\<rparr>) = tmp_inv s" "tmp_inv (s\<lparr>linebp := y\<rparr>) = tmp_inv s" "tmp_inv (s\<lparr>nleft := n\<rparr>) = tmp_inv s"
  "tmem (s\<lparr>linebuf := x\<rparr>) = tmem s" "tmem (s\<lparr>linebp := y\<rparr>) = tmem s" "tmem (s\<lparr>nleft := n\<rparr>) = tmem s"
  "points (s\<lparr>linebuf := x\<rparr>) = points s" "points (s\<lparr>linebp := y\<rparr>) = points s" "points (s\<lparr>nleft := n\<rparr>) = points s"
  by (simp_all add: tmp_inv_def tmem_def view_def points_def fun_eq_iff cong: option.case_cong tbuf.case_cong)

lemma tmp_inv_block:
  assumes "tmp_inv s" "a < tend s"
  shows "a div 512 < 255 \<and> (oblock s = Some (a div 512) \<or> a div 512 < tlen s)"
proof (cases "oblock s")
  case None
  with assms show ?thesis by (simp add: tmp_inv_def tpos_def)
next
  case (Some b)
  with assms have b: "tend s \<le> (b + 1) * 512" "b < 255" "tlen s = b" by (simp_all add: tmp_inv_def)
  with assms(2) have "a div 512 < b + 1" by (simp add: div_less_iff_less_mult)
  with b Some show ?thesis by auto
qed

lemma ichanged_id: "\<not> ichanged s \<Longrightarrow> s\<lparr>ichanged := False\<rparr> = s"
  by (rule edst.equality) simp_all

text \<open>Reading a block that is part of the file changes neither the contents nor anything else but \<open>ibuff\<close>.\<close>

lemma getblock_read:
  assumes "tmp_inv s" "tpos tn < tend s"
  shows "\<exists>bp ib bf. getblock tn False s = Fine bp (s\<lparr>nleft := 512 - tpos tn mod 512, iblock := ib, ibuff := bf\<rparr>)
    \<and> points (s\<lparr>iblock := ib, ibuff := bf\<rparr>) bp (tpos tn) \<and> tmp_inv (s\<lparr>iblock := ib, ibuff := bf\<rparr>)
    \<and> tmem (s\<lparr>iblock := ib, ibuff := bf\<rparr>) = tmem s"
proof -
  let ?b = "tpos tn div 512"
  have b: "?b < 255" "oblock s = Some ?b \<or> ?b < tlen s" using tmp_inv_block [OF assms] by auto
  have clean: "\<not> ichanged s" and ib: "\<And>c. iblock s = Some c \<Longrightarrow> c < tlen s \<and> ibuff s = tblk s c"
    and ob: "\<And>c. oblock s = Some c \<Longrightarrow> tlen s = c"
    using assms(1) by (auto simp: tmp_inv_def split: option.splits)
  consider "iblock s = Some ?b" | "iblock s \<noteq> Some ?b" "oblock s = Some ?b"
    | "iblock s \<noteq> Some ?b" "oblock s \<noteq> Some ?b" by auto
  then show ?thesis
  proof cases
    case 1
    then have "getblock tn False s = Fine (IBUF, tpos tn mod 512) (s\<lparr>nleft := 512 - tpos tn mod 512\<rparr>)"
      using b(1) clean ichanged_id [of "s\<lparr>nleft := 512 - tpos tn mod 512\<rparr>"] by (simp add: getblock_def bno_eq Let_def)
    moreover have "points s (IBUF, tpos tn mod 512) (tpos tn)" using 1 by (simp add: points_def)
    ultimately show ?thesis using assms(1)
      by (intro exI [of _ "(IBUF, tpos tn mod 512)"] exI [of _ "iblock s"] exI [of _ "ibuff s"]) simp
  next
    case 2
    then have "getblock tn False s = Fine (OBUF, tpos tn mod 512) (s\<lparr>nleft := 512 - tpos tn mod 512\<rparr>)"
      using b(1) by (simp add: getblock_def bno_eq Let_def)
    with 2 assms(1) show ?thesis
      by (intro exI [of _ "(OBUF, tpos tn mod 512)"] exI [of _ "iblock s"] exI [of _ "ibuff s"]) (simp add: points_def)
  next
    case 3
    let ?t = "s\<lparr>iblock := Some ?b, ibuff := tblk s ?b\<rparr>"
    have len: "?b < tlen s" using b 3 by simp
    have m: "tmem ?t = tmem s"
      using ib ob len by (fastforce simp: tmem_def view_def fun_eq_iff)
    have g: "getblock tn False s = Fine (IBUF, tpos tn mod 512)
        (s\<lparr>nleft := 512 - tpos tn mod 512, iblock := Some ?b, ibuff := tblk s ?b\<rparr>)"
      using 3 b(1) clean len by (simp add: getblock_def bno_eq Let_def blk_read_def)
    have "tmp_inv ?t" using assms(1) len by (simp add: tmp_inv_def split: option.splits)
    with 3 m g show ?thesis
      by (intro exI [of _ "(IBUF, tpos tn mod 512)"] exI [of _ "Some ?b"] exI [of _ "tblk s ?b"]) (simp add: points_def)
  qed
qed

section \<open>Reading a line\<close>

text \<open>The bytes of a line from \<open>a\<close> on.\<close>

definition text_at :: "edst \<Rightarrow> nat \<Rightarrow> u8 list \<Rightarrow> bool" where
  "text_at s a xs \<longleftrightarrow>
     0 \<notin> set xs \<and> (\<forall>i < length xs. tmem s (a + i) = xs ! i) \<and> tmem s (a + length xs) = 0 \<and> a + length xs < tend s"

lemma text_at_Nil: "text_at s a [] \<longleftrightarrow> tmem s a = 0 \<and> a < tend s"
  by (auto simp: text_at_def)

lemma text_at_Cons: "text_at s a (x # xs) \<longleftrightarrow> x \<noteq> 0 \<and> tmem s a = x \<and> text_at s (a + 1) xs"
  by (auto simp: text_at_def All_less_Suc2)

lemma tpos_upper: "tpos (clr tn 255) = 512 * (tpos tn div 512)"
proof -
  have "clr tn 255 = push_bit 8 (drop_bit 8 tn)"
  proof (rule bit_eqI)
    fix n assume p: "possible_bit TYPE(u16) n"
    have m: "(255 :: u16) = mask 8" by (simp add: mask_eq_exp_minus_1)
    show "bit (clr tn 255) n = bit (push_bit 8 (drop_bit 8 tn)) n"
      unfolding m using p by (cases "8 \<le> n") (auto simp only: bit_simps bit_clr comp_def le_add_diff_inverse)
  qed
  moreover have "unat (push_bit 8 (drop_bit 8 tn)) = unat tn div 256 * 256"
  proof -
    have u: "unat (drop_bit 8 tn) = unat tn div 256" by (simp only: unat_drop_bit_eq) (simp add: drop_bit_eq_div)
    have "unat tn div 256 * 256 < 65536" using unsigned_less [of tn, where 'a = nat] by (simp add: less_mult_imp_div_less)
    then show ?thesis by (simp add: push_bit_eq_mult unat_word_ariths u mult.commute)
  qed
  ultimately show ?thesis by (simp add: tpos_def tpos_div)
qed

lemma tpos_step:
  assumes "tpos tn = 512 * b" "b < 255"
  shows "tpos (tn + 256) = 512 * (b + 1)"
proof -
  have "unat tn div 2 = 128 * b" using assms(1) by (simp add: tpos_def)
  then have "unat tn < 256 * b + 2" by linarith
  with assms(2) have "unat (tn + 256) = unat tn + 256" by (simp add: unat_word_ariths)
  moreover have "(unat tn + 256) div 2 = unat tn div 2 + 128" by simp
  ultimately show ?thesis using \<open>unat tn div 2 = 128 * b\<close> by (simp add: tpos_def)
qed

text \<open>What reading a line changes.\<close>

definition reads_line :: "edst \<Rightarrow> edst \<Rightarrow> bool" where
  "reads_line s t \<longleftrightarrow> (\<exists>lb n ib bf. t = s\<lparr>linebuf := lb, nleft := n, iblock := ib, ibuff := bf\<rparr>)"

lemma reads_trans: "reads_line s t \<Longrightarrow> reads_line t u \<Longrightarrow> reads_line s u"
  unfolding reads_line_def by (elim exE, simp) blast

lemma reads_linebuf: "reads_line s (s\<lparr>linebuf := lb\<rparr>)"
  unfolding reads_line_def by (intro exI [of _ lb] exI [of _ "nleft s"] exI [of _ "iblock s"] exI [of _ "ibuff s"]) simp

lemma reads_block: "reads_line s (s\<lparr>nleft := n, iblock := ib, ibuff := bf\<rparr>)"
  unfolding reads_line_def by (intro exI [of _ "linebuf s"] exI [of _ n] exI [of _ ib] exI [of _ bf]) simp

lemma reads_tline: "reads_line s t \<Longrightarrow> tline t = tline s"
  unfolding reads_line_def by (elim exE) simp

lemma getblock_reads:
  assumes "tmp_inv s" "tpos tn < tend s"
  obtains bp t where "getblock tn False s = Fine bp t" "nleft t = 512 - tpos tn mod 512" "points t bp (tpos tn)"
    "tmp_inv t" "tmem t = tmem s" "linebuf t = linebuf s" "reads_line s t"
proof -
  obtain bp ib bf where g: "getblock tn False s = Fine bp (s\<lparr>nleft := 512 - tpos tn mod 512, iblock := ib, ibuff := bf\<rparr>)"
      (is "_ = Fine bp ?t")
    and r: "points (s\<lparr>iblock := ib, ibuff := bf\<rparr>) bp (tpos tn)" "tmp_inv (s\<lparr>iblock := ib, ibuff := bf\<rparr>)"
      "tmem (s\<lparr>iblock := ib, ibuff := bf\<rparr>) = tmem s"
    using getblock_read [OF assms] by blast
  have t: "?t = (s\<lparr>iblock := ib, ibuff := bf\<rparr>)\<lparr>nleft := 512 - tpos tn mod 512\<rparr>" by simp
  show thesis
  proof (rule that [OF g])
    show "points ?t bp (tpos tn)" "tmp_inv ?t" "tmem ?t = tmem s" unfolding t using r by (simp_all only: tmp_inv_update)
  qed (simp_all add: reads_block)
qed

lemma getline_loop_reads:
  assumes "tmp_inv s" "points s bp a" "tpos tn = 512 * (a div 512)" "text_at s a xs" "length xs < k"
  shows "\<exists>t. getline_loop k lp bp (512 - a mod 512) tn s = Fine () t \<and> reads_line s t \<and> tmp_inv t \<and> tmem t = tmem s
    \<and> (\<forall>i < lp. linebuf t i = linebuf s i) \<and> (\<forall>i < length xs. linebuf t (lp + i) = xs ! i)
    \<and> linebuf t (lp + length xs) = 0"
  using assms
proof (induction xs arbitrary: k lp bp tn s a)
  case Nil
  then obtain k' where "k = Suc k'" by (cases k) auto
  with Nil show ?case
    by (intro exI [of _ "s\<lparr>linebuf := (linebuf s)(lp := 0)\<rparr>"])
      (simp add: tget_points text_at_Nil tmp_inv_update reads_linebuf)
next
  case (Cons x xs)
  then obtain k' where k: "k = Suc k'" "length xs < k'" by (cases k) auto
  from Cons.prems have x: "x \<noteq> 0" "tget bp s = x" "text_at s (a + 1) xs" by (simp_all add: text_at_Cons tget_points)
  define u where "u = s\<lparr>linebuf := (linebuf s)(lp := x)\<rparr>"
  have u: "tmp_inv u" "points u = points s" "tmem u = tmem s" "reads_line s u" "tline u = tline s"
      "linebuf u lp = x" "\<And>i. i < lp \<Longrightarrow> linebuf u i = linebuf s i"
    using Cons.prems(1) by (simp_all add: u_def tmp_inv_update reads_linebuf)
  have ta: "text_at v (a + 1) xs" if "tmem v = tmem s" "tline v = tline s" for v
    using x(3) that by (simp add: text_at_def)
  obtain bp' tn' v where step: "getline_loop k lp bp (512 - a mod 512) tn s
      = getline_loop k' (lp + 1) bp' (512 - (a + 1) mod 512) tn' v"
    and v: "tmp_inv v" "points v bp' (a + 1)" "tpos tn' = 512 * ((a + 1) div 512)" "tmem v = tmem s" "reads_line s v"
      "linebuf v = linebuf u"
  proof (cases "a mod 512 = 511")
    case False
    then have "a mod 512 < 511" using mod_less_divisor [of 512 a] by linarith
    then have n: "512 - a mod 512 \<noteq> 1" "512 - a mod 512 - 1 = 512 - (a + 1) mod 512" "(a + 1) div 512 = a div 512"
      by (simp_all add: mod_Suc div_Suc)
    show thesis
    proof (rule that)
      show "points u (fst bp, snd bp + 1) (a + 1)"
        using points_next [OF Cons.prems(2) False] by (simp add: u)
      show "getline_loop k lp bp (512 - a mod 512) tn s
          = getline_loop k' (lp + 1) (fst bp, snd bp + 1) (512 - (a + 1) mod 512) tn u"
        using k x(1,2) n(1,2) by (simp add: u_def Let_def)
    qed (use u n(3) Cons.prems(3) in simp_all)
  next
    case True
    then have n: "512 - a mod 512 = 1" "(a + 1) mod 512 = 0" "(a + 1) div 512 = a div 512 + 1"
      by (simp_all add: mod_Suc div_Suc)
    have "a + 1 < tend s" using x(3) by (simp add: text_at_def)
    then have "a + 1 < tend u" by (simp add: u)
    have b: "(a + 1) div 512 < 255" using tmp_inv_block [OF Cons.prems(1) \<open>a + 1 < tend s\<close>] by simp
    have p: "tpos (tn + 256) = a + 1"
    proof -
      have "512 * (a div 512 + 1) = 512 * (a div 512) + a mod 512 + 1" using True by (simp only: True add_mult_distrib2)
      then have "512 * (a div 512 + 1) = a + 1" by (simp only: mult_div_mod_eq)
      then show ?thesis using tpos_step [OF Cons.prems(3)] b n(3) by simp
    qed
    obtain bp' v where g: "getblock (tn + 256) False u = Fine bp' v" "nleft v = 512 - (a + 1) mod 512" "points v bp' (a + 1)"
        "tmp_inv v" "tmem v = tmem u" "linebuf v = linebuf u" "reads_line u v"
      using getblock_reads [OF u(1), of "tn + 256"] p \<open>a + 1 < tend u\<close> by metis
    show thesis
    proof (rule that)
      show "getline_loop k lp bp (512 - a mod 512) tn s
          = getline_loop k' (lp + 1) bp' (512 - (a + 1) mod 512) (tn + 256) v"
        using k x(1,2) n(1) g(1,2) by (simp add: u_def Let_def)
      show "tpos (tn + 256) = 512 * ((a + 1) div 512)" using p n(2) mult_div_mod_eq [of 512 "a + 1"] by linarith
    qed (use g u reads_trans [OF u(4) g(7)] in simp_all)
  qed
  have "text_at v (a + 1) xs" using ta v(4) reads_tline [OF v(5)] by blast
  from Cons.IH [OF v(1-3) this k(2), of "lp + 1"] obtain t where
    t: "getline_loop k' (lp + 1) bp' (512 - (a + 1) mod 512) tn' v = Fine () t" "reads_line v t" "tmp_inv t" "tmem t = tmem v"
      "\<forall>i < lp + 1. linebuf t i = linebuf v i" "\<forall>i < length xs. linebuf t (lp + 1 + i) = xs ! i"
      "linebuf t (lp + 1 + length xs) = 0" by blast
  have "\<forall>i < length (x # xs). linebuf t (lp + i) = (x # xs) ! i"
    using t(5) [rule_format, of lp] t(6) u(6) v(6) by (simp add: All_less_Suc2)
  moreover have "\<forall>i < lp. linebuf t i = linebuf s i" using t(5) u(7) v(6) by simp
  ultimately show ?case using t(1,3,4,7) step v(4) reads_trans [OF v(5) t(2)] by auto
qed

lemma upt_split: "k < n \<Longrightarrow> [0..<n] = [0..<k] @ k # [k + 1..<n]"
proof -
  assume k: "k < n"
  have "[0..<n] = [0..<k] @ [k..<n]" using upt_add_eq_append [of 0 k "n - k"] less_imp_le [OF k] by (simp only: le0 le_add_diff_inverse)
  with k show ?thesis by (simp only: upt_conv_Cons Suc_eq_plus1 [symmetric])
qed

lemma line_of_eq:
  assumes "length xs < LBSIZE" "0 \<notin> set xs" "\<forall>i < length xs. linebuf s i = xs ! i" "linebuf s (length xs) = 0"
  shows "line_of s = xs"
proof -
  have xs: "map (linebuf s) [0..<length xs] = xs" using assms(3) by (intro nth_equalityI) simp_all
  have "map (linebuf s) [0..<LBSIZE] = xs @ 0 # map (linebuf s) [length xs + 1..<LBSIZE]"
    by (simp only: upt_split [OF assms(1)] map_append list.map xs assms(4))
  moreover have "takeWhile (\<lambda>c. c \<noteq> 0) (xs @ 0 # ys) = xs" for ys
    using assms(2) by (induction xs) auto
  ultimately show ?thesis by (simp only: line_of_def)
qed

lemma getline_reads:
  assumes "tmp_inv s" "line_stored s tn xs"
  shows "\<exists>t. getline tn s = Fine () t \<and> line_of t = xs \<and> tmp_inv t \<and> tmem t = tmem s \<and> reads_line s t"
proof -
  have p: "tpos tn < tend s" "text_at s (tpos tn) xs" "length xs < LBSIZE" using assms(2) by (auto simp: line_stored_def text_at_def)
  obtain bp u where g: "getblock tn False s = Fine bp u" "nleft u = 512 - tpos tn mod 512" "points u bp (tpos tn)"
    "tmp_inv u" "tmem u = tmem s" "reads_line s u"
    using getblock_reads [OF assms(1) p(1)] by metis
  have "text_at u (tpos tn) xs" using p(2) g(5) reads_tline [OF g(6)] by (simp add: text_at_def)
  from getline_loop_reads [OF g(4,3) tpos_upper this p(3), of 0] g(1,2)
  obtain t where "getline tn s = Fine () t" "reads_line u t" "tmp_inv t" "tmem t = tmem u"
    "\<forall>i < length xs. linebuf t i = xs ! i" "linebuf t (length xs) = 0"
    by (auto simp: getline_def)
  moreover have "0 \<notin> set xs" using p(2) by (simp add: text_at_def)
  ultimately show ?thesis using line_of_eq [OF p(3), of t] g(5) reads_trans [OF g(6)] by auto
qed

section \<open>Adding a line\<close>

text \<open>While a line is being written: byte \<open>a\<close> is in the block in \<open>obuff\<close>, the ones before are in the file.\<close>

definition wr_inv :: "edst \<Rightarrow> nat \<Rightarrow> bool" where
  "wr_inv s a \<longleftrightarrow>
     \<not> ichanged s \<and> oblock s = Some (a div 512) \<and> tlen s = a div 512 \<and> a div 512 < 255 \<and>
     (case iblock s of None \<Rightarrow> True | Some b \<Rightarrow> b < tlen s \<and> ibuff s = tblk s b)"

definition writes :: "edst \<Rightarrow> edst \<Rightarrow> bool" where
  "writes s t \<longleftrightarrow> (\<exists>lp n ob bf tb l. t = s\<lparr>linebp := lp, nleft := n, oblock := ob, obuff := bf, tblk := tb, tlen := l\<rparr>)"

lemma writes_trans: "writes s t \<Longrightarrow> writes t u \<Longrightarrow> writes s u"
  unfolding writes_def by (elim exE, simp) blast

lemma writes_fields: "writes s t \<Longrightarrow> tline t = tline s \<and> linebuf t = linebuf s"
  unfolding writes_def by (elim exE) simp

lemma writes_block: "writes s (s\<lparr>nleft := n, oblock := ob, tblk := tb, tlen := l\<rparr>)"
  unfolding writes_def
  by (intro exI [of _ "linebp s"] exI [of _ n] exI [of _ ob] exI [of _ "obuff s"] exI [of _ tb] exI [of _ l]) simp

lemma getblock_writes:
  assumes "\<not> ichanged s" "case iblock s of None \<Rightarrow> True | Some b \<Rightarrow> b < tlen s \<and> ibuff s = tblk s b"
    "tlen s = (case oblock s of None \<Rightarrow> 0 | Some b \<Rightarrow> b)" "tpos tn div 512 < 255"
    "oblock s = Some (tpos tn div 512) \<or> tpos tn = (case oblock s of None \<Rightarrow> 0 | Some b \<Rightarrow> (b + 1) * 512)"
  obtains t where "getblock tn True s = Fine (OBUF, tpos tn mod 512) t" "nleft t = 512 - tpos tn mod 512"
    "wr_inv t (tpos tn)" "\<forall>x < tpos tn. tmem t x = tmem s x" "writes s t" "linebp t = linebp s"
proof -
  let ?b = "tpos tn div 512"
  have nb: "iblock s \<noteq> Some ?b" using assms(2,3,5) by (auto split: option.splits)
  show thesis
  proof (cases "oblock s = Some ?b")
    case True
    let ?t = "s\<lparr>nleft := 512 - tpos tn mod 512\<rparr>"
    have "getblock tn True s = Fine (OBUF, tpos tn mod 512) ?t"
      using nb assms(4) True by (simp add: getblock_def bno_eq Let_def)
    moreover have "wr_inv ?t (tpos tn)" using assms True by (simp add: wr_inv_def cong: option.case_cong)
    moreover have "writes s ?t" using writes_block [of s "tlen s" "tblk s" "oblock s"] by simp
    ultimately show thesis by (intro that [of ?t]) (simp_all add: tmp_inv_update)
  next
    case False
    show thesis
    proof (cases "oblock s")
      case None
      let ?t = "s\<lparr>nleft := 512 - tpos tn mod 512, oblock := Some ?b\<rparr>"
      have "getblock tn True s = Fine (OBUF, tpos tn mod 512) ?t"
        using nb assms(4) None by (simp add: getblock_def bno_eq Let_def)
      moreover have "wr_inv ?t (tpos tn)" using assms None by (simp add: wr_inv_def cong: option.case_cong)
      moreover have "writes s ?t" using writes_block [of s "tlen s" "tblk s"] by simp
      ultimately show thesis using None assms(5) by (intro that [of ?t]) simp_all
    next
      case (Some b)
      let ?t = "s\<lparr>nleft := 512 - tpos tn mod 512, oblock := Some ?b, tblk := (tblk s)(b := obuff s), tlen := b + 1\<rparr>"
      have b: "?b = b + 1" "tpos tn = (b + 1) * 512" "tlen s = b" using assms(3,5) Some False by auto
      have "getblock tn True s = Fine (OBUF, tpos tn mod 512) ?t"
        using nb assms(4) Some False b by (simp add: getblock_def bno_eq Let_def blk_write_def)
      moreover have "wr_inv ?t (tpos tn)"
        using assms(1,2,4) b by (auto simp: wr_inv_def split: option.splits)
      moreover have "tmem ?t x = tmem s x" if "x < tpos tn" for x
      proof -
        have "x div 512 < b + 1" using that b(2) by (simp add: div_less_iff_less_mult)
        then show ?thesis using assms(2) Some b(1,3) by (auto simp: tmem_def view_def split: option.splits)
      qed
      moreover have "writes s ?t" by (rule writes_block)
      ultimately show thesis by (intro that [of ?t]) simp_all
    qed
  qed
qed

lemma tput_wr:
  assumes "wr_inv s a"
  shows "wr_inv (tput (OBUF, a mod 512) c s) a" "tmem (tput (OBUF, a mod 512) c s) = (tmem s)(a := c)"
    "writes s (tput (OBUF, a mod 512) c s)"
proof -
  show "wr_inv (tput (OBUF, a mod 512) c s) a" using assms by (auto simp: wr_inv_def tput_def split: option.splits)
  have ib: "iblock s \<noteq> Some (a div 512)" "oblock s = Some (a div 512)" using assms by (auto simp: wr_inv_def)
  show "tmem (tput (OBUF, a mod 512) c s) = (tmem s)(a := c)"
  proof (rule ext)
    fix x
    show "tmem (tput (OBUF, a mod 512) c s) x = ((tmem s)(a := c)) x"
    proof (cases "x div 512 = a div 512")
      case True
      then have "x mod 512 = a mod 512 \<longleftrightarrow> x = a" by (metis mult_div_mod_eq)
      with True ib show ?thesis by (simp add: tmem_def view_def tput_def)
    next
      case False
      then have "x \<noteq> a" by auto
      with False ib show ?thesis by (simp add: tmem_def view_def tput_def)
    qed
  qed
  show "writes s (tput (OBUF, a mod 512) c s)" unfolding writes_def
    by (intro exI [of _ "linebp s"] exI [of _ "nleft s"] exI [of _ "oblock s"] exI [of _ "(obuff s)(a mod 512 := c)"]
        exI [of _ "tblk s"] exI [of _ "tlen s"]) (simp add: tput_def)
qed

text \<open>The line that \<open>putline\<close> takes from \<open>linebuf\<close>: up to its NUL or its first newline.\<close>

definition line_at :: "carr \<Rightarrow> nat \<Rightarrow> u8 list \<Rightarrow> bool" where
  "line_at lb p xs \<longleftrightarrow>
     (\<forall>i < length xs. lb (p + i) = xs ! i) \<and> 0 \<notin> set xs \<and> 10 \<notin> set xs \<and>
     (lb (p + length xs) = 0 \<or> lb (p + length xs) = 10)"

lemma line_at_Cons: "line_at lb p (x # xs) \<longleftrightarrow> x \<noteq> 0 \<and> x \<noteq> 10 \<and> lb p = x \<and> line_at lb (p + 1) xs"
  by (auto simp: line_at_def All_less_Suc2)

lemma wr_inv_linebp: "wr_inv (s\<lparr>linebp := y\<rparr>) a = wr_inv s a"
  by (simp add: wr_inv_def cong: option.case_cong)

lemma wr_inv_next: "wr_inv s a \<Longrightarrow> a mod 512 \<noteq> 511 \<Longrightarrow> wr_inv s (a + 1)"
proof -
  assume w: "wr_inv s a" and n: "a mod 512 \<noteq> 511"
  then have "Suc (a mod 512) \<noteq> 512" by simp
  then have "(a + 1) div 512 = a div 512" by (simp add: div_Suc mod_Suc)
  with w show ?thesis by (simp add: wr_inv_def)
qed

lemma putline_loop_writes:
  assumes "wr_inv s a" "tpos tn = 512 * (a div 512)" "line_at (linebuf s) lp xs" "length xs < k"
    "(a + length xs) div 512 < 255"
  shows "\<exists>t. putline_loop k lp (OBUF, a mod 512) (512 - a mod 512) tn s = Fine (lp + length xs + 1) t
    \<and> writes s t \<and> wr_inv t (a + length xs) \<and> (\<forall>x < a. tmem t x = tmem s x)
    \<and> (\<forall>i < length xs. tmem t (a + i) = xs ! i) \<and> tmem t (a + length xs) = 0
    \<and> linebp t = (if linebuf s (lp + length xs) = 10 then Some (lp + length xs + 1) else linebp s)"
  using assms
proof (induction xs arbitrary: k lp tn s a)
  case Nil
  then obtain k' where k: "k = Suc k'" by (cases k) auto
  let ?u = "s\<lparr>linebp := Some (lp + 1)\<rparr>"
  have w: "writes s ?u" unfolding writes_def
    by (intro exI [of _ "Some (lp + 1)"] exI [of _ "nleft s"] exI [of _ "oblock s"] exI [of _ "obuff s"]
        exI [of _ "tblk s"] exI [of _ "tlen s"]) simp
  have u: "wr_inv ?u a" "tmem ?u = tmem s" using Nil(1) by (simp_all add: wr_inv_linebp tmp_inv_update)
  note T = tput_wr [OF Nil(1), of 0] and U = tput_wr [OF u(1), of 0]
  have lb: "linebp (tput p c v) = linebp v" for p c v by (cases "fst p") (simp_all add: tput_def)
  show ?case
  proof (cases "linebuf s lp = 0")
    case True
    with T k lb show ?thesis by (intro exI [of _ "tput (OBUF, a mod 512) 0 s"]) simp
  next
    case False
    with Nil(3) have "linebuf s lp = 10" by (simp add: line_at_def)
    with U k lb u(2) writes_trans [OF w U(3)] show ?thesis
      by (intro exI [of _ "tput (OBUF, a mod 512) 0 ?u"]) simp
  qed
next
  case (Cons x xs)
  then obtain k' where k: "k = Suc k'" "length xs < k'" by (cases k) auto
  from Cons.prems have x: "x \<noteq> 0" "x \<noteq> 10" "linebuf s lp = x" "line_at (linebuf s) (lp + 1) xs"
    by (simp_all add: line_at_Cons)
  define u where "u = tput (OBUF, a mod 512) x s"
  note U = tput_wr [OF Cons.prems(1), of x, folded u_def]
  have lb: "linebp u = linebp s" by (simp add: u_def tput_def)
  obtain tn' v where step: "putline_loop k lp (OBUF, a mod 512) (512 - a mod 512) tn s
      = putline_loop k' (lp + 1) (OBUF, (a + 1) mod 512) (512 - (a + 1) mod 512) tn' v"
    and v: "wr_inv v (a + 1)" "tpos tn' = 512 * ((a + 1) div 512)" "\<forall>y < a + 1. tmem v y = tmem u y" "writes s v"
      "linebp v = linebp s"
  proof (cases "a mod 512 = 511")
    case False
    then have "a mod 512 < 511" using mod_less_divisor [of 512 a] by linarith
    then have n: "512 - a mod 512 \<noteq> 1" "512 - a mod 512 - 1 = 512 - (a + 1) mod 512" "(a + 1) div 512 = a div 512"
      "(a + 1) mod 512 = a mod 512 + 1"
      by (simp_all add: mod_Suc div_Suc)
    show thesis
    proof (rule that)
      show "putline_loop k lp (OBUF, a mod 512) (512 - a mod 512) tn s
          = putline_loop k' (lp + 1) (OBUF, (a + 1) mod 512) (512 - (a + 1) mod 512) tn u"
        using k x(1-3) n(1,2,4) by (simp add: u_def Let_def)
    qed (use wr_inv_next [OF U(1) False] n(3) Cons.prems(2) U(3) lb in simp_all)
  next
    case True
    then have n: "512 - a mod 512 = 1" "(a + 1) mod 512 = 0" "(a + 1) div 512 = a div 512 + 1"
      by (simp_all add: mod_Suc div_Suc)
    have "(a + 1) div 512 \<le> (a + length (x # xs)) div 512" by (intro div_le_mono) simp
    then have b: "(a + 1) div 512 < 255" using Cons.prems(5) by simp
    have e: "512 * (a div 512 + 1) = a + 1"
    proof -
      have "512 * (a div 512 + 1) = 512 * (a div 512) + a mod 512 + 1" using True by (simp only: True add_mult_distrib2)
      then show ?thesis by (simp only: mult_div_mod_eq)
    qed
    then have p: "tpos (tn + 256) = a + 1" using tpos_step [OF Cons.prems(2)] b n(3) by simp
    have o: "oblock u = Some (a div 512)" "tlen u = a div 512" "\<not> ichanged u"
      "case iblock u of None \<Rightarrow> True | Some b \<Rightarrow> b < tlen u \<and> ibuff u = tblk u b"
      using U(1) by (simp_all add: wr_inv_def)
    have q: "tlen u = (case oblock u of None \<Rightarrow> 0 | Some b \<Rightarrow> b)" "tpos (tn + 256) div 512 < 255"
      "oblock u = Some (tpos (tn + 256) div 512) \<or> tpos (tn + 256) = (case oblock u of None \<Rightarrow> 0 | Some b \<Rightarrow> (b + 1) * 512)"
      using o(1,2) p b e by simp_all
    obtain v where g: "getblock (tn + 256) True u = Fine (OBUF, (a + 1) mod 512) v" "nleft v = 512 - (a + 1) mod 512"
      "wr_inv v (a + 1)" "\<forall>y < a + 1. tmem v y = tmem u y" "writes u v" "linebp v = linebp u"
      using getblock_writes [OF o(3,4) q] unfolding p by blast
    show thesis
    proof (rule that)
      show "putline_loop k lp (OBUF, a mod 512) (512 - a mod 512) tn s
          = putline_loop k' (lp + 1) (OBUF, (a + 1) mod 512) (512 - (a + 1) mod 512) (tn + 256) v"
        using k x(1-3) n(1) g(1,2) by (simp add: u_def Let_def)
      show "tpos (tn + 256) = 512 * ((a + 1) div 512)" using p e n(3) by simp
    qed (use g lb writes_trans [OF U(3) g(5)] in simp_all)
  qed
  have lv: "linebuf v = linebuf s" using writes_fields [OF v(4)] by simp
  have "(a + 1 + length xs) div 512 < 255" using Cons.prems(5) by simp
  with Cons.IH [OF v(1,2) _ k(2), of "lp + 1"] x(4) lv obtain t where
    t: "putline_loop k' (lp + 1) (OBUF, (a + 1) mod 512) (512 - (a + 1) mod 512) tn' v = Fine (lp + 1 + length xs + 1) t"
      "writes v t" "wr_inv t (a + 1 + length xs)" "\<forall>y < a + 1. tmem t y = tmem v y"
      "\<forall>i < length xs. tmem t (a + 1 + i) = xs ! i" "tmem t (a + 1 + length xs) = 0"
      "linebp t = (if linebuf v (lp + 1 + length xs) = 10 then Some (lp + 1 + length xs + 1) else linebp v)"
    by auto
  have "tmem t a = x" using t(4) v(3) U(2) by simp
  with t(5) have "\<forall>i < length (x # xs). tmem t (a + i) = (x # xs) ! i" by (simp add: All_less_Suc2)
  moreover have "\<forall>y < a. tmem t y = tmem s y" using t(4) v(3) U(2) by simp
  moreover have "putline_loop k lp (OBUF, a mod 512) (512 - a mod 512) tn s = Fine (lp + length (x # xs) + 1) t"
    using step t(1) by simp
  ultimately show ?case
    using t(3,6) writes_trans [OF v(4) t(2)] t(7)
    by (intro exI [of _ t] conjI) (simp_all add: lv v(5))
qed

text \<open>There is room for one more line of any length.\<close>

definition tmp_room :: "edst \<Rightarrow> bool" where
  "tmp_room s \<longleftrightarrow> tend s + LBSIZE \<le> 255 * 512"

lemma tline_add:
  assumes "even (unat tn)" "tpos tn + 4 * m < 131072"
  shows "tpos (tn + of_nat (2 * m)) = tpos tn + 4 * m \<and> even (unat (tn + of_nat (2 * m)))"
proof -
  have "2 * (unat tn div 2) = unat tn" using assms(1) by simp
  then have "unat tn + 2 * m < 65536" using assms(2) by (simp add: tpos_def)
  then have "unat (tn + of_nat (2 * m)) = unat tn + 2 * m"
    by (simp add: unat_word_ariths unat_of_nat)
  with assms(1) show ?thesis by (simp add: tpos_def div_add)
qed

text \<open>Lines start at multiples of four bytes.\<close>

lemma step_eq:
  assumes "n < 32768"
  shows "drop_bit 1 (of_nat n + 3 :: u16) AND 32766 = of_nat (2 * ((n + 3) div 4))"
proof -
  have m: "(32766 :: u16) = push_bit 1 (mask 14)" by (simp add: mask_eq_exp_minus_1)
  have "drop_bit 1 x AND 32766 = push_bit 1 (drop_bit 2 x)" for x :: u16
    unfolding m
  proof (rule bit_eqI)
    fix i assume p: "possible_bit TYPE(u16) i"
    have e: "1 \<le> i \<Longrightarrow> 2 + (i - 1) = 1 + i" by arith
    show "bit (drop_bit 1 x AND push_bit 1 (mask 14)) i = bit (push_bit 1 (drop_bit 2 x)) i"
      using p bit_imp_le_length [of x "1 + i"]
      by (cases "1 \<le> i") (auto simp only: bit_simps comp_def e possible_bit_word, auto)
  qed
  moreover have "unat (push_bit 1 (drop_bit 2 (of_nat n + 3 :: u16))) = 2 * ((n + 3) div 4)"
  proof -
    have u: "unat (of_nat n + 3 :: u16) = n + 3" using assms by (simp add: unat_word_ariths unat_of_nat)
    have "unat (drop_bit 2 (of_nat n + 3 :: u16)) = (n + 3) div 4"
      by (simp only: unat_drop_bit_eq u) (simp add: drop_bit_eq_div)
    then show ?thesis using assms by (simp add: push_bit_eq_mult unat_word_ariths)
  qed
  moreover have "unat (of_nat (2 * ((n + 3) div 4)) :: u16) = 2 * ((n + 3) div 4)"
    by (simp only: unat_of_nat) (use assms in simp)
  ultimately show ?thesis by (simp only: word_unat_eq_iff)
qed

lemma four_up: "4 * u + n < c * 512 \<Longrightarrow> 4 * u + 4 * ((n + 4) div 4) \<le> c * (512 :: nat)"
proof -
  assume "4 * u + n < c * 512"
  define m where "m = n div 4"
  have "4 * m \<le> n" by (simp add: m_def)
  with \<open>4 * u + n < c * 512\<close> have "4 * (u + m) < 4 * (128 * c)" by simp
  then have "u + m + 1 \<le> 128 * c" by (simp only: mult_less_cancel1) simp
  moreover have "(n + 4) div 4 = m + 1" by (simp add: m_def)
  ultimately show ?thesis by simp
qed

lemma putline_adds:
  assumes "tmp_inv s" "tmp_room s" "line_at (linebuf s) 0 xs" "length xs < LBSIZE"
  shows "\<exists>t. putline s = Fine (tline s) t \<and> tmp_inv t \<and> same_store s t \<and> line_stored t (tline s) xs
    \<and> tend t = tend s + 4 * ((length xs + 4) div 4) \<and> writes s (t\<lparr>tline := tline s\<rparr>)
    \<and> linebp t = (if linebuf s (length xs) = 10 then Some (length xs + 1) else linebp s)"
proof -
  let ?a = "tend s" and ?n = "length xs"
  have a: "?a + ?n < 255 * 512" using assms(2,4) by (simp add: tmp_room_def)
  then have d: "?a div 512 < 255" "(?a + ?n) div 512 < 255" by (simp_all add: div_less_iff_less_mult)
  have i: "\<not> ichanged s" "case iblock s of None \<Rightarrow> True | Some b \<Rightarrow> b < tlen s \<and> ibuff s = tblk s b"
    "tlen s = (case oblock s of None \<Rightarrow> 0 | Some b \<Rightarrow> b)" "even (unat (tline s))"
    using assms(1) by (auto simp: tmp_inv_def split: option.splits)
  have o: "oblock s = Some (?a div 512) \<or> ?a = (case oblock s of None \<Rightarrow> 0 | Some b \<Rightarrow> (b + 1) * 512)"
  proof (cases "oblock s")
    case None
    with assms(1) show ?thesis by (simp add: tmp_inv_def tpos_def)
  next
    case (Some b)
    with assms(1) have b: "b * 512 < ?a" "?a \<le> (b + 1) * 512" by (simp_all add: tmp_inv_def)
    then have "?a = (b + 1) * 512 \<or> ?a div 512 = b" by (auto intro!: div_nat_eqI)
    with Some show ?thesis by auto
  qed
  obtain u where u: "getblock (tline s) True s = Fine (OBUF, ?a mod 512) u" "nleft u = 512 - ?a mod 512"
    "wr_inv u ?a" "\<forall>x < ?a. tmem u x = tmem s x" "writes s u" "linebp u = linebp s"
    using getblock_writes [OF i(1-3) d(1) o] by blast
  have lu: "linebuf u = linebuf s" "tline u = tline s" using writes_fields [OF u(5)] by simp_all
  obtain t where t: "putline_loop LBSIZE 0 (OBUF, ?a mod 512) (512 - ?a mod 512) (clr (tline s) 255) u = Fine (?n + 1) t"
    "writes u t" "wr_inv t (?a + ?n)" "\<forall>x < ?a. tmem t x = tmem u x" "\<forall>i < ?n. tmem t (?a + i) = xs ! i"
    "tmem t (?a + ?n) = 0" "linebp t = (if linebuf u ?n = 10 then Some (?n + 1) else linebp u)"
    using putline_loop_writes [OF u(3) tpos_upper, of 0 xs LBSIZE] assms(3,4) lu d(2) by auto
  have p: "putline s = Fine (tline s) (t\<lparr>tline := tline s + of_nat (2 * ((?n + 4) div 4))\<rparr>)" (is "_ = Fine _ ?t")
    using u(1,2) t(1) lu(2) writes_fields [OF t(2)] step_eq [of "?n + 1"] assms(4)
    by (simp add: putline_def Let_def add.commute)
  have T: "tpos (tline s + of_nat (2 * ((?n + 4) div 4))) = ?a + 4 * ((?n + 4) div 4)
      \<and> even (unat (tline s + of_nat (2 * ((?n + 4) div 4))))"
    using tline_add [OF i(4), of "(?n + 4) div 4"] a assms(4) by simp
  have lt: "?n < 4 * ((?n + 4) div 4)" by simp
  have m: "tmem ?t = tmem t" by (simp add: tmem_def view_def fun_eq_iff)
  have inv: "tmp_inv ?t"
  proof -
    let ?b = "(?a + ?n) div 512"
    have "?b * 512 \<le> ?a + ?n" "?a + ?n < (?b + 1) * 512" by (simp_all add: dividend_less_div_times add.commute)
    then have "?b * 512 < ?a + 4 * ((?n + 4) div 4)" "?a + ?n < (?b + 1) * 512" using lt by linarith+
    moreover have "?a + 4 * ((?n + 4) div 4) \<le> (?b + 1) * 512"
      using four_up [of "unat (tline s) div 2" ?n "?b + 1"] \<open>?a + ?n < (?b + 1) * 512\<close> by (simp add: tpos_def)
    ultimately show ?thesis using t(3) T by (auto simp: tmp_inv_def wr_inv_def split: option.splits)
  qed
  have same: "same_store s ?t" using T t(4) u(4) m by (simp add: same_store_def)
  have st: "line_stored ?t (tline s) xs"
    using assms(3,4) t(5,6) m T lt by (simp add: line_stored_def line_at_def)
  have w: "writes s (?t\<lparr>tline := tline s\<rparr>)"
  proof -
    have "?t\<lparr>tline := tline s\<rparr> = t" using writes_fields [OF t(2)] lu(2) by (intro edst.equality) simp_all
    with writes_trans [OF u(5) t(2)] show ?thesis by simp
  qed
  show ?thesis using p inv same st T w t(7) lu(1) u(6)
    by (intro exI [of _ ?t] conjI) simp_all
qed

section \<open>The store\<close>

text \<open>
  What the rest of the editor relies on: a handle that was given out keeps its line, and reading one gives it back.
\<close>

locale line_store =
  fixes inv :: "'s \<Rightarrow> bool" and has :: "'s \<Rightarrow> 'h \<Rightarrow> 'l \<Rightarrow> bool" and old :: "'s \<Rightarrow> 's \<Rightarrow> bool"
    and fetch :: "'s \<Rightarrow> 'h \<Rightarrow> 's \<Rightarrow> 'l \<Rightarrow> bool" and add :: "'s \<Rightarrow> 'l \<Rightarrow> 'h \<Rightarrow> 's \<Rightarrow> bool"
  assumes fetch_has: "inv s \<Longrightarrow> has s h l \<Longrightarrow> \<exists>t. fetch s h t l \<and> inv t \<and> old s t"
    and fetch_det: "fetch s h t l \<Longrightarrow> fetch s h t' l' \<Longrightarrow> t' = t \<and> l' = l"
    and add_has: "inv s \<Longrightarrow> add s l h t \<Longrightarrow> inv t \<and> old s t \<and> has t h l"
    and old_has: "old s t \<Longrightarrow> has s h l \<Longrightarrow> has t h l"
begin

inductive_set later :: "('s \<times> 's) set" where
  start: "(s, s) \<in> later"
| reading: "(s, t) \<in> later \<Longrightarrow> has s h l \<Longrightarrow> fetch t h u l \<Longrightarrow> (s, u) \<in> later"
| adding: "(s, t) \<in> later \<Longrightarrow> add t l h u \<Longrightarrow> (s, u) \<in> later"

lemma later_keeps:
  assumes "(s, t) \<in> later" "inv s"
  shows "inv t \<and> (\<forall>h l. has s h l \<longrightarrow> has t h l)"
  using assms
proof (induction rule: later.induct)
  case (reading s t h l u)
  then have "inv t" "has t h l" by auto
  then obtain u' where "fetch t h u' l" "inv u'" "old t u'" using fetch_has by blast
  with reading fetch_det [of t h u l u' l] old_has show ?case by blast
next
  case (adding s t l h u)
  with add_has old_has show ?case by blast
qed auto

lemma fetch_later:
  assumes "inv s" "add s l h t" "(t, u) \<in> later"
  shows "\<exists>v. fetch u h v l \<and> inv v"
  using assms add_has later_keeps fetch_has by meson

end

definition fetches :: "edst \<Rightarrow> u16 \<Rightarrow> edst \<Rightarrow> u8 list \<Rightarrow> bool" where
  "fetches s tn t xs \<longleftrightarrow> getline tn s = Fine () t \<and> line_of t = xs"

text \<open>A line is put into \<open>linebuf\<close> first.\<close>

definition adds :: "edst \<Rightarrow> u8 list \<Rightarrow> u16 \<Rightarrow> edst \<Rightarrow> bool" where
  "adds s xs tn t \<longleftrightarrow>
     (\<exists>lb. tmp_room s \<and> line_at lb 0 xs \<and> length xs < LBSIZE \<and> putline (s\<lparr>linebuf := lb\<rparr>) = Fine tn t)"

lemma same_mem: "tmem t = tmem s \<Longrightarrow> tline t = tline s \<Longrightarrow> same_store s t"
  by (simp add: same_store_def)

interpretation tmp: line_store tmp_inv line_stored same_store fetches adds
proof unfold_locales
  fix s h l
  assume "tmp_inv s" "line_stored s h l"
  then show "\<exists>t. fetches s h t l \<and> tmp_inv t \<and> same_store s t"
    using getline_reads [of s h l] same_mem reads_tline unfolding fetches_def by blast
next
  show "fetches s h t l \<Longrightarrow> fetches s h t' l' \<Longrightarrow> t' = t \<and> l' = l" for s h t l t' l'
    by (auto simp: fetches_def)
next
  fix s l h t
  assume i: "tmp_inv s" and a: "adds s l h t"
  then obtain lb where lb: "tmp_room s" "line_at lb 0 l" "length l < LBSIZE" "putline (s\<lparr>linebuf := lb\<rparr>) = Fine h t"
    unfolding adds_def by blast
  let ?s = "s\<lparr>linebuf := lb\<rparr>"
  have "tmp_inv ?s" "tmp_room ?s" "line_at (linebuf ?s) 0 l" using i lb by (simp_all add: tmp_inv_update tmp_room_def)
  from putline_adds [OF this lb(3)] lb(4) have "tmp_inv t" "same_store ?s t" "line_stored t h l" by auto
  then show "tmp_inv t \<and> same_store s t \<and> line_stored t h l" by (simp add: same_store_def tmp_inv_update)
next
  show "same_store s t \<Longrightarrow> line_stored s h l \<Longrightarrow> line_stored t h l" for s t h l by (rule stored_same)
qed

lemma init_tmp_inv: "tmp_inv (init s)"
  by (simp add: tmp_inv_def init_def)


text \<open>The editor as it starts, with an input and nothing in its buffers.\<close>

definition ed0 :: "u8 list \<Rightarrow> edst" where
  "ed0 cs =
     \<lparr>e_in = cs, e_tty = True, e_out = [], pline = [], col = 0, listf = False, pflag = False, vflag = True,
      peekc = 0, lastc = 0, globp = None, savedfile = [], efile = [], e_fs = (\<lambda>_. None), e_creat = (\<lambda>_. True),
      e_sh = (\<lambda>i f. (i, [], f)), io_in = [], io_open = False, ninbuf = 0, nextip = 0, linebuf = (\<lambda>_. 0),
      genbuf = (\<lambda>_. 0), linebp = None, rhsbuf = [], expbuf = (\<lambda>_. 0), circfl = False, tab = (\<lambda>_. 0), tabpos = 1000,
      dot = 0, dol = 0, addr1 = None, addr2 = None, tline = 0, tblk = (\<lambda>_ _. 0), tlen = 0, iblock = None,
      oblock = None, ibuff = (\<lambda>_. 0), obuff = (\<lambda>_. 0), ichanged = False, nleft = 0, ecount = (0, 0),
      names = (\<lambda>_. 0), loc1 = None, loc2 = None, locs = None, braslist = (\<lambda>_. None), braelist = (\<lambda>_. None)\<rparr>"


end
