(* ===== verification/EdTable.thy ===== *)
theory EdTable
  imports EdTmp
begin

text \<open>
  The line table of the editor is a list of line numbers; what the commands do to the table by moving entries one
  by one is taking, dropping and joining parts of the list.
\<close>

section \<open>The list\<close>

text \<open>The entries from \<open>i\<close> to \<open>j\<close> of a table, and all of them.\<close>

definition part :: "(int \<Rightarrow> u16) \<Rightarrow> int \<Rightarrow> int \<Rightarrow> u16 list" where
  "part t i j = map t [i..j]"

definition lines :: "edst \<Rightarrow> u16 list" where
  "lines s = part (tab s) 1 (dol s)"

lemma part_split: "i \<le> j \<Longrightarrow> j \<le> k + 1 \<Longrightarrow> part t i k = part t i (j - 1) @ part t j k"
  by (cases "j = k + 1") (simp_all add: part_def upto_split1 [of i j k])

lemma part_shift:
  assumes "\<And>k. i \<le> k \<Longrightarrow> k \<le> j \<Longrightarrow> u k = t (k + d)"
  shows "part u i j = part t (i + d) (j + d)"
  using assms by (auto simp: part_def ac_simps intro!: nth_equalityI)

lemma part_cong: "(\<And>k. i \<le> k \<Longrightarrow> k \<le> j \<Longrightarrow> u k = t k) \<Longrightarrow> part u i j = part t i j"
  by (simp add: part_def)

section \<open>Moving entries\<close>

lemma shift_entries_apply:
  "shift_entries k a t i = (if a - int k < i \<and> i \<le> a then t (i - 1) else t i)"
proof (induction k a t rule: shift_entries.induct)
  case (2 k a t)
  show ?case unfolding shift_entries.simps 2 by auto
qed auto

declare slide_down.simps [simp del]

lemma slide_down_apply:
  "a1 < a2 \<Longrightarrow> slide_down n a1 a2 t i = (if a1 \<le> i \<and> i \<le> a1 + int n then t (i + (a2 - a1)) else t i)"
proof (induction n arbitrary: a1 a2 t)
  case 0
  then show ?case by (auto simp: slide_down.simps [of 0 a1])
next
  case (Suc n)
  then have "slide_down n (a1 + 1) (a2 + 1) (t(a1 := t a2)) i =
      (if a1 + 1 \<le> i \<and> i \<le> a1 + 1 + int n then (t(a1 := t a2)) (i + (a2 - a1)) else (t(a1 := t a2)) i)"
    by (simp del: fun_upd_apply)
  moreover have "slide_down (Suc n) a1 a2 t = slide_down n (a1 + 1) (a2 + 1) (t(a1 := t a2))"
    by (simp add: slide_down.simps [of "Suc n" a1] Let_def)
  ultimately show ?case using Suc(2) by auto
qed

lemma reverse_apply:
  "reverse a b t i = (if a \<le> i \<and> i < b then t (a + b - 1 - i) else t i)"
proof (induction a b t rule: reverse.induct)
  case (1 a b t)
  show ?case
  proof (cases "b - 1 \<le> a")
    case True
    then have "a \<le> i \<and> i < b \<longrightarrow> i = a \<and> b = a + 1" by linarith
    moreover have "reverse a b t = t" using True by (simp add: reverse.simps [of a])
    ultimately show ?thesis by auto
  next
    case False
    then have "reverse a b t i = reverse (a + 1) (b - 1) (t(b - 1 := t a, a := t (b - 1))) i"
      by (simp add: reverse.simps [of a] Let_def)
    also have "\<dots> = (if a + 1 \<le> i \<and> i < b - 1 then (t(b - 1 := t a, a := t (b - 1))) (a + 1 + (b - 1) - 1 - i)
        else (t(b - 1 := t a, a := t (b - 1))) i)" by (rule 1 [OF refl False])
    finally show ?thesis using False by (auto simp: algebra_simps)
  qed
qed

text \<open>Two neighbouring parts change places when each of them and then both are reversed.\<close>

lemma reverse_thrice:
  assumes "a \<le> b" "b \<le> c"
  shows "reverse a c (reverse b c (reverse a b t)) i =
    (if a \<le> i \<and> i < a + (c - b) then t (i + (b - a))
     else if a + (c - b) \<le> i \<and> i < c then t (i + (b - c)) else t i)"
  using assms by (auto simp: reverse_apply algebra_simps)

lemma part_swap:
  assumes "1 \<le> a" "a \<le> b" "b \<le> c" "c \<le> n + 1"
    "\<And>i. u i = (if a \<le> i \<and> i < a + (c - b) then t (i + (b - a))
       else if a + (c - b) \<le> i \<and> i < c then t (i + (b - c)) else t i)"
  shows "part u 1 n = part t 1 (a - 1) @ part t b (c - 1) @ part t a (b - 1) @ part t c n"
proof -
  let ?m = "a + (c - b)"
  have "part u 1 n = part u 1 (a - 1) @ part u a (?m - 1) @ part u ?m (c - 1) @ part u c n"
    using assms(1-4) part_split [of 1 a n u] part_split [of a ?m n u] part_split [of ?m c n u] by simp
  moreover have "part u 1 (a - 1) = part t 1 (a - 1)" "part u c n = part t c n"
    using assms by (auto intro!: part_cong)
  moreover have "part u a (?m - 1) = part t (a + (b - a)) (?m - 1 + (b - a))"
    "part u ?m (c - 1) = part t (?m + (b - c)) (c - 1 + (b - c))"
    using assms(1-4) by (intro part_shift, simp add: assms(5))+
  ultimately show ?thesis by simp
qed

lemma insert_line_lines:
  assumes "0 \<le> dot s" "dot s \<le> dol s"
  shows "lines (insert_line tn s) = part (tab s) 1 (dot s) @ [tn] @ part (tab s) (dot s + 1) (dol s)"
    "dot (insert_line tn s) = dot s + 1" "dol (insert_line tn s) = dol s + 1"
proof -
  let ?u = "tab (insert_line tn s)"
  have u: "?u i = (if i = dot s + 1 then tn else if dot s + 1 < i \<and> i \<le> dol s + 1 then tab s (i - 1) else tab s i)" for i
    using assms by (simp add: insert_line_def Let_def shift_entries_apply)
  show d: "dot (insert_line tn s) = dot s + 1" "dol (insert_line tn s) = dol s + 1"
    by (simp_all add: insert_line_def Let_def)
  have "part ?u 1 (dol s + 1) = part ?u 1 (dot s) @ part ?u (dot s + 1) (dot s + 1) @ part ?u (dot s + 2) (dol s + 1)"
    using assms part_split [of 1 "dot s + 1" "dol s + 1" ?u] part_split [of "dot s + 1" "dot s + 2" "dol s + 1" ?u]
    by (simp add: ac_simps)
  moreover have "part ?u 1 (dot s) = part (tab s) 1 (dot s)" using u by (auto intro!: part_cong)
  moreover have "part ?u (dot s + 2) (dol s + 1) = part (tab s) (dot s + 2 + - 1) (dol s + 1 + - 1)"
    using u by (intro part_shift) simp
  moreover have "part ?u (dot s + 1) (dot s + 1) = [tn]" using u by (simp add: part_def)
  ultimately show "lines (insert_line tn s) = part (tab s) 1 (dot s) @ [tn] @ part (tab s) (dot s + 1) (dol s)"
    using d by (simp add: lines_def ac_simps)
qed

lemma slide_down_part:
  assumes "1 \<le> a" "a \<le> b" "b \<le> n"
  shows "part (slide_down (nat (n - (b + 1))) a (b + 1) t) 1 (n - (b + 1 - a)) = part t 1 (a - 1) @ part t (b + 1) n"
    (is "part ?u _ _ = _")
proof -
  have u: "?u i = (if a \<le> i \<and> i \<le> a + int (nat (n - (b + 1))) then t (i + (b + 1 - a)) else t i)" for i
    using assms by (simp add: slide_down_apply)
  have "part ?u 1 (n - (b + 1 - a)) = part ?u 1 (a - 1) @ part ?u a (n - (b + 1 - a))"
    using assms part_split [of 1 a "n - (b + 1 - a)" ?u] by simp
  moreover have "part ?u 1 (a - 1) = part t 1 (a - 1)" using u by (auto intro!: part_cong)
  moreover have "part ?u a (n - (b + 1 - a)) = part t (a + (b + 1 - a)) (n - (b + 1 - a) + (b + 1 - a))"
    using u assms by (intro part_shift) simp
  ultimately show ?thesis by simp
qed

section \<open>The commands\<close>

text \<open>What \<open>setdot\<close> and \<open>nonzero\<close> let through.\<close>

lemma nonzero_Fine: "nonzero s = Fine () t \<Longrightarrow> t = s \<and> above (addr1 s) (Some 0) \<and> \<not> above (addr2 s) (Some (dol s))"
  by (auto simp: nonzero_def err_def split: if_splits)

lemma getchar_lines:
  "tab (snd (getchar s)) = tab s \<and> dol (snd (getchar s)) = dol s \<and> dot (snd (getchar s)) = dot s
    \<and> addr1 (snd (getchar s)) = addr1 s \<and> addr2 (snd (getchar s)) = addr2 s"
  by (simp add: getchar_def split: option.split list.split)

lemma newline_lines:
  "newline s = Fine () t \<Longrightarrow>
    tab t = tab s \<and> dol t = dol s \<and> dot t = dot s \<and> addr1 t = addr1 s \<and> addr2 t = addr2 s"
  using getchar_lines [of s] getchar_lines [of "(snd (getchar s))\<lparr>pflag := True, listf := (listf (snd (getchar s)) \<or> fst (getchar s) = 108)\<rparr>"]
  by (auto simp: newline_def err_def split: prod.splits if_splits)

text \<open>
  C31: \<open>m\<close> moves lines.  With the lines \<open>ad1\<close> to \<open>ad2 - 1\<close> chosen, three reversals of parts of the table put exactly
  those lines behind line \<open>adt\<close>, in their order, with every other line in its order, and \<open>dot\<close> is the last of them;
  a target among the lines themselves is an error.
\<close>

theorem move_lines:
  assumes "1 \<le> ad1" "ad1 < ad2" "ad2 \<le> dol s + 1" "0 \<le> adt" "adt \<le> dol s"
  shows "(ad1 \<le> adt \<and> adt < ad2 \<longrightarrow> rotate_lines adt ad1 ad2 s = err s)
    \<and> (adt < ad1 \<longrightarrow> (\<exists>t. rotate_lines adt ad1 ad2 s = Fine () (s\<lparr>dot := adt + (ad2 - ad1), tab := t\<rparr>)
         \<and> part t 1 (dol s) = part (tab s) 1 adt @ part (tab s) ad1 (ad2 - 1)
             @ part (tab s) (adt + 1) (ad1 - 1) @ part (tab s) ad2 (dol s)))
    \<and> (ad2 \<le> adt \<longrightarrow> (\<exists>t. rotate_lines adt ad1 ad2 s = Fine () (s\<lparr>dot := adt, tab := t\<rparr>)
         \<and> part t 1 (dol s) = part (tab s) 1 (ad1 - 1) @ part (tab s) ad2 adt
             @ part (tab s) ad1 (ad2 - 1) @ part (tab s) (adt + 1) (dol s)))"
proof (intro conjI impI)
  assume "ad1 \<le> adt \<and> adt < ad2"
  then show "rotate_lines adt ad1 ad2 s = err s" by (simp add: rotate_lines_def)
next
  assume lt: "adt < ad1"
  let ?t = "if adt + 1 = ad1 then tab s
    else reverse (adt + 1) ad2 (reverse ad1 ad2 (reverse (adt + 1) ad1 (tab s)))"
  have "rotate_lines adt ad1 ad2 s = Fine () (s\<lparr>dot := adt + (ad2 - ad1), tab := ?t\<rparr>)"
    using lt by (auto simp: rotate_lines_def Let_def intro: edst.equality)
  moreover have "part ?t 1 (dol s) = part (tab s) 1 (adt + 1 - 1) @ part (tab s) ad1 (ad2 - 1)
      @ part (tab s) (adt + 1) (ad1 - 1) @ part (tab s) ad2 (dol s)"
    using assms lt reverse_thrice [of "adt + 1" ad1 ad2 "tab s"] by (intro part_swap) auto
  ultimately show "\<exists>t. rotate_lines adt ad1 ad2 s = Fine () (s\<lparr>dot := adt + (ad2 - ad1), tab := t\<rparr>)
       \<and> part t 1 (dol s) = part (tab s) 1 adt @ part (tab s) ad1 (ad2 - 1)
           @ part (tab s) (adt + 1) (ad1 - 1) @ part (tab s) ad2 (dol s)"
    by (intro exI [of _ ?t] conjI) simp_all
next
  assume ge: "ad2 \<le> adt"
  let ?t = "reverse ad1 (adt + 1) (reverse ad2 (adt + 1) (reverse ad1 ad2 (tab s)))"
  have "rotate_lines adt ad1 ad2 s = Fine () (s\<lparr>dot := adt, tab := ?t\<rparr>)"
    using ge assms(2) by (simp add: rotate_lines_def Let_def)
  moreover have "part ?t 1 (dol s) = part (tab s) 1 (ad1 - 1) @ part (tab s) ad2 (adt + 1 - 1)
      @ part (tab s) ad1 (ad2 - 1) @ part (tab s) (adt + 1) (dol s)"
    using assms ge reverse_thrice [of ad1 ad2 "adt + 1" "tab s"] by (intro part_swap) auto
  ultimately show "\<exists>t. rotate_lines adt ad1 ad2 s = Fine () (s\<lparr>dot := adt, tab := t\<rparr>)
       \<and> part t 1 (dol s) = part (tab s) 1 (ad1 - 1) @ part (tab s) ad2 adt
           @ part (tab s) ad1 (ad2 - 1) @ part (tab s) (adt + 1) (dol s)" by auto
qed

lemma move_lines_witness:
  "\<exists>t. rotate_lines 0 2 4 ((ed0 [])\<lparr>tab := (\<lambda>i. of_int (10 * i)), dol := 4\<rparr>)
      = Fine () ((ed0 [])\<lparr>tab := t, dol := 4, dot := 2\<rparr>) \<and> part t 1 4 = [20, 30, 10, 40]"
proof -
  let ?s = "(ed0 [])\<lparr>tab := (\<lambda>i. of_int (10 * i)), dol := 4\<rparr>"
  have n: "[1..0] = ([] :: int list)" "[2..3] = [2, 3 :: int]" "[1..1] = [1 :: int]" "[4..4] = [4 :: int]"
    by (simp_all add: upto.simps)
  obtain t where "rotate_lines 0 2 4 ?s = Fine () (?s\<lparr>dot := 2, tab := t\<rparr>)"
    "part t 1 4 = part (tab ?s) 1 0 @ part (tab ?s) 2 3 @ part (tab ?s) 1 1 @ part (tab ?s) 4 4"
    using move_lines [of 2 4 ?s 0] by auto
  then show ?thesis by (intro exI [of _ t]) (simp add: part_def n)
qed

text \<open>
  \<open>d\<close> takes away exactly the addressed lines: when it does not stop with an error, the lines \<open>a\<close> to \<open>b\<close> it
  is about are in the table, the others stay in their order, and \<open>dot\<close> is the line behind them or the last line.
\<close>

lemma delete_lines:
  assumes "delete s = Fine () t" "0 \<le> dot s"
  shows "\<exists>a b. 1 \<le> a \<and> a \<le> b \<and> b \<le> dol s
    \<and> (if addr2 s = None then a = dot s \<and> b = dot s else addr1 s = Some a \<and> addr2 s = Some b)
    \<and> lines t = part (tab s) 1 (a - 1) @ part (tab s) (b + 1) (dol s)
    \<and> dol t = dol s - (b + 1 - a) \<and> dot t = min a (dol t)"
proof -
  obtain u v where u: "setdot s = Fine () u" and v: "newline u = Fine () v" and w: "nonzero v = Fine () v"
    using assms(1) nonzero_Fine by (auto simp: delete_def ebind_Fine)
  have nz: "above (addr1 v) (Some 0)" "\<not> above (addr2 v) (Some (dol v))" using nonzero_Fine [OF w] by simp_all
  have su: "u = (if addr2 s = None then s\<lparr>addr1 := Some (dot s), addr2 := Some (dot s)\<rparr> else s)"
    "\<not> above (addr1 u) (addr2 u)"
    using u by (auto simp: setdot_def err_def Let_def split: if_splits)
  note lv = newline_lines [OF v]
  obtain a b where ab: "addr1 v = Some a" "addr2 v = Some b" "1 \<le> a" "a \<le> b" "b \<le> dol v"
    using nz su(2) lv by (auto simp: above_def split: option.splits)
  have d: "delete s = Fine () (let t = v\<lparr>dol := dol v - (b + 1 - a), tab := slide_down (nat (dol v - (b + 1))) a (b + 1) (tab v)\<rparr>
      in t\<lparr>dot := (if a > dol t then dol t else a)\<rparr>)"
    using u v w ab by (simp add: delete_def Let_def)
  have s: "dol v = dol s" "tab v = tab s" using su(1) lv by (auto split: if_splits)
  have "if addr2 s = None then a = dot s \<and> b = dot s else addr1 s = Some a \<and> addr2 s = Some b"
    using su(1) lv ab by (auto split: if_splits)
  moreover have t: "dol t = dol s - (b + 1 - a)" "dot t = min a (dol t)"
    "tab t = slide_down (nat (dol s - (b + 1))) a (b + 1) (tab s)"
    using assms(1) d s by (auto simp: Let_def min_def)
  moreover have "lines t = part (tab s) 1 (a - 1) @ part (tab s) (b + 1) (dol s)"
    unfolding lines_def t(1,3) by (rule slide_down_part) (use ab(3-5) s(1) in simp_all)
  ultimately show ?thesis using ab(3-5) s(1) by (intro exI [of _ a] exI [of _ b] conjI) simp_all
qed

lemma delete_lines_witness:
  "\<exists>t. delete ((ed0 [10])\<lparr>tab := (\<lambda>i. of_int (10 * i)), dol := 3, addr1 := Some 1, addr2 := Some 2\<rparr>) = Fine () t
    \<and> lines t = [30] \<and> dot t = 1"
proof -
  let ?s = "(ed0 [10])\<lparr>tab := (\<lambda>i. of_int (10 * i)), dol := 3, addr1 := Some 1, addr2 := Some 2\<rparr>"
  have "10 AND 127 = (10 :: u8)" by simp
  then have "\<exists>t. delete ?s = Fine () t"
    by (simp add: delete_def setdot_def above_def newline_def getchar_def nonzero_def ed0_def Let_def)
  then obtain t where t: "delete ?s = Fine () t" by blast
  have n: "[1..0] = ([] :: int list)" "[3..3] = [3 :: int]" by (simp_all add: upto.simps)
  from delete_lines [OF t] have "lines t = part (tab ?s) 1 0 @ part (tab ?s) 3 3" "dot t = 1"
    by (auto simp: ed0_def)
  with t show ?thesis by (intro exI [of _ t]) (simp add: part_def n)
qed

end
