(* ===== verification/EdMatch.thy ===== *)
theory EdMatch
  imports EdTmp
begin

text \<open>
  The matcher of the editor against the language of regular expressions: \<open>advance\<close> with its backtracking decides
  whether the code in \<open>expbuf\<close> matches at a place, \<open>execute\<close> finds the first place of a line where it does.
\<close>

section \<open>The language\<close>

text \<open>A character, \<open>.\<close> or a class, once or starred; the end of the line; a bracket, which matches nothing.\<close>

datatype ritem = One "u8 \<Rightarrow> bool" | Star "u8 \<Rightarrow> bool" | Eol | Bracket

text \<open>\<open>matches r xs n\<close>: the first \<open>n\<close> characters of \<open>xs\<close> match.\<close>

primrec matches :: "ritem list \<Rightarrow> u8 list \<Rightarrow> nat \<Rightarrow> bool" where
  "matches [] xs n \<longleftrightarrow> n = 0"
| "matches (r # rs) xs n \<longleftrightarrow>
     (case r of
        One P \<Rightarrow> \<exists>x ys. xs = x # ys \<and> P x \<and> 0 < n \<and> matches rs ys (n - 1)
      | Star P \<Rightarrow> \<exists>k \<le> min n (length xs). (\<forall>i < k. P (xs ! i)) \<and> matches rs (drop k xs) (n - k)
      | Eol \<Rightarrow> xs = [] \<and> matches rs xs n
      | Bracket \<Rightarrow> matches rs xs n)"

definition matching :: "ritem list \<Rightarrow> u8 list \<Rightarrow> bool" where
  "matching rs xs \<longleftrightarrow> (\<exists>n. matches rs xs n)"

lemma matching_Nil: "matching [] xs"
  by (simp add: matching_def)

lemma matching_One: "matching (One P # rs) xs \<longleftrightarrow> (\<exists>x ys. xs = x # ys \<and> P x \<and> matching rs ys)"
proof
  assume "\<exists>x ys. xs = x # ys \<and> P x \<and> matching rs ys"
  then obtain x ys n where "xs = x # ys" "P x" "matches rs ys n" by (auto simp: matching_def)
  then show "matching (One P # rs) xs" unfolding matching_def by (intro exI [of _ "n + 1"]) simp
qed (auto simp: matching_def)

lemma matching_Star:
  "matching (Star P # rs) xs \<longleftrightarrow> (\<exists>k \<le> length xs. (\<forall>i < k. P (xs ! i)) \<and> matching rs (drop k xs))"
proof
  assume "\<exists>k \<le> length xs. (\<forall>i < k. P (xs ! i)) \<and> matching rs (drop k xs)"
  then obtain k n where "k \<le> length xs" "\<forall>i < k. P (xs ! i)" "matches rs (drop k xs) n" by (auto simp: matching_def)
  then show "matching (Star P # rs) xs" unfolding matching_def
    by (intro exI [of _ "k + n"]) (auto intro!: exI [of _ k])
qed (auto simp: matching_def)

section \<open>The code\<close>

text \<open>\<open>code_at e ep rs\<close>: the bytes from \<open>ep\<close> on stand for \<open>rs\<close>.\<close>

definition class_test :: "carr \<Rightarrow> nat \<Rightarrow> bool \<Rightarrow> u8 \<Rightarrow> bool" where
  "class_test e ep af c = cclass e ep c af"

inductive code_at :: "carr \<Rightarrow> nat \<Rightarrow> ritem list \<Rightarrow> bool" for e where
  finish: "e ep = CEOF \<Longrightarrow> ep < ESIZE + 4 \<Longrightarrow> code_at e ep []"
| char: "e ep = CCHR \<Longrightarrow> ep < ESIZE + 4 \<Longrightarrow> e (ep + 1) = x \<Longrightarrow> x \<noteq> 0 \<Longrightarrow> code_at e (ep + 2) rs \<Longrightarrow>
    code_at e ep (One (\<lambda>c. c = x) # rs)"
| any: "e ep = CDOT \<Longrightarrow> ep < ESIZE + 4 \<Longrightarrow> code_at e (ep + 1) rs \<Longrightarrow> code_at e ep (One (\<lambda>c. c \<noteq> 0) # rs)"
| cls: "e ep = (if af then CCL else NCCL) \<Longrightarrow> ep < ESIZE + 4 \<Longrightarrow> class_ok e (ep + 1) \<Longrightarrow>
    code_at e (ep + 1 + unat (e (ep + 1))) rs \<Longrightarrow> code_at e ep (One (class_test e (ep + 1) af) # rs)"
| eol: "e ep = CDOL \<Longrightarrow> ep < ESIZE + 4 \<Longrightarrow> code_at e (ep + 1) rs \<Longrightarrow> code_at e ep (Eol # rs)"
| bracket: "e ep = CBRA \<or> e ep = CKET \<Longrightarrow> ep < ESIZE + 4 \<Longrightarrow> unat (e (ep + 1)) < NBRA \<Longrightarrow> code_at e (ep + 2) rs \<Longrightarrow>
    code_at e ep (Bracket # rs)"
| char_star: "e ep = CCHR OR STAR \<Longrightarrow> ep < ESIZE + 4 \<Longrightarrow> e (ep + 1) = x \<Longrightarrow> x \<noteq> 0 \<Longrightarrow> code_at e (ep + 2) rs \<Longrightarrow>
    code_at e ep (Star (\<lambda>c. c = x) # rs)"
| any_star: "e ep = CDOT OR STAR \<Longrightarrow> ep < ESIZE + 4 \<Longrightarrow> code_at e (ep + 1) rs \<Longrightarrow> code_at e ep (Star (\<lambda>c. c \<noteq> 0) # rs)"
| cls_star: "e ep = (if af then CCL else NCCL) OR STAR \<Longrightarrow> ep < ESIZE + 4 \<Longrightarrow> class_ok e (ep + 1) \<Longrightarrow>
    code_at e (ep + 1 + unat (e (ep + 1))) rs \<Longrightarrow> code_at e ep (Star (class_test e (ep + 1) af) # rs)"

lemma cclass_end [simp]: "\<not> cclass e ep 0 af"
  by (simp add: cclass_def)

section \<open>The matcher\<close>

definition text_in :: "cbuf \<Rightarrow> nat \<Rightarrow> u8 list \<Rightarrow> edst \<Rightarrow> bool" where
  "text_in b lp xs s \<longleftrightarrow>
     0 \<notin> set xs \<and> (\<forall>i < length xs. cget b (lp + i) s = xs ! i) \<and> cget b (lp + length xs) s = 0
     \<and> lp + length xs < LBSIZE"

lemma text_in_drop: "text_in b lp xs s \<Longrightarrow> k \<le> length xs \<Longrightarrow> text_in b (lp + k) (drop k xs) s"
  by (auto simp: text_in_def add.assoc dest: in_set_dropD)

lemma text_in_hd: "text_in b lp xs s \<Longrightarrow> cget b lp s = (case xs of [] \<Rightarrow> 0 | x # _ \<Rightarrow> x)"
  by (cases xs) (auto simp: text_in_def)

lemma text_in_tl: "text_in b lp (x # xs) s \<Longrightarrow> x \<noteq> 0 \<and> text_in b (lp + 1) xs s"
  using text_in_drop [of b lp "x # xs" s 1] by (auto simp: text_in_def)

text \<open>What \<open>advance\<close> may change.\<close>

definition scans :: "edst \<Rightarrow> edst \<Rightarrow> bool" where
  "scans s t \<longleftrightarrow> (\<exists>l a b. t = s\<lparr>loc2 := l, braslist := a, braelist := b\<rparr>)"

lemma scans_refl: "scans s s"
  unfolding scans_def by (intro exI [of _ "loc2 s"] exI [of _ "braslist s"] exI [of _ "braelist s"]) simp

lemma scans_trans: "scans s t \<Longrightarrow> scans t u \<Longrightarrow> scans s u"
  unfolding scans_def by (elim exE, simp) blast

lemma scans_update: "scans s (s\<lparr>loc2 := l\<rparr>)" "scans s (s\<lparr>braslist := x\<rparr>)" "scans s (s\<lparr>braelist := y\<rparr>)"
  unfolding scans_def
  by (rule exI [of _ l], rule exI [of _ "braslist s"], rule exI [of _ "braelist s"], simp)
    (rule exI [of _ "loc2 s"], rule exI [of _ x], rule exI [of _ "braelist s"], simp,
     rule exI [of _ "loc2 s"], rule exI [of _ "braslist s"], rule exI [of _ y], simp)

lemma scans_same:
  "scans s t \<Longrightarrow> expbuf t = expbuf s \<and> locs t = locs s \<and> loc1 t = loc1 s \<and> circfl t = circfl s \<and> rhsbuf t = rhsbuf s
    \<and> cget b i t = cget b i s \<and> text_in b lp xs t = text_in b lp xs s"
  unfolding scans_def by (elim exE) (simp add: text_in_def cget_def cong: cbuf.case_cong)

text \<open>What is to be shown of \<open>advance\<close> at a place.\<close>

definition decides :: "cbuf \<Rightarrow> nat \<Rightarrow> nat \<Rightarrow> ritem list \<Rightarrow> u8 list \<Rightarrow> edst \<Rightarrow> bool" where
  "decides b lp ep rs xs s \<longleftrightarrow>
     (\<exists>t. advance b lp ep s = Fine (matching rs xs) t \<and> scans s t \<and>
       (matching rs xs \<longrightarrow> (\<exists>n. matches rs xs n \<and> loc2 t = Some (b, lp + n))))"

lemma run_end_text:
  assumes "text_in b lp xs s" "\<not> P 0"
  shows "run_end P b lp s = Some (lp + length (takeWhile P xs))"
proof -
  let ?k = "length (takeWhile P xs)"
  have k: "?k \<le> length xs" by (rule length_takeWhile_le)
  have lt: "lp + ?k < LBSIZE" using assms(1) k by (simp add: text_in_def)
  have before: "P (cget b i s)" if "lp \<le> i" "i < lp + ?k" for i
  proof -
    have "i - lp < ?k" using that by simp
    then have "P (xs ! (i - lp))" using nth_mem [of "i - lp" "takeWhile P xs"] by (auto simp: takeWhile_nth dest: set_takeWhileD)
    moreover have "cget b (lp + (i - lp)) s = xs ! (i - lp)"
      using assms(1) \<open>i - lp < ?k\<close> k by (simp add: text_in_def)
    ultimately show ?thesis using that(1) by simp
  qed
  have at: "\<not> P (cget b (lp + ?k) s)"
  proof (cases "?k = length xs")
    case True
    then show ?thesis using assms by (simp add: text_in_def)
  next
    case False
    then have "?k < length xs" using k by simp
    then show ?thesis using nth_length_takeWhile [of P xs] assms(1) by (simp add: text_in_def)
  qed
  have "[lp..<LBSIZE] = [lp..<lp + ?k] @ (lp + ?k) # [lp + ?k + 1..<LBSIZE]"
    using upt_add_eq_append [of lp "lp + ?k" "LBSIZE - (lp + ?k)"] lt less_imp_le [OF lt]
    by (simp only: le_add1 le_add_diff_inverse upt_conv_Cons Suc_eq_plus1 [symmetric])
  moreover have "find (\<lambda>i. \<not> P (cget b i s)) ([lp..<lp + ?k] @ (lp + ?k) # ys) = Some (lp + ?k)" for ys
  proof -
    have "find Q (as @ y # ys) = Some y" if "\<forall>a \<in> set as. \<not> Q a" "Q y" for Q :: "nat \<Rightarrow> bool" and as y ys
      using that by (induction as) auto
    then show ?thesis using before at by simp
  qed
  ultimately show ?thesis by (simp only: run_end_def)
qed

lemma star_loop_decides:
  assumes rest: "\<And>lp xs s. text_in b lp xs s \<Longrightarrow> locs s = None \<Longrightarrow> expbuf s = e \<Longrightarrow> decides b lp ep rs xs s"
    and "text_in b lp xs s" "locs s = None" "expbuf s = e" "k \<le> length xs"
  shows "\<exists>t. star_loop b (lp + k) lp ep s = Fine (\<exists>i \<le> k. matching rs (drop i xs)) t \<and> scans s t
    \<and> ((\<exists>i \<le> k. matching rs (drop i xs)) \<longrightarrow> (\<exists>i n. i \<le> k \<and> matches rs (drop i xs) n \<and> loc2 t = Some (b, lp + i + n)))"
  using assms(2-5)
proof (induction k arbitrary: s)
  case 0
  from rest [OF 0(1-3)] obtain t where "advance b lp ep s = Fine (matching rs xs) t" "scans s t"
    "matching rs xs \<longrightarrow> (\<exists>n. matches rs xs n \<and> loc2 t = Some (b, lp + n))" by (auto simp: decides_def)
  then show ?case using 0(2) by (auto simp: star_loop.simps [of b lp])
next
  case (Suc k)
  from rest [OF text_in_drop [OF Suc.prems(1,4)] Suc.prems(2,3)] obtain t where
    t: "advance b (lp + Suc k) ep s = Fine (matching rs (drop (Suc k) xs)) t" "scans s t"
      "matching rs (drop (Suc k) xs) \<longrightarrow> (\<exists>n. matches rs (drop (Suc k) xs) n \<and> loc2 t = Some (b, lp + Suc k + n))"
    by (auto simp: decides_def)
  show ?case
  proof (cases "matching rs (drop (Suc k) xs)")
    case True
    with t obtain n where n: "matches rs (drop (Suc k) xs) n" "loc2 t = Some (b, lp + Suc k + n)" by blast
    have "star_loop b (lp + Suc k) lp ep s = Fine True t"
      using t(1) True Suc.prems(2) by (simp add: star_loop.simps [of b "lp + Suc k"] del: add_Suc_right)
    moreover have "\<exists>i \<le> Suc k. matching rs (drop i xs)" using True by blast
    moreover have "\<exists>i m. i \<le> Suc k \<and> matches rs (drop i xs) m \<and> loc2 t = Some (b, lp + i + m)"
      by (rule exI [of _ "Suc k"], rule exI [of _ n]) (use n in simp)
    ultimately show ?thesis using t(2) by (intro exI [of _ t]) simp
  next
    case False
    have "star_loop b (lp + Suc k) lp ep s = star_loop b (lp + k) lp ep t"
      using t(1) False Suc.prems(2) by (subst star_loop.simps) simp
    moreover have "text_in b lp xs t" "locs t = None" "expbuf t = e" "k \<le> length xs"
      using scans_same [OF t(2)] Suc.prems by simp_all
    from Suc.IH [OF this] obtain u where
      u: "star_loop b (lp + k) lp ep t = Fine (\<exists>i \<le> k. matching rs (drop i xs)) u" "scans t u"
        "(\<exists>i \<le> k. matching rs (drop i xs)) \<longrightarrow> (\<exists>i n. i \<le> k \<and> matches rs (drop i xs) n \<and> loc2 u = Some (b, lp + i + n))"
      by blast
    moreover have e: "(\<exists>i \<le> Suc k. matching rs (drop i xs)) \<longleftrightarrow> (\<exists>i \<le> k. matching rs (drop i xs))"
      using False by (auto simp: le_Suc_eq)
    moreover have "\<exists>i n. i \<le> Suc k \<and> matches rs (drop i xs) n \<and> loc2 u = Some (b, lp + i + n)"
      if "\<exists>i \<le> k. matching rs (drop i xs)"
      using u(3) that le_SucI by blast
    ultimately show ?thesis unfolding e using scans_trans [OF t(2) u(2)] by (intro exI [of _ u] conjI impI) simp_all
  qed
qed

lemma takeWhile_prefix: "k \<le> length xs \<Longrightarrow> (\<forall>i < k. P (xs ! i)) \<longleftrightarrow> k \<le> length (takeWhile P xs)"
proof (induction xs arbitrary: k)
  case (Cons x xs)
  then show ?case by (cases k) (auto simp: All_less_Suc2)
qed simp

text \<open>A starred item, whose run ends where the test first fails.\<close>

lemma star_decides:
  assumes "\<And>lp xs s. text_in b lp xs s \<Longrightarrow> locs s = None \<Longrightarrow> expbuf s = e \<Longrightarrow> decides b lp ep' rs xs s"
    and "text_in b lp xs s" "locs s = None" "expbuf s = e" "\<not> P 0"
    and "advance b lp ep s = (case run_end P b lp s of None \<Rightarrow> Wild | Some j \<Rightarrow> star_loop b j lp ep' s)"
  shows "decides b lp ep (Star P # rs) xs s"
proof -
  let ?k = "length (takeWhile P xs)"
  have k: "?k \<le> length xs" by (rule length_takeWhile_le)
  have m: "matching (Star P # rs) xs \<longleftrightarrow> (\<exists>i \<le> ?k. matching rs (drop i xs))"
    unfolding matching_Star using takeWhile_prefix [of _ xs P] k le_trans by blast
  have n: "matches (Star P # rs) xs (i + n)" if "i \<le> ?k" "matches rs (drop i xs) n" for i n
    using that k takeWhile_prefix [of i xs P] by (auto intro!: exI [of _ i])
  from star_loop_decides [of b e ep' rs lp xs s ?k, OF assms(1-4) k] obtain t where
    t: "star_loop b (lp + ?k) lp ep' s = Fine (\<exists>i \<le> ?k. matching rs (drop i xs)) t" "scans s t"
    "(\<exists>i \<le> ?k. matching rs (drop i xs)) \<longrightarrow> (\<exists>i n. i \<le> ?k \<and> matches rs (drop i xs) n \<and> loc2 t = Some (b, lp + i + n))"
    by blast
  have a: "advance b lp ep s = star_loop b (lp + ?k) lp ep' s"
    by (simp add: assms(6) run_end_text [of b lp xs s P, OF assms(2,5)])
  have "\<exists>j. matches (Star P # rs) xs j \<and> loc2 t = Some (b, lp + j)" if ex: "\<exists>i \<le> ?k. matching rs (drop i xs)"
  proof -
    obtain i j where ij: "i \<le> ?k" "matches rs (drop i xs) j" "loc2 t = Some (b, lp + i + j)" using t(3) ex by blast
    then have "loc2 t = Some (b, lp + (i + j))" by (simp add: add.assoc)
    with n [OF ij(1,2)] show ?thesis by blast
  qed
  with a t(1,2) show ?thesis unfolding decides_def m by (intro exI [of _ t] conjI impI) simp_all
qed

text \<open>An item that takes one character.\<close>

lemma one_decides:
  assumes "\<And>lp xs s. text_in b lp xs s \<Longrightarrow> locs s = None \<Longrightarrow> expbuf s = e \<Longrightarrow> decides b lp ep' rs xs s"
    and "text_in b lp xs s" "locs s = None" "expbuf s = e" "\<not> P 0"
    and "advance b lp ep s = (if P (cget b lp s) then advance b (lp + 1) ep' s else Fine False s)"
  shows "decides b lp ep (One P # rs) xs s"
proof (cases xs)
  case Nil
  then have "cget b lp s = 0" using text_in_hd [OF assms(2)] by simp
  then show ?thesis using assms(5,6) Nil scans_refl by (auto simp: decides_def matching_One)
next
  case (Cons x ys)
  have x: "cget b lp s = x" "text_in b (lp + 1) ys s"
    using text_in_hd [OF assms(2)] text_in_tl [of b lp x ys s] assms(2) Cons by simp_all
  show ?thesis
  proof (cases "P x")
    case False
    then show ?thesis using assms(6) x Cons scans_refl by (auto simp: decides_def matching_One)
  next
    case True
    from assms(1) [OF x(2) assms(3,4)] obtain t where
      t: "advance b (lp + 1) ep' s = Fine (matching rs ys) t" "scans s t"
        "matching rs ys \<longrightarrow> (\<exists>n. matches rs ys n \<and> loc2 t = Some (b, lp + 1 + n))" unfolding decides_def by blast
    have m: "matching (One P # rs) xs \<longleftrightarrow> matching rs ys" using True Cons by (simp add: matching_One)
    have "\<exists>j. matches (One P # rs) xs j \<and> loc2 t = Some (b, lp + j)" if m: "matching rs ys"
    proof -
      obtain n where "matches rs ys n" "loc2 t = Some (b, lp + 1 + n)" using m t(3) by blast
      with True Cons show ?thesis by (intro exI [of _ "n + 1"]) simp
    qed
    moreover have "advance b lp ep s = advance b (lp + 1) ep' s" using assms(6) x(1) True by simp
    ultimately show ?thesis unfolding decides_def m using t(1,2) by (intro exI [of _ t] conjI impI) simp_all
  qed
qed

lemma advance_decides:
  assumes "code_at e ep rs" "text_in b lp xs s" "locs s = None" "expbuf s = e"
  shows "decides b lp ep rs xs s"
  using assms
proof (induction arbitrary: lp xs s rule: code_at.induct)
  case (finish ep)
  then have "lp < LBSIZE" by (simp add: text_in_def)
  with finish show ?case
    by (auto simp: decides_def matching_Nil advance.simps [of b lp ep] scans_update)
next
  case (char ep x rs)
  then have "lp < LBSIZE" by (simp add: text_in_def)
  show ?case using char \<open>lp < LBSIZE\<close>
    by (intro one_decides [where e = e and ep' = "ep + 2"]) (auto simp: advance.simps [of b lp ep] Let_def)
next
  case (any ep rs)
  then have "lp < LBSIZE" by (simp add: text_in_def)
  show ?case using any \<open>lp < LBSIZE\<close>
    by (intro one_decides [where e = e and ep' = "ep + 1"]) (auto simp: advance.simps [of b lp ep] Let_def)
next
  case (cls ep af rs)
  then have "lp < LBSIZE" by (simp add: text_in_def)
  show ?case using cls \<open>lp < LBSIZE\<close>
    by (intro one_decides [where e = e and ep' = "ep + 1 + unat (e (ep + 1))"])
      (auto simp: advance.simps [of b lp ep] Let_def class_test_def)
next
  case (eol ep rs)
  then have "lp < LBSIZE" by (simp add: text_in_def)
  have h: "cget b lp s = 0 \<longleftrightarrow> xs = []" using eol(5) by (cases xs) (auto simp: text_in_def)
  have "advance b lp ep s = (if xs = [] then advance b lp (ep + 1) s else Fine False s)"
    using eol h \<open>lp < LBSIZE\<close> by (simp add: advance.simps [of b lp ep] Let_def)
  moreover have "matches (Eol # rs) xs = (\<lambda>n. xs = [] \<and> matches rs xs n)" by auto
  moreover have "decides b lp (ep + 1) rs xs s" by (rule eol(4)) (use eol in simp_all)
  ultimately show ?case using scans_refl [of s] by (cases "xs = []") (simp_all add: decides_def matching_def del: matches.simps)
next
  case (bracket ep rs)
  then have "lp < LBSIZE" by (simp add: text_in_def)
  obtain u where a: "advance b lp ep s = advance b lp (ep + 2) u" and u: "scans s u"
  proof (cases "e ep = CBRA")
    case True
    then have "advance b lp ep s = advance b lp (ep + 2) (s\<lparr>braslist := (braslist s)(unat (e (ep + 1)) := Some (b, lp))\<rparr>)"
      using bracket(2,3,8) \<open>lp < LBSIZE\<close> by (simp add: advance.simps [of b lp ep] Let_def)
    then show thesis by (rule that) (rule scans_update)
  next
    case False
    then have "advance b lp ep s = advance b lp (ep + 2) (s\<lparr>braelist := (braelist s)(unat (e (ep + 1)) := Some (b, lp))\<rparr>)"
      using bracket(1-3,8) \<open>lp < LBSIZE\<close> by (simp add: advance.simps [of b lp ep] Let_def)
    then show thesis by (rule that) (rule scans_update)
  qed
  have "decides b lp (ep + 2) rs xs u"
    by (rule bracket(5)) (use bracket scans_same [OF u] in simp_all)
  moreover have "matches (Bracket # rs) xs = matches rs xs" by auto
  ultimately show ?case using a scans_trans [OF u] by (auto simp: decides_def matching_def)
next
  case (char_star ep x rs)
  then have "lp < LBSIZE" by (simp add: text_in_def)
  show ?case using char_star \<open>lp < LBSIZE\<close>
    by (intro star_decides [where e = e and ep' = "ep + 2"])
      (auto simp: advance.simps [of b lp ep] Let_def cong: option.case_cong)
next
  case (any_star ep rs)
  then have "lp < LBSIZE" by (simp add: text_in_def)
  show ?case using any_star \<open>lp < LBSIZE\<close>
    by (intro star_decides [where e = e and ep' = "ep + 1"])
      (auto simp: advance.simps [of b lp ep] Let_def cong: option.case_cong)
next
  case (cls_star ep af rs)
  then have "lp < LBSIZE" by (simp add: text_in_def)
  have f: "class_test e (ep + 1) af = (\<lambda>c. cclass e (ep + 1) c af)" by (simp add: class_test_def fun_eq_iff)
  show ?case using cls_star \<open>lp < LBSIZE\<close> unfolding f
    by (intro star_decides [where e = e and ep' = "ep + 1 + unat (e (ep + 1))"])
      (auto simp: advance.simps [of b lp ep] Let_def split: if_splits cong: option.case_cong)
qed

section \<open>The search\<close>

text \<open>The first place of a line that matches, if there is one; the end of the line is a place too.\<close>

primrec first_match :: "ritem list \<Rightarrow> u8 list \<Rightarrow> nat option" where
  "first_match rs [] = (if matching rs [] then Some 0 else None)"
| "first_match rs (x # xs) = (if matching rs (x # xs) then Some 0 else map_option Suc (first_match rs xs))"

lemma first_match_Some:
  "first_match rs xs = Some q \<Longrightarrow> q \<le> length xs \<and> matching rs (drop q xs) \<and> (\<forall>r < q. \<not> matching rs (drop r xs))"
  by (induction xs arbitrary: q) (auto split: if_splits simp: less_Suc_eq_0_disj)

lemma first_match_None: "first_match rs xs = None \<longleftrightarrow> (\<forall>q \<le> length xs. \<not> matching rs (drop q xs))"
proof (induction xs)
  case (Cons x xs)
  have "(\<forall>q \<le> length (x # xs). \<not> matching rs (drop q (x # xs)))
      \<longleftrightarrow> \<not> matching rs (x # xs) \<and> (\<forall>q \<le> length xs. \<not> matching rs (drop q xs))"
    by (metis One_nat_def Suc_le_mono drop0 drop_Suc_Cons le0 length_Cons not0_implies_Suc)
  with Cons show ?case by simp
qed simp

text \<open>The fast search is one for the first character of the expression.\<close>

definition fast_for :: "u8 option \<Rightarrow> ritem list \<Rightarrow> bool" where
  "fast_for first rs \<longleftrightarrow> (\<forall>c. first = Some c \<longrightarrow> c \<noteq> 0 \<and> (\<exists>qs. rs = One (\<lambda>x. x = c) # qs))"

lemma search_turn:
  assumes "text_in b p xs s" "locs s = None" "code_at (expbuf s) 0 rs" "fast_for first rs"
  shows "if matching rs xs
    then \<exists>t n. search_loop (Suc k) first b p s = Fine True (t\<lparr>loc1 := Some (b, p)\<rparr>) \<and> scans s t
           \<and> matches rs xs n \<and> loc2 t = Some (b, p + n)
    else \<exists>t. scans s t \<and> search_loop (Suc k) first b p s = (if xs = [] then Fine False t else search_loop k first b (p + 1) t)"
proof -
  from advance_decides [OF assms(3,1,2) refl] obtain t where
    t: "advance b p 0 s = Fine (matching rs xs) t" "scans s t"
      "matching rs xs \<longrightarrow> (\<exists>n. matches rs xs n \<and> loc2 t = Some (b, p + n))" unfolding decides_def by blast
  have z: "cget b p u = 0 \<longleftrightarrow> xs = []" if "scans s u" for u
    using scans_same [OF that, of b p] text_in_hd [OF assms(1)] assms(1) by (auto simp: text_in_def split: list.splits)
  have slow: "ebind (advance b p 0 s) (\<lambda>r s. if r then Fine True (s\<lparr>loc1 := Some (b, p)\<rparr>)
      else if cget b p s = 0 then Fine False s else search_loop k first b (p + 1) s)
    = (if matching rs xs then Fine True (t\<lparr>loc1 := Some (b, p)\<rparr>)
       else if xs = [] then Fine False t else search_loop k first b (p + 1) t)"
    using t(1) z [OF t(2)] by simp
  show ?thesis
  proof (cases "\<exists>c. first = Some c \<and> cget b p s \<noteq> c")
    case False
    then have "search_loop (Suc k) first b p s = (if matching rs xs then Fine True (t\<lparr>loc1 := Some (b, p)\<rparr>)
       else if xs = [] then Fine False t else search_loop k first b (p + 1) t)"
      using slow by (cases first) (simp_all only: search_loop.simps Let_def option.case simp_thms if_True if_False, simp)
    with t show ?thesis by auto
  next
    case True
    then obtain c where c: "first = Some c" "cget b p s \<noteq> c" by blast
    with assms(4) obtain qs where "c \<noteq> 0" "rs = One (\<lambda>x. x = c) # qs" by (auto simp: fast_for_def)
    then have "\<not> matching rs xs" using c text_in_hd [OF assms(1)] by (auto simp: matching_One)
    moreover have "search_loop (Suc k) first b p s = (if xs = [] then Fine False s else search_loop k first b (p + 1) s)"
      using c z [OF scans_refl] by simp
    ultimately show ?thesis using scans_refl [of s] by auto
  qed
qed

declare search_loop.simps [simp del]

lemma search_finds:
  assumes "text_in b p xs s" "locs s = None" "code_at (expbuf s) 0 rs" "fast_for first rs" "length xs < k"
  shows "\<exists>t. scans s t \<and> (case first_match rs xs of
      None \<Rightarrow> search_loop k first b p s = Fine False t
    | Some q \<Rightarrow> search_loop k first b p s = Fine True (t\<lparr>loc1 := Some (b, p + q)\<rparr>)
        \<and> (\<exists>n. matches rs (drop q xs) n \<and> loc2 t = Some (b, p + q + n)))"
  using assms
proof (induction xs arbitrary: k p s)
  case Nil
  then obtain k' where k: "k = Suc k'" by (cases k) auto
  note turn = search_turn [OF Nil(1-4), of k', folded k]
  show ?case
  proof (cases "matching rs []")
    case True
    with turn show ?thesis by auto
  next
    case False
    with turn show ?thesis by auto
  qed
next
  case (Cons x xs)
  then obtain k' where k: "k = Suc k'" "length xs < k'" by (cases k) auto
  note turn = search_turn [OF Cons.prems(1-4), of k', folded k(1)]
  show ?case
  proof (cases "matching rs (x # xs)")
    case True
    with turn show ?thesis by auto
  next
    case False
    with turn obtain t where t: "scans s t" "search_loop k first b p s = search_loop k' first b (p + 1) t" by auto
    have "text_in b (p + 1) xs t" "locs t = None" "code_at (expbuf t) 0 rs"
      using text_in_tl [OF Cons.prems(1)] scans_same [OF t(1)] Cons.prems(2,3) by simp_all
    from Cons.IH [OF this Cons.prems(4) k(2)] obtain u where u: "scans t u" "case first_match rs xs of
        None \<Rightarrow> search_loop k' first b (p + 1) t = Fine False u
      | Some q \<Rightarrow> search_loop k' first b (p + 1) t = Fine True (u\<lparr>loc1 := Some (b, p + 1 + q)\<rparr>)
          \<and> (\<exists>n. matches rs (drop q xs) n \<and> loc2 u = Some (b, p + 1 + q + n))" by blast
    show ?thesis
      by (rule exI [of _ u]) (use u(2) False t scans_trans [OF t(1) u(1)] in \<open>auto split: option.splits simp del: search_loop.simps\<close>)
  qed
qed

text \<open>The fast search is chosen for codes that start with a character.\<close>

lemma code_fast: "code_at e 0 rs \<Longrightarrow> fast_for (if e 0 = CCHR then Some (e 1) else None) rs"
  by (erule code_at.cases) (auto simp: fast_for_def)

lemma line_of_text:
  assumes "line_of s = xs" "length xs < LBSIZE"
  shows "text_in LBUF 0 xs s"
proof -
  have gen: "takeWhile (\<lambda>c. c \<noteq> 0) (map f [0..<n]) = xs \<Longrightarrow> length xs < n \<Longrightarrow>
      0 \<notin> set xs \<and> (\<forall>i < length xs. f i = xs ! i) \<and> f (length xs) = 0" for f :: "nat \<Rightarrow> u8" and n
  proof -
    assume t: "takeWhile (\<lambda>c. c \<noteq> 0) (map f [0..<n]) = xs" and l: "length xs < n"
    have "0 \<notin> set xs" using t set_takeWhileD by fastforce
    moreover have "f i = xs ! i" if "i < length xs" for i
      using that l takeWhile_nth [of i "\<lambda>c. c \<noteq> 0" "map f [0..<n]"] by (simp add: t)
    moreover have "f (length xs) = 0"
      using nth_length_takeWhile [of "\<lambda>c. c \<noteq> 0" "map f [0..<n]"] l by (simp add: t)
    ultimately show ?thesis by blast
  qed
  from gen [OF assms(1) [unfolded line_of_def] assms(2)] assms(2) show ?thesis by (simp add: text_in_def cget_def)
qed

lemma execute_text:
  assumes "tmp_inv s" "line_stored s (tab s a) xs" "a \<noteq> 0" "code_at (expbuf s) 0 rs"
  shows "\<exists>t. execute a s = Fine (if circfl s then matching rs xs else first_match rs xs \<noteq> None) t
    \<and> text_in LBUF 0 xs t \<and> rhsbuf t = rhsbuf s
    \<and> (\<forall>q. (if circfl s then matching rs xs \<and> q = 0 else first_match rs xs = Some q) \<longrightarrow>
         loc1 t = Some (LBUF, q) \<and> (\<exists>n. matches rs (drop q xs) n \<and> loc2 t = Some (LBUF, q + n)))"
proof -
  from getline_reads [OF assms(1,2)] obtain u where u: "getline (tab s a) s = Fine () u" "line_of u = xs" "reads_line s u" by blast
  have len: "length xs < LBSIZE" using assms(2) by (simp add: line_stored_def)
  let ?u = "u\<lparr>locs := None\<rparr>"
  have r: "expbuf ?u = expbuf s" "circfl ?u = circfl s" "rhsbuf ?u = rhsbuf s" using u(3) by (auto simp: reads_line_def)
  have e: "execute a s = match_from LBUF 0 ?u" using assms(3) u(1) by (simp add: execute_def)
  have x: "text_in LBUF 0 xs ?u" using line_of_text [OF u(2) len] by (simp add: text_in_def cget_def)
  have c: "code_at (expbuf ?u) 0 rs" using assms(4) r by simp
  show ?thesis
  proof (cases "circfl s")
    case True
    let ?v = "?u\<lparr>loc1 := Some (LBUF, 0)\<rparr>"
    have v: "text_in LBUF 0 xs ?v" "code_at (expbuf ?v) 0 rs" "locs ?v = None"
      using x c by (simp_all add: text_in_def cget_def)
    from advance_decides [OF v(2,1,3) refl] obtain t where t: "advance LBUF 0 0 ?v = Fine (matching rs xs) t" "scans ?v t"
      "matching rs xs \<longrightarrow> (\<exists>n. matches rs xs n \<and> loc2 t = Some (LBUF, 0 + n))" unfolding decides_def by blast
    have "loc1 t = Some (LBUF, 0)" "text_in LBUF 0 xs t" "rhsbuf t = rhsbuf s"
      using scans_same [OF t(2)] v(1) r(3) by simp_all
    moreover have "execute a s = Fine (matching rs xs) t" using e True r t(1) by (simp add: match_from_def)
    ultimately show ?thesis using t(3) True by (intro exI [of _ t]) auto
  next
    case False
    let ?f = "if expbuf ?u 0 = CCHR then Some (expbuf ?u 1) else None"
    from search_finds [OF x _ c code_fast [OF c], of "LBSIZE - 0"] len obtain t where
      sc: "scans ?u t" and t: "case first_match rs xs of
        None \<Rightarrow> search_loop (LBSIZE - 0) ?f LBUF 0 ?u = Fine False t
      | Some q \<Rightarrow> search_loop (LBSIZE - 0) ?f LBUF 0 ?u = Fine True (t\<lparr>loc1 := Some (LBUF, 0 + q)\<rparr>)
          \<and> (\<exists>n. matches rs (drop q xs) n \<and> loc2 t = Some (LBUF, 0 + q + n))" by auto
    have m: "execute a s = search_loop (LBSIZE - 0) ?f LBUF 0 ?u"
      using e False r by (simp add: match_from_def)
    have f: "text_in LBUF 0 xs t" "rhsbuf t = rhsbuf s" using scans_same [OF sc] x r(3) by simp_all
    show ?thesis
    proof (cases "first_match rs xs")
      case None
      with t m False f show ?thesis by (intro exI [of _ t]) simp
    next
      case (Some q)
      with t m False f show ?thesis
        by (intro exI [of _ "t\<lparr>loc1 := Some (LBUF, q)\<rparr>"]) (simp add: text_in_def cget_def)
    qed
  qed
qed

text \<open>
  \<open>execute\<close> finds what a regular expression means.  For a line that is stored in the temporary file and code
  in \<open>expbuf\<close> that stands for the expression \<open>rs\<close>, it always returns; without \<open>^\<close> it answers true exactly when some
  place of the line matches, with \<open>loc1\<close> at the first such place and \<open>loc2\<close> behind a match there; with \<open>^\<close> it looks at
  the beginning of the line only.
\<close>

lemma execute_finds_leftmost:
  assumes "tmp_inv s" "line_stored s (tab s a) xs" "a \<noteq> 0" "code_at (expbuf s) 0 rs"
  shows "\<exists>t. execute a s = Fine (if circfl s then matching rs xs else first_match rs xs \<noteq> None) t
    \<and> (\<forall>q. (if circfl s then matching rs xs \<and> q = 0 else first_match rs xs = Some q) \<longrightarrow>
         loc1 t = Some (LBUF, q) \<and> (\<exists>n. matches rs (drop q xs) n \<and> loc2 t = Some (LBUF, q + n)))"
  using execute_text [OF assms] by blast

lemma code_example:
  "code_at ((\<lambda>_. 0)(0 := CCHR, 1 := 97, 2 := 3, 3 := 98, 4 := CEOF)) 0 [One (\<lambda>c. c = 97), Star (\<lambda>c. c = 98)]"
proof -
  let ?e = "(\<lambda>_. 0)(0 := CCHR, 1 := 97, 2 := 3, 3 := 98, 4 := CEOF) :: carr"
  have "code_at ?e (0 + 2 + 2) []" by (rule code_at.finish) simp_all
  then have "code_at ?e (0 + 2) [Star (\<lambda>c. c = 98)]" by (intro code_at.char_star) (assumption | simp)+
  then show ?thesis by (intro code_at.char) (assumption | simp)+
qed

text \<open>The line \<open>xab\<close> under \<open>/ab*/\<close>.\<close>

lemma execute_finds_leftmost_witness:
  "\<exists>t. execute 1 ((ed0 [])\<lparr>obuff := (\<lambda>_. 0)(0 := 120, 1 := 97, 2 := 98), oblock := Some 0, tline := 2, dol := 1,
      expbuf := (\<lambda>_. 0)(0 := CCHR, 1 := 97, 2 := 3, 3 := 98, 4 := CEOF)\<rparr>) = Fine True t \<and> loc1 t = Some (LBUF, 1)"
proof -
  let ?e = "(\<lambda>_. 0)(0 := CCHR, 1 := 97, 2 := 3, 3 := 98, 4 := CEOF) :: carr"
  let ?s = "(ed0 [])\<lparr>obuff := (\<lambda>_. 0)(0 := 120, 1 := 97, 2 := 98), oblock := Some 0, tline := 2, dol := 1, expbuf := ?e\<rparr>"
  have "tmp_inv ?s" by (simp add: tmp_inv_def tpos_def ed0_def)
  moreover have "line_stored ?s (tab ?s 1) [120, 97, 98]"
    by (simp add: line_stored_def tpos_def ed0_def tmem_def view_def All_less_Suc2)
  moreover have "code_at (expbuf ?s) 0 [One (\<lambda>c. c = 97), Star (\<lambda>c. c = 98)]"
    using code_example by simp
  moreover have "first_match [One (\<lambda>c. c = 97), Star (\<lambda>c. c = 98)] [120, 97, 98] = Some 1"
    by (simp add: matching_One matching_Star matching_Nil) blast
  moreover have "\<not> circfl ?s" by (simp add: ed0_def)
  ultimately show ?thesis using execute_finds_leftmost [of ?s 1 "[120, 97, 98]" "[One (\<lambda>c. c = 97), Star (\<lambda>c. c = 98)]"]
    by auto
qed

end
