(* ===== verification/EdSub.thy ===== *)
theory EdSub
  imports EdMatch
begin

text \<open>
  Substitution in the editor: \<open>dosub\<close> replaces the matched part of the line by the expansion of the right side.
\<close>

section \<open>Building the new line\<close>

lemma str_len_eq:
  assumes "n < LBSIZE" "a n = 0" "\<forall>i < n. a i \<noteq> 0"
  shows "str_len a = Some n"
proof -
  have "find (\<lambda>i. a i = 0) (xs @ n # ys) = Some n" if "\<forall>i \<in> set xs. a i \<noteq> 0" for xs ys
    using that assms(2) by (induction xs) auto
  then show ?thesis unfolding str_len_def upt_split [OF assms(1)] using assms(3) by simp
qed

text \<open>The rest of the line behind a match, with its NUL, goes behind what is in \<open>genbuf\<close>.\<close>

lemma sub_tail_copies:
  assumes "\<forall>i < n. linebuf s (lp + i) \<noteq> 0" "linebuf s (lp + n) = 0" "sp + n < LBSIZE" "n < k"
  shows "sub_tail k sp lp s = Fine ()
    (s\<lparr>genbuf := (\<lambda>i. if sp \<le> i \<and> i \<le> sp + n then linebuf s (lp + (i - sp)) else genbuf s i)\<rparr>)"
  using assms
proof (induction n arbitrary: k sp lp s)
  case 0
  then obtain k' where "k = Suc k'" by (cases k) auto
  with 0 show ?case by (auto simp: gput_def fun_eq_iff intro!: edst.equality)
next
  case (Suc n)
  then obtain k' where k: "k = Suc k'" "n < k'" by (cases k) auto
  let ?s = "gput sp (linebuf s lp) s"
  have l: "linebuf ?s = linebuf s" by (simp add: gput_def)
  have "linebuf s lp \<noteq> 0" using Suc.prems(1) [rule_format, of 0] by simp
  then have "sub_tail k sp lp s = sub_tail k' (sp + 1) (lp + 1) ?s" using k Suc.prems(3) by simp
  also have "\<dots> = Fine () (?s\<lparr>genbuf := (\<lambda>i. if sp + 1 \<le> i \<and> i \<le> sp + 1 + n then linebuf ?s (lp + 1 + (i - (sp + 1)))
      else genbuf ?s i)\<rparr>)"
    by (rule Suc.IH) (use Suc.prems k(2) l in \<open>auto simp: All_less_Suc2\<close>)
  finally show ?case by (auto simp: gput_def fun_eq_iff Suc_diff_Suc intro!: edst.equality)
qed

text \<open>A digit that stands for a bracket.\<close>

definition group_ref :: "u8 \<Rightarrow> bool" where
  "group_ref c \<longleftrightarrow> c \<ge> 128 \<and> 49 \<le> c AND 127 \<and> c AND 127 < 54"

definition group_no :: "u8 \<Rightarrow> nat" where
  "group_no c = unat (c AND 127) - 49"

text \<open>The right side \<open>cs\<close> for the matched text \<open>m\<close> and the bracketed parts \<open>g\<close>.\<close>

primrec expand :: "u8 list \<Rightarrow> u8 list \<Rightarrow> (nat \<Rightarrow> u8 list) \<Rightarrow> u8 list" where
  "expand [] m g = []"
| "expand (c # cs) m g =
     (if c = 38 then m
      else if group_ref c then g (group_no c)
      else [c AND 127]) @ expand cs m g"

text \<open>\<open>t\<close> is \<open>s\<close> with \<open>ys\<close> at the beginning of \<open>genbuf\<close>.\<close>

definition built :: "edst \<Rightarrow> u8 list \<Rightarrow> edst \<Rightarrow> bool" where
  "built s ys t \<longleftrightarrow> (\<exists>gb. t = s\<lparr>genbuf := gb\<rparr> \<and> (\<forall>i < length ys. gb i = ys ! i))"

lemma built_put: "built s ys t \<Longrightarrow> built s (ys @ [c]) (gput (length ys) c t)"
  by (auto simp: built_def gput_def nth_append less_Suc_eq)

lemma built_fields:
  "built s ys t \<Longrightarrow> linebuf t = linebuf s \<and> loc1 t = loc1 s \<and> loc2 t = loc2 s \<and> braslist t = braslist s \<and> braelist t = braelist s"
  by (auto simp: built_def)

lemma place_loop_builds:
  "built s ys t \<Longrightarrow> length ys + n < LBSIZE \<Longrightarrow>
    \<exists>u. place_loop n (length ys) LBUF l t = Fine (length ys + n) u \<and> built s (ys @ map (linebuf s) [l..<l + n]) u"
proof (induction n arbitrary: ys t l)
  case (Suc n)
  have c: "cget LBUF l t = linebuf s l" using built_fields [OF Suc.prems(1)] by (simp add: cget_def)
  from Suc.IH [OF built_put [OF Suc.prems(1), of "linebuf s l"], of "l + 1"] Suc.prems(2) obtain u where
    u: "place_loop n (length ys + 1) LBUF (l + 1) (gput (length ys) (linebuf s l) t) = Fine (length ys + Suc n) u"
      "built s ((ys @ [linebuf s l]) @ map (linebuf s) [l + 1..<l + 1 + n]) u" by auto
  have "[l..<l + Suc n] = l # [l + 1..<l + 1 + n]" by (simp add: upt_conv_Cons)
  with u c Suc.prems(2) show ?case by (intro exI [of _ u]) (simp add: Let_def)
qed simp

text \<open>What a pair of pointers delimits, and what the brackets matched that \<open>cs\<close> refers to.\<close>

definition spans :: "cptr option \<Rightarrow> cptr option \<Rightarrow> u8 list \<Rightarrow> u8 list \<Rightarrow> bool" where
  "spans p1 p2 xs zs \<longleftrightarrow>
     p1 = None \<and> p2 = None \<and> zs = [] \<or>
     (\<exists>a b. p1 = Some (LBUF, a) \<and> p2 = Some (LBUF, b) \<and> b \<le> length xs \<and> zs = take (b - a) (drop a xs))"

definition groups :: "edst \<Rightarrow> u8 list \<Rightarrow> u8 list \<Rightarrow> (nat \<Rightarrow> u8 list) \<Rightarrow> bool" where
  "groups s cs xs g \<longleftrightarrow>
     (\<forall>c \<in> set cs. group_ref c \<longrightarrow> spans (braslist s (group_no c)) (braelist s (group_no c)) xs (g (group_no c)))"

lemma text_part:
  assumes "text_in LBUF 0 xs s" "b \<le> length xs"
  shows "map (linebuf s) [a..<a + (b - a)] = take (b - a) (drop a xs)"
  using assms by (intro nth_equalityI) (auto simp: text_in_def cget_def)

lemma place_builds:
  assumes "built s ys t" "text_in LBUF 0 xs s" "length ys + length zs < LBSIZE"
    "spans p1 p2 xs zs"
  shows "\<exists>u. ed_place (length ys) p1 p2 t = Fine (length ys + length zs) u \<and> built s (ys @ zs) u"
proof (cases "p1 = None")
  case True
  with assms show ?thesis by (auto simp: ed_place_def spans_def)
next
  case False
  with assms(4) obtain a b where p: "p1 = Some (LBUF, a)" "p2 = Some (LBUF, b)" "b \<le> length xs"
    "zs = take (b - a) (drop a xs)"
    by (auto simp: spans_def)
  then have "length zs = b - a" by simp
  then show ?thesis
    using place_loop_builds [OF assms(1), of "b - a" a] assms(3) p text_part [OF assms(2) p(3), of a]
    by (simp add: ed_place_def)
qed

lemma sub_rhs_builds:
  assumes "built s ys t" "text_in LBUF 0 xs s" "loc1 s = Some (LBUF, p)" "loc2 s = Some (LBUF, q)" "q \<le> length xs"
    "groups s cs xs g" "m = take (q - p) (drop p xs)" "length ys + length (expand cs m g) < LBSIZE"
  shows "\<exists>u. sub_rhs cs (length ys) t = Fine (length ys + length (expand cs m g)) u \<and> built s (ys @ expand cs m g) u"
  using assms(1,6,8)
proof (induction cs arbitrary: ys t)
  case (Cons c cs)
  note f = built_fields [OF Cons.prems(1)]
  have gs: "groups s cs xs g" using Cons.prems(2) by (simp add: groups_def)
  show ?case
  proof (cases "c = 38 \<or> group_ref c")
    case False
    from Cons.IH [OF built_put [OF Cons.prems(1), of "c AND 127"] gs] Cons.prems(3) False show ?thesis
      by (auto simp: Let_def group_ref_def)
  next
    case True
    define p1 p2 zs where d: "p1 = (if c = 38 then loc1 t else braslist t (group_no c))"
      "p2 = (if c = 38 then loc2 t else braelist t (group_no c))"
      "zs = (if c = 38 then m else g (group_no c))"
    have e: "expand (c # cs) m g = zs @ expand cs m g" using True by (auto simp: d)
    have s: "sub_rhs (c # cs) (length ys) t = ebind (ed_place (length ys) p1 p2 t) (\<lambda>sp s. sub_rhs cs sp s)"
      using True by (auto simp: d Let_def group_ref_def group_no_def)
    have "spans p1 p2 xs zs"
      using assms(3-5,7) Cons.prems(2) True f by (cases "c = 38") (auto simp: d groups_def spans_def)
    from place_builds [OF Cons.prems(1) assms(2) _ this] Cons.prems(3) e obtain u where
      u: "ed_place (length ys) p1 p2 t = Fine (length (ys @ zs)) u" "built s (ys @ zs) u" by auto
    from Cons.IH [OF u(2) gs] Cons.prems(3) obtain v where
      v: "sub_rhs cs (length (ys @ zs)) u = Fine (length (ys @ zs) + length (expand cs m g)) v"
        "built s ((ys @ zs) @ expand cs m g) v" unfolding e by auto
    show ?thesis unfolding s u(1) ebind.simps e using v by (intro exI [of _ v]) (simp add: add.assoc)
  qed
qed simp

section \<open>One substitution\<close>

lemma built_text: "built s ys t \<Longrightarrow> i < length ys \<Longrightarrow> genbuf t i = ys ! i"
  by (auto simp: built_def)

definition subbed :: "edst \<Rightarrow> edst \<Rightarrow> bool" where
  "subbed s t \<longleftrightarrow> (\<exists>lb gb l. t = s\<lparr>linebuf := lb, genbuf := gb, loc2 := l\<rparr>)"

text \<open>
  \<open>dosub\<close> replaces the matched characters \<open>p\<close> to \<open>q - 1\<close> of the line.  The new line is in \<open>linebuf\<close> and in \<open>genbuf\<close>, and
  \<open>loc2\<close> is in the latter, where the rest of the line starts.
\<close>

lemma dosub_replaces:
  assumes "text_in LBUF 0 xs s" "loc1 s = Some (LBUF, p)" "loc2 s = Some (LBUF, q)" "p \<le> q" "q \<le> length xs"
    "groups s (rhsbuf s) xs g" "new = take p xs @ expand (rhsbuf s) (take (q - p) (drop p xs)) g" "length (new @ drop q xs) < LBSIZE"
    "0 \<notin> set new"
  shows "\<exists>t. dosub s = Fine () t \<and> text_in LBUF 0 (new @ drop q xs) t \<and> text_in GBUF 0 (new @ drop q xs) t
    \<and> loc2 t = Some (GBUF, length new) \<and> subbed s t"
proof -
  let ?n = "length xs - q"
  let ?t0 = "s\<lparr>genbuf := (\<lambda>i. if i < p then linebuf s i else genbuf s i)\<rparr>"
  have lb: "linebuf s i = xs ! i" if "i < length xs" for i using assms(1) that by (simp add: text_in_def cget_def)
  have lp: "length (take p xs) = p" using assms(4,5) by simp
  have "built s (take p xs) ?t0"
    unfolding built_def by (rule exI, rule conjI, rule refl) (use lb assms(4,5) in auto)
  from sub_rhs_builds [OF this assms(1-3,5,6) refl] assms(7,8) lp obtain u where
    u: "sub_rhs (rhsbuf s) p ?t0 = Fine (length new) u" "built s new u" by auto
  let ?u = "u\<lparr>loc2 := Some (GBUF, length new)\<rparr>"
  let ?gb = "\<lambda>i. if length new \<le> i \<and> i \<le> length new + ?n then linebuf ?u (q + (i - length new)) else genbuf ?u i"
  have lu: "linebuf ?u = linebuf s" using built_fields [OF u(2)] by simp
  have nz: "0 \<notin> set xs" "linebuf s (length xs) = 0" "length xs < LBSIZE" using assms(1) by (simp_all add: text_in_def cget_def)
  have tail: "sub_tail (LBSIZE - q) (length new) q ?u = Fine () (?u\<lparr>genbuf := ?gb\<rparr>)"
  proof (rule sub_tail_copies)
    show "\<forall>i < ?n. linebuf ?u (q + i) \<noteq> 0"
    proof (intro allI impI)
      fix i assume "i < ?n"
      then have "q + i < length xs" by simp
      then show "linebuf ?u (q + i) \<noteq> 0" using lb [of "q + i"] nz(1) nth_mem [of "q + i" xs] by (metis lu)
    qed
    show "linebuf ?u (q + ?n) = 0" using nz(2) assms(5) lu by simp
    show "length new + ?n < LBSIZE" using assms(8) by simp
    show "?n < LBSIZE - q" using nz(3) assms(5) by simp
  qed
  let ?xs = "new @ drop q xs" and ?v = "?u\<lparr>genbuf := ?gb\<rparr>"
  have gb: "?gb i = ?xs ! i" if "i < length ?xs" for i
  proof (cases "i < length new")
    case True
    then show ?thesis using built_text [OF u(2), of i] by (simp add: nth_append)
  next
    case False
    then have "q + (i - length new) < length xs" "i \<le> length new + ?n" using that by auto
    then show ?thesis using lb [of "q + (i - length new)"] False assms(5) lu by (simp add: nth_append)
  qed
  have nx: "0 \<notin> set ?xs" using assms(9) nz(1) by (auto dest: in_set_dropD)
  have "length ?xs = length new + ?n" by simp
  then have ge: "?gb (length ?xs) = 0" using nz(2) assms(5) lu by (simp only: le_add1 le_refl add_diff_cancel_left' if_True simp_thms le_add_diff_inverse)
  have len: "str_len (genbuf ?v) = Some (length ?xs)"
  proof (rule str_len_eq)
    show "length ?xs < LBSIZE" by (rule assms(8))
    show "genbuf ?v (length ?xs) = 0" using ge by simp
    show "\<forall>i < length ?xs. genbuf ?v i \<noteq> 0"
    proof (intro allI impI)
      fix i assume i: "i < length ?xs"
      have "?gb i \<noteq> 0" unfolding gb [OF i] using nx nth_mem [OF i] by metis
      then show "genbuf ?v i \<noteq> 0" by simp
    qed
  qed
  let ?t = "?v\<lparr>linebuf := (\<lambda>k. if k \<le> length ?xs then genbuf ?v k else linebuf ?v k)\<rparr>"
  have "gen_to_line ?v = Fine () ?t" by (simp only: gen_to_line_def len option.case)
  then have "dosub s = Fine () ?t" using assms(2,3) u(1) tail by (simp add: dosub_def)
  moreover have "text_in LBUF 0 ?xs ?t" "text_in GBUF 0 ?xs ?t"
    using gb ge nx assms(8) unfolding text_in_def cget_def by (simp_all del: length_append)
  moreover have "subbed s ?t"
    unfolding subbed_def
    by (intro exI [of _ "linebuf ?t"] exI [of _ "genbuf ?t"] exI [of _ "loc2 ?t"]) (use u(2) in \<open>auto simp: built_def\<close>)
  ultimately show ?thesis by (intro exI [of _ ?t]) simp
qed

section \<open>Going on behind a substitution\<close>

lemma search_loop_loc1: "search_loop k first b p s = Fine True t \<Longrightarrow> \<exists>q. loc1 t = Some (b, q)"
proof (induction k arbitrary: p s)
  case (Suc k)
  then show ?case
    by (auto simp: search_loop.simps Let_def ebind_Fine split: option.splits if_splits)
qed (simp add: search_loop.simps)

lemma gen_to_line_same: "gen_to_line s = Fine () t \<Longrightarrow> loc2 t = loc2 s \<and> circfl t = circfl s"
  by (auto simp: gen_to_line_def split: option.splits)

lemma sub_tail_loc2: "sub_tail k sp lp s = Fine () t \<Longrightarrow> loc2 t = loc2 s"
  by (induction k sp lp s rule: sub_tail.induct) (auto simp: Let_def gput_def err_def split: if_splits)

lemma dosub_loc2: "dosub s = Fine () t \<Longrightarrow> \<exists>p. loc2 t = Some (GBUF, p)"
  by (fastforce simp: dosub_def ebind_Fine split: option.splits prod.splits cbuf.splits
      dest: gen_to_line_same sub_tail_loc2)

lemma execute_on_loc1:
  assumes "execute_on s = Fine True t" "loc2 s = Some (b, p)"
  shows "\<exists>q. loc1 t = Some (b, q)"
proof -
  obtain u where u: "gen_to_line s = Fine () u" "\<not> circfl s"
    "match_from b p (u\<lparr>locs := Some (b, p)\<rparr>) = Fine True t"
    using assms gen_to_line_same by (fastforce simp: execute_on_def ebind_Fine split: if_splits)
  then show ?thesis using gen_to_line_same [OF u(1)] search_loop_loc1
    by (fastforce simp: match_from_def split: if_splits)
qed

text \<open>
  C32: \<open>s\<close> with the suffix \<open>g\<close> is broken by the second match of a line.  After a substitution \<open>loc2\<close> points into
  \<open>genbuf\<close> (the port replaced the distance of the two buffers by the difference of their sizes, 0), so the search goes
  on there, and when it finds another match the next \<open>dosub\<close> compares pointers into two arrays.  Only when there is no
  other match, or nothing of the line is left, is the line that of the first substitution.
\<close>

theorem second_match_wild:
  assumes "dosub s = Fine () t"
  shows "\<exists>p. loc2 t = Some (GBUF, p) \<and>
    gsub_loop (Suc k) t =
      (if genbuf t p = 0 then Fine () t
       else case execute_on t of
         Fine found u \<Rightarrow> if found then Wild else Fine () u
       | Jump u \<Rightarrow> Jump u | Gone u \<Rightarrow> Gone u | Wild \<Rightarrow> Wild | Long \<Rightarrow> Long)"
proof -
  from dosub_loc2 [OF assms] obtain p where p: "loc2 t = Some (GBUF, p)" by blast
  have "dosub u = Wild" if "execute_on t = Fine True u" for u
    using execute_on_loc1 [OF that p] by (auto simp: dosub_def)
  with p show ?thesis by (intro exI [of _ p]) (auto simp: cget_def split: eres.splits)
qed

text \<open>\<open>s/a/b/g\<close> on the line \<open>aa\<close>, behind its first match.\<close>

definition aa :: edst where
  "aa = (ed0 [])\<lparr>linebuf := (\<lambda>_. 0)(0 := 97, 1 := 97), loc1 := Some (LBUF, 0), loc2 := Some (LBUF, 1),
     rhsbuf := [98], expbuf := (\<lambda>_. 0)(0 := CCHR, 1 := 97, 2 := CEOF)\<rparr>"

lemma aa_text: "text_in LBUF 0 [97, 97] aa"
  by (simp add: text_in_def cget_def aa_def All_less_Suc2)

lemma aa_groups: "groups aa (rhsbuf aa) [97, 97] (\<lambda>_. [])"
  by (simp add: groups_def spans_def aa_def ed0_def)

lemma aa_fields: "loc1 aa = Some (LBUF, 0)" "loc2 aa = Some (LBUF, 1)" "rhsbuf aa = [98]" "circfl aa = False"
  "expbuf aa = (\<lambda>_. 0)(0 := CCHR, 1 := 97, 2 := CEOF)"
  by (simp_all add: aa_def ed0_def)

lemma second_match_wild_witness:
  "\<exists>t. dosub aa = Fine () t \<and> gsub_loop LBSIZE t = Wild"
proof -
  obtain t where t: "dosub aa = Fine () t" "text_in GBUF 0 [98, 97] t" "loc2 t = Some (GBUF, 1)" "subbed aa t"
    using dosub_replaces [OF aa_text aa_fields(1,2) _ _ aa_groups refl] by (auto simp: aa_fields group_ref_def)
  have f: "circfl t = False" "expbuf t = expbuf aa" using t(4) by (auto simp: subbed_def aa_fields)
  have g: "genbuf t 0 = 98" "genbuf t 1 = 97" "genbuf t 2 = 0"
    using t(2) by (simp_all add: text_in_def cget_def All_less_Suc2 numeral_2_eq_2)
  have len: "str_len (genbuf t) = Some 2" by (rule str_len_eq) (use g in \<open>auto simp: less_2_cases_iff\<close>)
  obtain u where u: "gen_to_line t = Fine () u" "genbuf u = genbuf t" "expbuf u = expbuf t" "loc2 u = loc2 t" "circfl u = circfl t"
    by (simp add: gen_to_line_def len)
  let ?v = "u\<lparr>locs := Some (GBUF, 1)\<rparr>"
  have v: "expbuf ?v 0 = CCHR" "expbuf ?v 1 = 97" "expbuf ?v 2 = CEOF" "genbuf ?v 1 = 97"
    using u(2,3) f(2) g by (simp_all add: aa_fields)
  have "advance GBUF 1 0 ?v = advance GBUF 2 2 ?v"
    using v by (subst advance.simps) (simp add: Let_def cget_def numeral_2_eq_2)
  also have "\<dots> = Fine True (?v\<lparr>loc2 := Some (GBUF, 2)\<rparr>)"
    using v by (subst advance.simps) (simp add: Let_def)
  finally have a: "advance GBUF 1 0 ?v = Fine True (?v\<lparr>loc2 := Some (GBUF, 2)\<rparr>)" .
  have "search_loop (Suc 510) (Some 97) GBUF 1 ?v = Fine True (?v\<lparr>loc2 := Some (GBUF, 2), loc1 := Some (GBUF, 1)\<rparr>)"
    using a v by (subst search_loop.simps) (simp add: cget_def)
  then have "execute_on t = Fine True (?v\<lparr>loc2 := Some (GBUF, 2), loc1 := Some (GBUF, 1)\<rparr>)"
    using u f t(3) v by (simp add: execute_on_def match_from_def)
  then show ?thesis using second_match_wild [OF t(1), of 511] t(1,3) g by auto
qed

section \<open>A substitution on a line of the buffer\<close>

lemma matches_le: "matches rs xs n \<Longrightarrow> n \<le> length xs"
proof (induction rs arbitrary: xs n)
  case (Cons r rs)
  show ?case
  proof (cases r)
    case (One P)
    then obtain x ys where "xs = x # ys" "0 < n" "matches rs ys (n - 1)" using Cons.prems by auto
    then show ?thesis using Cons.IH by fastforce
  next
    case (Star P)
    then obtain k where "k \<le> n" "k \<le> length xs" "matches rs (drop k xs) (n - k)" using Cons.prems by auto
    then show ?thesis using Cons.IH by fastforce
  next
    case Eol
    then show ?thesis using Cons by fastforce
  next
    case Bracket
    then show ?thesis using Cons by fastforce
  qed
qed simp

lemma expand_no_nul:
  assumes "\<forall>c \<in> set cs. \<not> group_ref c \<and> c AND 127 \<noteq> 0" "0 \<notin> set m"
  shows "0 \<notin> set (expand cs m g)"
  using assms by (induction cs) auto



end
