(* ===== verification/EdCompile.thy ===== *)
theory EdCompile
  imports EdMatch
begin

text \<open>
  The compiler of regular expressions in the editor: what is typed between two delimiters becomes code that stands
  for the expression that was meant, so that the facts on matching apply to it.  The items and their text are a
  description of the input beside the code; \<open>compile\<close> and \<open>execute\<close> themselves are those of the model.
\<close>

section \<open>Expressions as they are typed\<close>

text \<open>A character, \<open>.\<close> and a class, each with or without a star, and the two brackets.\<close>

datatype pitem = PChar u8 bool | PAny bool | PClass bool "u8 list" bool | POpen | PClose

text \<open>A character that means something else, or the delimiter, is typed behind a backslash.\<close>

definition special :: "u8 \<Rightarrow> u8 \<Rightarrow> bool" where
  "special d c \<longleftrightarrow> c = d \<or> c \<in> {92, 46, 42, 36, 91, 94}"

definition starred :: "bool \<Rightarrow> u8 list" where
  "starred st = (if st then [42] else [])"

fun ptext :: "u8 \<Rightarrow> pitem \<Rightarrow> u8 list" where
  "ptext d (PChar c st) = (if special d c then [92, c] else [c]) @ starred st"
| "ptext d (PAny st) = [46] @ starred st"
| "ptext d (PClass neg cs st) = [91] @ (if neg then [94] else []) @ cs @ [93] @ starred st"
| "ptext d POpen = [92, 40]"
| "ptext d PClose = [92, 41]"

text \<open>The code of the items with the open brackets \<open>br\<close> and \<open>n\<close> brackets so far.\<close>

definition opcode :: "u8 \<Rightarrow> bool \<Rightarrow> u8" where
  "opcode c st = (if st then c OR STAR else c)"

fun pcode :: "nat list \<Rightarrow> nat \<Rightarrow> pitem list \<Rightarrow> u8 list" where
  "pcode br n [] = []"
| "pcode br n (PChar c st # ps) = [opcode CCHR st, c] @ pcode br n ps"
| "pcode br n (PAny st # ps) = [opcode CDOT st] @ pcode br n ps"
| "pcode br n (PClass neg cs st # ps) =
     [opcode (if neg then NCCL else CCL) st, of_nat (length cs + 1)] @ cs @ pcode br n ps"
| "pcode br n (POpen # ps) = [CBRA, of_nat n] @ pcode (n # br) (n + 1) ps"
| "pcode br n (PClose # ps) = [CKET, of_nat (hd br)] @ pcode (tl br) n ps"

text \<open>What can be typed.\<close>

definition typable :: "u8 \<Rightarrow> bool" where
  "typable c \<longleftrightarrow> 0 < c \<and> c < 128 \<and> c \<noteq> 10"

fun class_typable :: "bool \<Rightarrow> u8 list \<Rightarrow> bool" where
  "class_typable neg [] = False"
| "class_typable neg (c # cs) \<longleftrightarrow>
     typable c \<and> (neg \<or> c \<noteq> 94) \<and> (\<forall>x \<in> set cs. typable x \<and> x \<noteq> 93)"

fun pok :: "nat list \<Rightarrow> nat \<Rightarrow> pitem list \<Rightarrow> bool" where
  "pok br n [] \<longleftrightarrow> True"
| "pok br n (PChar c st # ps) \<longleftrightarrow> typable c \<and> pok br n ps"
| "pok br n (PAny st # ps) \<longleftrightarrow> pok br n ps"
| "pok br n (PClass neg cs st # ps) \<longleftrightarrow> class_typable neg cs \<and> pok br n ps"
| "pok br n (POpen # ps) \<longleftrightarrow> n < NBRA \<and> pok (n # br) (n + 1) ps"
| "pok br n (PClose # ps) \<longleftrightarrow> br \<noteq> [] \<and> pok (tl br) n ps"

definition delim_ok :: "u8 \<Rightarrow> bool" where
  "delim_ok d \<longleftrightarrow> typable d \<and> d \<notin> {92, 46, 42, 36, 91, 94, 40, 41}"

text \<open>What is meant.\<close>

definition item :: "(u8 \<Rightarrow> bool) \<Rightarrow> bool \<Rightarrow> ritem" where
  "item P st = (if st then Star P else One P)"

fun meaning :: "pitem \<Rightarrow> ritem" where
  "meaning (PChar c st) = item (\<lambda>x. x = c) st"
| "meaning (PAny st) = item (\<lambda>x. x \<noteq> 0) st"
| "meaning (PClass neg cs st) = item (\<lambda>x. x \<noteq> 0 \<and> (x \<in> set cs) \<noteq> neg) st"
| "meaning POpen = Bracket"
| "meaning PClose = Bracket"

section \<open>Code that was emitted\<close>

definition bytes_at :: "carr \<Rightarrow> nat \<Rightarrow> u8 list \<Rightarrow> bool" where
  "bytes_at e ep bs \<longleftrightarrow> (\<forall>i < length bs. e (ep + i) = bs ! i)"

lemma bytes_at_Nil [simp]: "bytes_at e ep []"
  by (simp add: bytes_at_def)

lemma bytes_at_Cons: "bytes_at e ep (b # bs) \<longleftrightarrow> e ep = b \<and> bytes_at e (ep + 1) bs"
  by (auto simp: bytes_at_def All_less_Suc2)

lemma bytes_at_append: "bytes_at e ep (as @ bs) \<longleftrightarrow> bytes_at e ep as \<and> bytes_at e (ep + length as) bs"
  by (induction as arbitrary: ep) (auto simp: bytes_at_Cons)

lemma bytes_at_set: "bytes_at e ep bs \<Longrightarrow> set (map e [ep..<ep + length bs]) = set bs"
proof (induction bs arbitrary: ep)
  case (Cons b bs)
  have "[ep..<ep + length (b # bs)] = ep # [ep + 1..<ep + 1 + length bs]"
    by (simp add: upt_conv_Cons del: upt_Suc)
  with Cons show ?case by (simp only: bytes_at_Cons list.map list.set)
qed simp

lemma class_test_eq:
  assumes "e ep = of_nat (length cs + 1)" "bytes_at e (ep + 1) cs" "length cs < 127"
  shows "class_test e ep af = (\<lambda>x. x \<noteq> 0 \<and> (x \<in> set cs) = af)" "class_ok e ep"
    "unat (e ep) = length cs + 1"
proof -
  have "unat (of_nat (length cs + 1) :: u8) = length cs + 1" by (simp only: unat_of_nat) (use assms(3) in simp)
  with assms(1) have u: "unat (e ep) = length cs + 1" by simp
  then show "unat (e ep) = length cs + 1" "class_ok e ep" using assms(3) by (simp_all add: class_ok_def)
  have "ep + unat (e ep) = ep + 1 + length cs" using u by simp
  then show "class_test e ep af = (\<lambda>x. x \<noteq> 0 \<and> (x \<in> set cs) = af)"
    using bytes_at_set [OF assms(2)] by (auto simp: class_test_def cclass_def fun_eq_iff)
qed

text \<open>An end of the line may follow.\<close>

lemma code_stands:
  assumes "bytes_at e ep (pcode br n ps @ (if eol then [CDOL] else []) @ [CEOF])"
    "pok br n ps" "\<forall>b \<in> set br. b < NBRA" "n \<le> NBRA" "ep + length (pcode br n ps) < ESIZE"
  shows "code_at e ep (map meaning ps @ (if eol then [Eol] else []))"
  using assms
proof (induction br n ps arbitrary: ep rule: pcode.induct)
  case (1 br n)
  then show ?case by (cases eol) (auto simp: bytes_at_Cons intro!: code_at.finish code_at.eol)
next
  case (2 br n c st ps)
  then show ?case
    by (cases st) (auto simp: bytes_at_Cons opcode_def item_def typable_def intro!: code_at.char code_at.char_star)
next
  case (3 br n st ps)
  then show ?case
    by (cases st) (auto simp: bytes_at_Cons opcode_def item_def intro!: code_at.any code_at.any_star)
next
  case (4 br n neg cs st ps)
  let ?e = "ep + 1"
  have len: "length cs < 127" "ep < ESIZE" using "4.prems"(5) by simp_all
  have b: "e ep = opcode (if neg then NCCL else CCL) st" "e ?e = of_nat (length cs + 1)" "bytes_at e (?e + 1) cs"
    "bytes_at e (?e + 1 + length cs) (pcode br n ps @ (if eol then [CDOL] else []) @ [CEOF])"
    using "4.prems"(1) by (simp_all add: bytes_at_Cons bytes_at_append)
  note c = class_test_eq [OF b(2,3) len(1)]
  have p: "ep + 1 + unat (e (ep + 1)) = ?e + 1 + length cs" using c(3) by simp
  have rest: "code_at e (ep + 1 + unat (e (ep + 1))) (map meaning ps @ (if eol then [Eol] else []))"
    unfolding p by (rule "4.IH" [OF b(4)]) (use "4.prems" in simp_all)
  have t: "class_test e (ep + 1) (\<not> neg) = (\<lambda>x. x \<noteq> 0 \<and> (x \<in> set cs) \<noteq> neg)" unfolding c(1) by auto
  show ?case
  proof (cases st)
    case True
    have "code_at e ep (Star (class_test e (ep + 1) (\<not> neg)) # map meaning ps @ (if eol then [Eol] else []))"
      by (rule code_at.cls_star) (use b(1) True len c(2) rest in \<open>auto simp: opcode_def\<close>)
    with True t show ?thesis by (simp add: item_def)
  next
    case False
    have "code_at e ep (One (class_test e (ep + 1) (\<not> neg)) # map meaning ps @ (if eol then [Eol] else []))"
      by (rule code_at.cls) (use b(1) False len c(2) rest in \<open>auto simp: opcode_def\<close>)
    with False t show ?thesis by (simp add: item_def)
  qed
next
  case (5 br n ps)
  have u: "unat (of_nat n :: u8) = n" by (simp only: unat_of_nat) (use "5.prems"(4) in simp)
  have "code_at e (ep + 2) (map meaning ps @ (if eol then [Eol] else []))"
    by (rule "5.IH") (use "5.prems" in \<open>auto simp: bytes_at_Cons\<close>)
  then show ?case using "5.prems" u by (auto simp: bytes_at_Cons intro!: code_at.bracket)
next
  case (6 br n ps)
  have "hd br < NBRA" using "6.prems"(2,3) by simp
  then have u: "unat (of_nat (hd br) :: u8) = hd br" by (simp only: unat_of_nat) simp
  have "code_at e (ep + 2) (map meaning ps @ (if eol then [Eol] else []))"
    by (rule "6.IH") (use "6.prems" in \<open>auto simp: bytes_at_Cons dest: list.set_sel(2)\<close>)
  then show ?case using "6.prems" u \<open>hd br < NBRA\<close> by (auto simp: bytes_at_Cons intro!: code_at.bracket)
qed

section \<open>Reading what is typed\<close>

text \<open>The input is \<open>cs\<close>; its first character may be in \<open>peekc\<close>.\<close>

definition input_is :: "edst \<Rightarrow> u8 list \<Rightarrow> bool" where
  "input_is s cs \<longleftrightarrow>
     globp s = None \<and>
     (peekc s = 0 \<and> e_in s = cs \<or> (\<exists>c ds. cs = c # ds \<and> c \<noteq> 0 \<and> peekc s = uint c \<and> e_in s = ds))"

lemma input_typed: "input_is s cs \<Longrightarrow> typed s = length cs"
  by (auto simp: input_is_def typed_def uint_0_iff)

lemma typable_and: "typable c \<Longrightarrow> c AND 127 = c"
proof -
  assume "typable c"
  then have "c < 2 ^ 7" by (simp add: typable_def)
  then have "c AND mask 7 = c" by (rule less_mask_eq)
  then show ?thesis by (simp add: mask_eq_exp_minus_1)
qed

lemma getchar_input:
  assumes "input_is s (c # cs)" "typable c"
  obtains t where "getchar s = (uint c, t)" "input_is t cs" "peekc t = 0" "expbuf t = expbuf s" "circfl t = circfl s"
proof -
  have "uint c \<noteq> 0" using assms(2) by (auto simp: typable_def uint_0_iff)
  then show thesis
    using assms typable_and [OF assms(2)]
    by (intro that [of "snd (getchar s)"]) (auto simp: getchar_def input_is_def)
qed

lemma input_eput [simp]: "input_is (eput ep c s) cs = input_is s cs"
  by (simp add: input_is_def eput_def)

lemma input_peek: "input_is s cs \<Longrightarrow> peekc s = 0 \<Longrightarrow> c \<noteq> 0 \<Longrightarrow> input_is (s\<lparr>peekc := uint c\<rparr>) (c # cs)"
  by (auto simp: input_is_def uint_0_iff)

lemma expbuf_eput [simp]: "expbuf (eput ep c s) = (expbuf s)(ep := c)" "circfl (eput ep c s) = circfl s"
  by (simp_all add: eput_def)

lemma ch_uint [simp]: "ch (uint c) = c"
  by (simp add: ch_def)

lemma uint_eq_iff_u8: "uint (c :: u8) = uint d \<longleftrightarrow> c = d"
  by (simp add: word_uint_eq_iff)

text \<open>How a character compares with the ones \<open>compile\<close> asks for.\<close>

lemma uint_is:
  "uint (c :: u8) = 10 \<longleftrightarrow> c = 10" "uint c = 93 \<longleftrightarrow> c = 93" "uint c = 42 \<longleftrightarrow> c = 42" "uint c = 92 \<longleftrightarrow> c = 92"
  "uint c = 46 \<longleftrightarrow> c = 46" "uint c = 36 \<longleftrightarrow> c = 36" "uint c = 91 \<longleftrightarrow> c = 91" "uint c = 94 \<longleftrightarrow> c = 94"
  "uint c = 40 \<longleftrightarrow> c = 40" "uint c = 41 \<longleftrightarrow> c = 41"
  by (simp_all add: word_uint_eq_iff)

lemma class_loop_reads:
  assumes "input_is s (cs @ 93 # rest)" "typable c" "\<forall>x \<in> set cs. typable x \<and> x \<noteq> 93" "ep + 1 + length cs < ESIZE"
    "length cs < k"
  shows "\<exists>t. class_loop k (uint c) ep cnt s = Fine (ep + 1 + length cs, cnt + 1 + length cs) t \<and> input_is t rest
    \<and> peekc t = 0 \<and> circfl t = circfl s \<and> bytes_at (expbuf t) ep (c # cs)
    \<and> (\<forall>i. i < ep \<longrightarrow> expbuf t i = expbuf s i)"
  using assms
proof (induction cs arbitrary: k c ep cnt s)
  case Nil
  then obtain k' where k: "k = Suc k'" by (cases k) auto
  have "typable 93" by (simp add: typable_def)
  moreover have "input_is (eput ep c s) (93 # rest)" using Nil by simp
  ultimately obtain t where t: "getchar (eput ep c s) = (uint (93 :: u8), t)" "input_is t rest" "peekc t = 0"
    "expbuf t = expbuf (eput ep c s)" "circfl t = circfl (eput ep c s)" using getchar_input by blast
  have "uint c \<noteq> 10" using Nil(2) by (simp add: typable_def uint_is)
  then have "class_loop k (uint c) ep cnt s = Fine (ep + 1, cnt + 1) t" using t(1) k Nil(4) by simp
  with t show ?case by (intro exI [of _ t]) (simp add: bytes_at_Cons)
next
  case (Cons x xs)
  then obtain k' where k: "k = Suc k'" "length xs < k'" by (cases k) auto
  have x: "typable x" "x \<noteq> 93" using Cons.prems(3) by auto
  have "input_is (eput ep c s) (x # xs @ 93 # rest)" using Cons.prems(1) by simp
  then obtain u where u: "getchar (eput ep c s) = (uint x, u)" "input_is u (xs @ 93 # rest)" "peekc u = 0"
    "expbuf u = expbuf (eput ep c s)" "circfl u = circfl (eput ep c s)" using getchar_input [OF _ x(1)] by blast
  have "uint c \<noteq> 10" "uint x \<noteq> 93" using Cons.prems(2) x by (simp_all add: typable_def uint_is)
  then have step: "class_loop k (uint c) ep cnt s = class_loop k' (uint x) (ep + 1) (cnt + 1) u"
    using u(1) k Cons.prems(4) by simp
  from Cons.IH [OF u(2) x(1) _ _ k(2), of "ep + 1" "cnt + 1"] Cons.prems(3,4) obtain t where
    t: "class_loop k' (uint x) (ep + 1) (cnt + 1) u = Fine (ep + 1 + 1 + length xs, cnt + 1 + 1 + length xs) t"
      "input_is t rest" "peekc t = 0" "circfl t = circfl u" "bytes_at (expbuf t) (ep + 1) (x # xs)"
      "\<forall>i. i < ep + 1 \<longrightarrow> expbuf t i = expbuf u i" by auto
  have "expbuf t ep = c" using t(6) u(4) by simp
  with t u step show ?case by (intro exI [of _ t]) (simp add: bytes_at_Cons)
qed

section \<open>One item\<close>

text \<open>The item without its star, and the brackets behind it.\<close>

fun unstar :: "pitem \<Rightarrow> pitem" where
  "unstar (PChar c st) = PChar c False"
| "unstar (PAny st) = PAny False"
| "unstar (PClass neg cs st) = PClass neg cs False"
| "unstar p = p"

fun has_star :: "pitem \<Rightarrow> bool" where
  "has_star (PChar c st) = st"
| "has_star (PAny st) = st"
| "has_star (PClass neg cs st) = st"
| "has_star p = False"

fun open_after :: "nat list \<Rightarrow> nat \<Rightarrow> pitem \<Rightarrow> nat list \<times> nat" where
  "open_after br n POpen = (n # br, n + 1)"
| "open_after br n PClose = (tl br, n)"
| "open_after br n p = (br, n)"

lemma ptext_star: "ptext d p = ptext d (unstar p) @ starred (has_star p)"
  by (cases p) (simp_all add: starred_def)

lemma pcode_Cons: "pcode br n (p # ps) = pcode br n [p] @ (case open_after br n p of (br, n) \<Rightarrow> pcode br n ps)"
  by (cases p) simp_all

lemma pok_Cons: "pok br n (p # ps) \<longleftrightarrow> pok br n [unstar p] \<and> (case open_after br n p of (br, n) \<Rightarrow> pok br n ps)"
  by (cases p) simp_all

lemma pcode_star:
  "pcode br n [p] = (if has_star p then (hd (pcode br n [unstar p]) OR STAR) # tl (pcode br n [unstar p]) else pcode br n [unstar p])"
  by (cases p) (simp_all add: opcode_def)

lemma open_after_unstar: "open_after br n (unstar p) = open_after br n p"
  by (cases p) simp_all

text \<open>The turn of the loop that reads an item.\<close>

definition emits :: "edst \<Rightarrow> nat \<Rightarrow> u8 list \<Rightarrow> u8 list \<Rightarrow> edst \<Rightarrow> bool" where
  "emits s ep code rest t \<longleftrightarrow>
     input_is t rest \<and> circfl t = circfl s \<and> bytes_at (expbuf t) ep code \<and> (\<forall>i < ep. expbuf t i = expbuf s i)"

lemma item_turn_char:
  assumes "input_is s (ptext d (PChar c False) @ rest)" "delim_ok d" "typable c" "ep + 2 < ESIZE"
  shows "\<exists>t. compile_loop (Suc k) (uint d) ep le br n s = compile_loop k (uint d) (ep + 2) (Some ep) br n t
    \<and> emits s ep [CCHR, c] rest t"
proof (cases "special d c")
  case True
  have bs: "typable 92" by (simp add: typable_def)
  have d: "d \<noteq> 92" "d \<noteq> 40" "d \<noteq> 41" using assms(2) by (auto simp: delim_ok_def)
  have c: "c \<noteq> 40" "c \<noteq> 41" "c \<noteq> 10" using True d assms(3) by (auto simp: special_def typable_def)
  have "input_is s (92 # c # rest)" using assms(1) True by (simp add: starred_def)
  from getchar_input [OF this bs] obtain u where u: "getchar s = (uint (92 :: u8), u)" "input_is u (c # rest)"
    "expbuf u = expbuf s" "circfl u = circfl s" by metis
  from getchar_input [OF u(2) assms(3)] obtain v where v: "getchar u = (uint c, v)" "input_is v rest"
    "expbuf v = expbuf u" "circfl v = circfl u" by metis
  have "92 \<noteq> uint d" using d(1) by (metis uint_is(4))
  then have "compile_loop (Suc k) (uint d) ep le br n s
      = compile_loop k (uint d) (ep + 2) (Some ep) br n (eput (ep + 1) c (eput ep CCHR v))"
    using u(1) v(1) assms(4) c by (simp add: uint_is Let_def)
  then show ?thesis using u v
    by (intro exI [of _ "eput (ep + 1) c (eput ep CCHR v)"]) (simp add: emits_def bytes_at_Cons)
next
  case False
  then have c: "c \<noteq> d" "c \<noteq> 92" "c \<noteq> 46" "c \<noteq> 42" "c \<noteq> 36" "c \<noteq> 91" "c \<noteq> 10"
    using assms(3) by (auto simp: special_def typable_def)
  have "input_is s (c # rest)" using assms(1) False by (simp add: starred_def)
  from getchar_input [OF this assms(3)] obtain v where v: "getchar s = (uint c, v)" "input_is v rest"
    "expbuf v = expbuf s" "circfl v = circfl s" by metis
  have "compile_loop (Suc k) (uint d) ep le br n s
      = compile_loop k (uint d) (ep + 2) (Some ep) br n (eput (ep + 1) c (eput ep CCHR v))"
    using v(1) assms(4) c by (simp add: uint_is uint_eq_iff_u8 Let_def)
  then show ?thesis using v
    by (intro exI [of _ "eput (ep + 1) c (eput ep CCHR v)"]) (simp add: emits_def bytes_at_Cons)
qed

lemma item_turn_any:
  assumes "input_is s (46 # rest)" "delim_ok d" "ep + 1 < ESIZE"
  shows "\<exists>t. compile_loop (Suc k) (uint d) ep le br n s = compile_loop k (uint d) (ep + 1) (Some ep) br n t
    \<and> emits s ep [CDOT] rest t"
proof -
  have "typable 46" by (simp add: typable_def)
  from getchar_input [OF assms(1) this] obtain v where v: "getchar s = (uint (46 :: u8), v)" "input_is v rest"
    "expbuf v = expbuf s" "circfl v = circfl s" by metis
  have "46 \<noteq> uint d" using assms(2) uint_is(5) [of d] by (auto simp: delim_ok_def)
  then have "compile_loop (Suc k) (uint d) ep le br n s
      = compile_loop k (uint d) (ep + 1) (Some ep) br n (eput ep CDOT v)"
    using v(1) assms(3) by (simp add: Let_def)
  then show ?thesis using v by (intro exI [of _ "eput ep CDOT v"]) (simp add: emits_def bytes_at_Cons)
qed

lemma item_turn_bracket:
  assumes "input_is s (92 # b # rest)" "b = 40 \<and> n < NBRA \<or> b = 41 \<and> br \<noteq> []" "delim_ok d" "ep + 2 < ESIZE"
  shows "\<exists>t. compile_loop (Suc k) (uint d) ep le br n s
      = (if b = 40 then compile_loop k (uint d) (ep + 2) (Some ep) (n # br) (n + 1) t
         else compile_loop k (uint d) (ep + 2) (Some ep) (tl br) n t)
    \<and> emits s ep (if b = 40 then [CBRA, of_nat n] else [CKET, of_nat (hd br)]) rest t"
proof -
  have ty: "typable 92" "typable b" using assms(2) by (auto simp: typable_def)
  from getchar_input [OF assms(1) ty(1)] obtain u where u: "getchar s = (uint (92 :: u8), u)" "input_is u (b # rest)"
    "expbuf u = expbuf s" "circfl u = circfl s" by metis
  from getchar_input [OF u(2) ty(2)] obtain v where v: "getchar u = (uint b, v)" "input_is v rest"
    "expbuf v = expbuf u" "circfl v = circfl u" by metis
  have d: "92 \<noteq> uint d" using assms(3) uint_is(4) [of d] by (auto simp: delim_ok_def)
  show ?thesis
  proof (cases "b = 40")
    case True
    then have "compile_loop (Suc k) (uint d) ep le br n s
        = compile_loop k (uint d) (ep + 2) (Some ep) (n # br) (n + 1) (eput (ep + 1) (of_nat n) (eput ep CBRA v))"
      using u(1) v(1) d assms(2,4) by (simp add: Let_def)
    then show ?thesis using u v True
      by (intro exI [of _ "eput (ep + 1) (of_nat n) (eput ep CBRA v)"]) (simp add: emits_def bytes_at_Cons)
  next
    case False
    then obtain h tb where "br = h # tb" "b = 41" using assms(2) by (cases br) auto
    then have "compile_loop (Suc k) (uint d) ep le br n s
        = compile_loop k (uint d) (ep + 2) (Some ep) (tl br) n (eput (ep + 1) (of_nat (hd br)) (eput ep CKET v))"
      using u(1) v(1) d assms(4) by (simp add: Let_def)
    then show ?thesis using u v False
      by (intro exI [of _ "eput (ep + 1) (of_nat (hd br)) (eput ep CKET v)"]) (simp add: emits_def bytes_at_Cons)
  qed
qed

lemma item_turn_class:
  assumes "input_is s (ptext d (PClass neg cs False) @ rest)" "class_typable neg cs" "delim_ok d"
    "ep + 2 + length cs < ESIZE"
  shows "\<exists>t. compile_loop (Suc k) (uint d) ep le br n s
      = compile_loop k (uint d) (ep + 2 + length cs) (Some ep) br n t
    \<and> emits s ep ([if neg then NCCL else CCL, of_nat (length cs + 1)] @ cs) rest t"
proof -
  obtain c xs where cs: "cs = c # xs" "typable c" "neg \<or> c \<noteq> 94" "\<forall>x \<in> set xs. typable x \<and> x \<noteq> 93"
    using assms(2) by (cases cs) auto
  have ty: "typable 91" "typable 94" by (simp_all add: typable_def)
  have d: "91 \<noteq> uint d" using assms(3) uint_is(7) [of d] by (auto simp: delim_ok_def)
  have "input_is s (91 # (if neg then [94] else []) @ c # xs @ 93 # rest)"
    using assms(1) cs(1) by (simp add: starred_def)
  from getchar_input [OF this ty(1)] obtain u where u: "getchar s = (uint (91 :: u8), u)"
    "input_is u ((if neg then [94] else []) @ c # xs @ 93 # rest)" "expbuf u = expbuf s" "circfl u = circfl s" by metis
  let ?u = "eput (ep + 1) 0 (eput ep CCL u)"
  have iu: "input_is ?u ((if neg then [94] else []) @ c # xs @ 93 # rest)" using u(2) by simp
  obtain v where v: "(case getchar ?u of (c, s) \<Rightarrow> if c = 94 then (case getchar s of (c, s) \<Rightarrow> (c, eput ep NCCL s)) else (c, s))
      = (uint c, v)" "input_is v (xs @ 93 # rest)" "expbuf v ep = (if neg then NCCL else CCL)" "circfl v = circfl s"
    "\<forall>i < ep. expbuf v i = expbuf s i"
  proof (cases neg)
    case True
    with iu have "input_is ?u (94 # c # xs @ 93 # rest)" by simp
    from getchar_input [OF this ty(2)] obtain w where w: "getchar ?u = (uint (94 :: u8), w)"
      "input_is w (c # xs @ 93 # rest)" "expbuf w = expbuf ?u" "circfl w = circfl ?u" by metis
    from getchar_input [OF w(2) cs(2)] obtain x where x: "getchar w = (uint c, x)"
      "input_is x (xs @ 93 # rest)" "expbuf x = expbuf w" "circfl x = circfl w" by metis
    show thesis by (rule that [of "eput ep NCCL x"]) (use True w x u(3,4) in simp_all)
  next
    case False
    with iu have "input_is ?u (c # xs @ 93 # rest)" by simp
    from getchar_input [OF this cs(2)] obtain w where w: "getchar ?u = (uint c, w)"
      "input_is w (xs @ 93 # rest)" "expbuf w = expbuf ?u" "circfl w = circfl ?u" by metis
    show thesis by (rule that [of w]) (use False cs(3) w u(3,4) in \<open>simp_all add: uint_is\<close>)
  qed
  have len: "ep + 2 + 1 + length xs < ESIZE" "length xs < ESIZE" using assms(4) cs(1) by simp_all
  from class_loop_reads [OF v(2) cs(2,4) len, of 1] obtain w where
    w: "class_loop ESIZE (uint c) (ep + 2) 1 v = Fine (ep + 2 + 1 + length xs, 1 + 1 + length xs) w" "input_is w rest"
      "circfl w = circfl v" "bytes_at (expbuf w) (ep + 2) (c # xs)" "\<forall>i < ep + 2. expbuf w i = expbuf v i" by blast
  let ?t = "eput (ep + 1) (of_nat (1 + 1 + length xs)) w"
  have "compile_loop (Suc k) (uint d) ep le br n s
      = (case (case getchar ?u of (c, s) \<Rightarrow> if c = 94 then (case getchar s of (c, s) \<Rightarrow> (c, eput ep NCCL s)) else (c, s)) of
          (c, s) \<Rightarrow> ebind (class_loop ESIZE c (ep + 2) 1 s) (\<lambda>(ep', cnt) s.
             compile_loop k (uint d) ep' (Some ep) br n (eput (ep + 1) (of_nat cnt) s)))"
    using u(1) d assms(4) by (simp add: Let_def split: prod.split)
  also have "\<dots> = compile_loop k (uint d) (ep + 2 + length cs) (Some ep) br n ?t"
    unfolding v(1) using w(1) cs(1) by simp
  finally have step: "compile_loop (Suc k) (uint d) ep le br n s
    = compile_loop k (uint d) (ep + 2 + length cs) (Some ep) br n ?t" .
  have "bytes_at (expbuf ?t) (ep + 2) (c # xs)" using w(4) by (auto simp: bytes_at_def)
  then have "emits s ep ([if neg then NCCL else CCL, of_nat (length cs + 1)] @ cs) rest ?t"
    using w(2,3,5) v(3,4,5) cs(1) by (simp add: emits_def bytes_at_Cons)
  with step show ?thesis by blast
qed

text \<open>Any item without its star; the code is never empty.\<close>

lemma item_turn:
  assumes "input_is s (ptext d (unstar p) @ rest)" "pok br n [unstar p]" "delim_ok d"
    "ep + length (pcode br n [unstar p]) < ESIZE"
  shows "\<exists>t. compile_loop (Suc k) (uint d) ep le br n s
      = (case open_after br n p of (br', n') \<Rightarrow>
           compile_loop k (uint d) (ep + length (pcode br n [unstar p])) (Some ep) br' n' t)
    \<and> emits s ep (pcode br n [unstar p]) rest t"
proof (cases p)
  case (PChar c st)
  then show ?thesis using item_turn_char [of s d c rest ep k le br n] assms by (auto simp: opcode_def)
next
  case (PAny st)
  then show ?thesis using item_turn_any [of s rest d ep k le br n] assms by (auto simp: opcode_def starred_def)
next
  case (PClass neg cs st)
  then show ?thesis using item_turn_class [of s d neg cs rest ep k le br n] assms by (auto simp: opcode_def add.assoc)
next
  case POpen
  then show ?thesis using item_turn_bracket [of s 40 rest n br d ep k le] assms by simp
next
  case PClose
  then show ?thesis using item_turn_bracket [of s 41 rest n br d ep k le] assms by simp
qed

section \<open>The whole expression\<close>

lemma star_turn:
  assumes "input_is s (42 # rest)" "delim_ok d" "ep < ESIZE" "l < ep" "expbuf s l \<noteq> CBRA" "expbuf s l \<noteq> CKET"
  shows "\<exists>t. compile_loop (Suc k) (uint d) ep (Some l) br n s = compile_loop k (uint d) ep (Some l) br n t
    \<and> input_is t rest \<and> circfl t = circfl s \<and> expbuf t = (expbuf s)(l := expbuf s l OR STAR)"
proof -
  have "typable 42" by (simp add: typable_def)
  from getchar_input [OF assms(1) this] obtain v where v: "getchar s = (uint (42 :: u8), v)" "input_is v rest"
    "expbuf v = expbuf s" "circfl v = circfl s" by metis
  have "42 \<noteq> uint d" using assms(2) uint_is(3) [of d] by (auto simp: delim_ok_def)
  then have "compile_loop (Suc k) (uint d) ep (Some l) br n s
      = compile_loop k (uint d) ep (Some l) br n (eput l (expbuf s l OR STAR) v)"
    using v assms(3,5,6) by (simp add: Let_def)
  then show ?thesis using v by (intro exI [of _ "eput l (expbuf s l OR STAR) v"]) simp
qed

lemma emits_trans:
  assumes "emits s ep as r t" "emits t (ep + length as) bs r' u"
  shows "emits s ep (as @ bs) r' u"
proof -
  have "bytes_at (expbuf u) ep as" using assms by (simp add: emits_def bytes_at_def)
  with assms show ?thesis by (simp add: emits_def bytes_at_append)
qed

lemma unstar_code:
  "pcode br n [unstar p] \<noteq> []"
  "has_star p \<Longrightarrow> hd (pcode br n [unstar p]) \<notin> {CBRA, CKET}"
  by (cases p; simp add: opcode_def)+

lemma emits_star:
  assumes "emits s ep (c # cs) r t" "expbuf u = (expbuf t)(ep := c OR STAR)" "input_is u r'" "circfl u = circfl t"
  shows "emits s ep ((c OR STAR) # cs) r' u"
  using assms by (auto simp: emits_def bytes_at_Cons bytes_at_def)

text \<open>An item takes a turn, and its star another: no more than it has characters.\<close>

lemma item_turns:
  assumes "input_is s (ptext d p @ rest)" "pok br n [unstar p]" "delim_ok d"
    "ep + length (pcode br n [p]) < ESIZE" "length (ptext d p) < k"
  obtains t j where "k \<le> j + length (ptext d p)" "compile_loop k (uint d) ep le br n s
      = (case open_after br n p of (br', n') \<Rightarrow> compile_loop j (uint d) (ep + length (pcode br n [p])) (Some ep) br' n' t)"
    "emits s ep (pcode br n [p]) rest t"
proof -
  let ?un = "pcode br n [unstar p]"
  have len: "length (pcode br n [p]) = length ?un"
    using pcode_star [of br n p] unstar_code(1) [of br n p] by (cases ?un) auto
  obtain j where k: "k = Suc j" using assms(5) by (cases k) auto
  have tx: "length (ptext d p) = length (ptext d (unstar p)) + length (starred (has_star p))"
    by (metis ptext_star length_append)
  have one: "0 < length (ptext d (unstar p))" by (cases p) simp_all
  have i: "input_is s (ptext d (unstar p) @ starred (has_star p) @ rest)" using assms(1) ptext_star [of d p] by simp
  from item_turn [OF i assms(2,3), of ep j le] assms(4) obtain t where
    t: "compile_loop (Suc j) (uint d) ep le br n s
      = (case open_after br n p of (br', n') \<Rightarrow> compile_loop j (uint d) (ep + length ?un) (Some ep) br' n' t)"
      "emits s ep ?un (starred (has_star p) @ rest) t" unfolding len by blast
  show thesis
  proof (cases "has_star p")
    case False
    show thesis
      by (rule that [of j t]) (use False t one k pcode_star [of br n p] len in
        \<open>auto simp: tx starred_def Suc_le_eq simp del: compile_loop.simps split: prod.split\<close>)
  next
    case True
    obtain m where j: "j = Suc m" using True assms(5) k one by (cases j) (simp_all add: tx starred_def)
    obtain c cs where c: "?un = c # cs" using unstar_code(1) [of br n p] by (cases ?un) auto
    have o: "open_after br n p = (br, n)" using True by (cases p) simp_all
    have it: "input_is t (42 # rest)" using t(2) True by (simp add: emits_def starred_def)
    have e: "expbuf t ep = c" using t(2) c by (simp add: emits_def bytes_at_Cons)
    have sp: "c \<noteq> CBRA" "c \<noteq> CKET" using unstar_code(2) [OF True, of br n] c by simp_all
    have ep: "ep + length ?un < ESIZE" "ep < ep + length ?un" using assms(4) len c by simp_all
    from star_turn [OF it assms(3) ep, of m br n] e sp obtain u where
      u: "compile_loop (Suc m) (uint d) (ep + length ?un) (Some ep) br n t
          = compile_loop m (uint d) (ep + length ?un) (Some ep) br n u"
        "input_is u rest" "circfl u = circfl t" "expbuf u = (expbuf t)(ep := c OR STAR)" by auto
    have pc: "pcode br n [p] = (c OR STAR) # cs" using pcode_star [of br n p] True c by simp
    have "emits s ep (pcode br n [p]) rest u"
      unfolding pc by (rule emits_star [OF t(2) [unfolded c] u(4,2,3)])
    then show thesis using that [of m u] t(1) u(1) o k j len one True
      by (simp add: tx starred_def Suc_le_eq del: compile_loop.simps)
  qed
qed

definition etext :: "u8 \<Rightarrow> pitem list \<Rightarrow> bool \<Rightarrow> u8 list" where
  "etext d ps eol = concat (map (ptext d) ps) @ (if eol then [36] else [])"

definition ecode :: "nat list \<Rightarrow> nat \<Rightarrow> pitem list \<Rightarrow> bool \<Rightarrow> u8 list" where
  "ecode br n ps eol = pcode br n ps @ (if eol then [CDOL] else []) @ [CEOF]"

lemma end_turn:
  assumes "input_is s (d # rest)" "delim_ok d" "ep < ESIZE"
  shows "\<exists>t. compile_loop (Suc k) (uint d) ep le br n s = Fine () t \<and> emits s ep [CEOF] rest t"
proof -
  have "typable d" using assms(2) by (simp add: delim_ok_def)
  from getchar_input [OF assms(1) this] obtain v where v: "getchar s = (uint d, v)" "input_is v rest"
    "expbuf v = expbuf s" "circfl v = circfl s" by metis
  then show ?thesis using assms(3) by (intro exI [of _ "eput ep CEOF v"]) (simp add: emits_def bytes_at_Cons)
qed

text \<open>A \<open>$\<close> is the end of the line only in front of the delimiter, which is read and put back.\<close>

lemma eol_turn:
  assumes "input_is s (36 # d # rest)" "delim_ok d" "ep < ESIZE"
  shows "\<exists>t. compile_loop (Suc k) (uint d) ep le br n s = compile_loop k (uint d) (ep + 1) (Some ep) br n t
    \<and> emits s ep [CDOL] (d # rest) t"
proof -
  have ty: "typable 36" "typable d" using assms(2) by (simp_all add: delim_ok_def typable_def)
  have d: "36 \<noteq> uint d" "d \<noteq> 0" using assms(2) uint_is(6) [of d] by (auto simp: delim_ok_def typable_def)
  from getchar_input [OF assms(1) ty(1)] obtain u where u: "getchar s = (uint (36 :: u8), u)" "input_is u (d # rest)"
    "expbuf u = expbuf s" "circfl u = circfl s" by metis
  from getchar_input [OF u(2) ty(2)] obtain v where v: "getchar u = (uint d, v)" "input_is v rest" "peekc v = 0"
    "expbuf v = expbuf u" "circfl v = circfl u" by metis
  let ?t = "eput ep CDOL (v\<lparr>peekc := uint d\<rparr>)"
  have "compile_loop (Suc k) (uint d) ep le br n s = compile_loop k (uint d) (ep + 1) (Some ep) br n ?t"
    using u(1) v(1) d(1) assms(3) by (simp add: Let_def)
  moreover have "input_is ?t (d # rest)" using input_peek [OF v(2,3) d(2)] by simp
  ultimately show ?thesis using u v by (intro exI [of _ ?t]) (simp add: emits_def bytes_at_Cons)
qed

lemma compile_items:
  assumes "input_is s (etext d ps eol @ d # rest)" "delim_ok d" "pok br n ps"
    "ep + length (pcode br n ps) + (if eol then 1 else 0) < ESIZE" "length (etext d ps eol) < k"
  shows "\<exists>t. compile_loop k (uint d) ep le br n s = Fine () t \<and> emits s ep (ecode br n ps eol) rest t"
  using assms
proof (induction ps arbitrary: br n ep le s k)
  case Nil
  then obtain j where k: "k = Suc j" by (cases k) auto
  show ?case
  proof (cases eol)
    case False
    with Nil k show ?thesis using end_turn [of s d rest ep j le br n] by (simp add: etext_def ecode_def)
  next
    case True
    obtain m where j: "j = Suc m" using Nil(5) k True by (cases j) (simp_all add: etext_def)
    from eol_turn [of s d rest ep j le br n] Nil True obtain t where
      t: "compile_loop (Suc j) (uint d) ep le br n s = compile_loop j (uint d) (ep + 1) (Some ep) br n t"
        "emits s ep [CDOL] (d # rest) t" by (auto simp: etext_def)
    have "input_is t (d # rest)" using t(2) by (simp add: emits_def)
    from end_turn [OF this Nil(2), of "ep + 1" m "Some ep" br n] Nil(4) True obtain u where
      u: "compile_loop (Suc m) (uint d) (ep + 1) (Some ep) br n t = Fine () u" "emits t (ep + 1) [CEOF] rest u" by auto
    have "emits s ep ([CDOL] @ [CEOF]) rest u" by (rule emits_trans [OF t(2)]) (use u(2) in simp)
    then show ?thesis using t(1) u(1) k j True by (simp add: ecode_def)
  qed
next
  case (Cons p ps)
  obtain br' n' where o: "open_after br n p = (br', n')" by (cases "open_after br n p")
  have pc: "pcode br n (p # ps) = pcode br n [p] @ pcode br' n' ps" using pcode_Cons [of br n p ps] o by simp
  have po: "pok br n [unstar p]" "pok br' n' ps" using Cons.prems(3) pok_Cons [of br n p ps] o by simp_all
  have tx: "etext d (p # ps) eol = ptext d p @ etext d ps eol" by (simp add: etext_def)
  have i: "input_is s (ptext d p @ etext d ps eol @ d # rest)" using Cons.prems(1) tx by simp
  have room: "ep + length (pcode br n [p]) < ESIZE" "length (ptext d p) < k"
    using Cons.prems(4,5) pc tx by (simp_all split: if_splits)
  obtain t j where
    t: "k \<le> j + length (ptext d p)" "compile_loop k (uint d) ep le br n s
      = compile_loop j (uint d) (ep + length (pcode br n [p])) (Some ep) br' n' t"
      "emits s ep (pcode br n [p]) (etext d ps eol @ d # rest) t"
    by (rule item_turns [OF i po(1) Cons.prems(2) room, where le = le]) (simp add: o)
  have it: "input_is t (etext d ps eol @ d # rest)" using t(3) by (simp add: emits_def)
  have "ep + length (pcode br n [p]) + length (pcode br' n' ps) + (if eol then 1 else 0) < ESIZE"
    "length (etext d ps eol) < j" using Cons.prems(4,5) t(1) pc tx by simp_all
  from Cons.IH [OF it Cons.prems(2) po(2) this, of "Some ep"] obtain u where
    u: "compile_loop j (uint d) (ep + length (pcode br n [p])) (Some ep) br' n' t = Fine () u"
      "emits t (ep + length (pcode br n [p])) (ecode br' n' ps eol) rest u" by blast
  have "emits s ep (pcode br n [p] @ ecode br' n' ps eol) rest u" by (rule emits_trans [OF t(3) u(2)])
  then show ?case using t(2) u(1) pc by (simp add: ecode_def)
qed

section \<open>What the compiler leaves alone\<close>

definition core :: "edst \<Rightarrow> edst" where
  "core s = s\<lparr>e_in := [], peekc := 0, lastc := 0, globp := None, expbuf := (\<lambda>_. 0), circfl := False\<rparr>"

lemma core_simps [simp]:
  "core (eput ep c s) = core s" "core (s\<lparr>peekc := p\<rparr>) = core s" "core (s\<lparr>circfl := f\<rparr>) = core s"
  by (simp_all add: core_def eput_def)

lemma core_getchar: "getchar s = (c, t) \<Longrightarrow> core t = core s"
  by (auto simp: getchar_def core_def split: if_splits option.splits list.splits)

definition ends_at :: "edst \<Rightarrow> 'a eres \<Rightarrow> bool" where
  "ends_at c r \<longleftrightarrow> (\<forall>x t. r = Fine x t \<longrightarrow> core t = c)"

lemma ends_at_simps [simp]:
  "ends_at c (Fine x t) \<longleftrightarrow> core t = c" "ends_at c (cerror s)" "ends_at c (err s)" "ends_at c Wild" "ends_at c Long"
  "ends_at c (Jump s)" "ends_at c (Gone s)"
  by (simp_all add: ends_at_def cerror_def err_def)

lemma ends_at_getchar: "(\<And>x u. core u = core s \<Longrightarrow> ends_at c (f x u)) \<Longrightarrow> ends_at c (case getchar s of (x, u) \<Rightarrow> f x u)"
  by (cases "getchar s") (simp add: core_getchar)

lemma case_getchar_twice:
  "(case (case getchar s of (x, u) \<Rightarrow> (x, g u)) of (x, u) \<Rightarrow> f x u) = (case getchar s of (x, u) \<Rightarrow> f x (g u))"
  by (cases "getchar s") simp

lemma ends_at_ebind: "ends_at c r \<Longrightarrow> (\<And>x u. core u = c \<Longrightarrow> ends_at c (f x u)) \<Longrightarrow> ends_at c (ebind r f)"
  by (cases r) simp_all

lemma ends_at_class_loop: "core s = a \<Longrightarrow> ends_at a (class_loop k c ep cnt s)"
proof (induction k arbitrary: a c ep cnt s)
  case (Suc k)
  have "ends_at a (case getchar (eput ep (ch c) s) of (c, s) \<Rightarrow>
      if c = 93 then Fine (ep + 1, cnt + 1) s else class_loop k c (ep + 1) (cnt + 1) s)"
    by (rule ends_at_getchar) (simp add: Suc)
  then show ?case by (simp add: Let_def)
qed simp

lemma ends_at_compile_loop: "core s = a \<Longrightarrow> ends_at a (compile_loop k eof ep le br n s)"
proof (induction k arbitrary: a ep le br n s)
  case (Suc k)
  then show ?case
    by (auto simp: Let_def case_getchar_twice intro!: ends_at_getchar ends_at_ebind ends_at_class_loop Suc.IH split: option.split list.split)
qed simp

text \<open>The temporary file and the table of lines are among what stays.\<close>

lemma core_store:
  assumes "core t = core s"
  shows "tmp_inv t = tmp_inv s" "tab t = tab s" "line_stored t tn xs = line_stored s tn xs"
proof -
  have "tmp_inv (core s) = tmp_inv s" "tab (core s) = tab s" "line_stored (core s) tn xs = line_stored s tn xs" for s
    by (simp_all add: core_def tmp_inv_def line_stored_def tmem_def view_def cong: option.case_cong)
  with assms show "tmp_inv t = tmp_inv s" "tab t = tab s" "line_stored t tn xs = line_stored s tn xs" by metis+
qed

section \<open>The whole compiler\<close>

text \<open>The first character is looked at and put back.\<close>

lemma etext_first:
  assumes "etext d ps eol @ d # rest = c # cs" "pok br n ps" "delim_ok d"
  shows "typable c" "c \<noteq> 42" "c \<noteq> 94" "eol \<or> ps \<noteq> [] \<Longrightarrow> c \<noteq> d"
proof -
  have d: "typable d" "d \<noteq> 42" "d \<noteq> 94" "d \<noteq> 92" "d \<noteq> 46" "d \<noteq> 91" "d \<noteq> 36" using assms(3) by (auto simp: delim_ok_def)
  have "typable c \<and> c \<noteq> 42 \<and> c \<noteq> 94 \<and> (eol \<or> ps \<noteq> [] \<longrightarrow> c \<noteq> d)"
  proof (cases ps)
    case Nil
    with assms(1) d show ?thesis by (auto simp: etext_def typable_def split: if_splits)
  next
    case (Cons p qs)
    with assms(1) have "ptext d p @ etext d qs eol @ d # rest = c # cs" by (simp add: etext_def)
    moreover have "pok br n [unstar p]" using assms(2) Cons by (simp add: pok_Cons [of br n p qs])
    ultimately show ?thesis using d by (cases p) (auto simp: special_def typable_def split: if_splits)
  qed
  then show "typable c" "c \<noteq> 42" "c \<noteq> 94" "eol \<or> ps \<noteq> [] \<Longrightarrow> c \<noteq> d" by blast+
qed

lemma compile_from_first:
  assumes "input_is u cs" "peekc u = 0" "etext d ps eol @ d # rest = c # cs" "delim_ok d" "pok [] 0 ps"
    "length (pcode [] 0 ps) + (if eol then 1 else 0) < ESIZE"
  shows "\<exists>t. compile_loop (typed (u\<lparr>peekc := uint c\<rparr>) + ESIZE + 1) (uint d) 0 None [] 0 (u\<lparr>peekc := uint c\<rparr>) = Fine () t
    \<and> input_is t rest \<and> circfl t = circfl u \<and> core t = core u
    \<and> code_at (expbuf t) 0 (map meaning ps @ (if eol then [Eol] else []))"
proof -
  let ?u = "u\<lparr>peekc := uint c\<rparr>"
  have c: "c \<noteq> 0" using etext_first(1) [OF assms(3,5,4)] by (auto simp: typable_def)
  have i: "input_is ?u (etext d ps eol @ d # rest)" using input_peek [OF assms(1,2) c] assms(3) by simp
  have k: "length (etext d ps eol) < typed ?u + ESIZE + 1" using input_typed [OF i] by simp
  from compile_items [OF i assms(4,5) _ k, of 0 None] assms(6) obtain t where
    t: "compile_loop (typed ?u + ESIZE + 1) (uint d) 0 None [] 0 ?u = Fine () t" "emits ?u 0 (ecode [] 0 ps eol) rest t"
    by auto
  have "core t = core ?u" using ends_at_compile_loop [OF refl, of ?u "typed ?u + ESIZE + 1" "uint d" 0 None "[]" 0] t(1)
    by (simp add: ends_at_def)
  moreover have "code_at (expbuf t) 0 (map meaning ps @ (if eol then [Eol] else []))"
    by (rule code_stands [of _ _ "[]" 0]) (use t(2) assms(5,6) in \<open>simp_all add: emits_def ecode_def\<close>)
  ultimately show ?thesis using t by (intro exI [of _ t]) (simp add: emits_def)
qed

lemma compile_code:
  assumes "input_is s ((if circ then [94] else []) @ etext d ps eol @ d # rest)" "delim_ok d" "pok [] 0 ps"
    "circ \<or> eol \<or> ps \<noteq> []" "length (pcode [] 0 ps) + (if eol then 1 else 0) < ESIZE"
  shows "\<exists>t. compile (uint d) s = Fine () t \<and> input_is t rest \<and> circfl t = circ \<and> core t = core s
    \<and> code_at (expbuf t) 0 (map meaning ps @ (if eol then [Eol] else []))"
proof -
  obtain c cs where c: "etext d ps eol @ d # rest = c # cs" by (cases "etext d ps eol @ d # rest") auto
  note f = etext_first [OF c assms(3,2)]
  have u: "uint c \<noteq> 42" "uint c \<noteq> 94" using f(2,3) by (simp_all add: uint_is)
  show ?thesis
  proof (cases circ)
    case False
    have "input_is s (c # cs)" using assms(1) c False by simp
    from getchar_input [OF this f(1)] obtain v where v: "getchar s = (uint c, v)" "input_is v cs" "peekc v = 0" by metis
    let ?v = "v\<lparr>circfl := False\<rparr>"
    have "input_is ?v cs" "peekc ?v = 0" using v(2,3) by (simp_all add: input_is_def)
    from compile_from_first [OF this c assms(2,3,5)] obtain t where
      t: "compile_loop (typed (?v\<lparr>peekc := uint c\<rparr>) + ESIZE + 1) (uint d) 0 None [] 0 (?v\<lparr>peekc := uint c\<rparr>) = Fine () t"
        "input_is t rest" "circfl t = circfl ?v" "core t = core ?v"
        "code_at (expbuf t) 0 (map meaning ps @ (if eol then [Eol] else []))" by blast
    have "uint c \<noteq> uint d" using f(4) assms(4) False by (simp add: uint_eq_iff_u8)
    then have "compile (uint d) s = Fine () t" using v(1) u t(1) by (simp add: compile_def Let_def)
    then show ?thesis using t(2,3,4,5) False core_getchar [OF v(1)] by (intro exI [of _ t]) simp
  next
    case True
    have ty: "typable 94" by (simp add: typable_def)
    have "input_is s (94 # c # cs)" using assms(1) c True by simp
    from getchar_input [OF this ty] obtain w where w: "getchar s = (uint (94 :: u8), w)" "input_is w (c # cs)" by metis
    let ?w = "w\<lparr>circfl := True\<rparr>"
    have "input_is ?w (c # cs)" using w(2) by (simp add: input_is_def)
    from getchar_input [OF this f(1)] obtain v where
      v: "getchar ?w = (uint c, v)" "input_is v cs" "peekc v = 0" "circfl v = circfl ?w" by metis
    from compile_from_first [OF v(2,3) c assms(2,3,5)] obtain t where
      t: "compile_loop (typed (v\<lparr>peekc := uint c\<rparr>) + ESIZE + 1) (uint d) 0 None [] 0 (v\<lparr>peekc := uint c\<rparr>) = Fine () t"
        "input_is t rest" "circfl t = circfl v" "core t = core v"
        "code_at (expbuf t) 0 (map meaning ps @ (if eol then [Eol] else []))" by blast
    have "94 \<noteq> uint d" using assms(2) uint_is(8) [of d] by (auto simp: delim_ok_def)
    then have "compile (uint d) s = Fine () t" using w(1) v(1) u t(1) by (simp add: compile_def Let_def)
    then show ?thesis using t(2,3,4,5) v(4) True core_getchar [OF w(1)] core_getchar [OF v(1)]
      by (intro exI [of _ t]) simp
  qed
qed

text \<open>
  C29: An expression that is typed is the expression that is searched for.  \<open>compile\<close> reads any expression of
  characters, \<open>.\<close>, classes, stars, brackets, \<open>^\<close> and \<open>$\<close> up to its delimiter, when its code fits in \<open>expbuf\<close>,
  and leaves the rest of the input; \<open>execute\<close> on a line in the temporary file then always returns: without \<open>^\<close> it
  answers true exactly when some place of the line matches what was meant, with \<open>loc1\<close> at the first such place and
  \<open>loc2\<close> behind a match there; with \<open>^\<close> it looks at the beginning of the line only.
\<close>

theorem compile_execute:
  assumes "input_is s ((if circ then [94] else []) @ etext d ps eol @ d # rest)" "delim_ok d" "pok [] 0 ps"
    "circ \<or> eol \<or> ps \<noteq> []" "length (pcode [] 0 ps) + (if eol then 1 else 0) < ESIZE"
    "tmp_inv s" "line_stored s (tab s a) xs" "a \<noteq> 0"
    "rs = map meaning ps @ (if eol then [Eol] else [])"
  shows "\<exists>t u. compile (uint d) s = Fine () t \<and> input_is t rest
    \<and> execute a t = Fine (if circ then matching rs xs else first_match rs xs \<noteq> None) u
    \<and> (\<forall>q. (if circ then matching rs xs \<and> q = 0 else first_match rs xs = Some q) \<longrightarrow>
         loc1 u = Some (LBUF, q) \<and> (\<exists>n. matches rs (drop q xs) n \<and> loc2 u = Some (LBUF, q + n)))"
proof -
  from compile_code [OF assms(1-5)] obtain t where
    t: "compile (uint d) s = Fine () t" "input_is t rest" "circfl t = circ" "core t = core s" "code_at (expbuf t) 0 rs"
    unfolding assms(9) by blast
  have "tmp_inv t" "line_stored t (tab t a) xs" using core_store [OF t(4)] assms(6,7) by simp_all
  from execute_text [OF this assms(8) t(5)] obtain u where "execute a t = Fine (if circ then matching rs xs else first_match rs xs \<noteq> None) u
    \<and> (\<forall>q. (if circ then matching rs xs \<and> q = 0 else first_match rs xs = Some q) \<longrightarrow>
         loc1 u = Some (LBUF, q) \<and> (\<exists>n. matches rs (drop q xs) n \<and> loc2 u = Some (LBUF, q + n)))"
    unfolding t(3) by blast
  with t(1,2) show ?thesis by blast
qed

text \<open>\<open>a[b-]*/\<close> is typed and the line \<open>xab\<close> searched.\<close>

lemma compile_execute_witness:
  "\<exists>t u. compile 47 ((ed0 [97, 91, 98, 45, 93, 42, 47, 112, 10])\<lparr>obuff := (\<lambda>_. 0)(0 := 120, 1 := 97, 2 := 98),
      oblock := Some 0, tline := 2, dol := 1\<rparr>) = Fine () t
    \<and> input_is t [112, 10] \<and> execute 1 t = Fine True u \<and> loc1 u = Some (LBUF, 1)"
proof -
  let ?s = "(ed0 [97, 91, 98, 45, 93, 42, 47, 112, 10])\<lparr>obuff := (\<lambda>_. 0)(0 := 120, 1 := 97, 2 := 98),
      oblock := Some 0, tline := 2, dol := 1\<rparr>"
  let ?ps = "[PChar 97 False, PClass False [98, 45] True]"
  have "input_is ?s (etext 47 ?ps False @ 47 # [112, 10])"
    by (simp add: input_is_def ed0_def etext_def special_def starred_def)
  moreover have "delim_ok 47" "pok [] 0 ?ps" by (simp_all add: delim_ok_def typable_def)
  moreover have "tmp_inv ?s" by (simp add: tmp_inv_def tpos_def ed0_def)
  moreover have "line_stored ?s (tab ?s 1) [120, 97, 98]"
    by (simp add: line_stored_def tpos_def ed0_def tmem_def view_def All_less_Suc2)
  moreover have "first_match (map meaning ?ps) [120, 97, 98] = Some 1"
    by (simp add: item_def matching_One matching_Star matching_Nil) blast
  ultimately show ?thesis
    using compile_execute [of ?s False 47 ?ps False "[112, 10]" 1 "[120, 97, 98]" "map meaning ?ps"]
    by (auto simp del: first_match.simps)
qed

end
