(* ===== verification/Stty.thy ===== *)
theory Stty
  imports Uprintf
begin

text \<open>
  The command that sets and prints the modes of the terminal (\<open>usr/stty.c\<close>).  The terminal's three words are the
  state; \<open>arg\<close> is null once a word has been recognised.  A string is its characters without the terminator.  What
  is printed is collected; none is an access outside the arguments or the tables.
\<close>

section \<open>The tables\<close>

definition speeds :: "(string \<times> u16) list" where
  "speeds =
   [(''0'', 0x0000), (''50'', 0x0101), (''75'', 0x0202), (''110'', 0x0303), (''134'', 0x0404), (''134.5'', 0x0404),
    (''150'', 0x0505), (''200'', 0x0606), (''300'', 0x0707), (''600'', 0x0808), (''1200'', 0x0909), (''1800'', 0x0A0A),
    (''2400'', 0x0B0B), (''4800'', 0x0C0C), (''9600'', 0x0D0D), (''exta'', 0x0E0E), (''extb'', 0x0F0F)]"

text \<open>The bits each mode sets and the bits it resets before.\<close>

definition modes :: "(string \<times> u16 \<times> u16) list" where
  "modes =
   [(''even'', 0x80, 0), (''-even'', 0, 0x80), (''odd'', 0x40, 0), (''-odd'', 0, 0x40), (''raw'', 0x20, 0),
    (''-raw'', 0, 0x20), (''cooked'', 0, 0x20), (''-nl'', 0x10, 0), (''nl'', 0, 0x10), (''echo'', 0x8, 0),
    (''-echo'', 0, 0x8), (''LCASE'', 0x4, 0), (''lcase'', 0x4, 0), (''-LCASE'', 0, 0x4), (''-lcase'', 0, 0x4),
    (''-tabs'', 0x2, 0), (''tabs'', 0, 0x2), (''hup'', 0x1, 0), (''-hup'', 0, 0x1), (''cr0'', 0, 0x3000),
    (''cr1'', 0x1000, 0x3000), (''cr2'', 0x2000, 0x3000), (''cr3'', 0x3000, 0x3000), (''tab0'', 0, 0xc00),
    (''tab1'', 0x400, 0xc00), (''tab2'', 0x800, 0xc00), (''tab3'', 0xc00, 0xc00), (''nl0'', 0, 0x300),
    (''nl1'', 0x100, 0x300), (''nl2'', 0x200, 0x300), (''nl3'', 0x300, 0x300), (''ff0'', 0, 0x4000),
    (''ff1'', 0x4000, 0x4000), (''bs0'', 0, 0x8000), (''bs1'', 0x8000, 0x8000), (''33'', 0x1000, 0xff00),
    (''tty33'', 0x1000, 0xff00), (''37'', 0x6500, 0xff00), (''tty37'', 0x6500, 0xff00), (''05'', 0x200, 0xff00),
    (''vt05'', 0x200, 0xff00), (''tn'', 0x1000, 0xff00), (''tn300'', 0x1000, 0xff00), (''ti'', 0x2000, 0xff00),
    (''ti700'', 0x2000, 0xff00), (''tek'', 0x4000, 0xff00)]"

section \<open>Setting\<close>

record sttyst =
  m_speed :: u16
  m_chars :: u16
  m_flags :: u16
  s_arg :: "u8 list option"
  s_out :: "u8 list"

text \<open>The loop of \<open>eq\<close> ends at the first difference or at both terminators.\<close>

fun same_string :: "u8 list \<Rightarrow> u8 list \<Rightarrow> bool" where
  "same_string [] [] = True"
| "same_string (a # as) (b # bs) = (if a \<noteq> b then False else same_string as bs)"
| "same_string _ _ = False"

definition eq_word :: "string \<Rightarrow> sttyst \<Rightarrow> bool \<times> sttyst" where
  "eq_word str s =
     (case s_arg s of
        None \<Rightarrow> (False, s)
      | Some a \<Rightarrow> if same_string a (bytes str) then (True, s\<lparr>s_arg := None\<rparr>) else (False, s))"

definition try_speed :: "string \<times> u16 \<Rightarrow> sttyst \<Rightarrow> sttyst" where
  "try_speed e s = (case eq_word (fst e) s of (b, s) \<Rightarrow> if b then s\<lparr>m_speed := snd e\<rparr> else s)"

definition try_mode :: "string \<times> u16 \<times> u16 \<Rightarrow> sttyst \<Rightarrow> sttyst" where
  "try_mode e s =
     (case e of (str, st, reset) \<Rightarrow>
        (case eq_word str s of (b, s) \<Rightarrow> if b then s\<lparr>m_flags := (m_flags s AND NOT reset) OR st\<rparr> else s))"

text \<open>\<open>**++argv\<close> is the first character of the next argument, its terminator when that is empty.\<close>

definition first_char :: "u8 list \<Rightarrow> u8" where
  "first_char a = (case a of [] \<Rightarrow> 0 | c # _ \<Rightarrow> c)"

definition set_erase :: "u8 list list \<times> sttyst \<Rightarrow> (u8 list list \<times> sttyst) option" where
  "set_erase p =
     (case p of (as, s) \<Rightarrow>
        (case eq_word ''erase'' s of (b, s) \<Rightarrow>
           if b then
             (case as of
                [] \<Rightarrow> None
              | a # as \<Rightarrow> Some (as, s\<lparr>m_chars := (m_chars s AND 0xFF00) OR ucast (first_char a)\<rparr>))
           else Some (as, s)))"

definition set_kill :: "u8 list list \<times> sttyst \<Rightarrow> (u8 list list \<times> sttyst) option" where
  "set_kill p =
     (case p of (as, s) \<Rightarrow>
        (case eq_word ''kill'' s of (b, s) \<Rightarrow>
           if b then
             (case as of
                [] \<Rightarrow> None
              | a # as \<Rightarrow> Some (as, s\<lparr>m_chars := (m_chars s AND 0x00FF) OR push_bit 8 (ucast (first_char a))\<rparr>))
           else Some (as, s)))"

definition say :: "string \<Rightarrow> uarg list \<Rightarrow> sttyst \<Rightarrow> sttyst option" where
  "say fmt as s = map_option (\<lambda>t. s\<lparr>s_out := s_out s @ t\<rparr>) (vsprintf (bytes fmt) as)"

text \<open>One argument; \<open>ek\<close> is the value the compiler gives \<open>'#@'\<close>.\<close>

definition stty_arg :: "u16 \<Rightarrow> u8 list \<Rightarrow> u8 list list \<Rightarrow> sttyst \<Rightarrow> (u8 list list \<times> sttyst) option" where
  "stty_arg ek a as s =
     (case eq_word ''ek'' (s\<lparr>s_arg := Some a\<rparr>) of (b, s) \<Rightarrow>
        let s = (if b then s\<lparr>m_chars := ek\<rparr> else s)
        in case Option.bind (set_erase (as, s)) set_kill of
             None \<Rightarrow> None
           | Some (as, s) \<Rightarrow>
               let s = fold try_mode modes (fold try_speed speeds s)
               in case s_arg s of
                    None \<Rightarrow> Some (as, s)
                  | Some a \<Rightarrow> map_option (Pair as) (say (''unknown mode: %s'' @ [CHR 0x0A]) [UStr a] s))"

lemma set_erase_length: "set_erase (as, s) = Some (as', s') \<Longrightarrow> length as' \<le> length as"
  by (auto simp: set_erase_def split: prod.splits if_splits list.splits)

lemma set_kill_length: "set_kill (as, s) = Some (as', s') \<Longrightarrow> length as' \<le> length as"
  by (auto simp: set_kill_def split: prod.splits if_splits list.splits)

lemma stty_arg_length: "stty_arg ek a as s = Some (as', s') \<Longrightarrow> length as' \<le> length as"
proof -
  assume "stty_arg ek a as s = Some (as', s')"
  then obtain u v bs where "set_erase (as, u) = Some (bs, v)" "\<exists>w. set_kill (bs, v) = Some (as', w)"
    by (auto simp: stty_arg_def Let_def split: prod.splits option.splits Option.bind_splits)
  then show ?thesis using set_erase_length set_kill_length by (meson order_trans)
qed

function stty_args :: "u16 \<Rightarrow> u8 list list \<Rightarrow> sttyst \<Rightarrow> sttyst option" where
  "stty_args ek [] s = Some s"
| "stty_args ek (a # as) s =
     (case stty_arg ek a as s of None \<Rightarrow> None | Some (as, s) \<Rightarrow> stty_args ek as s)"
  by pat_completeness auto

termination
  by (relation "measure (\<lambda>(ek, as, s). length as)") (auto dest!: stty_arg_length)

section \<open>Printing\<close>

definition baud :: "u16 list" where
  "baud = [0, 50, 75, 110, 134, 150, 200, 300, 600, 1200, 1800, 2400, 4800, 9600, 0, 0]"

text \<open>The index is a signed character.\<close>

definition prspeed :: "string \<Rightarrow> u8 \<Rightarrow> u8 list option" where
  "prspeed c i =
     (if 0 \<le> sint i \<and> sint i < 16 then vsprintf (bytes (''%s%d baud'' @ [CHR 0x0A])) [UStr (bytes c), UInt (baud ! nat (sint i))]
      else None)"

definition prdelay :: "u16 \<Rightarrow> string \<Rightarrow> u8 list option" where
  "prdelay m s =
     (let m = m AND 3 in if m \<noteq> 0 then vsprintf (bytes ''%s%d '') [UStr (bytes s), UInt m] else Some [])"

fun printed :: "u8 list option list \<Rightarrow> u8 list option" where
  "printed [] = Some []"
| "printed (None # ts) = None"
| "printed (Some t # ts) = map_option ((@) t) (printed ts)"

definition flag_name :: "u16 \<Rightarrow> u16 \<Rightarrow> string \<Rightarrow> u8 list option" where
  "flag_name m b str = (if m AND b \<noteq> 0 then vsprintf (bytes str) [] else Some [])"

text \<open>The third line: \<open>m\<close> is an int, so its shifts are arithmetic.\<close>

definition mode_line :: "u16 \<Rightarrow> u8 list option list" where
  "mode_line m =
     [flag_name m 0x80 ''even '', flag_name m 0x40 ''odd '', flag_name m 0x20 ''raw '', flag_name m 0x10 ''-nl '',
      flag_name m 0x08 ''echo '', flag_name m 0x04 ''lcase '', flag_name m 0x02 ''-tabs '', flag_name m 0x01 ''hup '',
      prdelay (signed_drop_bit 8 m) ''nl'', prdelay (signed_drop_bit 10 m) ''tab'', prdelay (signed_drop_bit 12 m) ''cr'',
      prdelay (signed_drop_bit 14 m AND 1) ''ff'', prdelay (signed_drop_bit 15 m AND 1) ''bs'']"

definition prmodes :: "sttyst \<Rightarrow> u8 list option" where
  "prmodes s =
     (let i = ucast (m_speed s); o' = ucast (drop_bit 8 (m_speed s));
          e = ucast (m_chars s); k = ucast (drop_bit 8 (m_chars s))
      in printed
           ((if i \<noteq> (o' :: u8) then [prspeed ''input speed  '' i, prspeed ''output speed '' o'] else [prspeed ''speed '' i])
            @ [vsprintf (bytes (''erase = '' @ [CHR 0x27] @ ''%c'' @ [CHR 0x27] @ ''; kill = '' @ [CHR 0x27] @ ''%c'' @ [CHR 0x27]
                          @ [CHR 0x0A])) [UInt (scast (e :: u8)), UInt (scast (k :: u8))]]
            @ mode_line (m_flags s) @ [vsprintf [10] []]))"

text \<open>The words of the terminal that were read are in the state; the flag says whether they are set at the end.\<close>

definition stty_main :: "u16 \<Rightarrow> u8 list list \<Rightarrow> sttyst \<Rightarrow> (sttyst \<times> bool) option" where
  "stty_main ek args s =
     (if args = [] then map_option (\<lambda>t. (s\<lparr>s_out := s_out s @ t\<rparr>, False)) (prmodes s)
      else map_option (\<lambda>s. (s, True)) (stty_args ek args s))"

section \<open>A word of the table\<close>

lemma same_string_eq [simp]: "same_string a b \<longleftrightarrow> a = b"
  by (induction a b rule: same_string.induct) auto

lemma unat_of_char: "unat (of_char c :: u8) = of_char c"
proof -
  have "(of_char c :: u8) = of_nat (of_char c)" by (simp add: of_nat_of_char)
  moreover have "(of_char c :: nat) < 256" by simp
  ultimately show ?thesis by (simp add: unat_of_nat)
qed

lemma bytes_inj [simp]: "bytes a = bytes b \<longleftrightarrow> a = b"
proof -
  have "inj (of_char :: char \<Rightarrow> u8)"
    by (rule injI) (metis unat_of_char of_char_eq_iff)
  then show ?thesis by (simp add: bytes_def inj_map_eq_map)
qed

lemma tries_none:
  "s_arg s = None \<Longrightarrow> fold try_speed es s = s"
  "s_arg s = None \<Longrightarrow> fold try_mode ms s = s"
proof -
  show "s_arg s = None \<Longrightarrow> fold try_speed es s = s" by (induction es) (auto simp: try_speed_def eq_word_def)
  show "s_arg s = None \<Longrightarrow> fold try_mode ms s = s" by (induction ms) (auto simp: try_mode_def eq_word_def)
qed

lemma speed_unknown: "s_arg s = Some (bytes w) \<Longrightarrow> w \<notin> fst ` set es \<Longrightarrow> fold try_speed es s = s"
  by (induction es) (auto simp: try_speed_def eq_word_def)

lemma mode_known:
  "s_arg s = Some (bytes w) \<Longrightarrow> map_of ms w = Some (st, reset)
    \<Longrightarrow> fold try_mode ms s = s\<lparr>s_arg := None, m_flags := (m_flags s AND NOT reset) OR st\<rparr>"
proof (induction ms)
  case (Cons e ms)
  obtain v a b where e: "e = (v, a, b)" by (cases e)
  have "try_mode e s = (if v = w then s\<lparr>s_arg := None, m_flags := (m_flags s AND NOT b) OR a\<rparr> else s)"
    using Cons.prems(1) e by (auto simp: try_mode_def eq_word_def)
  with Cons e show ?case by (auto simp: tries_none split: if_splits)
qed simp

text \<open>An argument that is a mode changes just the flags, as its entry says.\<close>

lemma stty_arg_mode:
  assumes "map_of modes w = Some (st, reset)" "w \<notin> {''ek'', ''erase'', ''kill''}" "w \<notin> fst ` set speeds"
    "s_arg s = None"
  shows "stty_args ek (bytes w # as) s = stty_args ek as (s\<lparr>m_flags := (m_flags s AND NOT reset) OR st\<rparr>)"
proof -
  have "w \<noteq> ''ek''" "w \<noteq> ''erase''" "w \<noteq> ''kill''" using assms(2) by auto
  then have "stty_args ek (bytes w # as) s
      = stty_args ek as (s\<lparr>s_arg := None, m_flags := (m_flags s AND NOT reset) OR st\<rparr>)"
    using speed_unknown [of "s\<lparr>s_arg := Some (bytes w)\<rparr>" w speeds] mode_known [OF _ assms(1), of "s\<lparr>s_arg := Some (bytes w)\<rparr>"] assms(3)
    by (simp add: stty_arg_def eq_word_def set_erase_def set_kill_def Let_def)
  also have "s\<lparr>s_arg := None, m_flags := (m_flags s AND NOT reset) OR st\<rparr> = s\<lparr>m_flags := (m_flags s AND NOT reset) OR st\<rparr>"
    using assms(4) by (cases s) simp
  finally show ?thesis .
qed

section \<open>What is printed can be typed\<close>

text \<open>The words of a line.\<close>

fun words_of :: "u8 list \<Rightarrow> u8 list \<Rightarrow> u8 list list" where
  "words_of w [] = (if w = [] then [] else [w])"
| "words_of w (c # cs) = (if c = 32 then (if w = [] then [] else [w]) @ words_of [] cs else words_of (w @ [c]) cs)"

lemma words_of_word: "32 \<notin> set v \<Longrightarrow> words_of w (v @ 32 # cs) = (if w @ v = [] then [] else [w @ v]) @ words_of [] cs"
  by (induction v arbitrary: w) auto

lemma words_of_concat:
  "\<forall>w \<in> set ws. w \<noteq> [] \<and> 32 \<notin> set w \<Longrightarrow> words_of [] (concat (map (\<lambda>w. w @ [32]) ws)) = ws"
  by (induction ws) (auto simp: words_of_word)

text \<open>The words of the third line.\<close>

definition flag_word :: "u16 \<Rightarrow> u16 \<Rightarrow> string \<Rightarrow> string list" where
  "flag_word m b w = (if m AND b \<noteq> 0 then [w] else [])"

definition delay_word :: "u16 \<Rightarrow> nat \<Rightarrow> string \<Rightarrow> string list" where
  "delay_word m n w =
     (let k = drop_bit n m AND 3
      in if k = 1 then [w @ ''1''] else if k = 2 then [w @ ''2''] else if k = 3 then [w @ ''3''] else [])"

definition mode_words :: "u16 \<Rightarrow> string list" where
  "mode_words m =
     flag_word m 0x80 ''even'' @ flag_word m 0x40 ''odd'' @ flag_word m 0x20 ''raw'' @ flag_word m 0x10 ''-nl''
     @ flag_word m 0x08 ''echo'' @ flag_word m 0x04 ''lcase'' @ flag_word m 0x02 ''-tabs'' @ flag_word m 0x01 ''hup''
     @ delay_word m 8 ''nl'' @ delay_word m 10 ''tab'' @ delay_word m 12 ''cr''
     @ flag_word m 0x4000 ''ff1'' @ flag_word m 0x8000 ''bs1''"

lemma three_mask: "(3 :: u16) = mask 2"
  by (simp add: mask_eq_exp_minus_1)

lemma and_3_cases: "(k :: u16) AND 3 = 0 \<or> k AND 3 = 1 \<or> k AND 3 = 2 \<or> k AND 3 = 3"
proof -
  have "k AND 3 = take_bit 2 k" by (simp add: three_mask take_bit_eq_mask)
  also have "\<dots> = of_nat (unat k mod 4)" by (simp add: take_bit_eq_mod word_unat_eq_iff unat_mod unat_of_nat)
  finally have "k AND 3 = of_nat (unat k mod 4)" .
  moreover have "unat k mod 4 = 0 \<or> unat k mod 4 = 1 \<or> unat k mod 4 = 2 \<or> unat k mod 4 = 3" by linarith
  ultimately show ?thesis by (elim disjE) simp_all
qed

lemma shift_and_3: "n \<le> 14 \<Longrightarrow> signed_drop_bit n (m :: u16) AND 3 = drop_bit n m AND 3"
  unfolding three_mask by (rule bit_word_eqI) (auto simp: bit_simps)

lemma one_bit: "m AND 2 ^ n = (if bit (m :: u16) n then 2 ^ n else 0)"
  unfolding push_bit_of_1 [symmetric] by (rule bit_word_eqI) (auto simp: bit_simps)

lemma shift_and_1:
  assumes "n < 16"
  shows "signed_drop_bit n (m :: u16) AND 1 AND 3 = (if m AND 2 ^ n \<noteq> 0 then 1 else 0)"
proof -
  have "signed_drop_bit n m AND 1 AND 3 = signed_drop_bit n m AND 1" by (simp add: and.assoc)
  also have "\<dots> = (if bit m n then 1 else 0)"
    using assms by (simp add: and_one_eq mod_2_eq_odd bit_simps flip: bit_0)
  finally show ?thesis using assms by (simp add: one_bit exp_eq_zero_iff)
qed

lemma plain_text: "37 \<notin> set t \<Longrightarrow> vsprintf t [] = Some t"
  using vsprintf_plain [of t "[]" "[]"] by (simp add: vsprintf.simps [of "[]"])

definition spaced :: "string list \<Rightarrow> u8 list" where
  "spaced ws = concat (map (\<lambda>w. bytes w @ [32]) ws)"

lemma flag_name_word:
  "str = w @ '' '' \<Longrightarrow> 37 \<notin> set (bytes w) \<Longrightarrow> flag_name m b str = Some (spaced (flag_word m b w))"
  using plain_text [of "bytes w @ [32]"] by (simp add: flag_name_def flag_word_def spaced_def bytes_def)

lemma itoa_small: "itoa 1 = bytes ''1''" "itoa 2 = bytes ''2''" "itoa 3 = bytes ''3''"
  by (simp_all add: itoa_numeral digits_of.simps bytes_def hx_def)

lemma delay_text:
  assumes "itoa k = bytes d" "length w < 10" "0 \<notin> set (bytes w)" "d \<in> {''1'', ''2'', ''3''}"
  shows "vsprintf (bytes ''%s%d '') [UStr (bytes w), UInt k] = Some (bytes (w @ d) @ [32])"
proof -
  have 1: "vsprintf (37 # 100 # [32]) [UInt k] = map_option ((@) (bytes d)) (vsprintf [32] [])"
    by (rule vsprintf_simple) (use assms(1,4) in \<open>auto simp: converted_def bytes_def\<close>)
  have "vsprintf (37 # 115 # 37 # 100 # [32]) [UStr (bytes w), UInt k]
      = map_option ((@) (bytes w)) (vsprintf (37 # 100 # [32]) [UInt k])"
    by (rule vsprintf_simple) (use assms(2,3) in \<open>auto simp: converted_def bytes_def takeWhile_eq_all_conv\<close>)
  with 1 plain_text [of "[32]"] show ?thesis by (simp add: bytes_def)
qed

lemma prdelay_word:
  assumes "length w < 10" "0 \<notin> set (bytes w)" "n \<le> 14"
  shows "prdelay (signed_drop_bit n m) w = Some (spaced (delay_word m n w))"
  using delay_text [OF itoa_small(1) assms(1,2)] delay_text [OF itoa_small(2) assms(1,2)]
    delay_text [OF itoa_small(3) assms(1,2)] and_3_cases [of "drop_bit n m"] shift_and_3 [OF assms(3), of m]
  by (auto simp: prdelay_def delay_word_def spaced_def Let_def)

lemma prdelay_flag:
  assumes "length w < 10" "0 \<notin> set (bytes w)" "n < 16"
  shows "prdelay (signed_drop_bit n m AND 1) w = Some (spaced (flag_word m (2 ^ n) (w @ ''1'')))"
  using delay_text [OF itoa_small(1) assms(1,2)] shift_and_1 [OF assms(3), of m]
  by (auto simp: prdelay_def flag_word_def spaced_def Let_def)

lemma printed_Some: "printed (map Some ts) = Some (concat ts)"
  by (induction ts) simp_all

lemma mode_line_words: "printed (mode_line m) = Some (spaced (mode_words m))"
proof -
  have "mode_line m =
      [Some (spaced (flag_word m 0x80 ''even'')), Some (spaced (flag_word m 0x40 ''odd'')),
       Some (spaced (flag_word m 0x20 ''raw'')), Some (spaced (flag_word m 0x10 ''-nl'')),
       Some (spaced (flag_word m 0x08 ''echo'')), Some (spaced (flag_word m 0x04 ''lcase'')),
       Some (spaced (flag_word m 0x02 ''-tabs'')), Some (spaced (flag_word m 0x01 ''hup'')),
       Some (spaced (delay_word m 8 ''nl'')), Some (spaced (delay_word m 10 ''tab'')), Some (spaced (delay_word m 12 ''cr'')),
       Some (spaced (flag_word m (2 ^ 14) (''ff'' @ ''1''))), Some (spaced (flag_word m (2 ^ 15) (''bs'' @ ''1'')))]"
    unfolding mode_line_def
    by (intro list.inject [THEN iffD2] conjI refl flag_name_word prdelay_word prdelay_flag) (simp_all add: bytes_def)
  also have "printed \<dots> = Some (spaced (mode_words m))"
    by (simp add: mode_words_def spaced_def)
  finally show ?thesis .
qed

section \<open>One group of modes\<close>

lemma masks_join: "(m AND A) OR (m AND B) = m AND (A OR (B :: u16))"
  by (simp add: bit.conj_disj_distrib)

lemma mask_away: "r \<in> {0, M} \<Longrightarrow> A AND M = 0 \<Longrightarrow> (m AND A) AND NOT r = m AND (A :: u16)"
  by (auto simp: bit_eq_iff bit_simps)

text \<open>The flags so far are those of the mask \<open>A\<close>; a group adds its own.\<close>

lemma flag_group:
  assumes "map_of modes w = Some (2 ^ n, r)" "r \<in> {0, 2 ^ n}" "A AND 2 ^ n = 0" "s_arg s = None"
    "w \<notin> {''ek'', ''erase'', ''kill''}" "w \<notin> fst ` set speeds"
  shows "stty_args ek (map bytes (flag_word m (2 ^ n) w @ ws)) (s\<lparr>m_flags := m AND A\<rparr>)
    = stty_args ek (map bytes ws) (s\<lparr>m_flags := m AND (A OR 2 ^ n)\<rparr>)"
proof (cases "bit m n")
  case True
  then have "flag_word m (2 ^ n) w = (if (2 :: u16) ^ n \<noteq> 0 then [w] else [])" by (simp add: flag_word_def one_bit)
  moreover have "((m AND A) AND NOT r) OR 2 ^ n = m AND (A OR 2 ^ n)"
    using mask_away [OF assms(2,3), of m] True by (simp add: masks_join [symmetric] one_bit)
  moreover have "(2 :: u16) ^ n \<noteq> 0" using True bit_imp_le_length [of m n] by (auto simp: exp_eq_zero_iff)
  ultimately show ?thesis
    using stty_arg_mode [OF assms(1,5,6), of "s\<lparr>m_flags := m AND A\<rparr>" ek "map bytes ws"] assms(4)
    by (simp del: stty_args.simps)
next
  case False
  then have "m AND (A OR 2 ^ n) = m AND A" by (simp add: masks_join [symmetric] one_bit)
  with False show ?thesis by (simp add: flag_word_def one_bit)
qed

lemma field: "m AND push_bit n 3 = push_bit n (drop_bit n (m :: u16) AND 3)"
  by (rule bit_word_eqI) (auto simp: bit_simps)

lemma delay_group:
  assumes "\<forall>(d, k) \<in> {(''1'', 1), (''2'', 2), (''3'', 3)}. map_of modes (w @ d) = Some (push_bit n k, push_bit n 3)
      \<and> w @ d \<notin> {''ek'', ''erase'', ''kill''} \<and> w @ d \<notin> fst ` set speeds"
    "A AND push_bit n 3 = 0" "s_arg s = None"
  shows "stty_args ek (map bytes (delay_word m n w @ ws)) (s\<lparr>m_flags := m AND A\<rparr>)
    = stty_args ek (map bytes ws) (s\<lparr>m_flags := m AND (A OR push_bit n 3)\<rparr>)"
proof -
  let ?k = "drop_bit n m AND 3"
  have one: "stty_args ek (bytes (w @ d) # map bytes ws) (s\<lparr>m_flags := m AND A\<rparr>)
    = stty_args ek (map bytes ws) (s\<lparr>m_flags := m AND (A OR push_bit n 3)\<rparr>)"
    if d: "map_of modes (w @ d) = Some (push_bit n ?k, push_bit n 3) \<and> w @ d \<notin> {''ek'', ''erase'', ''kill''}
      \<and> w @ d \<notin> fst ` set speeds" for d
  proof -
    have "((m AND A) AND NOT (push_bit n 3)) OR push_bit n ?k = m AND (A OR push_bit n 3)"
      using mask_away [OF _ assms(2), of "push_bit n 3" m] by (simp only: masks_join [symmetric] field insertI1 insertI2 simp_thms)
    then show ?thesis
      using stty_arg_mode [of "w @ d" "push_bit n ?k" "push_bit n 3" "s\<lparr>m_flags := m AND A\<rparr>" ek "map bytes ws"] d assms(3)
      by (simp del: stty_args.simps)
  qed
  have zero: "m AND (A OR push_bit n 3) = m AND A" if "?k = 0"
    using that by (simp add: masks_join [symmetric] field)
  consider "?k = 0" | "?k = 1" | "?k = 2" | "?k = 3" using and_3_cases by blast
  then show ?thesis
  proof cases
    case 1
    then show ?thesis using zero by (simp add: delay_word_def)
  next
    case 2
    then show ?thesis using one [of "''1''"] assms(1) by (simp add: delay_word_def)
  next
    case 3
    then show ?thesis using one [of "''2''"] assms(1) by (simp add: delay_word_def)
  next
    case 4
    then show ?thesis using one [of "''3''"] assms(1) by (simp add: delay_word_def)
  qed
qed

section \<open>The round trip\<close>

lemma mode_table:
  "map_of modes ''even'' = Some (0x80, 0)"
  "map_of modes ''odd'' = Some (0x40, 0)"
  "map_of modes ''raw'' = Some (0x20, 0)"
  "map_of modes ''-nl'' = Some (0x10, 0)"
  "map_of modes ''echo'' = Some (0x8, 0)"
  "map_of modes ''lcase'' = Some (0x4, 0)"
  "map_of modes ''-tabs'' = Some (0x2, 0)"
  "map_of modes ''hup'' = Some (0x1, 0)"
  "map_of modes ''nl1'' = Some (0x100, 0x300)"
  "map_of modes ''nl2'' = Some (0x200, 0x300)"
  "map_of modes ''nl3'' = Some (0x300, 0x300)"
  "map_of modes ''tab1'' = Some (0x400, 0xC00)"
  "map_of modes ''tab2'' = Some (0x800, 0xC00)"
  "map_of modes ''tab3'' = Some (0xC00, 0xC00)"
  "map_of modes ''cr1'' = Some (0x1000, 0x3000)"
  "map_of modes ''cr2'' = Some (0x2000, 0x3000)"
  "map_of modes ''cr3'' = Some (0x3000, 0x3000)"
  "map_of modes ''ff1'' = Some (0x4000, 0x4000)"
  "map_of modes ''bs1'' = Some (0x8000, 0x8000)"
  by (simp_all add: modes_def)

lemma not_speeds:
  "c \<notin> {CHR ''0'', CHR ''1'', CHR ''2'', CHR ''3'', CHR ''4'', CHR ''5'', CHR ''6'', CHR ''7'', CHR ''8'', CHR ''9''}
    \<Longrightarrow> c # cs \<notin> {''exta'', ''extb''} \<Longrightarrow> c # cs \<notin> fst ` set speeds"
  by (simp add: speeds_def)

definition flags_to :: "u16 \<Rightarrow> sttyst \<Rightarrow> u16 \<Rightarrow> string list \<Rightarrow> sttyst option" where
  "flags_to ek s f ws = stty_args ek (map bytes ws) (s\<lparr>m_flags := f\<rparr>)"

lemma mode_steps:
  assumes "s_arg s = None"
  shows
    "flags_to ek s (m AND 0) (flag_word m 0x80 ''even'' @ ws) = flags_to ek s (m AND 0x80) ws"
    "flags_to ek s (m AND 0x80) (flag_word m 0x40 ''odd'' @ ws) = flags_to ek s (m AND 0xC0) ws"
    "flags_to ek s (m AND 0xC0) (flag_word m 0x20 ''raw'' @ ws) = flags_to ek s (m AND 0xE0) ws"
    "flags_to ek s (m AND 0xE0) (flag_word m 0x10 ''-nl'' @ ws) = flags_to ek s (m AND 0xF0) ws"
    "flags_to ek s (m AND 0xF0) (flag_word m 0x8 ''echo'' @ ws) = flags_to ek s (m AND 0xF8) ws"
    "flags_to ek s (m AND 0xF8) (flag_word m 0x4 ''lcase'' @ ws) = flags_to ek s (m AND 0xFC) ws"
    "flags_to ek s (m AND 0xFC) (flag_word m 0x2 ''-tabs'' @ ws) = flags_to ek s (m AND 0xFE) ws"
    "flags_to ek s (m AND 0xFE) (flag_word m 0x1 ''hup'' @ ws) = flags_to ek s (m AND 0xFF) ws"
    "flags_to ek s (m AND 0xFF) (delay_word m 8 ''nl'' @ ws) = flags_to ek s (m AND 0x3FF) ws"
    "flags_to ek s (m AND 0x3FF) (delay_word m 10 ''tab'' @ ws) = flags_to ek s (m AND 0xFFF) ws"
    "flags_to ek s (m AND 0xFFF) (delay_word m 12 ''cr'' @ ws) = flags_to ek s (m AND 0x3FFF) ws"
    "flags_to ek s (m AND 0x3FFF) (flag_word m 0x4000 ''ff1'' @ ws) = flags_to ek s (m AND 0x7FFF) ws"
    "flags_to ek s (m AND 0x7FFF) (flag_word m 0x8000 ''bs1'' @ ws) = flags_to ek s (m AND 0xFFFF) ws"
  unfolding flags_to_def
  subgoal using flag_group [of "''even''" 7 0 "0" s ek m ws] assms by (simp add: mode_table not_speeds)
  subgoal using flag_group [of "''odd''" 6 0 "0x80" s ek m ws] assms by (simp add: mode_table not_speeds)
  subgoal using flag_group [of "''raw''" 5 0 "0xC0" s ek m ws] assms by (simp add: mode_table not_speeds)
  subgoal using flag_group [of "''-nl''" 4 0 "0xE0" s ek m ws] assms by (simp add: mode_table not_speeds)
  subgoal using flag_group [of "''echo''" 3 0 "0xF0" s ek m ws] assms by (simp add: mode_table not_speeds)
  subgoal using flag_group [of "''lcase''" 2 0 "0xF8" s ek m ws] assms by (simp add: mode_table not_speeds)
  subgoal using flag_group [of "''-tabs''" 1 0 "0xFC" s ek m ws] assms by (simp add: mode_table not_speeds)
  subgoal using flag_group [of "''hup''" 0 0 "0xFE" s ek m ws] assms by (simp add: mode_table not_speeds)
  subgoal using delay_group [of "''nl''" 8 "0xFF" s ek m ws] assms by (simp add: mode_table not_speeds)
  subgoal using delay_group [of "''tab''" 10 "0x3FF" s ek m ws] assms by (simp add: mode_table not_speeds)
  subgoal using delay_group [of "''cr''" 12 "0xFFF" s ek m ws] assms by (simp add: mode_table not_speeds)
  subgoal using flag_group [of "''ff1''" 14 "0x4000" "0x3FFF" s ek m ws] assms by (simp add: mode_table not_speeds)
  subgoal using flag_group [of "''bs1''" 15 "0x8000" "0x7FFF" s ek m ws] assms by (simp add: mode_table not_speeds)
  done

definition plain_words :: "string list \<Rightarrow> bool" where
  "plain_words ws \<longleftrightarrow> (\<forall>w \<in> set (map bytes ws). w \<noteq> [] \<and> 32 \<notin> set w)"

lemma plain_words_append: "plain_words (ws @ vs) \<longleftrightarrow> plain_words ws \<and> plain_words vs"
  by (auto simp: plain_words_def)

lemma plain_flag: "plain_words [w] \<Longrightarrow> plain_words (flag_word m b w)"
  by (simp add: flag_word_def plain_words_def)

lemma plain_delay: "plain_words [w] \<Longrightarrow> plain_words (delay_word m n w)"
  by (simp add: delay_word_def plain_words_def Let_def bytes_def)

lemma mode_words_plain: "plain_words (mode_words m)"
  unfolding mode_words_def plain_words_append
  by (intro conjI plain_flag plain_delay) (simp_all add: plain_words_def bytes_def)

lemma words_of_spaced: "words_of [] (spaced (mode_words m)) = map bytes (mode_words m)"
  using words_of_concat [OF mode_words_plain [unfolded plain_words_def], of m] by (simp add: spaced_def comp_def)

text \<open>
  What \<open>stty\<close> prints can be typed.  For every word of modes, the third line that \<open>stty\<close> prints without arguments,
  given to \<open>stty\<close> word by word for a terminal whose modes are clear, is known in every word and sets exactly
  those modes, the delays included, and neither the speeds nor the characters.
\<close>

lemma stty_reads_back:
  "\<exists>t. printed (mode_line m) = Some t
    \<and> (\<forall>s. s_arg s = None \<and> m_flags s = 0 \<longrightarrow> stty_args ek (words_of [] t) s = Some (s\<lparr>m_flags := m\<rparr>))"
proof (rule exI, intro conjI allI impI)
  show "printed (mode_line m) = Some (spaced (mode_words m))" by (rule mode_line_words)
  fix s :: sttyst
  assume s: "s_arg s = None \<and> m_flags s = 0"
  then have clear: "s\<lparr>m_flags := m AND 0\<rparr> = s" by (cases s) simp
  have "(0xFFFF :: u16) = - 1" by simp
  then have all: "m AND 0xFFFF = m" by (simp only: and.right_neutral)
  have "stty_args ek (map bytes (mode_words m)) s = flags_to ek s (m AND 0) (mode_words m @ [])"
    by (simp only: flags_to_def clear append_Nil2)
  also have "\<dots> = flags_to ek s (m AND 0xFFFF) []"
    using s by (simp only: mode_words_def append_assoc mode_steps)
  also have "\<dots> = Some (s\<lparr>m_flags := m\<rparr>)" unfolding all by (simp add: flags_to_def)
  finally show "stty_args ek (words_of [] (spaced (mode_words m))) s = Some (s\<lparr>m_flags := m\<rparr>)"
    by (simp add: words_of_spaced)
qed

text \<open>The modes of a terminal with echo, CR-LF and even parity, some delays among them.\<close>

lemma stty_reads_back_witness:
  "\<exists>t. printed (mode_line 0x9598) = Some t
    \<and> stty_args 0x4023 (words_of [] t) \<lparr>m_speed = 0x0D0D, m_chars = 0x4023, m_flags = 0, s_arg = None, s_out = []\<rparr>
      = Some \<lparr>m_speed = 0x0D0D, m_chars = 0x4023, m_flags = 0x9598, s_arg = None, s_out = []\<rparr>"
proof -
  let ?s = "\<lparr>m_speed = 0x0D0D, m_chars = 0x4023, m_flags = 0, s_arg = None, s_out = []\<rparr>"
  obtain t where t: "printed (mode_line 0x9598) = Some t" "\<forall>s. s_arg s = None \<and> m_flags s = 0 \<longrightarrow>
      stty_args 0x4023 (words_of [] t) s = Some (s\<lparr>m_flags := 0x9598\<rparr>)"
    using stty_reads_back [of "0x9598" "0x4023"] by blast
  have "stty_args 0x4023 (words_of [] t) ?s = Some (?s\<lparr>m_flags := 0x9598\<rparr>)"
    by (rule t(2) [rule_format]) simp
  with t(1) show ?thesis by simp
qed

end
