(* ===== verification/Df.thy ===== *)
theory Df
  imports MkfsFacts Uprintf
begin

text \<open>
  The command that counts the free blocks of a file system (\<open>usr/df.c\<close>), on the blocks of the device, and its agreement
  with the builder of file systems: it counts the blocks that \<open>mkfs\<close> has put on the free list.
\<close>

section \<open>State\<close>

text \<open>
  \<open>sblock\<close>, as far as it is used, and what was printed.  The device is its blocks and their number; a read behind
  them gives fewer than 512 bytes.  \<open>rd_err\<close> is the count and the \<open>errno\<close> of such a read.
\<close>

record dfst =
  sb_isize :: u16
  sb_fsize :: u16
  sb_nfree :: u16
  sb_free :: "nat \<Rightarrow> u16"
  df_out :: "u8 list"

record dfdev =
  dv_block :: "u16 \<Rightarrow> block"
  dv_len :: nat
  dv_err :: "u16 \<Rightarrow> u16 \<times> u16"

text \<open>A routine returns, or ends the program, or does not end.\<close>

datatype 'a dres = Back 'a dfst | Ended dfst | Forever

fun dbind :: "'a dres \<Rightarrow> ('a \<Rightarrow> dfst \<Rightarrow> 'b dres) \<Rightarrow> 'b dres" where
  "dbind (Back a s) f = f a s"
| "dbind (Ended s) f = Ended s"
| "dbind Forever f = Forever"

text \<open>Every format here is well formed.\<close>

definition df_print :: "string \<Rightarrow> uarg list \<Rightarrow> dfst \<Rightarrow> dfst" where
  "df_print fmt as s = s\<lparr>df_out := df_out s @ (case vsprintf (bytes fmt) as of Some t \<Rightarrow> t | None \<Rightarrow> [])\<rparr>"

section \<open>The code\<close>

definition df_bread :: "dfdev \<Rightarrow> u16 \<Rightarrow> dfst \<Rightarrow> block dres" where
  "df_bread dv bno s =
     (if unat bno < dv_len dv then Back (dv_block dv bno) s
      else
        let s = df_print (''read error %d'' @ [CHR 0x0A]) [UInt bno] s
        in case dv_err dv bno of (n, e) \<Rightarrow>
             Ended (df_print (''count = %d; errno = %d'' @ [CHR 0x0A]) [UInt n, UInt e] s))"

definition df_alloc :: "dfdev \<Rightarrow> dfst \<Rightarrow> u16 dres" where
  "df_alloc dv s =
     (let s = s\<lparr>sb_nfree := sb_nfree s - 1\<rparr>; i = sb_nfree s
      in if slt16 i 0 \<or> sle16 100 i then Back 0 (df_print (''bad free count'' @ [CHR 0x0A]) [] s)
         else
           let b = sb_free s (unat i)
           in if b = 0 then Back 0 s
              else if slt16 b (sb_isize s + 2) \<or> sle16 (sb_fsize s) b then
                Back 0 (df_print (''bad free block (%d)'' @ [CHR 0x0A]) [UInt b] s)
              else if sle16 (sb_nfree s) 0 then
                dbind (df_bread dv b s) (\<lambda>buf s.
                  Back b (s\<lparr>sb_nfree := buf 0, sb_free := (\<lambda>k. if k < 100 then buf (k + 1) else sb_free s k)\<rparr>))
              else Back b s)"

text \<open>\<open>while (alloc()) i++;\<close> with a bound on its turns.\<close>

fun df_count :: "nat \<Rightarrow> dfdev \<Rightarrow> u16 \<Rightarrow> dfst \<Rightarrow> u16 dres" where
  "df_count 0 dv i s = Forever"
| "df_count (Suc k) dv i s = dbind (df_alloc dv s) (\<lambda>b s. if b = 0 then Back i s else df_count k dv (i + 1) s)"

text \<open>The super block is read over \<open>sblock\<close>.\<close>

definition dfree :: "nat \<Rightarrow> u8 list \<Rightarrow> dfdev option \<Rightarrow> dfst \<Rightarrow> unit dres" where
  "dfree k name dev s =
     (case dev of
        None \<Rightarrow> Back () (df_print (''cannot open %s'' @ [CHR 0x0A]) [UStr name] s)
      | Some dv \<Rightarrow>
          dbind (df_bread dv 1 s) (\<lambda>w s.
          dbind (df_count k dv 0 (s\<lparr>sb_isize := w 0, sb_fsize := w 1, sb_nfree := w 2, sb_free := (\<lambda>j. w (j + 3))\<rparr>))
            (\<lambda>i s. Back () (df_print (''%d'' @ [CHR 0x0A]) [UInt i] s))))"

fun df_names :: "nat \<Rightarrow> (u8 list \<Rightarrow> dfdev option) \<Rightarrow> u8 list list \<Rightarrow> dfst \<Rightarrow> unit dres" where
  "df_names k devs [] s = Back () s"
| "df_names k devs (a # as) s =
     dbind (dfree k a (devs a) (df_print ''%s '' [UStr a] s)) (\<lambda>_ s. df_names k devs as s)"

text \<open>Without arguments the names are those of \<open>dargv\<close>; there is one, so \<open>argc > 1\<close> holds in the loop either way.\<close>

definition df_main :: "nat \<Rightarrow> (u8 list \<Rightarrow> dfdev option) \<Rightarrow> u8 list list \<Rightarrow> dfst \<Rightarrow> unit dres" where
  "df_main k devs args s = df_names k devs (if args = [] then [bytes ''/dev/rk0''] else args) s"

section \<open>Counting a list of free blocks\<close>

definition in_data :: "dfst \<Rightarrow> u16 list \<Rightarrow> bool" where
  "in_data s xs \<longleftrightarrow> (\<forall>x \<in> set xs. sle16 (sb_isize s + 2) x \<and> slt16 x (sb_fsize s))"

lemma slt16_le: "slt16 a b \<longleftrightarrow> \<not> sle16 b a"
  by (auto simp: slt16_def sle16_def)

lemma in_range_Cons:
  "in_data s (b # ys) \<Longrightarrow> \<not> slt16 b (sb_isize s + 2) \<and> \<not> sle16 (sb_fsize s) b"
  by (simp add: in_data_def slt16_le)

text \<open>A turn takes the next block off the list.\<close>

lemma df_alloc_pop:
  assumes "flist (dv_block dv) (dv_len dv) (sb_nfree s) (sb_free s) (b # ys)" "in_data s (b # ys)"
  shows "\<exists>n fr. df_alloc dv s = Back b (s\<lparr>sb_nfree := n, sb_free := fr\<rparr>)
    \<and> flist (dv_block dv) (dv_len dv) n fr ys \<and> b \<noteq> 0"
proof -
  let ?m = "sb_nfree s - 1"
  have n: "0 < unat (sb_nfree s)" "unat (sb_nfree s) \<le> 100" using flist_count [OF assms(1)] by auto
  have m: "unat ?m = unat (sb_nfree s) - 1" using n(1) by (rule unat_pred)
  have idx: "unat ?m < 100" using m n by simp
  have le: "sle16 ?m 0 \<longleftrightarrow> unat ?m = 0" "\<not> slt16 ?m 0" "\<not> sle16 100 ?m"
    using sle16_small(2) [of ?m 0] sle16_small(1) [of ?m 0] sle16_small(1) [of ?m 100] idx by (auto simp: slt16_le)
  note pop = flist_pop [OF assms(1)] and r = in_range_Cons [OF assms(2)]
  show ?thesis
  proof (cases "unat (sb_nfree s) = 1")
    case False
    then have "df_alloc dv s = Back b (s\<lparr>sb_nfree := ?m\<rparr>)"
      using pop(1,2) le r m n by (simp add: df_alloc_def Let_def)
    then show ?thesis using pop(2,3) False
      by (intro exI [of _ ?m] exI [of _ "sb_free s"]) simp
  next
    case True
    let ?w = "dv_block dv b"
    let ?g = "\<lambda>k. if k < 100 then ?w (k + 1) else sb_free s k"
    have f: "unat b < dv_len dv" "flist (dv_block dv) (dv_len dv) (?w 0) (\<lambda>i. ?w (i + 1)) ys" using pop(3) True by simp_all
    have "flist (dv_block dv) (dv_len dv) (?w 0) ?g ys"
      by (rule flist_cong [OF f(2)]) (use flist_count [OF f(2)] in auto)
    moreover have "df_alloc dv s = Back b (s\<lparr>sb_nfree := ?w 0, sb_free := ?g\<rparr>)"
      using True pop(1,2) le r m f(1) by (simp add: df_alloc_def df_bread_def Let_def cong: if_cong)
    ultimately show ?thesis using pop(2) by blast
  qed
qed

lemma df_alloc_empty:
  assumes "flist (dv_block dv) (dv_len dv) (sb_nfree s) (sb_free s) []"
  shows "df_alloc dv s = Back 0 (s\<lparr>sb_nfree := 0\<rparr>)"
  using assms by (simp add: flist_Nil df_alloc_def slt16_def sle16_def Let_def)

lemma df_count_list:
  "flist (dv_block dv) (dv_len dv) (sb_nfree s) (sb_free s) xs \<Longrightarrow> in_data s xs \<Longrightarrow> length xs < k
    \<Longrightarrow> \<exists>n fr. df_count k dv i s = Back (i + of_nat (length xs)) (s\<lparr>sb_nfree := n, sb_free := fr\<rparr>)"
proof (induction xs arbitrary: k i s)
  case Nil
  then obtain j where "k = Suc j" by (cases k) auto
  then show ?case using df_alloc_empty [OF Nil(1)] by (intro exI [of _ 0] exI [of _ "sb_free s"]) simp
next
  case (Cons b ys)
  then obtain j where k: "k = Suc j" "length ys < j" by (cases k) auto
  from df_alloc_pop [OF Cons.prems(1,2)] obtain n fr where
    a: "df_alloc dv s = Back b (s\<lparr>sb_nfree := n, sb_free := fr\<rparr>)" "flist (dv_block dv) (dv_len dv) n fr ys" "b \<noteq> 0" by blast
  have "in_data (s\<lparr>sb_nfree := n, sb_free := fr\<rparr>) ys" using Cons.prems(2) by (simp add: in_data_def)
  from Cons.IH [OF _ this k(2), of "i + 1"] a(2) obtain n' fr' where
    "df_count j dv (i + 1) (s\<lparr>sb_nfree := n, sb_free := fr\<rparr>)
      = Back (i + 1 + of_nat (length ys)) (s\<lparr>sb_nfree := n', sb_free := fr'\<rparr>)" by auto
  with a k show ?case by (intro exI [of _ n'] exI [of _ fr']) (simp add: add.assoc)
qed

section \<open>The count of a new file system\<close>

lemma df_print_number: "df_print (''%d'' @ [CHR 0x0A]) [UInt i] s = s\<lparr>df_out := df_out s @ itoa i @ [10]\<rparr>"
proof -
  have "vsprintf (37 # 100 # [10]) [UInt i] = map_option ((@) (itoa i)) (vsprintf [10] [])"
    by (rule vsprintf_simple) (simp_all add: converted_def itoa_length)
  moreover have "vsprintf [10] [] = Some [10]"
    using vsprintf_plain [of "[10]" "[]" "[]"] by (simp add: vsprintf.simps [of "[]"])
  ultimately show ?thesis by (simp add: df_print_def bytes_def)
qed

definition device :: "(u16 \<Rightarrow> u16 \<times> u16) \<Rightarrow> mkst \<Rightarrow> dfdev" where
  "device err s = \<lparr>dv_block = img s, dv_len = img_len s, dv_err = err\<rparr>"

text \<open>The super block that \<open>mkfs\<close> writes last is where \<open>df\<close> finds the list.\<close>

lemma df_counts_list:
  assumes "free_blocks t xs" "1 \<notin> set xs" "1 < img_room t" "length xs < k"
    "\<forall>x \<in> set xs. sle16 (f_isize t + 2) x \<and> slt16 x (f_fsize t)"
  shows "\<exists>u. wtfs 1 (super_words past t) t = Val () u \<and>
    (\<forall>err name d. \<exists>d'. dfree k name (Some (device err u)) d = Back () d'
      \<and> df_out d' = df_out d @ itoa (of_nat (length xs)) @ [10])"
proof -
  let ?u = "t\<lparr>img := (img t)(1 := super_words past t), img_len := max (img_len t) (unat (1 :: u16) + 1)\<rparr>"
  have w: "wtfs 1 (super_words past t) t = Val () ?u" using assms(3) by (simp add: wtfs_def)
  have l: "flist (img ?u) (img_len ?u) (f_nfree t) (f_free t) xs"
    by (rule flist_disk [OF assms(1)]) (use assms(2) in auto)
  have "\<exists>d'. dfree k name (Some (device err ?u)) d = Back () d' \<and> df_out d' = df_out d @ itoa (of_nat (length xs)) @ [10]"
    for err name d
  proof -
    let ?d = "device err ?u" and ?w = "super_words past t"
    let ?s = "d\<lparr>sb_isize := ?w 0, sb_fsize := ?w 1, sb_nfree := ?w 2, sb_free := (\<lambda>j. ?w (j + 3))\<rparr>"
    have "flist (dv_block ?d) (dv_len ?d) (sb_nfree ?s) (sb_free ?s) xs"
      using flist_cong [OF l, of "sb_free ?s"] flist_count [OF l] by (simp add: device_def super_words_def)
    moreover have "in_data ?s xs" using assms(5) by (simp add: in_data_def super_words_def)
    ultimately obtain n fr where
      "df_count k ?d 0 ?s = Back (0 + of_nat (length xs)) (?s\<lparr>sb_nfree := n, sb_free := fr\<rparr>)"
      using df_count_list [of ?d ?s xs k 0] assms(4) by blast
    moreover have "df_bread ?d 1 d = Back ?w d" by (simp add: df_bread_def device_def less_max_iff_disj)
    ultimately show ?thesis by (simp add: dfree_def df_print_number [simplified])
  qed
  with w show ?thesis by blast
qed

lemma card_range:
  assumes "distinct (xs :: u16 list)" "set xs = {b. m \<le> unat b \<and> unat b < n}" "n < 65536"
  shows "length xs = n - m"
proof -
  have "unat ` set xs = {m..<n}"
  proof
    show "{m..<n} \<subseteq> unat ` set xs"
    proof
      fix i
      assume "i \<in> {m..<n}"
      then have "unat (of_nat i :: u16) = i" using assms(3) by (simp add: unat_of_nat)
      with \<open>i \<in> {m..<n}\<close> show "i \<in> unat ` set xs" unfolding assms(2) by (intro image_eqI [of _ _ "of_nat i"]) auto
    qed
  qed (auto simp: assms(2))
  then have "card (set xs) = n - m" 
    by (metis (no_types, lifting) card_image card_atLeastLessThan inj_onI unsigned_word_eqI)
  with assms(1) show ?thesis by (simp add: distinct_card)
qed



end
