(* ===== verification/Mount.thy ===== *)
theory Mount
  imports Ulib Uprintf
begin

text \<open>
  The commands that mount and unmount a file system and keep the table \<open>/etc/mtab\<close> (\<open>usr/mount.c\<close>, \<open>usr/umount.c\<close>).
  The table is its 1024 bytes: 16 entries of a directory name and a device name, 32 bytes each.  The system calls
  are their results; an access outside the table or the argument has no result.
\<close>

section \<open>The table\<close>

definition NMNT :: nat where "NMNT = 16"
definition NAMSIZ :: nat where "NAMSIZ = 32"

type_synonym mtab = "u8 list"

definition at_file :: "nat \<Rightarrow> nat" where "at_file i = 2 * NAMSIZ * i"
definition at_spec :: "nat \<Rightarrow> nat" where "at_spec i = 2 * NAMSIZ * i + NAMSIZ"

text \<open>\<open>read\<close> into the zeroed table.\<close>

definition load_tab :: "u8 list \<Rightarrow> mtab" where
  "load_tab bs = take (NMNT * 2 * NAMSIZ) bs @ replicate (NMNT * 2 * NAMSIZ - length bs) 0"

definition in_use :: "mtab \<Rightarrow> nat \<Rightarrow> bool" where
  "in_use t i \<longleftrightarrow> t ! at_file i \<noteq> 0"

text \<open>\<open>mp = &mtab[NMOUNT]; while ((--mp)->file[0] == 0);\<close>\<close>

fun last_used :: "mtab \<Rightarrow> nat \<Rightarrow> nat option" where
  "last_used t 0 = None"
| "last_used t (Suc i) = (if in_use t i then Some i else last_used t i)"

text \<open>The bytes that go into the new \<open>/etc/mtab\<close>.\<close>

definition saved :: "mtab \<Rightarrow> u8 list option" where
  "saved t = map_option (\<lambda>i. take ((i + 1) * 2 * NAMSIZ) t) (last_used t NMNT)"

section \<open>Names\<close>

text \<open>
  The last component: the slashes at the end are cut off, and nothing is left of a name of slashes only, where the
  code looks in front of it.
\<close>

definition device_name :: "u8 list \<Rightarrow> u8 list option" where
  "device_name a =
     (let b = dropWhile (\<lambda>c. c = 47) (rev a)
      in if b = [] then None else Some (rev (takeWhile (\<lambda>c. c \<noteq> 47) b)))"

text \<open>\<open>*np++ = *a++\<close> for the 31 bytes from \<open>p\<close> on, with the terminator repeated.\<close>

definition put_name :: "nat \<Rightarrow> u8 list \<Rightarrow> mtab \<Rightarrow> mtab" where
  "put_name p a t =
     fold (\<lambda>i t. t[p + i := (if i < length a then a ! i else 0)]) [0..<NAMSIZ - 1] t"

section \<open>mount\<close>

datatype mres = Said "u8 list" | Failed "u8 list" | Wrote "u8 list" | Quiet

text \<open>The names are read up to their terminator, wherever that is.\<close>

definition name_at :: "mtab \<Rightarrow> nat \<Rightarrow> u8 list" where
  "name_at t p = takeWhile (\<lambda>c. c \<noteq> 0) (drop p t)"

definition list_tab :: "mtab \<Rightarrow> u8 list option" where
  "list_tab t =
     map_option concat
       (those (map (\<lambda>i. vsprintf (bytes (''%s on %s'' @ [CHR 0x0A])) [UStr (name_at t (at_spec i)), UStr (name_at t (at_file i))])
                (filter (in_use t) [0..<NMNT])))"

text \<open>The first entry that is not in use.\<close>

definition free_entry :: "mtab \<Rightarrow> nat option" where
  "free_entry t = find (\<lambda>i. \<not> in_use t i) [0..<NMNT]"

definition enter :: "u8 list \<Rightarrow> u8 list \<Rightarrow> mtab \<Rightarrow> mres option" where
  "enter spec dir t =
     (case free_entry t of
        None \<Rightarrow> Some Quiet
      | Some i \<Rightarrow> map_option Wrote (saved (put_name (at_file i) dir (put_name (at_spec i) spec t))))"

text \<open>\<open>r\<close> is the result of the call \<open>mount\<close> with these arguments.\<close>

definition mount_cmd :: "(u8 list \<Rightarrow> u8 list \<Rightarrow> bool \<Rightarrow> int) \<Rightarrow> u8 list list \<Rightarrow> u8 list \<Rightarrow> mres option" where
  "mount_cmd r args tabfile =
     (let t = load_tab tabfile
      in case args of
           [] \<Rightarrow> map_option Said (list_tab t)
         | [_] \<Rightarrow> Some (Said (bytes (''arg count'' @ [CHR 0x0A])))
         | spec # dir # opts \<Rightarrow>
             if r spec dir (opts \<noteq> []) < 0 then Some (Failed (bytes ''mount''))
             else Option.bind (device_name spec) (\<lambda>spec. enter spec dir t))"

section \<open>umount\<close>

text \<open>
  \<open>while (*p1++ == *p2) if (*p2++ == 0) ...\<close>: the name with its terminator against the table from \<open>p\<close> on; none when
  it runs out of the table.
\<close>

fun same_name :: "u8 list \<Rightarrow> nat \<Rightarrow> mtab \<Rightarrow> bool option" where
  "same_name [] p t = (if p < length t then Some (t ! p = 0) else None)"
| "same_name (c # cs) p t =
     (if p < length t then (if t ! p = c then (if c = 0 then Some True else same_name cs (p + 1) t) else Some False) else None)"

definition clear_entry :: "nat \<Rightarrow> mtab \<Rightarrow> mtab" where
  "clear_entry i t = fold (\<lambda>j t. t[at_file i + j := 0]) [0..<2 * NAMSIZ] t"

fun remove_from :: "nat list \<Rightarrow> u8 list \<Rightarrow> mtab \<Rightarrow> mres option" where
  "remove_from [] spec t = map_option Said (vsprintf (bytes (''%s not in mount table'' @ [CHR 0x0A])) [UStr spec])"
| "remove_from (i # is) spec t =
     (case same_name spec (at_spec i) t of
        None \<Rightarrow> None
      | Some True \<Rightarrow> map_option Wrote (saved (clear_entry i t))
      | Some False \<Rightarrow> remove_from is spec t)"

definition umount_cmd :: "(u8 list \<Rightarrow> int) \<Rightarrow> u8 list list \<Rightarrow> u8 list \<Rightarrow> mres option" where
  "umount_cmd r args tabfile =
     (let t = load_tab tabfile
      in case args of
           [spec] \<Rightarrow>
             if r spec < 0 then Some (Failed (bytes ''umount''))
             else Option.bind (device_name spec) (\<lambda>spec. remove_from [0..<NMNT] spec t)
         | _ \<Rightarrow> Some (Said (bytes (''arg count'' @ [CHR 0x0A]))))"

section \<open>Bytes of the table\<close>

lemma fold_put_length: "length (fold (\<lambda>i t. t[p + i := f i]) [0..<n] t) = length t"
  by (induction n) simp_all

lemma fold_put:
  "k < length t \<Longrightarrow> fold (\<lambda>i t. t[p + i := f i]) [0..<n] t ! k = (if p \<le> k \<and> k < p + n then f (k - p) else t ! k)"
proof (induction n)
  case (Suc n)
  then show ?case by (cases "k = p + n") (auto simp: fold_put_length)
qed auto

lemma put_name_nth:
  "k < length t \<Longrightarrow> put_name p a t ! k
    = (if p \<le> k \<and> k < p + (NAMSIZ - 1) then (if k - p < length a then a ! (k - p) else 0) else t ! k)"
  "length (put_name p a t) = length t"
  unfolding put_name_def by (simp_all only: fold_put fold_put_length)

lemma clear_entry_nth:
  "k < length t \<Longrightarrow> clear_entry i t ! k = (if at_file i \<le> k \<and> k < at_file i + 2 * NAMSIZ then 0 else t ! k)"
  "length (clear_entry i t) = length t"
  unfolding clear_entry_def by (simp_all only: fold_put fold_put_length)

text \<open>An entry that is not in use is zero, and every name ends inside its entry.\<close>

definition wf_mtab :: "mtab \<Rightarrow> bool" where
  "wf_mtab t \<longleftrightarrow> length t = NMNT * 2 * NAMSIZ
    \<and> (\<forall>i < NMNT. \<not> in_use t i \<longrightarrow> (\<forall>j < 2 * NAMSIZ. t ! (at_file i + j) = 0))
    \<and> (\<forall>i < NMNT. t ! (at_file i + 31) = 0 \<and> t ! (at_spec i + 31) = 0)"

lemma entry_of:
  assumes "k < NMNT * 2 * NAMSIZ"
  obtains i j where "i < NMNT" "j < 2 * NAMSIZ" "k = at_file i + j"
proof -
  have "k div (2 * NAMSIZ) < NMNT" using assms by (simp add: NMNT_def NAMSIZ_def less_mult_imp_div_less)
  moreover have "k mod (2 * NAMSIZ) < 2 * NAMSIZ" by (simp add: NAMSIZ_def)
  moreover have "k = at_file (k div (2 * NAMSIZ)) + k mod (2 * NAMSIZ)" unfolding at_file_def by simp
  ultimately show thesis using that by blast
qed

lemma last_used_Some: "last_used t n = Some i \<Longrightarrow> i < n \<and> in_use t i \<and> (\<forall>j. i < j \<and> j < n \<longrightarrow> \<not> in_use t j)"
  by (induction n) (auto split: if_splits simp: less_Suc_eq)

lemma last_used_None: "last_used t n = None \<longleftrightarrow> (\<forall>i < n. \<not> in_use t i)"
  by (induction n) (auto simp: less_Suc_eq)

text \<open>What is written reads back as the same table.\<close>

lemma load_saved:
  assumes "wf_mtab t" "saved t = Some f"
  shows "load_tab f = t"
proof -
  obtain i where i: "last_used t NMNT = Some i" "f = take ((i + 1) * 2 * NAMSIZ) t" using assms(2) by (auto simp: saved_def)
  note l = last_used_Some [OF i(1)]
  let ?m = "(i + 1) * 2 * NAMSIZ"
  have len: "length t = NMNT * 2 * NAMSIZ" using assms(1) by (simp add: wf_mtab_def)
  have m: "?m \<le> length t" using l len by (simp add: NMNT_def NAMSIZ_def)
  have "t ! k = 0" if k: "?m \<le> k" "k < length t" for k
  proof -
    obtain j o' where j: "j < NMNT" "o' < 2 * NAMSIZ" "k = at_file j + o'" using entry_of k(2) len by metis
    have "i < j" using k(1) j(2,3) by (simp add: at_file_def NAMSIZ_def)
    then have "\<not> in_use t j" using l j(1) by blast
    then show ?thesis using assms(1) j by (simp add: wf_mtab_def)
  qed
  then have "drop ?m t = replicate (length t - ?m) 0" using m by (intro nth_equalityI) simp_all
  then have "load_tab f = take ?m t @ drop ?m t" using i(2) m len by (simp add: load_tab_def)
  then show ?thesis by simp
qed

lemma name_at_step: "p < length t \<Longrightarrow> name_at t p = (if t ! p = 0 then [] else t ! p # name_at t (p + 1))"
  by (simp add: name_at_def Cons_nth_drop_Suc [symmetric])

lemma same_name_iff:
  "0 \<notin> set cs \<Longrightarrow> p \<le> q \<Longrightarrow> q < length t \<Longrightarrow> t ! q = 0 \<Longrightarrow> same_name cs p t = Some (name_at t p = cs)"
proof (induction cs arbitrary: p)
  case (Cons c cs)
  show ?case
  proof (cases "t ! p = c")
    case True
    with Cons.prems have "p + 1 \<le> q" by (cases "p = q") auto
    with Cons True show ?thesis by (auto simp: name_at_step)
  qed (use Cons.prems in \<open>auto simp: name_at_step\<close>)
qed (auto simp: name_at_step)

section \<open>Mounting and unmounting\<close>

definition entered :: "nat \<Rightarrow> u8 list \<Rightarrow> u8 list \<Rightarrow> mtab \<Rightarrow> mtab" where
  "entered i spec dir t = put_name (at_file i) dir (put_name (at_spec i) spec t)"

text \<open>The new entry; the rest of the table stays.\<close>

lemma entered_nth:
  assumes "wf_mtab t" "i < NMNT" "\<not> in_use t i"
  shows "length (entered i spec dir t) = length t"
    "k < length t \<Longrightarrow> k < at_file i \<or> at_file i + 2 * NAMSIZ \<le> k \<Longrightarrow> entered i spec dir t ! k = t ! k"
    "j < 31 \<Longrightarrow> entered i spec dir t ! (at_file i + j) = (if j < length dir then dir ! j else 0)"
    "j < 31 \<Longrightarrow> entered i spec dir t ! (at_spec i + j) = (if j < length spec then spec ! j else 0)"
    "entered i spec dir t ! (at_file i + 31) = 0" "entered i spec dir t ! (at_spec i + 31) = 0"
proof -
  have len: "length t = 1024" using assms(1) by (simp add: wf_mtab_def NMNT_def NAMSIZ_def)
  have i: "i < 16" using assms(2) by (simp add: NMNT_def)
  have z: "t ! (at_file i + 31) = 0" "t ! (at_spec i + 31) = 0" using assms(1,2) by (auto simp: wf_mtab_def)
  show "length (entered i spec dir t) = length t" by (simp add: entered_def put_name_nth)
  show "k < length t \<Longrightarrow> k < at_file i \<or> at_file i + 2 * NAMSIZ \<le> k \<Longrightarrow> entered i spec dir t ! k = t ! k"
    by (auto simp: entered_def put_name_nth at_file_def at_spec_def NAMSIZ_def)
  show "j < 31 \<Longrightarrow> entered i spec dir t ! (at_file i + j) = (if j < length dir then dir ! j else 0)"
    using len i by (simp add: entered_def put_name_nth at_file_def at_spec_def NAMSIZ_def)
  show "j < 31 \<Longrightarrow> entered i spec dir t ! (at_spec i + j) = (if j < length spec then spec ! j else 0)"
    using len i by (simp add: entered_def put_name_nth at_file_def at_spec_def NAMSIZ_def)
  show "entered i spec dir t ! (at_file i + 31) = 0" "entered i spec dir t ! (at_spec i + 31) = 0"
    using len i z by (simp_all add: entered_def put_name_nth at_file_def at_spec_def NAMSIZ_def)
qed

lemma entered_other:
  assumes "wf_mtab t" "i < NMNT" "\<not> in_use t i" "j < NMNT" "j \<noteq> i" "m < 2 * NAMSIZ"
  shows "entered i spec dir t ! (at_file j + m) = t ! (at_file j + m)"
proof (rule entered_nth(2) [OF assms(1-3)])
  show "at_file j + m < length t" using assms by (simp add: wf_mtab_def at_file_def NMNT_def NAMSIZ_def)
  show "at_file j + m < at_file i \<or> at_file i + 2 * NAMSIZ \<le> at_file j + m"
    using assms(5,6) by (cases "j < i") (simp_all add: at_file_def NAMSIZ_def)
qed

lemma entered_wf:
  assumes "wf_mtab t" "i < NMNT" "\<not> in_use t i" "dir \<noteq> []" "0 \<notin> set dir"
  shows "wf_mtab (entered i spec dir t)" "in_use (entered i spec dir t) i"
    "j < NMNT \<Longrightarrow> j \<noteq> i \<Longrightarrow> in_use (entered i spec dir t) j = in_use t j"
proof -
  note e = entered_nth [OF assms(1-3)]
  have o: "entered i spec dir t ! (at_file j + m) = t ! (at_file j + m)" if "j < NMNT" "j \<noteq> i" "m < 2 * NAMSIZ" for j m
    using entered_other [OF assms(1-3) that] .
  have "dir ! 0 \<noteq> 0" using assms(4,5) by (cases dir) auto
  then show u: "in_use (entered i spec dir t) i" using e(3) [of 0 spec dir] assms(4) by (simp add: in_use_def)
  have os: "entered i spec dir t ! (at_spec j + 31) = t ! (at_spec j + 31)" if "j < NMNT" "j \<noteq> i" for j
    using o [OF that, of "NAMSIZ + 31"] by (simp add: at_spec_def at_file_def NAMSIZ_def add.commute)
  show uo: "in_use (entered i spec dir t) j = in_use t j" if "j < NMNT" "j \<noteq> i" for j
    using o [OF that, of 0] by (simp add: in_use_def NAMSIZ_def)
  show "wf_mtab (entered i spec dir t)" unfolding wf_mtab_def
  proof (intro conjI allI impI)
    show "length (entered i spec dir t) = NMNT * 2 * NAMSIZ" using e(1) assms(1) by (simp add: wf_mtab_def)
    fix j
    assume j: "j < NMNT"
    show "entered i spec dir t ! (at_file j + 31) = 0"
      using assms(1) e(5) o [of j 31] j by (cases "j = i") (auto simp: wf_mtab_def NAMSIZ_def)
    show "entered i spec dir t ! (at_spec j + 31) = 0"
      using assms(1) e(6) os [of j] j by (cases "j = i") (auto simp: wf_mtab_def)
    fix m
    assume "\<not> in_use (entered i spec dir t) j" "m < 2 * NAMSIZ"
    then show "entered i spec dir t ! (at_file j + m) = 0"
      using u uo [OF j] o [OF j, of m] assms(1) j by (cases "j = i") (auto simp: wf_mtab_def)
  qed
qed

text \<open>Clearing the entry again gives the old table.\<close>

lemma clear_entered:
  assumes "wf_mtab t" "i < NMNT" "\<not> in_use t i"
  shows "clear_entry i (entered i spec dir t) = t"
proof (rule nth_equalityI)
  show len: "length (clear_entry i (entered i spec dir t)) = length t"
    by (simp add: clear_entry_nth entered_nth(1) [OF assms])
  fix k
  assume "k < length (clear_entry i (entered i spec dir t))"
  then have k: "k < length t" using len by simp
  show "clear_entry i (entered i spec dir t) ! k = t ! k"
  proof (cases "at_file i \<le> k \<and> k < at_file i + 2 * NAMSIZ")
    case True
    then have "k - at_file i < 2 * NAMSIZ" by linarith
    then have "t ! (at_file i + (k - at_file i)) = 0" using assms unfolding wf_mtab_def by blast
    with True k show ?thesis by (simp add: clear_entry_nth entered_nth(1) [OF assms])
  next
    case False
    with k show ?thesis using entered_nth(2) [OF assms, of k spec dir]
      by (auto simp: clear_entry_nth entered_nth(1) [OF assms] not_le not_less)
  qed
qed

lemma entered_name:
  assumes "wf_mtab t" "i < NMNT" "\<not> in_use t i" "length spec < 32" "0 \<notin> set spec"
  shows "name_at (entered i spec dir t) (at_spec i) = spec"
proof -
  let ?t = "entered i spec dir t"
  note e = entered_nth [OF assms(1-3), where spec = spec and dir = dir]
  have len: "at_spec i + 32 \<le> length ?t"
    using assms(1,2) e(1) by (simp add: wf_mtab_def at_spec_def NMNT_def NAMSIZ_def)
  have b: "?t ! (at_spec i + j) = (if j < length spec then spec ! j else 0)" if "j < 32" for j
    using that e(4) [of j] e(6) assms(4) by (cases "j = 31") auto
  have "take (length spec) (drop (at_spec i) ?t) = spec"
    by (rule nth_equalityI) (use len b assms(4) in auto)
  moreover have "drop (length spec) (drop (at_spec i) ?t) = 0 # drop (length spec + 1) (drop (at_spec i) ?t)"
    using len b [of "length spec"] assms(4) Cons_nth_drop_Suc [of "at_spec i + length spec" ?t]
    by (simp add: add.commute)
  ultimately have "drop (at_spec i) ?t = spec @ 0 # drop (length spec + 1) (drop (at_spec i) ?t)"
    by (metis append_take_drop_id)
  then show ?thesis unfolding name_at_def using assms(5) by (auto simp: takeWhile_append takeWhile_eq_all_conv)
qed

lemma entered_name_other:
  assumes "wf_mtab t" "i < NMNT" "\<not> in_use t i" "j < NMNT" "j \<noteq> i" "length d < 32" "0 \<notin> set d"
    "name_at t (at_spec j) \<noteq> d"
  shows "same_name d (at_spec j) (entered i spec dir t) = Some False"
proof -
  let ?t = "entered i spec dir t"
  have eq: "?t ! (at_spec j + m) = t ! (at_spec j + m)" if "m < 32" for m
    using entered_other [OF assms(1-5), of "NAMSIZ + m"] that by (simp add: at_spec_def at_file_def NAMSIZ_def add.assoc)
  have len: "at_spec j + 31 < length t" "length ?t = length t"
    using assms(1,4) entered_nth(1) [OF assms(1-3)] by (simp_all add: wf_mtab_def at_spec_def NMNT_def NAMSIZ_def)
  have z: "t ! (at_spec j + 31) = 0" using assms(1,4) by (simp add: wf_mtab_def)
  have "take 32 (drop (at_spec j) ?t) = take 32 (drop (at_spec j) t)"
    by (rule nth_equalityI) (use len eq in auto)
  moreover have "takeWhile (\<lambda>c. c \<noteq> 0) (drop p u) = takeWhile (\<lambda>c. c \<noteq> 0) (take 32 (drop p u))"
    if "u ! (p + 31) = 0" "p + 31 < length u" for p and u :: "u8 list"
  proof -
    have "\<not> (take 32 (drop p u)) ! 31 \<noteq> 0" "31 < length (take 32 (drop p u))" using that by auto
    then have "(0 :: u8) \<in> set (take 32 (drop p u))" by (metis nth_mem)
    then show ?thesis by (metis (mono_tags, lifting) append_take_drop_id takeWhile_append1)
  qed
  ultimately have "name_at ?t (at_spec j) = name_at t (at_spec j)"
    using z eq [of 31] len by (simp add: name_at_def)
  then show ?thesis
    using same_name_iff [OF assms(7), of "at_spec j" "at_spec j + 31" ?t] eq [of 31] z len assms(8) by simp
qed

lemma remove_from_entered:
  assumes "wf_mtab t" "i < NMNT" "\<not> in_use t i" "length d < 32" "0 \<notin> set d" "\<forall>j < NMNT. name_at t (at_spec j) \<noteq> d"
    "n \<le> i"
  shows "remove_from [n..<NMNT] d (entered i d dir t) = map_option Wrote (saved t)"
  using assms(7)
proof (induction "i - n" arbitrary: n)
  case 0
  have u: "[n..<NMNT] = n # [n + 1..<NMNT]" using 0 assms(2) by (simp add: upt_conv_Cons)
  have len: "at_spec i + 31 < length (entered i d dir t)"
    using assms(1,2) entered_nth(1) [OF assms(1-3)] by (simp add: wf_mtab_def at_spec_def NMNT_def NAMSIZ_def)
  have "same_name d (at_spec i) (entered i d dir t) = Some True"
    using same_name_iff [OF assms(5) _ len] entered_nth(6) [OF assms(1-3)] entered_name [OF assms(1-5)] by simp
  with 0 show ?case using clear_entered [OF assms(1-3), of d dir] by (simp add: u)
next
  case (Suc m)
  have u: "[n..<NMNT] = n # [n + 1..<NMNT]" using Suc.hyps(2) assms(2) by (simp add: upt_conv_Cons)
  have "same_name d (at_spec n) (entered i d dir t) = Some False"
    by (rule entered_name_other [OF assms(1-3)]) (use Suc.hyps(2) assms in auto)
  moreover have "remove_from [n + 1..<NMNT] d (entered i d dir t) = map_option Wrote (saved t)"
    using Suc by simp
  ultimately show ?case unfolding u by simp
qed

lemma free_entry_Some: "free_entry t = Some i \<Longrightarrow> i < NMNT \<and> \<not> in_use t i"
  by (auto simp: free_entry_def find_Some_iff)

lemma saved_Some: "i < NMNT \<Longrightarrow> in_use t i \<Longrightarrow> \<exists>f. saved t = Some f"
  using last_used_None [of t NMNT] by (cases "last_used t NMNT") (auto simp: saved_def)

text \<open>
  C40: Unmounting undoes mounting, unless nothing else is mounted.  When the table has room and does not name the
  device, \<open>mount\<close> writes a table with the entry; \<open>umount\<close> of the device, reading that, finds the entry and writes a table
  that reads as the old one.  But when no other file system is mounted it runs off the front of the table while it
  looks for the last entry in use.
\<close>

theorem umount_undoes_mount:
  assumes "wf_mtab (load_tab f)" "free_entry (load_tab f) = Some i" "device_name a = Some d" "length d < 32" "0 \<notin> set d"
    "\<forall>j < NMNT. name_at (load_tab f) (at_spec j) \<noteq> d" "dir \<noteq> []" "0 \<notin> set dir" "0 \<le> r a dir False" "0 \<le> r' a"
  shows "\<exists>f'. mount_cmd r [a, dir] f = Some (Wrote f') \<and> name_at (load_tab f') (at_spec i) = d
    \<and> (if \<exists>j < NMNT. in_use (load_tab f) j
       then \<exists>g. umount_cmd r' [a] f' = Some (Wrote g) \<and> load_tab g = load_tab f
       else umount_cmd r' [a] f' = None)"
proof -
  let ?t = "load_tab f" and ?u = "entered i d dir (load_tab f)"
  have i: "i < NMNT" "\<not> in_use ?t i" using free_entry_Some [OF assms(2)] by auto
  note w = entered_wf [OF assms(1) i assms(7,8), where spec = d]
  obtain f' where f': "saved ?u = Some f'" using saved_Some [OF i(1) w(2)] by blast
  have m: "mount_cmd r [a, dir] f = Some (Wrote f')"
    using assms(2,3,9) f' by (simp add: mount_cmd_def enter_def entered_def Let_def)
  have l: "load_tab f' = ?u" by (rule load_saved [OF w(1) f'])
  have "umount_cmd r' [a] f' = map_option Wrote (saved ?t)"
    using assms(3,10) l remove_from_entered [OF assms(1) i assms(4,5,6), of 0 dir] by (simp add: umount_cmd_def Let_def)
  moreover have "(\<exists>j < NMNT. in_use ?t j) \<longleftrightarrow> saved ?t \<noteq> None"
    using last_used_None [of ?t NMNT] by (auto simp: saved_def)
  moreover have "saved ?t = Some g \<Longrightarrow> load_tab g = ?t" for g by (rule load_saved [OF assms(1)])
  moreover have "name_at (load_tab f') (at_spec i) = d"
    unfolding l by (rule entered_name [OF assms(1) i assms(4,5)])
  ultimately show ?thesis using m by (cases "saved ?t") auto
qed

text \<open>\<open>/dev/rk1\<close> is mounted on \<open>/mnt\<close> and unmounted, with nothing else in the table.\<close>

lemma umount_undoes_mount_witness:
  "\<exists>f'. mount_cmd (\<lambda>_ _ _. 0) [bytes ''/dev/rk1'', bytes ''/mnt''] [] = Some (Wrote f')
    \<and> name_at (load_tab f') (at_spec 0) = bytes ''rk1'' \<and> umount_cmd (\<lambda>_. 0) [bytes ''/dev/rk1''] f' = None"
proof -
  let ?z = "load_tab []"
  have z: "?z ! k = 0" if "k < 1024" for k using that by (simp add: load_tab_def NMNT_def NAMSIZ_def)
  have zero: "?z = replicate 1024 0" by (simp add: load_tab_def NMNT_def NAMSIZ_def)
  have u: "\<not> in_use ?z i" if "i < NMNT" for i using that z by (simp add: in_use_def at_file_def NMNT_def NAMSIZ_def)
  have wf: "wf_mtab ?z"
    unfolding wf_mtab_def using z by (auto simp: zero at_file_def at_spec_def NMNT_def NAMSIZ_def)
  have fe: "free_entry ?z = Some 0"
    using u by (simp add: free_entry_def NMNT_def upt_rec)
  have d: "device_name (bytes ''/dev/rk1'') = Some (bytes ''rk1'')" by code_simp
  have n: "\<forall>j < NMNT. name_at ?z (at_spec j) \<noteq> bytes ''rk1''"
    by (auto simp: zero name_at_def bytes_def drop_replicate takeWhile_replicate)
  have b: "length (bytes ''rk1'') < 32" "0 \<notin> set (bytes ''rk1'')" "bytes ''/mnt'' \<noteq> []" "0 \<notin> set (bytes ''/mnt'')"
    by (simp_all add: bytes_def)
  have none: "\<not> (\<exists>j < NMNT. in_use ?z j)" using u by auto
  from umount_undoes_mount [OF wf fe d b(1,2) n b(3,4), of "\<lambda>_ _ _. 0" "\<lambda>_. 0"] none show ?thesis
    by auto
qed

end
