(* ===== verification/Ps.thy ===== *)
theory Ps
  imports Sys4 Uprintf
begin

text \<open>
  The command that prints the processes (\<open>usr/ps.c\<close>): a line for each process that \<open>psinfo\<close> reports, with the words
  of its command from the image of its argument frame.  A read outside the image has no result.
\<close>

definition STKSIZ :: nat where "STKSIZ = 512"

record psbuf =
  ps_stat :: u16
  ps_flag :: u16
  ps_pri :: u16
  ps_uid :: u16
  ps_pid :: u16
  ps_ppid :: u16
  ps_addr :: u16
  ps_wchan :: u16
  ps_base :: u16
  ps_stk :: "nat \<Rightarrow> u8"

section \<open>The image\<close>

definition stkoff :: "psbuf \<Rightarrow> u16 \<Rightarrow> u16" where
  "stkoff b v = v - ps_base b"

definition stk_byte :: "psbuf \<Rightarrow> nat \<Rightarrow> u8 option" where
  "stk_byte b k = (if k < STKSIZ then Some (ps_stk b k) else None)"

definition sword :: "psbuf \<Rightarrow> u16 \<Rightarrow> u16 option" where
  "sword b v =
     Option.bind (stk_byte b (unat (stkoff b v))) (\<lambda>l.
     Option.bind (stk_byte b (unat (stkoff b v) + 1)) (\<lambda>h. Some (mk16 h l)))"

definition inrange :: "psbuf \<Rightarrow> u16 \<Rightarrow> bool" where
  "inrange b v \<longleftrightarrow> stkoff b v \<le> of_nat STKSIZ - 2"

section \<open>The command\<close>

text \<open>\<open>argbuf\<close>: \<open>n\<close> is what is left of its 16 characters.\<close>

fun arg_chars :: "nat \<Rightarrow> psbuf \<Rightarrow> nat \<Rightarrow> u8 list option" where
  "arg_chars 0 b k = Some []"
| "arg_chars (Suc n) b k =
     (if k < STKSIZ then
        Option.bind (stk_byte b k) (\<lambda>c. if c = 0 then Some [] else map_option ((#) c) (arg_chars n b (k + 1)))
      else Some [])"

text \<open>The loop over the arguments from the \<open>j\<close>th on, of which at most \<open>n\<close> are left to print.\<close>

fun prcom_loop :: "nat \<Rightarrow> psbuf \<Rightarrow> u16 \<Rightarrow> u16 \<Rightarrow> u16 \<Rightarrow> u8 list option" where
  "prcom_loop 0 b argc argv j = Some []"
| "prcom_loop (Suc n) b argc argv j =
     (if \<not> slt16 j argc then Some []
      else if \<not> inrange b (argv + j * 2) then Some []
      else
        Option.bind (sword b (argv + j * 2)) (\<lambda>ai.
          let k = unat (stkoff b ai)
          in if k \<ge> STKSIZ then Some []
             else
               Option.bind (arg_chars 16 b k) (\<lambda>argbuf.
               Option.bind (vsprintf (bytes ''%s'') [UStr argbuf]) (\<lambda>t.
                 map_option ((@) (t @ (if slt16 j (argc - 1) then [32] else [])))
                   (prcom_loop n b argc argv (j + 1))))))"

definition prcom :: "psbuf \<Rightarrow> u8 list option" where
  "prcom b =
     Option.bind (sword b (ps_base b + (of_nat STKSIZ - 4))) (\<lambda>sp.
       if \<not> inrange b sp \<or> \<not> inrange b (sp + 2) then Some []
       else
         Option.bind (sword b sp) (\<lambda>argc.
         Option.bind (sword b (sp + 2)) (\<lambda>argv. map_option ((#) 32) (prcom_loop 8 b argc argv 0))))"

section \<open>A line\<close>

definition stat_char :: "u16 \<Rightarrow> u16 option" where
  "stat_char i = (if unat i < 8 then Some ([0x30, 0x53, 0x57, 0x52, 0x49, 0x5A, 0x54, 0] ! unat i) else None)"

fun joined :: "u8 list option list \<Rightarrow> u8 list option" where
  "joined [] = Some []"
| "joined (t # ts) = Option.bind t (\<lambda>t. map_option ((@) t) (joined ts))"

definition ps_line :: "psbuf \<Rightarrow> u8 list option" where
  "ps_line b =
     (if ps_stat b = 0 then Some []
      else
        joined
          [Option.bind (stat_char (ps_stat b)) (\<lambda>c.
             vsprintf (bytes ''%2x %c%4d'') [UInt (ps_flag b), UInt c, UInt (ps_uid b)]),
           vsprintf (bytes ''%6u'') [UInt (ps_pid b)],
           vsprintf (bytes ''%6d%5x'') [UInt (ps_pri b), UInt (ps_addr b)],
           (if ps_wchan b \<noteq> 0 then vsprintf (bytes ''%7x'') [UInt (ps_wchan b)] else vsprintf (bytes ''       '') []),
           (if ps_stat b = 5 then vsprintf (bytes '' <defunct>'') []
            else if ps_pid b = 0 then vsprintf (bytes '' swaper'') []
            else if ps_pid b = 1 then vsprintf (bytes '' init'') []
            else if ps_base b \<noteq> 0 then prcom b
            else Some []),
           vsprintf [10] []])"

text \<open>The processes, as \<open>psinfo\<close> reports them one after the other until it fails.\<close>

definition ps_main :: "psbuf list \<Rightarrow> u8 list option" where
  "ps_main infos =
     joined (vsprintf (bytes ('' F S UID   PID   PRI ADDR  WCHAN COMMAND'' @ [CHR 0x0A])) [] # map ps_line infos)"

section \<open>All reads are inside\<close>

lemma sword_Some: "inrange b v \<Longrightarrow> \<exists>x. sword b v = Some x"
  by (auto simp: inrange_def sword_def stk_byte_def STKSIZ_def word_le_nat_alt)

lemma arg_chars_Some: "\<exists>t. arg_chars n b k = Some t"
  by (induction n arbitrary: k) (auto simp: stk_byte_def)

lemma plain_string: "vsprintf (bytes ''%s'') [UStr t] = Some (putsr False 32 0 False 0 (takeWhile (\<lambda>c. c \<noteq> 0) t))"
  by (simp add: bytes_def vsprintf.simps directive_def skip_flag_def precision_def converted_def)

lemma prcom_loop_Some: "\<exists>t. prcom_loop n b argc argv j = Some t"
proof (induction n arbitrary: j)
  case (Suc n)
  obtain t where t: "prcom_loop n b argc argv (j + 1) = Some t" using Suc by blast
  show ?case
  proof (cases "inrange b (argv + j * 2)")
    case True
    then obtain ai where ai: "sword b (argv + j * 2) = Some ai" using sword_Some by blast
    obtain cs where "arg_chars 16 b (unat (stkoff b ai)) = Some cs" using arg_chars_Some by blast
    with True ai t show ?thesis by (simp add: plain_string Let_def)
  qed simp
qed simp

lemma prcom_inside: "prcom b \<noteq> None"
proof -
  have "inrange b (ps_base b + (of_nat STKSIZ - 4))" by (simp add: inrange_def stkoff_def STKSIZ_def)
  then obtain sp where sp: "sword b (ps_base b + (of_nat STKSIZ - 4)) = Some sp" using sword_Some by blast
  show ?thesis
  proof (cases "inrange b sp \<and> inrange b (sp + 2)")
    case True
    then obtain argc argv where "sword b sp = Some argc" "sword b (sp + 2) = Some argv" using sword_Some by blast
    with True sp prcom_loop_Some [of 8 b argc argv 0] show ?thesis by (auto simp: prcom_def)
  qed (use sp in \<open>simp add: prcom_def\<close>)
qed

end
