(* ===== verification/PsFacts.thy ===== *)
theory PsFacts
  imports Ps IoFacts
begin

text \<open>
  The kernel and \<open>ps\<close>: the argument frame that \<open>exec\<close> leaves on the stack of a process is where \<open>psinfo\<close> and \<open>ps\<close> look
  for it, and \<open>ps\<close> prints the words the command was given.
\<close>

section \<open>The memory of the process\<close>

text \<open>The byte at an address of the running process.\<close>

definition ubyte :: "kst \<Rightarrow> nat \<Rightarrow> u8" where
  "ubyte s i = memory s (lin (user_seg s) (of_nat i))"

lemma lin_inj: "i < 65536 \<Longrightarrow> j < 65536 \<Longrightarrow> lin seg (of_nat i) = lin seg (of_nat j) \<longleftrightarrow> i = j"
  by (simp add: lin_def unat_of_nat)

definition same_but_memory :: "kst \<Rightarrow> kst \<Rightarrow> bool" where
  "same_but_memory s t \<longleftrightarrow> t = s\<lparr>memory := memory t\<rparr>"

lemma same_but_memory_trans: "same_but_memory s t \<Longrightarrow> same_but_memory t u \<Longrightarrow> same_but_memory s u"
  by (cases s; cases t; cases u) (simp add: same_but_memory_def)

lemma same_but_memory_fields:
  assumes "same_but_memory s t"
  shows "bufs t = bufs s" "user_seg t = user_seg s"
proof -
  have t: "t = s\<lparr>memory := memory t\<rparr>" using assms by (simp add: same_but_memory_def)
  show "bufs t = bufs s" by (subst t) simp
  show "user_seg t = user_seg s" by (subst t) (simp add: user_seg_def)
qed

lemma stores_same [simp]: "same_but_memory s (subyte a x s)" "same_but_memory s (suword a w s)"
  by (simp_all add: subyte_def suword_def same_but_memory_def)

lemma subyte_ubyte:
  "c < 65536 \<Longrightarrow> i < 65536 \<Longrightarrow> ubyte (subyte (of_nat c) x s) i = (if i = c then x else ubyte s i)"
  using lin_inj [of i c "user_seg s"] by (simp add: ubyte_def subyte_def user_seg_def)

lemma suword_ubyte:
  assumes "c + 1 < 65536" "i < 65536"
  shows "ubyte (suword (of_nat c) x s) i = (if i = c then lo8 x else if i = c + 1 then hi8 x else ubyte s i)"
proof -
  let ?g = "user_seg s"
  have e: "(of_nat c :: u16) + 1 = of_nat (c + 1)" by simp
  have m: "memory (suword (of_nat c) x s) = (memory s)(lin ?g (of_nat c) := lo8 x, lin ?g (of_nat (c + 1)) := hi8 x)"
    unfolding suword_def poke16_def e by simp
  have g: "user_seg (suword (of_nat c) x s) = ?g" by (simp add: suword_def user_seg_def)
  have "lin ?g (of_nat i) = lin ?g (of_nat c) \<longleftrightarrow> i = c" "lin ?g (of_nat i) = lin ?g (of_nat (c + 1)) \<longleftrightarrow> i = c + 1"
    by (rule lin_inj; use assms in simp)+
  then show "ubyte (suword (of_nat c) x s) i = (if i = c then lo8 x else if i = c + 1 then hi8 x else ubyte s i)"
    unfolding ubyte_def g m fun_upd_apply by auto
qed

section \<open>Copying the words\<close>

definition strs :: "u8 list list \<Rightarrow> u8 list" where
  "strs as = concat (map (\<lambda>a. a @ [0]) as)"

lemma strs_simps [simp]: "strs [] = []" "strs (a # as) = a @ 0 # strs as"
  by (simp_all add: strs_def)

text \<open>The buffer holds these bytes from \<open>k\<close> on.\<close>

definition buf_has :: "kst \<Rightarrow> nat \<Rightarrow> nat \<Rightarrow> u8 list \<Rightarrow> bool" where
  "buf_has s bp k bs \<longleftrightarrow> (\<forall>i < length bs. get_byte (b_data (bufs s bp)) (k + i) = bs ! i)"

lemma buf_has_Cons: "buf_has s bp k (b # bs) \<longleftrightarrow> get_byte (b_data (bufs s bp)) k = b \<and> buf_has s bp (k + 1) bs"
  by (auto simp: buf_has_def All_less_Suc2)

lemma buf_has_append: "buf_has s bp k (as @ bs) \<longleftrightarrow> buf_has s bp k as \<and> buf_has s bp (k + length as) bs"
  by (induction as arbitrary: k) (auto simp: buf_has_Cons, simp_all add: buf_has_def)

lemma buf_has_same: "same_but_memory s t \<Longrightarrow> buf_has t bp k bs = buf_has s bp k bs"
  by (simp add: buf_has_def same_but_memory_fields)

text \<open>The memory of the process holds these bytes from \<open>c\<close> on; it is as before outside a range.\<close>

definition mem_has :: "kst \<Rightarrow> nat \<Rightarrow> u8 list \<Rightarrow> bool" where
  "mem_has s c bs \<longleftrightarrow> (\<forall>i < length bs. ubyte s (c + i) = bs ! i)"

definition only_in :: "nat set \<Rightarrow> kst \<Rightarrow> kst \<Rightarrow> bool" where
  "only_in A s t \<longleftrightarrow> same_but_memory s t \<and> (\<forall>i < 65536. i \<notin> A \<longrightarrow> ubyte t i = ubyte s i)"

lemma mem_has_Cons: "mem_has s c (b # bs) \<longleftrightarrow> ubyte s c = b \<and> mem_has s (c + 1) bs"
  by (auto simp: mem_has_def All_less_Suc2)

lemma mem_has_append: "mem_has s c (as @ bs) \<longleftrightarrow> mem_has s c as \<and> mem_has s (c + length as) bs"
  by (induction as arbitrary: c) (auto simp: mem_has_Cons, simp_all add: mem_has_def)

lemma only_in_trans:
  assumes "only_in A s t" "only_in B t u" "A \<union> B \<subseteq> C"
  shows "only_in C s u"
proof -
  have "same_but_memory s u" using assms(1,2) same_but_memory_trans unfolding only_in_def by blast
  moreover have "ubyte u i = ubyte s i" if "i < 65536" "i \<notin> C" for i
    using assms that unfolding only_in_def by (metis UnI1 UnI2 subsetD)
  ultimately show ?thesis by (simp add: only_in_def)
qed

text \<open>Bytes that are in none of the ranges.\<close>

definition apart :: "nat \<Rightarrow> nat \<Rightarrow> nat set \<Rightarrow> bool" where
  "apart c n A \<longleftrightarrow> {c..<c + n} \<inter> A = {}"

lemma apart_simps [simp]:
  "apart c n (A \<union> B) \<longleftrightarrow> apart c n A \<and> apart c n B"
  "apart c n {a..<b} \<longleftrightarrow> n = 0 \<or> b \<le> a \<or> c + n \<le> a \<or> b \<le> c"
  subgoal by (auto simp: apart_def)
  subgoal by (auto simp: apart_def disjoint_iff)
  done

lemma only_in_mem_has:
  "only_in A s t \<Longrightarrow> apart c (length bs) A \<Longrightarrow> c + length bs \<le> 65536 \<Longrightarrow> mem_has t c bs = mem_has s c bs"
  unfolding only_in_def mem_has_def apart_def by (auto simp: disjoint_iff)

lemma exec_copy_word:
  "buf_has s bp k (cs @ [0]) \<Longrightarrow> 0 \<notin> set cs \<Longrightarrow> c + length cs + 1 < 65536 \<Longrightarrow> length cs < n \<Longrightarrow>
    \<exists>t. exec_copy n bp k (of_nat c) s = (k + length cs + 1, of_nat (c + length cs + 1), t)
      \<and> mem_has t c (cs @ [0]) \<and> only_in {c..<c + length cs + 1} s t"
proof (induction cs arbitrary: n k c s)
  case Nil
  then obtain m where n: "n = Suc m" by (cases n) auto
  have x: "get_byte (b_data (bufs s bp)) k = 0" using Nil by (simp add: buf_has_Cons)
  show ?case
    using x n subyte_ubyte [where c = c and x = 0 and s = s] Nil(3)
    by (intro exI [of _ "subyte (of_nat c) 0 s"]) (auto simp: mem_has_def only_in_def)
next
  case (Cons x cs)
  then obtain m where n: "n = Suc m" "length cs < m" by (cases n) auto
  let ?s = "subyte (of_nat c) x s"
  have x: "get_byte (b_data (bufs s bp)) k = x" "x \<noteq> 0" using Cons.prems by (auto simp: buf_has_Cons)
  have sb: "same_but_memory s ?s" "ubyte ?s c = x" "only_in {c..<c + 1} s ?s"
    using subyte_ubyte [where c = c and x = x and s = s] Cons.prems(3) by (auto simp: only_in_def)
  have "buf_has ?s bp (k + 1) (cs @ [0])" using Cons.prems(1) by (simp add: buf_has_Cons buf_has_same [OF sb(1)])
  from Cons.IH [OF this, of "c + 1" m] Cons.prems n obtain t where
    t: "exec_copy m bp (k + 1) (of_nat (c + 1)) ?s = (k + 1 + length cs + 1, of_nat (c + 1 + length cs + 1), t)"
      "mem_has t (c + 1) (cs @ [0])" "only_in {c + 1..<c + 1 + length cs + 1} ?s t" by auto
  have "(of_nat c :: u16) + 1 = of_nat (c + 1)" by simp
  then have "exec_copy n bp k (of_nat c) s = (k + length (x # cs) + 1, of_nat (c + length (x # cs) + 1), t)"
    using n x t(1) by (simp add: Let_def add.commute)
  moreover have "mem_has t c ((x # cs) @ [0])"
    using t(2,3) sb(2) Cons.prems(3) by (simp add: mem_has_Cons only_in_def)
  moreover have "only_in {c..<c + length (x # cs) + 1} s t"
    by (rule only_in_trans [OF sb(3) t(3)]) auto
  ultimately show ?case by blast
qed

text \<open>The vector of the addresses of the words, which start at \<open>c\<close>.\<close>

fun pointers :: "nat \<Rightarrow> u8 list list \<Rightarrow> u8 list" where
  "pointers c [] = []"
| "pointers c (a # as) = lo8 (of_nat c) # hi8 (of_nat c) # pointers (c + length a + 1) as"

lemma pointers_length [simp]: "length (pointers c as) = 2 * length as"
  by (induction c as rule: pointers.induct) simp_all

lemma exec_vector_words:
  "buf_has s bp k (strs as) \<Longrightarrow> \<forall>a \<in> set as. 0 \<notin> set a \<and> length a < 512 \<Longrightarrow> c + length (strs as) < 65536 \<Longrightarrow>
    ap + 2 * length as \<le> c \<Longrightarrow>
    \<exists>t. exec_vector (length as) bp k (of_nat c) (of_nat ap) s = (of_nat (ap + 2 * length as), t)
      \<and> mem_has t c (strs as) \<and> mem_has t ap (pointers c as)
      \<and> only_in ({ap..<ap + 2 * length as} \<union> {c..<c + length (strs as)}) s t"
proof (induction as arbitrary: k c ap s)
  case Nil
  then show ?case by (intro exI [of _ s]) (simp add: mem_has_def only_in_def same_but_memory_def)
next
  case (Cons a as)
  let ?s = "suword (of_nat ap) (of_nat c) s" and ?p = "[lo8 (of_nat c), hi8 (of_nat c)]"
  have sb: "only_in {ap..<ap + 2} s ?s" "mem_has ?s ap ?p"
    using suword_ubyte [where c = ap and x = "of_nat c" and s = s] Cons.prems(3,4)
    by (auto simp: only_in_def mem_has_Cons mem_has_def)
  have "buf_has ?s bp k (strs (a # as))" using Cons.prems(1) buf_has_same [OF stores_same(2)] by blast
  then have b: "buf_has ?s bp k (a @ [0])" "buf_has ?s bp (k + length a + 1) (strs as)"
    by (simp_all add: buf_has_append buf_has_Cons) (simp add: buf_has_def)
  have "0 \<notin> set a" "c + length a + 1 < 65536" "length a < 512" using Cons.prems(2,3) by simp_all
  from exec_copy_word [OF b(1) this] obtain u where
    u: "exec_copy 512 bp k (of_nat c) ?s = (k + length a + 1, of_nat (c + length a + 1), u)"
      "mem_has u c (a @ [0])" "only_in {c..<c + length a + 1} ?s u" by blast
  have "same_but_memory ?s u" using u(3) by (simp add: only_in_def)
  then have "buf_has u bp (k + length a + 1) (strs as)" using b(2) buf_has_same by blast
  from Cons.IH [OF this, of "c + length a + 1" "ap + 2"] Cons.prems(2,3,4) obtain t where
    t: "exec_vector (length as) bp (k + length a + 1) (of_nat (c + length a + 1)) (of_nat (ap + 2)) u
        = (of_nat (ap + 2 + 2 * length as), t)"
      "mem_has t (c + length a + 1) (strs as)" "mem_has t (ap + 2) (pointers (c + length a + 1) as)"
      "only_in ({ap + 2..<ap + 2 + 2 * length as} \<union> {c + length a + 1..<c + length a + 1 + length (strs as)}) u t" by auto
  have "(of_nat ap :: u16) + 2 = of_nat (ap + 2)" by simp
  then have "exec_vector (length (a # as)) bp k (of_nat c) (of_nat ap) s = (of_nat (ap + 2 * length (a # as)), t)"
    using u(1) t(1) by (simp add: add.commute)
  moreover have "mem_has t c (strs (a # as))"
  proof -
    have "mem_has t c (a @ [0])"
      using only_in_mem_has [OF t(4), of c "a @ [0]"] u(2) Cons.prems(3,4) by auto
    with t(2) show ?thesis by (simp add: mem_has_append mem_has_Cons)
  qed
  moreover have "mem_has t ap (pointers c (a # as))"
  proof -
    have "mem_has u ap ?p" using only_in_mem_has [OF u(3), of ap ?p] sb(2) Cons.prems(3,4) by auto
    then have "mem_has t ap ?p" using only_in_mem_has [OF t(4), of ap ?p] Cons.prems(3,4) by auto
    with t(3) show ?thesis by (simp add: mem_has_Cons)
  qed
  moreover have "only_in ({ap..<ap + 2 * length (a # as)} \<union> {c..<c + length (strs (a # as))}) s t"
    by (rule only_in_trans [OF only_in_trans [OF sb(1) u(3) subset_refl] t(4)]) auto
  ultimately show ?case by blast
qed

section \<open>The frame\<close>

definition word_bytes :: "u16 \<Rightarrow> u8 list" where
  "word_bytes w = [lo8 w, hi8 w]"

lemma word_bytes_length [simp]: "length (word_bytes w) = 2"
  by (simp add: word_bytes_def)

lemma suword_stores:
  assumes "c + 1 < 65536"
  shows "only_in {c..<c + 2} s (suword (of_nat c) x s)" "mem_has (suword (of_nat c) x s) c (word_bytes x)"
  using suword_ubyte [where c = c and x = x and s = s] assms
  by (auto simp: only_in_def mem_has_Cons mem_has_def word_bytes_def)

definition FTOP :: nat where "FTOP = 61436"

text \<open>The frame at \<open>ap\<close> of a command with these words, whose strings start at \<open>c\<close>.\<close>

definition has_frame :: "kst \<Rightarrow> nat \<Rightarrow> nat \<Rightarrow> u8 list list \<Rightarrow> bool" where
  "has_frame t ap c as \<longleftrightarrow>
     mem_has t FTOP (word_bytes (of_nat ap)) \<and> mem_has t ap (word_bytes (of_nat (length as)))
     \<and> mem_has t (ap + 2) (word_bytes (of_nat (ap + 4))) \<and> mem_has t (ap + 4) (pointers c as) \<and> mem_has t c (strs as)"

lemma has_frame_kept:
  assumes "has_frame s ap c as" "only_in {a..<b} s t" "ap + 6 + 2 * length as \<le> c" "c + length (strs as) \<le> FTOP"
    "b \<le> ap \<or> ap + 4 + 2 * length as \<le> a \<and> b \<le> c"
  shows "has_frame t ap c as"
proof -
  have "mem_has t x bs = mem_has s x bs" if "apart x (length bs) {a..<b}" "x + length bs \<le> 65536" for x bs
    using only_in_mem_has [OF assms(2) that] .
  then have "mem_has t FTOP (word_bytes (of_nat ap)) = mem_has s FTOP (word_bytes (of_nat ap))"
    "mem_has t ap (word_bytes (of_nat (length as))) = mem_has s ap (word_bytes (of_nat (length as)))"
    "mem_has t (ap + 2) (word_bytes (of_nat (ap + 4))) = mem_has s (ap + 2) (word_bytes (of_nat (ap + 4)))"
    "mem_has t (ap + 4) (pointers c as) = mem_has s (ap + 4) (pointers c as)"
    "mem_has t c (strs as) = mem_has s c (strs as)"
    using assms(3-5) by (auto simp: FTOP_def)
  with assms(1) show ?thesis by (simp only: has_frame_def)
qed

text \<open>The words that start the program are stored below the frame.\<close>

lemma below_frame:
  assumes "has_frame s ap c as" "ap + 6 + 2 * length as \<le> c" "c + length (strs as) \<le> FTOP" "x + 2 \<le> ap"
  shows "has_frame (suword (of_nat x) v s) ap c as"
  by (rule has_frame_kept [OF assms(1) suword_stores(1) assms(2,3)]) (use assms in \<open>auto simp: FTOP_def\<close>)

lemma exec_stack_vector:
  assumes "buf_has s bp 0 (strs as)" "\<forall>a \<in> set as. 0 \<notin> set a \<and> length a < 512"
    "ap + 6 + 2 * length as = c" "c + length (strs as) \<le> FTOP"
  shows "\<exists>t. exec_vector (length as) bp 0 (of_nat c) (of_nat (ap + 4))
        (suword (of_nat (ap + 2)) (of_nat (ap + 4)) (suword (of_nat ap) (of_nat (length as)) (suword (of_nat FTOP) (of_nat ap) s)))
      = (of_nat (ap + 4 + 2 * length as), t) \<and> has_frame t ap c as \<and> user_seg t = user_seg s"
proof -
  let ?s1 = "suword (of_nat FTOP) (of_nat ap) s"
  let ?s2 = "suword (of_nat ap) (of_nat (length as)) ?s1"
  let ?s3 = "suword (of_nat (ap + 2)) (of_nat (ap + 4)) ?s2"
  have same: "same_but_memory s ?s3" by (meson stores_same(2) same_but_memory_trans)
  have b: "buf_has ?s3 bp 0 (strs as)" using assms(1) buf_has_same [OF same] by blast
  have top: "FTOP + 1 < 65536" by (simp add: FTOP_def)
  have le: "c + length (strs as) < 65536" "ap + 4 + 2 * length as \<le> c" "ap + 1 < 65536" "ap + 2 + 1 < 65536"
    using assms(3,4) top by linarith+
  from exec_vector_words [OF b assms(2) le(1,2)] obtain t where
    t: "exec_vector (length as) bp 0 (of_nat c) (of_nat (ap + 4)) ?s3 = (of_nat (ap + 4 + 2 * length as), t)"
      "mem_has t c (strs as)" "mem_has t (ap + 4) (pointers c as)"
      "only_in ({ap + 4..<ap + 4 + 2 * length as} \<union> {c..<c + length (strs as)}) ?s3 t" by blast
  have "mem_has ?s3 (ap + 2) (word_bytes (of_nat (ap + 4)))" using suword_stores(2) [OF le(4)] .
  moreover have "mem_has ?s3 ap (word_bytes (of_nat (length as)))"
    using only_in_mem_has [OF suword_stores(1) [OF le(4)], of ap "word_bytes (of_nat (length as))"]
      suword_stores(2) [OF le(3)] le by simp
  moreover have "mem_has ?s2 FTOP (word_bytes (of_nat ap))"
    using only_in_mem_has [OF suword_stores(1) [OF le(3)], of FTOP "word_bytes (of_nat ap)"]
      suword_stores(2) [OF top] assms(3,4) top by simp
  then have "mem_has ?s3 FTOP (word_bytes (of_nat ap))"
    using only_in_mem_has [OF suword_stores(1) [OF le(4)], of FTOP "word_bytes (of_nat ap)"] assms(3,4) top by simp
  moreover have "mem_has t x bs = mem_has ?s3 x bs"
    if "apart x (length bs) ({ap + 4..<ap + 4 + 2 * length as} \<union> {c..<c + length (strs as)})" "x + length bs \<le> 65536" for x bs
    using only_in_mem_has [OF t(4) that] .
  ultimately have "has_frame t ap c as"
    using t(2,3) assms(3,4) top by (simp add: has_frame_def)
  moreover have "user_seg t = user_seg s"
    using same_but_memory_fields(2) [OF same_but_memory_trans [OF same]] t(4) unfolding only_in_def by blast
  ultimately show ?thesis using t(1) by blast
qed

lemma set_sp_frame: "has_frame (set_u (\<lambda>w. w\<lparr>u_sp := x\<rparr>) s) ap c as = has_frame s ap c as"
  by (simp add: has_frame_def mem_has_def ubyte_def user_seg_def)

text \<open>\<open>exec\<close> leaves the frame; the strings start at \<open>c\<close> below the top, with the padding behind them.\<close>

lemma exec_stack_frame:
  assumes "buf_has s bp 0 (strs as)" "\<forall>a \<in> set as. 0 \<notin> set a" "length (strs as) \<le> nc" "nc + 2 * length as + 10 \<le> 512"
  shows "has_frame (exec_stack bp (of_nat (length as)) nc s) (FTOP - nc - 2 * length as - 6) (FTOP - nc) as
    \<and> user_seg (exec_stack bp (of_nat (length as)) nc s) = user_seg s"
proof -
  let ?n = "length as"
  obtain ap c where ap: "ap = FTOP - nc - 2 * ?n - 6" "c = FTOP - nc" by blast
  have small: "ap + 6 + 2 * ?n = c" "c + nc = FTOP" "24 \<le> ap" "FTOP < 65536"
    using assms(4) ap by (simp_all add: FTOP_def)
  have n: "unat (of_nat ?n :: u16) = ?n" using assms(4) by (simp add: unat_of_nat)
  have top: "(0xF000 - 4 :: u16) = of_nat FTOP" by (simp add: FTOP_def)
  have c: "(of_nat FTOP :: u16) - of_nat nc = of_nat c" unfolding small(2) [symmetric] by simp
  have d: "(of_nat c :: u16) - of_nat ?n * 2 - 6 = of_nat ap" unfolding small(1) [symmetric] by simp
  have w: "(of_nat ap :: u16) + 2 = of_nat (ap + 2)" "(of_nat ap :: u16) + 4 = of_nat (ap + 4)" by simp_all
  obtain ts where ts: "ap = ts + 24" using small(3) le_Suc_ex add.commute by metis
  have t: "(of_nat ap :: u16) - 24 = of_nat ts" "(of_nat ts :: u16) + 2 = of_nat (ts + 2)" "(of_nat ts :: u16) + 18 = of_nat (ts + 18)"
    "(of_nat ts :: u16) + 20 = of_nat (ts + 20)" "(of_nat ts :: u16) + 22 = of_nat (ts + 22)" unfolding ts by simp_all
  have "\<forall>a \<in> set as. 0 \<notin> set a \<and> length a < 512"
  proof
    fix a
    assume a: "a \<in> set as"
    then have "length a \<le> length (strs as)" by (induction as) auto
    with assms a show "0 \<notin> set a \<and> length a < 512" by auto
  qed
  from exec_stack_vector [OF assms(1) this small(1)] assms(3) small(2) obtain u where
    u: "exec_vector ?n bp 0 (of_nat c) (of_nat (ap + 4))
        (suword (of_nat (ap + 2)) (of_nat (ap + 4)) (suword (of_nat ap) (of_nat ?n) (suword (of_nat FTOP) (of_nat ap) s)))
      = (of_nat (ap + 4 + 2 * ?n), u)" "has_frame u ap c as" "user_seg u = user_seg s" by auto
  let ?v = "suword (of_nat (ap + 4 + 2 * ?n)) 0 u"
  have le: "ap + 6 + 2 * ?n \<le> c" "c + length (strs as) \<le> FTOP" using small assms(3) by simp_all
  have v: "has_frame ?v ap c as"
    by (rule has_frame_kept [OF u(2) suword_stores(1) le]) (use small in auto)
  note below = below_frame [OF _ le]
  have fr: "has_frame (suword (of_nat (ts + 22)) 0x200 (suword (of_nat (ts + 20)) ds (suword (of_nat (ts + 18)) 0x100
      (suword (of_nat (ts + 2)) ds (suword (of_nat ts) ds ?v))))) ap c as" for ds
    by (intro below v) (simp_all add: ts)
  have seg: "user_seg (suword a x z) = user_seg z" "user_seg (set_u (\<lambda>w. w\<lparr>u_sp := y\<rparr>) z) = user_seg z" for a x y z
    by (simp_all add: suword_def user_seg_def)
  have e: "exec_stack bp (of_nat ?n) nc s = set_u (\<lambda>w. w\<lparr>u_sp := of_nat ts\<rparr>)
      (suword (of_nat (ts + 22)) 0x200 (suword (of_nat (ts + 20)) (user_seg ?v) (suword (of_nat (ts + 18)) 0x100
        (suword (of_nat (ts + 2)) (user_seg ?v) (suword (of_nat ts) (user_seg ?v) ?v)))))"
    unfolding exec_stack_def Let_def top c d w t n u(1) prod.case ..
  have "has_frame (exec_stack bp (of_nat ?n) nc s) ap c as" unfolding e set_sp_frame by (rule fr)
  moreover have "user_seg (exec_stack bp (of_nat ?n) nc s) = user_seg s" unfolding e seg by (rule u(3))
  ultimately show ?thesis unfolding ap by blast
qed

section \<open>What ps prints\<close>

text \<open>The 512 bytes at the top of the stack, as \<open>psinfo\<close> copies them.\<close>

definition image_of :: "kst \<Rightarrow> psbuf \<Rightarrow> bool" where
  "image_of t b \<longleftrightarrow> ps_base b = ARGFRAME \<and> (\<forall>k < STKSIZ. ps_stk b k = ubyte t (unat ARGFRAME + k))"

lemma stkoff_of: "image_of t b \<Longrightarrow> unat ARGFRAME \<le> a \<Longrightarrow> a < 65536 \<Longrightarrow> unat (stkoff b (of_nat a)) = a - unat ARGFRAME"
  by (simp add: image_of_def stkoff_def unat_sub word_le_nat_alt unat_of_nat)

lemma inrange_of:
  "image_of t b \<Longrightarrow> unat ARGFRAME \<le> a \<Longrightarrow> a + 2 \<le> unat ARGFRAME + STKSIZ \<Longrightarrow> inrange b (of_nat a)"
  using stkoff_of [of t b a] by (simp add: inrange_def STKSIZ_def word_le_nat_alt)

lemma sword_of:
  assumes "image_of t b" "unat ARGFRAME \<le> a" "a + 2 \<le> unat ARGFRAME + STKSIZ" "mem_has t a (word_bytes w)"
  shows "sword b (of_nat a) = Some w"
proof -
  have a: "a < 65536" using assms(3) by (simp add: STKSIZ_def)
  have k: "unat (stkoff b (of_nat a)) = a - unat ARGFRAME" using stkoff_of [OF assms(1,2) a] .
  have "ps_stk b (a - unat ARGFRAME) = lo8 w" "ps_stk b (a - unat ARGFRAME + 1) = hi8 w"
    using assms by (auto simp: image_of_def mem_has_Cons word_bytes_def STKSIZ_def)
  then show ?thesis using k assms(2,3) by (simp add: sword_def stk_byte_def STKSIZ_def)
qed

lemma arg_chars_of:
  "image_of t b \<Longrightarrow> unat ARGFRAME \<le> a \<Longrightarrow> a + length cs < unat ARGFRAME + STKSIZ \<Longrightarrow> mem_has t a (cs @ [0]) \<Longrightarrow> 0 \<notin> set cs \<Longrightarrow>
    arg_chars n b (a - unat ARGFRAME) = Some (take n cs)"
proof (induction cs arbitrary: n a)
  case Nil
  then show ?case by (cases n) (auto simp: image_of_def stk_byte_def mem_has_Cons STKSIZ_def)
next
  case (Cons c cs)
  show ?case
  proof (cases n)
    case (Suc m)
    have "ps_stk b (a - unat ARGFRAME) = c" using Cons.prems by (auto simp: image_of_def mem_has_Cons STKSIZ_def)
    moreover have "arg_chars m b (a + 1 - unat ARGFRAME) = Some (take m cs)"
      by (rule Cons.IH) (use Cons.prems in \<open>auto simp: mem_has_Cons\<close>)
    moreover have "c \<noteq> 0" "a - unat ARGFRAME < STKSIZ" "a + 1 - unat ARGFRAME = a - unat ARGFRAME + 1"
      using Cons.prems by auto
    ultimately show ?thesis using Suc by (simp add: stk_byte_def)
  qed simp
qed

text \<open>At most \<open>n\<close> words, of each the first 16 characters, with blanks between the words of the command.\<close>

fun shown :: "nat \<Rightarrow> u8 list list \<Rightarrow> u8 list" where
  "shown 0 as = []"
| "shown (Suc n) [] = []"
| "shown (Suc n) (a # as) = take 16 a @ (if as \<noteq> [] then [32] else []) @ shown n as"

lemma print_word:
  assumes "0 \<notin> set a" "length a < 32768"
  shows "vsprintf (bytes ''%s'') [UStr a] = Some a"
proof -
  have "vsprintf (37 # 115 # []) [UStr a] = map_option ((@) a) (vsprintf [] [])"
    by (rule vsprintf_simple) (use assms in \<open>auto simp: converted_def takeWhile_eq_all_conv\<close>)
  then show ?thesis by (simp add: bytes_def vsprintf.simps [of "[]"])
qed

lemma small_slt: "i < 32768 \<Longrightarrow> j < 32768 \<Longrightarrow> slt16 (of_nat i) (of_nat j) \<longleftrightarrow> i < j"
  using sint16_eq_unat [of "of_nat i"] sint16_eq_unat [of "of_nat j"] by (simp add: slt16_def unat_of_nat)

lemma prcom_loop_of:
  assumes "image_of t b"
  shows "mem_has t p (pointers x as) \<Longrightarrow> mem_has t x (strs as) \<Longrightarrow> \<forall>a \<in> set as. 0 \<notin> set a \<Longrightarrow>
    unat ARGFRAME \<le> p \<Longrightarrow> p + 2 * length as \<le> unat ARGFRAME + STKSIZ \<Longrightarrow>
    unat ARGFRAME \<le> x \<Longrightarrow> x + length (strs as) \<le> unat ARGFRAME + STKSIZ \<Longrightarrow>
    argv + of_nat j * 2 = of_nat p \<Longrightarrow> j + length as < 32768 \<Longrightarrow>
    prcom_loop n b (of_nat (j + length as)) argv (of_nat j) = Some (shown n as)"
proof (induction n arbitrary: as p x j)
  case (Suc n)
  show ?case
  proof (cases as)
    case Nil
    then show ?thesis by (simp add: slt16_def)
  next
    case (Cons a as')
    let ?argc = "of_nat (j + length as) :: u16"
    have less: "slt16 (of_nat j) ?argc" using small_slt [of j "j + length as"] Suc.prems(9) Cons by simp
    have argc1: "?argc - 1 = of_nat (j + length as')" using Cons by simp
    have follow: "slt16 (of_nat j) (?argc - 1) \<longleftrightarrow> as' \<noteq> []"
      unfolding argc1 using small_slt [of j "j + length as'"] Suc.prems(9) Cons by simp
    have x: "sword b (of_nat p) = Some (of_nat x)"
    proof (rule sword_of [OF assms Suc.prems(4)])
      have "pointers x as = word_bytes (of_nat x) @ pointers (x + length a + 1) as'" using Cons by (simp add: word_bytes_def)
      then show "mem_has t p (word_bytes (of_nat x))" using Suc.prems(1) by (simp add: mem_has_append)
    qed (use Suc.prems(5) Cons in simp)
    have r: "inrange b (of_nat p)" by (rule inrange_of [OF assms Suc.prems(4)]) (use Suc.prems(5) Cons in simp)
    have k: "unat (stkoff b (of_nat x)) = x - unat ARGFRAME"
      by (rule stkoff_of [OF assms Suc.prems(6)]) (use Suc.prems(7) Cons in \<open>simp add: STKSIZ_def\<close>)
    have m: "mem_has t x (a @ [0])" "mem_has t (x + length a + 1) (strs as')"
      using Suc.prems(2) Cons by (simp_all add: mem_has_append mem_has_Cons) (simp add: mem_has_def)
    have c: "arg_chars 16 b (x - unat ARGFRAME) = Some (take 16 a)"
      by (rule arg_chars_of [OF assms Suc.prems(6) _ m(1)]) (use Suc.prems(3,7) Cons in auto)
    have lt: "\<not> STKSIZ \<le> x - unat ARGFRAME" using Suc.prems(6,7) Cons by simp
    have word: "vsprintf (bytes ''%s'') [UStr (take 16 a)] = Some (take 16 a)"
      by (rule print_word) (use Suc.prems(3) Cons in \<open>auto dest: in_set_takeD\<close>)
    have "prcom_loop n b (of_nat (j + 1 + length as')) argv (of_nat (j + 1)) = Some (shown n as')"
    proof (rule Suc.IH)
      show "mem_has t (p + 2) (pointers (x + length a + 1) as')" using Suc.prems(1) Cons by (simp add: mem_has_Cons)
      have "argv + of_nat (j + 1) * 2 = (argv + of_nat j * 2) + 2" by (simp add: algebra_simps)
      then show "argv + of_nat (j + 1) * 2 = of_nat (p + 2)" unfolding Suc.prems(8) by simp
    qed (use Suc.prems m(2) Cons in auto)
    then have rec: "prcom_loop n b ?argc argv (of_nat j + 1) = Some (shown n as')" using Cons by (simp add: add.commute)
    show ?thesis
      unfolding prcom_loop.simps Suc.prems(8) using less r x k lt c word rec follow Cons
      by (simp del: of_nat_add add: Let_def)
  qed
qed simp

lemma prcom_of:
  assumes "image_of t b" "has_frame t ap c as" "ap + 6 + 2 * length as = c" "c + length (strs as) \<le> FTOP"
    "unat ARGFRAME \<le> ap" "\<forall>a \<in> set as. 0 \<notin> set a"
  shows "prcom b = Some (32 # shown 8 as)"
proof -
  have top: "FTOP + 4 = unat ARGFRAME + STKSIZ" by (simp add: FTOP_def STKSIZ_def)
  have f: "mem_has t FTOP (word_bytes (of_nat ap))" "mem_has t ap (word_bytes (of_nat (length as)))"
    "mem_has t (ap + 2) (word_bytes (of_nat (ap + 4)))" "mem_has t (ap + 4) (pointers c as)" "mem_has t c (strs as)"
    using assms(2) by (simp_all add: has_frame_def)
  have e: "ps_base b + (of_nat STKSIZ - 4) = of_nat FTOP" using assms(1) by (simp add: image_of_def STKSIZ_def FTOP_def)
  have w: "(of_nat ap :: u16) + 2 = of_nat (ap + 2)" by simp
  have "sword b (of_nat FTOP) = Some (of_nat ap)" by (rule sword_of [OF assms(1) _ _ f(1)]) (use top assms in auto)
  moreover have "sword b (of_nat ap) = Some (of_nat (length as))" by (rule sword_of [OF assms(1) _ _ f(2)]) (use top assms in auto)
  moreover have "sword b (of_nat (ap + 2)) = Some (of_nat (ap + 4))" by (rule sword_of [OF assms(1) _ _ f(3)]) (use top assms in auto)
  moreover have "inrange b (of_nat ap)" "inrange b (of_nat (ap + 2))"
    by (rule inrange_of [OF assms(1)]; use top assms in auto)+
  moreover have "prcom_loop 8 b (of_nat (0 + length as)) (of_nat (ap + 4)) (of_nat 0) = Some (shown 8 as)"
    by (rule prcom_loop_of [OF assms(1) f(4,5) assms(6)]) (use top assms in \<open>auto simp: FTOP_def\<close>)
  ultimately show ?thesis unfolding prcom_def e by (simp del: of_nat_add prcom_loop.simps add: w)
qed

section \<open>From exec to ps\<close>

text \<open>A copy between places that do not overlap.\<close>

lemma far_copy_at:
  assumes "unat doff + n \<le> 65536" "\<forall>i < n. \<forall>j < n. lin dseg (doff + of_nat i) \<noteq> lin sseg (soff + of_nat j)" "k < n"
  shows "far_copy dseg doff sseg soff n m (lin dseg (doff + of_nat k)) = m (lin sseg (soff + of_nat k))"
proof -
  have inj: "lin dseg (doff + of_nat i) = lin dseg (doff + of_nat j) \<longleftrightarrow> i = j" if "i < n" "j < n" for i j
  proof -
    have "unat (doff + of_nat i) = unat doff + i" if "i < n" for i
      using assms(1) that by (subst unat_add_no_wrap) (simp_all add: unat_of_nat)
    with that show ?thesis by (simp add: lin_def)
  qed
  let ?m = "\<lambda>h. fold (\<lambda>i m. m(lin dseg (doff + of_nat i) := m (lin sseg (soff + of_nat i)))) [0..<h] m"
  have "(\<forall>j < n. ?m h (lin sseg (soff + of_nat j)) = m (lin sseg (soff + of_nat j)))
    \<and> (\<forall>k < h. ?m h (lin dseg (doff + of_nat k)) = m (lin sseg (soff + of_nat k)))" if "h \<le> n" for h
    using that
  proof (induction h)
    case (Suc h)
    have "lin sseg (soff + of_nat j) \<noteq> lin dseg (doff + of_nat h)" if "j < n" for j
      using assms(2) Suc.prems that by (metis Suc_le_eq)
    moreover have "lin dseg (doff + of_nat k) \<noteq> lin dseg (doff + of_nat h)" if "k < h" for k
      using inj [of k h] Suc.prems that by simp
    ultimately show ?case using Suc by (simp add: less_Suc_eq all_conj_distrib)
  qed simp
  then show ?thesis using assms(3) by (simp add: far_copy_def)
qed

lemma lin_offset: "unat seg + unat (drop_bit 4 off :: u16) < 65536 \<Longrightarrow> unat off mod 16 + k < 65536 \<Longrightarrow> unat off mod 16 = 0 \<Longrightarrow>
    lin (seg + drop_bit 4 off) (of_nat k) = 16 * unat seg + unat off + k"
proof -
  assume a: "unat seg + unat (drop_bit 4 off :: u16) < 65536" "unat off mod 16 + k < 65536" "unat off mod 16 = 0"
  have "unat (drop_bit 4 off) = unat off div 16" by (subst unat_drop_bit_eq) (simp add: drop_bit_eq_div)
  moreover have "unat (seg + drop_bit 4 off) = unat seg + unat (drop_bit 4 off)"
    by (rule unat_add_no_wrap) (use a(1) in simp)
  moreover have "16 * (unat off div 16) + unat off mod 16 = unat off" by (rule mult_div_mod_eq)
  ultimately show ?thesis using a by (simp add: lin_def unat_of_nat)
qed

text \<open>The image of a process in core, in the buffer of the process that asks.\<close>

lemma psinfo_frame_copies:
  assumes "p_stat (procs v p) \<noteq> 0" "has (p_flag (procs v p)) SLOAD" "unat (p_addr (procs v p)) \<le> 240"
    "unat sdst + STKSIZ \<le> 65536"
    "lin (user_seg v) sdst + STKSIZ \<le> lin (p_addr (procs v p) * 256) ARGFRAME
      \<or> lin (p_addr (procs v p) * 256) ARGFRAME + STKSIZ \<le> lin (user_seg v) sdst"
  shows "\<exists>v'. psinfo_frame (Suc n) p sdst v = Ret ARGFRAME v' \<and> user_seg v' = user_seg v
    \<and> (\<forall>k < STKSIZ. memory v' (lin (user_seg v') (sdst + of_nat k))
         = memory v (lin (p_addr (procs v p) * 256) (ARGFRAME + of_nat k)))"
proof -
  let ?a = "p_addr (procs v p) * 256"
  let ?v = "v\<lparr>memory := far_copy (user_seg v) sdst (?a + drop_bit 4 ARGFRAME) 0 512 (memory v)\<rparr>"
  have a: "unat ?a = unat (p_addr (procs v p)) * 256" using assms(3) by (simp add: unat_word_ariths)
  have frame: "unat (drop_bit 4 ARGFRAME :: u16) = 0xEE0" "unat ARGFRAME = 0xEE00" by simp_all
  have src: "lin (?a + drop_bit 4 ARGFRAME) (0 + of_nat k) = 16 * unat ?a + 0xEE00 + k" if "k < 512" for k
    using lin_offset [of ?a ARGFRAME k] a assms(3) that frame by simp
  have src': "lin ?a (ARGFRAME + of_nat k) = 16 * unat ?a + 0xEE00 + k" if "k < 512" for k
  proof -
    have "unat (ARGFRAME + of_nat k) = 0xEE00 + k" using that by (subst unat_add_no_wrap) (simp_all add: unat_of_nat)
    then show ?thesis by (simp add: lin_def)
  qed
  have dst: "lin (user_seg v) (sdst + of_nat k) = lin (user_seg v) sdst + k" if "k < 512" for k
  proof -
    have "unat (sdst + of_nat k) = unat sdst + k"
      using that assms(4) by (subst unat_add_no_wrap) (simp_all add: unat_of_nat STKSIZ_def)
    then show ?thesis by (simp add: lin_def)
  qed
  have "lin ?a ARGFRAME = 16 * unat ?a + 0xEE00" using src' [of 0] by simp
  then have apart: "lin (user_seg v) (sdst + of_nat i) \<noteq> lin (?a + drop_bit 4 ARGFRAME) (0 + of_nat j)"
    if "i < 512" "j < 512" for i j
    using dst [OF that(1)] src [OF that(2)] assms(5) that by (auto simp: STKSIZ_def)
  have "far_copy (user_seg v) sdst (?a + drop_bit 4 ARGFRAME) 0 512 (memory v) (lin (user_seg v) (sdst + of_nat k))
      = memory v (lin ?a (ARGFRAME + of_nat k))" if "k < 512" for k
  proof -
    have "far_copy (user_seg v) sdst (?a + drop_bit 4 ARGFRAME) 0 512 (memory v) (lin (user_seg v) (sdst + of_nat k))
      = memory v (lin (?a + drop_bit 4 ARGFRAME) (0 + of_nat k))"
      by (rule far_copy_at) (use apart that assms(4) in \<open>auto simp: STKSIZ_def\<close>)
    then show ?thesis using src [OF that] src' [OF that] by simp
  qed
  moreover have "user_seg ?v = user_seg v" by (simp add: user_seg_def)
  ultimately show ?thesis using assms(1,2) by (intro exI [of _ ?v]) (simp add: Let_def STKSIZ_def)
qed

text \<open>
  C37: \<open>ps\<close> shows what \<open>exec\<close> was given.  When \<open>exec\<close> has built the stack of a process for a command whose words fit
  in the captured frame, and the process is in core with that frame, \<open>psinfo\<close> copies the frame into the buffer of a
  process that asks, and \<open>ps\<close> prints from it a blank and the first eight words of the command, each cut to 16 characters.
\<close>

theorem ps_shows_exec:
  assumes "buf_has s bp 0 (strs as)" "\<forall>a \<in> set as. 0 \<notin> set a" "length (strs as) \<le> nc" "nc + 2 * length as + 10 \<le> 512"
    "t = exec_stack bp (of_nat (length as)) nc s"
    "\<forall>k < STKSIZ. memory v (lin (p_addr (procs v p) * 256) (ARGFRAME + of_nat k)) = ubyte t (unat ARGFRAME + k)"
    "p_stat (procs v p) \<noteq> 0" "has (p_flag (procs v p)) SLOAD" "unat (p_addr (procs v p)) \<le> 240"
    "unat sdst + STKSIZ \<le> 65536"
    "lin (user_seg v) sdst + STKSIZ \<le> lin (p_addr (procs v p) * 256) ARGFRAME
      \<or> lin (p_addr (procs v p) * 256) ARGFRAME + STKSIZ \<le> lin (user_seg v) sdst"
  shows "\<exists>v'. psinfo_frame (Suc n) p sdst v = Ret ARGFRAME v'
    \<and> (\<forall>b. ps_base b = ARGFRAME \<and> (\<forall>k < STKSIZ. ps_stk b k = memory v' (lin (user_seg v') (sdst + of_nat k)))
         \<longrightarrow> prcom b = Some (32 # shown 8 as))"
proof -
  obtain v' where v': "psinfo_frame (Suc n) p sdst v = Ret ARGFRAME v'"
    "\<forall>k < STKSIZ. memory v' (lin (user_seg v') (sdst + of_nat k)) = memory v (lin (p_addr (procs v p) * 256) (ARGFRAME + of_nat k))"
    using psinfo_frame_copies [OF assms(7-11)] by blast
  have fr: "has_frame t (FTOP - nc - 2 * length as - 6) (FTOP - nc) as"
    using exec_stack_frame [OF assms(1-4)] assms(5) by blast
  have "prcom b = Some (32 # shown 8 as)"
    if b: "ps_base b = ARGFRAME" "\<forall>k < STKSIZ. ps_stk b k = memory v' (lin (user_seg v') (sdst + of_nat k))" for b
  proof (rule prcom_of [OF _ fr])
    show "image_of t b" using b v'(2) assms(6) by (simp add: image_of_def)
  qed (use assms in \<open>simp_all add: FTOP_def\<close>)
  with v'(1) show ?thesis by blast
qed

text \<open>Process 2, at page 16, executes \<open>ls -l\<close>; process 0, at page 64, asks for it.\<close>

definition ls_args :: "u8 list list" where
  "ls_args = [bytes ''ls'', bytes ''-l'']"

definition before_ls :: kst where
  "before_ls =
     (kernel0 0 (\<lambda>_. 0) (\<lambda>_ _. 0))
       \<lparr>usr := zero_user\<lparr>u_procp := 2\<rparr>,
        procs := (\<lambda>p. zero_proc\<lparr>p_stat := SRUN, p_flag := SLOAD, p_addr := (if p = 0 then 64 else 16)\<rparr>),
        bufs := (\<lambda>_. zero_buf\<lparr>b_data := (\<lambda>_. 0)(0 := mk16 115 108, 1 := mk16 45 0, 2 := mk16 0 108)\<rparr>)\<rparr>"

definition after_ls :: kst where
  "after_ls = before_ls\<lparr>usr := zero_user, memory := memory (exec_stack 2 (of_nat (length ls_args)) 6 before_ls)\<rparr>"

lemma ps_shows_exec_witness:
  "\<exists>v'. psinfo_frame (Suc 0) 2 0x2000 after_ls = Ret ARGFRAME v'
    \<and> (\<forall>b. ps_base b = ARGFRAME \<and> (\<forall>k < STKSIZ. ps_stk b k = memory v' (lin (user_seg v') (0x2000 + of_nat k)))
         \<longrightarrow> prcom b = Some (bytes '' ls -l''))"
proof -
  let ?t = "exec_stack 2 (of_nat (length ls_args)) 6 before_ls"
  have b: "buf_has before_ls 2 0 (strs ls_args)"
    by (simp add: buf_has_def ls_args_def bytes_def before_ls_def All_less_Suc2 get_byte_def)
  have a: "\<forall>a \<in> set ls_args. 0 \<notin> set a" "length (strs ls_args) \<le> 6" "6 + 2 * length ls_args + 10 \<le> 512"
    by (simp_all add: ls_args_def bytes_def)
  have seg: "user_seg ?t = 16 * 256"
    using exec_stack_frame [OF b a] by (simp add: user_seg_def before_ls_def zero_user_def)
  have p: "procs after_ls 2 = zero_proc\<lparr>p_stat := SRUN, p_flag := SLOAD, p_addr := 16\<rparr>" "user_seg after_ls = 64 * 256"
    "memory after_ls = memory ?t"
    by (simp_all add: after_ls_def before_ls_def user_seg_def zero_user_def)
  have m: "\<forall>k < STKSIZ. memory after_ls (lin (p_addr (procs after_ls 2) * 256) (ARGFRAME + of_nat k)) = ubyte ?t (unat ARGFRAME + k)"
    by (simp add: p ubyte_def seg zero_proc_def)
  have "shown 8 ls_args = bytes ''ls -l''" by (simp add: ls_args_def bytes_def eval_nat_numeral)
  moreover have "32 # bytes ''ls -l'' = bytes '' ls -l''" by (simp add: bytes_def)
  ultimately show ?thesis
    using ps_shows_exec [OF b a refl m, of "0x2000" 0]
    by (simp add: p zero_proc_def has_def STKSIZ_def lin_def)
qed

end
