(* ===== verification/Fib.thy ===== *)
theory Fib
  imports Uprintf
begin

text \<open>
  The command that computes Fibonacci numbers with decimal digits (\<open>usr/fib.c\<close>), by the sequence and by the
  recursion, and the proof that what it prints is exact.  A big number is its 65 digits, the lowest first.
\<close>

section \<open>Big numbers\<close>

definition MAX_DIGITS :: nat where "MAX_DIGITS = 65"

text \<open>The loops over the digits, with the carry.\<close>

fun inc_loop :: "u8 \<Rightarrow> u8 list \<Rightarrow> u8 list" where
  "inc_loop carry [] = []"
| "inc_loop carry (a # as) =
     (let sum = ucast a + ucast carry :: u16 in ucast (sum mod 10) # inc_loop (ucast (sum div 10)) as)"

definition inc_big_numbers :: "u8 list \<Rightarrow> u8 list" where
  "inc_big_numbers number = inc_loop 1 number"

fun add_loop :: "u8 \<Rightarrow> u8 list \<Rightarrow> u8 list \<Rightarrow> u8 list" where
  "add_loop carry (a # as) (b # bs) =
     (let sum = ucast a + ucast b + ucast carry :: u16 in ucast (sum mod 10) # add_loop (ucast (sum div 10)) as bs)"
| "add_loop carry _ _ = []"

text \<open>\<open>nAddOperation\<close> and what was printed.\<close>

record fibst =
  fb_adds :: "u8 list"
  fb_out :: "u8 list"

definition add_big_numbers :: "u8 list \<Rightarrow> u8 list \<Rightarrow> fibst \<Rightarrow> u8 list \<times> fibst" where
  "add_big_numbers a b s = (add_loop 0 a b, s\<lparr>fb_adds := inc_big_numbers (fb_adds s)\<rparr>)"

text \<open>The formats here are all well formed.\<close>

definition printed_text :: "string \<Rightarrow> uarg list \<Rightarrow> u8 list" where
  "printed_text fmt as = (case vsprintf (bytes fmt) as of Some t \<Rightarrow> t | None \<Rightarrow> [])"

definition put_text :: "u8 list \<Rightarrow> fibst \<Rightarrow> fibst" where
  "put_text t s = s\<lparr>fb_out := fb_out s @ t\<rparr>"

text \<open>From the highest digit on; the flag is \<open>start_printing\<close>.\<close>

fun digits_loop :: "bool \<Rightarrow> u8 list \<Rightarrow> bool \<times> u8 list" where
  "digits_loop start [] = (start, [])"
| "digits_loop start (d # ds) =
     (let start = start \<or> d \<noteq> 0;
          t = (if start then printed_text ''%u'' [UInt (ucast d)] else [])
      in case digits_loop start ds of (start, ts) \<Rightarrow> (start, t @ ts))"

definition big_text :: "u8 list \<Rightarrow> u8 list" where
  "big_text number =
     (case digits_loop False (rev number) of (start, t) \<Rightarrow>
        t @ (if \<not> start then printed_text ''0'' [] else []) @ printed_text [CHR 0x0A] [])"

definition print_big_number :: "u8 list \<Rightarrow> fibst \<Rightarrow> fibst" where
  "print_big_number number = put_text (big_text number)"

section \<open>The two ways\<close>

text \<open>The loop from \<open>count\<close> on, with \<open>k\<close> turns left.\<close>

fun sequence_loop :: "nat \<Rightarrow> u16 \<Rightarrow> u8 list \<Rightarrow> u8 list \<Rightarrow> fibst \<Rightarrow> fibst" where
  "sequence_loop 0 count a b s = s"
| "sequence_loop (Suc k) count a b s =
     (case add_big_numbers a b s of (result, s) \<Rightarrow>
        let s = put_text (printed_text ''fib(%d) = '' [UInt count]) s;
            s = print_big_number result s
        in sequence_loop k (count + 1) b result s)"

definition fibonacci_sequence :: "fibst \<Rightarrow> fibst" where
  "fibonacci_sequence s =
     (let a = replicate MAX_DIGITS 0; b = (replicate MAX_DIGITS 0)[0 := 1]
      in sequence_loop 254 2 a b (print_big_number b (print_big_number a s)))"

lemma u8_step: "n \<noteq> 0 \<Longrightarrow> n \<noteq> 1 \<Longrightarrow> unat (n - 1 :: u8) = unat n - 1 \<and> unat (n - 2) = unat n - 2 \<and> 2 \<le> unat n"
proof -
  assume n: "n \<noteq> 0" "n \<noteq> 1"
  have "2 \<le> unat n"
  proof (rule ccontr)
    assume "\<not> 2 \<le> unat n"
    then have "unat n = 0 \<or> unat n = 1" by linarith
    with n show False by (auto simp: word_unat_eq_iff)
  qed
  then show ?thesis by (simp add: unat_sub word_le_nat_alt)
qed

function fibonacci :: "u8 \<Rightarrow> fibst \<Rightarrow> u8 list \<times> fibst" where
  "fibonacci n s =
     (if n = 0 \<or> n = 1 then ((replicate MAX_DIGITS 0)[0 := n], s)
      else
        (case fibonacci (n - 1) s of (a, s) \<Rightarrow>
         case fibonacci (n - 2) s of (b, s) \<Rightarrow> add_big_numbers a b s))"
  by pat_completeness auto

termination
  by (relation "measure (\<lambda>(n, s). unat n)") (auto dest: u8_step)

declare fibonacci.simps [simp del]

definition fibonacci_print :: "u8 \<Rightarrow> fibst \<Rightarrow> fibst" where
  "fibonacci_print n s =
     (case fibonacci n s of (result, s) \<Rightarrow>
        print_big_number result (put_text (printed_text ''fib(%d) = '' [UInt (ucast n)]) s))"

text \<open>The handler of the quit signal; \<open>n\<close> is the number asked for.\<close>

definition catch_quit :: "u16 \<Rightarrow> u16 \<Rightarrow> fibst \<Rightarrow> fibst" where
  "catch_quit pid n s =
     print_big_number (fb_adds s) (put_text (printed_text ''pid %d, fib %d, N_Add = '' [UInt pid, UInt n]) s)"

text \<open>The program with the value of its one argument, if it has just one; the result is its exit code.\<close>

definition fib_main :: "u16 option \<Rightarrow> int \<times> fibst" where
  "fib_main arg =
     (let s = \<lparr>fb_adds = replicate MAX_DIGITS 0, fb_out = []\<rparr>
      in case arg of
           None \<Rightarrow>
             (1, put_text (printed_text (''Usage: fib <number>'' @ [CHR 0x0A]) [] @
                  printed_text ('' 0: Print Fibonacci sequence from 0 to 255 (fast algo).'' @ [CHR 0x0A]) [] @
                  printed_text ('' n: Print the nth Fibonacci number (slow algo, CPU-intensive).'' @ [CHR 0x0A]) []) s)
         | Some n \<Rightarrow> (0, if n = 0 then fibonacci_sequence s else fibonacci_print (ucast n) s))"

section \<open>What the digits stand for\<close>

fun big :: "u8 list \<Rightarrow> nat" where
  "big [] = 0"
| "big (d # ds) = unat d + 10 * big ds"

definition digits_ok :: "u8 list \<Rightarrow> bool" where
  "digits_ok ds \<longleftrightarrow> (\<forall>d \<in> set ds. unat d < 10)"

lemma unat_wide: "unat (ucast (d :: u8) :: u16) = unat d"
proof -
  have "unat d < 2 ^ LENGTH(8)" by (rule unsigned_less)
  then have "unat d < 2 ^ 16" by simp
  then show ?thesis by (simp add: unsigned_ucast_eq take_bit_nat_eq_self)
qed

lemma digit_parts:
  assumes "unat (x :: u16) < 256"
  shows "unat (ucast (x mod 10) :: u8) = unat x mod 10" "unat (ucast (x div 10) :: u8) = unat x div 10"
proof -
  have "unat x mod 10 < 256" "unat x div 10 < 256" using assms by simp_all
  then show "unat (ucast (x mod 10) :: u8) = unat x mod 10" "unat (ucast (x div 10) :: u8) = unat x div 10"
    by (simp_all add: unat_ucast unat_mod unat_div take_bit_eq_mod)
qed

text \<open>One digit of a sum, and the sum above it.\<close>

lemma digit_step: "x mod 10 + 10 * ((y + x div 10) mod 10 ^ k) = (x + 10 * y) mod (10 ^ Suc k :: nat)"
proof -
  have "(x + 10 * y) mod (10 * 10 ^ k) = 10 * ((x + 10 * y) div 10 mod 10 ^ k) + (x + 10 * y) mod 10"
    by (rule mod_mult2_eq)
  moreover have "(x + 10 * y) div 10 = y + x div 10" "(x + 10 * y) mod 10 = x mod 10" by simp_all
  ultimately show ?thesis by simp
qed

lemma add_loop_big:
  "digits_ok as \<Longrightarrow> digits_ok bs \<Longrightarrow> length as = length bs \<Longrightarrow> unat carry \<le> 1 \<Longrightarrow>
    digits_ok (add_loop carry as bs) \<and> length (add_loop carry as bs) = length as
    \<and> big (add_loop carry as bs) = (big as + big bs + unat carry) mod 10 ^ length as"
proof (induction carry as bs rule: add_loop.induct)
  case (1 carry a as b bs)
  let ?sum = "ucast a + ucast b + ucast carry :: u16"
  let ?r = "add_loop (ucast (?sum div 10)) as bs"
  have d: "unat a < 10" "unat b < 10" using "1.prems" by (simp_all add: digits_ok_def)
  have s: "unat ?sum = unat a + unat b + unat carry"
    using d "1.prems"(4) by (simp add: unat_word_ariths unat_wide)
  have sm: "unat ?sum < 256" unfolding s using d "1.prems"(4) by linarith
  note p = digit_parts [OF sm, unfolded s]
  have "unat (ucast (?sum div 10) :: u8) \<le> 1" unfolding p(2) using d "1.prems"(4) by linarith
  moreover have "digits_ok as" "digits_ok bs" "length as = length bs" using "1.prems"(1-3) by (simp_all add: digits_ok_def)
  ultimately have ih: "digits_ok ?r" "length ?r = length as"
    "big ?r = (big as + big bs + unat (ucast (?sum div 10) :: u8)) mod 10 ^ length as"
    using "1.IH" [OF refl] by blast+
  have e: "add_loop carry (a # as) (b # bs) = ucast (?sum mod 10) # ?r" by (simp add: Let_def)
  have sm10: "unat (ucast (?sum mod 10) :: u8) < 10" unfolding p(1) by simp
  have "big (add_loop carry (a # as) (b # bs)) = (unat a + unat b + unat carry) mod 10
      + 10 * ((big as + big bs + (unat a + unat b + unat carry) div 10) mod 10 ^ length as)"
    unfolding e big.simps ih(3) p ..
  also have "\<dots> = (unat a + unat b + unat carry + 10 * (big as + big bs)) mod 10 ^ Suc (length as)" by (rule digit_step)
  also have "unat a + unat b + unat carry + 10 * (big as + big bs) = big (a # as) + big (b # bs) + unat carry" by simp
  finally have bg: "big (add_loop carry (a # as) (b # bs)) = (big (a # as) + big (b # bs) + unat carry) mod 10 ^ Suc (length as)" .
  have "digits_ok (add_loop carry (a # as) (b # bs))" unfolding e using ih(1) sm10 by (simp add: digits_ok_def)
  moreover have "length (add_loop carry (a # as) (b # bs)) = length (a # as)" unfolding e using ih(2) by simp
  ultimately show ?case using bg by (simp only: list.size(4) simp_thms Suc_eq_plus1 add_0)
qed (auto simp: digits_ok_def)

lemma inc_loop_add: "length zs = length as \<Longrightarrow> set zs \<subseteq> {0} \<Longrightarrow> inc_loop carry as = add_loop carry as zs"
  by (induction carry as arbitrary: zs rule: inc_loop.induct) (auto simp: length_Suc_conv Let_def)

lemma big_zeros [simp]: "big (replicate n 0) = 0"
  by (induction n) simp_all

lemma inc_big:
  assumes "digits_ok as"
  shows "digits_ok (inc_big_numbers as) \<and> length (inc_big_numbers as) = length as
    \<and> big (inc_big_numbers as) = (big as + 1) mod 10 ^ length as"
proof -
  let ?z = "replicate (length as) (0 :: u8)"
  have "inc_big_numbers as = add_loop 1 as ?z" unfolding inc_big_numbers_def by (rule inc_loop_add) auto
  then show ?thesis using add_loop_big [of as ?z 1] assms by (simp add: digits_ok_def)
qed

section \<open>Printing a number\<close>

lemma u_text: "printed_text ''%u'' [UInt x] = digits_of 10 (unat x)"
proof -
  have "vsprintf (37 # 117 # []) [UInt x] = map_option ((@) (utoa x 10)) (vsprintf [] [])"
  proof (rule vsprintf_simple)
    have "unat x < 2 ^ 16" using unat16_lt [of x] by simp
    then show "length (utoa x 10) < 32768" using digits_of_length [of 10 "unat x" 16] by (simp add: utoa_numeral)
  qed (simp_all add: converted_def)
  then show ?thesis by (simp add: printed_text_def bytes_def utoa_numeral vsprintf.simps [of "[]"])
qed

lemma plain_printed: "37 \<notin> set (bytes fmt) \<Longrightarrow> printed_text fmt [] = bytes fmt"
  using vsprintf_plain [of "bytes fmt" "[]" "[]"] by (simp add: printed_text_def vsprintf.simps [of "[]"])

lemma digits_loop_append:
  "digits_loop st (xs @ ys) = (case digits_loop st xs of (st, t) \<Rightarrow> case digits_loop st ys of (st, u) \<Rightarrow> (st, t @ u))"
  by (induction xs arbitrary: st) (auto simp: Let_def split: prod.split)

lemma digits_of_step: "0 < n \<Longrightarrow> d < 10 \<Longrightarrow> digits_of 10 (d + 10 * n) = digits_of 10 n @ digits_of 10 d"
  by (simp add: digits_of.simps [of 10 "d + 10 * n"] digits_of.simps [of 10 d])

lemma digits_loop_number:
  "digits_ok ds \<Longrightarrow> digits_loop False (rev ds) = (big ds \<noteq> 0, if big ds = 0 then [] else digits_of 10 (big ds))"
proof (induction ds)
  case (Cons d ds)
  have d: "unat d < 10" "digits_ok ds" using Cons.prems by (simp_all add: digits_ok_def)
  have u: "unat (ucast d :: u16) = unat d" by (rule unat_wide)
  show ?case
    using Cons.IH [OF d(2)] digits_of_step [OF _ d(1), of "big ds"] d(1)
    by (auto simp: digits_loop_append u_text u Let_def unat_eq_0 add_ac)
qed simp

lemma big_text_number:
  assumes "digits_ok ds"
  shows "big_text ds = digits_of 10 (big ds) @ [10]"
proof -
  have "digits_of 10 0 = bytes ''0''" by (simp add: digits_of.simps hx_def bytes_def)
  then show ?thesis
    using digits_loop_number [OF assms] plain_printed [of "''0''"] plain_printed [of "[CHR 0x0A]"]
    by (simp add: big_text_def bytes_def)
qed

section \<open>The numbers\<close>

fun fibs :: "nat \<Rightarrow> nat" where
  "fibs 0 = 0"
| "fibs (Suc 0) = 1"
| "fibs (Suc (Suc n)) = fibs (Suc n) + fibs n"

lemma fibs_mono: "m \<le> n \<Longrightarrow> fibs m \<le> fibs n"
proof -
  have "fibs k \<le> fibs (Suc k)" for k by (induction k rule: fibs.induct) simp_all
  then show "m \<le> n \<Longrightarrow> fibs m \<le> fibs n" by (rule lift_Suc_mono_le)
qed

text \<open>The largest number asked for, and the additions it takes, fit in 65 digits.\<close>

lemma fibs_triple: "fibs (Suc (2 * k)) \<le> 3 ^ k"
proof (induction k)
  case (Suc k)
  have "fibs (2 * k) \<le> fibs (Suc (2 * k))" by (rule fibs_mono) simp
  then show ?case using Suc by simp
qed simp

lemma fibs_bound: "n \<le> 257 \<Longrightarrow> fibs n < 10 ^ MAX_DIGITS"
proof -
  assume n: "n \<le> 257"
  have "fibs n \<le> fibs (Suc (2 * 128))" by (rule fibs_mono) (use n in simp)
  also have "\<dots> \<le> 3 ^ 128" by (rule fibs_triple)
  also have "\<dots> < 10 ^ MAX_DIGITS" by (simp add: MAX_DIGITS_def)
  finally show ?thesis .
qed

text \<open>A number with its digits, and how it prints.\<close>

definition is_big :: "u8 list \<Rightarrow> nat \<Rightarrow> bool" where
  "is_big ds n \<longleftrightarrow> digits_ok ds \<and> length ds = MAX_DIGITS \<and> big ds = n"

lemma is_big_add:
  assumes "is_big as m" "is_big bs n" "m + n < 10 ^ MAX_DIGITS"
  shows "is_big (add_loop 0 as bs) (m + n)"
  using add_loop_big [of as bs 0] assms by (simp add: is_big_def)

lemma is_big_inc:
  assumes "is_big as m" "m + 1 < 10 ^ MAX_DIGITS"
  shows "is_big (inc_big_numbers as) (m + 1)"
  using inc_big [of as] assms by (simp add: is_big_def)

lemma is_big_text: "is_big ds n \<Longrightarrow> big_text ds = digits_of 10 n @ [10]"
  by (simp add: is_big_def big_text_number)

lemma is_big_digit: "unat d < 10 \<Longrightarrow> is_big ((replicate MAX_DIGITS 0)[0 := d]) (unat d)"
proof -
  assume d: "unat d < 10"
  obtain k where k: "MAX_DIGITS = Suc k" by (cases MAX_DIGITS) (simp_all add: MAX_DIGITS_def)
  show ?thesis unfolding is_big_def k using d by (auto simp: digits_ok_def)
qed

text \<open>The recursion gives the number, and counts its additions.\<close>

lemma fibonacci_is:
  "is_big (fb_adds s) m \<Longrightarrow> m + fibs (unat n + 1) < 10 ^ MAX_DIGITS \<Longrightarrow>
    \<exists>ds s'. fibonacci n s = (ds, s') \<and> is_big ds (fibs (unat n)) \<and> is_big (fb_adds s') (m + fibs (unat n + 1) - 1)
      \<and> fb_out s' = fb_out s"
proof (induction n s arbitrary: m rule: fibonacci.induct)
  case (1 n s)
  show ?case
  proof (cases "n = 0 \<or> n = 1")
    case True
    then have "fibs (unat n) = unat n" "fibs (unat n + 1) = 1" "unat n < 10" by auto
    with True 1 is_big_digit [of n] show ?thesis
      by (simp add: fibonacci.simps [of n s])
  next
    case False
    then have u: "unat (n - 1) = unat n - 1" "unat (n - 2) = unat n - 2" "2 \<le> unat n" using u8_step by auto
    obtain k where k: "unat n = Suc (Suc k)" using u(3) by (metis add_2_eq_Suc le_Suc_ex)
    have k': "unat (n - 1) = Suc k" "unat (n - 2) = k" using u k by simp_all
    have pos: "0 < fibs (Suc (Suc i))" "0 < fibs (Suc i)" for i
      using fibs_mono [of 1 "Suc i"] fibs_mono [of 1 "Suc (Suc i)"] by simp_all
    have "m + fibs (unat (n - 1) + 1) < 10 ^ MAX_DIGITS" using "1.prems"(2) k k' by simp
    from "1.IH"(1) [OF False "1.prems"(1) this] obtain as t where
      a: "fibonacci (n - 1) s = (as, t)" "is_big as (fibs (Suc k))" "is_big (fb_adds t) (m + fibs (Suc (Suc k)) - 1)"
        "fb_out t = fb_out s" unfolding k' by auto
    have "m + fibs (Suc (Suc k)) - 1 + fibs (unat (n - 2) + 1) < 10 ^ MAX_DIGITS" using "1.prems"(2) k k' by simp
    from "1.IH"(2) [OF False a(1) [symmetric] a(3) this] obtain bs v where
      b: "fibonacci (n - 2) t = (bs, v)" "is_big bs (fibs k)"
        "is_big (fb_adds v) (m + fibs (Suc (Suc k)) - 1 + fibs (Suc k) - 1)" "fb_out v = fb_out s"
      unfolding k' using a(4) by auto
    have "fibs (Suc k) + fibs k < 10 ^ MAX_DIGITS" using "1.prems"(2) k by simp
    then have r: "is_big (add_loop 0 as bs) (fibs (unat n))" using is_big_add [OF a(2) b(2)] k by simp
    have i: "is_big (inc_big_numbers (fb_adds v)) (m + fibs (Suc (Suc k)) - 1 + fibs (Suc k) - 1 + 1)"
      by (rule is_big_inc [OF b(3)]) (use "1.prems"(2) k pos [of k] in simp)
    have n: "m + fibs (Suc (Suc k)) - 1 + fibs (Suc k) - 1 + 1 = m + fibs (unat n + 1) - 1"
      using pos [of k] k by simp
    have "fibonacci n s = (add_loop 0 as bs, v\<lparr>fb_adds := inc_big_numbers (fb_adds v)\<rparr>)"
      using False a(1) b(1) by (simp add: fibonacci.simps [of n s] add_big_numbers_def)
    with r i [unfolded n] b(4) show ?thesis by simp
  qed
qed

section \<open>What is printed\<close>

definition fib_line :: "nat \<Rightarrow> u8 list" where
  "fib_line k = bytes ''fib('' @ digits_of 10 k @ bytes '') = '' @ digits_of 10 (fibs k) @ [10]"

lemma itoa_of_nat: "k < 32768 \<Longrightarrow> itoa (of_nat k) = digits_of 10 k"
proof -
  assume k: "k < 32768"
  have v: "sint (of_nat k :: u16) = int k" using k sint16_eq_unat [of "of_nat k"] by (simp add: unat_of_nat)
  moreover have "(of_nat k :: u16) \<noteq> 0x8000"
  proof
    assume "(of_nat k :: u16) = 0x8000"
    then have "sint (of_nat k :: u16) = sint (0x8000 :: u16)" by (rule arg_cong)
    with v show False by simp
  qed
  ultimately show ?thesis by (simp add: itoa_numeral)
qed

lemma fib_label: "k < 256 \<Longrightarrow> printed_text ''fib(%d) = '' [UInt (of_nat k)] = bytes ''fib('' @ digits_of 10 k @ bytes '') = ''"
proof -
  assume k: "k < 256"
  have i: "itoa (of_nat k) = digits_of 10 k" using k by (simp add: itoa_of_nat)
  have "vsprintf (37 # 100 # bytes '') = '') [UInt (of_nat k)] = map_option ((@) (itoa (of_nat k))) (vsprintf (bytes '') = '') [])"
    by (rule vsprintf_simple) (simp_all add: converted_def itoa_length)
  moreover have "vsprintf (bytes '') = '') [] = Some (bytes '') = '')"
    using vsprintf_plain [of "bytes '') = ''" "[]" "[]"] by (simp add: bytes_def vsprintf.simps [of "[]"])
  moreover have "bytes ''fib(%d) = '' = bytes ''fib('' @ 37 # 100 # bytes '') = ''" by (simp add: bytes_def)
  moreover have "37 \<notin> set (bytes ''fib('')" by (simp add: bytes_def)
  ultimately show ?thesis using i vsprintf_plain [of "bytes ''fib(''" "37 # 100 # bytes '') = ''" "[UInt (of_nat k)]"]
    by (simp add: printed_text_def)
qed

lemma fibonacci_print_out:
  assumes "is_big (fb_adds s) 0"
  shows "fb_out (fibonacci_print n s) = fb_out s @ fib_line (unat n)"
proof -
  have n: "unat n < 256" using unsigned_less [of n] by simp
  have "0 + fibs (unat n + 1) < 10 ^ MAX_DIGITS" using fibs_bound [of "unat n + 1"] n by simp
  from fibonacci_is [OF assms this] obtain ds s' where
    d: "fibonacci n s = (ds, s')" "is_big ds (fibs (unat n))" "fb_out s' = fb_out s" by blast
  have "printed_text ''fib(%d) = '' [UInt (ucast n)] = bytes ''fib('' @ digits_of 10 (unat n) @ bytes '') = ''"
    using fib_label [OF n] by simp
  with d show ?thesis
    by (simp add: fibonacci_print_def print_big_number_def put_text_def is_big_text fib_line_def)
qed

lemma sequence_loop_out:
  "is_big a (fibs c) \<Longrightarrow> is_big b (fibs (Suc c)) \<Longrightarrow> c + k < 255 \<Longrightarrow>
    fb_out (sequence_loop k (of_nat (c + 2)) a b s) = fb_out s @ concat (map fib_line [c + 2..<c + 2 + k])"
proof (induction k arbitrary: c a b s)
  case (Suc k)
  let ?r = "add_loop 0 a b"
  have "fibs c + fibs (Suc c) < 10 ^ MAX_DIGITS" using fibs_bound [of "Suc (Suc c)"] Suc.prems(3) by simp
  then have r: "is_big ?r (fibs (Suc (Suc c)))" using is_big_add [OF Suc.prems(1,2)] by (simp add: add.commute)
  obtain w where w: "w = (of_nat (c + 2) :: u16)" by blast
  have l: "printed_text ''fib(%d) = '' [UInt w] = bytes ''fib('' @ digits_of 10 (c + 2) @ bytes '') = ''"
    unfolding w by (rule fib_label) (use Suc.prems(3) in simp)
  let ?t = "print_big_number ?r (put_text (printed_text ''fib(%d) = '' [UInt w]) (s\<lparr>fb_adds := inc_big_numbers (fb_adds s)\<rparr>))"
  have n: "w + 1 = of_nat (Suc c + 2)" by (simp add: w)
  have u: "[c + 2..<c + 2 + Suc k] = (c + 2) # [Suc c + 2..<Suc c + 2 + k]" by (simp add: upt_conv_Cons del: upt_Suc)
  have "fb_out (sequence_loop (Suc k) w a b s) = fb_out (sequence_loop k (of_nat (Suc c + 2)) b ?r ?t)"
    by (simp only: sequence_loop.simps add_big_numbers_def prod.case Let_def n)
  also have "\<dots> = fb_out ?t @ concat (map fib_line [Suc c + 2..<Suc c + 2 + k])"
    by (rule Suc.IH [OF Suc.prems(2) r]) (use Suc.prems(3) in simp)
  also have "fb_out ?t = fb_out s @ fib_line (c + 2)"
    unfolding print_big_number_def put_text_def l is_big_text [OF r] fib_line_def by simp
  finally show ?case unfolding w [symmetric] u by simp
qed simp

text \<open>
  What \<open>fib\<close> prints is exact.  For the argument 0 it prints the Fibonacci numbers 0 to 255 one after the other,
  for any other argument \<open>n\<close> the one with the number \<open>n mod 256\<close>, with that number, by the recursion, in decimal and
  to the last digit.
\<close>

lemma fib_prints_exactly:
  "fb_out (snd (fib_main (Some n))) =
     (if n = 0 then bytes ''0'' @ [10] @ bytes ''1'' @ [10] @ concat (map fib_line [2..<256])
      else fib_line (unat n mod 256))"
proof -
  let ?s = "\<lparr>fb_adds = replicate MAX_DIGITS 0, fb_out = []\<rparr>"
  have z: "is_big (replicate MAX_DIGITS 0) 0" by (simp add: is_big_def digits_ok_def)
  have one: "is_big ((replicate MAX_DIGITS 0)[0 := 1]) 1" using is_big_digit [of 1] by simp
  show ?thesis
  proof (cases "n = 0")
    case True
    let ?t = "print_big_number ((replicate MAX_DIGITS 0)[0 := 1]) (print_big_number (replicate MAX_DIGITS 0) ?s)"
    have num: "0 + 2 = (2 :: nat)" "2 + 254 = (256 :: nat)" by simp_all
    obtain ls where ls: "concat (map fib_line [2..<256]) = ls" by blast
    have "fb_out (sequence_loop 254 (of_nat (0 + 2)) (replicate MAX_DIGITS 0) ((replicate MAX_DIGITS 0)[0 := 1]) ?t)
        = fb_out ?t @ concat (map fib_line [0 + 2..<0 + 2 + 254])"
      by (rule sequence_loop_out) (use z one in simp_all)
    then have "fb_out (sequence_loop 254 2 (replicate MAX_DIGITS 0) ((replicate MAX_DIGITS 0)[0 := 1]) ?t) = fb_out ?t @ ls"
      unfolding num ls by simp
    moreover have "fb_out ?t = bytes ''0'' @ [10] @ bytes ''1'' @ [10]"
      by (simp add: print_big_number_def put_text_def is_big_text [OF z] is_big_text [OF one] digits_of.simps hx_def bytes_def)
    ultimately show ?thesis using True unfolding ls by (simp add: fib_main_def fibonacci_sequence_def Let_def del: sequence_loop.simps)
  next
    case False
    have "fb_out (fibonacci_print (ucast n) ?s) = fib_line (unat (ucast n :: u8))"
      using fibonacci_print_out [of ?s "ucast n"] z by simp
    then show ?thesis using False by (simp add: fib_main_def unat_ucast)
  qed
qed

end
