(* ===== verification/Ls.thy ===== *)
theory Ls
  imports Ctime Uprintf
begin

text \<open>
  The command that lists files (\<open>usr/ls.c\<close>).  What a file system call gives is an argument: the status of a name, the
  entries of a directory.  The line of a file is built in an array of 80 characters; a line that does not fit has no
  result.
\<close>

definition DIRSIZ_U :: nat where "DIRSIZ_U = 14"

record ustat =
  st_flags :: u16
  st_nlinks :: u8
  st_uid :: u8
  st_gid :: u8
  st_size1 :: u16
  st_addr0 :: u16
  st_modtime :: dword

section \<open>One file\<close>

text \<open>The last component of the path, padded with blanks unless it fills the name of an entry.\<close>

definition fmtname :: "u8 list \<Rightarrow> u8 list" where
  "fmtname path =
     (let p = rev (takeWhile (\<lambda>c. c \<noteq> 47) (rev path))
      in if length p \<ge> DIRSIZ_U then p else p @ replicate (DIRSIZ_U - length p) 32)"

datatype ftype = T_DIR | T_FILE | T_DEV

definition S_TYPE :: u16 where "S_TYPE = 0x6000"

definition stat_type :: "ustat \<Rightarrow> ftype" where
  "stat_type p =
     (if st_flags p AND S_TYPE = 0 then T_FILE else if st_flags p AND S_TYPE = 0x4000 then T_DIR else T_DEV)"

definition type_char :: "u16 \<Rightarrow> u8" where
  "type_char flags =
     (if flags AND S_TYPE = 0 then 45 else if flags AND S_TYPE = 0x4000 then 100
      else if flags AND S_TYPE = 0x2000 then 99 else 98)"

definition flag_char :: "u16 \<Rightarrow> u16 \<Rightarrow> u16 \<Rightarrow> u16" where
  "flag_char flags b c = (if flags AND b \<noteq> 0 then c else 45)"

text \<open>The three groups of permissions; \<open>s\<close> stands for \<open>x\<close> of a program that changes the user or the group.\<close>

definition perm_text :: "u16 \<Rightarrow> u8 list option list" where
  "perm_text f =
     [vsprintf (bytes ''%c%c%c'') [UInt (flag_char f 0x100 114), UInt (flag_char f 0x80 119),
        UInt (flag_char f 0x40 (if f AND 0x800 \<noteq> 0 then 115 else 120))],
      vsprintf (bytes ''%c%c%c'') [UInt (flag_char f 0x20 114), UInt (flag_char f 0x10 119),
        UInt (flag_char f 0x08 (if f AND 0x400 \<noteq> 0 then 115 else 120))],
      vsprintf (bytes ''%c%c%c '') [UInt (flag_char f 0x04 114), UInt (flag_char f 0x02 119), UInt (flag_char f 0x01 120)]]"

text \<open>The numbers of a device or of a plain file; a character is signed, so it is extended.\<close>

definition size_text :: "ustat \<Rightarrow> u8 list option list" where
  "size_text st =
     (if st_flags st AND S_TYPE \<noteq> 0x2000 \<and> st_flags st AND S_TYPE \<noteq> 0x6000 then
        [vsprintf (bytes ''%3u %u/%u '') [UInt (scast (st_nlinks st)), UInt (scast (st_gid st)), UInt (scast (st_uid st))],
         vsprintf (bytes ''%7u '') [UInt (st_size1 st)]]
      else
        [vsprintf (bytes ''%3u %u/%u         '')
          [UInt (scast (st_nlinks st)), UInt (signed_drop_bit 8 (st_addr0 st)), UInt (st_addr0 st AND 0xFF)]])"

text \<open>The time is printed with the year when the high word of the date is below \<open>year\<close>.\<close>

definition date_text :: "u16 \<Rightarrow> dword \<Rightarrow> u8 list option" where
  "date_text year t =
     Option.bind (ctime t) (\<lambda>cp.
       if fst t < year then vsprintf (bytes '' %-7.7s %-4.4s'') [UStr (drop 4 cp), UStr (drop 20 cp)]
       else vsprintf (bytes '' %-12.12s'') [UStr (drop 4 cp)])"

fun all_text :: "u8 list option list \<Rightarrow> u8 list option" where
  "all_text [] = Some []"
| "all_text (t # ts) = Option.bind t (\<lambda>t. map_option ((@) t) (all_text ts))"

definition ls_line :: "u16 \<Rightarrow> u8 list \<Rightarrow> ustat \<Rightarrow> u8 list option" where
  "ls_line year path st =
     Option.bind
       (all_text ([Some [type_char (st_flags st)]] @ perm_text (st_flags st) @ size_text st
          @ [date_text year (st_modtime st), vsprintf (bytes ('' %s'' @ [CHR 0x0A])) [UStr (fmtname path)]]))
       (\<lambda>t. if length t + 1 \<le> 80 then Some t else None)"

text \<open>\<open>stat\<close> of a name, and what \<open>lsfile\<close> writes.\<close>

definition lsfile :: "u16 \<Rightarrow> (u8 list \<Rightarrow> ustat option) \<Rightarrow> u8 list \<Rightarrow> u8 list option" where
  "lsfile year stats path =
     (case stats path of
        None \<Rightarrow> vsprintf (bytes (''ls: cannot stat %s'' @ [CHR 0x0A])) [UStr path]
      | Some st \<Rightarrow> ls_line year path st)"

section \<open>A directory\<close>

text \<open>An entry is its number and the 14 bytes of its name.\<close>

definition entry_path :: "u8 list \<Rightarrow> u8 list \<Rightarrow> u8 list" where
  "entry_path path name = path @ [47] @ takeWhile (\<lambda>c. c \<noteq> 0) (take DIRSIZ_U name)"

fun dir_text :: "u16 \<Rightarrow> (u8 list \<Rightarrow> ustat option) \<Rightarrow> u8 list \<Rightarrow> (u16 \<times> u8 list) list \<Rightarrow> u8 list option" where
  "dir_text year stats path [] = Some []"
| "dir_text year stats path ((inum, name) # ds) =
     (if inum = 0 then dir_text year stats path ds
      else
        (let buf = entry_path path name
         in Option.bind
              (if stats buf = None then vsprintf (bytes (''ls: cannot stat %s'' @ [CHR 0x0A])) [UStr buf] else lsfile year stats buf)
              (\<lambda>t. map_option ((@) t) (dir_text year stats path ds))))"

text \<open>
  A path: \<open>open\<close> gives the status of the open file, if \<open>fstat\<close> does, and the entries; \<open>now\<close> is the time.  The messages of
  the first two lines go to descriptor 2.
\<close>

definition ls :: "(u8 list \<Rightarrow> (ustat option \<times> (u16 \<times> u8 list) list) option) \<Rightarrow> (u8 list \<Rightarrow> ustat option) \<Rightarrow> dword
    \<Rightarrow> u8 list \<Rightarrow> u8 list option" where
  "ls opens stats now path =
     (case opens path of
        None \<Rightarrow> vsprintf (bytes (''ls: cannot open %s'' @ [CHR 0x0A])) [UStr path]
      | Some (None, ds) \<Rightarrow> vsprintf (bytes (''ls: cannot stat %s'' @ [CHR 0x0A])) [UStr path]
      | Some (Some st, ds) \<Rightarrow>
          (let year = fst now - 245
           in case stat_type st of
                T_FILE \<Rightarrow> lsfile year stats path
              | T_DIR \<Rightarrow>
                  if length path + 1 + DIRSIZ_U + 1 > 512 then vsprintf (bytes (''ls: path too long'' @ [CHR 0x0A])) []
                  else dir_text year stats path ds
              | T_DEV \<Rightarrow> Some []))"

definition ls_main :: "(u8 list \<Rightarrow> (ustat option \<times> (u16 \<times> u8 list) list) option) \<Rightarrow> (u8 list \<Rightarrow> ustat option) \<Rightarrow> dword
    \<Rightarrow> u8 list list \<Rightarrow> u8 list option" where
  "ls_main opens stats now args = all_text (map (ls opens stats now) (if args = [] then [bytes ''.''] else args))"

end
