(* ===== verification/LsFacts.thy ===== *)
theory LsFacts
  imports Ls
begin

text \<open>
  The line of a file against the array it is built in: the entries of a directory always fit, a long name that is
  given as an argument does not.
\<close>

section \<open>Lengths of formatted fields\<close>

definition sized :: "nat \<Rightarrow> nat \<Rightarrow> u8 list option \<Rightarrow> bool" where
  "sized lo hi t \<longleftrightarrow> (\<exists>x. t = Some x \<and> lo \<le> length x \<and> length x \<le> hi)"

lemma sizedI [intro]: "lo \<le> length x \<Longrightarrow> length x \<le> hi \<Longrightarrow> sized lo hi (Some x)"
  by (auto simp: sized_def)

lemma sized_append:
  "lo \<le> length x \<Longrightarrow> length x \<le> hi \<Longrightarrow> sized lo' hi' t \<Longrightarrow> sized (lo + lo') (hi + hi') (map_option ((@) x) t)"
  by (auto simp: sized_def)

lemma sized_weaken: "sized lo hi t \<Longrightarrow> lo' \<le> lo \<Longrightarrow> hi \<le> hi' \<Longrightarrow> sized lo' hi' t"
  by (auto simp: sized_def)

lemma sized_all_text:
  "list_all2 (\<lambda>(lo, hi) t. sized lo hi t) bs ts \<Longrightarrow> sized (sum_list (map fst bs)) (sum_list (map snd bs)) (all_text ts)"
proof (induction bs ts rule: list_all2_induct)
  case Nil
  then show ?case by (auto simp: sized_def)
next
  case (Cons b bs t ts)
  from Cons(1) obtain x where "t = Some x" "fst b \<le> length x" "length x \<le> snd b"
    by (auto simp: sized_def split: prod.splits)
  with Cons(3) show ?case using sized_append by simp
qed

lemma put_cp_none [simp]: "put_cp False pr cp = cp"
  by (rule put_cp_all)

lemma of_nat_small: "n < 32768 \<Longrightarrow> sint (of_nat n :: u16) = int n"
  using sint16_of_int [of "int n"] by simp

lemma minus_small: "n \<le> m \<Longrightarrow> m < 32768 \<Longrightarrow> unat (of_nat m - of_nat n :: u16) = m - n"
  by (simp add: of_nat_diff [symmetric] unat_of_nat del: of_nat_diff)

text \<open>A field without a precision is as wide as its text, or as asked for.\<close>

lemma putsr_wide:
  "length cp < 32768 \<Longrightarrow> w < 32768 \<Longrightarrow> length (putsr lj pad (of_nat w) False pr cp) = max w (length cp)"
  by (auto simp: putsr_def Let_def slt16_def of_nat_small minus_small)

lemma put_cp_length:
  "0 < w \<Longrightarrow> w < 32768 \<Longrightarrow> length (put_cp True (of_nat w) cp) = min w (length cp)"
proof (induction cp arbitrary: w)
  case (Cons c cp)
  then obtain k where w: "w = Suc k" by (cases w) auto
  then have one: "of_nat w - 1 = (of_nat k :: u16)" by simp
  show ?case
  proof (cases "k = 0")
    case True
    then show ?thesis by (simp add: w sle16_def)
  next
    case False
    then have "\<not> sle16 (of_nat k) 0" using Cons.prems by (simp add: w sle16_def of_nat_small)
    with Cons.IH [of k] Cons.prems False show ?thesis by (simp add: w)
  qed
qed simp

text \<open>A field whose precision is its width has that width.\<close>

lemma putsr_exact:
  assumes "0 < w" "w < 32768" "length cp < 32768"
  shows "length (putsr lj pad (of_nat w) True (of_nat w) cp) = w"
  using assms by (auto simp: putsr_def Let_def slt16_def of_nat_small minus_small put_cp_length)

lemma vsprintf_field:
  assumes "directive fr = ((lj, pad, fw, prf, pr), k # rest)" "k \<in> {100, 111, 120, 117, 99, 115}" "converted k a = Some t"
  shows "vsprintf (37 # fr) (a # as) = map_option ((@) (putsr lj pad fw prf pr t)) (vsprintf rest as)"
  using assms by (subst vsprintf.simps) simp


lemma digits_of_length_10: "n < 10 ^ k \<Longrightarrow> 0 < k \<Longrightarrow> length (digits_of 10 n) \<le> k"
proof (induction k arbitrary: n)
  case (Suc k)
  show ?case
  proof (cases "n < 10 \<or> k = 0")
    case True
    then show ?thesis using Suc.prems by (subst digits_of.simps) auto
  next
    case False
    with Suc show ?thesis by (subst digits_of.simps) auto
  qed
qed simp

lemma digits_of_nonempty: "1 \<le> length (digits_of r n)"
  by (subst digits_of.simps) simp

lemma utoa_length: "1 \<le> length (utoa x 10)" "length (utoa x 10) \<le> 5"
proof -
  have "unat x < 10 ^ 5" by (rule order_less_le_trans [OF unsigned_less]) simp
  then show "1 \<le> length (utoa x 10)" "length (utoa x 10) \<le> 5"
    using digits_of_nonempty [of 10 "unat x"] digits_of_length_10 [of "unat x" 5] by (simp_all add: utoa_numeral)
qed

text \<open>One field of a format.\<close>

lemma sized_unsigned:
  assumes "directive fr = ((lj, pad, of_nat w, False, 0), 117 # rest)" "w < 32768" "sized lo hi (vsprintf rest as)"
  shows "sized (max w 1 + lo) (max w 5 + hi) (vsprintf (37 # fr) (UInt x # as))"
proof -
  have "length (putsr lj pad (of_nat w) False 0 (utoa x 10)) = max w (length (utoa x 10))"
    using utoa_length [of x] assms(2) by (simp add: putsr_wide)
  with assms(3) utoa_length [of x] show ?thesis
    by (subst vsprintf_field [OF assms(1)]) (auto simp: converted_def intro!: sized_append)
qed

lemma sized_char:
  assumes "i2c x \<noteq> 0" "sized lo hi (vsprintf fr as)"
  shows "sized (1 + lo) (1 + hi) (vsprintf (37 # 99 # fr) (UInt x # as))"
proof -
  have "vsprintf (37 # 99 # fr) (UInt x # as) = map_option ((@) [i2c x]) (vsprintf fr as)"
    by (rule vsprintf_simple) (use assms(1) in \<open>auto simp: converted_def\<close>)
  then show ?thesis using assms(2) by (simp only:) (rule sized_append, simp_all)
qed

lemma sized_exact:
  assumes "directive fr = ((lj, pad, of_nat w, True, of_nat w), 115 # rest)" "0 < w" "w < 32768" "length t < 32768"
    "sized lo hi (vsprintf rest as)"
  shows "sized (w + lo) (w + hi) (vsprintf (37 # fr) (UStr t # as))"
proof -
  have "length (takeWhile (\<lambda>c. c \<noteq> 0) t) < 32768"
    using assms(4) length_takeWhile_le [of "\<lambda>c. c \<noteq> 0" t] by linarith
  then have "length (putsr lj pad (of_nat w) True (of_nat w) (takeWhile (\<lambda>c. c \<noteq> 0) t)) = w"
    by (rule putsr_exact [OF assms(2,3)])
  with assms(5) show ?thesis
    by (subst vsprintf_field [OF assms(1)]) (auto simp: converted_def intro!: sized_append)
qed

lemma sized_plain: "c \<noteq> 37 \<Longrightarrow> sized lo hi (vsprintf fr as) \<Longrightarrow> sized (1 + lo) (1 + hi) (vsprintf (c # fr) as)"
  using vsprintf_plain [of "[c]" fr as] sized_append [of 1 "[c]" 1] by auto

lemma sized_end: "sized 0 0 (vsprintf [] [])"
  by (simp add: vsprintf.simps sizedI)


text \<open>The directives that are used.\<close>

lemma directives:
  "directive (117 # fr) = ((False, 32, 0, False, 0), 117 # fr)"
  "directive (51 # 117 # fr) = ((False, 32, 3, False, 0), 117 # fr)"
  "directive (55 # 117 # fr) = ((False, 32, 7, False, 0), 117 # fr)"
  "directive (45 # 55 # 46 # 55 # 115 # fr) = ((True, 32, 7, True, 7), 115 # fr)"
  "directive (45 # 52 # 46 # 52 # 115 # fr) = ((True, 32, 4, True, 4), 115 # fr)"
  "directive (45 # 49 # 50 # 46 # 49 # 50 # 115 # fr) = ((True, 32, 12, True, 12), 115 # fr)"
  by (simp_all add: directive_def skip_flag_def precision_def)

lemma sized_u: "sized lo hi (vsprintf fr as) \<Longrightarrow> sized (1 + lo) (5 + hi) (vsprintf (37 # 117 # fr) (UInt x # as))"
  using sized_unsigned [of "117 # fr" False 32 0 fr] by (simp add: directives)

lemma sized_u3: "sized lo hi (vsprintf fr as) \<Longrightarrow> sized (3 + lo) (5 + hi) (vsprintf (37 # 51 # 117 # fr) (UInt x # as))"
  using sized_unsigned [of "51 # 117 # fr" False 32 3 fr] by (simp add: directives)

lemma sized_u7: "sized lo hi (vsprintf fr as) \<Longrightarrow> sized (7 + lo) (7 + hi) (vsprintf (37 # 55 # 117 # fr) (UInt x # as))"
  using sized_unsigned [of "55 # 117 # fr" False 32 7 fr] by (simp add: directives)

lemma sized_s7: "length t < 32768 \<Longrightarrow> sized lo hi (vsprintf fr as)
    \<Longrightarrow> sized (7 + lo) (7 + hi) (vsprintf (37 # 45 # 55 # 46 # 55 # 115 # fr) (UStr t # as))"
  using sized_exact [of "45 # 55 # 46 # 55 # 115 # fr" True 32 7 fr] by (simp add: directives)

lemma sized_s4: "length t < 32768 \<Longrightarrow> sized lo hi (vsprintf fr as)
    \<Longrightarrow> sized (4 + lo) (4 + hi) (vsprintf (37 # 45 # 52 # 46 # 52 # 115 # fr) (UStr t # as))"
  using sized_exact [of "45 # 52 # 46 # 52 # 115 # fr" True 32 4 fr] by (simp add: directives)

lemma sized_s12: "length t < 32768 \<Longrightarrow> sized lo hi (vsprintf fr as)
    \<Longrightarrow> sized (12 + lo) (12 + hi) (vsprintf (37 # 45 # 49 # 50 # 46 # 49 # 50 # 115 # fr) (UStr t # as))"
  using sized_exact [of "45 # 49 # 50 # 46 # 49 # 50 # 115 # fr" True 32 12 fr] by (simp add: directives)

section \<open>The parts of the line\<close>

lemma permissions_sized:
  "i2c a \<noteq> 0 \<Longrightarrow> i2c b \<noteq> 0 \<Longrightarrow> i2c c \<noteq> 0 \<Longrightarrow> sized 3 3 (vsprintf (bytes ''%c%c%c'') [UInt a, UInt b, UInt c])"
  "i2c a \<noteq> 0 \<Longrightarrow> i2c b \<noteq> 0 \<Longrightarrow> i2c c \<noteq> 0 \<Longrightarrow> sized 4 4 (vsprintf (bytes ''%c%c%c '') [UInt a, UInt b, UInt c])"
proof -
  assume n: "i2c a \<noteq> 0" "i2c b \<noteq> 0" "i2c c \<noteq> 0"
  have f: "bytes ''%c%c%c'' = [37, 99, 37, 99, 37, 99]" "bytes ''%c%c%c '' = [37, 99, 37, 99, 37, 99, 32]"
    by (simp_all add: bytes_def)
  have "sized (1 + (1 + (1 + 0))) (1 + (1 + (1 + 0))) (vsprintf (bytes ''%c%c%c'') [UInt a, UInt b, UInt c])"
    unfolding f by (intro sized_char sized_end n)
  then show "sized 3 3 (vsprintf (bytes ''%c%c%c'') [UInt a, UInt b, UInt c])" by (simp add: numeral_3_eq_3)
  have "sized (1 + (1 + (1 + (1 + 0)))) (1 + (1 + (1 + (1 + 0)))) (vsprintf (bytes ''%c%c%c '') [UInt a, UInt b, UInt c])"
    unfolding f by (intro sized_char sized_plain sized_end n) simp
  then show "sized 4 4 (vsprintf (bytes ''%c%c%c '') [UInt a, UInt b, UInt c])" by (simp add: eval_nat_numeral)
qed

lemma links_sized:
  "sized 8 18 (vsprintf (bytes ''%3u %u/%u '') [UInt a, UInt b, UInt c])"
  "sized 16 26 (vsprintf (bytes ''%3u %u/%u         '') [UInt a, UInt b, UInt c])"
  "sized 8 8 (vsprintf (bytes ''%7u '') [UInt a])"
proof -
  have f: "bytes ''%3u %u/%u '' = [37, 51, 117, 32, 37, 117, 47, 37, 117, 32]"
    "bytes ''%3u %u/%u         '' = [37, 51, 117, 32, 37, 117, 47, 37, 117, 32, 32, 32, 32, 32, 32, 32, 32, 32]"
    "bytes ''%7u '' = [37, 55, 117, 32]"
    by (simp_all add: bytes_def)
  have "sized (3 + (1 + (1 + (1 + (1 + (1 + 0)))))) (5 + (1 + (5 + (1 + (5 + (1 + 0)))))) (vsprintf (bytes ''%3u %u/%u '') [UInt a, UInt b, UInt c])"
    unfolding f by (intro sized_u3 sized_u sized_plain sized_end) simp_all
  then show "sized 8 18 (vsprintf (bytes ''%3u %u/%u '') [UInt a, UInt b, UInt c])" by simp
  have "sized (3 + (1 + (1 + (1 + (1 + (1 + (1 + (1 + (1 + (1 + (1 + (1 + (1 + (1 + 0))))))))))))))
      (5 + (1 + (5 + (1 + (5 + (1 + (1 + (1 + (1 + (1 + (1 + (1 + (1 + (1 + 0))))))))))))))
      (vsprintf (bytes ''%3u %u/%u         '') [UInt a, UInt b, UInt c])"
    unfolding f by (intro sized_u3 sized_u sized_plain sized_end) simp_all
  then show "sized 16 26 (vsprintf (bytes ''%3u %u/%u         '') [UInt a, UInt b, UInt c])" by simp
  have "sized (7 + (1 + 0)) (7 + (1 + 0)) (vsprintf (bytes ''%7u '') [UInt a])"
    unfolding f by (intro sized_u7 sized_plain sized_end) simp_all
  then show "sized 8 8 (vsprintf (bytes ''%7u '') [UInt a])" by simp
qed

lemma cbuf_length: "length (put3 k cs b) = length b" "length (ct_numb k n b) = length b"
  by (simp_all add: put3_def ct_numb_def)

lemma date_sized:
  assumes "ctime tm = Some cp"
  shows "sized 13 13 (date_text year tm)"
proof -
  have "length cp = 25"
    using assms by (auto simp: ctime_def asctime_def Let_def cbuf_length bytes_def split: if_splits)
  then have n: "length (drop 4 cp) < 32768" "length (drop 20 cp) < 32768" by simp_all
  have f: "bytes '' %-7.7s %-4.4s'' = [32, 37, 45, 55, 46, 55, 115, 32, 37, 45, 52, 46, 52, 115]"
    "bytes '' %-12.12s'' = [32, 37, 45, 49, 50, 46, 49, 50, 115]"
    by (simp_all add: bytes_def)
  have "sized (1 + (7 + (1 + (4 + 0)))) (1 + (7 + (1 + (4 + 0))))
      (vsprintf (bytes '' %-7.7s %-4.4s'') [UStr (drop 4 cp), UStr (drop 20 cp)])"
    unfolding f by (intro sized_s7 sized_s4 sized_plain sized_end n) simp_all
  moreover have "sized (1 + (12 + 0)) (1 + (12 + 0)) (vsprintf (bytes '' %-12.12s'') [UStr (drop 4 cp)])"
    unfolding f by (intro sized_s12 sized_plain sized_end n) simp_all
  ultimately show ?thesis using assms by (simp add: date_text_def)
qed


lemma char_nonzero: "i2c (flag_char f b c) \<noteq> 0" if "i2c c \<noteq> 0"
  using that by (simp add: flag_char_def)

lemma perm_sized: "list_all2 (\<lambda>(lo, hi) t. sized lo hi t) [(3, 3), (3, 3), (4, 4)] (perm_text f)"
  unfolding perm_text_def
  by (intro list.rel_intros; simp only: prod.case; intro permissions_sized char_nonzero; simp)

lemma size_sized: "sized 16 26 (all_text (size_text st))"
proof (cases "st_flags st AND S_TYPE \<noteq> 0x2000 \<and> st_flags st AND S_TYPE \<noteq> 0x6000")
  case True
  then have "list_all2 (\<lambda>(lo, hi) t. sized lo hi t) [(8, 18), (8, 8)] (size_text st)"
    by (simp add: size_text_def links_sized)
  from sized_all_text [OF this] show ?thesis by simp
next
  case False
  then have "list_all2 (\<lambda>(lo, hi) t. sized lo hi t) [(16, 26)] (size_text st)"
    by (auto simp: size_text_def links_sized)
  from sized_all_text [OF this] show ?thesis by simp
qed

lemma name_sized:
  assumes "0 \<notin> set t" "length t < 32768"
  shows "sized (length t + 2) (length t + 2) (vsprintf (bytes ('' %s'' @ [CHR 0x0A])) [UStr t])"
proof -
  have w: "takeWhile (\<lambda>c. c \<noteq> 0) t = t" using assms(1) by (auto simp: takeWhile_eq_all_conv)
  have "vsprintf (37 # 115 # [10]) [UStr t] = map_option ((@) t) (vsprintf [10] [])"
    by (rule vsprintf_simple) (use assms(2) w in \<open>auto simp: converted_def\<close>)
  also have "sized (length t + (1 + 0)) (length t + (1 + 0)) \<dots>"
    by (intro sized_append sized_plain sized_end) simp_all
  finally have "sized (1 + (length t + (1 + 0))) (1 + (length t + (1 + 0))) (vsprintf (32 # 37 # 115 # [10]) [UStr t])"
    by (intro sized_plain) simp_all
  then show ?thesis by (simp add: bytes_def)
qed

lemma all_text_append: "all_text (as @ bs) = Option.bind (all_text as) (\<lambda>a. map_option ((@) a) (all_text bs))"
  by (induction as) (auto simp: map_option_case split: option.splits Option.bind_splits)

text \<open>All of the line.\<close>

lemma line_sized:
  assumes "0 \<notin> set (fmtname path)" "length (fmtname path) < 32768" "ctime (st_modtime st) = Some cp"
  shows "sized (length (fmtname path) + 42) (length (fmtname path) + 52)
    (all_text ([Some [type_char (st_flags st)]] @ perm_text (st_flags st) @ size_text st
          @ [date_text year (st_modtime st), vsprintf (bytes ('' %s'' @ [CHR 0x0A])) [UStr (fmtname path)]]))"
proof -
  let ?n = "length (fmtname path) + 2"
  let ?t = "[date_text year (st_modtime st), vsprintf (bytes ('' %s'' @ [CHR 0x0A])) [UStr (fmtname path)]]"
  have "list_all2 (\<lambda>(lo, hi) t. sized lo hi t) [(13, 13), (?n, ?n)] ?t"
    using date_sized [OF assms(3)] name_sized [OF assms(1,2)] by simp
  note tail = sized_all_text [OF this]
  have "list_all2 (\<lambda>(lo, hi) t. sized lo hi t) ((1, 1) # [(3, 3), (3, 3), (4, 4)])
      (Some [type_char (st_flags st)] # perm_text (st_flags st))"
    by (intro list.rel_intros perm_sized) auto
  from sized_all_text [OF this] obtain a where a: "all_text (Some [type_char (st_flags st)] # perm_text (st_flags st)) = Some a" "length a = 11"
    by (force simp: sized_def)
  from size_sized obtain b where b: "all_text (size_text st) = Some b" "16 \<le> length b" "length b \<le> 26"
    by (force simp: sized_def)
  from tail obtain c where c: "all_text ?t = Some c" "length c = 13 + ?n"
    by (force simp: sized_def)
  have "all_text ((Some [type_char (st_flags st)] # perm_text (st_flags st)) @ size_text st @ ?t) = Some (a @ b @ c)"
    by (simp only: all_text_append a b c bind.simps option.simps)
  with a(2) b(2,3) c(2) show ?thesis by (auto simp: sized_def)
qed


section \<open>Dates\<close>

text \<open>\<open>ctime\<close> is defined up to an hour before its day number wraps.\<close>

lemma gmtime_in_tables:
  assumes "dval tim < 943718400"
  shows "0 \<le> WDAY (gmtime tim) \<and> WDAY (gmtime tim) < 7 \<and> 0 \<le> MON (gmtime tim) \<and> MON (gmtime tim) < 12"
proof -
  from gmtime_parts [OF assms] obtain y yday mon d where
    y: "year_loop 70 (int (dval tim div 86400)) = (y, yday)" and m: "month_loop (months y) 0 yday = (mon, d)"
    and g: "MON (gmtime tim) = mon" "WDAY (gmtime tim) = int ((dval tim div 86400 + 4) mod 7)" by auto
  from year_loop_result [OF _ y] have Y: "0 \<le> yday" "yday < dysize y" by auto
  from month_loop_result [OF Y(1) _ m] obtain i where "i < 12" "mon = int i" using Y(2) by (auto simp: months_total)
  with g show ?thesis by simp
qed

lemma dpadd_u_value:
  assumes "dval tim + 3600 < 943718400"
  shows "dval (dpadd_u tim 3600) = dval tim + 3600"
proof -
  let ?lo = "unat (snd tim)" and ?hi = "unat (fst tim)"
  have T: "dval tim = ?hi * 65536 + ?lo" by (simp add: dval_def)
  have hi: "?hi < 32768" using assms T by linarith
  have lo: "?lo < 65536" by (rule order_less_le_trans [OF unsigned_less]) simp
  have s: "unat (snd tim + 3600) = (?lo + 3600) mod 65536" by (simp add: unat_word_ariths)
  have h: "unat (fst tim + 1) = ?hi + 1" using hi by (simp add: unat_word_ariths)
  have d: "dpadd_u tim 3600 = (if snd tim + 3600 < 3600 then fst tim + 1 else fst tim, snd tim + 3600)"
    by (simp add: dpadd_u_def Let_def)
  have c: "snd tim + 3600 < 3600 \<longleftrightarrow> (?lo + 3600) mod 65536 < 3600" by (simp add: word_less_nat_alt s)
  show ?thesis
  proof (cases "?lo + 3600 < 65536")
    case True
    then have m: "(?lo + 3600) mod 65536 = ?lo + 3600" by simp
    have "\<not> (?lo + 3600) mod 65536 < 3600" unfolding m by linarith
    with c have "\<not> snd tim + 3600 < 3600" by blast
    then have "dpadd_u tim 3600 = (fst tim, snd tim + 3600)" by (simp only: d if_False)
    then have "dval (dpadd_u tim 3600) = 65536 * ?hi + (?lo + 3600)" by (simp only: dval_def fst_conv snd_conv s m)
    then show ?thesis using T by linarith
  next
    case False
    then have "(?lo + 3600) mod 65536 = (?lo + 3600 - 65536) mod 65536" by (intro le_mod_geq) linarith
    also have "\<dots> = ?lo + 3600 - 65536" using lo by (intro mod_less) linarith
    finally have m: "(?lo + 3600) mod 65536 = ?lo + 3600 - 65536" .
    have "(?lo + 3600) mod 65536 < 3600" unfolding m using lo by linarith
    with c have "snd tim + 3600 < 3600" by blast
    then have "dpadd_u tim 3600 = (fst tim + 1, snd tim + 3600)" by (simp only: d if_True)
    then have "dval (dpadd_u tim 3600) = 65536 * (?hi + 1) + (?lo + 3600 - 65536)"
      by (simp only: dval_def fst_conv snd_conv s h m)
    moreover obtain e where "?lo + 3600 = 65536 + e" using False by (metis le_Suc_ex not_less)
    ultimately show ?thesis using T by simp
  qed
qed

lemma ctime_defined:
  assumes "dval tim + 3600 < 943718400"
  shows "\<exists>cp. ctime tim = Some cp"
proof -
  have "localtime tim = gmtime tim
      \<or> localtime tim = (gmtime (dpadd_u tim 3600))\<lparr>ISDAY := ISDAY (gmtime (dpadd_u tim 3600)) + 1\<rparr>"
    unfolding localtime_def Let_def by (auto split: prod.split)
  then show ?thesis
    using assms gmtime_in_tables [of tim] gmtime_in_tables [of "dpadd_u tim 3600"] dpadd_u_value [of tim]
    by (elim disjE) (simp_all add: ctime_def asctime_def Let_def)
qed

section \<open>Names\<close>

definition last_name :: "u8 list \<Rightarrow> u8 list" where
  "last_name path = rev (takeWhile (\<lambda>c. c \<noteq> 47) (rev path))"

lemma fmtname_length: "length (fmtname path) = max 14 (length (last_name path))"
  by (simp add: fmtname_def last_name_def Let_def DIRSIZ_U_def)

lemma fmtname_nul: "0 \<notin> set path \<Longrightarrow> 0 \<notin> set (fmtname path)"
  by (auto simp: fmtname_def Let_def dest: set_takeWhileD)

text \<open>A path as an argument: \<open>t\<close> is what its line would be.\<close>

lemma line_fits:
  assumes "0 \<notin> set path" "length (last_name path) \<le> 27" "ctime (st_modtime st) \<noteq> None"
  shows "\<exists>t. ls_line year path st = Some t"
proof -
  obtain cp where cp: "ctime (st_modtime st) = Some cp" using assms(3) by blast
  have "length (fmtname path) \<le> 27" using assms(2) by (simp add: fmtname_length)
  with line_sized [OF fmtname_nul [OF assms(1)] _ cp, of year] show ?thesis
    unfolding ls_line_def sized_def by fastforce
qed

lemma line_overruns:
  assumes "0 \<notin> set path" "38 \<le> length (last_name path)" "length path < 32768" "ctime (st_modtime st) \<noteq> None"
  shows "ls_line year path st = None"
proof -
  obtain cp where cp: "ctime (st_modtime st) = Some cp" using assms(4) by blast
  have "length (last_name path) \<le> length path"
    using length_takeWhile_le [of "\<lambda>c. c \<noteq> 47" "rev path"] by (simp add: last_name_def)
  with assms(2,3) have "38 \<le> length (fmtname path)" "length (fmtname path) < 32768" by (auto simp: fmtname_length)
  with line_sized [OF fmtname_nul [OF assms(1)] _ cp, of year] show ?thesis
    unfolding ls_line_def sized_def by fastforce
qed

text \<open>The path of an entry ends in at most 14 characters.\<close>

lemma takeWhile_stops: "\<not> P y \<Longrightarrow> length (takeWhile P (xs @ y # ys)) \<le> length xs"
  by (induction xs) auto

lemma entry_path_last: "length (last_name (entry_path path name)) \<le> 14"
proof -
  let ?n = "takeWhile (\<lambda>c. c \<noteq> 0) (take DIRSIZ_U name)"
  have "length (last_name (entry_path path name)) \<le> length ?n"
    using takeWhile_stops [of "\<lambda>c. c \<noteq> 47" 47 "rev ?n" "rev path"] by (simp add: last_name_def entry_path_def)
  moreover have "length ?n \<le> 14"
    using length_takeWhile_le [of "\<lambda>c. c \<noteq> 0" "take DIRSIZ_U name"] by (simp add: DIRSIZ_U_def)
  ultimately show ?thesis by simp
qed

lemma entry_path_nul: "0 \<notin> set path \<Longrightarrow> 0 \<notin> set (entry_path path name)"
  by (auto simp: entry_path_def dest: set_takeWhileD)

lemma message_defined: "length t < 32768 \<Longrightarrow> \<exists>x. vsprintf (bytes (''ls: cannot stat %s'' @ [CHR 0x0A])) [UStr t] = Some x"
proof -
  assume t: "length t < 32768"
  have w: "length (takeWhile (\<lambda>c. c \<noteq> 0) t) < 32768"
    using t length_takeWhile_le [of "\<lambda>c. c \<noteq> 0" t] by linarith
  have "vsprintf (bytes ''ls: cannot stat '' @ 37 # 115 # [10]) [UStr t]
      = map_option ((@) (bytes ''ls: cannot stat '')) (vsprintf (37 # 115 # [10]) [UStr t])"
    by (rule vsprintf_plain) (simp add: bytes_def)
  also have "vsprintf (37 # 115 # [10]) [UStr t] = map_option ((@) (takeWhile (\<lambda>c. c \<noteq> 0) t)) (vsprintf [10] [])"
    by (rule vsprintf_simple) (use w in \<open>auto simp: converted_def\<close>)
  finally show ?thesis by (auto simp: bytes_def vsprintf.simps)
qed

lemma entry_path_short: "length path < 32000 \<Longrightarrow> length (entry_path path name) < 32768"
  using length_takeWhile_le [of "\<lambda>c. c \<noteq> 0" "take DIRSIZ_U name"] by (auto simp: entry_path_def DIRSIZ_U_def)

lemma file_text:
  assumes "0 \<notin> set path" "length (last_name path) \<le> 27" "length path < 32768"
    "\<And>st. stats path = Some st \<Longrightarrow> ctime (st_modtime st) \<noteq> None"
  shows "\<exists>t. lsfile year stats path = Some t"
  using line_fits [OF assms(1,2)] message_defined [OF assms(3)] assms(4) by (auto simp: lsfile_def split: option.splits)

text \<open>
  C39: \<open>ls\<close> on a directory never leaves the array it builds a line in: whatever the entries of the directory are and
  whatever the status of each of them, numbers of every size included, every line is built and there is an output, as
  long as the dates are in the range of \<open>ctime\<close>.  For a name given as an argument that holds when its last component
  has at most 27 characters, and never when it has 38 and more.
\<close>
theorem ls_lines_fit:
  assumes "0 \<notin> set path" "length path + 1 + DIRSIZ_U + 1 \<le> 512"
    "\<forall>p st. stats p = Some st \<longrightarrow> dval (st_modtime st) + 3600 < 943718400"
  shows "(\<exists>t. dir_text year stats path ds = Some t)
    \<and> (length (last_name path) \<le> 27 \<longrightarrow> (\<exists>t. lsfile year stats path = Some t))
    \<and> (38 \<le> length (last_name path) \<and> stats path \<noteq> None \<longrightarrow> lsfile year stats path = None)"
proof (intro conjI impI)
  have dates: "ctime (st_modtime st) \<noteq> None" if "stats p = Some st" for p st
    using ctime_defined [of "st_modtime st"] assms(3) that by auto
  have n: "length path < 32000" using assms(2) by simp
  show "\<exists>t. dir_text year stats path ds = Some t"
  proof (induction ds)
    case (Cons d ds)
    then obtain t where t: "dir_text year stats path ds = Some t" by blast
    obtain inum name where d: "d = (inum, name)" by (cases d)
    have "\<exists>x. lsfile year stats (entry_path path name) = Some x"
      by (rule file_text) (use entry_path_nul [OF assms(1)] entry_path_last [of path name] entry_path_short [OF n] dates in auto)
    with t message_defined [OF entry_path_short [OF n], of name] show ?case by (auto simp: d Let_def)
  qed simp
  show "\<exists>t. lsfile year stats path = Some t" if "length (last_name path) \<le> 27"
    by (rule file_text) (use assms(1) n dates that in auto)
  show "lsfile year stats path = None" if "38 \<le> length (last_name path) \<and> stats path \<noteq> None"
    using line_overruns [OF assms(1), of _ year] n dates that by (auto simp: lsfile_def)
qed

lemma ls_lines_fit_witness:
  "\<exists>t. dir_text 0 (\<lambda>p. Some \<lparr>st_flags = 0x81B6, st_nlinks = 1, st_uid = 255, st_gid = 3, st_size1 = 65535, st_addr0 = 9,
      st_modtime = (77, 54989)\<rparr>) (bytes ''usr'') [(1, bytes ''.''), (0, bytes ''gone''), (7, bytes ''abcdefghijklmn'')] = Some t"
proof -
  have "dval (77, 54989) = 5101261" by (simp add: dval_def)
  then show ?thesis
    using ls_lines_fit [of "bytes ''usr''" "\<lambda>p. Some \<lparr>st_flags = 0x81B6, st_nlinks = 1, st_uid = 255, st_gid = 3, st_size1 = 65535,
      st_addr0 = 9, st_modtime = (77, 54989)\<rparr>" 0 "[(1, bytes ''.''), (0, bytes ''gone''), (7, bytes ''abcdefghijklmn'')]"]
    by (simp add: DIRSIZ_U_def bytes_def)
qed

end
