(* ===== verification/Spec2Isabelle.thy ===== *)
theory Spec2Isabelle
  imports Boot ClistQueue SignalFacts BmapFacts TtyFacts ProcFacts LockFacts Grep Uprintf ShRunFacts MkfsFacts UlibFacts
    EdTable EdSub EdCompile Stty Df Mount PsFacts Fib LsFacts
begin

text \<open>
  A model of the RealXV6 system, the port of UNIX V6 to the 8086 in real mode: its kernel (\<open>ken/\<close>, \<open>dmr/\<close>,
  \<open>h/\<close>) and the user programs with logic of their own (\<open>usr/\<close>), and the theorems that make its parts correct.

  \<^bold>\<open>The kernel\<close> is one state, \<open>kst\<close> of theory \<open>KState\<close>: the user structure \<open>u\<close> (\<open>usr\<close>), the tables
  \<open>proc\<close>, \<open>text\<close>, \<open>inode\<close>, \<open>file\<close>, \<open>mount\<close>, the buffer headers, the resource maps, the
  callouts, the terminal, and behind them the machine: physical memory by byte, the disk by
  sector, the characters on the console.  A routine that cannot wait is a function on \<open>kst\<close>.  A
  routine that can is a function to \<open>'a kres\<close>: it returns, or stops asleep on a channel, in a long
  jump to \<open>u_qsav\<close>, in a panic, for good in \<open>exit\<close>, or with the bound of a retry loop used up.
  \<open>andthen\<close> composes them.

  Layers, each calling those before it:

    \<^item> \<open>Prelude\<close>, \<open>Arith\<close>: C conversions, flags, table searches; \<open>dpadd\<close>, \<open>dpcmp\<close>, \<open>lshift\<close> and the
      rest of \<open>dmr/pc.c\<close>.
    \<^item> \<open>CoreMap\<close> (\<open>ken/malloc.c\<close>), \<open>Callout\<close> (\<open>timeout\<close> and \<open>clock\<close> of \<open>ken/clock.c\<close>), \<open>Clist\<close>,
      \<open>ClistQueue\<close> (the character lists of \<open>dmr/tty.c\<close>): self-contained data structures.
    \<^item> \<open>KState\<close>: the data.  \<open>Prf\<close>: \<open>ken/prf.c\<close>.
    \<^item> \<open>Sched\<close>: \<open>ken/slp.c\<close>, \<open>ken/sig.c\<close> and the accounting of the clock; \<open>SchedFacts\<close>, \<open>SignalFacts\<close>.
    \<^item> \<open>BufList\<close>, \<open>Disk\<close>, \<open>Bio\<close>: \<open>dmr/bio.c\<close>, \<open>dmr/rk.c\<close>, \<open>dmr/ide.c\<close>; \<open>BufRing\<close>, \<open>BufFacts\<close>,
      \<open>CacheFacts\<close>, \<open>DiskFacts\<close>.
    \<^item> \<open>Alloc\<close>, \<open>Inode\<close>, \<open>UserIO\<close>, \<open>Rdwri\<close>, \<open>Fio\<close>, \<open>Nami\<close>, \<open>Pipe\<close>: the file system (\<open>ken/alloc.c\<close>,
      \<open>ken/iget.c\<close>, \<open>ken/subr.c\<close>, \<open>ken/rdwri.c\<close>, \<open>ken/fio.c\<close>, \<open>ken/nami.c\<close>, \<open>ken/pipe.c\<close>,
      \<open>dmr/mem.c\<close>); \<open>FsFacts\<close>, \<open>BmapFacts\<close>, \<open>IoFacts\<close> on the free list, the block map and the transfers,
      \<open>LockFacts\<close> on the inode lock under any interleaving of processes.
    \<^item> \<open>Kbd\<close>, \<open>Tty\<close>: the console (\<open>dmr/kbd.c\<close>, \<open>dmr/kl.c\<close>, \<open>dmr/tty.c\<close>); \<open>TtyFacts\<close> on the editing of input
      lines.
    \<^item> \<open>Sys1\<close>, \<open>Sys2\<close>, \<open>Sys4\<close>: processes and the system calls (\<open>ken/sys1.c\<close> to \<open>ken/sys4.c\<close>,
      \<open>ken/text.c\<close>, \<open>ken/trap.c\<close>, \<open>ken/sysent.c\<close>); \<open>ProcFacts\<close>; \<open>Boot\<close>: \<open>ken/main.c\<close>.

  \<^bold>\<open>The user programs\<close> see the kernel through system calls only, so each is a model of its own whose state
  is what the program keeps and whose calls are inputs and outputs:

    \<^item> \<open>UserLib\<close>: lemmas they share.  \<open>Ulib\<close>, \<open>UlibFacts\<close>: the library (\<open>usr/ulib.c\<close>); \<open>Uprintf\<close>: its formatted
      output (\<open>usr/printf.c\<close>); \<open>Ctime\<close>: dates (\<open>usr/ctime.c\<close>).
    \<^item> \<open>Sh\<close>, \<open>ShFacts\<close>: the parser of the shell (\<open>usr/sh.c\<close>), against printed commands; \<open>ShRun\<close>, \<open>ShRunFacts\<close>: what it
      does with a command, as the tree of system calls of the processes it makes, against the plumbing meant.
    \<^item> \<open>Grep\<close>: \<open>usr/grep.c\<close>, against the language of expressions.
    \<^item> \<open>Mkfs\<close>, \<open>MkfsFacts\<close>: the file system builder (\<open>usr/mkfs.c\<close>; \<open>tools/mkfs.c\<close> is the same text for the host); its
      image is read with the layout of the kernel's \<open>Alloc\<close> and \<open>Inode\<close>.
    \<^item> \<open>EdBuf\<close>, \<open>EdRe\<close>, \<open>EdCmd\<close>: the editor (\<open>usr/ed.c\<close>) as one state \<open>edst\<close> with the terminal, the temporary file, the
      line table and the buffers; a routine gives an \<open>'a eres\<close>: a value, the jump of an error back to \<open>main\<close>, \<open>exit\<close>, or an
      undefined access.  \<open>EdTmp\<close>: the temporary file is a store of lines (locale \<open>line_store\<close>); \<open>EdTable\<close>: the line
      table is a list; \<open>EdMatch\<close>: the matcher decides the language of its code; \<open>EdCompile\<close>: the code stands for what was
      typed; \<open>EdSub\<close>: substitution.
    \<^item> \<open>Ps\<close>: \<open>usr/ps.c\<close>; \<open>PsFacts\<close> puts it behind \<open>exec_stack\<close> and \<open>psinfo_frame\<close> of the kernel: the words of a command come
      out as they went in.  \<open>Df\<close>: \<open>usr/df.c\<close>, which counts what \<open>mkfs\<close> puts on the free list.
    \<^item> \<open>Ls\<close>, \<open>LsFacts\<close>: \<open>usr/ls.c\<close> and the array it builds a line in; \<open>Mount\<close>: \<open>usr/mount.c\<close> and \<open>usr/umount.c\<close>, which undo
      each other on \<open>/etc/mtab\<close> but for one case; \<open>Stty\<close>: \<open>usr/stty.c\<close>, whose modes read back as they were printed (lemma
      \<open>stty_reads_back\<close>); \<open>Fib\<close>: \<open>usr/fib.c\<close>, whose digits are those of the Fibonacci numbers (lemma \<open>fib_prints_exactly\<close>).

  Representation.  A table is a function of the index, a pointer into it is the index and a
  pointer that may be null an option; buffers, which are linked by pointers, are numbered from 1
  with 0 as null.  Chars are 8-bit and signed where they are promoted, ints are 16-bit words,
  \<open>long\<close> values 32-bit; the source's types decide whether a comparison is signed.  Names that are
  Isabelle keywords or constants, or that two programs share, are changed a little: \<open>sys_open\<close>,
  \<open>sys_write\<close>, \<open>max_u\<close>, \<open>ktime\<close>, \<open>ed_putc\<close>, \<open>mk_alloc\<close>.

  Bounds.  Loops over tables and lists have the size of the table.  Retry loops around \<open>sleep\<close>
  have \<open>SPINS\<close> = 100 turns: each turn needs a wakeup, and in the model only the disk makes one
  happen.  A sleeping process takes up to \<open>AWAIT\<close> = 1000 disk interrupts, more than the 16
  requests of the cache and the 128 sectors of the largest swap.  Transfers are bounded by the
  byte count, path names by 65536 characters, the size of the address space.  The parser of the shell has
  a bound that its termination theorem shows to be enough; the nesting of \<open>mkfs\<close> is bounded by the length of the
  prototype (\<open>cfile_fuel\<close>); string loops have 65537 turns, one more than there are addresses.  In the editor a loop that
  reads the input is bounded by what is left of it, a loop over a buffer by the buffer, a loop over the line table
  by its 4096 entries; the turns of \<open>commands\<close> are an argument.  \<open>df_count\<close> has an argument for its turns, and 65536
  are enough for a list without a cycle; the loops of \<open>prcom\<close> (8 words) and \<open>fibonacci_sequence\<close> (254 numbers) are
  counted in the source.

  Not modelled: the interrupt priority (\<open>spl\<close>, \<open>getps\<close>): interrupts are taken where a process
  sleeps; the saved stacks and \<open>save\<close>/\<open>resume\<close>/\<open>savu\<close> (assembly): where \<open>swtch\<close> would go on with
  another process the outcome says so; \<open>core()\<close>, \<open>ptrace\<close> and \<open>stop\<close>, which are stubs or depend
  on the saved stacks; \<open>rkaddr\<close>, which is not called; \<open>isr_router\<close> and \<open>check_runrun\<close>; the serial
  back end \<open>dmr/uart.c\<close>, which a build option selects instead of the keyboard and the BIOS; the signals of the editor;
  the small commands of \<open>usr/\<close> that are a few system calls around a loop over their arguments; the array of 200
  characters \<open>printf\<close> formats into.
\<close>

end
